(* ===== verification/Gateway_Prelude.thy ===== *)
theory Gateway_Prelude
  imports
    Main
    "HOL-Library.Word"
    "HOL-Library.AList"
    "HOL-Library.Char_ord"
    "HOL-Library.List_Lexorder"
    "HOL-Library.Product_Lexorder"
    "HOL-Library.Signed_Division"
    "HOL-Library.Multiset"
begin

text \<open>
  Shared ground of the development: Go's machine integers, the string and number-parsing
  functions of Go's standard library that the gateway calls, nil-able slices, map updates on
  association lists, and the locales that several components interpret.

  Conventions.
  \<^item> A Go \<open>string\<close> is a list of bytes, here \<^typ>\<open>string\<close>; \<open>strings.ToLower\<close>, \<open>TrimSpace\<close>
    and \<open>EqualFold\<close> are modelled on ASCII text, which addresses, hashes and tags are.
  \<^item> \<open>int64\<close> and \<open>int\<close> are \<^typ>\<open>int\<close> values on which every addition, subtraction and product that
    can leave the range is wrapped by \<open>i64\<close>; \<open>uint64\<close> is \<open>64 word\<close>.
  \<^item> Go's \<open>/\<close> truncates towards zero: \<open>sdiv\<close> of \<open>Signed_Division\<close>.
  \<^item> A Go map that the code iterates over is an association list with distinct keys whose order is
    the iteration order of that run. Theorems quantify over every such list, so they hold for
    every iteration order.
  \<^item> A slice of pointers that may contain nil is an \<open>'a option list\<close>.
\<close>

type_synonym u64 = "64 word"

named_theorems gateway_defs \<open>operations that component proofs unfold\<close>

subsection \<open>64-bit signed integers\<close>

definition i64 :: "int \<Rightarrow> int" where
  "i64 x = (x + 2 ^ 63) mod 2 ^ 64 - 2 ^ 63"

definition in_i64 :: "int \<Rightarrow> bool" where
  "in_i64 x \<longleftrightarrow> - (2 ^ 63) \<le> x \<and> x < 2 ^ 63"

definition MaxInt64 :: int where
  "MaxInt64 = 2 ^ 63 - 1"

definition MinInt64 :: int where
  "MinInt64 = - (2 ^ 63)"

text \<open>\<open>a / b\<close> on \<open>int64\<close> for \<open>b \<noteq> 0\<close> (the code guards every divisor).\<close>

definition go_div :: "int \<Rightarrow> int \<Rightarrow> int" where
  "go_div a b = i64 (a sdiv b)"

lemma i64_id [simp]: "in_i64 x \<Longrightarrow> i64 x = x"
  by (simp add: i64_def in_i64_def)

lemma in_i64_i64 [simp]: "in_i64 (i64 x)"
proof -
  have "0 \<le> (x + 2 ^ 63) mod (2 ^ 64 :: int)" and "(x + 2 ^ 63) mod (2 ^ 64 :: int) < 2 ^ 64"
    by simp_all
  then show ?thesis by (simp add: in_i64_def i64_def)
qed

lemma i64_bounds: "- (2 ^ 63) \<le> i64 x" "i64 x < 2 ^ 63"
  using in_i64_i64 [of x] by (simp_all add: in_i64_def)

lemma i64_idem [simp]: "i64 (i64 x) = i64 x"
  by simp

lemma i64_add_left: "i64 (i64 a + b) = i64 (a + b)"
proof -
  have "i64 a + b + 2 ^ 63 = (a + 2 ^ 63) mod 2 ^ 64 + b"
    by (simp add: i64_def)
  then have "(i64 a + b + 2 ^ 63) mod 2 ^ 64 = ((a + 2 ^ 63) + b) mod 2 ^ 64"
    by (metis mod_add_left_eq)
  then show ?thesis by (simp add: i64_def algebra_simps)
qed

lemma i64_diff_left: "i64 (i64 a - b) = i64 (a - b)"
  using i64_add_left [of a "- b"] by simp

lemma in_i64_small: "0 \<le> x \<Longrightarrow> x < 9223372036854775808 \<Longrightarrow> in_i64 x"
  by (simp add: in_i64_def)

lemma in_i64_const [simp]: "in_i64 0" "in_i64 1" "in_i64 (-1)" "in_i64 (2 ^ 63 - 1)"
  by (simp_all add: in_i64_def)

lemma in_i64_pred: "0 \<le> x \<Longrightarrow> x < 2 ^ 63 \<Longrightarrow> in_i64 x \<and> in_i64 (x - 1)"
  by (simp add: in_i64_def)

lemma sdiv_nonneg: "0 \<le> a \<Longrightarrow> 0 < b \<Longrightarrow> a sdiv b = a div (b :: int)"
  by (simp add: signed_divide_int_def sgn_if)

lemma go_div_nonneg:
  assumes "0 \<le> a" "0 < b" "a < 2 ^ 63"
  shows "go_div a b = a div b"
proof -
  have "a div b \<le> a div 1" using assms by (intro zdiv_mono2) auto
  then have "a div b \<le> a" by simp
  moreover have "0 \<le> a div b" using assms by (simp add: pos_imp_zdiv_nonneg_iff)
  ultimately show ?thesis
    using assms by (simp add: go_div_def sdiv_nonneg in_i64_def)
qed

text \<open>\<open>int64(u)\<close> of a \<open>uint64\<close> and back.\<close>

lemma sint_eq_i64: "sint (w :: u64) = i64 (uint w)"
  by (simp add: sint_uint signed_take_bit_eq_take_bit_shift take_bit_eq_mod i64_def)

lemma sint_of_int_i64: "sint (of_int k :: u64) = i64 k"
proof -
  have "i64 (k mod 2 ^ 64) = i64 k" by (simp add: i64_def mod_add_left_eq)
  then show ?thesis by (simp add: sint_eq_i64 uint_word_of_int)
qed

lemma sint_small: "uint (w :: u64) < 2 ^ 63 \<Longrightarrow> sint w = uint w"
  using uint_ge_0 [of w] by (simp add: sint_eq_i64 in_i64_small)

subsection \<open>Slices that may hold nil pointers\<close>

text \<open>\<open>for _, p := range xs { if p == nil { continue } ... }\<close> visits exactly \<open>nonnil xs\<close>.\<close>

fun nonnil :: "'a option list \<Rightarrow> 'a list" where
  "nonnil [] = []"
| "nonnil (None # xs) = nonnil xs"
| "nonnil (Some x # xs) = x # nonnil xs"

lemma nonnil_map_Some [simp]: "nonnil (map Some xs) = xs"
  by (induction xs) auto

lemma set_nonnil: "set (nonnil xs) = {x. Some x \<in> set xs}"
  by (induction xs rule: nonnil.induct) auto

subsection \<open>Lists\<close>

lemma distinct_map_filter': "distinct (map f xs) \<Longrightarrow> distinct (map f (filter P xs))"
  by (rule distinct_map_filter)

lemma foldl_invariant:
  "(\<And>x a. x \<in> set xs \<Longrightarrow> P a \<Longrightarrow> P (f a x)) \<Longrightarrow> P a \<Longrightarrow> P (foldl f a xs)"
  by (induction xs arbitrary: a) auto

lemma distinct_map_filter_nth:
  assumes "\<And>i j. i < length xs \<Longrightarrow> j < length xs \<Longrightarrow> P (xs ! i) \<Longrightarrow> P (xs ! j) \<Longrightarrow> f (xs ! i) = f (xs ! j) \<Longrightarrow> i = j"
  shows "distinct (map f (filter P xs))"
  using assms
proof (induction xs)
  case (Cons x xs)
  have "distinct (map f (filter P xs))"
  proof (rule Cons.IH)
    fix i j
    assume "i < length xs" "j < length xs" "P (xs ! i)" "P (xs ! j)" "f (xs ! i) = f (xs ! j)"
    then show "i = j" using Cons.prems [of "Suc i" "Suc j"] by simp
  qed
  moreover have "f x \<notin> f ` set (filter P xs)" if "P x"
  proof
    assume "f x \<in> f ` set (filter P xs)"
    then obtain j where "j < length xs" "P (xs ! j)" "f x = f (xs ! j)" by (auto simp: in_set_conv_nth)
    then show False using Cons.prems [of 0 "Suc j"] that by simp
  qed
  ultimately show ?case by simp
qed simp

lemma mset_sub_distinct:
  assumes "mset xs \<subseteq># mset ys" and "distinct (map f ys)"
  shows "distinct (map f xs)"
proof -
  have "mset (map f xs) \<subseteq># mset (map f ys)"
    using image_mset_subseteq_mono [OF assms(1)] by (simp only: mset_map)
  then obtain zs where "mset (map f ys) = mset (map f xs @ zs)"
    by (metis mset_append ex_mset subset_mset.add_diff_inverse)
  with assms(2) have "distinct (map f xs @ zs)" by (metis mset_eq_imp_distinct_iff)
  then show ?thesis by (simp only: distinct_append)
qed

lemma sum_list_nonneg_le:
  fixes xs :: "int list"
  assumes "\<forall>x \<in> set xs. 0 \<le> x" and "y \<in> set xs"
  shows "y \<le> sum_list xs"
  using assms
proof (induction xs)
  case Nil
  then show ?case by simp
next
  case (Cons x xs)
  have "0 \<le> sum_list xs" by (rule sum_list_nonneg) (use Cons.prems(1) in auto)
  with Cons show ?case by fastforce
qed

subsection \<open>Go maps as association lists\<close>

text \<open>
  \<open>m[k]\<close> is \<^term>\<open>map_of m k\<close>, \<open>m[k] = v\<close> is \<^term>\<open>AList.update k v m\<close>, \<open>delete(m, k)\<close> is
  \<^term>\<open>AList.delete k m\<close>, and \<open>for k, v := range m\<close> runs over the list.
\<close>

abbreviation wf_map :: "('k \<times> 'v) list \<Rightarrow> bool" where
  "wf_map m \<equiv> distinct (map fst m)"

lemma map_of_update [simp]: "map_of (AList.update k v m) = (map_of m)(k \<mapsto> v)"
  by (rule update_conv')

lemma map_of_delete [simp]: "map_of (AList.delete k m) = (map_of m)(k := None)"
  by (rule delete_conv')

lemma wf_map_update [simp]: "wf_map m \<Longrightarrow> wf_map (AList.update k v m)"
  by (rule distinct_update)

lemma wf_map_delete [simp]: "wf_map m \<Longrightarrow> wf_map (AList.delete k m)"
  by (rule distinct_delete)

lemma map_of_rev_wf: "wf_map m \<Longrightarrow> map_of (rev m) = map_of m"
proof (induction m)
  case (Cons p m)
  then have "fst p \<notin> dom (map_of m)" by (simp add: dom_map_of_conv_image_fst)
  with Cons show ?case by (cases p) (auto simp: map_add_def fun_eq_iff split: option.split)
qed simp

lemma update_elem: "p \<in> set (AList.update k v m) \<Longrightarrow> p = (k, v) \<or> p \<in> set m"
  by (induction m) (auto split: if_splits)

lemma set_update_wf:
  assumes "wf_map m"
  shows "set (AList.update k v m) = insert (k, v) {(k', v') \<in> set m. k' \<noteq> k}"
proof -
  have "wf_map (AList.update k v m)" using assms by simp
  then have "(k', v') \<in> set (AList.update k v m) \<longleftrightarrow> map_of (AList.update k v m) k' = Some v'" for k' v'
    by (simp only: map_of_eq_Some_iff)
  then show ?thesis using assms by (auto split: if_splits)
qed

subsection \<open>State machines\<close>

text \<open>
  The interface of a component whose operations are the events of a machine: an operation keeps
  the component's invariant. Every run of operations, in any order, then keeps it.
\<close>

locale event_machine =
  fixes step :: "'s \<Rightarrow> 'e \<Rightarrow> 's"
    and inv :: "'s \<Rightarrow> bool"
  assumes step_inv: "inv s \<Longrightarrow> inv (step s e)"
begin

lemma run_inv: "inv s \<Longrightarrow> inv (foldl step s es)"
  by (induction es arbitrary: s) (auto intro: step_inv)

lemma run_append: "foldl step s (es @ fs) = foldl step (foldl step s es) fs"
  by simp

end

text \<open>A machine in which an observation of the state can only move up a preorder.\<close>

locale growing_machine = event_machine step inv
  for step :: "'s \<Rightarrow> 'e \<Rightarrow> 's" and inv :: "'s \<Rightarrow> bool" +
  fixes le :: "'s \<Rightarrow> 's \<Rightarrow> bool"
  assumes le_refl: "le s s"
    and le_trans: "le s t \<Longrightarrow> le t u \<Longrightarrow> le s u"
    and step_le: "inv s \<Longrightarrow> le s (step s e)"
begin

lemma run_le: "inv s \<Longrightarrow> le s (foldl step s es)"
proof (induction es arbitrary: s)
  case Nil
  show ?case by (simp add: le_refl)
next
  case (Cons e es)
  from Cons.prems have "le s (step s e)" by (rule step_le)
  moreover from Cons.prems have "le (step s e) (foldl step (step s e) es)"
    by (intro Cons.IH step_inv)
  ultimately show ?case by (auto intro: le_trans)
qed

end

text \<open>
  A machine whose promises hold along the runs that meet a condition: \<open>ok s e\<close> says when the
  event \<open>e\<close> is covered in the state \<open>s\<close>.
\<close>

fun run_ok :: "('s \<Rightarrow> 'e \<Rightarrow> 's) \<Rightarrow> ('s \<Rightarrow> 'e \<Rightarrow> bool) \<Rightarrow> 's \<Rightarrow> 'e list \<Rightarrow> bool" where
  "run_ok step ok s [] = True"
| "run_ok step ok s (e # es) \<longleftrightarrow> ok s e \<and> run_ok step ok (step s e) es"

locale guarded_machine =
  fixes step :: "'s \<Rightarrow> 'e \<Rightarrow> 's"
    and inv :: "'s \<Rightarrow> bool"
    and ok :: "'s \<Rightarrow> 'e \<Rightarrow> bool"
    and le :: "'s \<Rightarrow> 's \<Rightarrow> bool"
  assumes guarded_inv: "inv s \<Longrightarrow> ok s e \<Longrightarrow> inv (step s e)"
    and guarded_refl: "le s s"
    and guarded_trans: "le s t \<Longrightarrow> le t u \<Longrightarrow> le s u"
    and guarded_le: "inv s \<Longrightarrow> ok s e \<Longrightarrow> le s (step s e)"
begin

lemma guarded_run: "inv s \<Longrightarrow> run_ok step ok s es \<Longrightarrow> inv (foldl step s es) \<and> le s (foldl step s es)"
proof (induction es arbitrary: s)
  case Nil
  then show ?case by (simp add: guarded_refl)
next
  case (Cons e es)
  then have ok: "ok s e" and run: "run_ok step ok (step s e) es" by simp_all
  from Cons.prems(1) ok have "inv (step s e)" and le: "le s (step s e)" by (simp_all add: guarded_inv guarded_le)
  then have "inv (foldl step (step s e) es)" and "le (step s e) (foldl step (step s e) es)"
    using Cons.IH run by blast+
  then show ?case using guarded_trans [OF le] by simp
qed

end

lemma find_distinct:
  assumes "distinct (map f xs)" "x \<in> set xs"
  shows "find (\<lambda>y. f y = f x) xs = Some x"
  using assms by (induction xs) (auto simp: image_iff)

end
