(* ===== verification/Go_Strings.thy ===== *)
theory Go_Strings
  imports Gateway_Prelude
begin

text \<open>
  The parts of Go's \<open>strings\<close> and \<open>strconv\<close> packages that the gateway calls, as executable
  functions on byte lists, with the laws the components use: trimming and lower-casing are
  idempotent, \<open>EqualFold\<close> is an equivalence, and \<open>ParseUint\<close> inverts \<open>FormatUint\<close>.
\<close>

subsection \<open>Characters\<close>

definition code :: "char \<Rightarrow> nat" where
  "code c = of_char c"

definition is_space :: "char \<Rightarrow> bool" where
  "is_space c \<longleftrightarrow> code c = 32 \<or> (9 \<le> code c \<and> code c \<le> 13)"

definition lower_char :: "char \<Rightarrow> char" where
  "lower_char c = (if 65 \<le> code c \<and> code c \<le> 90 then char_of (code c + 32) else c)"

definition is_digit :: "char \<Rightarrow> bool" where
  "is_digit c \<longleftrightarrow> 48 \<le> code c \<and> code c \<le> 57"

definition digit_val :: "char \<Rightarrow> nat" where
  "digit_val c = code c - 48"

definition digit_char :: "nat \<Rightarrow> char" where
  "digit_char d = char_of (48 + d)"

text \<open>The lower-case hexadecimal test of the source: not below \<open>'0'\<close>..., neither digit nor \<open>a..f\<close>.\<close>

definition is_lower_hex :: "char \<Rightarrow> bool" where
  "is_lower_hex c \<longleftrightarrow> is_digit c \<or> (97 \<le> code c \<and> code c \<le> 102)"

lemma code_lt [simp]: "code c < 256"
  by (simp add: code_def)

lemma code_char_of [simp]: "n < 256 \<Longrightarrow> code (char_of n) = n"
  by (simp add: code_def)

lemma code_lower_char: "code (lower_char c) = (if 65 \<le> code c \<and> code c \<le> 90 then code c + 32 else code c)"
  by (auto simp: lower_char_def)

lemma lower_char_idem [simp]: "lower_char (lower_char c) = lower_char c"
  by (cases "65 \<le> code c \<and> code c \<le> 90") (auto simp: lower_char_def)

lemma lower_char_hex [simp]: "is_lower_hex c \<Longrightarrow> lower_char c = c"
  by (auto simp: is_lower_hex_def is_digit_def lower_char_def)

lemma is_space_not_hex: "is_lower_hex c \<Longrightarrow> \<not> is_space c"
  by (auto simp: is_lower_hex_def is_digit_def is_space_def)

lemma is_space_lower_char [simp]: "is_space (lower_char c) = is_space c"
  by (auto simp: is_space_def code_lower_char)

lemma digit_char [simp]:
  assumes "d < 10"
  shows "is_digit (digit_char d)" "digit_val (digit_char d) = d"
proof -
  have "code (digit_char d) = 48 + d"
    unfolding digit_char_def using assms by (intro code_char_of) simp
  with assms show "is_digit (digit_char d)" "digit_val (digit_char d) = d"
    by (simp_all add: is_digit_def digit_val_def)
qed

subsection \<open>\<open>strings\<close>: trimming, folding, prefixes\<close>

definition TrimSpace :: "string \<Rightarrow> string" where
  "TrimSpace s = rev (dropWhile is_space (rev (dropWhile is_space s)))"

definition ToLower :: "string \<Rightarrow> string" where
  "ToLower s = map lower_char s"

definition EqualFold :: "string \<Rightarrow> string \<Rightarrow> bool" where
  "EqualFold a b \<longleftrightarrow> ToLower a = ToLower b"

definition HasPrefix :: "string \<Rightarrow> string \<Rightarrow> bool" where
  "HasPrefix s p \<longleftrightarrow> take (length p) s = p"

definition TrimPrefix :: "string \<Rightarrow> string \<Rightarrow> string" where
  "TrimPrefix s p = (if HasPrefix s p then drop (length p) s else s)"

definition trimmed :: "string \<Rightarrow> bool" where
  "trimmed s \<longleftrightarrow> s = [] \<or> \<not> is_space (hd s) \<and> \<not> is_space (last s)"

lemma dropWhile_hd: "dropWhile P xs = [] \<or> \<not> P (hd (dropWhile P xs))"
  by (induction xs) auto

lemma dropWhile_id: "xs = [] \<or> \<not> P (hd xs) \<Longrightarrow> dropWhile P xs = xs"
  by (cases xs) auto

lemma hd_rev_dropWhile_rev:
  assumes "xs = [] \<or> \<not> P (hd xs)"
  shows "rev (dropWhile P (rev xs)) = [] \<or> \<not> P (hd (rev (dropWhile P (rev xs))))"
proof (cases xs)
  case Nil
  then show ?thesis by simp
next
  case (Cons y ys)
  with assms have "\<not> P y" by simp
  then show ?thesis
    by (simp add: Cons dropWhile_append hd_append hd_rev)
qed

lemma trimmed_TrimSpace [simp]: "trimmed (TrimSpace s)"
proof -
  let ?l = "dropWhile is_space s"
  let ?r = "dropWhile is_space (rev ?l)"
  have hd_l: "?l = [] \<or> \<not> is_space (hd ?l)" by (rule dropWhile_hd)
  have hd_r: "?r = [] \<or> \<not> is_space (hd ?r)" by (rule dropWhile_hd)
  have "rev ?r = [] \<or> \<not> is_space (hd (rev ?r))"
    using hd_l by (rule hd_rev_dropWhile_rev)
  with hd_r show ?thesis
    by (auto simp: trimmed_def TrimSpace_def last_rev)
qed

lemma TrimSpace_trimmed: "trimmed s \<Longrightarrow> TrimSpace s = s"
  by (auto simp: trimmed_def TrimSpace_def dropWhile_id hd_rev)

lemma TrimSpace_idem [simp]: "TrimSpace (TrimSpace s) = TrimSpace s"
  by (rule TrimSpace_trimmed) simp

lemma ToLower_idem [simp]: "ToLower (ToLower s) = ToLower s"
  by (simp add: ToLower_def)

lemma length_ToLower [simp]: "length (ToLower s) = length s"
  by (simp add: ToLower_def)

lemma ToLower_Nil [simp]: "ToLower s = [] \<longleftrightarrow> s = []"
  by (simp add: ToLower_def)

lemma ToLower_append: "ToLower (s @ t) = ToLower s @ ToLower t"
  by (simp add: ToLower_def)

lemma EqualFold_refl [simp]: "EqualFold s s"
  by (simp add: EqualFold_def)

lemma EqualFold_sym: "EqualFold a b \<Longrightarrow> EqualFold b a"
  by (simp add: EqualFold_def)

lemma EqualFold_trans: "EqualFold a b \<Longrightarrow> EqualFold b c \<Longrightarrow> EqualFold a c"
  by (simp add: EqualFold_def)

lemma EqualFold_ToLower [simp]: "EqualFold (ToLower a) b = EqualFold a b"
  by (simp add: EqualFold_def)

lemma HasPrefix_append [simp]: "HasPrefix (p @ s) p"
  by (simp add: HasPrefix_def)

lemma TrimPrefix_append [simp]: "TrimPrefix (p @ s) p = s"
  by (simp add: TrimPrefix_def)

lemma all_hex_ToLower [simp]: "list_all is_lower_hex s \<Longrightarrow> ToLower s = s"
  by (induction s) (auto simp: ToLower_def)

subsection \<open>\<open>strconv\<close>: parsing and printing decimal integers\<close>

text \<open>
  \<open>ParseUint(s, 10, 64)\<close> and \<open>ParseInt(s, 10, 64)\<close> return a value together with an error. A
  syntax error carries the value 0; a range error carries the nearest representable value, which
  matters because some callers drop the error. The loop reports the first problem it meets.
\<close>

datatype num_error = ErrSyntax | ErrRange

fun ParseUint_loop :: "nat \<Rightarrow> string \<Rightarrow> nat \<times> num_error option" where
  "ParseUint_loop n [] = (n, None)"
| "ParseUint_loop n (c # cs) =
     (if \<not> is_digit c then (0, Some ErrSyntax)
      else if n * 10 + digit_val c \<ge> 2 ^ 64 then (2 ^ 64 - 1, Some ErrRange)
      else ParseUint_loop (n * 10 + digit_val c) cs)"

definition ParseUint :: "string \<Rightarrow> u64 \<times> num_error option" where
  "ParseUint s =
     (if s = [] then (0, Some ErrSyntax)
      else case ParseUint_loop 0 s of (n, e) \<Rightarrow> (of_nat n, e))"

definition apply_sign :: "bool \<Rightarrow> u64 \<Rightarrow> int \<times> num_error option" where
  "apply_sign neg un =
     (if \<not> neg \<and> uint un \<ge> 2 ^ 63 then (2 ^ 63 - 1, Some ErrRange)
      else if neg \<and> uint un > 2 ^ 63 then (- (2 ^ 63), Some ErrRange)
      else (if neg then - uint un else uint un, None))"

definition ParseInt :: "string \<Rightarrow> int \<times> num_error option" where
  "ParseInt s =
     (if s = [] then (0, Some ErrSyntax)
      else
        let neg = (code (hd s) = 45);
            body = (if code (hd s) = 43 \<or> neg then tl s else s)
        in case ParseUint body of
             (un, e) \<Rightarrow> (if e = Some ErrSyntax then (0, Some ErrSyntax) else apply_sign neg un))"

fun digits_of :: "nat \<Rightarrow> string" where
  "digits_of n = (if n < 10 then [digit_char n] else digits_of (n div 10) @ [digit_char (n mod 10)])"

declare digits_of.simps [simp del]

definition FormatUint :: "u64 \<Rightarrow> string" where
  "FormatUint w = digits_of (unat w)"

lemma digits_of_nonempty [simp]: "digits_of n \<noteq> []"
  by (subst digits_of.simps) simp

lemma ParseUint_loop_le:
  assumes "n < 2 ^ 64"
  shows "fst (ParseUint_loop n s) < 2 ^ 64"
  using assms by (induction n s rule: ParseUint_loop.induct) simp_all

lemma ParseUint_loop_append:
  assumes "ParseUint_loop n s = (m, None)"
  shows "ParseUint_loop n (s @ t) = ParseUint_loop m t"
  using assms by (induction n s rule: ParseUint_loop.induct) (auto split: if_splits)

lemma ParseUint_loop_digits_of: "n < 2 ^ 64 \<Longrightarrow> ParseUint_loop 0 (digits_of n) = (n, None)"
proof (induction n rule: digits_of.induct)
  case (1 n)
  show ?case
  proof (cases "n < 10")
    case True
    then show ?thesis by (simp add: digits_of.simps [of n])
  next
    case False
    with 1 have "ParseUint_loop 0 (digits_of (n div 10)) = (n div 10, None)" by simp
    from ParseUint_loop_append [OF this, of "[digit_char (n mod 10)]"] False 1
    show ?thesis by (simp add: digits_of.simps [of n])
  qed
qed

lemma ParseUint_FormatUint [simp]: "ParseUint (FormatUint w) = (w, None)"
proof -
  have "unat w < 2 ^ 64" using unsigned_less [of w] by simp
  then show ?thesis by (simp add: ParseUint_def FormatUint_def ParseUint_loop_digits_of)
qed

lemma digits_of_digits: "list_all is_digit (digits_of n)"
proof (induction n rule: digits_of.induct)
  case (1 n)
  show ?case
  proof (cases "n < 10")
    case True
    then show ?thesis by (simp add: digits_of.simps [of n])
  next
    case False
    then show ?thesis using 1 by (simp add: digits_of.simps [of n])
  qed
qed

lemma takeWhile_digits_of: "s = [] \<or> \<not> is_digit (hd s) \<Longrightarrow> takeWhile is_digit (digits_of n @ s) = digits_of n"
  using digits_of_digits [of n] by (cases s) (auto simp: list_all_iff takeWhile_append)

lemma ToLower_digits_of [simp]: "ToLower (digits_of n) = digits_of n"
  using digits_of_digits [of n] by (auto simp: ToLower_def list_all_iff is_digit_def lower_char_def intro!: map_idI)

lemma hd_digits_of: "is_digit (hd (digits_of n))"
  using digits_of_digits [of n] digits_of_nonempty [of n] by (cases "digits_of n") auto

lemma ParseInt_digits_of:
  assumes "n < 2 ^ 63"
  shows "ParseInt (digits_of n) = (int n, None)"
proof -
  have "ParseUint (digits_of n) = (of_nat n, None)"
    using assms by (simp add: ParseUint_def ParseUint_loop_digits_of)
  moreover have "uint (of_nat n :: u64) = int n" using assms by (simp add: unsigned_of_nat take_bit_nat_eq_self)
  moreover have "code (hd (digits_of n)) \<noteq> 45" "code (hd (digits_of n)) \<noteq> 43" using hd_digits_of [of n] by (auto simp: is_digit_def)
  ultimately show ?thesis using assms by (simp add: ParseInt_def apply_sign_def Let_def)
qed

lemma apply_sign_range: "in_i64 (fst (apply_sign neg un))"
proof -
  define k where "k = uint un"
  have "0 \<le> k" by (simp add: k_def)
  then show ?thesis by (auto simp: apply_sign_def in_i64_def simp flip: k_def)
qed

lemma ParseInt_range: "in_i64 (fst (ParseInt s))"
  by (simp add: ParseInt_def Let_def apply_sign_range in_i64_def [of 0] split: prod.split)

end
