(* ===== verification/Chain_Data.thy ===== *)
theory Chain_Data
  imports Go_Strings
begin

text \<open>
  The data of the chain: transactions and block records
  (\<^verbatim>\<open>internal/blockchain/blockchain.go\<close>), the fee and amount readers, the asset names
  (\<^verbatim>\<open>token_xp.go\<close>), the Core wire form of a transaction (\<^verbatim>\<open>tx_core.go\<close>) and the mapping between
  gateway block numbers and Rocks heights (\<^verbatim>\<open>internal/core/rocks_store.go\<close>).

  The Core wire form is the record of the JSON object that \<open>ToCoreJSON\<close> marshals; an optional
  field is one the code adds under a condition.
\<close>

subsection \<open>Records\<close>

record Transaction =
  txHash :: string
  txFrom :: string
  txTo :: string
  txValue :: string
  txFee :: string
  txNonce :: int
  txTimestamp :: int
  txType :: string
  txAssetType :: string
  txContractAddress :: string
  txSigMain :: string
  txSigDerived :: string
  txPubMain :: string
  txPubDerived :: string
  txAsset :: string
  txAmountUplp :: u64
  txFeeUplp :: u64
  txReads :: "string list"
  txWrites :: "string list"
  txBlockNumber :: int
  txRequestIDHash :: string
  txEscrowID :: string
  txPurpose :: string
  txExpiresAt :: int
  txSettleOutcome :: "8 word option"
  txSettleOutcomeKey :: string
  txSettlePayee :: string
  txSettleNode :: string

record BlockRecord =
  bBlockNumber :: int
  bTimestamp :: int
  bTxHashes :: "string list"
  bTxCount :: int
  bTotalFees :: int
  bBlockHash :: string
  bMerkleRoot :: string
  bStateRoot :: string
  bPreviousHash :: string
  bProducerNodeID :: string
  bL1Yes :: int
  bL1No :: int
  bL2Yes :: int
  bL2No :: int
  bDurationMs :: int
  bL1BeneficiaryNodeId :: string
  bL2ConfirmerNodeId :: string
  bL1Votes :: "(string \<times> bool) list"
  bL2Votes :: "(string \<times> bool) list"

text \<open>Go's zero values \<open>Transaction{}\<close> and \<open>BlockRecord{}\<close>.\<close>

definition tx0 :: Transaction where
  "tx0 = \<lparr>txHash = [], txFrom = [], txTo = [], txValue = [], txFee = [], txNonce = 0,
     txTimestamp = 0, txType = [], txAssetType = [], txContractAddress = [], txSigMain = [],
     txSigDerived = [], txPubMain = [], txPubDerived = [], txAsset = [], txAmountUplp = 0,
     txFeeUplp = 0, txReads = [], txWrites = [], txBlockNumber = 0, txRequestIDHash = [],
     txEscrowID = [], txPurpose = [], txExpiresAt = 0, txSettleOutcome = None,
     txSettleOutcomeKey = [], txSettlePayee = [], txSettleNode = []\<rparr>"

definition block0 :: BlockRecord where
  "block0 = \<lparr>bBlockNumber = 0, bTimestamp = 0, bTxHashes = [], bTxCount = 0, bTotalFees = 0,
     bBlockHash = [], bMerkleRoot = [], bStateRoot = [], bPreviousHash = [], bProducerNodeID = [],
     bL1Yes = 0, bL1No = 0, bL2Yes = 0, bL2No = 0, bDurationMs = 0, bL1BeneficiaryNodeId = [],
     bL2ConfirmerNodeId = [], bL1Votes = [], bL2Votes = []\<rparr>"

definition FaucetAddress :: string where
  "FaucetAddress = ''faucet''"

subsection \<open>Fees and amounts\<close>

text \<open>\<open>parseFee\<close> drops the error of \<open>ParseInt\<close>, so an out-of-range fee reads as the largest
  \<open>int64\<close>.\<close>

definition parseFee :: "string \<Rightarrow> int" where
  "parseFee fee =
     (if fee = [] then 0
      else let n = fst (ParseInt fee) in if n < 0 then 0 else n)"

text \<open>The fee a confirmed transaction adds to its block: the display fee, or \<open>FeeUplp\<close> when the
  display fee is zero (the same lines in \<open>L2ConfirmBlock\<close>, \<open>ConfirmExplorerWithoutCore\<close> and
  \<open>AddConfirmedBlock\<close>). \<open>int64(tx.FeeUplp)\<close> reinterprets the word as signed.\<close>

definition confirmFee :: "Transaction \<Rightarrow> int" where
  "confirmFee tx =
     (let fee = parseFee (txFee tx)
      in if fee = 0 \<and> txFeeUplp tx > 0 then sint (txFeeUplp tx) else fee)"

definition parseAmount :: "Transaction \<Rightarrow> u64" where
  "parseAmount tx =
     (if txAmountUplp tx > 0 then txAmountUplp tx
      else if txValue tx \<noteq> [] then
        (case ParseUint (txValue tx) of (n, None) \<Rightarrow> n | (_, Some _) \<Rightarrow> 0)
      else 0)"

lemma parseFee_nonneg: "0 \<le> parseFee fee"
  by (simp add: parseFee_def Let_def)

lemma parseFee_in_i64: "in_i64 (parseFee fee)"
  using ParseInt_range [of fee] by (auto simp: parseFee_def Let_def in_i64_def)

lemma parseFee_FormatUint:
  assumes "uint w < 2 ^ 63"
  shows "parseFee (FormatUint w) = uint w"
proof -
  let ?s = "FormatUint w"
  have ne: "?s \<noteq> []" by (simp add: FormatUint_def)
  have "is_digit (hd (digits_of n))" for n
  proof (induction n rule: digits_of.induct)
    case (1 n)
    then show ?case by (cases "n < 10") (simp_all add: digits_of.simps [of n])
  qed
  then have "is_digit (hd ?s)" by (simp add: FormatUint_def)
  then have "code (hd ?s) \<noteq> 43" "code (hd ?s) \<noteq> 45" by (auto simp: is_digit_def)
  with ne assms have "ParseInt ?s = (uint w, None)"
    by (simp add: ParseInt_def apply_sign_def)
  with ne show ?thesis by (simp add: parseFee_def)
qed

subsection \<open>Assets\<close>

definition TokenXP :: string where
  "TokenXP = ''Token:XP''"

definition tokenPrefix :: string where
  "tokenPrefix = ''Token:''"

definition CanonicalAsset :: "string \<Rightarrow> string" where
  "CanonicalAsset asset =
     (let a = TrimSpace asset
      in if a = [] \<or> EqualFold a ''PLP'' then ''PLP''
         else if HasPrefix (ToLower a) ''token:'' then
           (let sym = TrimSpace (drop (length tokenPrefix) a)
            in if EqualFold sym ''XP'' then TokenXP else tokenPrefix @ sym)
         else if EqualFold a ''XP'' then TokenXP
         else tokenPrefix @ a)"

definition IsNonTransferableAsset :: "string \<Rightarrow> bool" where
  "IsNonTransferableAsset asset \<longleftrightarrow> CanonicalAsset asset = TokenXP"

text \<open>A nil map is read as the empty one.\<close>

definition TokenXPFromMap :: "(string \<times> string) list \<Rightarrow> string" where
  "TokenXPFromMap tokens =
     (case map_of tokens TokenXP of
        Some v \<Rightarrow>
          (if v \<noteq> [] then v
           else case map_of tokens ''XP'' of Some w \<Rightarrow> (if w \<noteq> [] then w else ''0'') | None \<Rightarrow> ''0'')
      | None \<Rightarrow>
          (case map_of tokens ''XP'' of Some w \<Rightarrow> (if w \<noteq> [] then w else ''0'') | None \<Rightarrow> ''0''))"

lemma tokenPrefix_simps:
  "ToLower tokenPrefix = ''token:''" "length tokenPrefix = 6" "tokenPrefix \<noteq> []"
  "\<not> is_space (hd tokenPrefix)" "\<not> is_space (last tokenPrefix)"
  by code_simp+

lemma trimmed_Token_append: "trimmed s \<Longrightarrow> trimmed (tokenPrefix @ s)"
  by (auto simp: trimmed_def tokenPrefix_simps hd_append last_append)

lemma EqualFold_Token_append:
  assumes "length t < 6"
  shows "\<not> EqualFold (tokenPrefix @ s) t"
proof
  assume "EqualFold (tokenPrefix @ s) t"
  then have "length (tokenPrefix @ s) = length t"
    unfolding EqualFold_def by (metis length_ToLower)
  with assms show False by (simp add: tokenPrefix_simps)
qed

lemma CanonicalAsset_Token:
  assumes "trimmed s"
  shows "CanonicalAsset (tokenPrefix @ s) = (if EqualFold s ''XP'' then TokenXP else tokenPrefix @ s)"
proof -
  let ?a = "tokenPrefix @ s"
  have t: "TrimSpace ?a = ?a" using trimmed_Token_append [OF assms] by (rule TrimSpace_trimmed)
  have n: "\<not> EqualFold ?a ''PLP''" by (rule EqualFold_Token_append) simp
  have p: "HasPrefix (ToLower ?a) ''token:''"
    by (simp only: ToLower_append tokenPrefix_simps HasPrefix_append)
  have d: "TrimSpace (drop (length tokenPrefix) ?a) = s" using assms by (simp add: TrimSpace_trimmed)
  show ?thesis
    unfolding CanonicalAsset_def t Let_def d using n p by (simp add: tokenPrefix_simps)
qed

subsection \<open>Core wire form\<close>

record core_tx =
  ct_hash :: string
  ct_from :: string
  ct_to :: string
  ct_asset :: string
  ct_amount :: u64
  ct_fee_uplp :: u64
  ct_nonce :: int
  ct_reads :: "string list"
  ct_writes :: "string list"
  ct_sig_main :: string
  ct_sig_derived :: string
  ct_timestamp :: "int option"
  ct_pub_main :: "string option"
  ct_pub_derived :: "string option"
  ct_tx_kind :: "string option"
  ct_escrow_id :: "string option"
  ct_request_id_hash :: "string option"
  ct_purpose :: "string option"
  ct_expires_at :: "int option"
  ct_settle_outcome_key :: "string option"
  ct_settle_outcome :: "8 word option"
  ct_settle_payee :: "string option"
  ct_settle_node :: "string option"

text \<open>\<open>if s != "" { m[key] = s }\<close>.\<close>

definition if_nonempty :: "string \<Rightarrow> string option" where
  "if_nonempty s = (if s \<noteq> [] then Some s else None)"

definition escrowKinds :: "string \<Rightarrow> bool" where
  "escrowKinds t \<longleftrightarrow> t = ''escrow_lock'' \<or> t = ''escrow_settle'' \<or> t = ''escrow_refund'' \<or>
     t = ''escrow_cancel'' \<or> t = ''contact_escrow_lock'' \<or> t = ''contact_escrow_settle''"

text \<open>The amount, the fee and the escrow id that go into the object.\<close>

definition core_amount :: "Transaction \<Rightarrow> u64" where
  "core_amount tx =
     (if txAmountUplp tx = 0 \<and> txValue tx \<noteq> [] then
        (case ParseUint (txValue tx) of (v, None) \<Rightarrow> v | (_, Some _) \<Rightarrow> txAmountUplp tx)
      else txAmountUplp tx)"

definition core_fee :: "Transaction \<Rightarrow> u64" where
  "core_fee tx =
     (let feeUplp =
        (if txFeeUplp tx = 0 \<and> txFee tx \<noteq> [] then
           (case ParseUint (txFee tx) of (v, None) \<Rightarrow> v | (_, Some _) \<Rightarrow> txFeeUplp tx)
         else txFeeUplp tx)
      in if feeUplp = 0 then 1 else feeUplp)"

definition core_rid :: "Transaction \<Rightarrow> string" where
  "core_rid tx =
     (let rid = (if txEscrowID tx = [] then txRequestIDHash tx else txEscrowID tx)
      in if rid = [] \<and> txContractAddress tx \<noteq> [] \<and> escrowKinds (txType tx)
         then txContractAddress tx else rid)"

text \<open>Marshalling a map of strings, numbers and string slices cannot fail, so the last error
  branch of the source is unreachable.\<close>

definition ToCoreJSON :: "Transaction \<Rightarrow> core_tx option" where
  "ToCoreJSON tx =
     (if txFrom tx = FaucetAddress then None
      else if txSigMain tx = [] then None
      else
        Some \<lparr>ct_hash = txHash tx, ct_from = txFrom tx, ct_to = txTo tx,
             ct_asset = (if txAsset tx = [] then ''PLP'' else txAsset tx),
             ct_amount = core_amount tx, ct_fee_uplp = core_fee tx, ct_nonce = txNonce tx,
             ct_reads = txReads tx, ct_writes = txWrites tx, ct_sig_main = txSigMain tx,
             ct_sig_derived = txSigDerived tx,
             ct_timestamp = (if txTimestamp tx > 0 then Some (txTimestamp tx) else None),
             ct_pub_main = if_nonempty (txPubMain tx), ct_pub_derived = if_nonempty (txPubDerived tx),
             ct_tx_kind = (if escrowKinds (txType tx) then Some (txType tx) else None),
             ct_escrow_id = if_nonempty (core_rid tx), ct_request_id_hash = if_nonempty (core_rid tx),
             ct_purpose = if_nonempty (txPurpose tx),
             ct_expires_at = (if txExpiresAt tx > 0 then Some (txExpiresAt tx) else None),
             ct_settle_outcome_key = if_nonempty (txSettleOutcomeKey tx),
             ct_settle_outcome = txSettleOutcome tx,
             ct_settle_payee = if_nonempty (txSettlePayee tx),
             ct_settle_node = if_nonempty (txSettleNode tx)\<rparr>)"

lemma core_amount_eq: "core_amount tx = parseAmount tx"
  by (simp add: core_amount_def parseAmount_def word_gt_0)

lemma core_fee_ge_1: "1 \<le> core_fee tx"
proof -
  have "core_fee tx \<noteq> 0" by (simp add: core_fee_def Let_def)
  then have "unat (core_fee tx) \<noteq> 0" by (simp add: unsigned_eq_0_iff)
  then show ?thesis by (simp add: word_le_nat_alt)
qed

lemma ToCoreJSON_None_iff:
  "ToCoreJSON tx = None \<longleftrightarrow> txFrom tx = FaucetAddress \<or> txSigMain tx = []"
  by (simp add: ToCoreJSON_def)

lemma ToCoreJSON_Some:
  assumes "ToCoreJSON tx = Some c"
  shows "ct_hash c = txHash tx" "ct_from c = txFrom tx" "ct_to c = txTo tx"
    "ct_nonce c = txNonce tx" "ct_sig_main c = txSigMain tx" "ct_sig_derived c = txSigDerived tx"
    "ct_amount c = parseAmount tx" "1 \<le> ct_fee_uplp c"
  using assms core_fee_ge_1 [of tx]
  by (auto simp: ToCoreJSON_def core_amount_eq split: if_splits)

subsection \<open>Gateway block numbers and Rocks heights\<close>

definition GatewayBlockToRocksHeight :: "int \<Rightarrow> u64" where
  "GatewayBlockToRocksHeight blockNumber = of_int (i64 (blockNumber + 1))"

definition RocksHeightToGatewayBlock :: "u64 \<Rightarrow> int" where
  "RocksHeightToGatewayBlock height = (if height = 0 then -1 else i64 (sint height - 1))"

subsection \<open>Hash labels\<close>

definition shortHash :: "string \<Rightarrow> string" where
  "shortHash h = (if length h \<le> 12 then h else take 12 h)"

subsection \<open>Properties\<close>

text \<open>Remark: canonical asset names are stable: canonicalising twice is canonicalising once, so the
  non-transferable test gives the same answer before and after normalisation, whatever spelling
  of the Token:XP asset a client sent.\<close>

theorem CanonicalAsset_stable:
  "CanonicalAsset (CanonicalAsset a) = CanonicalAsset a
   \<and> IsNonTransferableAsset (CanonicalAsset a) = IsNonTransferableAsset a"
proof -
  have PLP: "CanonicalAsset ''PLP'' = ''PLP''" by code_simp
  have TXP: "CanonicalAsset TokenXP = TokenXP" by code_simp
  have "CanonicalAsset (CanonicalAsset a) = CanonicalAsset a"
    by (simp add: CanonicalAsset_def [of a] Let_def PLP TXP CanonicalAsset_Token)
  then show ?thesis by (simp add: IsNonTransferableAsset_def)
qed

text \<open>Remark: what Core is asked to execute for a confirmed transaction: a transaction reaches Core
  only when it is signed and does not come from the faucet, with the sender, receiver, nonce and
  signatures of the gateway record, the amount the gateway itself reads from it, and a fee of at
  least one micro-PLP.\<close>

theorem ToCoreJSON_faithful:
  "case ToCoreJSON tx of
     None \<Rightarrow> txFrom tx = FaucetAddress \<or> txSigMain tx = []
   | Some c \<Rightarrow> txFrom tx \<noteq> FaucetAddress \<and> txSigMain tx \<noteq> []
       \<and> (ct_hash c, ct_from c, ct_to c, ct_nonce c, ct_sig_main c, ct_sig_derived c)
         = (txHash tx, txFrom tx, txTo tx, txNonce tx, txSigMain tx, txSigDerived tx)
       \<and> ct_amount c = parseAmount tx \<and> 1 \<le> ct_fee_uplp c"
proof (cases "ToCoreJSON tx")
  case None
  from None have "txFrom tx = FaucetAddress \<or> txSigMain tx = []" by (simp add: ToCoreJSON_None_iff)
  with None show ?thesis by simp
next
  case (Some c)
  then have "txFrom tx \<noteq> FaucetAddress" "txSigMain tx \<noteq> []"
    using ToCoreJSON_None_iff [of tx] by auto
  with Some show ?thesis using ToCoreJSON_Some [OF Some] by simp
qed

text \<open>Remark: gateway block numbers and Rocks heights convert back and forth without loss: every
  non-negative block number below the largest \<open>int64\<close> comes back from its height, every height
  up to \<open>2\<^sup>6\<^sup>3\<close> comes back from its block number, and the empty store (height 0) is block -1.\<close>

theorem rocks_height_roundtrip:
  "(0 \<le> n \<and> n < 2 ^ 63 - 1 \<longrightarrow> RocksHeightToGatewayBlock (GatewayBlockToRocksHeight n) = n)
   \<and> (uint h < 2 ^ 63 \<longrightarrow> GatewayBlockToRocksHeight (RocksHeightToGatewayBlock h) = h)
   \<and> RocksHeightToGatewayBlock 0 = -1"
proof (intro conjI impI)
  assume n: "0 \<le> n \<and> n < 2 ^ 63 - 1"
  then have "in_i64 (n + 1)" by (simp add: in_i64_def)
  then have "sint (of_int (n + 1) :: u64) = n + 1" by (simp add: sint_of_int_i64 del: of_int_add)
  moreover have "of_int (n + 1) \<noteq> (0 :: u64)"
  proof
    assume "of_int (n + 1) = (0 :: u64)"
    then have "sint (of_int (n + 1) :: u64) = 0" by (simp del: of_int_add)
    with calculation n show False by simp
  qed
  ultimately show "RocksHeightToGatewayBlock (GatewayBlockToRocksHeight n) = n"
    using n \<open>in_i64 (n + 1)\<close>
    by (simp add: RocksHeightToGatewayBlock_def GatewayBlockToRocksHeight_def in_i64_def del: of_int_add)
next
  assume h: "uint h < 2 ^ 63"
  then have s: "sint h = uint h" by (rule sint_small)
  have "in_i64 (uint h)" "in_i64 (uint h - 1)" 
    using h in_i64_pred [of "uint h"] by simp_all
  show "GatewayBlockToRocksHeight (RocksHeightToGatewayBlock h) = h"
    using s \<open>in_i64 (uint h)\<close> \<open>in_i64 (uint h - 1)\<close>
    by (simp add: RocksHeightToGatewayBlock_def GatewayBlockToRocksHeight_def)
next
  show "RocksHeightToGatewayBlock 0 = -1" by (simp add: RocksHeightToGatewayBlock_def)
qed

end
