(* ===== verification/Chain_Views.thy ===== *)
theory Chain_Views
  imports Chain_Data
begin

text \<open>
  What the gateway serves of its block history and how it compares blocks: fork choice
  (\<^verbatim>\<open>fork_choice.go\<close>), the tip freeze against the Rocks head (\<^verbatim>\<open>tip_freeze.go\<close>), the
  height/hash commit check (\<^verbatim>\<open>commit_invariant.go\<close>), the layer comparison of the consistency
  diagnostic (\<^verbatim>\<open>consistency.go\<close>), block pages (\<^verbatim>\<open>blocks_page.go\<close>), the history head
  (\<^verbatim>\<open>chain_store.go\<close>) and the timestamp sort of the explorer lists (\<^verbatim>\<open>blockchain.go\<close>).
\<close>

subsection \<open>Fork choice\<close>

definition countYes :: "(string \<times> bool) list \<Rightarrow> nat" where
  "countYes votes = length (filter snd votes)"

definition PreferBlock :: "BlockRecord \<Rightarrow> BlockRecord \<Rightarrow> bool" where
  "PreferBlock existing incoming =
     (if bL2Yes incoming \<noteq> bL2Yes existing then bL2Yes incoming > bL2Yes existing
      else
        let inL2 = countYes (bL2Votes incoming); exL2 = countYes (bL2Votes existing)
        in if inL2 \<noteq> exL2 then inL2 > exL2
           else if bL1Yes incoming \<noteq> bL1Yes existing then bL1Yes incoming > bL1Yes existing
           else
             let inL1 = countYes (bL1Votes incoming); exL1 = countYes (bL1Votes existing)
             in if inL1 \<noteq> exL1 then inL1 > exL1
                else bBlockHash incoming > bBlockHash existing)"

text \<open>The specification: a score compared lexicographically.\<close>

definition block_score :: "BlockRecord \<Rightarrow> int \<times> nat \<times> int \<times> nat \<times> string" where
  "block_score b =
     (bL2Yes b, countYes (bL2Votes b), bL1Yes b, countYes (bL1Votes b), bBlockHash b)"

lemma PreferBlock_score: "PreferBlock a b \<longleftrightarrow> block_score a < block_score b"
  by (auto simp: PreferBlock_def block_score_def Let_def less_prod_def' less_le)

subsection \<open>Tip freeze\<close>

definition CanonicalHeadNumber :: "int \<Rightarrow> int \<Rightarrow> bool \<Rightarrow> int" where
  "CanonicalHeadNumber memHead rocksHead rocksOK = (if \<not> rocksOK then memHead else rocksHead)"

definition FreezeBlockHistory :: "BlockRecord list \<Rightarrow> int \<Rightarrow> bool \<Rightarrow> BlockRecord list" where
  "FreezeBlockHistory history rocksGatewayHead rocksOK =
     (if \<not> rocksOK \<or> history = [] then history
      else if rocksGatewayHead < 0 then []
      else filter (\<lambda>b. bBlockNumber b \<le> rocksGatewayHead) history)"

definition TipLeadsRocks :: "int \<Rightarrow> int \<Rightarrow> bool \<Rightarrow> bool" where
  "TipLeadsRocks memHead rocksHead rocksOK = (if \<not> rocksOK then False else memHead > rocksHead)"

fun historyHead_loop :: "int \<Rightarrow> BlockRecord list \<Rightarrow> int" where
  "historyHead_loop m [] = m"
| "historyHead_loop m (b # bs) = historyHead_loop (if bBlockNumber b > m then bBlockNumber b else m) bs"

definition historyHead :: "BlockRecord list \<Rightarrow> int" where
  "historyHead blocks = historyHead_loop (-1) blocks"

lemma historyHead_loop_ge: "m \<le> historyHead_loop m bs"
  by (induction m bs rule: historyHead_loop.induct) auto

lemma historyHead_loop_mem: "b \<in> set bs \<Longrightarrow> bBlockNumber b \<le> historyHead_loop m bs"
proof (induction m bs rule: historyHead_loop.induct)
  case (1 m)
  then show ?case by simp
next
  case (2 m c bs)
  show ?case
  proof (cases "b = c")
    case True
    with historyHead_loop_ge [of "if bBlockNumber c > m then bBlockNumber c else m" bs]
    show ?thesis by (auto split: if_splits)
  next
    case False
    with 2 show ?thesis by auto
  qed
qed

lemma historyHead_loop_cases:
  "historyHead_loop m bs = m \<or> (\<exists>b \<in> set bs. historyHead_loop m bs = bBlockNumber b)"
  by (induction m bs rule: historyHead_loop.induct) fastforce+

lemma historyHead_ge: "-1 \<le> historyHead bs"
  unfolding historyHead_def by (rule historyHead_loop_ge)

lemma historyHead_mem: "b \<in> set bs \<Longrightarrow> bBlockNumber b \<le> historyHead bs"
  unfolding historyHead_def by (rule historyHead_loop_mem)

lemma historyHead_le_iff:
  "-1 \<le> n \<Longrightarrow> historyHead bs \<le> n \<longleftrightarrow> (\<forall>b \<in> set bs. bBlockNumber b \<le> n)"
  using historyHead_loop_cases [of "-1" bs] historyHead_mem [of _ bs]
  by (fastforce simp: historyHead_def)

lemma historyHead_append_one:
  "historyHead (bs @ [b]) = max (historyHead bs) (bBlockNumber b)"
proof -
  have "historyHead_loop m (bs @ [b]) = max (historyHead_loop m bs) (bBlockNumber b)" for m
    by (induction m bs rule: historyHead_loop.induct) auto
  then show ?thesis by (simp add: historyHead_def)
qed

subsection \<open>Commit height and hash check\<close>

datatype commit_error =
    HeightDiverge u64 u64
  | MissingHash string string
  | HashDiverge string string
  | StateRootDiverge string string

definition CheckCommitHeightHashInvariant ::
    "u64 \<Rightarrow> string \<Rightarrow> u64 \<Rightarrow> string \<Rightarrow> string \<Rightarrow> string \<Rightarrow> commit_error option" where
  "CheckCommitHeightHashInvariant explorerHeight explorerHash rocksHeight rocksHash
     explorerStateRoot rocksStateRoot =
     (if explorerHeight \<noteq> rocksHeight then Some (HeightDiverge explorerHeight rocksHeight)
      else if explorerHash = [] \<or> rocksHash = [] then Some (MissingHash explorerHash rocksHash)
      else if explorerHash \<noteq> rocksHash then Some (HashDiverge explorerHash rocksHash)
      else if explorerStateRoot \<noteq> [] \<and> rocksStateRoot \<noteq> [] \<and> explorerStateRoot \<noteq> rocksStateRoot
        then Some (StateRootDiverge explorerStateRoot rocksStateRoot)
      else None)"

subsection \<open>Layer consistency\<close>

record LayerTip =
  ltPath :: string
  ltHeight :: u64
  ltBlockHash :: string
  ltStateRoot :: string
  ltPresent :: bool
  ltError :: string

text \<open>The formatted reason strings are kept as their kind and the two values they print.\<close>

datatype reason =
    HeightMismatch u64 u64
  | HashMismatch string string
  | StateRootMismatch string string
  | StateFileVsRocksRoot string string

definition EvaluateLayerConsistency ::
    "LayerTip \<Rightarrow> LayerTip \<Rightarrow> LayerTip \<Rightarrow> bool option \<Rightarrow> reason list" where
  "EvaluateLayerConsistency rocks chainJSON stateFile coreOK =
     (if ltPresent rocks \<and> ltPresent chainJSON \<and> ltHeight chainJSON > 0 then
        (if ltHeight rocks \<noteq> ltHeight chainJSON
         then [HeightMismatch (ltHeight rocks) (ltHeight chainJSON)] else [])
        @ (if ltBlockHash rocks \<noteq> [] \<and> ltBlockHash chainJSON \<noteq> [] \<and>
              ltBlockHash rocks \<noteq> ltBlockHash chainJSON
           then [HashMismatch (ltBlockHash rocks) (ltBlockHash chainJSON)] else [])
        @ (if ltStateRoot rocks \<noteq> [] \<and> ltStateRoot chainJSON \<noteq> [] \<and>
              ltStateRoot rocks \<noteq> ltStateRoot chainJSON
           then [StateRootMismatch (ltStateRoot rocks) (ltStateRoot chainJSON)] else [])
      else [])
     @ (if ltPresent rocks \<and> ltPresent stateFile \<and> ltStateRoot rocks \<noteq> [] \<and>
           ltStateRoot stateFile \<noteq> [] \<and> ltStateRoot rocks \<noteq> ltStateRoot stateFile
        then [StateFileVsRocksRoot (ltStateRoot stateFile) (ltStateRoot rocks)] else [])"

datatype consistency_status = CONSISTENT | DIVERGED

definition StatusFromReasons :: "reason list \<Rightarrow> consistency_status" where
  "StatusFromReasons reasons = (if length reasons > 0 then DIVERGED else CONSISTENT)"

subsection \<open>Block pages\<close>

record BlockPageQuery =
  qLimit :: int
  qPage :: int
  qFrom :: "int option"
  qTo :: "int option"
  qFull :: bool

definition DefaultBlockPageLimit :: int where
  "DefaultBlockPageLimit = 50"

definition page_filter :: "BlockPageQuery \<Rightarrow> BlockRecord \<Rightarrow> bool" where
  "page_filter q b \<longleftrightarrow>
     \<not> (case qFrom q of Some f \<Rightarrow> bBlockNumber b < f | None \<Rightarrow> False) \<and>
     \<not> (case qTo q of Some t \<Rightarrow> bBlockNumber b > t | None \<Rightarrow> False)"

text \<open>
  The insertion sort moves element \<open>i\<close> backwards over the sorted prefix while it is larger than
  its left neighbour. The prefix is kept reversed here, so its last element is the head.
\<close>

fun sift_back :: "BlockRecord \<Rightarrow> BlockRecord list \<Rightarrow> BlockRecord list" where
  "sift_back x [] = [x]"
| "sift_back x (y # ys) = (if bBlockNumber x > bBlockNumber y then y # sift_back x ys else x # y # ys)"

definition insertion_sort_desc :: "BlockRecord list \<Rightarrow> BlockRecord list" where
  "insertion_sort_desc bs = rev (fold sift_back bs [])"

text \<open>\<open>None\<close> is the run-time panic of a slice expression whose bounds are out of range.\<close>

definition go_slice :: "'a list \<Rightarrow> int \<Rightarrow> int \<Rightarrow> 'a list option" where
  "go_slice xs lo hi =
     (if 0 \<le> lo \<and> lo \<le> hi \<and> hi \<le> int (length xs)
      then Some (take (nat hi - nat lo) (drop (nat lo) xs)) else None)"

definition PageBlocks :: "BlockRecord list \<Rightarrow> BlockPageQuery \<Rightarrow> BlockRecord list option" where
  "PageBlocks blocks q =
     (let filtered = insertion_sort_desc (filter (page_filter q) blocks)
      in if qFull q then Some filtered
         else
           let limit1 = (if qLimit q \<le> 0 then DefaultBlockPageLimit else qLimit q);
               limit = (if limit1 > 200 then 200 else limit1);
               page = (if qPage q < 1 then 1 else qPage q);
               start = i64 ((page - 1) * limit)
           in if start \<ge> int (length filtered) then Some []
              else
                let end1 = i64 (start + limit);
                    end' = (if end1 > int (length filtered) then int (length filtered) else end1)
                in go_slice filtered start end')"

lemma mset_sift_back: "mset (sift_back x ys) = add_mset x (mset ys)"
  by (induction ys) auto

lemma sorted_sift_back:
  "sorted (map bBlockNumber ys) \<Longrightarrow> sorted (map bBlockNumber (sift_back x ys))"
  by (induction x ys rule: sift_back.induct)
     (auto simp: mset_sift_back simp flip: set_mset_mset)

lemma fold_sift_back:
  assumes "sorted (map bBlockNumber acc)"
  shows "sorted (map bBlockNumber (fold sift_back bs acc)) \<and>
    mset (fold sift_back bs acc) = mset bs + mset acc"
  using assms
  by (induction bs arbitrary: acc) (auto simp: mset_sift_back sorted_sift_back)

lemma insertion_sort_desc:
  "mset (insertion_sort_desc bs) = mset bs"
  "sorted_wrt (\<lambda>a b. bBlockNumber a \<ge> bBlockNumber b) (insertion_sort_desc bs)"
  using fold_sift_back [of "[]" bs]
  by (simp_all add: insertion_sort_desc_def sorted_wrt_rev sorted_map)

lemma length_insertion_sort_desc [simp]: "length (insertion_sort_desc bs) = length bs"
  by (metis insertion_sort_desc(1) size_mset)

subsection \<open>Timestamp sort\<close>

text \<open>
  The exchange sort of \<open>sortTxsByTimestamp\<close> and \<open>GetTransactionsByAddress\<close>: for every \<open>i\<close>, for every
  \<open>j > i\<close>, swap the two when the later one has the smaller key. \<open>sweep\<close> is the inner loop: it carries
  the element at \<open>i\<close> and returns it with the rest.
\<close>

fun sweep :: "('a \<Rightarrow> int) \<Rightarrow> 'a \<Rightarrow> 'a list \<Rightarrow> 'a \<times> 'a list" where
  "sweep key x [] = (x, [])"
| "sweep key x (y # ys) =
     (if key y < key x
      then (let (m, zs) = sweep key y ys in (m, x # zs))
      else (let (m, zs) = sweep key x ys in (m, y # zs)))"

lemma length_sweep [simp]: "length (snd (sweep key x ys)) = length ys"
  by (induction key x ys rule: sweep.induct) (auto split: prod.splits simp: Let_def)

function exchange_sort :: "('a \<Rightarrow> int) \<Rightarrow> 'a list \<Rightarrow> 'a list" where
  "exchange_sort key [] = []"
| "exchange_sort key (x # xs) =
     (let (m, rest) = sweep key x xs in m # exchange_sort key rest)"
  by pat_completeness auto
termination
  by (relation "measure (\<lambda>(key, xs). length xs)") (auto dest: arg_cong [where f = "\<lambda>p. length (snd p)"])

definition sortTxsByTimestamp :: "Transaction list \<Rightarrow> Transaction list" where
  "sortTxsByTimestamp txs = exchange_sort txTimestamp txs"

lemma sweep_mset:
  "sweep key x ys = (m, zs) \<Longrightarrow> add_mset m (mset zs) = add_mset x (mset ys)"
proof (induction key x ys arbitrary: m zs rule: sweep.induct)
  case (1 key x)
  then show ?case by simp
next
  case (2 key x y ys)
  then show ?case
    by (cases "key y < key x")
       (fastforce split: prod.splits simp: Let_def add_mset_commute)+
qed

lemma sweep_min:
  "sweep key x ys = (m, zs) \<Longrightarrow> key m \<le> key x \<and> (\<forall>z \<in> set zs. key m \<le> key z)"
proof (induction key x ys arbitrary: m zs rule: sweep.induct)
  case (1 key x)
  then show ?case by simp
next
  case (2 key x y ys)
  then show ?case
    by (cases "key y < key x") (fastforce split: prod.splits simp: Let_def)+
qed

lemma exchange_sort_mset: "mset (exchange_sort key xs) = mset xs"
proof (induction key xs rule: exchange_sort.induct)
  case (1 key)
  then show ?case by simp
next
  case (2 key x xs)
  obtain m rest where s: "sweep key x xs = (m, rest)" by fastforce
  with 2 have "mset (exchange_sort key rest) = mset rest" by simp
  with s sweep_mset [OF s] show ?case by simp
qed

lemma exchange_sort_sorted: "sorted (map key (exchange_sort key xs))"
proof (induction key xs rule: exchange_sort.induct)
  case (1 key)
  then show ?case by simp
next
  case (2 key x xs)
  obtain m rest where s: "sweep key x xs = (m, rest)" by fastforce
  have "set (exchange_sort key rest) = set rest"
    by (metis exchange_sort_mset set_mset_mset)
  with s 2 sweep_min [OF s] show ?case by simp
qed

subsection \<open>Page arithmetic\<close>

definition page_limit :: "BlockPageQuery \<Rightarrow> int" where
  "page_limit q = (if qLimit q \<le> 0 then DefaultBlockPageLimit else min 200 (qLimit q))"

lemma page_limit_bounds: "1 \<le> page_limit q" "page_limit q \<le> 200"
  by (auto simp: page_limit_def DefaultBlockPageLimit_def)

lemma go_slice_page:
  assumes "0 \<le> s" "s < int (length xs)" "1 \<le> l"
  shows "go_slice xs s (if s + l > int (length xs) then int (length xs) else s + l)
    = Some (take (nat l) (drop (nat s) xs))"
proof (cases "s + l > int (length xs)")
  case True
  with assms show ?thesis by (simp add: go_slice_def)
next
  case False
  have "nat (s + l) - nat s = nat l" using assms by simp
  with False assms show ?thesis by (simp add: go_slice_def)
qed

lemma page_offset_in_range:
  fixes p l :: int
  assumes "1 \<le> p" "p \<le> 46116860184273879" "1 \<le> l" "l \<le> 200"
  shows "0 \<le> (p - 1) * l" "(p - 1) * l \<le> 9223372036854775600"
proof -
  show "0 \<le> (p - 1) * l" using assms by simp
  have "(p - 1) * l \<le> 46116860184273878 * 200" using assms by (intro mult_mono) auto
  then show "(p - 1) * l \<le> 9223372036854775600" by simp
qed

subsection \<open>Properties\<close>

text \<open>Remark: fork choice is a strict linear preference. A block is preferred over the one held exactly
  when its score (L2 yes count, L2 yes votes listed, L1 yes count, L1 yes votes listed, block
  hash) is lexicographically larger; so no two blocks are each preferred over the other, the
  preference is transitive, and of two blocks with different hashes one is preferred. Nodes that
  compare the same two competing blocks therefore pick the same one.\<close>

theorem PreferBlock_linear:
  "(PreferBlock a b \<longleftrightarrow> block_score a < block_score b)
   \<and> \<not> (PreferBlock a b \<and> PreferBlock b a)
   \<and> (PreferBlock a b \<and> PreferBlock b c \<longrightarrow> PreferBlock a c)
   \<and> (bBlockHash a \<noteq> bBlockHash b \<longrightarrow> PreferBlock a b \<or> PreferBlock b a)"
proof -
  have "block_score a \<noteq> block_score b" if "bBlockHash a \<noteq> bBlockHash b"
    using that by (auto simp: block_score_def)
  then show ?thesis by (auto simp: PreferBlock_score)
qed

definition vote_block :: "int \<Rightarrow> string \<Rightarrow> BlockRecord" where
  "vote_block l2 h = block0\<lparr>bL2Yes := l2, bBlockHash := h\<rparr>"

theorem PreferBlock_linear_witness:
  "PreferBlock (vote_block 1 ''aa'') (vote_block 2 ''ab'') \<and> PreferBlock (vote_block 2 ''ab'') (vote_block 2 ''b'')
   \<and> PreferBlock (vote_block 1 ''aa'') (vote_block 2 ''b'') \<and> bBlockHash (vote_block 1 ''aa'') \<noteq> bBlockHash (vote_block 2 ''ab'')"
proof -
  have 1: "PreferBlock (vote_block 1 ''aa'') (vote_block 2 ''ab'')" by code_simp
  have 2: "PreferBlock (vote_block 2 ''ab'') (vote_block 2 ''b'')" by code_simp
  have 3: "PreferBlock (vote_block 1 ''aa'') (vote_block 2 ''b'')"
    using PreferBlock_linear [of "vote_block 1 ''aa''" "vote_block 2 ''ab''" "vote_block 2 ''b''"] 1 2 by blast
  show ?thesis using 1 2 3 by (simp add: vote_block_def)
qed

text \<open>Remark: the tip freeze. When Rocks is the source of truth, the history that is served holds exactly
  the explorer blocks at or below the Rocks head, in their order; its head never leads Rocks; and
  with an empty Rocks store (head -1) nothing is served. Without Rocks the history is served as it
  is.\<close>

theorem FreezeBlockHistory_no_lead:
  "FreezeBlockHistory h r False = h
   \<and> (-1 \<le> r \<longrightarrow>
        \<not> TipLeadsRocks (historyHead (FreezeBlockHistory h r True)) r True
        \<and> filter (\<lambda>b. 0 \<le> bBlockNumber b) (FreezeBlockHistory h r True)
          = filter (\<lambda>b. 0 \<le> bBlockNumber b \<and> bBlockNumber b \<le> r) h)"
proof -
  have "historyHead (FreezeBlockHistory h r True) \<le> r" if "-1 \<le> r"
    using that by (auto simp: historyHead_le_iff FreezeBlockHistory_def)
  moreover have "filter (\<lambda>b. 0 \<le> bBlockNumber b) (FreezeBlockHistory h r True)
      = filter (\<lambda>b. 0 \<le> bBlockNumber b \<and> bBlockNumber b \<le> r) h"
    by (auto simp: FreezeBlockHistory_def filter_empty_conv intro: filter_cong)
  ultimately show ?thesis
    by (auto simp: TipLeadsRocks_def FreezeBlockHistory_def [of h r False])
qed

theorem FreezeBlockHistory_no_lead_witness:
  "-1 \<le> (3 :: int) \<and> \<not> TipLeadsRocks (historyHead (FreezeBlockHistory
     [block0\<lparr>bBlockNumber := 2\<rparr>, block0\<lparr>bBlockNumber := 7\<rparr>] 3 True)) 3 True"
  using FreezeBlockHistory_no_lead [of "[block0\<lparr>bBlockNumber := 2\<rparr>, block0\<lparr>bBlockNumber := 7\<rparr>]" 3] by simp

text \<open>Remark: block pages. The pages are cut from one list: the blocks of the requested range, newest
  first. A page holds at most 200 of them and is the slice at \<open>(page - 1) * limit\<close>, for every page
  number up to 46116860184273879 (beyond it the offset may leave the \<open>int64\<close> range).\<close>

theorem PageBlocks_spec:
  assumes page: "qPage q \<le> 46116860184273879"
  shows "\<exists>all. mset all = mset (filter (page_filter q) blocks)
     \<and> sorted_wrt (\<lambda>a b. bBlockNumber a \<ge> bBlockNumber b) all
     \<and> PageBlocks blocks q =
         Some (if qFull q then all
               else take (nat (page_limit q)) (drop (nat ((max 1 (qPage q) - 1) * page_limit q)) all))"
proof (intro exI conjI)
  let ?all = "insertion_sort_desc (filter (page_filter q) blocks)"
  let ?l = "page_limit q" and ?p = "max 1 (qPage q)"
  let ?s = "(?p - 1) * ?l"
  show "mset ?all = mset (filter (page_filter q) blocks)" by (simp add: insertion_sort_desc)
  show "sorted_wrt (\<lambda>a b. bBlockNumber a \<ge> bBlockNumber b) ?all" by (rule insertion_sort_desc)
  have l: "1 \<le> ?l" "?l \<le> 200" by (rule page_limit_bounds)+
  have s: "0 \<le> ?s" "?s \<le> 9223372036854775600"
    using page_offset_in_range [of ?p ?l] page l by auto
  have wrap: "i64 ?s = ?s" "i64 (?s + ?l) = ?s + ?l"
    using s l by (auto intro!: i64_id in_i64_small)
  have lim: "(if (if qLimit q \<le> 0 then DefaultBlockPageLimit else qLimit q) > 200 then 200
      else if qLimit q \<le> 0 then DefaultBlockPageLimit else qLimit q) = ?l"
    by (auto simp: page_limit_def DefaultBlockPageLimit_def)
  have pg: "(if qPage q < 1 then 1 else qPage q) = ?p" by auto
  show "PageBlocks blocks q = Some (if qFull q then ?all else take (nat ?l) (drop (nat ?s) ?all))"
  proof (cases "qFull q \<or> int (length ?all) \<le> ?s")
    case True
    then show ?thesis
      by (auto simp: PageBlocks_def Let_def lim pg wrap)
  next
    case False
    then show ?thesis
      using go_slice_page [of ?s ?all ?l] l s by (simp add: PageBlocks_def Let_def lim pg wrap)
  qed
qed

definition page_query :: "int \<Rightarrow> BlockPageQuery" where
  "page_query p = \<lparr>qLimit = 50, qPage = p, qFrom = None, qTo = None, qFull = False\<rparr>"

theorem PageBlocks_spec_witness:
  "qPage (page_query 2) \<le> 46116860184273879 \<and> (\<exists>out. PageBlocks [block0, block0] (page_query 2) = Some out)"
proof -
  have q: "qPage (page_query 2) \<le> 46116860184273879" by (simp add: page_query_def)
  from PageBlocks_spec [OF q, of "[block0, block0]"] q show ?thesis by blast
qed

text \<open>Remark: the page number of the block list is not bounded by its reader, so a request with a huge
  page makes the offset wrap to a negative number and the slice expression panics.\<close>

theorem PageBlocks_page_overflow_panics:
  "PageBlocks [block0] (page_query 4611686018427387905) = None"
proof -
  have "i64 ((4611686018427387905 - 1) * 50) = - 9223372036854775808" by (simp add: i64_def)
  moreover have "i64 (- 9223372036854775808 + 50) = - 9223372036854775758" by (simp add: i64_def)
  moreover have "page_filter (page_query p) b" for p b by (simp add: page_filter_def page_query_def)
  ultimately show ?thesis
    by (simp add: PageBlocks_def Let_def page_query_def insertion_sort_desc_def go_slice_def page_filter_def)
qed

end
