(* ===== verification/Tx_Pool.thy ===== *)
theory Tx_Pool
  imports Chain_Data
begin

text \<open>
  The durable transaction pool (\<^verbatim>\<open>internal/txpool/store.go\<close>): a directory with one JSON file per
  pooled transaction, named after its hash. The directory is an association list from file names
  to the value whose JSON the file holds; an operation takes whether the file system call
  succeeds. \<open>json.Valid\<close> holds for every value that was marshalled, so the caller's value is the
  stored one.
\<close>

type_synonym 'v pool = "(string \<times> 'v) list"

datatype pool_error = UnsafeHash | WriteTemp | RenameFile | RemoveFile

definition file_char :: "char \<Rightarrow> bool" where
  "file_char c \<longleftrightarrow> is_digit c \<or> (97 \<le> code c \<and> code c \<le> 122) \<or> (65 \<le> code c \<and> code c \<le> 90)"

definition fileName :: "string \<Rightarrow> string option" where
  "fileName hash =
     (if hash = [] \<or> length hash > 128 then None
      else if list_all file_char hash then Some (hash @ ''.json'') else None)"

text \<open>\<open>Put\<close>: the temporary file is written and then renamed over the final one, so a failed write
  or rename keeps the previous file.\<close>

definition pool_Put :: "bool \<Rightarrow> bool \<Rightarrow> 'v pool \<Rightarrow> string \<Rightarrow> 'v \<Rightarrow> pool_error option \<times> 'v pool" where
  "pool_Put write_ok rename_ok s hash v =
     (case fileName hash of
        None \<Rightarrow> (Some UnsafeHash, s)
      | Some name \<Rightarrow>
          (if \<not> write_ok then (Some WriteTemp, s)
           else if \<not> rename_ok then (Some RenameFile, s)
           else (None, AList.update name v s)))"

definition pool_Delete :: "bool \<Rightarrow> 'v pool \<Rightarrow> string \<Rightarrow> pool_error option \<times> 'v pool" where
  "pool_Delete remove_ok s hash =
     (case fileName hash of
        None \<Rightarrow> (None, s)
      | Some name \<Rightarrow>
          (if map_of s name = None then (None, s)
           else if \<not> remove_ok then (Some RemoveFile, s)
           else (None, AList.delete name s)))"

text \<open>\<open>List\<close>: every entry whose name ends in \<^verbatim>\<open>.json\<close>, keyed by the name without it.\<close>

definition json_suffix :: "string \<Rightarrow> bool" where
  "json_suffix name \<longleftrightarrow> 5 \<le> length name \<and> drop (length name - 5) name = ''.json''"

definition pool_List :: "'v pool \<Rightarrow> (string \<times> 'v) list" where
  "pool_List s =
     map (\<lambda>(name, v). (take (length name - 5) name, v)) (filter (\<lambda>(name, v). json_suffix name) s)"

lemma fileName_inj: "fileName h = Some n \<Longrightarrow> fileName h' = Some n \<Longrightarrow> h = h'"
  by (auto simp: fileName_def split: if_splits)

lemma fileName_json: "fileName h = Some n \<Longrightarrow> json_suffix n \<and> take (length n - 5) n = h"
  by (auto simp: fileName_def json_suffix_def split: if_splits)

text \<open>The directory is well formed when every file carries a name that \<open>fileName\<close> gives.\<close>

definition pool_ok :: "'v pool \<Rightarrow> bool" where
  "pool_ok s \<longleftrightarrow> wf_map s \<and> (\<forall>(n, v) \<in> set s. \<exists>h. fileName h = Some n)"

definition pool_get :: "'v pool \<Rightarrow> string \<Rightarrow> 'v option" where
  "pool_get s hash = map_of (pool_List s) hash"

lemma pool_name: "pool_ok s \<Longrightarrow> (n, v) \<in> set s \<Longrightarrow> fileName (take (length n - 5) n) = Some n"
  unfolding pool_ok_def by (auto dest: fileName_json)

lemma pool_List_set:
  assumes "pool_ok s"
  shows "(h, v) \<in> set (pool_List s) \<longleftrightarrow> (\<exists>n. fileName h = Some n \<and> (n, v) \<in> set s)"
proof -
  have "(h, v) \<in> set (pool_List s) \<longleftrightarrow> (\<exists>n. (n, v) \<in> set s \<and> json_suffix n \<and> take (length n - 5) n = h)"
    by (force simp: pool_List_def)
  then show ?thesis using pool_name [OF assms] fileName_json by metis
qed

lemma wf_pool_List:
  assumes "pool_ok s"
  shows "wf_map (pool_List s)"
proof -
  let ?f = "filter (\<lambda>(name, v). json_suffix name) s"
  have "inj_on (\<lambda>n. take (length n - 5) n) (set (map fst ?f))"
  proof (rule inj_onI)
    fix m n assume "m \<in> set (map fst ?f)" "n \<in> set (map fst ?f)"
      and "take (length m - 5) m = take (length n - 5) n"
    then show "m = n" using pool_name [OF assms] by auto (metis option.inject)
  qed
  moreover have "distinct (map fst ?f)"
    using assms by (auto simp: pool_ok_def intro: distinct_map_filter)
  ultimately have "distinct (map (\<lambda>n. take (length n - 5) n) (map fst ?f))"
    by (simp only: distinct_map)
  then show ?thesis by (simp add: pool_List_def comp_def case_prod_beta)
qed

lemma pool_get_eq:
  assumes "pool_ok s"
  shows "pool_get s h = (case fileName h of Some n \<Rightarrow> map_of s n | None \<Rightarrow> None)"
proof -
  have wf: "wf_map s" using assms by (simp add: pool_ok_def)
  have "pool_get s h = Some v \<longleftrightarrow> (\<exists>n. fileName h = Some n \<and> map_of s n = Some v)" for v
    using wf wf_pool_List [OF assms] pool_List_set [OF assms, of h v] by (simp add: pool_get_def)
  then have "pool_get s h = Some v \<longleftrightarrow> (case fileName h of Some n \<Rightarrow> map_of s n | None \<Rightarrow> None) = Some v" for v
    by (auto split: option.splits)
  then show ?thesis by (metis not_Some_eq)
qed

lemma pool_ok_update: "pool_ok s \<Longrightarrow> fileName h = Some n \<Longrightarrow> pool_ok (AList.update n v s)"
  by (auto simp: pool_ok_def set_update_wf)

lemma pool_ok_delete: "pool_ok s \<Longrightarrow> pool_ok (AList.delete n s)"
  by (auto simp: pool_ok_def AList.delete_eq intro: distinct_map_filter)

lemma pool_ok_Put: "pool_ok s \<Longrightarrow> pool_ok (snd (pool_Put w r s h v))"
  by (auto simp: pool_Put_def pool_ok_update split: option.splits)

lemma pool_ok_Delete: "pool_ok s \<Longrightarrow> pool_ok (snd (pool_Delete r s h))"
  by (auto simp: pool_Delete_def pool_ok_delete split: option.splits)

lemmas pool_gets = pool_get_eq pool_get_eq [OF pool_ok_update] pool_get_eq [OF pool_ok_delete]

subsection \<open>Interface\<close>

text \<open>
  A durable key-value store: a successful put is read back, a failed one changes nothing, other
  keys are untouched, and a delete that reports no error leaves the key absent.
\<close>

locale durable_store =
  fixes get :: "'s \<Rightarrow> string \<Rightarrow> 'v option"
    and put :: "bool \<Rightarrow> 's \<Rightarrow> string \<Rightarrow> 'v \<Rightarrow> 'e option \<times> 's"
    and del :: "bool \<Rightarrow> 's \<Rightarrow> string \<Rightarrow> 'e option \<times> 's"
    and ok :: "'s \<Rightarrow> bool"
  assumes put_ok: "ok s \<Longrightarrow> ok (snd (put b s k v))"
    and del_ok: "ok s \<Longrightarrow> ok (snd (del b s k))"
    and put_get: "ok s \<Longrightarrow> fst (put b s k v) = None \<Longrightarrow> get (snd (put b s k v)) k = Some v"
    and put_other: "ok s \<Longrightarrow> k' \<noteq> k \<Longrightarrow> get (snd (put b s k v)) k' = get s k'"
    and put_fail: "fst (put b s k v) \<noteq> None \<Longrightarrow> snd (put b s k v) = s"
    and del_get: "ok s \<Longrightarrow> fst (del b s k) = None \<Longrightarrow> get (snd (del b s k)) k = None"
    and del_other: "ok s \<Longrightarrow> k' \<noteq> k \<Longrightarrow> get (snd (del b s k)) k' = get s k'"
begin

text \<open>Deleting a list of keys keeps every other key.\<close>

lemma del_all:
  "ok s \<Longrightarrow> ok (foldl (\<lambda>s k. snd (del b s k)) s ks)
    \<and> (k' \<notin> set ks \<longrightarrow> get (foldl (\<lambda>s k. snd (del b s k)) s ks) k' = get s k')"
  by (induction ks arbitrary: s) (auto simp: del_ok del_other)

end

interpretation tp: durable_store pool_get "\<lambda>b. pool_Put b b" pool_Delete pool_ok
proof unfold_locales
  fix s :: "'v pool" and b k k' v
  show "pool_ok s \<Longrightarrow> pool_ok (snd (pool_Put b b s k v))" by (rule pool_ok_Put)
  show "pool_ok s \<Longrightarrow> pool_ok (snd (pool_Delete b s k))" by (rule pool_ok_Delete)
  show "fst (pool_Put b b s k v) \<noteq> None \<Longrightarrow> snd (pool_Put b b s k v) = s"
    by (auto simp: pool_Put_def split: option.splits)
  assume ok: "pool_ok s"
  show "fst (pool_Put b b s k v) = None \<Longrightarrow> pool_get (snd (pool_Put b b s k v)) k = Some v"
    using ok by (auto simp: pool_gets pool_Put_def split: option.splits if_splits)
  show "k' \<noteq> k \<Longrightarrow> pool_get (snd (pool_Put b b s k v)) k' = pool_get s k'"
    using ok by (auto simp: pool_gets pool_Put_def split: option.splits dest: fileName_inj)
  show "fst (pool_Delete b s k) = None \<Longrightarrow> pool_get (snd (pool_Delete b s k)) k = None"
    using ok by (auto simp: pool_gets pool_Delete_def split: option.splits if_splits)
  show "k' \<noteq> k \<Longrightarrow> pool_get (snd (pool_Delete b s k)) k' = pool_get s k'"
    using ok by (auto simp: pool_gets pool_Delete_def split: option.splits dest: fileName_inj)
qed

end
