(* ===== verification/Blockchain_State.thy ===== *)
theory Blockchain_State
  imports Chain_Views Tx_Pool
begin

text \<open>
  The state of \<open>Blockchain\<close> (\<^verbatim>\<open>internal/blockchain/blockchain.go\<close>) and its explorer index.

  The fields are those of the Go struct. Three more hold what the struct's paths point at: the
  Core state file, its \<^verbatim>\<open>.l2bak\<close> snapshot, and the last chain file written. Core itself is code
  outside the repository: its state has the type variable \<open>'c\<close>, and only the functions the gateway
  calls on it (given as arguments where they are used) look inside. \<open>addressTxs\<close> reads as the empty
  list at an absent key and \<open>confirmedHashes\<close> as false, as Go maps do.

  No operation stores a nil transaction pointer in \<open>mempool\<close>, \<open>pendingBlock\<close> or the indexes: each
  writer either dereferences the pointer first or skips nil. Those lists are therefore lists of
  transactions, and only arguments that come from outside are lists of optional ones. The mutex is
  taken for the whole of each operation below, so an operation is one step; the two operations that
  release it in between are modelled in two steps in theory \<open>Confirm\<close>.
\<close>

record ChainFileData =
  cfBlockCounter :: int
  cfTotalFeesCollected :: int
  cfBlocks :: "BlockRecord list"
  cfTransactions :: "Transaction list"

record 'c Blockchain =
  ledger :: bool
  stateFile :: 'c
  l2bak :: "'c option"
  transactions :: "(string \<times> Transaction) list"
  mempool :: "Transaction list"
  pendingBlock :: "Transaction list"
  addressTxs :: "string \<Rightarrow> Transaction list"
  lastTx :: "Transaction option"
  blockCounter :: int
  blockHistory :: "BlockRecord list"
  totalFeesCollected :: int
  chainFile :: string
  chainDisk :: "ChainFileData option"
  txPool :: "Transaction pool option"
  durableHead :: int
  confirmedHashes :: "string set"
  dagCommitDigests :: "string list"
  dagCommitAnchor :: string
  explorerOnlyConfirm :: bool
  peerConfirmInject :: bool

definition NewBlockchain :: "'c \<Rightarrow> 'c Blockchain" where
  "NewBlockchain core =
     \<lparr>ledger = False, stateFile = core, l2bak = None, transactions = [], mempool = [],
      pendingBlock = [], addressTxs = (\<lambda>_. []), lastTx = None, blockCounter = 0,
      blockHistory = [], totalFeesCollected = 0, chainFile = [], chainDisk = None, txPool = None,
      durableHead = -1, confirmedHashes = {}, dagCommitDigests = [], dagCommitAnchor = [],
      explorerOnlyConfirm = False, peerConfirmInject = False\<rparr>"

subsection \<open>Setters\<close>

definition SetLedger :: "'c Blockchain \<Rightarrow> 'c Blockchain" where
  "SetLedger bc = bc\<lparr>ledger := True\<rparr>"

definition SetDagCommitDigests :: "'c Blockchain \<Rightarrow> string \<Rightarrow> string list \<Rightarrow> 'c Blockchain" where
  "SetDagCommitDigests bc anchor digests = bc\<lparr>dagCommitAnchor := anchor, dagCommitDigests := digests\<rparr>"

definition ClearDagCommitDigests :: "'c Blockchain \<Rightarrow> 'c Blockchain" where
  "ClearDagCommitDigests bc = bc\<lparr>dagCommitAnchor := [], dagCommitDigests := []\<rparr>"

subsection \<open>Explorer index\<close>

text \<open>\<open>bc.addressTxs[a] = append(bc.addressTxs[a], tx)\<close>.\<close>

definition append_address :: "string \<Rightarrow> Transaction \<Rightarrow> (string \<Rightarrow> Transaction list) \<Rightarrow> string \<Rightarrow> Transaction list" where
  "append_address a tx idx = idx(a := idx a @ [tx])"

datatype tx_error = HashRequired | NonceInPending int string | NonceInMempool int string

definition AddTransaction :: "'c Blockchain \<Rightarrow> Transaction \<Rightarrow> tx_error + 'c Blockchain" where
  "AddTransaction bc tx =
     (if txHash tx = [] then Inl HashRequired
      else Inr (bc\<lparr>transactions := AList.update (txHash tx) tx (transactions bc),
                   lastTx := Some tx,
                   addressTxs := append_address (txTo tx) tx (append_address (txFrom tx) tx (addressTxs bc))\<rparr>))"

subsection \<open>Persistence\<close>

text \<open>
  \<open>persistChain\<close> writes the snapshot through a temporary file and a rename; \<open>write_ok\<close> says whether
  the file system did it. The order of \<open>Transactions\<close> is the map's iteration order.
\<close>

datatype persist_error = ShrinkHead int int | WriteFailed

definition persistChain :: "bool \<Rightarrow> 'c Blockchain \<Rightarrow> persist_error option \<times> 'c Blockchain" where
  "persistChain write_ok bc =
     (if chainFile bc = [] then (None, bc)
      else
        let file = \<lparr>cfBlockCounter = blockCounter bc, cfTotalFeesCollected = totalFeesCollected bc,
              cfBlocks = blockHistory bc, cfTransactions = map snd (transactions bc)\<rparr>;
            nextHead = historyHead (cfBlocks file)
        in if durableHead bc \<ge> 0 \<and> nextHead < durableHead bc
           then (Some (ShrinkHead (durableHead bc) nextHead), bc)
           else if \<not> write_ok then (Some WriteFailed, bc)
           else (None, bc\<lparr>chainDisk := Some file,
                          durableHead := (if nextHead > durableHead bc then nextHead else durableHead bc)\<rparr>))"

definition noteDurableHeadLocked :: "'c Blockchain \<Rightarrow> 'c Blockchain" where
  "noteDurableHeadLocked bc =
     (let h = historyHead (blockHistory bc)
      in if h > durableHead bc then bc\<lparr>durableHead := h\<rparr> else bc)"

lemma persistChain_frame [simp]:
  "mempool (snd (persistChain w bc)) = mempool bc"
  "pendingBlock (snd (persistChain w bc)) = pendingBlock bc"
  "blockHistory (snd (persistChain w bc)) = blockHistory bc"
  "blockCounter (snd (persistChain w bc)) = blockCounter bc"
  "transactions (snd (persistChain w bc)) = transactions bc"
  "confirmedHashes (snd (persistChain w bc)) = confirmedHashes bc"
  "addressTxs (snd (persistChain w bc)) = addressTxs bc"
  "totalFeesCollected (snd (persistChain w bc)) = totalFeesCollected bc"
  "stateFile (snd (persistChain w bc)) = stateFile bc"
  "l2bak (snd (persistChain w bc)) = l2bak bc"
  "lastTx (snd (persistChain w bc)) = lastTx bc"
  "ledger (snd (persistChain w bc)) = ledger bc"
  "chainFile (snd (persistChain w bc)) = chainFile bc"
  by (simp_all add: persistChain_def Let_def)

text \<open>What \<open>persistChain\<close> returns and does to the two fields it may write.\<close>

lemma persistChain_fst:
  "fst (persistChain w bc) =
     (if chainFile bc = [] then None
      else if durableHead bc \<ge> 0 \<and> historyHead (blockHistory bc) < durableHead bc
      then Some (ShrinkHead (durableHead bc) (historyHead (blockHistory bc)))
      else if \<not> w then Some WriteFailed else None)"
  by (simp add: persistChain_def Let_def)

lemma persistChain_durableHead:
  "durableHead (snd (persistChain w bc)) =
     (if chainFile bc \<noteq> [] \<and> fst (persistChain w bc) = None
      then max (durableHead bc) (historyHead (blockHistory bc)) else durableHead bc)"
  by (simp add: persistChain_def Let_def)

lemma persistChain_chainDisk:
  "chainDisk (snd (persistChain w bc)) =
     (if chainFile bc \<noteq> [] \<and> fst (persistChain w bc) = None
      then Some \<lparr>cfBlockCounter = blockCounter bc, cfTotalFeesCollected = totalFeesCollected bc,
                 cfBlocks = blockHistory bc, cfTransactions = map snd (transactions bc)\<rparr>
      else chainDisk bc)"
  by (simp add: persistChain_def Let_def)

lemma persistChain_no_shrink: "durableHead bc \<le> durableHead (snd (persistChain w bc))"
  by (simp add: persistChain_durableHead)

end
