(* ===== verification/Mempool.thy ===== *)
theory Mempool
  imports Blockchain_State
begin

text \<open>
  The mempool and the L1 pending block: admission, nonce queries, the deterministic read, L1
  collection, peer synchronisation (\<^verbatim>\<open>internal/blockchain/blockchain.go\<close>), Core-selected collection
  (\<^verbatim>\<open>mempool_snapshot.go\<close>), pruning and escrow re-queueing (\<^verbatim>\<open>mempool_prune.go\<close>).

  The invariant \<open>inflight_ok\<close> is what admission works for: no transaction is in flight twice, no
  sender has two in-flight transactions with one nonce, and nothing confirmed is in flight. It is
  kept by every run of the local operations, in any order. \<open>SyncPendingBlock\<close> takes a peer's list
  as it is, so only the disjointness of the two lists is claimed of it.
\<close>

subsection \<open>Admission\<close>

abbreviation inflight :: "'c Blockchain \<Rightarrow> Transaction list" where
  "inflight bc \<equiv> pendingBlock bc @ mempool bc"

definition sender_nonce :: "Transaction \<Rightarrow> string \<times> int" where
  "sender_nonce tx = (txFrom tx, txNonce tx)"

text \<open>One of the two admission loops: the first element with the same hash or the same sender and
  nonce decides.\<close>

datatype scan_result = Duplicate | NonceClash | Free

fun scan_inflight :: "Transaction \<Rightarrow> Transaction list \<Rightarrow> scan_result" where
  "scan_inflight tx [] = Free"
| "scan_inflight tx (t # ts) =
     (if txHash t = txHash tx then Duplicate
      else if txFrom t = txFrom tx \<and> txNonce t = txNonce tx then NonceClash
      else scan_inflight tx ts)"

definition AddToMempool :: "'c Blockchain \<Rightarrow> Transaction \<Rightarrow> tx_error option \<times> 'c Blockchain" where
  "AddToMempool bc tx =
     (if txHash tx = [] then (Some HashRequired, bc)
      else if txHash tx \<in> confirmedHashes bc then (None, bc)
      else case scan_inflight tx (pendingBlock bc) of
        Duplicate \<Rightarrow> (None, bc)
      | NonceClash \<Rightarrow> (Some (NonceInPending (txNonce tx) (txFrom tx)), bc)
      | Free \<Rightarrow>
          (case scan_inflight tx (mempool bc) of
             Duplicate \<Rightarrow> (None, bc)
           | NonceClash \<Rightarrow> (Some (NonceInMempool (txNonce tx) (txFrom tx)), bc)
           | Free \<Rightarrow> (None, bc\<lparr>mempool := mempool bc @ [tx]\<rparr>)))"

definition consider_nonce :: "string \<Rightarrow> int \<times> bool \<Rightarrow> Transaction \<Rightarrow> int \<times> bool" where
  "consider_nonce address acc tx =
     (let (maxN, found) = acc
      in if txFrom tx \<noteq> address then acc
         else if \<not> found \<or> txNonce tx > maxN then (txNonce tx, True) else acc)"

definition HighestInFlightNonce :: "'c Blockchain \<Rightarrow> string \<Rightarrow> int \<times> bool" where
  "HighestInFlightNonce bc address =
     foldl (consider_nonce address) (foldl (consider_nonce address) (0, False) (mempool bc)) (pendingBlock bc)"

definition HasInFlightNonce :: "'c Blockchain \<Rightarrow> string \<Rightarrow> int \<Rightarrow> bool" where
  "HasInFlightNonce bc address nonce \<longleftrightarrow>
     list_ex (\<lambda>tx. txFrom tx = address \<and> txNonce tx = nonce) (mempool bc) \<or>
     list_ex (\<lambda>tx. txFrom tx = address \<and> txNonce tx = nonce) (pendingBlock bc)"

text \<open>\<open>sort.SliceStable\<close> with the lexicographic comparison of timestamp, sender, nonce and hash.\<close>

definition mempool_key :: "Transaction \<Rightarrow> int \<times> string \<times> int \<times> string" where
  "mempool_key tx = (txTimestamp tx, txFrom tx, txNonce tx, txHash tx)"

definition GetMempool :: "'c Blockchain \<Rightarrow> Transaction list" where
  "GetMempool bc = sort_key mempool_key (mempool bc)"

subsection \<open>Removal and peer synchronisation\<close>

definition RemoveFromMempool :: "'c Blockchain \<Rightarrow> string list \<Rightarrow> 'c Blockchain" where
  "RemoveFromMempool bc hashes =
     (if hashes = [] then bc
      else
        let gone = filter (\<lambda>tx. txHash tx \<in> set hashes) (mempool bc);
            forget = filter (\<lambda>h. h \<noteq> [] \<and> h \<notin> confirmedHashes bc) (map txHash gone)
        in bc\<lparr>transactions := fold AList.delete forget (transactions bc),
              mempool := filter (\<lambda>tx. txHash tx \<notin> set hashes) (mempool bc)\<rparr>)"

definition SyncPendingBlock :: "'c Blockchain \<Rightarrow> Transaction option list \<Rightarrow> 'c Blockchain" where
  "SyncPendingBlock bc txs =
     (let pending = nonnil txs;
          hashes = map txHash pending;
          bc1 = bc\<lparr>pendingBlock := pending\<rparr>
      in if hashes = [] then bc1
         else bc1\<lparr>mempool := filter (\<lambda>tx. txHash tx \<notin> set hashes) (mempool bc1)\<rparr>)"

definition SetPendingBlock :: "'c Blockchain \<Rightarrow> Transaction option list \<Rightarrow> 'c Blockchain" where
  "SetPendingBlock bc txs =
     (let pending = nonnil txs;
          hashes = map txHash pending
      in bc\<lparr>pendingBlock := pending,
            mempool := filter (\<lambda>tx. txHash tx \<notin> set hashes) (mempool bc)\<rparr>)"

text \<open>\<open>byHash\<close>: filled in mempool order, so the last transaction with a hash wins.\<close>

definition byHash :: "Transaction list \<Rightarrow> string \<Rightarrow> Transaction option" where
  "byHash txs = fold (\<lambda>tx m. if txHash tx \<noteq> [] then m(txHash tx \<mapsto> tx) else m) txs Map.empty"

fun lookup_all :: "(string \<Rightarrow> 'a option) \<Rightarrow> string list \<Rightarrow> 'a list option" where
  "lookup_all m [] = Some []"
| "lookup_all m (h # hs) =
     (case m h of
        None \<Rightarrow> None
      | Some x \<Rightarrow> (case lookup_all m hs of None \<Rightarrow> None | Some xs \<Rightarrow> Some (x # xs)))"

definition GetMempoolTxsByHashes :: "'c Blockchain \<Rightarrow> string list \<Rightarrow> Transaction list option" where
  "GetMempoolTxsByHashes bc hashes = lookup_all (byHash (mempool bc)) hashes"

definition SelectTxsByHashes :: "'c Blockchain \<Rightarrow> string list \<Rightarrow> Transaction list" where
  "SelectTxsByHashes bc hashes =
     (if hashes = [] then [] else List.map_filter (byHash (mempool bc)) hashes)"

text \<open>\<open>PendingBlockMatchesHashes\<close> counts the hashes down; a missing key of \<open>remaining\<close> reads 0.\<close>

fun count_down :: "Transaction list \<Rightarrow> (string \<Rightarrow> int) \<Rightarrow> (string \<Rightarrow> int) option" where
  "count_down [] remaining = Some remaining"
| "count_down (tx # txs) remaining =
     (let r = remaining(txHash tx := remaining (txHash tx) - 1)
      in if r (txHash tx) < 0 then None else count_down txs r)"

definition PendingBlockMatchesHashes :: "'c Blockchain \<Rightarrow> string list \<Rightarrow> bool" where
  "PendingBlockMatchesHashes bc hashes =
     (if length hashes \<noteq> length (pendingBlock bc) then False
      else case count_down (pendingBlock bc) (fold (\<lambda>h r. r(h := r h + 1)) hashes (\<lambda>_. 0)) of
        None \<Rightarrow> False
      | Some r \<Rightarrow> list_all (\<lambda>h. r h = 0) (hashes @ map txHash (pendingBlock bc)))"

subsection \<open>L1 collection\<close>

definition L1CollectBlockLimit :: "'c Blockchain \<Rightarrow> int \<Rightarrow> Transaction list \<times> 'c Blockchain" where
  "L1CollectBlockLimit bc limit =
     (let len = length (mempool bc);
          n = (if limit > 0 \<and> limit < int len then nat limit else len)
      in (take n (mempool bc),
          bc\<lparr>pendingBlock := take n (mempool bc), mempool := drop n (mempool bc)\<rparr>))"

definition L1CollectBlock :: "'c Blockchain \<Rightarrow> Transaction list \<times> 'c Blockchain" where
  "L1CollectBlock bc = L1CollectBlockLimit bc 0"

text \<open>The loop of \<open>L1CollectSelected\<close>: \<open>delete(pick, tx.Hash)\<close> after the first hit.\<close>

fun pick_split :: "string set \<Rightarrow> Transaction list \<Rightarrow> Transaction list \<times> Transaction list" where
  "pick_split pick [] = ([], [])"
| "pick_split pick (tx # txs) =
     (if txHash tx \<in> pick
      then (let (moved, remaining) = pick_split (pick - {txHash tx}) txs in (tx # moved, remaining))
      else (let (moved, remaining) = pick_split pick txs in (moved, tx # remaining)))"

definition L1CollectSelected :: "'c Blockchain \<Rightarrow> Transaction option list \<Rightarrow> Transaction list \<times> 'c Blockchain" where
  "L1CollectSelected bc selected =
     (if selected = [] then ([], bc)
      else
        let pick = set (filter (\<lambda>h. h \<noteq> []) (map txHash (nonnil selected)));
            (moved, remaining) = pick_split pick (mempool bc)
        in (moved, bc\<lparr>mempool := remaining, pendingBlock := moved\<rparr>))"

text \<open>\<open>AbandonPendingBlock\<close> returns the two counts and the new state.\<close>

definition AbandonPendingBlock :: "'c Blockchain \<Rightarrow> string list \<Rightarrow> (nat \<times> nat) \<times> 'c Blockchain" where
  "AbandonPendingBlock bc drops =
     (if pendingBlock bc = [] then ((0, 0), bc)
      else
        let dropSet = set (filter (\<lambda>h. h \<noteq> []) drops);
            live = filter (\<lambda>tx. txHash tx \<noteq> []) (pendingBlock bc);
            dropped = filter (\<lambda>tx. txHash tx \<in> dropSet) live;
            returned = filter (\<lambda>tx. txHash tx \<notin> dropSet) live;
            forget = filter (\<lambda>h. h \<notin> confirmedHashes bc) (map txHash dropped)
        in ((length returned, length dropped),
            bc\<lparr>transactions := fold AList.delete forget (transactions bc),
               mempool := mempool bc @ returned, pendingBlock := []\<rparr>))"

subsection \<open>Snapshots for Core\<close>

text \<open>
  An entry of the mempool snapshot sent to Core. The JSON object always has the fields below;
  \<open>amount\<close> is the number, or the display string when the number is zero and the string is there.
\<close>

record snapshot_entry =
  seHash :: string
  seFrom :: string
  seTo :: string
  seAsset :: string
  seAmount :: "u64 + string"
  seFeeUplp :: u64
  seFee :: "string option"
  seNonce :: int
  seSigMain :: string
  seSigDerived :: string
  seArrival :: nat
  seTimestamp :: int
  seReads :: "string list"
  seWrites :: "string list"
  sePubMain :: "string option"
  sePubDerived :: "string option"

definition snapshot_of :: "nat \<Rightarrow> Transaction \<Rightarrow> snapshot_entry" where
  "snapshot_of i tx =
     \<lparr>seHash = txHash tx, seFrom = txFrom tx, seTo = txTo tx,
      seAsset = (if txAsset tx = [] then ''PLP'' else txAsset tx),
      seAmount = (if txAmountUplp tx = 0 \<and> txValue tx \<noteq> [] then Inr (txValue tx) else Inl (txAmountUplp tx)),
      seFeeUplp = txFeeUplp tx,
      seFee = (if txFeeUplp tx = 0 \<and> txFee tx \<noteq> [] then Some (txFee tx) else None),
      seNonce = txNonce tx, seSigMain = txSigMain tx, seSigDerived = txSigDerived tx,
      seArrival = i, seTimestamp = txTimestamp tx, seReads = txReads tx, seWrites = txWrites tx,
      sePubMain = (if txPubMain tx \<noteq> [] then Some (txPubMain tx) else None),
      sePubDerived = (if txPubDerived tx \<noteq> [] then Some (txPubDerived tx) else None)\<rparr>"

definition transactionSnapshotJSON :: "Transaction list \<Rightarrow> snapshot_entry list" where
  "transactionSnapshotJSON txs = map2 snapshot_of [0..<length txs] txs"

definition MempoolSnapshotJSON :: "'c Blockchain \<Rightarrow> snapshot_entry list" where
  "MempoolSnapshotJSON bc = transactionSnapshotJSON (mempool bc)"

definition AdmissionSnapshotJSON :: "'c Blockchain \<Rightarrow> snapshot_entry list" where
  "AdmissionSnapshotJSON bc = transactionSnapshotJSON (pendingBlock bc @ mempool bc)"

subsection \<open>Pruning\<close>

definition MempoolMaxNonceGap :: int where
  "MempoolMaxNonceGap = 64"

definition mempoolFutureMaxAgeSec :: int where
  "mempoolFutureMaxAgeSec = 6 * 3600"

text \<open>
  \<open>query\<close> is \<open>ledger.Query\<close> reduced to the account nonce, \<open>None\<close> when Core reports an error. The
  read of the nonces happens under its own read lock, before the write lock of the pruning proper:
  \<open>prune_locked\<close> takes the nonces as an argument, so its lemmas also cover a mempool that changed
  in between. \<open>rocks\<close> is the block list read from Rocks (\<open>None\<close>: disabled or failed), \<open>now\<close> the
  clock as read for each sender, \<open>rm\<close> whether removing a pool file succeeds.
\<close>

definition ledger_sender :: "Transaction \<Rightarrow> bool" where
  "ledger_sender tx \<longleftrightarrow> txFrom tx \<noteq> [] \<and> txFrom tx \<noteq> FaucetAddress"

definition accountNoncesForMempool :: "(string \<Rightarrow> u64 option) \<Rightarrow> 'c Blockchain \<Rightarrow> (string \<times> u64) list" where
  "accountNoncesForMempool query bc =
     (let senders = remdups (map txFrom (filter ledger_sender (mempool bc)))
      in if \<not> ledger bc \<or> senders = [] then []
         else List.map_filter (\<lambda>a. map_option (Pair a) (query a)) senders)"

record prune_acc =
  pkept :: "Transaction list"
  pseen :: "string \<times> int \<Rightarrow> nat option"
  premoved :: nat

definition prune_step ::
  "string set \<Rightarrow> string set \<Rightarrow> (string \<times> u64) list \<Rightarrow> prune_acc \<Rightarrow> Transaction \<Rightarrow> prune_acc" where
  "prune_step confirmed pending nonces acc tx =
     (let skip = acc\<lparr>premoved := premoved acc + 1\<rparr>;
          keep = acc\<lparr>pkept := pkept acc @ [tx]\<rparr>
      in if txHash tx = [] then skip
         else if txFrom tx = FaucetAddress \<or> txType tx = ''faucet'' then skip
         else if txHash tx \<in> confirmed \<or> txHash tx \<in> pending then skip
         else if ledger_sender tx then
           (if (case map_of nonces (txFrom tx) of None \<Rightarrow> False | Some want \<Rightarrow> txNonce tx < sint want)
            then skip
            else case pseen acc (sender_nonce tx) of
              Some i \<Rightarrow>
                (let prev = pkept acc ! i
                 in if txTimestamp tx > 0 \<and> txTimestamp prev > 0 \<and> txTimestamp tx < txTimestamp prev
                    then skip\<lparr>pkept := (pkept acc)[i := tx]\<rparr> else skip)
            | None \<Rightarrow> keep\<lparr>pseen := (pseen acc)(sender_nonce tx \<mapsto> length (pkept acc))\<rparr>)
         else keep)"

text \<open>The nonce a sender is measured against: \<open>int(accountNonce[from])\<close>, where a missing key reads 0.\<close>

definition want_nonce :: "(string \<times> u64) list \<Rightarrow> string \<Rightarrow> int" where
  "want_nonce nonces from = (case map_of nonces from of None \<Rightarrow> 0 | Some w \<Rightarrow> sint w)"

text \<open>The test of the second phase. The code groups the kept transactions by sender and sorts each
  group by nonce first; the test of a transaction reads neither its neighbours nor its position.\<close>

definition drop_nonce :: "(string \<times> u64) list \<Rightarrow> (string \<Rightarrow> int) \<Rightarrow> Transaction \<Rightarrow> bool" where
  "drop_nonce nonces now tx \<longleftrightarrow>
     ledger_sender tx \<and>
     (let want = want_nonce nonces (txFrom tx)
      in txNonce tx < want \<or> txNonce tx > i64 (want + MempoolMaxNonceGap) \<or>
         (txNonce tx \<noteq> want \<and> txTimestamp tx > 0 \<and>
          i64 (now (txFrom tx) - txTimestamp tx) > mempoolFutureMaxAgeSec))"

definition block_hashes :: "BlockRecord list \<Rightarrow> string set" where
  "block_hashes bs = {h \<in> set (concat (map bTxHashes bs)). h \<noteq> []}"

definition prune_locked ::
  "BlockRecord list option \<Rightarrow> (string \<times> u64) list \<Rightarrow> (string \<Rightarrow> int) \<Rightarrow> (string \<Rightarrow> bool)
   \<Rightarrow> 'c Blockchain \<Rightarrow> nat \<times> 'c Blockchain" where
  "prune_locked rocks nonces now rm bc =
     (let orig = filter (\<lambda>h. h \<noteq> []) (map txHash (mempool bc));
          confirmed = block_hashes (blockHistory bc) \<union>
                      (case rocks of None \<Rightarrow> {} | Some bs \<Rightarrow> block_hashes bs);
          pending = {h \<in> set (map txHash (pendingBlock bc)). h \<noteq> []};
          acc = foldl (prune_step confirmed pending nonces)
                  \<lparr>pkept = [], pseen = Map.empty, premoved = 0\<rparr> (mempool bc);
          dropHash = (if nonces = [] then {} else txHash ` set (filter (drop_nonce nonces now) (pkept acc)));
          kept = filter (\<lambda>tx. txHash tx \<notin> dropHash) (pkept acc);
          removed = premoved acc + length (filter (\<lambda>tx. txHash tx \<in> dropHash) (pkept acc));
          keptSet = set (map txHash kept)
      in (removed,
          bc\<lparr>mempool := (if removed > 0 then kept else mempool bc),
             txPool := map_option
               (\<lambda>pool. fold (\<lambda>h p. if h \<in> keptSet then p else snd (pool_Delete (rm h) p h)) orig pool)
               (txPool bc)\<rparr>))"

definition PruneMempool ::
  "BlockRecord list option \<Rightarrow> (string \<Rightarrow> u64 option) \<Rightarrow> (string \<Rightarrow> int) \<Rightarrow> (string \<Rightarrow> bool)
   \<Rightarrow> 'c Blockchain \<Rightarrow> nat \<times> 'c Blockchain" where
  "PruneMempool rocks query now rm bc =
     prune_locked rocks (accountNoncesForMempool query bc) now rm bc"

subsection \<open>Re-queueing escrows\<close>

definition escrowAwaitingBlock :: "Transaction \<Rightarrow> bool" where
  "escrowAwaitingBlock tx \<longleftrightarrow>
     txHash tx \<noteq> [] \<and> txSigMain tx \<noteq> [] \<and> \<not> txBlockNumber tx > 0 \<and>
     (txType tx \<in> {''escrow_lock'', ''escrow_settle'', ''escrow_cancel'', ''escrow_refund''} \<or>
      txPurpose tx = ''deal'')"

text \<open>
  First lock: the candidates, read from the index in map order. \<open>sort.Slice\<close> promises no order
  among equal keys; a stable sort of an index in an arbitrary order gives every such result.
  Second lock: the state may have changed, so the in-flight set is read again and added to the
  first one.
\<close>

definition requeue_candidates :: "int \<Rightarrow> 'c Blockchain \<Rightarrow> Transaction list" where
  "requeue_candidates now bc =
     sort_key (\<lambda>tx. (txFrom tx, txNonce tx))
       (filter (\<lambda>tx. escrowAwaitingBlock tx \<and> txHash tx \<notin> set (map txHash (inflight bc)) \<and>
                     txHash tx \<notin> confirmedHashes bc \<and>
                     \<not> (txTimestamp tx > 0 \<and> i64 (now - txTimestamp tx) > mempoolFutureMaxAgeSec))
          (map snd (transactions bc)))"

definition requeue_step :: "bool \<Rightarrow> (string \<Rightarrow> u64 option) \<Rightarrow> 'c Blockchain
   \<Rightarrow> Transaction list \<times> string set \<Rightarrow> Transaction \<Rightarrow> Transaction list \<times> string set" where
  "requeue_step led query bc acc tx =
     (let (pool, busy) = acc
      in if txHash tx \<in> busy \<or> txHash tx \<in> confirmedHashes bc \<or> txBlockNumber tx > 0 then acc
         else if led \<and> txFrom tx \<noteq> [] \<and>
                 (case query (txFrom tx) of None \<Rightarrow> False | Some want \<Rightarrow> (of_int (txNonce tx) :: u64) < want)
         then acc
         else (pool @ [tx], insert (txHash tx) busy))"

definition RequeueUnconfirmedEscrows ::
  "int \<Rightarrow> (string \<Rightarrow> u64 option) \<Rightarrow> 'c Blockchain \<Rightarrow> 'c Blockchain \<Rightarrow> nat \<times> 'c Blockchain" where
  "RequeueUnconfirmedEscrows now query bc0 bc =
     (let cands = requeue_candidates now bc0
      in if cands = [] then (0, bc)
         else
           let busy = {h \<in> set (map txHash (inflight bc0 @ inflight bc)). h \<noteq> []};
               (pool, _) = foldl (requeue_step (ledger bc0) query bc) (mempool bc, busy) cands
           in (length pool - length (mempool bc), bc\<lparr>mempool := pool\<rparr>))"

subsection \<open>Admission keeps the in-flight lists clean\<close>

definition inflight_ok :: "'c Blockchain \<Rightarrow> bool" where
  "inflight_ok bc \<longleftrightarrow>
     distinct (map txHash (inflight bc)) \<and> distinct (map sender_nonce (inflight bc)) \<and>
     (\<forall>tx \<in> set (inflight bc). txHash tx \<noteq> [] \<and> txHash tx \<notin> confirmedHashes bc)"

lemma inflight_okI:
  assumes "mset (inflight bc') \<subseteq># mset (inflight bc)" and "confirmedHashes bc' = confirmedHashes bc"
    and "inflight_ok bc"
  shows "inflight_ok bc'"
proof -
  have "\<forall>tx \<in> set (inflight bc'). tx \<in> set (inflight bc)"
    using set_mset_mono [OF assms(1)] by auto
  moreover note mset_sub_distinct [OF assms(1), of txHash] mset_sub_distinct [OF assms(1), of sender_nonce]
  ultimately show ?thesis
    using assms(3) unfolding inflight_ok_def assms(2) by simp
qed

lemma scan_inflight_Free:
  "scan_inflight tx ts = Free \<longleftrightarrow> (\<forall>t \<in> set ts. txHash t \<noteq> txHash tx \<and> sender_nonce t \<noteq> sender_nonce tx)"
  by (induction ts) (auto simp: sender_nonce_def)

lemma scan_inflight_Duplicate: "scan_inflight tx ts = Duplicate \<Longrightarrow> txHash tx \<in> txHash ` set ts"
  by (induction ts) (auto split: if_splits)

lemma scan_inflight_NonceClash:
  "scan_inflight tx ts = NonceClash \<Longrightarrow> \<exists>t \<in> set ts. sender_nonce t = sender_nonce tx \<and> txHash t \<noteq> txHash tx"
  by (induction ts) (auto simp: sender_nonce_def split: if_splits)

lemma AddToMempool_snd:
  "snd (AddToMempool bc tx) =
     (if txHash tx \<noteq> [] \<and> txHash tx \<notin> confirmedHashes bc \<and> scan_inflight tx (pendingBlock bc) = Free \<and>
         scan_inflight tx (mempool bc) = Free
      then bc\<lparr>mempool := mempool bc @ [tx]\<rparr> else bc)"
  by (simp add: AddToMempool_def split: scan_result.split)

lemma AddToMempool_ok:
  assumes "inflight_ok bc"
  shows "inflight_ok (snd (AddToMempool bc tx))"
proof (cases "txHash tx \<noteq> [] \<and> txHash tx \<notin> confirmedHashes bc \<and>
    scan_inflight tx (pendingBlock bc) = Free \<and> scan_inflight tx (mempool bc) = Free")
  case True
  then have "\<forall>t \<in> set (inflight bc). txHash t \<noteq> txHash tx \<and> sender_nonce t \<noteq> sender_nonce tx"
    by (auto simp: scan_inflight_Free)
  with assms True show ?thesis
    by (auto simp: AddToMempool_snd inflight_ok_def image_iff)
next
  case False
  then have "snd (AddToMempool bc tx) = bc" by (simp only: AddToMempool_snd if_False)
  with assms show ?thesis by (simp only:)
qed

subsection \<open>Collection\<close>

lemma pick_split_mset:
  "mset (fst (pick_split pick txs)) + mset (snd (pick_split pick txs)) = mset txs"
  by (induction pick txs rule: pick_split.induct) (auto simp: case_prod_beta Let_def)

lemma pick_split_moved: "tx \<in> set (fst (pick_split pick txs)) \<Longrightarrow> txHash tx \<in> pick"
  by (induction pick txs rule: pick_split.induct) (auto simp: case_prod_beta Let_def split: if_splits)

lemma pick_split_remaining:
  "distinct (map txHash txs) \<Longrightarrow> tx \<in> set (snd (pick_split pick txs)) \<Longrightarrow> txHash tx \<notin> pick"
proof (induction pick txs rule: pick_split.induct)
  case (2 pick t txs)
  have sub: "set (snd (pick_split (pick - {txHash t}) txs)) \<subseteq> set txs"
    using pick_split_mset [of "pick - {txHash t}" txs] by (metis Un_upper2 set_mset_mset set_mset_union)
  show ?case
  proof (cases "txHash t \<in> pick")
    case True
    with 2 have "txHash tx \<notin> pick - {txHash t}" and "tx \<in> set txs"
      using sub by (auto simp: case_prod_beta Let_def)
    with 2(3) show ?thesis by (auto simp: image_iff dest: sym)
  next
    case False
    with 2 show ?thesis by (auto simp: case_prod_beta Let_def)
  qed
qed simp

lemma pick_split_filter:
  "distinct (map txHash txs) \<Longrightarrow>
   pick_split pick txs = (filter (\<lambda>tx. txHash tx \<in> pick) txs, filter (\<lambda>tx. txHash tx \<notin> pick) txs)"
proof (induction pick txs rule: pick_split.induct)
  case (2 pick t txs)
  have "filter (\<lambda>tx. txHash tx \<in> pick - {txHash t}) txs = filter (\<lambda>tx. txHash tx \<in> pick) txs"
    and "filter (\<lambda>tx. txHash tx \<notin> pick - {txHash t}) txs = filter (\<lambda>tx. txHash tx \<notin> pick) txs"
    using 2(3) by (auto intro!: filter_cong simp: image_iff dest: sym)
  with 2 show ?case by auto
qed simp

lemma L1CollectBlockLimit_ok:
  assumes "inflight_ok bc"
  shows "inflight_ok (snd (L1CollectBlockLimit bc limit))"
proof -
  have "mset (inflight (snd (L1CollectBlockLimit bc limit))) = mset (mempool bc)"
    by (simp add: L1CollectBlockLimit_def Let_def flip: mset_append)
  moreover have "confirmedHashes (snd (L1CollectBlockLimit bc limit)) = confirmedHashes bc"
    by (simp add: L1CollectBlockLimit_def Let_def)
  ultimately show ?thesis by (intro inflight_okI [OF _ _ assms]) simp_all
qed

lemma L1CollectSelected_frame:
  "selected \<noteq> [] \<Longrightarrow> mempool (snd (L1CollectSelected bc selected)) =
     snd (pick_split {h \<in> txHash ` set (nonnil selected). h \<noteq> []} (mempool bc))"
  "selected \<noteq> [] \<Longrightarrow> pendingBlock (snd (L1CollectSelected bc selected)) =
     fst (pick_split {h \<in> txHash ` set (nonnil selected). h \<noteq> []} (mempool bc))"
  "confirmedHashes (snd (L1CollectSelected bc selected)) = confirmedHashes bc"
  "selected \<noteq> [] \<Longrightarrow> fst (L1CollectSelected bc selected) =
     fst (pick_split {h \<in> txHash ` set (nonnil selected). h \<noteq> []} (mempool bc))"
  by (simp_all add: L1CollectSelected_def Let_def case_prod_beta)

lemma L1CollectSelected_ok:
  assumes "inflight_ok bc"
  shows "inflight_ok (snd (L1CollectSelected bc selected))"
proof (cases "selected = []")
  case True
  then have "snd (L1CollectSelected bc selected) = bc" by (simp add: L1CollectSelected_def)
  with assms show ?thesis by (simp only:)
next
  case False
  then have "mset (inflight (snd (L1CollectSelected bc selected))) = mset (mempool bc)"
    by (simp add: L1CollectSelected_frame pick_split_mset)
  then show ?thesis
    by (intro inflight_okI [OF _ _ assms]) (simp_all add: L1CollectSelected_frame)
qed

lemma AbandonPendingBlock_ok:
  assumes "inflight_ok bc"
  shows "inflight_ok (snd (AbandonPendingBlock bc drops))"
proof (cases "pendingBlock bc = []")
  case True
  then have "snd (AbandonPendingBlock bc drops) = bc" by (simp add: AbandonPendingBlock_def)
  with assms show ?thesis by (simp only:)
next
  case False
  define P where "P tx \<longleftrightarrow> txHash tx \<notin> set (filter (\<lambda>h. h \<noteq> []) drops)" for tx :: Transaction
  define Q where "Q tx \<longleftrightarrow> txHash tx \<noteq> []" for tx :: Transaction
  from False have "mset (inflight (snd (AbandonPendingBlock bc drops))) =
      mset (mempool bc) + mset (filter P (filter Q (pendingBlock bc)))"
    by (simp add: AbandonPendingBlock_def Let_def P_def Q_def)
  moreover have "mset (filter P (filter Q (pendingBlock bc))) \<subseteq># mset (pendingBlock bc)"
    by (metis mset_filter multiset_filter_subset subset_mset.order_trans)
  ultimately have "mset (inflight (snd (AbandonPendingBlock bc drops))) \<subseteq># mset (inflight bc)"
    by (simp add: union_commute subset_mset.add_left_mono)
  moreover have "confirmedHashes (snd (AbandonPendingBlock bc drops)) = confirmedHashes bc"
    by (simp add: AbandonPendingBlock_def Let_def)
  ultimately show ?thesis by (intro inflight_okI [OF _ _ assms])
qed

lemma RemoveFromMempool_ok:
  assumes "inflight_ok bc"
  shows "inflight_ok (RemoveFromMempool bc hashes)"
proof (cases "hashes = []")
  case True
  then have "RemoveFromMempool bc hashes = bc" by (simp add: RemoveFromMempool_def)
  with assms show ?thesis by (simp only:)
next
  case False
  then have "mset (inflight (RemoveFromMempool bc hashes)) \<subseteq># mset (inflight bc)"
    by (simp add: RemoveFromMempool_def Let_def)
  moreover have "confirmedHashes (RemoveFromMempool bc hashes) = confirmedHashes bc"
    by (simp add: RemoveFromMempool_def Let_def)
  ultimately show ?thesis by (intro inflight_okI [OF _ _ assms])
qed

subsection \<open>What pruning leaves\<close>

definition prunable :: "string set \<Rightarrow> string set \<Rightarrow> (string \<times> u64) list \<Rightarrow> Transaction \<Rightarrow> bool" where
  "prunable confirmed pending nonces tx \<longleftrightarrow>
     txHash tx = [] \<or> txFrom tx = FaucetAddress \<or> txType tx = ''faucet'' \<or>
     txHash tx \<in> confirmed \<or> txHash tx \<in> pending \<or>
     (ledger_sender tx \<and>
      (case map_of nonces (txFrom tx) of None \<Rightarrow> False | Some want \<Rightarrow> txNonce tx < sint want))"

text \<open>The loop invariant of the first phase, after the transactions \<open>xs\<close>: \<open>pseen\<close> is exactly the
  index of the kept ledger transactions.\<close>

definition prune_inv ::
  "string set \<Rightarrow> string set \<Rightarrow> (string \<times> u64) list \<Rightarrow> Transaction list \<Rightarrow> prune_acc \<Rightarrow> bool" where
  "prune_inv confirmed pending nonces xs acc \<longleftrightarrow>
     mset (pkept acc) \<subseteq># mset xs \<and>
     length (pkept acc) + premoved acc = length xs \<and>
     (premoved acc = 0 \<longrightarrow> pkept acc = xs) \<and>
     (\<forall>tx \<in> set (pkept acc). \<not> prunable confirmed pending nonces tx) \<and>
     (\<forall>tx \<in> set xs. prunable confirmed pending nonces tx \<or> sender_nonce tx \<in> sender_nonce ` set (pkept acc)) \<and>
     (\<forall>k i. pseen acc k = Some i \<longleftrightarrow>
        i < length (pkept acc) \<and> ledger_sender (pkept acc ! i) \<and> sender_nonce (pkept acc ! i) = k)"

lemma prune_inv_seen:
  "prune_inv C P N xs acc \<Longrightarrow> pseen acc k = Some i \<longleftrightarrow>
     i < length (pkept acc) \<and> ledger_sender (pkept acc ! i) \<and> sender_nonce (pkept acc ! i) = k"
  unfolding prune_inv_def by blast

lemma prune_inv_skip:
  assumes "prune_inv C P N xs acc"
    and "prunable C P N tx \<or> sender_nonce tx \<in> sender_nonce ` set (pkept acc)"
  shows "prune_inv C P N (xs @ [tx]) (acc\<lparr>premoved := premoved acc + 1\<rparr>)"
proof -
  have "mset (pkept acc) \<subseteq># mset xs" using assms by (simp add: prune_inv_def)
  then have "mset (pkept acc) \<subseteq># mset (xs @ [tx])"
    by (metis mset_append mset_subset_eq_add_left subset_mset.order_trans)
  with assms show ?thesis by (simp add: prune_inv_def)
qed

lemma prune_inv_replace:
  assumes inv: "prune_inv C P N xs acc" and seen: "pseen acc (sender_nonce tx) = Some i"
    and tx: "ledger_sender tx" "\<not> prunable C P N tx"
  shows "prune_inv C P N (xs @ [tx]) (acc\<lparr>premoved := premoved acc + 1, pkept := (pkept acc)[i := tx]\<rparr>)"
proof -
  let ?k = "pkept acc"
  from inv seen have i: "i < length ?k" "ledger_sender (?k ! i)" "sender_nonce (?k ! i) = sender_nonce tx"
    by (simp_all only: prune_inv_seen)
  have "mset (?k[i := tx]) = mset ?k - {#?k ! i#} + {#tx#}"
    using i(1) by (simp add: mset_update)
  moreover have "mset ?k - {#?k ! i#} \<subseteq># mset xs"
    using inv by (metis prune_inv_def diff_subset_eq_self subset_mset.order_trans)
  ultimately have "mset (?k[i := tx]) \<subseteq># mset (xs @ [tx])"
    by (metis mset_append mset_single_iff subset_mset.add_right_mono mset.simps(1) mset.simps(2) add_mset_add_single empty_neutral(1))
  moreover have "\<forall>t \<in> set (?k[i := tx]). \<not> prunable C P N t"
    using inv tx(2) by (auto simp: prune_inv_def dest!: set_update_subset_insert [THEN subsetD])
  moreover have "(j < length ?k \<and> ledger_sender (?k[i := tx] ! j) \<and> sender_nonce (?k[i := tx] ! j) = k) \<longleftrightarrow>
      (j < length ?k \<and> ledger_sender (?k ! j) \<and> sender_nonce (?k ! j) = k)" for j k
    using i tx(1) by (cases "j = i") auto
  moreover have "sender_nonce ` set (?k[i := tx]) = sender_nonce ` set ?k"
  proof -
    have "map sender_nonce (?k[i := tx]) = map sender_nonce ?k"
      using i by (metis length_map list_update_id map_update nth_map)
    then show ?thesis by (metis set_map)
  qed
  moreover have "sender_nonce tx \<in> sender_nonce ` set ?k" using i by (metis image_eqI nth_mem)
  ultimately show ?thesis using inv by (simp add: prune_inv_def)
qed

lemma prune_inv_keep:
  assumes inv: "prune_inv C P N xs acc" and tx: "\<not> prunable C P N tx"
    and ps: "ps = (if ledger_sender tx then (pseen acc)(sender_nonce tx \<mapsto> length (pkept acc)) else pseen acc)"
    and new: "ledger_sender tx \<Longrightarrow> pseen acc (sender_nonce tx) = None"
  shows "prune_inv C P N (xs @ [tx]) (acc\<lparr>pkept := pkept acc @ [tx], pseen := ps\<rparr>)"
proof -
  let ?k = "pkept acc"
  have "ps k = Some i \<longleftrightarrow> i < length (?k @ [tx]) \<and> ledger_sender ((?k @ [tx]) ! i) \<and> sender_nonce ((?k @ [tx]) ! i) = k"
    for k i
  proof (cases "i = length ?k")
    case True
    moreover have "pseen acc k \<noteq> Some (length ?k)" by (simp add: prune_inv_seen [OF inv])
    ultimately show ?thesis by (auto simp: ps)
  next
    case False
    have *: "pseen acc k = Some i \<longleftrightarrow> i < length ?k \<and> ledger_sender (?k ! i) \<and> sender_nonce (?k ! i) = k"
      by (rule prune_inv_seen [OF inv])
    have "ps k = Some i \<longleftrightarrow> pseen acc k = Some i" using False new by (auto simp: ps)
    with * False show ?thesis by (auto simp: nth_append)
  qed
  moreover have "\<forall>t \<in> set xs. prunable C P N t \<or> sender_nonce t \<in> sender_nonce ` set (?k @ [tx])"
    using inv by (auto simp: prune_inv_def)
  ultimately show ?thesis using inv tx by (simp add: prune_inv_def)
qed

lemma prune_step_new:
  assumes "\<not> prunable C P N tx" "ledger_sender tx" "pseen acc (sender_nonce tx) = None"
  shows "prune_step C P N acc tx =
    acc\<lparr>pkept := pkept acc @ [tx], pseen := (pseen acc)(sender_nonce tx \<mapsto> length (pkept acc))\<rparr>"
  using assms by (auto simp: prune_step_def prunable_def Let_def)

lemma prune_inv_step:
  assumes inv: "prune_inv C P N xs acc"
  shows "prune_inv C P N (xs @ [tx]) (prune_step C P N acc tx)"
proof (cases "prunable C P N tx")
  case True
  then have "prune_step C P N acc tx = acc\<lparr>premoved := premoved acc + 1\<rparr>"
    by (auto simp: prune_step_def prunable_def Let_def)
  with prune_inv_skip [OF inv disjI1 [OF True]] show ?thesis by (simp only:)
next
  case False
  show ?thesis
  proof (cases "ledger_sender tx")
    case True
    show ?thesis
    proof (cases "pseen acc (sender_nonce tx)")
      case None
      with True False have "prune_step C P N acc tx =
          acc\<lparr>pkept := pkept acc @ [tx], pseen := (pseen acc)(sender_nonce tx \<mapsto> length (pkept acc))\<rparr>"
        by (intro prune_step_new)
      moreover have "prune_inv C P N (xs @ [tx])
          (acc\<lparr>pkept := pkept acc @ [tx], pseen := (pseen acc)(sender_nonce tx \<mapsto> length (pkept acc))\<rparr>)"
        using None True by (intro prune_inv_keep [OF inv False]) simp_all
      ultimately show ?thesis by (simp only:)
    next
      case (Some i)
      let ?r = "acc\<lparr>premoved := premoved acc + 1, pkept := (pkept acc)[i := tx]\<rparr>"
      let ?s = "acc\<lparr>premoved := premoved acc + 1\<rparr>"
      have "prune_step C P N acc tx \<in> {?r, ?s}"
        using Some True False by (auto simp: prune_step_def prunable_def Let_def)
      moreover have "sender_nonce tx \<in> sender_nonce ` set (pkept acc)"
        using Some by (metis prune_inv_seen [OF inv] image_eqI nth_mem)
      ultimately show ?thesis
        using prune_inv_replace [OF inv Some True False] prune_inv_skip [OF inv disjI2, of tx]
        by (metis insertE singletonD)
    qed
  next
    case nl: False
    with False have "prune_step C P N acc tx = acc\<lparr>pkept := pkept acc @ [tx], pseen := pseen acc\<rparr>"
      by (auto simp: prune_step_def prunable_def Let_def)
    moreover have "prune_inv C P N (xs @ [tx]) (acc\<lparr>pkept := pkept acc @ [tx], pseen := pseen acc\<rparr>)"
      using nl by (intro prune_inv_keep [OF inv False]) simp_all
    ultimately show ?thesis by (simp only:)
  qed
qed

lemma prune_inv_run:
  "prune_inv C P N xs (foldl (prune_step C P N) \<lparr>pkept = [], pseen = Map.empty, premoved = 0\<rparr> xs)"
proof (induction xs rule: rev_induct)
  case Nil
  show ?case by (simp add: prune_inv_def)
next
  case (snoc tx xs)
  from prune_inv_step [OF this] show ?case by simp
qed

text \<open>The sets the code computes at the start of \<open>PruneMempool\<close>.\<close>

definition prune_confirmed :: "BlockRecord list option \<Rightarrow> 'c Blockchain \<Rightarrow> string set" where
  "prune_confirmed rocks bc =
     block_hashes (blockHistory bc) \<union> (case rocks of None \<Rightarrow> {} | Some bs \<Rightarrow> block_hashes bs)"

definition prune_pending :: "'c Blockchain \<Rightarrow> string set" where
  "prune_pending bc = {h \<in> set (map txHash (pendingBlock bc)). h \<noteq> []}"

definition prune_phase1 :: "BlockRecord list option \<Rightarrow> (string \<times> u64) list \<Rightarrow> 'c Blockchain \<Rightarrow> prune_acc" where
  "prune_phase1 rocks nonces bc =
     foldl (prune_step (prune_confirmed rocks bc) (prune_pending bc) nonces)
       \<lparr>pkept = [], pseen = Map.empty, premoved = 0\<rparr> (mempool bc)"

definition prune_drops :: "(string \<times> u64) list \<Rightarrow> (string \<Rightarrow> int) \<Rightarrow> Transaction list \<Rightarrow> string set" where
  "prune_drops nonces now kept =
     (if nonces = [] then {} else txHash ` set (filter (drop_nonce nonces now) kept))"

definition prune_kept ::
  "BlockRecord list option \<Rightarrow> (string \<times> u64) list \<Rightarrow> (string \<Rightarrow> int) \<Rightarrow> 'c Blockchain \<Rightarrow> Transaction list" where
  "prune_kept rocks nonces now bc =
     (let k = pkept (prune_phase1 rocks nonces bc) in filter (\<lambda>tx. txHash tx \<notin> prune_drops nonces now k) k)"

lemmas prune_phase1_inv =
  prune_inv_run [of "prune_confirmed rocks bc" "prune_pending bc" nonces "mempool bc" for rocks bc nonces,
    folded prune_phase1_def]

lemma prune_locked_removed:
  "fst (prune_locked rocks nonces now rm bc) = length (mempool bc) - length (prune_kept rocks nonces now bc)"
  (is "?r = _") and
  prune_locked_le: "length (prune_kept rocks nonces now bc) \<le> length (mempool bc)"
proof -
  let ?a = "prune_phase1 rocks nonces bc"
  let ?D = "prune_drops nonces now (pkept ?a)"
  have r: "?r = premoved ?a + length (filter (\<lambda>tx. txHash tx \<in> ?D) (pkept ?a))"
    by (simp add: prune_locked_def Let_def prune_phase1_def prune_confirmed_def prune_pending_def prune_drops_def)
  have "length (pkept ?a) + premoved ?a = length (mempool bc)"
    using prune_phase1_inv [of rocks bc nonces] by (simp add: prune_inv_def)
  moreover have "length (filter (\<lambda>tx. txHash tx \<in> ?D) (pkept ?a)) + length (prune_kept rocks nonces now bc) =
      length (pkept ?a)"
    unfolding prune_kept_def Let_def by (rule sum_length_filter_compl)
  ultimately show "?r = length (mempool bc) - length (prune_kept rocks nonces now bc)"
    and "length (prune_kept rocks nonces now bc) \<le> length (mempool bc)"
    using r by simp_all
qed

lemma prune_kept_sub: "mset (prune_kept rocks nonces now bc) \<subseteq># mset (mempool bc)"
proof -
  have "mset (pkept (prune_phase1 rocks nonces bc)) \<subseteq># mset (mempool bc)"
    using prune_phase1_inv [of rocks bc nonces] by (simp add: prune_inv_def)
  moreover have "mset (prune_kept rocks nonces now bc) \<subseteq># mset (pkept (prune_phase1 rocks nonces bc))"
    by (simp add: prune_kept_def Let_def)
  ultimately show ?thesis by (rule subset_mset.order_trans [rotated])
qed

lemma prune_locked_mempool:
  "mempool (snd (prune_locked rocks nonces now rm bc)) = prune_kept rocks nonces now bc"
proof (cases "fst (prune_locked rocks nonces now rm bc) = 0")
  case True
  let ?a = "prune_phase1 rocks nonces bc"
  from True have "length (prune_kept rocks nonces now bc) = length (mempool bc)"
    using prune_locked_removed [of rocks nonces now rm bc] prune_locked_le [of rocks nonces now bc] by simp
  moreover have "length (prune_kept rocks nonces now bc) \<le> length (pkept ?a)"
    by (simp add: prune_kept_def Let_def)
  moreover have "length (pkept ?a) + premoved ?a = length (mempool bc)"
    and "premoved ?a = 0 \<longrightarrow> pkept ?a = mempool bc"
    using prune_phase1_inv [of rocks bc nonces] by (simp_all add: prune_inv_def)
  ultimately have "pkept ?a = mempool bc" and "length (prune_kept rocks nonces now bc) = length (pkept ?a)"
    by simp_all
  then have "prune_kept rocks nonces now bc = mempool bc"
    unfolding prune_kept_def Let_def by (metis filter_id_conv length_filter_less less_irrefl)
  moreover have "mempool (snd (prune_locked rocks nonces now rm bc)) = mempool bc"
    using True by (simp add: prune_locked_def Let_def)
  ultimately show ?thesis by simp
next
  case False
  then show ?thesis
    by (simp add: prune_locked_def Let_def prune_kept_def prune_phase1_def prune_confirmed_def
        prune_pending_def prune_drops_def)
qed

lemma prune_locked_frame [simp]:
  "pendingBlock (snd (prune_locked rocks nonces now rm bc)) = pendingBlock bc"
  "confirmedHashes (snd (prune_locked rocks nonces now rm bc)) = confirmedHashes bc"
  "transactions (snd (prune_locked rocks nonces now rm bc)) = transactions bc"
  "blockHistory (snd (prune_locked rocks nonces now rm bc)) = blockHistory bc"
  by (simp_all add: prune_locked_def Let_def)

lemma prune_kept_clean:
  assumes "tx \<in> set (prune_kept rocks nonces now bc)"
  shows "\<not> prunable (prune_confirmed rocks bc) (prune_pending bc) nonces tx"
    and "nonces \<noteq> [] \<Longrightarrow> \<not> drop_nonce nonces now tx"
proof -
  let ?k = "pkept (prune_phase1 rocks nonces bc)"
  from assms have k: "tx \<in> set ?k" "txHash tx \<notin> prune_drops nonces now ?k"
    by (auto simp: prune_kept_def Let_def)
  from k(1) prune_phase1_inv [of rocks bc nonces]
  show "\<not> prunable (prune_confirmed rocks bc) (prune_pending bc) nonces tx"
    unfolding prune_inv_def by blast
  from k show "nonces \<noteq> [] \<Longrightarrow> \<not> drop_nonce nonces now tx" by (auto simp: prune_drops_def)
qed

lemma prune_kept_nonces:
  "distinct (map sender_nonce (filter ledger_sender (prune_kept rocks nonces now bc)))"
proof -
  let ?k = "pkept (prune_phase1 rocks nonces bc)"
  note seen = prune_inv_seen [OF prune_phase1_inv [of rocks bc nonces]]
  have "distinct (map sender_nonce (filter ledger_sender ?k))"
  proof -
    have "i = j" if "i < length ?k" "j < length ?k" "ledger_sender (?k ! i)" "ledger_sender (?k ! j)"
      "sender_nonce (?k ! i) = sender_nonce (?k ! j)" for i j
      using that seen by (metis option.inject)
    then show ?thesis by (rule distinct_map_filter_nth)
  qed
  then show ?thesis
    by (rule mset_sub_distinct [rotated])
      (simp add: prune_kept_def Let_def subseteq_mset_def)
qed

lemma prune_locked_ok:
  assumes "inflight_ok bc"
  shows "inflight_ok (snd (prune_locked rocks nonces now rm bc))"
proof (rule inflight_okI [OF _ _ assms])
  show "mset (inflight (snd (prune_locked rocks nonces now rm bc))) \<subseteq># mset (inflight bc)"
    using prune_kept_sub [of rocks nonces now bc] by (simp add: prune_locked_mempool)
qed simp

text \<open>The transaction a sender's account waits for survives, or an equal-nonce one in its place.\<close>

lemma prune_kept_next:
  assumes dist: "distinct (map txHash (mempool bc))" and tx: "tx \<in> set (mempool bc)" "ledger_sender tx"
    and ok: "\<not> prunable (prune_confirmed rocks bc) (prune_pending bc) nonces tx"
    and want: "txNonce tx = want_nonce nonces (txFrom tx)" "want_nonce nonces (txFrom tx) < 2 ^ 62"
      "- (2 ^ 62) < want_nonce nonces (txFrom tx)"
  shows "\<exists>t \<in> set (prune_kept rocks nonces now bc). sender_nonce t = sender_nonce tx"
proof -
  let ?k = "pkept (prune_phase1 rocks nonces bc)"
  note inv = prune_phase1_inv [of rocks bc nonces]
  have "sender_nonce tx \<in> sender_nonce ` set ?k" using inv tx(1) ok unfolding prune_inv_def by blast
  then obtain t where t: "t \<in> set ?k" "sender_nonce t = sender_nonce tx" by (auto dest: sym)
  then have t2: "ledger_sender t" "txFrom t = txFrom tx" "txNonce t = txNonce tx"
    using tx(2) by (simp_all add: ledger_sender_def sender_nonce_def)
  have "\<not> drop_nonce nonces now t"
  proof -
    have "i64 (want_nonce nonces (txFrom tx) + MempoolMaxNonceGap) = want_nonce nonces (txFrom tx) + 64"
      using want(2,3) by (simp add: MempoolMaxNonceGap_def in_i64_def)
    then show ?thesis using want(1) by (simp add: drop_nonce_def Let_def t2)
  qed
  moreover have "distinct (map txHash ?k)"
    using inv dist mset_sub_distinct [of ?k "mempool bc" txHash] by (simp add: prune_inv_def)
  ultimately have "txHash t \<notin> prune_drops nonces now ?k"
    using t(1) by (auto simp: prune_drops_def distinct_map dest!: inj_onD)
  with t show ?thesis by (auto simp: prune_kept_def Let_def)
qed

subsection \<open>Matching the pending block\<close>

lemma fold_count: "fold (\<lambda>h r. r(h := r h + 1)) hs r = (\<lambda>h. r h + int (count (mset hs) h))"
  by (induction hs arbitrary: r) auto

lemma count_down_Some:
  "(\<forall>h. 0 \<le> r h) \<Longrightarrow> count_down txs r =
     (if \<forall>h. int (count (mset (map txHash txs)) h) \<le> r h
      then Some (\<lambda>h. r h - int (count (mset (map txHash txs)) h)) else None)"
proof (induction txs arbitrary: r)
  case (Cons tx txs)
  let ?c = "\<lambda>h. int (count (mset (map txHash txs)) h)"
  let ?c' = "\<lambda>h. int (count (mset (map txHash (tx # txs))) h)"
  let ?r = "r(txHash tx := r (txHash tx) - 1)"
  show ?case
  proof (cases "r (txHash tx) - 1 < 0")
    case True
    then have "\<not> ?c' (txHash tx) \<le> r (txHash tx)" by simp
    then have n: "\<not> (\<forall>h. ?c' h \<le> r h)" by blast
    have "count_down (tx # txs) r = None" using True by simp
    with n show ?thesis by (simp only: if_False)
  next
    case False
    with Cons.prems have "\<forall>h. 0 \<le> ?r h" by simp
    note IH = Cons.IH [OF this]
    have "(\<forall>h. ?c' h \<le> r h) \<longleftrightarrow> (\<forall>h. ?c h \<le> ?r h)" by (auto split: if_splits)
    moreover have "(\<lambda>h. r h - ?c' h) = (\<lambda>h. ?r h - ?c h)" by auto
    moreover have "count_down (tx # txs) r = count_down txs ?r" using False by (simp add: Let_def)
    ultimately show ?thesis using IH by presburger
  qed
qed simp

lemma mset_eq_count_le:
  assumes "length xs = length ys" and "\<forall>h. count (mset ys) h \<le> count (mset xs) h"
  shows "mset xs = mset ys"
proof -
  have "mset ys \<subseteq># mset xs" using assms(2) by (simp add: subseteq_mset_def)
  then show ?thesis using assms(1) by (metis size_mset subset_mset.le_imp_less_or_eq mset_subset_size less_irrefl)
qed

subsection \<open>Properties\<close>

text \<open>
  A concrete mempool for the witnesses: two transfers of one sender and one of another.
\<close>

definition demo_tx :: "string \<Rightarrow> string \<Rightarrow> int \<Rightarrow> int \<Rightarrow> Transaction" where
  "demo_tx h from n ts = tx0\<lparr>txHash := h, txFrom := from, txTo := ''Pxc'', txNonce := n, txTimestamp := ts\<rparr>"

definition demo_chain :: "unit Blockchain" where
  "demo_chain = (NewBlockchain ())\<lparr>ledger := True,
     mempool := [demo_tx ''h1'' ''Pxa'' 5 100, demo_tx ''h2'' ''Pxb'' 0 101, demo_tx ''h3'' ''Pxa'' 200 102]\<rparr>"

lemma demo_simps:
  "txHash (demo_tx h from n ts) = h" "txFrom (demo_tx h from n ts) = from" "txNonce (demo_tx h from n ts) = n"
  "txTimestamp (demo_tx h from n ts) = ts" "txType (demo_tx h from n ts) = []"
  "mempool demo_chain = [demo_tx ''h1'' ''Pxa'' 5 100, demo_tx ''h2'' ''Pxb'' 0 101, demo_tx ''h3'' ''Pxa'' 200 102]"
  "pendingBlock demo_chain = []" "blockHistory demo_chain = []" "ledger demo_chain" "confirmedHashes demo_chain = {}"
  "txPool demo_chain = None"
  by (simp_all add: demo_tx_def demo_chain_def tx0_def NewBlockchain_def)

text \<open>
  Remark: \<open>GetMempool\<close> reads the mempool in one order: two nodes whose mempools hold the same
  transactions, however they arrived, return the same list, sorted by timestamp, sender, nonce
  and hash.
\<close>

theorem GetMempool_deterministic:
  fixes a :: "'c Blockchain" and b :: "'d Blockchain"
  assumes "mset (mempool a) = mset (mempool b)" and "distinct (map txHash (mempool a))"
  shows "GetMempool a = GetMempool b \<and> sorted (map mempool_key (GetMempool a)) \<and>
         mset (GetMempool a) = mset (mempool a)"
proof -
  have "inj_on txHash (set (mempool a))" using assms(2) by (simp add: distinct_map)
  then have "inj_on mempool_key (set (mempool a))" by (auto simp: inj_on_def mempool_key_def)
  then have "sort_key mempool_key (mempool a) = sort_key mempool_key (mempool b)"
    using assms(1) by (intro sort_key_inj_key_eq) simp_all
  then show ?thesis using assms(1) by (simp add: GetMempool_def)
qed

theorem GetMempool_deterministic_witness:
  "let b = demo_chain\<lparr>mempool := rev (mempool demo_chain)\<rparr>
   in distinct (map txHash (mempool demo_chain)) \<and> GetMempool demo_chain = GetMempool b"
  using GetMempool_deterministic [of demo_chain "demo_chain\<lparr>mempool := rev (mempool demo_chain)\<rparr>"]
  by (simp add: demo_simps)

text \<open>
  Remark: \<open>PendingBlockMatchesHashes\<close> decides equality of multisets: it accepts a hash list exactly when
  the list is a rearrangement of the pending block's hashes, repetitions included.
\<close>

theorem PendingBlockMatchesHashes_iff:
  "PendingBlockMatchesHashes bc hashes \<longleftrightarrow> mset hashes = mset (map txHash (pendingBlock bc))"
proof (cases "length hashes = length (pendingBlock bc)")
  case False
  then have "mset hashes \<noteq> mset (map txHash (pendingBlock bc))" by (metis length_map mset_eq_length)
  with False show ?thesis by (simp add: PendingBlockMatchesHashes_def)
next
  case True
  let ?p = "map txHash (pendingBlock bc)"
  have cd: "count_down (pendingBlock bc) (fold (\<lambda>h r. r(h := r h + 1)) hashes (\<lambda>_. 0)) =
      (if \<forall>h. count (mset ?p) h \<le> count (mset hashes) h
       then Some (\<lambda>h. int (count (mset hashes) h) - int (count (mset ?p) h)) else None)"
    by (simp add: fold_count count_down_Some)
  show ?thesis
  proof (cases "\<forall>h. count (mset ?p) h \<le> count (mset hashes) h")
    case le: True
    then have "mset hashes = mset ?p" using True by (intro mset_eq_count_le) simp_all
    with True le cd show ?thesis by (simp add: PendingBlockMatchesHashes_def list_all_iff)
  next
    case False
    then have "mset hashes \<noteq> mset ?p" by auto
    moreover have "count_down (pendingBlock bc) (fold (\<lambda>h r. r(h := r h + 1)) hashes (\<lambda>_. 0)) = None"
      using cd False by (simp only: if_False)
    ultimately show ?thesis by (simp add: PendingBlockMatchesHashes_def)
  qed
qed

text \<open>
  Remark: collecting selected transactions and then abandoning the block loses nothing: when Core picks
  a set of hashes, \<open>L1CollectSelected\<close> moves exactly the picked transactions in mempool order, keeps
  the others in order, and \<open>AbandonPendingBlock\<close> with nothing to drop returns every one of them to the
  mempool.
\<close>

theorem L1CollectSelected_abandon:
  assumes "selected \<noteq> []" and "inflight_ok bc"
  shows "let (moved, bc1) = L1CollectSelected bc selected; bc2 = snd (AbandonPendingBlock bc1 [])
     in moved = filter (\<lambda>tx. txHash tx \<in> txHash ` set (nonnil selected)) (mempool bc) \<and>
        pendingBlock bc1 = moved \<and>
        mempool bc1 = filter (\<lambda>tx. txHash tx \<notin> txHash ` set (nonnil selected)) (mempool bc) \<and>
        mset (mempool bc2) = mset (mempool bc) \<and> pendingBlock bc2 = []"
proof -
  define bc1 where "bc1 = snd (L1CollectSelected bc selected)"
  have dist: "distinct (map txHash (mempool bc))" and ne: "\<forall>tx \<in> set (mempool bc). txHash tx \<noteq> []"
    using assms(2) by (simp_all add: inflight_ok_def)
  have m1: "fst (L1CollectSelected bc selected) = pendingBlock bc1"
    using assms(1) by (simp add: bc1_def L1CollectSelected_frame)
  have pk: "filter (\<lambda>tx. txHash tx \<in> txHash ` set (nonnil selected) \<and> txHash tx \<noteq> []) (mempool bc) =
        filter (\<lambda>tx. txHash tx \<in> txHash ` set (nonnil selected)) (mempool bc)"
      "filter (\<lambda>tx. txHash tx \<in> txHash ` set (nonnil selected) \<longrightarrow> txHash tx = []) (mempool bc) =
        filter (\<lambda>tx. txHash tx \<notin> txHash ` set (nonnil selected)) (mempool bc)"
    by (rule filter_cong [OF refl]; use ne in blast)+
  have p: "pendingBlock bc1 = filter (\<lambda>tx. txHash tx \<in> txHash ` set (nonnil selected)) (mempool bc)"
    using assms(1) pk(1) by (simp add: bc1_def L1CollectSelected_frame pick_split_filter [OF dist])
  have m: "mempool bc1 = filter (\<lambda>tx. txHash tx \<notin> txHash ` set (nonnil selected)) (mempool bc)"
    using assms(1) pk(2) by (simp add: bc1_def L1CollectSelected_frame pick_split_filter [OF dist])
  have "filter (\<lambda>tx. txHash tx \<noteq> []) (pendingBlock bc1) = pendingBlock bc1"
    using pk(1) by (simp add: p)
  then have "mempool (snd (AbandonPendingBlock bc1 [])) = mempool bc1 @ pendingBlock bc1"
    by (cases "pendingBlock bc1 = []") (simp_all add: AbandonPendingBlock_def Let_def)
  then have "mset (mempool (snd (AbandonPendingBlock bc1 []))) = mset (mempool bc)"
    by (simp add: m p union_commute flip: multiset_partition)
  moreover have "pendingBlock (snd (AbandonPendingBlock bc1 [])) = []"
    by (cases "pendingBlock bc1 = []") (simp_all add: AbandonPendingBlock_def Let_def)
  ultimately show ?thesis using m1 p m unfolding bc1_def by (simp add: case_prod_beta Let_def)
qed

theorem L1CollectSelected_abandon_witness:
  "inflight_ok demo_chain \<and>
   mset (mempool (snd (AbandonPendingBlock (snd (L1CollectSelected demo_chain
      [Some (demo_tx ''h2'' ''Pxb'' 0 101), None])) []))) = mset (mempool demo_chain)"
proof -
  have ok: "inflight_ok demo_chain" by (simp add: inflight_ok_def demo_simps sender_nonce_def)
  show ?thesis
    using L1CollectSelected_abandon [OF _ ok, of "[Some (demo_tx ''h2'' ''Pxb'' 0 101), None]"] ok
    by (simp add: case_prod_beta Let_def)
qed

text \<open>
  Remark: after \<open>PruneMempool\<close>, whatever the mempool held before, every remaining transaction was there
  before, has a hash, is not a faucet credit, is in no block and not in the pending block, and no
  two of them share a sender and a nonce. When account nonces were read, its nonce is neither behind
  its account nor more than 64 ahead. The count returned is the number of transactions taken out.
\<close>

theorem PruneMempool_clean:
  "let bc' = snd (PruneMempool rocks query now rm bc);
       N = accountNoncesForMempool query bc
   in mset (mempool bc') \<subseteq># mset (mempool bc) \<and>
      distinct (map sender_nonce (filter ledger_sender (mempool bc'))) \<and>
      fst (PruneMempool rocks query now rm bc) = length (mempool bc) - length (mempool bc') \<and>
      (\<forall>tx \<in> set (mempool bc').
         txHash tx \<noteq> [] \<and> txFrom tx \<noteq> FaucetAddress \<and> txType tx \<noteq> ''faucet'' \<and>
         txHash tx \<notin> block_hashes (blockHistory bc) \<and> txHash tx \<notin> set (map txHash (pendingBlock bc')) \<and>
         (N \<noteq> [] \<and> txFrom tx \<noteq> [] \<longrightarrow>
           want_nonce N (txFrom tx) \<le> txNonce tx \<and> txNonce tx \<le> i64 (want_nonce N (txFrom tx) + 64)))"
proof -
  define N where "N = accountNoncesForMempool query bc"
  define bc' where "bc' = snd (PruneMempool rocks query now rm bc)"
  have m: "mempool bc' = prune_kept rocks N now bc"
    by (simp add: bc'_def N_def PruneMempool_def prune_locked_mempool)
  have p: "pendingBlock bc' = pendingBlock bc" by (simp add: bc'_def PruneMempool_def)
  have "fst (PruneMempool rocks query now rm bc) = length (mempool bc) - length (mempool bc')"
    unfolding m by (simp add: N_def PruneMempool_def prune_locked_removed)
  moreover have "txHash tx \<noteq> [] \<and> txFrom tx \<noteq> FaucetAddress \<and> txType tx \<noteq> ''faucet'' \<and>
      txHash tx \<notin> block_hashes (blockHistory bc) \<and> txHash tx \<notin> set (map txHash (pendingBlock bc')) \<and>
      (N \<noteq> [] \<and> txFrom tx \<noteq> [] \<longrightarrow>
        want_nonce N (txFrom tx) \<le> txNonce tx \<and> txNonce tx \<le> i64 (want_nonce N (txFrom tx) + 64))"
    if "tx \<in> set (mempool bc')" for tx
    using prune_kept_clean [OF that [unfolded m]]
    by (auto simp: p prunable_def prune_confirmed_def prune_pending_def drop_nonce_def Let_def
        ledger_sender_def MempoolMaxNonceGap_def)
  ultimately show ?thesis
    unfolding Let_def bc'_def [symmetric] N_def [symmetric]
    using prune_kept_sub [of rocks N now bc] prune_kept_nonces [of rocks N now bc] by (simp add: m)
qed

text \<open>The demo mempool, pruned with account nonces 5 and 0: the transaction 195 nonces ahead goes.\<close>

definition demo_query :: "string \<Rightarrow> u64 option" where
  "demo_query a = (if a = ''Pxa'' then Some 5 else if a = ''Pxb'' then Some 0 else None)"

lemma demo_nonces: "accountNoncesForMempool demo_query demo_chain = [(''Pxb'', 0), (''Pxa'', 5)]"
  by (simp add: accountNoncesForMempool_def demo_simps ledger_sender_def FaucetAddress_def demo_query_def)

lemma demo_not_prunable:
  "t \<in> set (mempool demo_chain) \<Longrightarrow> \<not> prunable {} {} [(''Pxb'', 0), (''Pxa'', 5)] t"
  "t \<in> set (mempool demo_chain) \<Longrightarrow> ledger_sender t"
  by (auto simp: demo_simps prunable_def FaucetAddress_def ledger_sender_def)

lemma demo_kept: "pkept (prune_phase1 None [(''Pxb'', 0), (''Pxa'', 5)] demo_chain) = mempool demo_chain"
proof -
  note new = prune_step_new [OF demo_not_prunable]
  have "prune_confirmed None demo_chain = {}" "prune_pending demo_chain = {}"
    by (simp_all add: prune_confirmed_def prune_pending_def demo_simps block_hashes_def)
  then show ?thesis by (simp add: prune_phase1_def demo_simps(2,3,6) new sender_nonce_def)
qed

lemma demo_drops:
  "filter (drop_nonce [(''Pxb'', 0), (''Pxa'', 5)] (\<lambda>_. 110)) (mempool demo_chain) = [demo_tx ''h3'' ''Pxa'' 200 102]"
  by (simp add: demo_simps drop_nonce_def ledger_sender_def FaucetAddress_def want_nonce_def
      MempoolMaxNonceGap_def mempoolFutureMaxAgeSec_def in_i64_def)

theorem PruneMempool_clean_witness:
  "let bc' = snd (PruneMempool None demo_query (\<lambda>_. 110) (\<lambda>_. True) demo_chain)
   in map txHash (mempool bc') = [''h1'', ''h2''] \<and>
      distinct (map sender_nonce (filter ledger_sender (mempool bc')))"
proof -
  let ?bc = "snd (PruneMempool None demo_query (\<lambda>_. 110) (\<lambda>_. True) demo_chain)"
  have "mempool ?bc = prune_kept None [(''Pxb'', 0), (''Pxa'', 5)] (\<lambda>_. 110) demo_chain"
    by (simp add: PruneMempool_def demo_nonces prune_locked_mempool)
  moreover have "prune_drops [(''Pxb'', 0), (''Pxa'', 5)] (\<lambda>_. 110) (mempool demo_chain) = {''h3''}"
    unfolding prune_drops_def demo_drops by (simp add: demo_simps)
  ultimately have "map txHash (mempool ?bc) = [''h1'', ''h2'']"
    by (simp add: prune_kept_def demo_kept) (simp add: demo_simps)
  then show ?thesis
    using PruneMempool_clean [of None demo_query "\<lambda>_. 110" "\<lambda>_. True" demo_chain] by (simp only: Let_def)
qed

text \<open>
  Remark: pruning never takes away the transaction an account waits for: when the mempool holds a
  signed-for transaction with the account's next nonce that is in no block and not pending, a
  transaction of that sender with that nonce is still there afterwards.
\<close>

theorem PruneMempool_keeps_next:
  assumes "distinct (map txHash (mempool bc))" and "tx \<in> set (mempool bc)"
    and "txHash tx \<noteq> []" "txFrom tx \<noteq> []" "txFrom tx \<noteq> FaucetAddress" "txType tx \<noteq> ''faucet''"
    and "txHash tx \<notin> prune_confirmed rocks bc" "txHash tx \<notin> prune_pending bc"
    and "txNonce tx = want_nonce (accountNoncesForMempool query bc) (txFrom tx)"
    and "0 \<le> txNonce tx" "txNonce tx < 2 ^ 62"
  shows "\<exists>t \<in> set (mempool (snd (PruneMempool rocks query now rm bc))).
           txFrom t = txFrom tx \<and> txNonce t = txNonce tx"
proof -
  let ?N = "accountNoncesForMempool query bc"
  have "\<not> prunable (prune_confirmed rocks bc) (prune_pending bc) ?N tx"
    using assms by (auto simp: prunable_def want_nonce_def split: option.splits)
  moreover have "ledger_sender tx" using assms by (simp add: ledger_sender_def)
  ultimately have "\<exists>t \<in> set (prune_kept rocks ?N now bc). sender_nonce t = sender_nonce tx"
    using assms by (intro prune_kept_next) auto
  then show ?thesis by (auto simp: PruneMempool_def prune_locked_mempool sender_nonce_def)
qed

theorem PruneMempool_keeps_next_witness:
  "\<exists>t \<in> set (mempool (snd (PruneMempool None demo_query (\<lambda>_. 110) (\<lambda>_. True) demo_chain))).
     txFrom t = ''Pxa'' \<and> txNonce t = 5"
  using PruneMempool_keeps_next [of demo_chain "demo_tx ''h1'' ''Pxa'' 5 100" None demo_query]
  by (simp add: demo_simps demo_nonces want_nonce_def FaucetAddress_def prune_confirmed_def
      prune_pending_def block_hashes_def)

text \<open>
  Remark: the second phase measures a sender whose account query failed against nonce 0: as soon as one
  other sender's query succeeded, every transaction of that sender beyond nonce 64 is taken out of
  the mempool, whatever its account's real nonce.
\<close>

theorem PruneMempool_query_failure_drops:
  assumes "tx \<in> set (mempool bc)" and "ledger_sender tx" and "txNonce tx > 64"
    and "query (txFrom tx) = None" and "accountNoncesForMempool query bc \<noteq> []"
  shows "tx \<notin> set (mempool (snd (PruneMempool rocks query now rm bc)))"
proof
  let ?N = "accountNoncesForMempool query bc"
  assume "tx \<in> set (mempool (snd (PruneMempool rocks query now rm bc)))"
  then have "tx \<in> set (prune_kept rocks ?N now bc)" by (simp add: PruneMempool_def prune_locked_mempool)
  from prune_kept_clean(2) [OF this assms(5)] have "\<not> drop_nonce ?N now tx" .
  moreover have "a \<noteq> txFrom tx" if "(a, w) \<in> set ?N" for a w
    using that assms(4) by (auto simp: accountNoncesForMempool_def Let_def map_filter_def split: if_splits)
  then have "map_of ?N (txFrom tx) = None" by (force simp: map_of_eq_None_iff)
  then have "want_nonce ?N (txFrom tx) = 0" by (simp add: want_nonce_def)
  ultimately show False
    using assms(2,3) by (simp add: drop_nonce_def MempoolMaxNonceGap_def in_i64_def)
qed

theorem PruneMempool_query_failure_drops_witness:
  "demo_tx ''h3'' ''Pxa'' 200 102 \<notin> set (mempool (snd (PruneMempool None
      (\<lambda>a. if a = ''Pxb'' then Some 0 else None) (\<lambda>_. 110) (\<lambda>_. True) demo_chain)))"
  using PruneMempool_query_failure_drops [of "demo_tx ''h3'' ''Pxa'' 200 102" demo_chain "\<lambda>a. if a = ''Pxb'' then Some 0 else None"]
  by (simp add: demo_simps ledger_sender_def FaucetAddress_def accountNoncesForMempool_def)

end
