(* ===== verification/Dag_Order.thy ===== *)
theory Dag_Order
  imports Chain_Data
begin

text \<open>
  Ordering a batch by the digests of a DAG commit (\<^verbatim>\<open>internal/core/dag.go\<close>): overlap counting, the
  committee list and the permutation that L2 applies before it executes a block. The two kill
  switches read an environment variable, here the argument \<open>v\<close>.
\<close>

definition switch_on :: "string \<Rightarrow> bool" where
  "switch_on v = (let w = ToLower (TrimSpace v)
     in w \<noteq> ''0'' \<and> w \<noteq> ''false'' \<and> w \<noteq> ''no'' \<and> w \<noteq> ''off'')"

definition DagOrderingEnabled :: "string \<Rightarrow> bool" where
  "DagOrderingEnabled v = switch_on v"

definition KernelExecEnabled :: "string \<Rightarrow> bool" where
  "KernelExecEnabled v = switch_on v"

text \<open>The Go set is read through \<open>sort.Strings\<close>: the sorted list of its elements.\<close>

definition BuildDagCommittee :: "string \<Rightarrow> string list \<Rightarrow> string list" where
  "BuildDagCommittee selfID peerIDs = sort (remdups (filter (\<lambda>p. p \<noteq> []) (selfID # peerIDs)))"

definition DigestOverlapCount :: "string list \<Rightarrow> string list \<Rightarrow> nat" where
  "DigestOverlapCount commitDigests batchDigests =
     length (filter (\<lambda>d. d \<in> set (filter (\<lambda>b. b \<noteq> []) batchDigests)) commitDigests)"

text \<open>\<open>index\<close>: the first item with a hash; an item with an empty hash has no entry.\<close>

fun first_index :: "('a \<Rightarrow> string) \<Rightarrow> nat \<Rightarrow> 'a list \<Rightarrow> string \<Rightarrow> nat option" where
  "first_index hashOf i [] d = None"
| "first_index hashOf i (x # xs) d =
     (if hashOf x \<noteq> [] \<and> hashOf x = d then Some i else first_index hashOf (Suc i) xs d)"

text \<open>The loop over the digests: the indices of the items it appends, given those already used.\<close>

fun pick_indices :: "(string \<Rightarrow> nat option) \<Rightarrow> string list \<Rightarrow> nat set \<Rightarrow> nat list" where
  "pick_indices index [] used = []"
| "pick_indices index (d # ds) used =
     (case index d of
        None \<Rightarrow> pick_indices index ds used
      | Some i \<Rightarrow> (if i \<in> used then pick_indices index ds used
                  else i # pick_indices index ds (insert i used)))"

definition PermuteByDigests :: "string list \<Rightarrow> 'a list \<Rightarrow> ('a \<Rightarrow> string) \<Rightarrow> 'a list" where
  "PermuteByDigests orderedDigests items hashOf =
     (if length items \<le> 1 \<or> orderedDigests = [] then items
      else
        let picked = pick_indices (first_index hashOf 0 items) orderedDigests {}
        in map (\<lambda>i. items ! i) picked @
           map (\<lambda>i. items ! i) (filter (\<lambda>i. i \<notin> set picked) [0..<length items]))"

definition PermuteStrings :: "string list \<Rightarrow> string list \<Rightarrow> string list" where
  "PermuteStrings orderedDigests hashes = PermuteByDigests orderedDigests hashes (\<lambda>s. s)"

subsection \<open>The result is a rearrangement\<close>

lemma first_index_SomeD:
  "first_index hashOf k xs d = Some i \<Longrightarrow> k \<le> i \<and> i < k + length xs \<and> hashOf (xs ! (i - k)) = d \<and> d \<noteq> []"
proof (induction hashOf k xs d rule: first_index.induct)
  case (2 hashOf k x xs d)
  show ?case
  proof (cases "hashOf x \<noteq> [] \<and> hashOf x = d")
    case True
    with 2(2) show ?thesis by auto
  next
    case False
    with 2 have "Suc k \<le> i \<and> i < Suc k + length xs \<and> hashOf (xs ! (i - Suc k)) = d \<and> d \<noteq> []" by simp
    then show ?thesis by (auto simp: nth_Cons')
  qed
qed simp

lemma first_index_Some0:
  "first_index hashOf 0 xs d = Some i \<Longrightarrow> i < length xs \<and> hashOf (xs ! i) = d \<and> d \<noteq> []"
  using first_index_SomeD [of hashOf 0 xs d i] by simp

lemma first_index_None: "first_index hashOf k xs d = None \<longleftrightarrow> (\<forall>x \<in> set xs. hashOf x \<noteq> d) \<or> d = []"
  by (induction hashOf k xs d rule: first_index.induct) auto

lemma pick_indices_props:
  "distinct (pick_indices index ds used) \<and> set (pick_indices index ds used) \<inter> used = {}"
proof (induction index ds used rule: pick_indices.induct)
  case (2 index d ds used)
  then show ?case by (cases "index d") auto
qed simp

lemma pick_indices_set: "set (pick_indices index ds used) = {i. \<exists>d \<in> set ds. index d = Some i} - used"
proof (induction index ds used rule: pick_indices.induct)
  case (2 index d ds used)
  then show ?case by (cases "index d") auto
qed simp

lemma mset_select_rest:
  assumes "distinct is" and "set is \<subseteq> {..<length xs}"
  shows "mset (map (\<lambda>i. xs ! i) is @ map (\<lambda>i. xs ! i) (filter (\<lambda>i. i \<notin> set is) [0..<length xs])) = mset xs"
proof -
  have "mset (is @ filter (\<lambda>i. i \<notin> set is) [0..<length xs]) = mset [0..<length xs]"
    using assms by (intro set_eq_iff_mset_eq_distinct [THEN iffD1]) auto
  then have "image_mset (\<lambda>i. xs ! i) (mset (is @ filter (\<lambda>i. i \<notin> set is) [0..<length xs])) =
      image_mset (\<lambda>i. xs ! i) (mset [0..<length xs])"
    by (simp only:)
  then show ?thesis by (metis map_append map_nth mset_map)
qed

lemma mset_PermuteByDigests [simp]: "mset (PermuteByDigests ds items hashOf) = mset items"
proof (cases "length items \<le> 1 \<or> ds = []")
  case True
  then have "PermuteByDigests ds items hashOf = items" by (simp only: PermuteByDigests_def if_True)
  then show ?thesis by simp
next
  case False
  let ?p = "pick_indices (first_index hashOf 0 items) ds {}"
  have "distinct ?p" using pick_indices_props by blast
  moreover have "set ?p \<subseteq> {..<length items}" by (auto simp: pick_indices_set dest: first_index_Some0)
  ultimately have "mset (map (\<lambda>i. items ! i) ?p @
      map (\<lambda>i. items ! i) (filter (\<lambda>i. i \<notin> set ?p) [0..<length items])) = mset items"
    by (rule mset_select_rest)
  with False show ?thesis by (simp only: PermuteByDigests_def if_False Let_def)
qed

subsection \<open>The result follows the digests\<close>

text \<open>The first occurrences of the elements of \<open>ds\<close> that lie in \<open>A\<close>.\<close>

fun firsts :: "'a set \<Rightarrow> 'a list \<Rightarrow> 'a list" where
  "firsts A [] = []"
| "firsts A (d # ds) = (if d \<in> A then d # firsts (A - {d}) ds else firsts A ds)"

lemma pick_indices_hashes:
  assumes dist: "distinct (map hashOf xs)" and ne: "\<forall>x \<in> set xs. hashOf x \<noteq> []" and u: "used \<subseteq> {..<length xs}"
  shows "map (\<lambda>i. hashOf (xs ! i)) (pick_indices (first_index hashOf 0 xs) ds used) =
         firsts (hashOf ` set xs - (\<lambda>i. hashOf (xs ! i)) ` used) ds"
  using u
proof (induction "first_index hashOf 0 xs" ds used rule: pick_indices.induct)
  case (2 d ds used)
  let ?h = "\<lambda>i. hashOf (xs ! i)"
  show ?case
  proof (cases "first_index hashOf 0 xs d")
    case None
    then have "d \<notin> hashOf ` set xs" using ne by (auto simp: first_index_None)
    with 2(1) [OF None 2(4)] None show ?thesis by simp
  next
    case (Some i)
    then have i: "i < length xs" "?h i = d" by (auto dest: first_index_Some0)
    have inj: "?h j = d \<Longrightarrow> j < length xs \<Longrightarrow> j = i" for j
      using i nth_eq_iff_index_eq [OF dist, of j i] by simp
    have used: "i \<in> used \<longleftrightarrow> d \<in> ?h ` used"
    proof
      assume "d \<in> ?h ` used"
      then obtain j where "j \<in> used" "?h j = d" by auto
      with inj [of j] 2(4) show "i \<in> used" by auto
    qed (use i in auto)
    have d: "d \<in> hashOf ` set xs" using i by auto
    show ?thesis
    proof (cases "i \<in> used")
      case True
      with 2(2) [OF Some True 2(4)] Some used d show ?thesis by simp
    next
      case False
      have "hashOf ` set xs - ?h ` insert i used = hashOf ` set xs - ?h ` used - {d}" using i(2) by auto
      moreover have "insert i used \<subseteq> {..<length xs}" using 2(4) i by auto
      ultimately show ?thesis using 2(3) [OF Some False] Some False used d i(2) by (simp del: image_insert)
    qed
  qed
qed simp

lemma PermuteByDigests_hashes:
  assumes "distinct (map hashOf items)" and "\<forall>x \<in> set items. hashOf x \<noteq> []" and "hashOf ` set items \<subseteq> set ds"
    and "length items > 1"
  shows "map hashOf (PermuteByDigests ds items hashOf) = firsts (hashOf ` set items) ds"
proof -
  let ?p = "pick_indices (first_index hashOf 0 items) ds {}"
  have "i \<in> set ?p" if "i < length items" for i
  proof -
    let ?d = "hashOf (items ! i)"
    have d: "?d \<in> set ds" using assms(3) that by auto
    moreover have "first_index hashOf 0 items ?d \<noteq> None" using assms(2) that by (auto simp: first_index_None)
    then obtain j where j: "first_index hashOf 0 items ?d = Some j" by blast
    then have "j = i"
      using first_index_Some0 [OF j] assms(1) that by (metis length_map nth_eq_iff_index_eq nth_map)
    ultimately show ?thesis using j by (auto simp: pick_indices_set)
  qed
  then have "filter (\<lambda>i. i \<notin> set ?p) [0..<length items] = []" by (auto simp: filter_empty_conv)
  moreover have "ds \<noteq> []" using assms(3,4) by (cases items) auto
  ultimately show ?thesis
    using assms(4) pick_indices_hashes [OF assms(1,2), of "{}" ds]
    by (simp add: PermuteByDigests_def comp_def)
qed

lemma PermuteByDigests_same_order:
  assumes "mset items = mset items'" and "distinct (map hashOf items)"
    and "\<forall>x \<in> set items. hashOf x \<noteq> [] \<and> hashOf x \<in> set ds"
  shows "PermuteByDigests ds items hashOf = PermuteByDigests ds items' hashOf"
proof (cases "length items > 1")
  case True
  have sets: "set items = set items'" using assms(1) by (rule mset_eq_setD)
  have "distinct (map hashOf items')"
    using assms(1,2) mset_sub_distinct [of items' items hashOf] by simp
  moreover have "length items' > 1" using True assms(1) by (metis mset_eq_length)
  ultimately have "map hashOf (PermuteByDigests ds items hashOf) = map hashOf (PermuteByDigests ds items' hashOf)"
    using True assms(2,3) sets by (subst (1 2) PermuteByDigests_hashes) auto
  moreover have "inj_on hashOf (set (PermuteByDigests ds items hashOf) \<union> set (PermuteByDigests ds items' hashOf))"
    using assms(2) sets mset_PermuteByDigests [THEN mset_eq_setD] by (metis Un_absorb distinct_map)
  ultimately show ?thesis by (rule map_inj_on)
next
  case False
  then have "length items \<le> 1" "length items' \<le> 1" using assms(1) by (auto dest: mset_eq_length)
  moreover have "items = items'"
    using \<open>length items \<le> 1\<close> assms(1) by (cases items) (auto simp: length_Suc_conv dest: sym)
  ultimately show ?thesis by simp
qed

text \<open>
  Remark: \<open>PermuteByDigests\<close> only rearranges, whatever the digest list says (unknown digests, repeated
  digests, items without a hash or with equal hashes). And nodes agree on the execution order: when
  the commit digests cover a batch whose transactions have pairwise different, non-empty hashes, the
  order does not depend on the order in which a node holds the batch.
\<close>

theorem PermuteByDigests_agree:
  "mset (PermuteByDigests ds items hashOf) = mset items \<and>
   (mset items = mset items' \<and> distinct (map hashOf items) \<and>
    (\<forall>x \<in> set items. hashOf x \<noteq> [] \<and> hashOf x \<in> set ds) \<longrightarrow>
    PermuteByDigests ds items hashOf = PermuteByDigests ds items' hashOf)"
  using PermuteByDigests_same_order [of items items' hashOf ds] by simp

theorem PermuteByDigests_agree_witness:
  "PermuteByDigests [''c'', ''a'', ''c'', ''b''] [''a'', ''b'', ''c''] (\<lambda>s. s) =
   PermuteByDigests [''c'', ''a'', ''c'', ''b''] [''b'', ''c'', ''a''] (\<lambda>s. s)"
  using PermuteByDigests_agree [of "[''c'', ''a'', ''c'', ''b'']" "[''a'', ''b'', ''c'']" "\<lambda>s. s" "[''b'', ''c'', ''a'']"]
  by simp

end
