(* ===== verification/Confirm.thy ===== *)
theory Confirm
  imports Mempool Dag_Order
begin

text \<open>
  Confirming a block (\<^verbatim>\<open>internal/blockchain/blockchain.go\<close>): applying its transactions through Core,
  recording them in the explorer state, persisting, and undoing all of it when a later part fails.

  Core is code outside the repository: \<open>core_api\<close> holds the calls the gateway makes on it. A mutating
  call returns whether it reported success and the state file it leaves behind, which may have
  changed even when it failed (the RPC client says so: the response can be lost after the write).
  \<open>io\<close> says how the file operations of one run went; a failed copy may leave a damaged destination.

  \<open>L2ConfirmBlock\<close> and \<open>ConfirmMempoolToChain\<close> release the mutex while Core works. What other
  goroutines do in between is the argument \<open>mid\<close>, an arbitrary function on the state.
\<close>

subsection \<open>Core and the file system\<close>

datatype core_reply = RpcError | Reply bool

record 'c core_api =
  coreCredit :: "string \<Rightarrow> u64 \<Rightarrow> u64 \<Rightarrow> 'c \<Rightarrow> bool \<times> 'c"
  coreApplyTx :: "core_tx \<Rightarrow> 'c \<Rightarrow> bool \<times> 'c"
  coreKernel :: "core_tx list \<Rightarrow> 'c \<Rightarrow> core_reply \<times> 'c"
  coreDagOrder :: "string list \<Rightarrow> (bool \<times> string list) option"

record env =
  envDagOrdering :: string
  envKernelExec :: string

datatype 'c copy_outcome = CopyOk | CopyFailed "'c option"

record 'c io =
  ioSnapshot :: "'c copy_outcome"
  ioRestore :: "'c copy_outcome"
  ioRemove :: bool
  ioPersist :: bool
  ioNow :: int

text \<open>\<open>copyFile(statePath, backupPath)\<close>, \<open>copyFile(backupPath, statePath)\<close> and \<open>os.Remove(backupPath)\<close>.
  Restoring from a backup that is not there fails without touching the state file.\<close>

fun copyFile :: "'c copy_outcome \<Rightarrow> 'c option \<Rightarrow> 'c option \<Rightarrow> bool \<times> 'c option" where
  "copyFile out None dst = (False, dst)"
| "copyFile CopyOk (Some c) dst = (True, Some c)"
| "copyFile (CopyFailed None) (Some c) dst = (False, dst)"
| "copyFile (CopyFailed (Some d)) (Some c) dst = (False, Some d)"

definition snapshot_state :: "'c io \<Rightarrow> 'c Blockchain \<Rightarrow> bool \<times> 'c Blockchain" where
  "snapshot_state io bc =
     (let (ok, bak) = copyFile (ioSnapshot io) (Some (stateFile bc)) (l2bak bc) in (ok, bc\<lparr>l2bak := bak\<rparr>))"

definition restore_state :: "'c io \<Rightarrow> 'c Blockchain \<Rightarrow> bool \<times> 'c Blockchain" where
  "restore_state io bc =
     (let (ok, st) = copyFile (ioRestore io) (l2bak bc) (Some (stateFile bc))
      in (ok, bc\<lparr>stateFile := the st\<rparr>))"

definition remove_backup :: "'c io \<Rightarrow> 'c Blockchain \<Rightarrow> 'c Blockchain" where
  "remove_backup io bc = (if ioRemove io then bc\<lparr>l2bak := None\<rparr> else bc)"

text \<open>\<open>DiscardStateBackup\<close>, called after Rocks succeeded; the argument says whether a backup path
  was returned.\<close>

definition DiscardStateBackup :: "'c io \<Rightarrow> bool \<Rightarrow> 'c Blockchain \<Rightarrow> 'c Blockchain" where
  "DiscardStateBackup io backup bc = (if backup then remove_backup io bc else bc)"

subsection \<open>Applying through Core\<close>

datatype confirm_error =
    LedgerUnavailable
  | SnapshotFailed
  | DagOrderFailed
  | KernelBatchFailed
  | FaucetCreditFailed string
  | NotCoreCompatible string
  | ApplyTxFailed string
  | PendingChanged
  | PendingHashMismatch
  | ExplorerPersist persist_error
  | ExplorerInjected
  | ForkConflict bool
  | RestoreFailed

definition tx_hash_of :: "Transaction option \<Rightarrow> string" where
  "tx_hash_of p = (case p of None \<Rightarrow> [] | Some tx \<Rightarrow> txHash tx)"

definition maybeDagReorder ::
  "env \<Rightarrow> 'c core_api \<Rightarrow> 'c Blockchain \<Rightarrow> Transaction option list
   \<Rightarrow> (confirm_error + Transaction option list) \<times> 'c Blockchain" where
  "maybeDagReorder env core bc txs =
     (let digests = filter (\<lambda>h. h \<noteq> []) (map txHash (nonnil txs))
      in if \<not> DagOrderingEnabled (envDagOrdering env) \<or> length txs < 2 then (Inr txs, bc)
         else if list_ex (\<lambda>tx. txFrom tx = FaucetAddress) (nonnil txs) then (Inr txs, bc)
         else if length digests < 2 then (Inr txs, bc)
         else if dagCommitDigests bc \<noteq> [] \<and> DigestOverlapCount (dagCommitDigests bc) digests > 0
         then (Inr (PermuteByDigests (dagCommitDigests bc) txs tx_hash_of), ClearDagCommitDigests bc)
         else case coreDagOrder core digests of
             None \<Rightarrow> (Inl DagOrderFailed, bc)
           | Some (ok, ordered) \<Rightarrow>
               (if \<not> ok \<or> ordered = [] then (Inr txs, bc)
                else (Inr (PermuteByDigests ordered txs tx_hash_of), bc)))"

text \<open>The batch handed to the kernel: \<open>None\<close> when a faucet credit or a transaction without Core form
  sends the code to the per-transaction path.\<close>

fun kernel_batch :: "Transaction option list \<Rightarrow> core_tx list option" where
  "kernel_batch [] = Some []"
| "kernel_batch (None # txs) = kernel_batch txs"
| "kernel_batch (Some tx # txs) =
     (if txFrom tx = FaucetAddress then None
      else case ToCoreJSON tx of
          None \<Rightarrow> None
        | Some j \<Rightarrow> map_option (Cons j) (kernel_batch txs))"

fun apply_each :: "'c core_api \<Rightarrow> Transaction option list \<Rightarrow> 'c \<Rightarrow> confirm_error option \<times> 'c" where
  "apply_each core [] c = (None, c)"
| "apply_each core (None # txs) c = apply_each core txs c"
| "apply_each core (Some tx # txs) c =
     (if txFrom tx = FaucetAddress then
        (case coreCredit core (txTo tx) (parseAmount tx) (txFeeUplp tx) c of
           (True, c') \<Rightarrow> apply_each core txs c'
         | (False, c') \<Rightarrow> (Some (FaucetCreditFailed (txHash tx)), c'))
      else case ToCoreJSON tx of
          None \<Rightarrow> (Some (NotCoreCompatible (txHash tx)), c)
        | Some j \<Rightarrow>
            (case coreApplyTx core j c of
               (True, c') \<Rightarrow> apply_each core txs c'
             | (False, c') \<Rightarrow> (Some (ApplyTxFailed (txHash tx)), c')))"

text \<open>What runs between the snapshot and the rollback: the kernel batch, or the transactions one by
  one. The kernel's own \<open>ok\<close> flag is not read.\<close>

definition execute_batch :: "env \<Rightarrow> 'c core_api \<Rightarrow> Transaction option list \<Rightarrow> 'c \<Rightarrow> confirm_error option \<times> 'c" where
  "execute_batch env core txs c =
     (case (if KernelExecEnabled (envKernelExec env) then kernel_batch txs else None) of
        Some (j # js) \<Rightarrow>
          (case coreKernel core (j # js) c of
             (RpcError, c') \<Rightarrow> (Some KernelBatchFailed, c')
           | (Reply _, c') \<Rightarrow> (None, c'))
      | _ \<Rightarrow> apply_each core txs c)"

definition rollback_apply :: "'c io \<Rightarrow> 'c Blockchain \<Rightarrow> 'c Blockchain" where
  "rollback_apply io bc = remove_backup io (snd (restore_state io bc))"

text \<open>The result \<open>Inr backup\<close> says whether a backup path is returned (there is none without a ledger).\<close>

definition applyConfirmedTransactions ::
  "env \<Rightarrow> 'c core_api \<Rightarrow> 'c io \<Rightarrow> 'c Blockchain \<Rightarrow> Transaction option list
   \<Rightarrow> (confirm_error + bool) \<times> 'c Blockchain" where
  "applyConfirmedTransactions env core io bc txs =
     (if \<not> ledger bc then (if explorerOnlyConfirm bc then Inr False else Inl LedgerUnavailable, bc)
      else
        let (ok, bc1) = snapshot_state io bc
        in if \<not> ok then (Inl SnapshotFailed, bc1)
           else case maybeDagReorder env core bc1 txs of
               (Inl e, bc2) \<Rightarrow> (Inl e, rollback_apply io bc2)
             | (Inr ordered, bc2) \<Rightarrow>
                 (let (err, c) = execute_batch env core ordered (stateFile bc2);
                      bc3 = bc2\<lparr>stateFile := c\<rparr>
                  in case err of
                       Some e \<Rightarrow> (Inl e, rollback_apply io bc3)
                     | None \<Rightarrow> (Inr True, bc3)))"

subsection \<open>Recording a block in the explorer state\<close>

text \<open>
  The body of the confirm loops: fees, index, confirmed set and block fields for one transaction.
  \<open>feeOf\<close> is \<open>confirmFee\<close>, or \<open>parseFee\<close> of the display fee in the legacy path; \<open>mark\<close> says whether the
  loop sets \<open>confirmedHashes\<close> (the legacy path does not). The transaction gets its block number
  through the shared pointer, so the value stored and returned carries it; entries of \<open>addressTxs\<close>
  appended earlier keep the number they had, since the model holds values there.
\<close>

definition stamp :: "int \<Rightarrow> Transaction \<Rightarrow> Transaction" where
  "stamp n tx = tx\<lparr>txBlockNumber := n\<rparr>"

definition confirm_block_step :: "(Transaction \<Rightarrow> int) \<Rightarrow> BlockRecord \<Rightarrow> Transaction \<Rightarrow> BlockRecord" where
  "confirm_block_step feeOf block tx =
     block\<lparr>bTotalFees := i64 (bTotalFees block + feeOf tx),
           bTxHashes := bTxHashes block @ [txHash tx],
           bTxCount := bTxCount block + 1,
           bTimestamp := (if bTimestamp block = 0 \<or> txTimestamp tx > 0 then txTimestamp tx else bTimestamp block)\<rparr>"

definition confirm_state_step ::
  "bool \<Rightarrow> (Transaction \<Rightarrow> int) \<Rightarrow> int \<Rightarrow> 'c Blockchain \<Rightarrow> Transaction \<Rightarrow> 'c Blockchain" where
  "confirm_state_step mark feeOf n bc tx =
     bc\<lparr>totalFeesCollected := i64 (totalFeesCollected bc + feeOf tx),
        transactions := AList.update (txHash tx) (stamp n tx) (transactions bc),
        lastTx := Some (stamp n tx),
        addressTxs := append_address (txTo tx) (stamp n tx)
                        (append_address (txFrom tx) (stamp n tx) (addressTxs bc)),
        confirmedHashes := (if mark then insert (txHash tx) (confirmedHashes bc) else confirmedHashes bc)\<rparr>"

definition new_block :: "int \<Rightarrow> BlockRecord" where
  "new_block n = block0\<lparr>bBlockNumber := n\<rparr>"

text \<open>\<open>removeTxFromAddressIndex\<close>; the lists hold no nil.\<close>

definition removeTxFromAddressIndex :: "Transaction list \<Rightarrow> string \<Rightarrow> Transaction list" where
  "removeTxFromAddressIndex list hash =
     (if list = [] \<or> hash = [] then list else filter (\<lambda>tx. txHash tx \<noteq> hash) list)"

definition drop_address :: "string \<Rightarrow> string \<Rightarrow> (string \<Rightarrow> Transaction list) \<Rightarrow> string \<Rightarrow> Transaction list" where
  "drop_address a hash idx = (if a = [] then idx else idx(a := removeTxFromAddressIndex (idx a) hash))"

datatype requeue = ToPending | ToMempool

definition undo_one :: "requeue \<Rightarrow> 'c Blockchain \<Rightarrow> Transaction \<Rightarrow> 'c Blockchain" where
  "undo_one requeue bc tx =
     (let bc1 = bc\<lparr>transactions := AList.delete (txHash tx) (transactions bc),
              confirmedHashes := confirmedHashes bc - {txHash tx},
              lastTx := (case lastTx bc of None \<Rightarrow> None
                         | Some l \<Rightarrow> if txHash l = txHash tx then None else Some l),
              addressTxs := drop_address (txTo tx) (txHash tx)
                              (drop_address (txFrom tx) (txHash tx) (addressTxs bc))\<rparr>
      in case requeue of
           ToMempool \<Rightarrow> bc1\<lparr>mempool := mempool bc1 @ [stamp 0 tx]\<rparr>
         | ToPending \<Rightarrow> bc1\<lparr>pendingBlock := pendingBlock bc1 @ [stamp 0 tx]\<rparr>)"

definition undo_tip :: "BlockRecord \<Rightarrow> 'c Blockchain \<Rightarrow> 'c Blockchain" where
  "undo_tip block bc =
     (if blockHistory bc \<noteq> [] \<and> bBlockNumber (last (blockHistory bc)) = bBlockNumber block
      then bc\<lparr>blockHistory := butlast (blockHistory bc),
              blockCounter := (if blockCounter bc = i64 (bBlockNumber block + 1) then bBlockNumber block
                               else blockCounter bc)\<rparr>
      else bc)"

definition undo_fees :: "BlockRecord \<Rightarrow> 'c Blockchain \<Rightarrow> 'c Blockchain" where
  "undo_fees block bc =
     (let t = i64 (totalFeesCollected bc - bTotalFees block)
      in bc\<lparr>totalFeesCollected := (if t < 0 then 0 else t)\<rparr>)"

definition undoExplorerConfirmLocked ::
  "BlockRecord \<Rightarrow> Transaction list \<Rightarrow> requeue \<Rightarrow> 'c Blockchain \<Rightarrow> 'c Blockchain" where
  "undoExplorerConfirmLocked block moved requeue bc =
     foldl (undo_one requeue) (undo_fees block (undo_tip block bc)) moved"

definition rollbackConfirmLocked ::
  "'c io \<Rightarrow> BlockRecord \<Rightarrow> Transaction list \<Rightarrow> bool \<Rightarrow> requeue \<Rightarrow> 'c Blockchain
   \<Rightarrow> confirm_error option \<times> 'c Blockchain" where
  "rollbackConfirmLocked io block moved backup requeue bc =
     (let (ok, bc1) = (if ledger bc \<and> backup then restore_state io bc else (True, bc));
          bc2 = undoExplorerConfirmLocked block moved requeue bc1;
          bc3 = (if backup then remove_backup io bc2 else bc2)
      in (if ok then None else Some RestoreFailed, bc3))"

definition UndoLastConfirmedBlock ::
  "'c io \<Rightarrow> BlockRecord \<Rightarrow> Transaction list \<Rightarrow> bool \<Rightarrow> 'c Blockchain
   \<Rightarrow> confirm_error option \<times> 'c Blockchain" where
  "UndoLastConfirmedBlock io block moved backup bc =
     (case rollbackConfirmLocked io block moved backup ToPending bc of
        (Some e, bc1) \<Rightarrow> (Some e, bc1)
      | (None, bc1) \<Rightarrow> (let (err, bc2) = persistChain (ioPersist io) bc1 in (map_option ExplorerPersist err, bc2)))"

subsection \<open>The confirm operations\<close>

type_synonym 'c confirm_result = "(confirm_error + Transaction list \<times> BlockRecord \<times> bool) \<times> 'c Blockchain"

text \<open>The shared tail: append the block, persist, and undo everything when the write fails.\<close>

definition persist_or_undo ::
  "'c io \<Rightarrow> bool \<Rightarrow> requeue \<Rightarrow> BlockRecord \<Rightarrow> Transaction list \<Rightarrow> 'c Blockchain \<Rightarrow> 'c confirm_result" where
  "persist_or_undo io backup requeue block moved bc =
     (let bc1 = bc\<lparr>blockHistory := blockHistory bc @ [block]\<rparr>
      in case persistChain (ioPersist io) bc1 of
           (None, bc2) \<Rightarrow> (Inr (moved, block, backup), bc2)
         | (Some e, bc2) \<Rightarrow>
             (let bc3 = (if ledger bc2 \<and> backup then snd (restore_state io bc2) else bc2);
                  bc4 = undoExplorerConfirmLocked block moved requeue bc3;
                  bc5 = (if backup then remove_backup io bc4 else bc4)
              in (Inl (ExplorerPersist e), bc5)))"

definition close_timestamp :: "int \<Rightarrow> 'c Blockchain \<Rightarrow> BlockRecord \<Rightarrow> BlockRecord" where
  "close_timestamp now bc block =
     (if bTimestamp block \<noteq> 0 then block
      else block\<lparr>bTimestamp := (case lastTx bc of Some l \<Rightarrow> txTimestamp l | None \<Rightarrow> now)\<rparr>)"

text \<open>The second half of \<open>L2ConfirmBlock\<close>, under the lock again: the fence against a pending block
  that changed while Core worked, then the explorer update.\<close>

definition l2_fence :: "'c io \<Rightarrow> bool \<Rightarrow> 'c Blockchain \<Rightarrow> 'c Blockchain" where
  "l2_fence io backup bc =
     (let bc1 = (if ledger bc \<and> backup then snd (restore_state io bc) else bc);
          bc2 = (if backup then remove_backup io bc1 else bc1)
      in bc2\<lparr>pendingBlock := []\<rparr>)"

definition l2_finish :: "'c io \<Rightarrow> Transaction list \<Rightarrow> bool \<Rightarrow> 'c Blockchain \<Rightarrow> 'c confirm_result" where
  "l2_finish io pendingCopy backup bc =
     (if length (pendingBlock bc) \<noteq> length pendingCopy then (Inl PendingChanged, l2_fence io backup bc)
      else if map txHash (pendingBlock bc) \<noteq> map txHash pendingCopy
      then (Inl PendingHashMismatch, l2_fence io backup bc)
      else
        let n = blockCounter bc;
            bc1 = bc\<lparr>blockCounter := i64 (n + 1)\<rparr>;
            block = foldl (confirm_block_step confirmFee) (new_block n) pendingCopy;
            bc2 = (foldl (confirm_state_step True confirmFee n) bc1 pendingCopy)\<lparr>pendingBlock := []\<rparr>
        in persist_or_undo io backup ToPending (close_timestamp (ioNow io) bc2 block)
             (map (stamp n) pendingCopy) bc2)"

definition L2ConfirmBlock ::
  "env \<Rightarrow> 'c core_api \<Rightarrow> 'c io \<Rightarrow> ('c Blockchain \<Rightarrow> 'c Blockchain) \<Rightarrow> 'c Blockchain \<Rightarrow> 'c confirm_result" where
  "L2ConfirmBlock env core io mid bc =
     (let pendingCopy = pendingBlock bc
      in case applyConfirmedTransactions env core io bc (map Some pendingCopy) of
           (Inl e, bc1) \<Rightarrow> (Inl e, bc1)
         | (Inr backup, bc1) \<Rightarrow> l2_finish io pendingCopy backup (mid bc1))"

text \<open>\<open>ConfirmExplorerWithoutCore\<close>; both paths are given or not (\<open>backup\<close>), and the clock alone
  closes an empty timestamp.\<close>

definition ConfirmExplorerWithoutCore ::
  "'c io \<Rightarrow> Transaction option list \<Rightarrow> requeue \<Rightarrow> bool \<Rightarrow> 'c Blockchain \<Rightarrow> 'c confirm_result" where
  "ConfirmExplorerWithoutCore io txs requeueOnFail backup bc =
     (let n = blockCounter bc;
          ts = nonnil txs;
          bc1 = bc\<lparr>blockCounter := i64 (n + 1)\<rparr>;
          block = foldl (confirm_block_step confirmFee) (new_block n) ts;
          bc2 = foldl (confirm_state_step True confirmFee n) bc1 ts;
          block' = (if bTimestamp block = 0 then block\<lparr>bTimestamp := ioNow io\<rparr> else block);
          moved = map (stamp n) ts;
          bc3 = bc2\<lparr>blockHistory := blockHistory bc2 @ [block']\<rparr>
      in case persistChain (ioPersist io) bc3 of
           (None, bc4) \<Rightarrow> (Inr (moved, block', backup), bc4)
         | (Some e, bc4) \<Rightarrow>
             (let bc5 = (if backup then snd (restore_state io bc4) else bc4);
                  bc6 = undoExplorerConfirmLocked block' moved requeueOnFail bc5
              in (Inl (ExplorerPersist e), if backup then remove_backup io bc6 else bc6)))"

text \<open>\<open>ConfirmMempoolToChain\<close>: Core gets the mempool as it was, the explorer records the mempool as it
  is after \<open>mid\<close>, and no hash is marked confirmed.\<close>

definition ConfirmMempoolToChain ::
  "env \<Rightarrow> 'c core_api \<Rightarrow> 'c io \<Rightarrow> ('c Blockchain \<Rightarrow> 'c Blockchain) \<Rightarrow> 'c Blockchain \<Rightarrow> 'c confirm_result" where
  "ConfirmMempoolToChain env core io mid bc =
     (case applyConfirmedTransactions env core io bc (map Some (mempool bc)) of
        (Inl e, bc0) \<Rightarrow> (Inl e, bc0)
      | (Inr backup, bc0) \<Rightarrow>
          (let bc' = mid bc0;
               n = blockCounter bc';
               feeOf = (\<lambda>tx. parseFee (txFee tx));
               txs = mempool bc';
               bc1 = bc'\<lparr>blockCounter := i64 (n + 1)\<rparr>;
               block = foldl (confirm_block_step feeOf) (new_block n) txs;
               bc2 = (foldl (confirm_state_step False feeOf n) bc1 txs)\<lparr>mempool := []\<rparr>
           in persist_or_undo io backup ToMempool (close_timestamp (ioNow io) bc2 block)
                (map (stamp n) txs) bc2))"

text \<open>\<open>AddConfirmedBlock\<close>: a block from a peer. \<open>Inr None\<close> is "already known".\<close>

definition peer_block_check :: "'c Blockchain \<Rightarrow> BlockRecord \<Rightarrow> (confirm_error + bool)" where
  "peer_block_check bc block =
     (case find (\<lambda>b. bBlockNumber b = bBlockNumber block) (blockHistory bc) of
        None \<Rightarrow> Inr True
      | Some b \<Rightarrow>
          (if bBlockHash b \<noteq> [] \<and> bBlockHash block \<noteq> [] \<and> bBlockHash b = bBlockHash block then Inr False
           else if bBlockHash b = bBlockHash block \<and> bBlockHash block = [] then Inr False
           else Inl (ForkConflict (PreferBlock b block))))"

definition peer_state :: "BlockRecord \<Rightarrow> Transaction list \<Rightarrow> 'c Blockchain \<Rightarrow> 'c Blockchain" where
  "peer_state block ts bc =
     (let n = bBlockNumber block;
          bc1 = (if n \<ge> 0 \<and> i64 (n + 1) > blockCounter bc then bc\<lparr>blockCounter := i64 (n + 1)\<rparr> else bc);
          bc2 = foldl (confirm_state_step True confirmFee n) bc1 ts;
          hashes = set (map txHash ts)
      in bc2\<lparr>confirmedHashes := confirmedHashes bc2 \<union> set (filter (\<lambda>h. h \<noteq> []) (bTxHashes block)),
             mempool := filter (\<lambda>tx. txHash tx \<notin> hashes) (mempool bc2),
             pendingBlock := filter (\<lambda>tx. txHash tx \<notin> hashes) (pendingBlock bc2),
             blockHistory := blockHistory bc2 @ [block]\<rparr>)"

definition AddConfirmedBlock ::
  "env \<Rightarrow> 'c core_api \<Rightarrow> 'c io \<Rightarrow> ('c Blockchain \<Rightarrow> 'c Blockchain) \<Rightarrow> 'c Blockchain \<Rightarrow> BlockRecord
   \<Rightarrow> Transaction option list \<Rightarrow> (confirm_error + bool option) \<times> 'c Blockchain" where
  "AddConfirmedBlock env core io mid bc block txs =
     (case peer_block_check bc block of
        Inl e \<Rightarrow> (Inl e, bc)
      | Inr False \<Rightarrow> (Inr None, bc)
      | Inr True \<Rightarrow>
          (case applyConfirmedTransactions env core io bc txs of
             (Inl e, bc0) \<Rightarrow> (Inl e, bc0)
           | (Inr backup, bc0) \<Rightarrow>
               (let ts = nonnil txs;
                    moved = map (stamp (bBlockNumber block)) ts;
                    bc2 = peer_state block ts (mid bc0)
                in if peerConfirmInject bc2
                   then (Inl ExplorerInjected, snd (rollbackConfirmLocked io block moved backup ToMempool bc2))
                   else case persistChain (ioPersist io) bc2 of
                       (None, bc3) \<Rightarrow> (Inr (Some backup), bc3)
                     | (Some e, bc3) \<Rightarrow>
                         (Inl (ExplorerPersist e), snd (rollbackConfirmLocked io block moved backup ToMempool bc3)))))"

subsection \<open>What the parts leave alone\<close>

text \<open>The explorer view: everything of the state but Core's files, the DAG cache and the pool.\<close>

lemma confirm_state_fold_frame [simp]:
  "blockHistory (foldl (confirm_state_step mark feeOf n) bc txs) = blockHistory bc"
  "blockCounter (foldl (confirm_state_step mark feeOf n) bc txs) = blockCounter bc"
  "mempool (foldl (confirm_state_step mark feeOf n) bc txs) = mempool bc"
  "pendingBlock (foldl (confirm_state_step mark feeOf n) bc txs) = pendingBlock bc"
  "stateFile (foldl (confirm_state_step mark feeOf n) bc txs) = stateFile bc"
  "l2bak (foldl (confirm_state_step mark feeOf n) bc txs) = l2bak bc"
  "ledger (foldl (confirm_state_step mark feeOf n) bc txs) = ledger bc"
  "chainFile (foldl (confirm_state_step mark feeOf n) bc txs) = chainFile bc"
  "durableHead (foldl (confirm_state_step mark feeOf n) bc txs) = durableHead bc"
  by (induction txs arbitrary: bc) (simp_all add: confirm_state_step_def)

lemma confirm_state_fold_confirmed [simp]:
  "confirmedHashes (foldl (confirm_state_step True feeOf n) bc txs) = confirmedHashes bc \<union> txHash ` set txs"
  by (induction txs arbitrary: bc) (auto simp: confirm_state_step_def)

lemma confirm_state_fold_unmarked [simp]:
  "confirmedHashes (foldl (confirm_state_step False feeOf n) bc txs) = confirmedHashes bc"
  by (induction txs arbitrary: bc) (auto simp: confirm_state_step_def)

lemma confirm_state_step_fee:
  "totalFeesCollected (confirm_state_step mark feeOf n bc tx) = i64 (totalFeesCollected bc + feeOf tx)"
  by (simp add: confirm_state_step_def)

lemma confirm_block_step_fee:
  "bTotalFees (confirm_block_step feeOf b tx) = i64 (bTotalFees b + feeOf tx)"
  by (simp add: confirm_block_step_def)

lemma confirm_state_fold_fees:
  "in_i64 (totalFeesCollected bc) \<Longrightarrow>
   totalFeesCollected (foldl (confirm_state_step mark feeOf n) bc txs) =
   i64 (totalFeesCollected bc + sum_list (map feeOf txs))"
proof (induction txs arbitrary: bc)
  case (Cons tx txs)
  have "totalFeesCollected (foldl (confirm_state_step mark feeOf n) bc (tx # txs)) =
      i64 (i64 (totalFeesCollected bc + feeOf tx) + sum_list (map feeOf txs))"
    using Cons.IH [of "confirm_state_step mark feeOf n bc tx"] by (simp add: confirm_state_step_fee)
  then show ?case by (simp add: i64_add_left add.assoc)
qed simp

lemma confirm_block_fold [simp]:
  "bTxHashes (foldl (confirm_block_step feeOf) b txs) = bTxHashes b @ map txHash txs"
  "bTxCount (foldl (confirm_block_step feeOf) b txs) = bTxCount b + int (length txs)"
  "bBlockNumber (foldl (confirm_block_step feeOf) b txs) = bBlockNumber b"
  "bBlockHash (foldl (confirm_block_step feeOf) b txs) = bBlockHash b"
  by (induction txs arbitrary: b) (simp_all add: confirm_block_step_def)

lemma confirm_block_fold_fees:
  "in_i64 (bTotalFees b) \<Longrightarrow>
   bTotalFees (foldl (confirm_block_step feeOf) b txs) = i64 (bTotalFees b + sum_list (map feeOf txs))"
proof (induction txs arbitrary: b)
  case (Cons tx txs)
  have "bTotalFees (foldl (confirm_block_step feeOf) b (tx # txs)) =
      i64 (i64 (bTotalFees b + feeOf tx) + sum_list (map feeOf txs))"
    using Cons.IH [of "confirm_block_step feeOf b tx"] by (simp add: confirm_block_step_fee)
  then show ?case by (simp add: i64_add_left add.assoc)
qed simp

lemma close_timestamp_simps [simp]:
  "bTxHashes (close_timestamp now bc b) = bTxHashes b" "bTxCount (close_timestamp now bc b) = bTxCount b"
  "bBlockNumber (close_timestamp now bc b) = bBlockNumber b" "bTotalFees (close_timestamp now bc b) = bTotalFees b"
  "bBlockHash (close_timestamp now bc b) = bBlockHash b"
  by (simp_all add: close_timestamp_def)

lemma new_block_simps [simp]:
  "bTxHashes (new_block n) = []" "bTxCount (new_block n) = 0" "bBlockNumber (new_block n) = n"
  "bTotalFees (new_block n) = 0" "bBlockHash (new_block n) = []"
  by (simp_all add: new_block_def block0_def)

lemma stamp_simps [simp]:
  "txHash (stamp n tx) = txHash tx" "txFrom (stamp n tx) = txFrom tx" "txNonce (stamp n tx) = txNonce tx"
  "txTo (stamp n tx) = txTo tx" "stamp m (stamp n tx) = stamp m tx" "sender_nonce (stamp n tx) = sender_nonce tx"
  by (simp_all add: stamp_def sender_nonce_def)

lemma restore_state_frame [simp]:
  "blockHistory (snd (restore_state io bc)) = blockHistory bc"
  "blockCounter (snd (restore_state io bc)) = blockCounter bc"
  "mempool (snd (restore_state io bc)) = mempool bc"
  "pendingBlock (snd (restore_state io bc)) = pendingBlock bc"
  "confirmedHashes (snd (restore_state io bc)) = confirmedHashes bc"
  "totalFeesCollected (snd (restore_state io bc)) = totalFeesCollected bc"
  "transactions (snd (restore_state io bc)) = transactions bc"
  "l2bak (snd (restore_state io bc)) = l2bak bc"
  "ledger (snd (restore_state io bc)) = ledger bc"
  "chainFile (snd (restore_state io bc)) = chainFile bc"
  by (simp_all add: restore_state_def case_prod_beta Let_def)

lemma restore_state_stateFile:
  "ioRestore io = CopyOk \<Longrightarrow> l2bak bc = Some c \<Longrightarrow> stateFile (snd (restore_state io bc)) = c"
  by (simp add: restore_state_def)

lemma remove_backup_frame [simp]:
  "blockHistory (remove_backup io bc) = blockHistory bc"
  "blockCounter (remove_backup io bc) = blockCounter bc"
  "mempool (remove_backup io bc) = mempool bc"
  "pendingBlock (remove_backup io bc) = pendingBlock bc"
  "confirmedHashes (remove_backup io bc) = confirmedHashes bc"
  "totalFeesCollected (remove_backup io bc) = totalFeesCollected bc"
  "transactions (remove_backup io bc) = transactions bc"
  "stateFile (remove_backup io bc) = stateFile bc"
  "ledger (remove_backup io bc) = ledger bc"
  "chainFile (remove_backup io bc) = chainFile bc"
  by (simp_all add: remove_backup_def)

lemma undo_one_frame [simp]:
  "blockHistory (undo_one q bc tx) = blockHistory bc"
  "blockCounter (undo_one q bc tx) = blockCounter bc"
  "totalFeesCollected (undo_one q bc tx) = totalFeesCollected bc"
  "stateFile (undo_one q bc tx) = stateFile bc"
  "l2bak (undo_one q bc tx) = l2bak bc"
  "ledger (undo_one q bc tx) = ledger bc"
  "chainFile (undo_one q bc tx) = chainFile bc"
  "confirmedHashes (undo_one q bc tx) = confirmedHashes bc - {txHash tx}"
  "mempool (undo_one ToPending bc tx) = mempool bc"
  "pendingBlock (undo_one ToMempool bc tx) = pendingBlock bc"
  "mempool (undo_one ToMempool bc tx) = mempool bc @ [stamp 0 tx]"
  "pendingBlock (undo_one ToPending bc tx) = pendingBlock bc @ [stamp 0 tx]"
  by (simp_all add: undo_one_def Let_def split: requeue.split)

lemma undo_fold_frame [simp]:
  "blockHistory (foldl (undo_one q) bc txs) = blockHistory bc"
  "blockCounter (foldl (undo_one q) bc txs) = blockCounter bc"
  "totalFeesCollected (foldl (undo_one q) bc txs) = totalFeesCollected bc"
  "stateFile (foldl (undo_one q) bc txs) = stateFile bc"
  "l2bak (foldl (undo_one q) bc txs) = l2bak bc"
  "ledger (foldl (undo_one q) bc txs) = ledger bc"
  "chainFile (foldl (undo_one q) bc txs) = chainFile bc"
  "mempool (foldl (undo_one ToPending) bc txs) = mempool bc"
  "pendingBlock (foldl (undo_one ToMempool) bc txs) = pendingBlock bc"
  "mempool (foldl (undo_one ToMempool) bc txs) = mempool bc @ map (stamp 0) txs"
  "pendingBlock (foldl (undo_one ToPending) bc txs) = pendingBlock bc @ map (stamp 0) txs"
  by (induction txs arbitrary: bc) simp_all

lemma undo_fold_confirmed [simp]:
  "confirmedHashes (foldl (undo_one q) bc txs) = confirmedHashes bc - txHash ` set txs"
  by (induction txs arbitrary: bc) auto

lemma undo_parts_frame [simp]:
  "mempool (undo_fees b (undo_tip b bc)) = mempool bc"
  "pendingBlock (undo_fees b (undo_tip b bc)) = pendingBlock bc"
  "confirmedHashes (undo_fees b (undo_tip b bc)) = confirmedHashes bc"
  "stateFile (undo_fees b (undo_tip b bc)) = stateFile bc"
  "l2bak (undo_fees b (undo_tip b bc)) = l2bak bc"
  "ledger (undo_fees b (undo_tip b bc)) = ledger bc"
  "blockHistory (undo_fees b bc) = blockHistory bc"
  "blockCounter (undo_fees b bc) = blockCounter bc"
  "totalFeesCollected (undo_tip b bc) = totalFeesCollected bc"
  by (simp_all add: undo_fees_def undo_tip_def Let_def)

lemma undo_frame [simp]:
  "mempool (undoExplorerConfirmLocked b txs ToPending bc) = mempool bc"
  "pendingBlock (undoExplorerConfirmLocked b txs ToPending bc) = pendingBlock bc @ map (stamp 0) txs"
  "mempool (undoExplorerConfirmLocked b txs ToMempool bc) = mempool bc @ map (stamp 0) txs"
  "pendingBlock (undoExplorerConfirmLocked b txs ToMempool bc) = pendingBlock bc"
  "confirmedHashes (undoExplorerConfirmLocked b txs q bc) = confirmedHashes bc - txHash ` set txs"
  "stateFile (undoExplorerConfirmLocked b txs q bc) = stateFile bc"
  "l2bak (undoExplorerConfirmLocked b txs q bc) = l2bak bc"
  "ledger (undoExplorerConfirmLocked b txs q bc) = ledger bc"
  by (simp_all add: undoExplorerConfirmLocked_def)

lemma undo_tip_appended:
  assumes "blockHistory bc = bs @ [b]" and "bBlockNumber b = n" and "blockCounter bc = i64 (n + 1)"
  shows "blockHistory (undoExplorerConfirmLocked b txs q bc) = bs"
    and "blockCounter (undoExplorerConfirmLocked b txs q bc) = n"
  using assms by (simp_all add: undoExplorerConfirmLocked_def undo_tip_def)

subsection \<open>Applying is all or nothing\<close>

definition explorer_view where
  "explorer_view bc =
     (blockHistory bc, blockCounter bc, mempool bc, pendingBlock bc, confirmedHashes bc,
      totalFeesCollected bc, transactions bc, addressTxs bc, lastTx bc, ledger bc, chainFile bc, chainDisk bc,
      durableHead bc, peerConfirmInject bc)"

lemma maybeDagReorder_core:
  "maybeDagReorder env core bc txs = (r, bc') \<Longrightarrow> stateFile bc' = stateFile bc \<and> l2bak bc' = l2bak bc"
  by (auto simp: maybeDagReorder_def ClearDagCommitDigests_def Let_def split: if_splits option.splits)

lemma maybeDagReorder_mset:
  assumes "maybeDagReorder env core bc txs = (Inr ordered, bc')"
  shows "mset ordered = mset txs"
proof -
  consider "ordered = txs" | ds where "ordered = PermuteByDigests ds txs tx_hash_of"
    using assms by (auto simp: maybeDagReorder_def Let_def split: if_splits option.splits)
  then show ?thesis by cases simp_all
qed

lemma snapshot_state_stateFile [simp]: "stateFile (snd (snapshot_state io bc)) = stateFile bc"
  by (simp add: snapshot_state_def case_prod_beta Let_def)

lemma copyFile_ok: "fst (copyFile out src dst) \<Longrightarrow> snd (copyFile out src dst) = src"
  by (cases "(out, src, dst)" rule: copyFile.cases) auto

lemma snapshot_state_ok:
  "fst (snapshot_state io bc) \<Longrightarrow> l2bak (snd (snapshot_state io bc)) = Some (stateFile bc)"
  by (simp add: snapshot_state_def case_prod_beta Let_def copyFile_ok)

text \<open>The five ways an apply can end.\<close>

lemma apply_cases:
  assumes "applyConfirmedTransactions env core io bc txs = (r, bc')"
  obtains (no_ledger) "\<not> ledger bc" "bc' = bc" "r = (if explorerOnlyConfirm bc then Inr False else Inl LedgerUnavailable)"
  | (no_snapshot) "ledger bc" "r = Inl SnapshotFailed" "bc' = snd (snapshot_state io bc)"
  | (failed) e bc1 bc2 c where "ledger bc" "r = Inl e" "fst (snapshot_state io bc)"
      "maybeDagReorder env core (snd (snapshot_state io bc)) txs = (bc1, bc2)"
      "bc' = rollback_apply io (bc2\<lparr>stateFile := c\<rparr>)"
  | (applied) ordered bc2 c where "ledger bc" "r = Inr True" "fst (snapshot_state io bc)"
      "maybeDagReorder env core (snd (snapshot_state io bc)) txs = (Inr ordered, bc2)"
      "execute_batch env core ordered (stateFile bc) = (None, c)" "bc' = bc2\<lparr>stateFile := c\<rparr>"
proof -
  let ?s = "snapshot_state io bc"
  consider "\<not> ledger bc" | "ledger bc" "\<not> fst ?s" | "ledger bc" "fst ?s" by blast
  then show thesis
  proof cases
    case 1
    then have "applyConfirmedTransactions env core io bc txs =
        (if explorerOnlyConfirm bc then Inr False else Inl LedgerUnavailable, bc)"
      by (simp only: applyConfirmedTransactions_def simp_thms if_True)
    with assms have "(r, bc') = (if explorerOnlyConfirm bc then Inr False else Inl LedgerUnavailable, bc)"
      by (rule trans [OF sym])
    then have "r = (if explorerOnlyConfirm bc then Inr False else Inl LedgerUnavailable) \<and> bc' = bc"
      by (rule Pair_inject) (rule conjI)
    note this [THEN conjunct2] this [THEN conjunct1]
    with 1 show ?thesis by (rule no_ledger)
  next
    case 2
    with assms show ?thesis
      by (intro no_snapshot) (simp_all add: applyConfirmedTransactions_def case_prod_beta Let_def)
  next
    case 3
    obtain q bc2 where q: "maybeDagReorder env core (snd ?s) txs = (q, bc2)" by fastforce
    have st: "stateFile bc2 = stateFile bc" using maybeDagReorder_core [OF q] by simp
    show ?thesis
    proof (cases q)
      case (Inl e)
      have "bc2 = bc2\<lparr>stateFile := stateFile bc2\<rparr>" by simp
      then have "bc' = rollback_apply io (bc2\<lparr>stateFile := stateFile bc2\<rparr>)"
        using assms 3 q Inl by (simp add: applyConfirmedTransactions_def case_prod_beta Let_def)
      moreover have "r = Inl e"
        using assms 3 q Inl by (simp add: applyConfirmedTransactions_def case_prod_beta Let_def)
      ultimately show ?thesis using 3 q by (intro failed)
    next
      case (Inr ordered)
      obtain err c where ex: "execute_batch env core ordered (stateFile bc) = (err, c)" by fastforce
      show ?thesis
      proof (cases err)
        case None
        then have "r = Inr True" "bc' = bc2\<lparr>stateFile := c\<rparr>"
          using assms 3 q Inr ex st by (simp_all add: applyConfirmedTransactions_def case_prod_beta Let_def)
        with 3 q Inr ex None show ?thesis by (intro applied) simp_all
      next
        case (Some e)
        then have "r = Inl e" "bc' = rollback_apply io (bc2\<lparr>stateFile := c\<rparr>)"
          using assms 3 q Inr ex st by (simp_all add: applyConfirmedTransactions_def case_prod_beta Let_def)
        with 3 q show ?thesis by (intro failed)
      qed
    qed
  qed
qed

text \<open>Applying touches nothing of the explorer state.\<close>

lemma explorer_view_snapshot: "explorer_view (snd (snapshot_state io bc)) = explorer_view bc"
  by (simp add: explorer_view_def snapshot_state_def case_prod_beta Let_def)

lemma explorer_view_rollback: "explorer_view (rollback_apply io bc) = explorer_view bc"
  by (simp add: explorer_view_def rollback_apply_def restore_state_def remove_backup_def case_prod_beta Let_def)

lemma explorer_view_reorder:
  "maybeDagReorder env core bc txs = (r, bc') \<Longrightarrow> explorer_view bc' = explorer_view bc"
  by (auto simp: maybeDagReorder_def explorer_view_def ClearDagCommitDigests_def Let_def
      split: if_splits option.splits)

lemma explorer_view_stateFile: "explorer_view (bc\<lparr>stateFile := c\<rparr>) = explorer_view bc"
  by (simp add: explorer_view_def)

lemma apply_explorer_view:
  assumes "applyConfirmedTransactions env core io bc txs = (r, bc')"
  shows "explorer_view bc' = explorer_view bc"
  using assms
proof (cases rule: apply_cases)
  case no_ledger
  then show ?thesis by (simp only:)
next
  case no_snapshot
  then show ?thesis by (simp only: explorer_view_snapshot)
next
  case (failed e q bc2 c)
  then show ?thesis
    by (metis explorer_view_snapshot explorer_view_rollback explorer_view_reorder explorer_view_stateFile)
next
  case (applied ordered bc2 c)
  then show ?thesis by (metis explorer_view_snapshot explorer_view_reorder explorer_view_stateFile)
qed

lemma apply_failed_state:
  assumes "applyConfirmedTransactions env core io bc txs = (Inl e, bc')" and "ioRestore io = CopyOk"
  shows "stateFile bc' = stateFile bc"
  using assms(1)
proof (cases rule: apply_cases)
  case no_snapshot
  then show ?thesis by simp
next
  case (failed e q bc2 c)
  have "l2bak bc2 = Some (stateFile bc)"
    using maybeDagReorder_core [OF failed(4)] snapshot_state_ok [OF failed(3)] by simp
  then show ?thesis using assms(2) failed(5) by (simp add: rollback_apply_def restore_state_stateFile)
qed (simp_all split: if_splits)

lemma apply_success:
  assumes "applyConfirmedTransactions env core io bc txs = (Inr backup, bc')"
  shows "backup = ledger bc"
    and "ledger bc \<Longrightarrow> l2bak bc' = Some (stateFile bc) \<and>
      (\<exists>ordered. mset ordered = mset txs \<and> execute_batch env core ordered (stateFile bc) = (None, stateFile bc'))"
proof -
  from assms have "backup = ledger bc \<and> (ledger bc \<longrightarrow> l2bak bc' = Some (stateFile bc) \<and>
      (\<exists>ordered. mset ordered = mset txs \<and> execute_batch env core ordered (stateFile bc) = (None, stateFile bc')))"
  proof (cases rule: apply_cases)
    case (applied ordered bc2 c)
    have "l2bak bc2 = Some (stateFile bc)"
      using maybeDagReorder_core [OF applied(4)] snapshot_state_ok [OF applied(3)] by simp
    with applied maybeDagReorder_mset [OF applied(4)] show ?thesis by auto
  qed (auto split: if_splits)
  then show "backup = ledger bc" and "ledger bc \<Longrightarrow> l2bak bc' = Some (stateFile bc) \<and>
      (\<exists>ordered. mset ordered = mset txs \<and> execute_batch env core ordered (stateFile bc) = (None, stateFile bc'))"
    by blast+
qed

subsection \<open>Confirming or leaving everything as it was\<close>

text \<open>The state in which the new block is recorded but not yet appended and persisted.\<close>

definition l2_recorded :: "Transaction list \<Rightarrow> 'c Blockchain \<Rightarrow> 'c Blockchain" where
  "l2_recorded txs bc =
     (foldl (confirm_state_step True confirmFee (blockCounter bc))
        (bc\<lparr>blockCounter := i64 (blockCounter bc + 1)\<rparr>) txs)\<lparr>pendingBlock := []\<rparr>"

definition l2_block :: "int \<Rightarrow> Transaction list \<Rightarrow> 'c Blockchain \<Rightarrow> BlockRecord" where
  "l2_block now txs bc =
     close_timestamp now (l2_recorded txs bc)
       (foldl (confirm_block_step confirmFee) (new_block (blockCounter bc)) txs)"

lemma l2_finish_eq:
  "l2_finish io txs backup bc =
     (if length (pendingBlock bc) \<noteq> length txs then (Inl PendingChanged, l2_fence io backup bc)
      else if map txHash (pendingBlock bc) \<noteq> map txHash txs then (Inl PendingHashMismatch, l2_fence io backup bc)
      else persist_or_undo io backup ToPending (l2_block (ioNow io) txs bc)
             (map (stamp (blockCounter bc)) txs) (l2_recorded txs bc))"
  by (simp add: l2_finish_def l2_block_def l2_recorded_def Let_def)

lemma l2_recorded_simps [simp]:
  "blockHistory (l2_recorded txs bc) = blockHistory bc"
  "blockCounter (l2_recorded txs bc) = i64 (blockCounter bc + 1)"
  "mempool (l2_recorded txs bc) = mempool bc"
  "pendingBlock (l2_recorded txs bc) = []"
  "confirmedHashes (l2_recorded txs bc) = confirmedHashes bc \<union> txHash ` set txs"
  "stateFile (l2_recorded txs bc) = stateFile bc" "l2bak (l2_recorded txs bc) = l2bak bc"
  "ledger (l2_recorded txs bc) = ledger bc" "chainFile (l2_recorded txs bc) = chainFile bc"
  "durableHead (l2_recorded txs bc) = durableHead bc"
  by (simp_all add: l2_recorded_def)

lemma l2_block_simps [simp]:
  "bBlockNumber (l2_block now txs bc) = blockCounter bc"
  "bTxHashes (l2_block now txs bc) = map txHash txs"
  "bTxCount (l2_block now txs bc) = int (length txs)"
  "bTotalFees (l2_block now txs bc) = i64 (sum_list (map confirmFee txs))"
  by (simp_all add: l2_block_def confirm_block_fold_fees)

lemma persist_or_undo_success:
  assumes "persist_or_undo io backup q block moved bc = (Inr r, bc')"
  shows "r = (moved, block, backup) \<and>
    bc' = snd (persistChain (ioPersist io) (bc\<lparr>blockHistory := blockHistory bc @ [block]\<rparr>)) \<and>
    fst (persistChain (ioPersist io) (bc\<lparr>blockHistory := blockHistory bc @ [block]\<rparr>)) = None"
  using assms by (auto simp: persist_or_undo_def Let_def case_prod_beta split: prod.splits option.splits)

definition undone :: "'c io \<Rightarrow> bool \<Rightarrow> requeue \<Rightarrow> BlockRecord \<Rightarrow> Transaction list \<Rightarrow> 'c Blockchain \<Rightarrow> 'c Blockchain" where
  "undone io backup q block moved bc =
     (let bc3 = (if ledger bc \<and> backup then snd (restore_state io bc) else bc);
          bc4 = undoExplorerConfirmLocked block moved q bc3
      in if backup then remove_backup io bc4 else bc4)"

lemma persist_or_undo_failure:
  assumes "persist_or_undo io backup q block moved bc = (Inl e, bc')"
  shows "bc' = undone io backup q block moved
      (snd (persistChain (ioPersist io) (bc\<lparr>blockHistory := blockHistory bc @ [block]\<rparr>)))"
  using assms unfolding persist_or_undo_def undone_def Let_def
  by (auto simp only: case_prod_beta split: prod.splits option.splits)

lemma undone_simps [simp]:
  "mempool (undone io backup ToPending block moved bc) = mempool bc"
  "pendingBlock (undone io backup ToPending block moved bc) = pendingBlock bc @ map (stamp 0) moved"
  "confirmedHashes (undone io backup q block moved bc) = confirmedHashes bc - txHash ` set moved"
  by (simp_all add: undone_def Let_def)

lemma undone_stateFile:
  "ledger bc \<Longrightarrow> backup \<Longrightarrow> ioRestore io = CopyOk \<Longrightarrow> l2bak bc = Some c \<Longrightarrow>
   stateFile (undone io backup q block moved bc) = c"
  by (simp add: undone_def Let_def restore_state_stateFile)

lemma undone_stateFile_no_backup: "\<not> backup \<Longrightarrow> stateFile (undone io backup q block moved bc) = stateFile bc"
  by (simp add: undone_def Let_def)

lemma undone_tip:
  assumes "blockHistory bc = bs @ [block]" and "bBlockNumber block = n" and "blockCounter bc = i64 (n + 1)"
  shows "blockHistory (undone io backup q block moved bc) = bs" "blockCounter (undone io backup q block moved bc) = n"
  using assms by (simp_all add: undone_def Let_def undo_tip_appended)

lemma explorer_view_fields:
  assumes "explorer_view bc' = explorer_view bc"
  shows "blockHistory bc' = blockHistory bc" "blockCounter bc' = blockCounter bc" "mempool bc' = mempool bc"
    "pendingBlock bc' = pendingBlock bc" "confirmedHashes bc' = confirmedHashes bc" "ledger bc' = ledger bc"
    "totalFeesCollected bc' = totalFeesCollected bc" "durableHead bc' = durableHead bc" "chainFile bc' = chainFile bc"
  using assms by (simp_all add: explorer_view_def)

lemma L2ConfirmBlock_cases:
  assumes "L2ConfirmBlock env core io mid bc = (r, bc')"
  obtains (apply_failed) e where "r = Inl e" "applyConfirmedTransactions env core io bc (map Some (pendingBlock bc)) = (Inl e, bc')"
  | (applied) bc1 where
      "applyConfirmedTransactions env core io bc (map Some (pendingBlock bc)) = (Inr (ledger bc), bc1)"
      "l2_finish io (pendingBlock bc) (ledger bc) (mid bc1) = (r, bc')"
proof -
  obtain q bc1 where a: "applyConfirmedTransactions env core io bc (map Some (pendingBlock bc)) = (q, bc1)"
    by fastforce
  show thesis
  proof (cases q)
    case (Inl e)
    with assms a have "(Inl e, bc1) = (r, bc')" by (simp add: L2ConfirmBlock_def)
    then have "r = Inl e" "bc1 = bc'" by simp_all
    with a Inl show ?thesis by (intro apply_failed) simp_all
  next
    case (Inr b)
    then have "b = ledger bc" using a apply_success(1) by metis
    with assms a Inr have "l2_finish io (pendingBlock bc) (ledger bc) (mid bc1) = (r, bc')"
      by (simp add: L2ConfirmBlock_def)
    with a Inr \<open>b = ledger bc\<close> show ?thesis by (intro applied) simp_all
  qed
qed

text \<open>The undone state after a failed write, measured against the state before the block.\<close>

lemma l2_undone:
  assumes "l2_finish io txs backup bc = (Inl e, bc')"
    and same: "map txHash (pendingBlock bc) = map txHash txs"
  shows "blockHistory bc' = blockHistory bc \<and> blockCounter bc' = blockCounter bc \<and> mempool bc' = mempool bc \<and>
    pendingBlock bc' = map (stamp 0) txs \<and> confirmedHashes bc' = confirmedHashes bc - txHash ` set txs"
    and "ledger bc \<and> backup \<and> ioRestore io = CopyOk \<and> l2bak bc = Some c \<Longrightarrow> stateFile bc' = c"
    and "\<not> backup \<Longrightarrow> stateFile bc' = stateFile bc"
proof -
  let ?bl = "l2_block (ioNow io) txs bc"
  let ?p = "snd (persistChain (ioPersist io) ((l2_recorded txs bc)\<lparr>blockHistory := blockHistory bc @ [?bl]\<rparr>))"
  have "length (pendingBlock bc) = length txs" using same by (metis length_map)
  with assms have "persist_or_undo io backup ToPending ?bl (map (stamp (blockCounter bc)) txs) (l2_recorded txs bc) = (Inl e, bc')"
    by (simp add: l2_finish_eq)
  from persist_or_undo_failure [OF this]
  have bc': "bc' = undone io backup ToPending ?bl (map (stamp (blockCounter bc)) txs) ?p" by simp
  have tip: "blockHistory bc' = blockHistory bc" "blockCounter bc' = blockCounter bc"
    unfolding bc' by (rule undone_tip; simp)+
  show "blockHistory bc' = blockHistory bc \<and> blockCounter bc' = blockCounter bc \<and> mempool bc' = mempool bc \<and>
    pendingBlock bc' = map (stamp 0) txs \<and> confirmedHashes bc' = confirmedHashes bc - txHash ` set txs"
    using tip by (auto simp: bc' image_image comp_def)
  show "ledger bc \<and> backup \<and> ioRestore io = CopyOk \<and> l2bak bc = Some c \<Longrightarrow> stateFile bc' = c"
    unfolding bc' by (rule undone_stateFile) simp_all
  show "\<not> backup \<Longrightarrow> stateFile bc' = stateFile bc"
    by (simp add: bc' undone_stateFile_no_backup)
qed

lemma l2_confirmed:
  assumes "l2_finish io txs backup bc = (Inr (moved, block, b), bc')"
  shows "map txHash (pendingBlock bc) = map txHash txs \<and> moved = map (stamp (blockCounter bc)) txs \<and>
    block = l2_block (ioNow io) txs bc \<and> b = backup \<and> blockHistory bc' = blockHistory bc @ [block] \<and>
    blockCounter bc' = i64 (blockCounter bc + 1) \<and> mempool bc' = mempool bc \<and> pendingBlock bc' = [] \<and>
    confirmedHashes bc' = confirmedHashes bc \<union> txHash ` set txs \<and> stateFile bc' = stateFile bc \<and>
    l2bak bc' = l2bak bc \<and> durableHead bc \<le> durableHead bc' \<and>
    (chainFile bc \<noteq> [] \<longrightarrow> map_option cfBlocks (chainDisk bc') = Some (blockHistory bc'))"
proof -
  let ?bl = "l2_block (ioNow io) txs bc"
  let ?q = "(l2_recorded txs bc)\<lparr>blockHistory := blockHistory bc @ [?bl]\<rparr>"
  have hs: "map txHash (pendingBlock bc) = map txHash txs" using assms by (auto simp: l2_finish_eq split: if_splits)
  then have "length (pendingBlock bc) = length txs" by (metis length_map)
  with assms hs have "persist_or_undo io backup ToPending ?bl (map (stamp (blockCounter bc)) txs) (l2_recorded txs bc) =
      (Inr (moved, block, b), bc')"
    by (simp add: l2_finish_eq)
  from persist_or_undo_success [OF this]
  have *: "moved = map (stamp (blockCounter bc)) txs" "block = ?bl" "b = backup"
    "bc' = snd (persistChain (ioPersist io) ?q)" "fst (persistChain (ioPersist io) ?q) = None"
    by simp_all
  have "durableHead bc \<le> durableHead bc'" using persistChain_no_shrink [of ?q] by (simp add: *(4))
  moreover have "chainFile bc \<noteq> [] \<longrightarrow> map_option cfBlocks (chainDisk bc') = Some (blockHistory bc')"
    using *(5) by (simp add: *(4) persistChain_chainDisk)
  ultimately show ?thesis using hs * by simp
qed

subsection \<open>The local chain as a machine\<close>

definition SetExplorerOnlyConfirm :: "'c Blockchain \<Rightarrow> bool \<Rightarrow> 'c Blockchain" where
  "SetExplorerOnlyConfirm bc ok = bc\<lparr>explorerOnlyConfirm := ok\<rparr>"

text \<open>
  The operations of a node that proposes and confirms its own blocks, as events: attaching the ledger
  at start-up, the test switch for confirming without it, mempool traffic, L1 collection, abandoning
  and L2 confirmation with any behaviour of Core and of the file system. The confirmation releases the
  mutex while Core runs; mempool traffic of other goroutines in that window is part of the event.
  (The operations that take a peer's word, \<open>SyncPendingBlock\<close> and \<open>AddConfirmedBlock\<close>, and the
  re-queueing of escrows are not among them: they can bring in a hash that is already in a block.)
\<close>

datatype mempool_event =
    MemAdd Transaction
  | MemRemove "string list"
  | MemPrune "BlockRecord list option" "string \<Rightarrow> u64 option" "string \<Rightarrow> int" "string \<Rightarrow> bool"

fun mempool_step :: "'c Blockchain \<Rightarrow> mempool_event \<Rightarrow> 'c Blockchain" where
  "mempool_step bc (MemAdd tx) = snd (AddToMempool bc tx)"
| "mempool_step bc (MemRemove hashes) = RemoveFromMempool bc hashes"
| "mempool_step bc (MemPrune rocks query now rm) = snd (PruneMempool rocks query now rm bc)"

datatype 'c chain_event =
    EvSetLedger
  | EvExplorerOnly bool
  | EvMempool mempool_event
  | EvCollect int
  | EvSelect "Transaction option list"
  | EvAbandon "string list"
  | EvConfirm env "'c core_api" "'c io" "mempool_event list"

fun chain_step :: "'c Blockchain \<Rightarrow> 'c chain_event \<Rightarrow> 'c Blockchain" where
  "chain_step bc EvSetLedger = SetLedger bc"
| "chain_step bc (EvExplorerOnly ok) = SetExplorerOnlyConfirm bc ok"
| "chain_step bc (EvMempool ev) = mempool_step bc ev"
| "chain_step bc (EvCollect limit) = snd (L1CollectBlockLimit bc limit)"
| "chain_step bc (EvSelect selected) = snd (L1CollectSelected bc selected)"
| "chain_step bc (EvAbandon drops) = snd (AbandonPendingBlock bc drops)"
| "chain_step bc (EvConfirm env core io meanwhile) =
     snd (L2ConfirmBlock env core io (\<lambda>bc. foldl mempool_step bc meanwhile) bc)"

definition chain_hashes :: "'c Blockchain \<Rightarrow> string list" where
  "chain_hashes bc = concat (map bTxHashes (blockHistory bc))"

text \<open>Blocks are numbered from 0 without gaps (up to the width of \<open>int64\<close>), no hash is in two blocks
  or twice in one, and \<open>confirmedHashes\<close> is exactly the set of hashes in blocks.\<close>

definition chain_inv :: "'c Blockchain \<Rightarrow> bool" where
  "chain_inv bc \<longleftrightarrow>
     inflight_ok bc \<and>
     map bBlockNumber (blockHistory bc) = map (\<lambda>k. i64 (int k)) [0..<length (blockHistory bc)] \<and>
     blockCounter bc = i64 (int (length (blockHistory bc))) \<and>
     distinct (chain_hashes bc) \<and> set (chain_hashes bc) = confirmedHashes bc"

lemma chain_inv_same:
  assumes "chain_inv bc" and "inflight_ok bc'"
    and "blockHistory bc' = blockHistory bc" "blockCounter bc' = blockCounter bc" "confirmedHashes bc' = confirmedHashes bc"
  shows "chain_inv bc'"
  using assms by (simp add: chain_inv_def chain_hashes_def)

lemma inflight_ok_confirmed:
  assumes "inflight_ok bc" and "mempool bc' = mempool bc" and "pendingBlock bc' = []"
    and "confirmedHashes bc' = confirmedHashes bc \<union> txHash ` set (pendingBlock bc)"
  shows "inflight_ok bc'"
  using assms by (auto simp: inflight_ok_def)

lemma inflight_ok_requeued:
  assumes "inflight_ok bc" and "mempool bc' = mempool bc" and "pendingBlock bc' = map (stamp 0) (pendingBlock bc)"
    and "confirmedHashes bc' = confirmedHashes bc"
  shows "inflight_ok bc'"
  using assms by (auto simp: inflight_ok_def image_image comp_def)

text \<open>What happens in the window of a confirmation keeps the blocks, the counter, the confirmed set and
  the pending block, and the discipline of what is in flight.\<close>

definition keeps_blocks :: "('c Blockchain \<Rightarrow> 'c Blockchain) \<Rightarrow> bool" where
  "keeps_blocks mid \<longleftrightarrow> (\<forall>bc. blockHistory (mid bc) = blockHistory bc \<and> blockCounter (mid bc) = blockCounter bc \<and>
     confirmedHashes (mid bc) = confirmedHashes bc \<and> pendingBlock (mid bc) = pendingBlock bc \<and>
     (inflight_ok bc \<longrightarrow> inflight_ok (mid bc)))"

lemma keeps_blocks_id: "keeps_blocks id"
  by (simp add: keeps_blocks_def)

lemma mempool_step_frame [simp]:
  "blockHistory (mempool_step bc ev) = blockHistory bc" "blockCounter (mempool_step bc ev) = blockCounter bc"
  "confirmedHashes (mempool_step bc ev) = confirmedHashes bc" "pendingBlock (mempool_step bc ev) = pendingBlock bc"
  by (cases ev; simp add: AddToMempool_snd RemoveFromMempool_def PruneMempool_def prune_locked_def Let_def)+

lemma mempool_step_ok: "inflight_ok bc \<Longrightarrow> inflight_ok (mempool_step bc ev)"
  by (cases ev) (simp_all add: AddToMempool_ok RemoveFromMempool_ok PruneMempool_def prune_locked_ok)

lemma mempool_run_frame [simp]:
  "blockHistory (foldl mempool_step bc evs) = blockHistory bc"
  "blockCounter (foldl mempool_step bc evs) = blockCounter bc"
  "confirmedHashes (foldl mempool_step bc evs) = confirmedHashes bc"
  "pendingBlock (foldl mempool_step bc evs) = pendingBlock bc"
  by (induction evs arbitrary: bc) simp_all

lemma mempool_run_ok: "inflight_ok bc \<Longrightarrow> inflight_ok (foldl mempool_step bc evs)"
  by (induction evs arbitrary: bc) (simp_all add: mempool_step_ok)

lemma mempool_run_keeps: "keeps_blocks (\<lambda>bc. foldl mempool_step bc evs)"
  by (simp add: keeps_blocks_def mempool_run_ok)

text \<open>One confirmation, seen from the machine: it fails and the explorer state is the old one (the
  pending block re-queued), or it succeeds and exactly one block is appended.\<close>

lemma L2ConfirmBlock_step:
  assumes ok: "inflight_ok bc" and mid: "keeps_blocks mid" and L2: "L2ConfirmBlock env core io mid bc = (r, bc')"
  shows "(\<exists>e. r = Inl e) \<and> blockHistory bc' = blockHistory bc \<and> blockCounter bc' = blockCounter bc \<and>
       confirmedHashes bc' = confirmedHashes bc \<and> (mid = id \<longrightarrow> mempool bc' = mempool bc) \<and>
       map txHash (pendingBlock bc') = map txHash (pendingBlock bc) \<and> inflight_ok bc' \<or>
     (\<exists>moved block b. r = Inr (moved, block, b) \<and> bTxHashes block = map txHash (pendingBlock bc) \<and>
       bBlockNumber block = blockCounter bc \<and> blockHistory bc' = blockHistory bc @ [block] \<and>
       blockCounter bc' = i64 (blockCounter bc + 1) \<and>
       confirmedHashes bc' = confirmedHashes bc \<union> txHash ` set (pendingBlock bc) \<and> inflight_ok bc')"
  using L2
proof (cases rule: L2ConfirmBlock_cases)
  case (apply_failed e)
  note v = explorer_view_fields [OF apply_explorer_view [OF apply_failed(2)]]
  then have "inflight_ok bc'" using ok by (simp add: inflight_ok_def)
  with apply_failed v show ?thesis by simp
next
  case (applied bc1)
  note v = explorer_view_fields [OF apply_explorer_view [OF applied(1)]]
  let ?m = "mid bc1"
  have "inflight_ok bc1" using ok by (simp add: inflight_ok_def v)
  then have m: "blockHistory ?m = blockHistory bc" "blockCounter ?m = blockCounter bc"
    "confirmedHashes ?m = confirmedHashes bc" "pendingBlock ?m = pendingBlock bc" "inflight_ok ?m"
    "mid = id \<longrightarrow> mempool ?m = mempool bc"
    using mid v by (simp_all add: keeps_blocks_def)
  show ?thesis
  proof (cases r)
    case (Inl e)
    have "map txHash (pendingBlock ?m) = map txHash (pendingBlock bc)" by (simp add: m)
    from l2_undone(1) [OF applied(2) [unfolded Inl] this]
    have u: "blockHistory bc' = blockHistory ?m" "blockCounter bc' = blockCounter ?m" "mempool bc' = mempool ?m"
      "pendingBlock bc' = map (stamp 0) (pendingBlock ?m)"
      "confirmedHashes bc' = confirmedHashes ?m - txHash ` set (pendingBlock ?m)"
      by (simp_all add: m)
    moreover have "confirmedHashes ?m - txHash ` set (pendingBlock ?m) = confirmedHashes ?m"
      using m(5) by (auto simp: inflight_ok_def)
    ultimately show ?thesis using inflight_ok_requeued [OF m(5), of bc'] Inl m by (simp add: comp_def)
  next
    case (Inr x)
    then obtain moved block b where x: "r = Inr (moved, block, b)" by (cases x) auto
    from l2_confirmed [OF applied(2) [unfolded x]]
    have u: "blockHistory bc' = blockHistory ?m @ [block]" "blockCounter bc' = i64 (blockCounter ?m + 1)"
      "mempool bc' = mempool ?m" "pendingBlock bc' = []" "bTxHashes block = map txHash (pendingBlock ?m)"
      "bBlockNumber block = blockCounter ?m"
      "confirmedHashes bc' = confirmedHashes ?m \<union> txHash ` set (pendingBlock ?m)"
      by (simp_all add: m)
    with inflight_ok_confirmed [OF m(5) u(3,4,7)] x m show ?thesis by simp
  qed
qed

lemma local_step_frame:
  assumes "\<And>env core io evs. ev \<noteq> EvConfirm env core io evs"
  shows "blockHistory (chain_step bc ev) = blockHistory bc \<and> blockCounter (chain_step bc ev) = blockCounter bc \<and>
     confirmedHashes (chain_step bc ev) = confirmedHashes bc"
proof (cases ev)
  case (EvMempool e)
  then show ?thesis by simp
next
  case (EvSelect selected)
  then show ?thesis by (simp add: L1CollectSelected_def Let_def case_prod_beta)
next
  case (EvConfirm env core io evs)
  with assms show ?thesis by blast
qed (simp_all add: SetLedger_def SetExplorerOnlyConfirm_def L1CollectBlockLimit_def AbandonPendingBlock_def Let_def)

lemma local_step_ok:
  assumes "inflight_ok bc" and "\<And>env core io evs. ev \<noteq> EvConfirm env core io evs"
  shows "inflight_ok (chain_step bc ev)"
proof (cases ev)
  case (EvConfirm env core io evs)
  with assms(2) show ?thesis by blast
next
  case (EvMempool e)
  then show ?thesis using assms(1) by (simp add: mempool_step_ok)
next
  case EvSetLedger
  then show ?thesis using assms(1) by (simp add: SetLedger_def inflight_ok_def)
next
  case (EvExplorerOnly ok)
  then show ?thesis using assms(1) by (simp add: SetExplorerOnlyConfirm_def inflight_ok_def)
qed (simp_all add: assms(1) L1CollectBlockLimit_ok L1CollectSelected_ok AbandonPendingBlock_ok)

lemma chain_inv_confirm:
  assumes inv: "chain_inv bc" and mid: "keeps_blocks mid" and L2: "L2ConfirmBlock env core io mid bc = (r, bc')"
  shows "chain_inv bc' \<and> (\<exists>ext. blockHistory bc' = blockHistory bc @ ext)"
proof -
  have ok: "inflight_ok bc" using inv by (simp add: chain_inv_def)
  let ?n = "length (blockHistory bc)"
  from L2ConfirmBlock_step [OF ok mid L2] show ?thesis
  proof (elim disjE exE conjE)
    assume *: "blockHistory bc' = blockHistory bc" "blockCounter bc' = blockCounter bc"
      "confirmedHashes bc' = confirmedHashes bc" "inflight_ok bc'"
    then show ?thesis using chain_inv_same [OF inv, of bc'] by simp
  next
    fix moved block b
    assume *: "bTxHashes block = map txHash (pendingBlock bc)" "bBlockNumber block = blockCounter bc"
      "blockHistory bc' = blockHistory bc @ [block]" "blockCounter bc' = i64 (blockCounter bc + 1)"
      "confirmedHashes bc' = confirmedHashes bc \<union> txHash ` set (pendingBlock bc)" "inflight_ok bc'"
    have c: "blockCounter bc = i64 (int ?n)" and d: "distinct (chain_hashes bc)"
      and sc: "set (chain_hashes bc) = confirmedHashes bc"
      using inv by (simp_all add: chain_inv_def)
    have h: "chain_hashes bc' = chain_hashes bc @ map txHash (pendingBlock bc)"
      by (simp add: chain_hashes_def *)
    have "distinct (map txHash (pendingBlock bc))" "confirmedHashes bc \<inter> txHash ` set (pendingBlock bc) = {}"
      using ok by (auto simp: inflight_ok_def)
    then have "distinct (chain_hashes bc')" using d sc by (auto simp: h)
    moreover have "blockCounter bc' = i64 (int (length (blockHistory bc')))"
      using i64_add_left [of "int ?n" 1] by (simp add: * c add.commute)
    ultimately show ?thesis
      using inv * c sc by (simp add: chain_inv_def h)
  qed
qed

definition chain_extends :: "'c Blockchain \<Rightarrow> 'c Blockchain \<Rightarrow> bool" where
  "chain_extends bc bc' \<longleftrightarrow> (\<exists>ext. blockHistory bc' = blockHistory bc @ ext)"

lemma chain_step_inv: "chain_inv bc \<Longrightarrow> chain_inv (chain_step bc ev) \<and> chain_extends bc (chain_step bc ev)"
proof (cases "\<exists>env core io evs. ev = EvConfirm env core io evs")
  case True
  assume inv: "chain_inv bc"
  from True obtain env core io evs where ev: "ev = EvConfirm env core io evs" by blast
  let ?mid = "\<lambda>bc :: 'a Blockchain. foldl mempool_step bc evs"
  have "L2ConfirmBlock env core io ?mid bc = (fst (L2ConfirmBlock env core io ?mid bc), chain_step bc ev)"
    by (simp add: ev)
  then show ?thesis using chain_inv_confirm [OF inv mempool_run_keeps] unfolding chain_extends_def by blast
next
  case False
  assume inv: "chain_inv bc"
  then have "inflight_ok bc" by (simp add: chain_inv_def)
  with False have "inflight_ok (chain_step bc ev)" by (intro local_step_ok) blast+
  then show ?thesis
    using chain_inv_same [OF inv, of "chain_step bc ev"] local_step_frame [of ev bc] False
    by (auto simp: chain_extends_def)
qed

interpretation chain: growing_machine chain_step chain_inv chain_extends
proof unfold_locales
  fix s t u :: "'c Blockchain" and e :: "'c chain_event"
  show "chain_inv s \<Longrightarrow> chain_inv (chain_step s e)" and "chain_inv s \<Longrightarrow> chain_extends s (chain_step s e)"
    by (simp_all add: chain_step_inv)
  show "chain_extends s s" by (simp add: chain_extends_def)
  show "chain_extends s t \<Longrightarrow> chain_extends t u \<Longrightarrow> chain_extends s u" by (auto simp: chain_extends_def)
qed

lemma chain_inv_new: "chain_inv (NewBlockchain c)"
  by (simp add: chain_inv_def inflight_ok_def chain_hashes_def NewBlockchain_def in_i64_def)

subsection \<open>Properties\<close>


text \<open>
  C2: the local chain is append-only. In every run of local operations from a new chain, with the ledger attached
  at any point, a block in the history stays there, unchanged and at its place, whatever
  admissions, collections, prunes and L2 confirmations follow and whichever of them fail and are undone.
\<close>

theorem chain_append_only:
  "\<exists>ext. blockHistory (foldl chain_step (NewBlockchain c) (es @ fs)) =
         blockHistory (foldl chain_step (NewBlockchain c) es) @ ext"
proof -
  have "chain_extends (foldl chain_step (NewBlockchain c) es) (foldl chain_step (foldl chain_step (NewBlockchain c) es) fs)"
    by (intro chain.run_le chain.run_inv chain_inv_new)
  then show ?thesis by (simp add: chain_extends_def)
qed


text \<open>A chain with two signed transfers pending, and a Core that counts what it executes.\<close>

definition signed_tx :: "string \<Rightarrow> int \<Rightarrow> Transaction" where
  "signed_tx h n = tx0\<lparr>txHash := h, txFrom := ''Pxa'', txTo := ''Pxb'', txNonce := n, txTimestamp := 7,
     txSigMain := ''s'', txFee := ''3''\<rparr>"

definition counting_core :: "nat core_api" where
  "counting_core = \<lparr>coreCredit = (\<lambda>to plp uplp c. (True, c + 1)), coreApplyTx = (\<lambda>j c. (True, c + 1)),
     coreKernel = (\<lambda>js c. (Reply True, c + length js)), coreDagOrder = (\<lambda>ds. None)\<rparr>"

definition broken_core :: "nat core_api" where
  "broken_core = counting_core\<lparr>coreKernel := (\<lambda>js c. (RpcError, c + 100)), coreDagOrder := (\<lambda>ds. Some (False, []))\<rparr>"

definition good_io :: "nat io" where
  "good_io = \<lparr>ioSnapshot = CopyOk, ioRestore = CopyOk, ioRemove = True, ioPersist = True, ioNow = 9\<rparr>"

definition plain_env :: env where
  "plain_env = \<lparr>envDagOrdering = ''0'', envKernelExec = ''0''\<rparr>"

definition kernel_env :: env where
  "kernel_env = \<lparr>envDagOrdering = ''0'', envKernelExec = []\<rparr>"

definition pending_chain :: "nat Blockchain" where
  "pending_chain = (NewBlockchain 40)\<lparr>ledger := True, pendingBlock := [signed_tx ''h1'' 0, signed_tx ''h2'' 1]\<rparr>"

lemma pending_chain_simps:
  "ledger pending_chain" "pendingBlock pending_chain = [signed_tx ''h1'' 0, signed_tx ''h2'' 1]"
  "stateFile pending_chain = 40" "chainFile pending_chain = []" "blockHistory pending_chain = []"
  "blockCounter pending_chain = 0" "mempool pending_chain = []" "confirmedHashes pending_chain = {}"
  "txHash (signed_tx h n) = h" "txFrom (signed_tx h n) = ''Pxa''" "txNonce (signed_tx h n) = n"
  "ToCoreJSON (signed_tx h n) \<noteq> None"
  by (simp_all add: pending_chain_def NewBlockchain_def signed_tx_def tx0_def ToCoreJSON_def FaucetAddress_def)

lemma env_switches:
  "\<not> DagOrderingEnabled (envDagOrdering plain_env)" "\<not> KernelExecEnabled (envKernelExec plain_env)"
  "\<not> DagOrderingEnabled (envDagOrdering kernel_env)" "KernelExecEnabled (envKernelExec kernel_env)"
  by code_simp+

lemma demo_reorder:
  "maybeDagReorder plain_env core bc txs = (Inr txs, bc)" "maybeDagReorder kernel_env core bc txs = (Inr txs, bc)"
  by (simp_all add: maybeDagReorder_def env_switches)

lemma demo_apply:
  "applyConfirmedTransactions plain_env counting_core good_io pending_chain (map Some (pendingBlock pending_chain)) =
     (Inr True, pending_chain\<lparr>l2bak := Some 40, stateFile := 42\<rparr>)"
proof -
  obtain j1 j2 where "ToCoreJSON (signed_tx ''h1'' 0) = Some j1" "ToCoreJSON (signed_tx ''h2'' 1) = Some j2"
    using pending_chain_simps(12) by blast
  then show ?thesis
    by (simp add: applyConfirmedTransactions_def snapshot_state_def good_io_def demo_reorder execute_batch_def
        env_switches pending_chain_simps counting_core_def FaucetAddress_def)
qed

lemma demo_success:
  "\<exists>moved block bc'. L2ConfirmBlock plain_env counting_core good_io id pending_chain = (Inr (moved, block, True), bc')"
  unfolding L2ConfirmBlock_def Let_def demo_apply
  by (simp add: l2_finish_eq persist_or_undo_def persistChain_def pending_chain_simps)


text \<open>A run that attaches the ledger, confirms a block of two transfers while a third arrives, and is then
  offered the first one again; and one that goes on to confirm the third, with Core failing.\<close>

definition demo_events :: "nat chain_event list" where
  "demo_events = [EvSetLedger, EvMempool (MemAdd (signed_tx ''h1'' 0)), EvMempool (MemAdd (signed_tx ''h2'' 1)),
     EvCollect 10, EvConfirm plain_env counting_core good_io [MemAdd (signed_tx ''h3'' 2)],
     EvMempool (MemAdd (signed_tx ''h1'' 0))]"

definition demo_more :: "nat chain_event list" where
  "demo_more = [EvCollect 10, EvConfirm kernel_env broken_core good_io []]"

lemma demo_collected:
  "foldl chain_step (NewBlockchain 40) [EvSetLedger, EvMempool (MemAdd (signed_tx ''h1'' 0)),
     EvMempool (MemAdd (signed_tx ''h2'' 1)), EvCollect 10] = pending_chain"
  by (simp add: pending_chain_def NewBlockchain_def SetLedger_def AddToMempool_def L1CollectBlockLimit_def
      signed_tx_def tx0_def Let_def)

lemma demo_confirmed:
  "\<exists>block. bTxHashes block = [''h1'', ''h2''] \<and> blockHistory (foldl chain_step (NewBlockchain 40) demo_events) = [block]"
proof -
  have "foldl chain_step (NewBlockchain 40) demo_events =
      chain_step (chain_step pending_chain (EvConfirm plain_env counting_core good_io [MemAdd (signed_tx ''h3'' 2)]))
        (EvMempool (MemAdd (signed_tx ''h1'' 0)))"
    unfolding demo_collected [symmetric] demo_events_def by simp
  moreover have "L2ConfirmBlock plain_env counting_core good_io mid pending_chain =
      l2_finish good_io (pendingBlock pending_chain) True (mid (pending_chain\<lparr>l2bak := Some 40, stateFile := 42\<rparr>))" for mid
    by (simp add: L2ConfirmBlock_def demo_apply)
  ultimately show ?thesis
    by (simp add: l2_finish_eq persist_or_undo_def persistChain_def pending_chain_simps AddToMempool_snd)
qed


theorem chain_append_only_witness:
  "\<exists>block ext. bTxHashes block = [''h1'', ''h2''] \<and>
     blockHistory (foldl chain_step (NewBlockchain 40) (demo_events @ demo_more)) = block # ext"
  using chain_append_only [of 40 demo_events demo_more] demo_confirmed by auto

lemma L2ConfirmBlock_restores:
  assumes "L2ConfirmBlock env core io id bc = (Inl e, bc')" and "inflight_ok bc" and "ioRestore io = CopyOk"
  shows "stateFile bc' = stateFile bc \<and> blockHistory bc' = blockHistory bc \<and> blockCounter bc' = blockCounter bc \<and>
     confirmedHashes bc' = confirmedHashes bc \<and> mempool bc' = mempool bc \<and>
     map txHash (pendingBlock bc') = map txHash (pendingBlock bc)"
proof -
  have "stateFile bc' = stateFile bc"
    using assms(1)
  proof (cases rule: L2ConfirmBlock_cases)
    case (apply_failed e)
    then show ?thesis using apply_failed_state [OF _ assms(3)] by blast
  next
    case (applied bc1)
    note v = explorer_view_fields [OF apply_explorer_view [OF applied(1)]]
    have fin: "l2_finish io (pendingBlock bc) (ledger bc) bc1 = (Inl e, bc')" using applied(2) by simp
    have hs: "map txHash (pendingBlock bc1) = map txHash (pendingBlock bc)" by (simp add: v)
    show ?thesis
    proof (cases "ledger bc")
      case True
      with apply_success(2) [OF applied(1)] have "l2bak bc1 = Some (stateFile bc)" by blast
      then show ?thesis using l2_undone(2) [OF fin hs] True assms(3) v by blast
    next
      case False
      with applied(1) have "bc1 = bc" by (cases rule: apply_cases) simp_all
      then show ?thesis using l2_undone(3) [OF fin hs False] by simp
    qed
  qed
  with L2ConfirmBlock_step [OF assms(2) keeps_blocks_id assms(1)] show ?thesis by auto
qed

text \<open>
  C4: a failed confirmation that nobody interferes with leaves nothing behind. Three conditions: what is
  in flight is in order (\<open>inflight_ok\<close>; in particular no pending hash is already in a block, which
  \<open>SyncPendingBlock\<close> does not ensure), no other goroutine touches the chain while the mutex is released
  (\<open>mid = id\<close>), and copying the backup back succeeds, as the code ignores that error. Then, whether the
  ledger was missing, or the snapshot, the DAG order, the kernel, a transaction after Core had already
  changed its state, or the explorer file failed: Core's state, the block history, the block counter,
  the confirmed set and the mempool are as before and the same transactions are pending.
\<close>

theorem L2ConfirmBlock_failure_restores:
  assumes "L2ConfirmBlock env core io id bc = (Inl e, bc')" and "inflight_ok bc" and "ioRestore io = CopyOk"
  shows "stateFile bc' = stateFile bc \<and> blockHistory bc' = blockHistory bc \<and> blockCounter bc' = blockCounter bc \<and>
     confirmedHashes bc' = confirmedHashes bc \<and> mempool bc' = mempool bc \<and>
     map txHash (pendingBlock bc') = map txHash (pendingBlock bc)"
  using assms by (rule L2ConfirmBlock_restores)

theorem L2ConfirmBlock_failure_restores_witness:
  "fst (L2ConfirmBlock kernel_env broken_core good_io id pending_chain) = Inl KernelBatchFailed \<and>
   stateFile (snd (L2ConfirmBlock kernel_env broken_core good_io id pending_chain)) = 40"
proof -
  let ?r = "L2ConfirmBlock kernel_env broken_core good_io id pending_chain"
  obtain j1 j2 where "ToCoreJSON (signed_tx ''h1'' 0) = Some j1" "ToCoreJSON (signed_tx ''h2'' 1) = Some j2"
    using pending_chain_simps(12) by blast
  then have "fst ?r = Inl KernelBatchFailed"
    by (simp add: L2ConfirmBlock_def applyConfirmedTransactions_def snapshot_state_def good_io_def demo_reorder
        execute_batch_def env_switches pending_chain_simps broken_core_def counting_core_def FaucetAddress_def)
  moreover from this have "?r = (Inl KernelBatchFailed, snd ?r)" by (metis prod.collapse)
  moreover have "inflight_ok pending_chain" by (simp add: inflight_ok_def pending_chain_simps sender_nonce_def)
  ultimately show ?thesis
    using L2ConfirmBlock_failure_restores [of kernel_env broken_core good_io pending_chain KernelBatchFailed "snd ?r"]
    by (simp add: good_io_def pending_chain_simps)
qed

text \<open>
  C5: the fence. If Core has executed the pending block against a backup, and the pending block no longer
  has the executed hashes when the lock is taken again, whatever other goroutines did in between, then
  the confirmation is refused: no block is added, the history, the confirmed set and the mempool stay
  as they are, and the pending block is emptied. Core's old state is put back provided the backup file is
  still the one taken before, the ledger is still attached and the copy succeeds; otherwise nothing is
  said of Core's state (the code ignores an error of that copy).
\<close>

theorem L2ConfirmBlock_fence:
  assumes "applyConfirmedTransactions env core io bc (map Some (pendingBlock bc)) = (Inr True, bc1)"
    and "map txHash (pendingBlock (mid bc1)) \<noteq> map txHash (pendingBlock bc)"
  shows "\<exists>e bc'. L2ConfirmBlock env core io mid bc = (Inl e, bc') \<and> e \<in> {PendingChanged, PendingHashMismatch} \<and>
     blockHistory bc' = blockHistory (mid bc1) \<and> confirmedHashes bc' = confirmedHashes (mid bc1) \<and>
     mempool bc' = mempool (mid bc1) \<and> pendingBlock bc' = [] \<and>
     (l2bak (mid bc1) = l2bak bc1 \<and> ledger (mid bc1) \<and> ioRestore io = CopyOk \<longrightarrow> stateFile bc' = stateFile bc)"
proof -
  let ?f = "l2_fence io True (mid bc1)"
  have "ledger bc" using apply_success(1) [OF assms(1)] by simp
  then have bak: "l2bak bc1 = Some (stateFile bc)" using apply_success(2) [OF assms(1)] by simp
  have f: "blockHistory ?f = blockHistory (mid bc1)" "confirmedHashes ?f = confirmedHashes (mid bc1)"
    "mempool ?f = mempool (mid bc1)" "pendingBlock ?f = []"
    by (simp_all add: l2_fence_def Let_def)
  have "l2bak (mid bc1) = l2bak bc1 \<and> ledger (mid bc1) \<and> ioRestore io = CopyOk \<longrightarrow> stateFile ?f = stateFile bc"
    using bak by (auto simp: l2_fence_def Let_def restore_state_stateFile)
  moreover have "\<exists>e. l2_finish io (pendingBlock bc) True (mid bc1) = (Inl e, ?f) \<and> e \<in> {PendingChanged, PendingHashMismatch}"
    using assms(2) by (simp add: l2_finish_eq)
  ultimately show ?thesis using f by (auto simp: L2ConfirmBlock_def assms(1))
qed

theorem L2ConfirmBlock_fence_witness:
  "\<exists>e bc'. L2ConfirmBlock plain_env counting_core good_io (\<lambda>b. snd (AbandonPendingBlock b [])) pending_chain = (Inl e, bc') \<and>
     stateFile bc' = 40 \<and> blockHistory bc' = []"
proof -
  let ?bc1 = "pending_chain\<lparr>l2bak := Some 40, stateFile := 42\<rparr>"
  let ?m = "\<lambda>b :: nat Blockchain. snd (AbandonPendingBlock b [])"
  have "pendingBlock (?m ?bc1) = []" "l2bak (?m ?bc1) = l2bak ?bc1" "ledger (?m ?bc1)" "blockHistory (?m ?bc1) = []"
    by (simp_all add: AbandonPendingBlock_def Let_def pending_chain_simps)
  then show ?thesis
    using L2ConfirmBlock_fence [OF demo_apply, of ?m] by (auto simp: pending_chain_simps good_io_def)
qed

text \<open>
  C6: a peer cannot rewrite history. When the chain already has a block at a height, a peer's block for
  that height changes nothing at all: it is reported as known when the hashes agree and as a fork
  conflict otherwise, even when fork choice prefers it.
\<close>

theorem AddConfirmedBlock_no_reorg:
  assumes "b \<in> set (blockHistory bc)" and "bBlockNumber b = bBlockNumber block"
  shows "snd (AddConfirmedBlock env core io mid bc block txs) = bc \<and>
    (\<exists>first \<in> set (blockHistory bc). bBlockNumber first = bBlockNumber block \<and>
       fst (AddConfirmedBlock env core io mid bc block txs) =
         (if bBlockHash first = bBlockHash block then Inr None else Inl (ForkConflict (PreferBlock first block))))"
proof -
  obtain first where f: "find (\<lambda>b. bBlockNumber b = bBlockNumber block) (blockHistory bc) = Some first"
    using assms by (metis (mono_tags, lifting) find_None_iff2 not_None_eq)
  then have in_h: "first \<in> set (blockHistory bc)" "bBlockNumber first = bBlockNumber block"
    by (auto simp: find_Some_iff)
  show ?thesis
  proof (cases "bBlockHash first = bBlockHash block")
    case True
    then have "AddConfirmedBlock env core io mid bc block txs = (Inr None, bc)"
      using f by (simp add: AddConfirmedBlock_def peer_block_check_def)
    with True in_h show ?thesis by auto
  next
    case False
    then have "AddConfirmedBlock env core io mid bc block txs = (Inl (ForkConflict (PreferBlock first block)), bc)"
      using f by (simp add: AddConfirmedBlock_def peer_block_check_def)
    with False in_h show ?thesis by auto
  qed
qed

theorem AddConfirmedBlock_no_reorg_witness:
  "let bc = pending_chain\<lparr>blockHistory := [(new_block 0)\<lparr>bBlockHash := ''aa''\<rparr>]\<rparr>;
       peer = (new_block 0)\<lparr>bBlockHash := ''bb'', bL2Yes := 3\<rparr>
   in snd (AddConfirmedBlock plain_env counting_core good_io id bc peer []) = bc"
  using AddConfirmedBlock_no_reorg [of "(new_block 0)\<lparr>bBlockHash := ''aa''\<rparr>"
      "pending_chain\<lparr>blockHistory := [(new_block 0)\<lparr>bBlockHash := ''aa''\<rparr>]\<rparr>"
      "(new_block 0)\<lparr>bBlockHash := ''bb'', bL2Yes := 3\<rparr>" plain_env counting_core good_io id "[]"]
  unfolding Let_def by (simp add: pending_chain_simps)

text \<open>
  Remark: the legacy path \<open>ConfirmMempoolToChain\<close> does not mark what it confirms: a transaction it has just
  put into a block is admitted to the mempool again when its gossip arrives late.
\<close>

theorem ConfirmMempoolToChain_readmits:
  assumes "ConfirmMempoolToChain env core io id bc = (Inr (moved, block, backup), bc')"
    and "inflight_ok bc" and "pendingBlock bc = []" and "tx \<in> set (mempool bc)"
  shows "txHash tx \<in> set (bTxHashes block) \<and> block \<in> set (blockHistory bc') \<and> mempool bc' = [] \<and>
    AddToMempool bc' tx = (None, bc'\<lparr>mempool := [tx]\<rparr>)"
proof -
  obtain q bc0 where a: "applyConfirmedTransactions env core io bc (map Some (mempool bc)) = (q, bc0)" by fastforce
  note v = explorer_view_fields [OF apply_explorer_view [OF a]]
  let ?n = "blockCounter bc0" and ?fee = "\<lambda>tx. parseFee (txFee tx)"
  let ?bc2 = "(foldl (confirm_state_step False ?fee ?n) (bc0\<lparr>blockCounter := i64 (?n + 1)\<rparr>) (mempool bc0))\<lparr>mempool := []\<rparr>"
  let ?bl = "close_timestamp (ioNow io) ?bc2 (foldl (confirm_block_step ?fee) (new_block ?n) (mempool bc0))"
  obtain b where b: "q = Inr b" using assms(1) a by (cases q) (auto simp: ConfirmMempoolToChain_def)
  then have "persist_or_undo io b ToMempool ?bl (map (stamp ?n) (mempool bc0)) ?bc2 = (Inr (moved, block, backup), bc')"
    using assms(1) a by (simp add: ConfirmMempoolToChain_def Let_def)
  from persist_or_undo_success [OF this]
  have r: "block = ?bl" "bc' = snd (persistChain (ioPersist io) (?bc2\<lparr>blockHistory := blockHistory ?bc2 @ [?bl]\<rparr>))"
    by simp_all
  have "mempool bc' = []" "pendingBlock bc' = []" "confirmedHashes bc' = confirmedHashes bc"
    "block \<in> set (blockHistory bc')"
    by (simp_all add: r v assms(3))
  moreover have "txHash tx \<in> set (bTxHashes block)" using assms(4) by (simp add: r v)
  moreover have "txHash tx \<noteq> []" "txHash tx \<notin> confirmedHashes bc" using assms(2,4) by (auto simp: inflight_ok_def)
  ultimately show ?thesis by (simp add: AddToMempool_def)
qed

definition mempool_chain :: "nat Blockchain" where
  "mempool_chain = (NewBlockchain 40)\<lparr>ledger := True, mempool := [signed_tx ''h1'' 0]\<rparr>"

theorem ConfirmMempoolToChain_readmits_witness:
  "\<exists>moved block backup bc'. ConfirmMempoolToChain plain_env counting_core good_io id mempool_chain =
       (Inr (moved, block, backup), bc') \<and> ''h1'' \<in> set (bTxHashes block) \<and>
     mempool (snd (AddToMempool bc' (signed_tx ''h1'' 0))) = [signed_tx ''h1'' 0]"
proof -
  have m: "ledger mempool_chain" "mempool mempool_chain = [signed_tx ''h1'' 0]" "pendingBlock mempool_chain = []"
    "chainFile mempool_chain = []" "confirmedHashes mempool_chain = {}"
    by (simp_all add: mempool_chain_def NewBlockchain_def)
  obtain j where "ToCoreJSON (signed_tx ''h1'' 0) = Some j" using pending_chain_simps(12) by blast
  then have "\<exists>moved block backup bc'. ConfirmMempoolToChain plain_env counting_core good_io id mempool_chain =
      (Inr (moved, block, backup), bc')"
    by (simp add: ConfirmMempoolToChain_def applyConfirmedTransactions_def snapshot_state_def good_io_def
        demo_reorder execute_batch_def env_switches m pending_chain_simps counting_core_def FaucetAddress_def
        persist_or_undo_def persistChain_def Let_def) blast
  then obtain moved block backup bc' where
    *: "ConfirmMempoolToChain plain_env counting_core good_io id mempool_chain = (Inr (moved, block, backup), bc')"
    by blast
  have "inflight_ok mempool_chain" by (simp add: inflight_ok_def m pending_chain_simps)
  from ConfirmMempoolToChain_readmits [OF * this m(3), of "signed_tx ''h1'' 0"] * show ?thesis
    by (auto simp: m pending_chain_simps)
qed

text \<open>
  Remark: undoing a peer block that skipped heights does not restore the block counter. If the explorer file
  cannot be written after a block above the local counter was recorded, the block disappears from
  the history again, but the counter stays at the peer block's number, above where it was.
\<close>

lemma peer_state_simps:
  "blockHistory (peer_state block ts bc) = blockHistory bc @ [block]"
  "bBlockNumber block \<ge> 0 \<Longrightarrow> i64 (bBlockNumber block + 1) > blockCounter bc \<Longrightarrow>
     blockCounter (peer_state block ts bc) = i64 (bBlockNumber block + 1)"
  by (simp_all add: peer_state_def Let_def)

theorem AddConfirmedBlock_undo_keeps_gap:
  assumes "peer_block_check bc block = Inr True"
    and "applyConfirmedTransactions env core io bc txs = (Inr backup, bc0)"
    and "fst (persistChain (ioPersist io) (peer_state block (nonnil txs) bc0)) = Some e"
    and "\<not> peerConfirmInject (peer_state block (nonnil txs) bc0)"
    and "0 \<le> bBlockNumber block" "blockCounter bc < bBlockNumber block" "bBlockNumber block < 2 ^ 63 - 1"
  shows "\<exists>bc'. AddConfirmedBlock env core io id bc block txs = (Inl (ExplorerPersist e), bc') \<and>
     blockHistory bc' = blockHistory bc \<and> blockCounter bc' = bBlockNumber block \<and> blockCounter bc' > blockCounter bc"
proof -
  note v = explorer_view_fields [OF apply_explorer_view [OF assms(2)]]
  let ?p = "peer_state block (nonnil txs) bc0"
  let ?q = "snd (persistChain (ioPersist io) ?p)"
  let ?moved = "map (stamp (bBlockNumber block)) (nonnil txs)"
  let ?r = "snd (rollbackConfirmLocked io block ?moved backup ToMempool ?q)"
  have i: "i64 (bBlockNumber block + 1) = bBlockNumber block + 1" using assms(5,7) by (simp add: in_i64_def)
  have h: "blockHistory ?q = blockHistory bc @ [block]" "blockCounter ?q = i64 (bBlockNumber block + 1)"
    using assms(5,6) by (simp_all add: peer_state_simps v i)
  have r: "?r = undone io backup ToMempool block ?moved ?q"
    by (simp add: rollbackConfirmLocked_def undone_def case_prod_beta Let_def)
  have "blockHistory ?r = blockHistory bc" "blockCounter ?r = bBlockNumber block"
    unfolding r using undone_tip [OF h(1) refl h(2)] by simp_all
  moreover have "AddConfirmedBlock env core io id bc block txs = (Inl (ExplorerPersist e), ?r)"
    using assms(1-4) by (simp add: AddConfirmedBlock_def Let_def case_prod_beta)
  ultimately show ?thesis using assms(6) by auto
qed

definition gap_chain :: "nat Blockchain" where
  "gap_chain = (NewBlockchain 40)\<lparr>explorerOnlyConfirm := True, chainFile := ''chain.json'', blockCounter := 5\<rparr>"

theorem AddConfirmedBlock_undo_keeps_gap_witness:
  "\<exists>bc'. AddConfirmedBlock plain_env counting_core (good_io\<lparr>ioPersist := False\<rparr>) id gap_chain (new_block 10) [] =
     (Inl (ExplorerPersist WriteFailed), bc') \<and> blockCounter gap_chain = 5 \<and> blockCounter bc' = 10"
proof -
  let ?io = "good_io\<lparr>ioPersist := False\<rparr>"
  have g: "\<not> ledger gap_chain" "explorerOnlyConfirm gap_chain" "blockHistory gap_chain = []" "chainFile gap_chain \<noteq> []"
    "blockCounter gap_chain = 5" "durableHead gap_chain = -1" "\<not> peerConfirmInject gap_chain"
    by (simp_all add: gap_chain_def NewBlockchain_def)
  have "peer_block_check gap_chain (new_block 10) = Inr True" by (simp add: peer_block_check_def g)
  moreover have "applyConfirmedTransactions plain_env counting_core ?io gap_chain [] = (Inr False, gap_chain)"
    by (simp add: applyConfirmedTransactions_def g)
  moreover have "fst (persistChain (ioPersist ?io) (peer_state (new_block 10) (nonnil []) gap_chain)) = Some WriteFailed"
    by (simp add: persistChain_fst peer_state_def Let_def g)
  moreover have "\<not> peerConfirmInject (peer_state (new_block 10) (nonnil []) gap_chain)"
    by (simp add: peer_state_def Let_def g)
  ultimately have "\<exists>bc'. AddConfirmedBlock plain_env counting_core ?io id gap_chain (new_block 10) [] =
      (Inl (ExplorerPersist WriteFailed), bc') \<and> blockHistory bc' = blockHistory gap_chain \<and>
      blockCounter bc' = bBlockNumber (new_block 10) \<and> blockCounter bc' > blockCounter gap_chain"
    by (rule AddConfirmedBlock_undo_keeps_gap) (simp_all add: g)
  then show ?thesis by (auto simp: g)
qed

end
