(* ===== verification/Chain_Store.thy ===== *)
theory Chain_Store
  imports Confirm
begin

text \<open>
  The chain across a restart (\<^verbatim>\<open>internal/blockchain/chain_store.go\<close>, \<^verbatim>\<open>txpool_restore.go\<close>,
  \<^verbatim>\<open>rocks_reads.go\<close>): loading the snapshot, rebuilding block rows from the index, the durable pool and
  putting unconfirmed transactions back.

  \<open>rocksHead\<close> is what \<open>headBlockNumberFromRocks\<close> returns (\<open>None\<close>: not available). A loop over a Go map
  runs in the order of the association list; the map \<open>seen\<close> of \<open>RestoreDurableTxs\<close> is read in the order
  given by the argument \<open>order\<close>.
\<close>

subsection \<open>Rebuilding block rows\<close>

record built =
  builtHashes :: "string list"
  builtTs :: int
  builtFees :: int

text \<open>\<open>index[n]\<close>: the last position with that block number.\<close>

fun last_index :: "int \<Rightarrow> nat \<Rightarrow> BlockRecord list \<Rightarrow> nat option" where
  "last_index n i [] = None"
| "last_index n i (b # bs) =
     (case last_index n (Suc i) bs of
        Some j \<Rightarrow> Some j
      | None \<Rightarrow> if bBlockNumber b = n then Some i else None)"

definition add_hash :: "string \<Rightarrow> BlockRecord \<Rightarrow> BlockRecord" where
  "add_hash h b =
     (if h \<in> set (bTxHashes b) then b
      else b\<lparr>bTxHashes := bTxHashes b @ [h], bTxCount := int (length (bTxHashes b)) + 1\<rparr>)"

definition attach_step ::
  "(int \<Rightarrow> nat option) \<Rightarrow> BlockRecord list \<times> (int \<times> built) list \<Rightarrow> Transaction
   \<Rightarrow> BlockRecord list \<times> (int \<times> built) list" where
  "attach_step index acc tx =
     (let (bs, missing) = acc
      in if txHash tx = [] \<or> txBlockNumber tx \<le> 0 then acc
         else case index (txBlockNumber tx) of
             Some i \<Rightarrow> (bs[i := add_hash (txHash tx) (bs ! i)], missing)
           | None \<Rightarrow>
               (let row = (case map_of missing (txBlockNumber tx) of
                       None \<Rightarrow> \<lparr>builtHashes = [], builtTs = 0, builtFees = 0\<rparr> | Some r \<Rightarrow> r);
                    row' = \<lparr>builtHashes = builtHashes row @ [txHash tx],
                            builtTs = (if txTimestamp tx > builtTs row then txTimestamp tx else builtTs row),
                            builtFees = i64 (builtFees row + sint (txFeeUplp tx))\<rparr>
                in (bs, AList.update (txBlockNumber tx) row' missing)))"

definition built_block :: "int \<times> built \<Rightarrow> BlockRecord" where
  "built_block p =
     block0\<lparr>bBlockNumber := fst p, bTimestamp := builtTs (snd p), bTxHashes := builtHashes (snd p),
            bTxCount := int (length (builtHashes (snd p))), bTotalFees := builtFees (snd p)\<rparr>"

definition attachConfirmedTxsToHistoryLocked :: "'c Blockchain \<Rightarrow> 'c Blockchain" where
  "attachConfirmedTxsToHistoryLocked bc =
     (let index = (\<lambda>n. last_index n 0 (blockHistory bc));
          (bs, missing) = foldl (attach_step index) (blockHistory bc, []) (map snd (transactions bc));
          bc1 = bc\<lparr>blockHistory := bs\<rparr>
      in if missing = [] then bc1
         else
           let bs' = sort_key bBlockNumber (bs @ map built_block (sort_key fst missing));
               h = historyHead bs';
               bc2 = bc1\<lparr>blockHistory := bs',
                         blockCounter := (if h \<ge> 0 \<and> blockCounter bc1 \<le> h then i64 (h + 1) else blockCounter bc1)\<rparr>
           in noteDurableHeadLocked bc2)"

subsection \<open>Loading the snapshot\<close>

datatype chain_read = FileMissing | FileUnreadable | FileCorrupt | FileParsed int ChainFileData

datatype load_error = ReadChainFile | ParseChainFile | UnsupportedVersion int

definition chainFileVersion :: int where
  "chainFileVersion = 1"

definition load_step :: "'c Blockchain \<Rightarrow> Transaction \<Rightarrow> 'c Blockchain" where
  "load_step bc tx =
     (if txHash tx = [] then bc
      else bc\<lparr>transactions := AList.update (txHash tx) tx (transactions bc),
              confirmedHashes := (if txBlockNumber tx \<ge> 0 then insert (txHash tx) (confirmedHashes bc)
                                  else confirmedHashes bc),
              lastTx := Some tx,
              addressTxs := append_address (txTo tx) tx (append_address (txFrom tx) tx (addressTxs bc))\<rparr>)"

definition LoadChainFile :: "chain_read \<Rightarrow> string \<Rightarrow> 'c Blockchain \<Rightarrow> load_error option \<times> 'c Blockchain" where
  "LoadChainFile content path bc =
     (case content of
        FileMissing \<Rightarrow> (None, bc)
      | FileUnreadable \<Rightarrow> (Some ReadChainFile, bc)
      | FileCorrupt \<Rightarrow> (Some ParseChainFile, bc)
      | FileParsed version file \<Rightarrow>
          (if version \<noteq> chainFileVersion then (Some (UnsupportedVersion version), bc)
           else
             let bc1 = bc\<lparr>blockCounter := cfBlockCounter file, totalFeesCollected := cfTotalFeesCollected file,
                    blockHistory := cfBlocks file, transactions := [], addressTxs := (\<lambda>_. []),
                    confirmedHashes := {}\<rparr>;
                 bc2 = foldl load_step bc1 (cfTransactions file);
                 bc3 = noteDurableHeadLocked (attachConfirmedTxsToHistoryLocked bc2)
             in (None, bc3\<lparr>chainFile := path\<rparr>)))"

definition SetChainFile :: "'c Blockchain \<Rightarrow> string \<Rightarrow> 'c Blockchain" where
  "SetChainFile bc path = bc\<lparr>chainFile := path\<rparr>"

definition MemoryHeadBlockNumber :: "'c Blockchain \<Rightarrow> int" where
  "MemoryHeadBlockNumber bc = historyHead (blockHistory bc)"

definition ChainCacheLeadsRocks :: "int option \<Rightarrow> 'c Blockchain \<Rightarrow> int \<times> int \<times> bool" where
  "ChainCacheLeadsRocks rocksHead bc =
     (let mem = MemoryHeadBlockNumber bc
      in case rocksHead of None \<Rightarrow> (mem, -1, False) | Some r \<Rightarrow> (mem, r, mem > r))"

subsection \<open>The durable pool\<close>

definition SaveAdmittedTx :: "bool \<Rightarrow> bool \<Rightarrow> 'c Blockchain \<Rightarrow> Transaction \<Rightarrow> 'c Blockchain" where
  "SaveAdmittedTx write_ok rename_ok bc tx =
     (if txHash tx = [] then bc
      else case txPool bc of
          None \<Rightarrow> bc
        | Some pool \<Rightarrow>
            (if txHash tx \<in> confirmedHashes bc then bc
             else bc\<lparr>txPool := Some (snd (pool_Put write_ok rename_ok pool (txHash tx) tx))\<rparr>))"

definition ForgetTxPool :: "(string \<Rightarrow> bool) \<Rightarrow> 'c Blockchain \<Rightarrow> string list \<Rightarrow> 'c Blockchain" where
  "ForgetTxPool rm bc hashes =
     bc\<lparr>txPool := map_option (fold (\<lambda>h p. snd (pool_Delete (rm h) p h)) hashes) (txPool bc)\<rparr>"

text \<open>The pool listing keyed by the stored transaction's own hash; the last file of a hash wins.\<close>

definition pooled_of :: "Transaction pool \<Rightarrow> (string \<times> Transaction) list" where
  "pooled_of pool =
     fold (\<lambda>(hash, tx). let tx' = (if txHash tx = [] then tx\<lparr>txHash := hash\<rparr> else tx)
                         in AList.update (txHash tx') tx') (pool_List pool) []"

definition canonical_hashes :: "BlockRecord list \<Rightarrow> string set" where
  "canonical_hashes bs = set (filter (\<lambda>h. h \<noteq> []) (concat (map bTxHashes bs)))"

record 'c restore_acc =
  raChain :: "'c Blockchain"
  raInFlight :: "string set"
  raRestored :: "Transaction list"
  raForget :: "string list"

definition restore_one :: "string set \<Rightarrow> int \<Rightarrow> 'c restore_acc \<Rightarrow> string \<times> Transaction \<Rightarrow> 'c restore_acc" where
  "restore_one canonical headTs acc p =
     (let (hash, tx) = p; bc = raChain acc; cur = map_of (transactions bc) hash;
          stampTs = (case cur of Some c \<Rightarrow> (if txTimestamp c > txTimestamp tx then txTimestamp c else txTimestamp tx)
                              | None \<Rightarrow> txTimestamp tx)
      in if hash = [] then acc
         else if hash \<in> canonical then acc\<lparr>raForget := raForget acc @ [hash]\<rparr>
         else if txFrom tx = FaucetAddress \<or> txType tx = ''faucet'' \<or> txSigMain tx = [] then acc
         else if headTs > 0 \<and> stampTs > 0 \<and> stampTs \<le> headTs then acc\<lparr>raForget := raForget acc @ [hash]\<rparr>
         else
           let current = stamp 0 (case cur of Some c \<Rightarrow> c | None \<Rightarrow> tx);
               idx1 = (if cur = None \<and> txFrom tx \<noteq> [] then append_address (txFrom tx) current (addressTxs bc)
                       else addressTxs bc);
               idx2 = (if cur = None \<and> txTo tx \<noteq> [] \<and> txTo tx \<noteq> txFrom tx then append_address (txTo tx) current idx1
                       else idx1);
               bc1 = bc\<lparr>transactions := AList.update hash current (transactions bc), addressTxs := idx2,
                        confirmedHashes := confirmedHashes bc - {hash},
                        mempool := (if hash \<in> raInFlight acc then mempool bc else mempool bc @ [current])\<rparr>
           in acc\<lparr>raChain := bc1, raInFlight := insert hash (raInFlight acc),
                  raRestored := raRestored acc @ [current]\<rparr>)"

definition drop_lead :: "int option \<Rightarrow> 'c Blockchain \<Rightarrow> 'c Blockchain" where
  "drop_lead rocksHead bc =
     (case rocksHead of
        None \<Rightarrow> bc
      | Some r \<Rightarrow>
          (if list_ex (\<lambda>b. bBlockNumber b > r) (blockHistory bc)
           then let kept = filter (\<lambda>b. \<not> bBlockNumber b > r) (blockHistory bc)
                in bc\<lparr>blockHistory := kept, durableHead := historyHead kept, blockCounter := i64 (r + 1)\<rparr>
           else bc))"

definition RestoreDurableTxs ::
  "int option \<Rightarrow> ((string \<times> Transaction) list \<Rightarrow> (string \<times> Transaction) list) \<Rightarrow> (string \<Rightarrow> bool) \<Rightarrow> (string \<Rightarrow> bool)
   \<Rightarrow> bool \<Rightarrow> 'c Blockchain \<Rightarrow> nat \<times> 'c Blockchain" where
  "RestoreDurableTxs rocksHead order rm put_ok persist_ok bc =
     (let pooled = (case txPool bc of None \<Rightarrow> [] | Some pool \<Rightarrow> pooled_of pool);
          bc1 = drop_lead rocksHead bc;
          kept = blockHistory bc1;
          canonical = canonical_hashes kept;
          headTs = foldl max 0 (map bTimestamp kept);
          seen = pooled @ filter (\<lambda>(h, tx). h \<noteq> [] \<and> map_of pooled h = None \<and> h \<notin> canonical) (transactions bc1);
          acc = foldl (restore_one canonical headTs)
                  \<lparr>raChain = bc1, raInFlight = {h \<in> set (map txHash (inflight bc1)). h \<noteq> []},
                   raRestored = [], raForget = []\<rparr> (order seen);
          bc2 = (raChain acc)\<lparr>txPool := map_option (\<lambda>pool.
                  fold (\<lambda>tx p. snd (pool_Put (put_ok (txHash tx)) (put_ok (txHash tx)) p (txHash tx) tx)) (raRestored acc)
                    (fold (\<lambda>h p. snd (pool_Delete (rm h) p h)) (raForget acc) pool)) (txPool (raChain acc))\<rparr>;
          lead = (case rocksHead of None \<Rightarrow> False | Some r \<Rightarrow> list_ex (\<lambda>b. bBlockNumber b > r) (blockHistory bc));
          bc3 = (if lead then snd (persistChain persist_ok bc2) else bc2)
      in (length (raRestored acc), bc3))"

subsection \<open>A consistent snapshot survives the restart\<close>

text \<open>The index is keyed by hash, and every indexed transaction with a positive block number is listed
  in the block it names.\<close>

definition index_keyed :: "(string \<times> Transaction) list \<Rightarrow> bool" where
  "index_keyed m \<longleftrightarrow> wf_map m \<and> (\<forall>(h, tx) \<in> set m. txHash tx = h \<and> h \<noteq> [])"

definition listed :: "BlockRecord list \<Rightarrow> Transaction \<Rightarrow> bool" where
  "listed bs tx \<longleftrightarrow> txBlockNumber tx > 0 \<longrightarrow>
     (case last_index (txBlockNumber tx) 0 bs of None \<Rightarrow> False | Some i \<Rightarrow> txHash tx \<in> set (bTxHashes (bs ! i)))"

lemma attach_step_listed:
  assumes "listed bs tx"
  shows "attach_step (\<lambda>n. last_index n 0 bs) (bs, []) tx = (bs, [])"
  using assms by (auto simp: attach_step_def listed_def add_hash_def split: option.splits)

lemma attach_fold_listed:
  "\<forall>tx \<in> set txs. listed bs tx \<Longrightarrow> foldl (attach_step (\<lambda>n. last_index n 0 bs)) (bs, []) txs = (bs, [])"
  by (induction txs) (simp_all add: attach_step_listed)

lemma attach_noop:
  assumes "\<forall>(h, tx) \<in> set (transactions bc). listed (blockHistory bc) tx"
  shows "attachConfirmedTxsToHistoryLocked bc = bc\<lparr>blockHistory := blockHistory bc\<rparr>"
proof -
  have "\<forall>tx \<in> set (map snd (transactions bc)). listed (blockHistory bc) tx" using assms by auto
  from attach_fold_listed [OF this] show ?thesis
    by (simp add: attachConfirmedTxsToHistoryLocked_def)
qed

lemma attach_frame [simp]:
  "transactions (attachConfirmedTxsToHistoryLocked bc) = transactions bc"
  "confirmedHashes (attachConfirmedTxsToHistoryLocked bc) = confirmedHashes bc"
  "mempool (attachConfirmedTxsToHistoryLocked bc) = mempool bc"
  "pendingBlock (attachConfirmedTxsToHistoryLocked bc) = pendingBlock bc"
  by (simp_all add: attachConfirmedTxsToHistoryLocked_def Let_def case_prod_beta noteDurableHeadLocked_def)

lemma noteDurableHead_frame [simp]:
  "transactions (noteDurableHeadLocked bc) = transactions bc"
  "confirmedHashes (noteDurableHeadLocked bc) = confirmedHashes bc"
  "mempool (noteDurableHeadLocked bc) = mempool bc"
  "pendingBlock (noteDurableHeadLocked bc) = pendingBlock bc"
  "blockHistory (noteDurableHeadLocked bc) = blockHistory bc"
  "blockCounter (noteDurableHeadLocked bc) = blockCounter bc"
  "totalFeesCollected (noteDurableHeadLocked bc) = totalFeesCollected bc"
  "durableHead (noteDurableHeadLocked bc) = max (durableHead bc) (historyHead (blockHistory bc))"
  by (simp_all add: noteDurableHeadLocked_def Let_def)

lemma load_fold_frame [simp]:
  "blockHistory (foldl load_step bc txs) = blockHistory bc"
  "blockCounter (foldl load_step bc txs) = blockCounter bc"
  "totalFeesCollected (foldl load_step bc txs) = totalFeesCollected bc"
  "durableHead (foldl load_step bc txs) = durableHead bc"
  "mempool (foldl load_step bc txs) = mempool bc"
  "pendingBlock (foldl load_step bc txs) = pendingBlock bc"
  by (induction txs arbitrary: bc) (simp_all add: load_step_def)

lemma load_fold_index:
  "\<forall>tx \<in> set txs. txHash tx \<noteq> [] \<Longrightarrow>
   map_of (transactions (foldl load_step bc txs)) =
   map_of (transactions bc) ++ map_of (rev (map (\<lambda>tx. (txHash tx, tx)) txs))"
proof (induction txs arbitrary: bc)
  case (Cons tx txs)
  then show ?case
    by (simp add: load_step_def map_add_assoc [symmetric])
qed simp

lemma load_fold_confirmed:
  "confirmedHashes (foldl load_step bc txs) =
   confirmedHashes bc \<union> {txHash tx | tx. tx \<in> set txs \<and> txHash tx \<noteq> [] \<and> txBlockNumber tx \<ge> 0}"
  by (induction txs arbitrary: bc) (auto simp: load_step_def)

lemma load_fold_values:
  "(h, tx) \<in> set (transactions (foldl load_step bc txs)) \<Longrightarrow>
   (h, tx) \<in> set (transactions bc) \<or> tx \<in> set txs \<and> txHash tx = h \<and> h \<noteq> []"
proof (induction txs arbitrary: bc)
  case (Cons t txs)
  then have "(h, tx) \<in> set (transactions (load_step bc t)) \<or> tx \<in> set txs \<and> txHash tx = h \<and> h \<noteq> []" by simp
  moreover have "(h, tx) \<in> set (transactions (load_step bc t)) \<Longrightarrow>
      (h, tx) \<in> set (transactions bc) \<or> tx = t \<and> txHash tx = h \<and> h \<noteq> []"
    by (auto simp: load_step_def split: if_splits dest: update_elem)
  ultimately show ?case by auto
qed simp

subsection \<open>What the restore puts back\<close>

text \<open>The invariant of the restore loop: the blocks stay, and what was added to the mempool is signed,
  in no remaining block and not marked confirmed.\<close>

definition restore_inv :: "'c Blockchain \<Rightarrow> string set \<Rightarrow> 'c restore_acc \<Rightarrow> bool" where
  "restore_inv bc canonical acc \<longleftrightarrow>
     blockHistory (raChain acc) = blockHistory bc \<and>
     (\<forall>(h, tx) \<in> set (transactions (raChain acc)). txHash tx = h) \<and>
     (\<exists>new. mempool (raChain acc) = mempool bc @ new \<and>
       (\<forall>tx \<in> set new. txHash tx \<notin> canonical \<and> txHash tx \<notin> confirmedHashes (raChain acc) \<and> txBlockNumber tx = 0 \<and>
          txHash tx \<in> raInFlight acc) \<and>
       distinct (map txHash new) \<and> set (map txHash new) \<inter> set (map txHash (mempool bc)) = {} \<and>
       {h \<in> set (map txHash (mempool bc)). h \<noteq> []} \<subseteq> raInFlight acc)"

text \<open>The last branch of \<open>restore_one\<close>, on its own.\<close>

definition put_back :: "'c restore_acc \<Rightarrow> string \<Rightarrow> Transaction \<Rightarrow> (string \<Rightarrow> Transaction list) \<Rightarrow> 'c restore_acc" where
  "put_back acc hash current idx =
     acc\<lparr>raChain := (raChain acc)\<lparr>transactions := AList.update hash current (transactions (raChain acc)),
            addressTxs := idx, confirmedHashes := confirmedHashes (raChain acc) - {hash},
            mempool := (if hash \<in> raInFlight acc then mempool (raChain acc)
                        else mempool (raChain acc) @ [current])\<rparr>,
         raInFlight := insert hash (raInFlight acc), raRestored := raRestored acc @ [current]\<rparr>"

lemma restore_one_cases:
  obtains (unchanged) "raChain (restore_one canonical headTs acc (hash, tx)) = raChain acc"
      "raInFlight (restore_one canonical headTs acc (hash, tx)) = raInFlight acc"
  | (put) idx where "hash \<noteq> []" "hash \<notin> canonical"
      "restore_one canonical headTs acc (hash, tx) =
        put_back acc hash (stamp 0 (case map_of (transactions (raChain acc)) hash of Some c \<Rightarrow> c | None \<Rightarrow> tx)) idx"
proof -
  let ?r = "restore_one canonical headTs acc (hash, tx)"
  let ?cur = "map_of (transactions (raChain acc)) hash"
  let ?ts = "case ?cur of Some c \<Rightarrow> (if txTimestamp c > txTimestamp tx then txTimestamp c else txTimestamp tx)
                        | None \<Rightarrow> txTimestamp tx"
  show thesis
  proof (cases "hash = [] \<or> hash \<in> canonical \<or> txFrom tx = FaucetAddress \<or> txType tx = ''faucet'' \<or>
      txSigMain tx = [] \<or> headTs > 0 \<and> ?ts > 0 \<and> ?ts \<le> headTs")
    case True
    then have "raChain ?r = raChain acc" "raInFlight ?r = raInFlight acc"
      by (auto simp: restore_one_def Let_def)
    then show ?thesis by (rule unchanged)
  next
    case False
    define current where "current = stamp 0 (case ?cur of Some c \<Rightarrow> c | None \<Rightarrow> tx)"
    define idx1 where "idx1 = (if ?cur = None \<and> txFrom tx \<noteq> [] then append_address (txFrom tx) current (addressTxs (raChain acc))
       else addressTxs (raChain acc))"
    define idx2 where "idx2 = (if ?cur = None \<and> txTo tx \<noteq> [] \<and> txTo tx \<noteq> txFrom tx then append_address (txTo tx) current idx1 else idx1)"
    have "?r = put_back acc hash current idx2"
      unfolding restore_one_def Let_def prod.case put_back_def
      using False by (simp only: current_def idx1_def idx2_def simp_thms if_False de_Morgan_disj)
    with False show ?thesis unfolding current_def by (intro put) simp_all
  qed
qed

lemma restore_inv_put_back:
  assumes inv: "restore_inv bc canonical acc" and "hash \<notin> canonical" "hash \<noteq> []" "txHash current = hash"
    and "txBlockNumber current = 0"
  shows "restore_inv bc canonical (put_back acc hash current idx)"
proof -
  from inv obtain new where n: "mempool (raChain acc) = mempool bc @ new"
    "\<forall>tx \<in> set new. txHash tx \<notin> canonical \<and> txHash tx \<notin> confirmedHashes (raChain acc) \<and> txBlockNumber tx = 0 \<and>
       txHash tx \<in> raInFlight acc"
    "distinct (map txHash new)" "set (map txHash new) \<inter> set (map txHash (mempool bc)) = {}"
    "{h \<in> set (map txHash (mempool bc)). h \<noteq> []} \<subseteq> raInFlight acc"
    unfolding restore_inv_def by blast
  let ?new = "if hash \<in> raInFlight acc then new else new @ [current]"
  have keys: "\<forall>(h, tx) \<in> set (AList.update hash current (transactions (raChain acc))). txHash tx = h"
    using inv assms(4) by (auto simp: restore_inv_def dest: update_elem)
  have "mempool (raChain (put_back acc hash current idx)) = mempool bc @ ?new"
    by (simp add: put_back_def n(1))
  moreover have "\<forall>tx \<in> set ?new. txHash tx \<notin> canonical \<and>
      txHash tx \<notin> confirmedHashes (raChain (put_back acc hash current idx)) \<and> txBlockNumber tx = 0 \<and>
      txHash tx \<in> raInFlight (put_back acc hash current idx)"
    using n(2) assms by (auto simp: put_back_def)
  moreover have "distinct (map txHash ?new)" "set (map txHash ?new) \<inter> set (map txHash (mempool bc)) = {}"
    using n(2-5) assms(3,4) by (auto simp: image_iff)
  moreover have "{h \<in> set (map txHash (mempool bc)). h \<noteq> []} \<subseteq> raInFlight (put_back acc hash current idx)"
    using n(5) by (auto simp: put_back_def)
  moreover have "blockHistory (raChain (put_back acc hash current idx)) = blockHistory bc"
    using inv by (simp add: put_back_def restore_inv_def)
  ultimately show ?thesis using keys unfolding restore_inv_def by (auto simp: put_back_def)
qed

lemma restore_inv_step:
  assumes inv: "restore_inv bc canonical acc" and key: "txHash tx = hash"
  shows "restore_inv bc canonical (restore_one canonical headTs acc (hash, tx))"
proof (cases rule: restore_one_cases [of canonical headTs acc hash tx])
  case unchanged
  with inv show ?thesis by (simp add: restore_inv_def)
next
  case (put idx)
  let ?c = "case map_of (transactions (raChain acc)) hash of Some c \<Rightarrow> c | None \<Rightarrow> tx"
  have "txHash ?c = hash"
    using inv key by (auto simp: restore_inv_def split: option.splits dest: map_of_SomeD)
  then show ?thesis
    unfolding put(3) using put(1,2) by (intro restore_inv_put_back [OF inv]) (simp_all add: stamp_def)
qed

lemma restore_inv_run:
  "restore_inv bc canonical acc \<Longrightarrow> \<forall>(h, tx) \<in> set seen. txHash tx = h \<Longrightarrow>
   restore_inv bc canonical (foldl (restore_one canonical headTs) acc seen)"
proof (induction seen arbitrary: acc)
  case (Cons p seen)
  then show ?case by (cases p) (simp add: restore_inv_step)
qed simp

subsection \<open>Properties\<close>

text \<open>
  Remark: a restart loses nothing of a consistent chain. Writing the snapshot and loading it into a fresh
  node gives back the block history, the counter, the fee total and the transaction index, and the
  durable head is the highest block, so a later write cannot shrink the chain.
\<close>

theorem persist_load_roundtrip:
  assumes "chainFile bc \<noteq> []" and "index_keyed (transactions bc)"
    and "\<forall>(h, tx) \<in> set (transactions bc). listed (blockHistory bc) tx"
    and "fst (persistChain True bc) = None"
  shows "\<exists>file bc'. chainDisk (snd (persistChain True bc)) = Some file \<and>
     LoadChainFile (FileParsed chainFileVersion file) path (NewBlockchain c) = (None, bc') \<and>
     blockHistory bc' = blockHistory bc \<and> blockCounter bc' = blockCounter bc \<and>
     totalFeesCollected bc' = totalFeesCollected bc \<and> map_of (transactions bc') = map_of (transactions bc) \<and>
     durableHead bc' = historyHead (blockHistory bc) \<and> chainFile bc' = path"
proof -
  let ?file = "\<lparr>cfBlockCounter = blockCounter bc, cfTotalFeesCollected = totalFeesCollected bc,
      cfBlocks = blockHistory bc, cfTransactions = map snd (transactions bc)\<rparr>"
  have disk: "chainDisk (snd (persistChain True bc)) = Some ?file"
    using assms(1,4) by (simp add: persistChain_chainDisk)
  let ?bc1 = "(NewBlockchain c)\<lparr>blockCounter := blockCounter bc, totalFeesCollected := totalFeesCollected bc,
      blockHistory := blockHistory bc, transactions := [], addressTxs := (\<lambda>_. []), confirmedHashes := {}\<rparr>"
  let ?bc2 = "foldl load_step ?bc1 (map snd (transactions bc))"
  have keys: "map (\<lambda>tx. (txHash tx, tx)) (map snd (transactions bc)) = transactions bc"
    using assms(2) unfolding map_map by (intro map_idI) (auto simp: index_keyed_def)
  have "map_of (transactions ?bc2) = map_of (rev (transactions bc))"
    using assms(2) by (subst load_fold_index) (auto simp: index_keyed_def keys [unfolded map_map])
  also have "\<dots> = map_of (transactions bc)"
    using assms(2) by (intro map_of_rev_wf) (simp add: index_keyed_def)
  finally have idx: "map_of (transactions ?bc2) = map_of (transactions bc)" .
  have "listed (blockHistory ?bc2) tx" if "(h, tx) \<in> set (transactions ?bc2)" for h tx
    using load_fold_values [OF that] assms(3) by auto
  then have att: "attachConfirmedTxsToHistoryLocked ?bc2 = ?bc2\<lparr>blockHistory := blockHistory ?bc2\<rparr>"
    by (intro attach_noop) auto
  define bc' where "bc' = (noteDurableHeadLocked (?bc2\<lparr>blockHistory := blockHistory ?bc2\<rparr>))\<lparr>chainFile := path\<rparr>"
  have "LoadChainFile (FileParsed chainFileVersion ?file) path (NewBlockchain c) = (None, bc')"
    unfolding bc'_def att [symmetric] by (simp add: LoadChainFile_def Let_def)
  moreover have "durableHead bc' = historyHead (blockHistory bc)"
    using historyHead_ge [of "blockHistory bc"] by (simp add: bc'_def NewBlockchain_def)
  ultimately show ?thesis using disk idx by (intro exI [of _ ?file] exI [of _ bc']) (simp add: bc'_def)
qed

lemma demo_listed_chain:
  "listed [(new_block 0)\<lparr>bTxHashes := [''h1'']\<rparr>] (signed_tx ''h1'' 0)"
  by (simp add: listed_def signed_tx_def tx0_def)

theorem persist_load_roundtrip_witness:
  "\<exists>file bc'. chainDisk (snd (persistChain True (pending_chain\<lparr>chainFile := ''c'',
        blockHistory := [(new_block 0)\<lparr>bTxHashes := [''h1'']\<rparr>],
        transactions := [(''h1'', signed_tx ''h1'' 0)]\<rparr>))) = Some file \<and>
     LoadChainFile (FileParsed chainFileVersion file) ''c'' (NewBlockchain (40 :: nat)) = (None, bc') \<and>
     map_of (transactions bc') = [''h1'' \<mapsto> signed_tx ''h1'' 0]"
  using persist_load_roundtrip [of "pending_chain\<lparr>chainFile := ''c'',
      blockHistory := [(new_block 0)\<lparr>bTxHashes := [''h1'']\<rparr>],
      transactions := [(''h1'', signed_tx ''h1'' 0)]\<rparr>" "''c''" 40]
  by (auto simp: index_keyed_def demo_listed_chain pending_chain_simps persistChain_fst historyHead_def
      pending_chain_def NewBlockchain_def)

text \<open>
  Remark: loading the snapshot marks every indexed transaction with a block number of 0 as confirmed, so the
  re-queueing of escrows that follows a restart finds no candidate, although unconfirmed escrows are
  what it is there for.
\<close>

theorem LoadChainFile_blocks_requeue:
  assumes "\<forall>tx \<in> set (cfTransactions file). txBlockNumber tx \<ge> 0"
  shows "requeue_candidates now (snd (LoadChainFile (FileParsed chainFileVersion file) path bc)) = []"
proof -
  let ?bc1 = "bc\<lparr>blockCounter := cfBlockCounter file, totalFeesCollected := cfTotalFeesCollected file,
      blockHistory := cfBlocks file, transactions := [], addressTxs := (\<lambda>_. []), confirmedHashes := {}\<rparr>"
  let ?bc' = "snd (LoadChainFile (FileParsed chainFileVersion file) path bc)"
  have t: "transactions ?bc' = transactions (foldl load_step ?bc1 (cfTransactions file))"
    and c: "confirmedHashes ?bc' = confirmedHashes (foldl load_step ?bc1 (cfTransactions file))"
    by (simp_all add: LoadChainFile_def Let_def)
  have "txHash tx \<in> confirmedHashes ?bc'" if "(h, tx) \<in> set (transactions ?bc')" for h tx
    using load_fold_values [OF that [unfolded t]] assms by (auto simp: c load_fold_confirmed)
  then have "set (requeue_candidates now ?bc') = {}" by (auto simp: requeue_candidates_def)
  then show ?thesis by simp
qed

theorem LoadChainFile_blocks_requeue_witness:
  "let lock = (signed_tx ''h1'' 0)\<lparr>txType := ''escrow_lock''\<rparr>;
       file = \<lparr>cfBlockCounter = 0, cfTotalFeesCollected = 0, cfBlocks = [], cfTransactions = [lock]\<rparr>
   in escrowAwaitingBlock lock \<and>
      requeue_candidates 8 (snd (LoadChainFile (FileParsed chainFileVersion file) ''c'' (NewBlockchain (40 :: nat)))) = []"
  using LoadChainFile_blocks_requeue [of "\<lparr>cfBlockCounter = 0, cfTotalFeesCollected = 0, cfBlocks = [],
      cfTransactions = [(signed_tx ''h1'' 0)\<lparr>txType := ''escrow_lock''\<rparr>]\<rparr>" 8 "''c''" "NewBlockchain 40"]
  by (simp add: escrowAwaitingBlock_def signed_tx_def tx0_def)

lemma pooled_of_keyed: "\<forall>(h, tx) \<in> set (pooled_of pool). txHash tx = h"
proof -
  let ?f = "\<lambda>(hash, tx). let tx' = (if txHash tx = [] then tx\<lparr>txHash := hash\<rparr> else tx) in AList.update (txHash tx') tx'"
  have "\<forall>(h, tx) \<in> set (fold ?f xs m). txHash tx = h" if "\<forall>(h, tx) \<in> set m. txHash tx = h"
    for xs m :: "(string \<times> Transaction) list"
    using that
  proof (induction xs arbitrary: m)
    case (Cons p xs)
    have "\<forall>(h, tx) \<in> set (?f p m). txHash tx = h"
      using Cons.prems by (cases p) (auto simp: Let_def dest!: update_elem)
    from Cons.IH [OF this] show ?case by simp
  qed simp
  from this [of "[]" "pool_List pool"] show ?thesis unfolding pooled_of_def by simp
qed

lemma drop_lead_simps:
  "blockHistory (drop_lead (Some r) bc) = filter (\<lambda>b. bBlockNumber b \<le> r) (blockHistory bc)"
  "transactions (drop_lead x bc) = transactions bc" "mempool (drop_lead x bc) = mempool bc"
  "pendingBlock (drop_lead x bc) = pendingBlock bc"
  by (auto simp: drop_lead_def Let_def list_ex_iff not_less filter_id_conv split: option.split intro!: filter_True [symmetric])

text \<open>
  Remark: after a restart nothing is served above the Rocks head and nothing confirmed is put back.
  \<open>RestoreDurableTxs\<close> cuts the history to the blocks Rocks has, and every transaction it adds to the
  mempool is in none of the remaining blocks, is no longer marked confirmed, carries no block number,
  and was not already there; this holds for every order in which the Go map is read.
\<close>

theorem RestoreDurableTxs_sound:
  assumes "\<forall>(h, tx) \<in> set (transactions bc). txHash tx = h" and "\<And>xs. set (order xs) = set xs"
  shows "let bc' = snd (RestoreDurableTxs (Some r) order rm put_ok persist_ok bc)
    in blockHistory bc' = filter (\<lambda>b. bBlockNumber b \<le> r) (blockHistory bc) \<and>
       (\<exists>new. mempool bc' = mempool bc @ new \<and> distinct (map txHash new) \<and>
          set (map txHash new) \<inter> set (map txHash (mempool bc)) = {} \<and>
          (\<forall>tx \<in> set new. txHash tx \<notin> canonical_hashes (blockHistory bc') \<and> txHash tx \<notin> confirmedHashes bc' \<and>
             txBlockNumber tx = 0))"
proof -
  define pooled where "pooled = (case txPool bc of None \<Rightarrow> [] | Some pool \<Rightarrow> pooled_of pool)"
  define bc1 where "bc1 = drop_lead (Some r) bc"
  define canonical where "canonical = canonical_hashes (blockHistory bc1)"
  define seen where "seen = pooled @ filter (\<lambda>(h, tx). h \<noteq> [] \<and> map_of pooled h = None \<and> h \<notin> canonical) (transactions bc1)"
  define headTs where "headTs = foldl max 0 (map bTimestamp (blockHistory bc1))"
  define acc where "acc = foldl (restore_one canonical headTs)
      \<lparr>raChain = bc1, raInFlight = {h \<in> set (map txHash (inflight bc1)). h \<noteq> []}, raRestored = [], raForget = []\<rparr> (order seen)"
  define bc' where "bc' = snd (RestoreDurableTxs (Some r) order rm put_ok persist_ok bc)"
  note defs = pooled_def bc1_def canonical_def seen_def headTs_def acc_def
  have "\<forall>(h, tx) \<in> set pooled. txHash tx = h" by (cases "txPool bc") (simp_all add: pooled_def pooled_of_keyed)
  then have "\<forall>(h, tx) \<in> set (order seen). txHash tx = h"
    using assms unfolding assms(2) by (auto simp: seen_def bc1_def drop_lead_simps)
  moreover have "restore_inv bc1 canonical
      \<lparr>raChain = bc1, raInFlight = {h \<in> set (map txHash (inflight bc1)). h \<noteq> []}, raRestored = [], raForget = []\<rparr>"
    using assms(1) by (auto simp: restore_inv_def bc1_def drop_lead_simps)
  ultimately have inv: "restore_inv bc1 canonical acc" unfolding acc_def by (intro restore_inv_run)
  have b: "blockHistory bc' = blockHistory (raChain acc)" "mempool bc' = mempool (raChain acc)"
    "confirmedHashes bc' = confirmedHashes (raChain acc)"
    unfolding bc'_def RestoreDurableTxs_def Let_def defs [symmetric] by simp_all
  show ?thesis
    unfolding Let_def bc'_def [symmetric] b
    using inv unfolding restore_inv_def canonical_def by (auto simp: bc1_def drop_lead_simps)
qed

theorem RestoreDurableTxs_sound_witness:
  "let bc = (NewBlockchain (40 :: nat))\<lparr>transactions := [(''h1'', signed_tx ''h1'' 0)],
              blockHistory := [new_block 0, new_block 1]\<rparr>
   in blockHistory (snd (RestoreDurableTxs (Some 0) (\<lambda>xs. xs) (\<lambda>_. True) (\<lambda>_. True) True bc)) = [new_block 0]"
  using RestoreDurableTxs_sound [of "(NewBlockchain (40 :: nat))\<lparr>transactions := [(''h1'', signed_tx ''h1'' 0)],
      blockHistory := [new_block 0, new_block 1]\<rparr>" "\<lambda>xs. xs" 0 "\<lambda>_. True" "\<lambda>_. True" True]
  by (simp add: Let_def pending_chain_simps)

end
