(* ===== verification/Explorer.thy ===== *)
theory Explorer
  imports Chain_Store
begin

text \<open>
  The read side of the chain (\<^verbatim>\<open>internal/blockchain/blockchain.go\<close>, \<^verbatim>\<open>chain_sync.go\<close>,
  \<^verbatim>\<open>rocks_reads.go\<close>): what the explorer API serves from memory and from Rocks, the
  header and vote annotations of a block, the instant faucet credit, and the synchronisation of the
  explorer cache with Rocks at startup.

  Rocks is Core's database and outside the repository: \<open>rocks\<close> holds the answers of its client, each
  \<open>None\<close> on an error or a missing row. A Rocks head is assumed below \<open>2^64 - 1\<close>, where the loop over
  the heights would not end.
\<close>

subsection \<open>Rocks\<close>

record RocksBlockStored =
  rbHeight :: u64
  rbPreviousHash :: string
  rbTimestamp :: int
  rbTxHashes :: "string list"
  rbMerkleRoot :: string
  rbStateRoot :: string
  rbBlockHash :: string
  rbProducerID :: string

record rocks =
  rxEnabled :: bool
  rxHead :: "u64 option"
  rxBlock :: "u64 \<Rightarrow> RocksBlockStored option"
  rxTx :: "string \<Rightarrow> (Transaction \<times> string option) option"
  rxAddressTxs :: "string \<Rightarrow> string list option"
  rxProbe :: "(int option) option"

definition blockRecordFromRocks :: "RocksBlockStored \<Rightarrow> BlockRecord" where
  "blockRecordFromRocks b =
     block0\<lparr>bBlockNumber := RocksHeightToGatewayBlock (rbHeight b), bTimestamp := rbTimestamp b,
            bTxHashes := rbTxHashes b, bTxCount := int (length (rbTxHashes b)), bBlockHash := rbBlockHash b,
            bMerkleRoot := rbMerkleRoot b, bStateRoot := rbStateRoot b, bPreviousHash := rbPreviousHash b,
            bProducerNodeID := rbProducerID b\<rparr>"

text \<open>\<open>txFromCoreJSON\<close> on the decoded object: the transaction fields and the \<open>tx_kind\<close> string. The
  second look at \<open>hash\<close> reads the key the decoder already read.\<close>

definition txFromCoreJSON :: "Transaction \<Rightarrow> string option \<Rightarrow> Transaction" where
  "txFromCoreJSON tx kind =
     tx\<lparr>txType := (if txType tx = [] then (case kind of Some k \<Rightarrow> k | None \<Rightarrow> []) else txType tx),
        txValue := (if txValue tx = [] \<and> txAmountUplp tx > 0 then FormatUint (txAmountUplp tx) else txValue tx),
        txFee := (if txFee tx = [] \<and> txFeeUplp tx > 0 then FormatUint (txFeeUplp tx) else txFee tx),
        txAsset := (if txAsset tx = [] then ''PLP'' else txAsset tx)\<rparr>"

definition getTransactionFromRocks :: "rocks \<Rightarrow> string \<Rightarrow> Transaction option" where
  "getTransactionFromRocks rx hash =
     (if \<not> rxEnabled rx then None
      else map_option (\<lambda>(tx, kind). txFromCoreJSON tx kind) (rxTx rx hash))"

definition getBlockFromRocks :: "rocks \<Rightarrow> int \<Rightarrow> BlockRecord option" where
  "getBlockFromRocks rx n =
     (if \<not> rxEnabled rx then None
      else map_option blockRecordFromRocks (rxBlock rx (GatewayBlockToRocksHeight n)))"

definition rocks_heights :: "u64 \<Rightarrow> u64 list" where
  "rocks_heights head = map of_nat [1..<Suc (unat head)]"

definition listBlockHistoryFromRocks :: "rocks \<Rightarrow> BlockRecord list option" where
  "listBlockHistoryFromRocks rx =
     (if \<not> rxEnabled rx then None
      else case rxHead rx of
          None \<Rightarrow> None
        | Some head \<Rightarrow> Some (map blockRecordFromRocks (List.map_filter (rxBlock rx) (rocks_heights head))))"

definition rocks_tx_step :: "rocks \<Rightarrow> u64 \<Rightarrow> RocksBlockStored \<Rightarrow> Transaction list \<times> string set \<Rightarrow> string
   \<Rightarrow> Transaction list \<times> string set" where
  "rocks_tx_step rx h stored acc hash =
     (let (out, seen) = acc
      in if hash \<in> seen then acc
         else case getTransactionFromRocks rx hash of
             None \<Rightarrow> acc
           | Some tx \<Rightarrow>
               (out @ [tx\<lparr>txBlockNumber := RocksHeightToGatewayBlock h,
                          txTimestamp := (if txTimestamp tx \<le> 0 \<and> rbTimestamp stored > 0 then rbTimestamp stored
                                          else txTimestamp tx)\<rparr>],
                insert hash seen))"

definition listConfirmedTxsFromRocks :: "rocks \<Rightarrow> Transaction list option" where
  "listConfirmedTxsFromRocks rx =
     (if \<not> rxEnabled rx then None
      else case rxHead rx of
          None \<Rightarrow> None
        | Some head \<Rightarrow>
            Some (fst (foldl (\<lambda>acc h. case rxBlock rx h of
                                 None \<Rightarrow> acc
                               | Some stored \<Rightarrow> foldl (rocks_tx_step rx h stored) acc (rbTxHashes stored))
                         ([], {}) (rocks_heights head))))"

definition headBlockNumberFromRocks :: "rocks \<Rightarrow> int option" where
  "headBlockNumberFromRocks rx =
     (case rxProbe rx of
        Some p \<Rightarrow> p
      | None \<Rightarrow> (if \<not> rxEnabled rx then None else map_option RocksHeightToGatewayBlock (rxHead rx)))"

subsection \<open>Blocks\<close>

definition HeadBlockNumber :: "rocks \<Rightarrow> 'c Blockchain \<Rightarrow> int" where
  "HeadBlockNumber rx bc =
     (let memHead = (if blockHistory bc = [] then -1 else bBlockNumber (last (blockHistory bc)))
      in case headBlockNumberFromRocks rx of
           Some rocksHead \<Rightarrow> CanonicalHeadNumber memHead rocksHead True
         | None \<Rightarrow> memHead)"

definition HeadBlock :: "rocks \<Rightarrow> 'c Blockchain \<Rightarrow> BlockRecord option" where
  "HeadBlock rx bc =
     (case headBlockNumberFromRocks rx of
        Some rocksHead \<Rightarrow>
          (if rocksHead < 0 then None
           else case find (\<lambda>b. bBlockNumber b = rocksHead) (rev (blockHistory bc)) of
               Some b \<Rightarrow> Some b
             | None \<Rightarrow> getBlockFromRocks rx rocksHead)
      | None \<Rightarrow> (if blockHistory bc = [] then None else Some (last (blockHistory bc))))"

definition GetBlockHistory :: "rocks \<Rightarrow> 'c Blockchain \<Rightarrow> BlockRecord list" where
  "GetBlockHistory rx bc =
     (let out = (if blockHistory bc = [] \<and> rxEnabled rx
                 then (case listBlockHistoryFromRocks rx of Some bs \<Rightarrow> bs | None \<Rightarrow> [])
                 else blockHistory bc)
      in case headBlockNumberFromRocks rx of
           Some rocksHead \<Rightarrow> FreezeBlockHistory out rocksHead True
         | None \<Rightarrow> out)"

definition GetBlockByNumber :: "rocks \<Rightarrow> 'c Blockchain \<Rightarrow> int \<Rightarrow> BlockRecord option" where
  "GetBlockByNumber rx bc n =
     (if (case headBlockNumberFromRocks rx of Some rocksHead \<Rightarrow> n > rocksHead | None \<Rightarrow> False) then None
      else case find (\<lambda>b. bBlockNumber b = n) (blockHistory bc) of
          Some b \<Rightarrow> Some b
        | None \<Rightarrow> (if rxEnabled rx then getBlockFromRocks rx n else None))"

definition genesisPreviousHash :: string where
  "genesisPreviousHash = replicate 64 (CHR ''0'')"

definition hash_of_block :: "BlockRecord option \<Rightarrow> string option" where
  "hash_of_block p = (case p of Some b \<Rightarrow> (if bBlockHash b \<noteq> [] then Some (bBlockHash b) else None) | None \<Rightarrow> None)"

definition GetPreviousBlockHash :: "rocks \<Rightarrow> 'c Blockchain \<Rightarrow> string" where
  "GetPreviousBlockHash rx bc =
     (case find (\<lambda>b. bBlockHash b \<noteq> []) (rev (blockHistory bc)) of
        Some b \<Rightarrow> bBlockHash b
      | None \<Rightarrow>
          (case headBlockNumberFromRocks rx of
             Some rocksHead \<Rightarrow>
               (if rocksHead \<ge> 0 then
                  (case hash_of_block (getBlockFromRocks rx rocksHead) of
                     Some h \<Rightarrow> h
                   | None \<Rightarrow>
                       (if rocksHead > 0 then
                          (case hash_of_block (getBlockFromRocks rx (rocksHead - 1)) of
                             Some h \<Rightarrow> h | None \<Rightarrow> genesisPreviousHash)
                        else genesisPreviousHash))
                else genesisPreviousHash)
           | None \<Rightarrow> genesisPreviousHash))"

definition PreviousHashForBlock :: "rocks \<Rightarrow> 'c Blockchain \<Rightarrow> int \<Rightarrow> string" where
  "PreviousHashForBlock rx bc n =
     (if n \<le> 0 then genesisPreviousHash
      else case find (\<lambda>b. bBlockNumber b = n - 1 \<and> bBlockHash b \<noteq> []) (blockHistory bc) of
          Some b \<Rightarrow> bBlockHash b
        | None \<Rightarrow> (case hash_of_block (getBlockFromRocks rx (n - 1)) of Some h \<Rightarrow> h | None \<Rightarrow> genesisPreviousHash))"

definition NextBlockNumber :: "'c Blockchain \<Rightarrow> int" where
  "NextBlockNumber bc = blockCounter bc"

text \<open>The three writers below change the first block with the number and return.\<close>

fun update_first :: "('a \<Rightarrow> bool) \<Rightarrow> ('a \<Rightarrow> 'a) \<Rightarrow> 'a list \<Rightarrow> 'a list" where
  "update_first P f [] = []"
| "update_first P f (x # xs) = (if P x then f x # xs else x # update_first P f xs)"

record BlockHeader =
  hdBlockHash :: string
  hdMerkleRoot :: string
  hdStateRoot :: string
  hdPreviousHash :: string

definition set_header :: "BlockHeader \<Rightarrow> string \<Rightarrow> BlockRecord \<Rightarrow> BlockRecord" where
  "set_header header producer b =
     b\<lparr>bBlockHash := hdBlockHash header, bMerkleRoot := hdMerkleRoot header, bStateRoot := hdStateRoot header,
       bPreviousHash := hdPreviousHash header,
       bProducerNodeID := (if producer \<noteq> [] then producer else bProducerNodeID b)\<rparr>"

definition ApplyBlockHeader :: "bool \<Rightarrow> 'c Blockchain \<Rightarrow> int \<Rightarrow> BlockHeader \<Rightarrow> string \<Rightarrow> 'c Blockchain" where
  "ApplyBlockHeader persist_ok bc n header producer =
     (if list_ex (\<lambda>b. bBlockNumber b = n) (blockHistory bc)
      then snd (persistChain persist_ok (bc\<lparr>blockHistory :=
             update_first (\<lambda>b. bBlockNumber b = n) (set_header header producer) (blockHistory bc)\<rparr>))
      else bc)"

definition SetBlockVoteCounts ::
  "'c Blockchain \<Rightarrow> int \<Rightarrow> int \<Rightarrow> int \<Rightarrow> int \<Rightarrow> int \<Rightarrow> int \<Rightarrow> string \<Rightarrow> string \<Rightarrow> 'c Blockchain" where
  "SetBlockVoteCounts bc n l1Yes l1No l2Yes l2No durationMs l1Beneficiary l2Confirmer =
     bc\<lparr>blockHistory := update_first (\<lambda>b. bBlockNumber b = n)
          (\<lambda>b. b\<lparr>bL1Yes := l1Yes, bL1No := l1No, bL2Yes := l2Yes, bL2No := l2No, bDurationMs := durationMs,
                 bL1BeneficiaryNodeId := l1Beneficiary, bL2ConfirmerNodeId := l2Confirmer\<rparr>) (blockHistory bc)\<rparr>"

definition SetBlockVoteDetails ::
  "'c Blockchain \<Rightarrow> int \<Rightarrow> (string \<times> bool) list \<Rightarrow> (string \<times> bool) list \<Rightarrow> 'c Blockchain" where
  "SetBlockVoteDetails bc n l1Votes l2Votes =
     bc\<lparr>blockHistory := update_first (\<lambda>b. bBlockNumber b = n)
          (\<lambda>b. b\<lparr>bL1Votes := (if l1Votes \<noteq> [] then l1Votes else bL1Votes b),
                 bL2Votes := (if l2Votes \<noteq> [] then l2Votes else bL2Votes b)\<rparr>) (blockHistory bc)\<rparr>"

subsection \<open>Transactions\<close>

definition GetAllTransactions :: "'c Blockchain \<Rightarrow> Transaction list" where
  "GetAllTransactions bc = sortTxsByTimestamp (map snd (transactions bc))"

definition GetTransaction :: "rocks \<Rightarrow> 'c Blockchain \<Rightarrow> string \<Rightarrow> Transaction option \<times> 'c Blockchain" where
  "GetTransaction rx bc hash =
     (case map_of (transactions bc) hash of
        Some tx \<Rightarrow> (Some tx, bc)
      | None \<Rightarrow>
          (case getTransactionFromRocks rx hash of
             None \<Rightarrow> (None, bc)
           | Some tx \<Rightarrow>
               (let idx1 = (if txFrom tx \<noteq> [] then append_address (txFrom tx) tx (addressTxs bc) else addressTxs bc);
                    idx2 = (if txTo tx \<noteq> [] \<and> txTo tx \<noteq> txFrom tx then append_address (txTo tx) tx idx1 else idx1)
                in (Some tx, bc\<lparr>transactions := AList.update hash tx (transactions bc),
                                confirmedHashes := insert hash (confirmedHashes bc), addressTxs := idx2\<rparr>))))"

text \<open>\<open>appendMatch\<close>: keeps the first transaction of each hash that involves the address.\<close>

definition append_match :: "string \<Rightarrow> Transaction list \<Rightarrow> Transaction \<Rightarrow> Transaction list" where
  "append_match address out tx =
     (if txHash tx = [] \<or> txHash tx \<in> set (map txHash out) then out
      else if txFrom tx \<noteq> address \<and> txTo tx \<noteq> address then out
      else out @ [tx])"

definition GetTransactionsByAddress :: "rocks \<Rightarrow> 'c Blockchain \<Rightarrow> string \<Rightarrow> Transaction list" where
  "GetTransactionsByAddress rx bc address =
     (let stored = (if rxEnabled rx
                    then (case rxAddressTxs rx address of
                            Some hashes \<Rightarrow> List.map_filter (getTransactionFromRocks rx) hashes | None \<Rightarrow> [])
                    else []);
          out = foldl (append_match address) []
                  (stored @ addressTxs bc address @ map snd (transactions bc) @ pendingBlock bc @ mempool bc)
      in exchange_sort (\<lambda>tx. - txTimestamp tx) out)"

text \<open>A Go map filled in loop order: the last block that lists a hash wins.\<close>

definition hash_numbers :: "BlockRecord list \<Rightarrow> (string \<times> int) list" where
  "hash_numbers bs =
     foldl (\<lambda>m b. foldl (\<lambda>m h. if h \<noteq> [] then AList.update h (bBlockNumber b) m else m) m (bTxHashes b)) [] bs"

definition TxHashToBlockNumber :: "rocks \<Rightarrow> 'c Blockchain \<Rightarrow> (string \<times> int) list" where
  "TxHashToBlockNumber rx bc =
     (let out = hash_numbers (blockHistory bc)
      in if out \<noteq> [] then out
         else if rxEnabled rx
         then (case listBlockHistoryFromRocks rx of Some bs \<Rightarrow> hash_numbers bs | None \<Rightarrow> [])
         else [])"

definition ExpectedConfirmedTxCount :: "'c Blockchain \<Rightarrow> nat" where
  "ExpectedConfirmedTxCount bc = card (block_hashes (blockHistory bc))"

record ChainStats =
  ChainTxCount :: nat
  MempoolCount :: nat
  PendingCount :: nat
  TotalFees :: int
  LastBlockNum :: int

definition GetStats :: "rocks \<Rightarrow> 'c Blockchain \<Rightarrow> ChainStats" where
  "GetStats rx bc =
     \<lparr>ChainTxCount = (if rxEnabled rx then card (block_hashes (blockHistory bc)) else length (transactions bc)),
      MempoolCount = length (mempool bc), PendingCount = length (pendingBlock bc),
      TotalFees = totalFeesCollected bc,
      LastBlockNum = (if HeadBlockNumber rx bc < 0 then 0 else HeadBlockNumber rx bc)\<rparr>"

subsection \<open>The confirmed transaction list\<close>

record ConfirmedTxRef =
  refHash :: string
  refBlockNumber :: int
  refTimestamp :: int

definition isIndexedDeal :: "Transaction \<Rightarrow> bool" where
  "isIndexedDeal tx \<longleftrightarrow> txPurpose tx = ''deal'' \<or> txType tx = ''escrow_lock''"

definition indexTxsMissingFromHistoryLocked :: "'c Blockchain \<Rightarrow> BlockRecord list \<Rightarrow> ConfirmedTxRef list" where
  "indexTxsMissingFromHistoryLocked bc blocks =
     (let inBlock = block_hashes blocks;
          head = historyHead blocks;
          skip = {h \<in> set (map txHash (inflight bc)). h \<noteq> []};
          rows = filter (\<lambda>tx. txHash tx \<noteq> [] \<and> txHash tx \<notin> skip \<and> txHash tx \<notin> inBlock \<and>
                              \<not> (txBlockNumber tx \<le> 0 \<and> \<not> isIndexedDeal tx)) (map snd (transactions bc));
          number = (\<lambda>tx. let n = (if txBlockNumber tx \<le> 0 then head else txBlockNumber tx) in if n < 0 then 0 else n)
      in map (\<lambda>tx. \<lparr>refHash = txHash tx, refBlockNumber = number tx, refTimestamp = txTimestamp tx\<rparr>) rows)"

text \<open>The refs of one block, newest transaction first, skipping hashes already listed.\<close>

definition block_refs_step :: "BlockRecord \<Rightarrow> ConfirmedTxRef list \<Rightarrow> string \<Rightarrow> ConfirmedTxRef list" where
  "block_refs_step b out h =
     (if h = [] \<or> h \<in> set (map refHash out) then out
      else out @ [\<lparr>refHash = h, refBlockNumber = bBlockNumber b, refTimestamp = bTimestamp b\<rparr>])"

definition within_head :: "int option \<Rightarrow> int \<Rightarrow> bool" where
  "within_head rocksHead n = (case rocksHead of Some r \<Rightarrow> \<not> n > r | None \<Rightarrow> True)"

definition block_refs :: "int option \<Rightarrow> BlockRecord list \<Rightarrow> ConfirmedTxRef list" where
  "block_refs rocksHead blocks =
     foldl (\<lambda>out b. if within_head rocksHead (bBlockNumber b) then foldl (block_refs_step b) out (rev (bTxHashes b)) else out)
       [] blocks"

text \<open>The extras that pass the filters, each hash once.\<close>

fun extra_refs :: "int option \<Rightarrow> string set \<Rightarrow> ConfirmedTxRef list \<Rightarrow> ConfirmedTxRef list" where
  "extra_refs rocksHead seen [] = []"
| "extra_refs rocksHead seen (r # rs) =
     (if refHash r = [] \<or> refHash r \<in> seen \<or> \<not> within_head rocksHead (refBlockNumber r) then extra_refs rocksHead seen rs
      else r # extra_refs rocksHead (insert (refHash r) seen) rs)"

text \<open>
  \<open>ConfirmedTxRefsNewestFirst\<close>. The block rows are rebuilt first (a write), and an empty history is
  replaced by the Rocks one, which is also cached. Both sorts are by descending keys; \<open>sort.Slice\<close>
  leaves the order of equal keys open, the model keeps it.
\<close>

definition refs_sources :: "rocks \<Rightarrow> 'c Blockchain \<Rightarrow> BlockRecord list \<times> ConfirmedTxRef list \<times> 'c Blockchain" where
  "refs_sources rx bc =
     (let bc1 = attachConfirmedTxsToHistoryLocked bc;
          extras = indexTxsMissingFromHistoryLocked bc1 (blockHistory bc1)
      in if blockHistory bc1 = [] \<and> rxEnabled rx then
           (case listBlockHistoryFromRocks rx of
              Some (b # bs) \<Rightarrow>
                (let h = historyHead (b # bs);
                     bc2 = bc1\<lparr>blockHistory := b # bs,
                               blockCounter := (if i64 (h + 1) > blockCounter bc1 then i64 (h + 1) else blockCounter bc1)\<rparr>
                 in (b # bs, extras, noteDurableHeadLocked bc2))
            | _ \<Rightarrow> ([], extras, bc1))
         else (blockHistory bc1, extras, bc1))"

definition refs_list :: "int option \<Rightarrow> BlockRecord list \<Rightarrow> ConfirmedTxRef list \<Rightarrow> ConfirmedTxRef list" where
  "refs_list rocksHead blocks extras =
     (let out = block_refs rocksHead (sort_key (\<lambda>b. - bBlockNumber b) blocks);
          newestTs = (if out = [] then 0 else refTimestamp (hd out));
          rest = extra_refs rocksHead (set (map refHash out)) extras;
          front = filter (\<lambda>r. refTimestamp r \<ge> newestTs) rest;
          back = filter (\<lambda>r. \<not> refTimestamp r \<ge> newestTs) rest
      in sort_key (\<lambda>r. (- refTimestamp r, - refBlockNumber r)) front @ out @ back)"

definition ConfirmedTxRefsNewestFirst :: "rocks \<Rightarrow> 'c Blockchain \<Rightarrow> ConfirmedTxRef list \<times> 'c Blockchain" where
  "ConfirmedTxRefsNewestFirst rx bc =
     (let (blocks, extras, bc') = refs_sources rx bc
      in (if blocks = [] \<and> extras = [] then []
          else refs_list (headBlockNumberFromRocks rx) blocks extras, bc'))"

subsection \<open>Synchronising with Rocks\<close>

datatype sync_error = RocksHeadError | RocksHistoryError

definition SyncFromRocksHead :: "rocks \<Rightarrow> 'c Blockchain \<Rightarrow> sync_error option \<times> 'c Blockchain" where
  "SyncFromRocksHead rx bc =
     (if \<not> rxEnabled rx then (None, attachConfirmedTxsToHistoryLocked bc)
      else case rxHead rx of
          None \<Rightarrow> (Some RocksHeadError, bc)
        | Some head \<Rightarrow>
            (let bc1 = attachConfirmedTxsToHistoryLocked bc;
                 mem = historyHead (blockHistory bc1)
             in if head = 0 \<or> mem > RocksHeightToGatewayBlock head
                then (None, if mem \<ge> 0 \<and> blockCounter bc1 \<le> mem then bc1\<lparr>blockCounter := i64 (mem + 1)\<rparr> else bc1)
                else case listBlockHistoryFromRocks rx of
                    None \<Rightarrow> (Some RocksHistoryError, bc1)
                  | Some history \<Rightarrow>
                      (None, attachConfirmedTxsToHistoryLocked
                         (bc1\<lparr>blockCounter := sint head,
                              blockHistory := (if history \<noteq> [] then history else blockHistory bc1)\<rparr>))))"

definition hydrate_step :: "'c Blockchain \<Rightarrow> Transaction \<Rightarrow> 'c Blockchain" where
  "hydrate_step bc tx =
     (if txHash tx = [] then bc
      else
        let tx' = (case map_of (transactions bc) (txHash tx) of
                     Some prev \<Rightarrow> (if txBlockNumber prev > txBlockNumber tx then prev else tx) | None \<Rightarrow> tx)
        in bc\<lparr>transactions := AList.update (txHash tx') tx' (transactions bc),
              confirmedHashes := insert (txHash tx') (confirmedHashes bc), lastTx := Some tx'\<rparr>)"

definition index_addresses :: "(string \<Rightarrow> Transaction list) \<Rightarrow> Transaction \<Rightarrow> string \<Rightarrow> Transaction list" where
  "index_addresses idx tx =
     (if txHash tx = [] then idx
      else
        let idx1 = (if txFrom tx \<noteq> [] then append_address (txFrom tx) tx idx else idx)
        in if txTo tx \<noteq> [] \<and> txTo tx \<noteq> txFrom tx then append_address (txTo tx) tx idx1 else idx1)"

definition HydrateExplorerIndexFromRocks :: "rocks \<Rightarrow> 'c Blockchain \<Rightarrow> nat option \<times> 'c Blockchain" where
  "HydrateExplorerIndexFromRocks rx bc =
     (case listConfirmedTxsFromRocks rx of
        None \<Rightarrow> (None, bc)
      | Some [] \<Rightarrow> (Some (length (transactions bc)), attachConfirmedTxsToHistoryLocked bc)
      | Some txs \<Rightarrow>
          (let bc1 = foldl hydrate_step bc txs;
               bc2 = bc1\<lparr>addressTxs := foldl index_addresses (\<lambda>_. []) (map snd (transactions bc1))\<rparr>
           in (Some (length (transactions bc2)), attachConfirmedTxsToHistoryLocked bc2)))"

subsection \<open>Instant faucet credit\<close>

definition MicroPLPPerPLP :: u64 where
  "MicroPLPPerPLP = 1000000"

datatype faucet_error = AmountNotPositive | AmountTooLarge | FaucetNoLedger | FaucetCreditRejected | FaucetTx tx_error
  | FaucetPersist persist_error

definition faucet_tx :: "string \<Rightarrow> int \<Rightarrow> string \<Rightarrow> u64 \<Rightarrow> Transaction" where
  "faucet_tx hash now to amountUplp =
     tx0\<lparr>txHash := hash, txFrom := FaucetAddress, txTo := to, txValue := FormatUint amountUplp, txFee := ''0'',
         txTimestamp := now, txType := ''faucet'', txAssetType := ''native'', txAmountUplp := amountUplp\<rparr>"

text \<open>\<open>hash\<close> is \<open>faucet-<nanoseconds>-<to>\<close>, which is not empty.\<close>

definition InstantFaucetCredit ::
  "'c core_api \<Rightarrow> bool \<Rightarrow> string \<Rightarrow> int \<Rightarrow> 'c Blockchain \<Rightarrow> string \<Rightarrow> u64
   \<Rightarrow> (faucet_error + Transaction) \<times> 'c Blockchain" where
  "InstantFaucetCredit core persist_ok hash now bc to plp =
     (if plp = 0 then (Inl AmountNotPositive, bc)
      else if plp > (-1) div MicroPLPPerPLP then (Inl AmountTooLarge, bc)
      else
        let amountUplp = plp * MicroPLPPerPLP
        in if \<not> ledger bc then (Inl FaucetNoLedger, bc)
           else
             let (ok, c) = coreCredit core to amountUplp 0 (stateFile bc);
                 bc1 = bc\<lparr>stateFile := c\<rparr>
             in if \<not> ok then (Inl FaucetCreditRejected, bc1)
                else
                  let tx = faucet_tx hash now to amountUplp
                  in case AddTransaction bc1 tx of
                       Inl e \<Rightarrow> (Inl (FaucetTx e), bc1)
                     | Inr bc2 \<Rightarrow>
                         (case persistChain persist_ok bc2 of
                            (Some e, bc3) \<Rightarrow> (Inl (FaucetPersist e), bc3)
                          | (None, bc3) \<Rightarrow> (Inr tx, bc3)))"

subsection \<open>Lists without repetition\<close>

definition refs_ok :: "int option \<Rightarrow> ConfirmedTxRef list \<Rightarrow> bool" where
  "refs_ok r out \<longleftrightarrow> distinct (map refHash out) \<and>
     (\<forall>x \<in> set out. refHash x \<noteq> [] \<and> within_head r (refBlockNumber x))"

lemma block_refs_step_ok: "within_head r (bBlockNumber b) \<Longrightarrow> refs_ok r out \<Longrightarrow> refs_ok r (block_refs_step b out h)"
  by (auto simp: block_refs_step_def refs_ok_def)

lemma block_refs_block_ok:
  assumes "refs_ok r out"
  shows "refs_ok r (if within_head r (bBlockNumber b) then foldl (block_refs_step b) out hs else out)"
proof (cases "within_head r (bBlockNumber b)")
  case True
  then have "refs_ok r (foldl (block_refs_step b) out hs)"
    using assms by (intro foldl_invariant [where P = "refs_ok r"]) (rule block_refs_step_ok)
  with True show ?thesis by (simp only: if_True)
next
  case False
  with assms show ?thesis by (simp only: if_False)
qed

lemma block_refs_ok: "refs_ok r (block_refs r bs)"
  unfolding block_refs_def
  by (rule foldl_invariant [where P = "refs_ok r"], rule block_refs_block_ok) (simp_all add: refs_ok_def)

lemma extra_refs_ok:
  "refs_ok r (extra_refs r seen rs) \<and> set (map refHash (extra_refs r seen rs)) \<inter> seen = {}"
proof (induction r seen rs rule: extra_refs.induct)
  case (1 r seen)
  show ?case by (simp add: refs_ok_def)
next
  case (2 rh seen r rs)
  show ?case
  proof (cases "refHash r = [] \<or> refHash r \<in> seen \<or> \<not> within_head rh (refBlockNumber r)")
    case True
    with 2(1) [OF True] show ?thesis by simp
  next
    case False
    with 2(2) [OF False] show ?thesis by (auto simp: refs_ok_def)
  qed
qed

lemma refs_list_mset:
  "mset (refs_list r bs es) =
     mset (block_refs r (sort_key (\<lambda>b. - bBlockNumber b) bs)) +
     mset (extra_refs r (set (map refHash (block_refs r (sort_key (\<lambda>b. - bBlockNumber b) bs)))) es)"
proof -
  have "mset (filter P xs) + (A + mset (filter (\<lambda>x. \<not> P x) xs)) = A + mset xs" for P xs and A :: "ConfirmedTxRef multiset"
    by (metis add.assoc add.commute mset_filter multiset_partition)
  then show ?thesis by (simp add: refs_list_def Let_def)
qed

lemma refs_list_ok: "refs_ok r (refs_list r bs es)"
proof -
  let ?o = "block_refs r (sort_key (\<lambda>b. - bBlockNumber b) bs)"
  let ?e = "extra_refs r (set (map refHash ?o)) es"
  note e = extra_refs_ok [of r "set (map refHash ?o)" es]
  have "set (map refHash ?o) \<inter> set (map refHash ?e) = {}" using e [THEN conjunct2] by (simp only: Int_commute)
  with block_refs_ok [of r "sort_key (\<lambda>b. - bBlockNumber b) bs"] e [THEN conjunct1] have "refs_ok r (?o @ ?e)"
    unfolding refs_ok_def map_append distinct_append set_append ball_Un by (intro conjI) simp_all
  moreover have m: "mset (refs_list r bs es) = mset (?o @ ?e)" by (simp add: refs_list_mset)
  ultimately show ?thesis
    using mset_sub_distinct [of "refs_list r bs es" "?o @ ?e" refHash] mset_eq_setD [OF m]
    by (simp add: refs_ok_def)
qed

lemma append_match_fold:
  "let out = foldl (append_match a) [] txs
   in distinct (map txHash out) \<and> (\<forall>tx \<in> set out. txHash tx \<noteq> [] \<and> (txFrom tx = a \<or> txTo tx = a) \<and> tx \<in> set txs) \<and>
      (\<forall>tx \<in> set txs. txHash tx \<noteq> [] \<and> (txFrom tx = a \<or> txTo tx = a) \<longrightarrow> txHash tx \<in> txHash ` set out)"
proof (induction txs rule: rev_induct)
  case (snoc tx txs)
  then show ?case by (simp add: Let_def) (auto simp: append_match_def)
qed simp

subsection \<open>Linking blocks\<close>

lemma find_update_first:
  assumes "\<exists>x \<in> set xs. P x" and "\<And>x. P x \<Longrightarrow> P (f x) \<and> Q (f x)"
  shows "\<exists>x \<in> set xs. P x \<and> find (\<lambda>x. P x \<and> Q x) (update_first P f xs) = Some (f x)"
  using assms by (induction xs) auto

lemma update_first_exists: "list_ex P xs \<longleftrightarrow> (\<exists>x \<in> set xs. P x)"
  by (simp add: list_ex_iff)

subsection \<open>Properties\<close>

definition demo_rocks :: rocks where
  "demo_rocks = \<lparr>rxEnabled = False, rxHead = None, rxBlock = (\<lambda>_. None), rxTx = (\<lambda>_. None), rxAddressTxs = (\<lambda>_. None),
     rxProbe = Some (Some 0)\<rparr>"

text \<open>
  Remark: with Rocks as the source of truth no read path serves a block ahead of it: the head number is Rocks'
  own, and the block history, the block-by-number route and the confirmed transaction list contain
  nothing above it.
\<close>

theorem explorer_never_leads_rocks:
  assumes "headBlockNumberFromRocks rx = Some r"
  shows "HeadBlockNumber rx bc = r \<and>
     (\<forall>b \<in> set (GetBlockHistory rx bc). bBlockNumber b \<le> r) \<and>
     (\<forall>n. n > r \<longrightarrow> GetBlockByNumber rx bc n = None) \<and>
     (\<forall>ref \<in> set (fst (ConfirmedTxRefsNewestFirst rx bc)). refBlockNumber ref \<le> r)"
proof -
  have "bBlockNumber b \<le> r" if "b \<in> set (GetBlockHistory rx bc)" for b
    using that assms by (auto simp: GetBlockHistory_def Let_def FreezeBlockHistory_def split: if_splits)
  moreover have "refBlockNumber ref \<le> r" if "ref \<in> set (fst (ConfirmedTxRefsNewestFirst rx bc))" for ref
  proof -
    obtain blocks extras bc' where "refs_sources rx bc = (blocks, extras, bc')" by (metis prod_cases3)
    with that assms have "ref \<in> set (refs_list (Some r) blocks extras)"
      by (auto simp: ConfirmedTxRefsNewestFirst_def split: if_splits)
    then have "within_head (Some r) (refBlockNumber ref)" using refs_list_ok by (auto simp: refs_ok_def)
    then show ?thesis by (simp add: within_head_def)
  qed
  ultimately show ?thesis
    using assms by (simp add: HeadBlockNumber_def CanonicalHeadNumber_def GetBlockByNumber_def)
qed

theorem explorer_never_leads_rocks_witness:
  "HeadBlockNumber demo_rocks (pending_chain\<lparr>blockHistory := [new_block 0, new_block 1]\<rparr>) = 0 \<and>
   GetBlockByNumber demo_rocks (pending_chain\<lparr>blockHistory := [new_block 0, new_block 1]\<rparr>) 1 = None"
proof -
  have "headBlockNumberFromRocks demo_rocks = Some 0" by (simp add: headBlockNumberFromRocks_def demo_rocks_def)
  note * = explorer_never_leads_rocks [OF this, of "pending_chain\<lparr>blockHistory := [new_block 0, new_block 1]\<rparr>"]
  then have "(1 :: int) > 0 \<longrightarrow> GetBlockByNumber demo_rocks (pending_chain\<lparr>blockHistory := [new_block 0, new_block 1]\<rparr>) 1 = None" by blast
  with * show ?thesis by auto
qed

text \<open>
  Remark: the confirmed transaction list shows every hash once and no empty hash, whatever the history and
  the index hold (the same hash in several blocks, or both in a block and as a loose deal).
\<close>

theorem ConfirmedTxRefs_once:
  "distinct (map refHash (fst (ConfirmedTxRefsNewestFirst rx bc))) \<and>
   [] \<notin> set (map refHash (fst (ConfirmedTxRefsNewestFirst rx bc)))"
proof -
  obtain blocks extras bc' where s: "refs_sources rx bc = (blocks, extras, bc')" by (metis prod_cases3)
  have "refs_ok (headBlockNumberFromRocks rx) (refs_list (headBlockNumberFromRocks rx) blocks extras)"
    by (rule refs_list_ok)
  then have "refs_ok (headBlockNumberFromRocks rx) (fst (ConfirmedTxRefsNewestFirst rx bc))"
    by (simp add: ConfirmedTxRefsNewestFirst_def s refs_ok_def)
  then show ?thesis by (auto simp: refs_ok_def)
qed

text \<open>
  Remark: the address view is complete and exact: it lists every pending or indexed transaction of the address
  that has a hash, each hash once and only transactions of the address, newest first.
\<close>

theorem GetTransactionsByAddress_spec:
  "let out = GetTransactionsByAddress rx bc a
   in distinct (map txHash out) \<and> sorted (map (\<lambda>tx. - txTimestamp tx) out) \<and>
      (\<forall>tx \<in> set out. txFrom tx = a \<or> txTo tx = a) \<and>
      (\<forall>tx \<in> set (addressTxs bc a @ map snd (transactions bc) @ pendingBlock bc @ mempool bc).
         txHash tx \<noteq> [] \<and> (txFrom tx = a \<or> txTo tx = a) \<longrightarrow> txHash tx \<in> txHash ` set out)"
proof -
  define stored where "stored = (if rxEnabled rx then (case rxAddressTxs rx a of
      Some hashes \<Rightarrow> List.map_filter (getTransactionFromRocks rx) hashes | None \<Rightarrow> []) else [])"
  define rest where "rest = addressTxs bc a @ map snd (transactions bc) @ pendingBlock bc @ mempool bc"
  define found where "found = foldl (append_match a) [] (stored @ rest)"
  have f: "distinct (map txHash found)" "\<forall>tx \<in> set found. txHash tx \<noteq> [] \<and> (txFrom tx = a \<or> txTo tx = a) \<and> tx \<in> set (stored @ rest)"
    "\<forall>tx \<in> set (stored @ rest). txHash tx \<noteq> [] \<and> (txFrom tx = a \<or> txTo tx = a) \<longrightarrow> txHash tx \<in> txHash ` set found"
    using append_match_fold [of a "stored @ rest"] unfolding Let_def found_def by blast+
  have out: "GetTransactionsByAddress rx bc a = exchange_sort (\<lambda>tx. - txTimestamp tx) found"
    by (simp add: GetTransactionsByAddress_def stored_def found_def rest_def)
  have m: "mset (GetTransactionsByAddress rx bc a) = mset found" by (simp add: out exchange_sort_mset)
  have "distinct (map txHash (GetTransactionsByAddress rx bc a))"
    by (rule mset_sub_distinct [OF _ f(1)]) (simp add: m)
  moreover have "sorted (map (\<lambda>tx. - txTimestamp tx) (GetTransactionsByAddress rx bc a))"
    unfolding out by (rule exchange_sort_sorted)
  moreover have "\<forall>tx \<in> set found. txFrom tx = a \<or> txTo tx = a" using f(2) by blast
  moreover have "\<forall>tx \<in> set rest. txHash tx \<noteq> [] \<and> (txFrom tx = a \<or> txTo tx = a) \<longrightarrow> txHash tx \<in> txHash ` set found"
    using f(3) by simp
  ultimately show ?thesis
    unfolding Let_def rest_def [symmetric] mset_eq_setD [OF m] by (intro conjI)
qed

theorem GetTransactionsByAddress_spec_witness:
  "''h2'' \<in> txHash ` set (GetTransactionsByAddress demo_rocks demo_chain ''Pxb'')"
  using GetTransactionsByAddress_spec [of demo_rocks demo_chain "''Pxb''"]
  by (simp add: Let_def demo_simps)

text \<open>
  Remark: blocks link up. Once the header of block \<open>n\<close> is applied, the parent hash that block \<open>n + 1\<close> will
  reference is that header's block hash, whether or not the snapshot could be written.
\<close>

theorem ApplyBlockHeader_links:
  assumes "\<exists>b \<in> set (blockHistory bc). bBlockNumber b = n" and "0 \<le> n" and "hdBlockHash header \<noteq> []"
  shows "PreviousHashForBlock rx (ApplyBlockHeader persist_ok bc n header producer) (n + 1) = hdBlockHash header"
proof -
  let ?h = "update_first (\<lambda>b. bBlockNumber b = n) (set_header header producer) (blockHistory bc)"
  have "blockHistory (ApplyBlockHeader persist_ok bc n header producer) = ?h"
    using assms(1) by (simp add: ApplyBlockHeader_def update_first_exists)
  moreover obtain b where "find (\<lambda>b. bBlockNumber b = n \<and> bBlockHash b \<noteq> []) ?h = Some (set_header header producer b)"
    using find_update_first [of "blockHistory bc" "\<lambda>b. bBlockNumber b = n" "set_header header producer" "\<lambda>b. bBlockHash b \<noteq> []"]
      assms by (auto simp: set_header_def)
  ultimately show ?thesis using assms(2) by (simp add: PreviousHashForBlock_def set_header_def)
qed

theorem ApplyBlockHeader_links_witness:
  "PreviousHashForBlock demo_rocks (ApplyBlockHeader False (pending_chain\<lparr>blockHistory := [new_block 0]\<rparr>) 0
     \<lparr>hdBlockHash = ''aa'', hdMerkleRoot = [], hdStateRoot = [], hdPreviousHash = []\<rparr> []) 1 = ''aa''"
  using ApplyBlockHeader_links [of "pending_chain\<lparr>blockHistory := [new_block 0]\<rparr>" 0
      "\<lparr>hdBlockHash = ''aa'', hdMerkleRoot = [], hdStateRoot = [], hdPreviousHash = []\<rparr>" demo_rocks False "[]"]
  by simp

text \<open>
  Remark: the faucet never credits a wrapped amount: when \<open>InstantFaucetCredit\<close> succeeds, the amount handed to
  Core is exactly the requested number of PLP times one million, it fits 64 bits, the transaction it
  records reads back as that amount, and the mempool is untouched.
\<close>

theorem InstantFaucetCredit_exact:
  assumes "InstantFaucetCredit core persist_ok hash now bc to plp = (Inr tx, bc')"
  shows "uint (txAmountUplp tx) = uint plp * 1000000 \<and> 0 < uint plp \<and> uint plp * 1000000 < 2 ^ 64 \<and>
     fst (coreCredit core to (txAmountUplp tx) 0 (stateFile bc)) \<and>
     parseAmount tx = txAmountUplp tx \<and> mempool bc' = mempool bc \<and> txFrom tx = FaucetAddress"
proof -
  let ?a = "plp * MicroPLPPerPLP"
  have p: "plp \<noteq> 0" "\<not> plp > (-1) div MicroPLPPerPLP" "ledger bc" "fst (coreCredit core to ?a 0 (stateFile bc))"
    and tx: "tx = faucet_tx hash now to ?a"
    and m: "mempool bc' = mempool bc"
    using assms
    by (auto simp: InstantFaucetCredit_def Let_def AddTransaction_def case_prod_beta
        split: if_splits sum.splits prod.splits option.splits dest!: arg_cong [where f = "\<lambda>x. mempool (snd x)"])
  have "uint plp \<le> (2 ^ 64 - 1) div 1000000"
    using p(2) by (simp add: not_less word_le_def uint_div MicroPLPPerPLP_def)
  then have le: "uint plp * 1000000 < 2 ^ 64" by simp
  have "uint ?a = uint plp * 1000000"
    using le by (simp add: uint_word_ariths MicroPLPPerPLP_def)
  moreover have "0 < uint plp" using p(1) by (metis uint_0_iff uint_ge_0 order_le_less)
  moreover have "txAmountUplp tx = ?a" "txFrom tx = FaucetAddress" by (simp_all add: tx faucet_tx_def)
  moreover have "?a > 0" using calculation(1,2) by (simp add: word_less_def)
  ultimately show ?thesis using le p(4) m by (simp add: parseAmount_def)
qed

theorem InstantFaucetCredit_exact_witness:
  "\<exists>tx bc'. InstantFaucetCredit counting_core True ''f'' 5 pending_chain ''Pxb'' 5000 = (Inr tx, bc') \<and>
     uint (txAmountUplp tx) = 5000000000"
proof -
  have "\<exists>tx bc'. InstantFaucetCredit counting_core True ''f'' 5 pending_chain ''Pxb'' 5000 = (Inr tx, bc')"
    by (simp add: InstantFaucetCredit_def MicroPLPPerPLP_def counting_core_def AddTransaction_def faucet_tx_def
        pending_chain_simps persistChain_def Let_def)
  then obtain tx bc' where "InstantFaucetCredit counting_core True ''f'' 5 pending_chain ''Pxb'' 5000 = (Inr tx, bc')"
    by blast
  with InstantFaucetCredit_exact [OF this] show ?thesis by auto
qed

end
