(* ===== verification/Finalize.thy ===== *)
theory Finalize
  imports Explorer
begin

text \<open>
  The durability half of a confirmation (\<^verbatim>\<open>internal/handlers/apply_confirmed_block.go\<close>,
  \<^verbatim>\<open>internal/handlers/rocks_commit.go\<close>): after the explorer has recorded and persisted a block, its header is
  assembled by Core, the block is committed to Rocks, and only then the backup of Core's state is
  removed; every failure in between undoes the block.

  Core and Rocks are outside the repository. \<open>final_api\<close> holds the calls: assembling a header from Core's
  state, the state root, an account query, the account rows of Rocks and the block commit, which says
  whether it succeeded and what it leaves in the store \<open>'r\<close>. \<open>fxReads\<close> gives the read answers of the
  Rocks client in the form the explorer uses. The iteration order of the address set is \<open>fxOrder\<close>.
\<close>

subsection \<open>Data\<close>

record RocksAccount =
  raAddress :: string
  raBalance :: string
  raUplpBalance :: string
  raNonce :: u64
  raTokens :: "(string \<times> string) list"
  raXp :: string

record AccountQuery =
  aqAddress :: string
  aqBalance :: string
  aqUplpBalance :: string
  aqNonce :: u64
  aqTokens :: "(string \<times> string) list"
  aqXp :: string

record BlockReceipt =
  rcTxHash :: string
  rcStatus :: string
  rcFeeUplp :: u64
  rcBlockHeight :: u64

record BlockCommitPayload =
  bcBlock :: RocksBlockStored
  bcTxJSONs :: "core_tx list"
  bcAccounts :: "RocksAccount list"
  bcReceipts :: "BlockReceipt list"
  bcStateRoot :: string

record ('c, 'r) final_api =
  fxRocks :: bool
  fxReads :: "'r \<Rightarrow> rocks"
  fxAssemble :: "'c \<Rightarrow> u64 \<Rightarrow> string \<Rightarrow> int \<Rightarrow> string list \<Rightarrow> string \<Rightarrow> BlockHeader option"
  fxStateRoot :: "'c \<Rightarrow> string option"
  fxQuery :: "'c \<Rightarrow> string \<Rightarrow> AccountQuery option"
  fxAccount :: "'r \<Rightarrow> string \<Rightarrow> RocksAccount option option"
  fxOrder :: "string list \<Rightarrow> string list"
  fxCommit :: "BlockCommitPayload \<Rightarrow> 'r \<Rightarrow> bool \<times> 'r"

datatype ConfirmFailPoint = FailPointNone | FailPointAfterExplorerBeforeRocks | FailPointRocksWriteBatch | FailPointCrashAfterExplorer

datatype final_error = InjectedBeforeRocks | InjectedCrash | InjectedWriteBatch | RocksCommitFailed rocks_error | AssembleFailed
  and rocks_error = StateRootRequired | NotCoreCompatible string | QueryFailed string | CommitRejected

record FinalizeResult =
  frBlock :: BlockRecord
  frRocksCommitted :: bool
  frBackupKept :: bool

text \<open>What the handler changes: the chain, the Rocks store and the commit error counter.\<close>

record ('c, 'r) node =
  ndChain :: "'c Blockchain"
  ndRocks :: 'r
  ndCommitErrors :: nat

subsection \<open>The Rocks commit\<close>

definition rocksAccountFromQuery :: "AccountQuery option \<Rightarrow> RocksAccount" where
  "rocksAccountFromQuery q =
     (case q of
        None \<Rightarrow> \<lparr>raAddress = [], raBalance = ''0'', raUplpBalance = ''0'', raNonce = 0, raTokens = [], raXp = ''0''\<rparr>
      | Some a \<Rightarrow>
          (let xp = (if aqXp a = [] then TokenXPFromMap (aqTokens a) else aqXp a)
           in \<lparr>raAddress = aqAddress a, raBalance = aqBalance a, raUplpBalance = aqUplpBalance a, raNonce = aqNonce a,
               raTokens = aqTokens a, raXp = (if xp = [] then ''0'' else xp)\<rparr>))"

fun commit_txs :: "u64 \<Rightarrow> Transaction list \<Rightarrow> rocks_error + (string \<times> core_tx \<times> BlockReceipt) list" where
  "commit_txs height [] = Inr []"
| "commit_txs height (tx # txs) =
     (case ToCoreJSON tx of
        None \<Rightarrow> Inl (NotCoreCompatible (txHash tx))
      | Some j \<Rightarrow>
          (case commit_txs height txs of
             Inl e \<Rightarrow> Inl e
           | Inr rows \<Rightarrow>
               Inr ((txHash tx, j, \<lparr>rcTxHash = txHash tx, rcStatus = ''ok'', rcFeeUplp = txFeeUplp tx, rcBlockHeight = height\<rparr>)
                    # rows)))"

definition commit_addresses :: "Transaction list \<Rightarrow> string list" where
  "commit_addresses txs = remdups (filter (\<lambda>a. a \<noteq> []) (concat (map (\<lambda>tx. [txFrom tx, txTo tx]) txs)))"

definition commit_account :: "('c, 'r) final_api \<Rightarrow> bool \<Rightarrow> 'c \<Rightarrow> 'r \<Rightarrow> string \<Rightarrow> RocksAccount option" where
  "commit_account fx has_ledger c r addr =
     (if has_ledger then map_option (\<lambda>q. rocksAccountFromQuery (Some q)) (fxQuery fx c addr)
      else case fxAccount fx r addr of
          None \<Rightarrow> None
        | Some None \<Rightarrow>
            Some \<lparr>raAddress = addr, raBalance = ''0'', raUplpBalance = ''0'', raNonce = 0, raTokens = [], raXp = ''0''\<rparr>
        | Some (Some a) \<Rightarrow>
            Some (rocksAccountFromQuery (Some
              \<lparr>aqAddress = raAddress a, aqBalance = raBalance a, aqUplpBalance = raUplpBalance a, aqNonce = raNonce a,
               aqTokens = raTokens a, aqXp = raXp a\<rparr>)))"

fun commit_accounts :: "(string \<Rightarrow> 'a option) \<Rightarrow> string list \<Rightarrow> rocks_error + 'a list" where
  "commit_accounts f [] = Inr []"
| "commit_accounts f (a # as) =
     (case f a of
        None \<Rightarrow> Inl (QueryFailed a)
      | Some x \<Rightarrow> (case commit_accounts f as of Inl e \<Rightarrow> Inl e | Inr xs \<Rightarrow> Inr (x # xs)))"

definition commit_payload :: "BlockRecord \<Rightarrow> string \<Rightarrow> (string \<times> core_tx \<times> BlockReceipt) list \<Rightarrow> RocksAccount list \<Rightarrow> BlockCommitPayload" where
  "commit_payload block root rows accounts =
     \<lparr>bcBlock = \<lparr>rbHeight = GatewayBlockToRocksHeight (bBlockNumber block), rbPreviousHash = bPreviousHash block,
        rbTimestamp = bTimestamp block, rbTxHashes = map fst rows, rbMerkleRoot = bMerkleRoot block, rbStateRoot = root,
        rbBlockHash = bBlockHash block, rbProducerID = bProducerNodeID block\<rparr>,
      bcTxJSONs = map (fst \<circ> snd) rows, bcAccounts = accounts, bcReceipts = map (snd \<circ> snd) rows, bcStateRoot = root\<rparr>"

definition commit_root :: "('c, 'r) final_api \<Rightarrow> ('c, 'r) node \<Rightarrow> string \<Rightarrow> string" where
  "commit_root fx nd stateRoot =
     (if stateRoot = [] \<and> ledger (ndChain nd)
      then (case fxStateRoot fx (stateFile (ndChain nd)) of None \<Rightarrow> [] | Some root \<Rightarrow> root)
      else stateRoot)"

definition commitBlockToRocks ::
  "('c, 'r) final_api \<Rightarrow> BlockRecord \<Rightarrow> Transaction option list \<Rightarrow> string \<Rightarrow> ('c, 'r) node
   \<Rightarrow> rocks_error option \<times> ('c, 'r) node" where
  "commitBlockToRocks fx block txs stateRoot nd =
     (if \<not> fxRocks fx then (None, nd)
      else
        let root = commit_root fx nd stateRoot; ts = nonnil txs
        in if root = [] then (Some StateRootRequired, nd)
           else case commit_txs (GatewayBlockToRocksHeight (bBlockNumber block)) ts of
               Inl e \<Rightarrow> (Some e, nd)
             | Inr rows \<Rightarrow>
                 (case commit_accounts (commit_account fx (ledger (ndChain nd)) (stateFile (ndChain nd)) (ndRocks nd))
                         (fxOrder fx (commit_addresses ts)) of
                    Inl e \<Rightarrow> (Some e, nd)
                  | Inr accounts \<Rightarrow>
                      (let (ok, r) = fxCommit fx (commit_payload block root rows accounts) (ndRocks nd)
                       in (if ok then None else Some CommitRejected, nd\<lparr>ndRocks := r\<rparr>))))"

subsection \<open>Finalising\<close>

definition undo_block :: "'c io \<Rightarrow> BlockRecord \<Rightarrow> Transaction list \<Rightarrow> bool \<Rightarrow> ('c, 'r) node \<Rightarrow> ('c, 'r) node" where
  "undo_block io block moved backup nd = nd\<lparr>ndChain := snd (UndoLastConfirmedBlock io block moved backup (ndChain nd))\<rparr>"

definition DurableCommitAfterExplorer ::
  "('c, 'r) final_api \<Rightarrow> 'c io \<Rightarrow> (string \<Rightarrow> bool) \<Rightarrow> ConfirmFailPoint \<Rightarrow> BlockRecord \<Rightarrow> Transaction list \<Rightarrow> bool \<Rightarrow> ('c, 'r) node
   \<Rightarrow> (final_error option \<times> FinalizeResult) \<times> ('c, 'r) node" where
  "DurableCommitAfterExplorer fx io rm point block moved backup nd =
     (let out = \<lparr>frBlock = block, frRocksCommitted = False, frBackupKept = False\<rparr>
      in if point = FailPointAfterExplorerBeforeRocks
         then ((Some InjectedBeforeRocks, out), undo_block io block moved backup nd)
         else if point = FailPointCrashAfterExplorer
         then ((Some InjectedCrash, out\<lparr>frBackupKept := True\<rparr>), nd)
         else if point = FailPointRocksWriteBatch
         then ((Some InjectedWriteBatch, out), undo_block io block moved backup (nd\<lparr>ndCommitErrors := Suc (ndCommitErrors nd)\<rparr>))
         else case commitBlockToRocks fx block (map Some moved) (bStateRoot block) nd of
             (Some e, nd1) \<Rightarrow>
               ((Some (RocksCommitFailed e), out),
                undo_block io block moved backup (nd1\<lparr>ndCommitErrors := Suc (ndCommitErrors nd1)\<rparr>))
           | (None, nd1) \<Rightarrow>
               ((None, out\<lparr>frRocksCommitted := fxRocks fx\<rparr>),
                nd1\<lparr>ndChain := ForgetTxPool rm (DiscardStateBackup io backup (ndChain nd1))
                      (filter (\<lambda>h. h \<noteq> []) (map txHash moved))\<rparr>))"

definition txHashesFromTransactions :: "Transaction option list \<Rightarrow> string list" where
  "txHashesFromTransactions txs = sort (filter (\<lambda>h. h \<noteq> []) (map txHash (nonnil txs)))"

definition assembleBlockHeader ::
  "('c, 'r) final_api \<Rightarrow> ('c, 'r) node \<Rightarrow> int \<Rightarrow> Transaction list \<Rightarrow> string \<Rightarrow> int \<Rightarrow> BlockHeader option" where
  "assembleBlockHeader fx nd n txs producer timestamp =
     (if \<not> ledger (ndChain nd) then None
      else fxAssemble fx (stateFile (ndChain nd)) (word_of_int n)
             (PreviousHashForBlock (fxReads fx (ndRocks nd)) (ndChain nd) n) timestamp
             (txHashesFromTransactions (map Some txs)) producer)"

definition FinalizeConfirmedBlock ::
  "('c, 'r) final_api \<Rightarrow> 'c io \<Rightarrow> (string \<Rightarrow> bool) \<Rightarrow> ConfirmFailPoint \<Rightarrow> BlockRecord \<Rightarrow> Transaction list \<Rightarrow> bool \<Rightarrow> string
   \<Rightarrow> ('c, 'r) node \<Rightarrow> (final_error option \<times> FinalizeResult) \<times> ('c, 'r) node" where
  "FinalizeConfirmedBlock fx io rm point block moved backup producer nd =
     (let out = \<lparr>frBlock = block, frRocksCommitted = False, frBackupKept = False\<rparr>
      in case assembleBlockHeader fx nd (bBlockNumber block) moved producer (bTimestamp block) of
           None \<Rightarrow>
             (if fxRocks fx then ((Some AssembleFailed, out), undo_block io block moved backup nd)
              else ((None, out),
                    nd\<lparr>ndChain := snd (persistChain (ioPersist io) (DiscardStateBackup io backup (ndChain nd)))\<rparr>))
         | Some header \<Rightarrow>
             DurableCommitAfterExplorer fx io rm point
               (block\<lparr>bBlockHash := hdBlockHash header, bMerkleRoot := hdMerkleRoot header, bStateRoot := hdStateRoot header,
                      bPreviousHash := hdPreviousHash header, bProducerNodeID := producer\<rparr>)
               moved backup
               (nd\<lparr>ndChain := ApplyBlockHeader (ioPersist io) (ndChain nd) (bBlockNumber block) header producer\<rparr>))"

text \<open>A block from a peer carries its header. \<open>Inr False\<close> is "already known".\<close>

definition ApplyPeerConfirmedBlock ::
  "('c, 'r) final_api \<Rightarrow> env \<Rightarrow> 'c core_api \<Rightarrow> 'c io \<Rightarrow> ('c Blockchain \<Rightarrow> 'c Blockchain) \<Rightarrow> (string \<Rightarrow> bool) \<Rightarrow> ConfirmFailPoint
   \<Rightarrow> BlockRecord \<Rightarrow> Transaction option list \<Rightarrow> ('c, 'r) node \<Rightarrow> ((confirm_error + final_error) + bool) \<times> ('c, 'r) node" where
  "ApplyPeerConfirmedBlock fx env core io mid rm point block txs nd =
     (case AddConfirmedBlock env core io mid (ndChain nd) block txs of
        (Inl e, bc1) \<Rightarrow> (Inl (Inl e), nd\<lparr>ndChain := bc1\<rparr>)
      | (Inr None, bc1) \<Rightarrow> (Inr False, nd\<lparr>ndChain := bc1\<rparr>)
      | (Inr (Some backup), bc1) \<Rightarrow>
          (case DurableCommitAfterExplorer fx io rm point block (map (stamp (bBlockNumber block)) (nonnil txs)) backup
                  (nd\<lparr>ndChain := bc1\<rparr>) of
             ((Some e, _), nd1) \<Rightarrow> (Inl (Inr e), nd1)
           | ((None, _), nd1) \<Rightarrow> (Inr True, nd1)))"

subsection \<open>A staged block\<close>

text \<open>The state between the explorer update and the Rocks commit: one block on top of the chain of before,
  Core's old state in the backup.\<close>

definition staged :: "'c Blockchain \<Rightarrow> 'c Blockchain \<Rightarrow> bool" where
  "staged bc0 bc \<longleftrightarrow>
     (\<exists>b. blockHistory bc = blockHistory bc0 @ [b] \<and> bBlockNumber b = blockCounter bc0 \<and>
        bTxHashes b = map txHash (pendingBlock bc0)) \<and>
     blockCounter bc = i64 (blockCounter bc0 + 1) \<and> mempool bc = mempool bc0 \<and> pendingBlock bc = [] \<and>
     confirmedHashes bc = confirmedHashes bc0 \<union> txHash ` set (pendingBlock bc0) \<and>
     l2bak bc = Some (stateFile bc0) \<and> ledger bc"

definition restored :: "'c Blockchain \<Rightarrow> 'c Blockchain \<Rightarrow> bool" where
  "restored bc0 bc \<longleftrightarrow>
     stateFile bc = stateFile bc0 \<and> blockHistory bc = blockHistory bc0 \<and> blockCounter bc = blockCounter bc0 \<and>
     confirmedHashes bc = confirmedHashes bc0 \<and> mempool bc = mempool bc0 \<and>
     map txHash (pendingBlock bc) = map txHash (pendingBlock bc0) \<and>
     map sender_nonce (pendingBlock bc) = map sender_nonce (pendingBlock bc0) \<and> ledger bc"

lemma apply_ledger: "applyConfirmedTransactions env core io bc txs = (r, bc') \<Longrightarrow> ledger bc' = ledger bc"
  by (rule explorer_view_fields(6)) (rule apply_explorer_view)

lemma persistChain_ledger: "persistChain w bc = (e, bc') \<Longrightarrow> ledger bc' = ledger bc"
  by (metis persistChain_frame(12) snd_conv)

lemma L2ConfirmBlock_staged:
  assumes "L2ConfirmBlock env core io id bc = (Inr (moved, block, backup), bc1)" and "ledger bc"
  shows "staged bc bc1 \<and> backup \<and> moved = map (stamp (blockCounter bc)) (pendingBlock bc) \<and>
     bBlockNumber block = blockCounter bc \<and> last (blockHistory bc1) = block"
  using assms(1)
proof (cases rule: L2ConfirmBlock_cases)
  case (applied bc2)
  note v = explorer_view_fields [OF apply_explorer_view [OF applied(1)]]
  have fin: "l2_finish io (pendingBlock bc) True bc2 = (Inr (moved, block, backup), bc1)" using applied(2) assms(2) by simp
  note c = l2_confirmed [OF fin]
  have "l2bak bc2 = Some (stateFile bc)" using apply_success(2) [OF applied(1) assms(2)] by blast
  moreover have "ledger bc1"
    using fin v(6) assms(2)
    by (auto simp: l2_finish_eq persist_or_undo_def Let_def split: if_splits prod.splits option.splits dest!: persistChain_ledger)
  ultimately show ?thesis using c v unfolding staged_def by (intro conjI exI [of _ block]) auto
qed simp

lemma update_first_snoc: "\<forall>x \<in> set xs. \<not> P x \<Longrightarrow> P y \<Longrightarrow> update_first P f (xs @ [y]) = xs @ [f y]"
  by (induction xs) auto

lemma ApplyBlockHeader_staged:
  assumes "staged bc0 bc" and "\<forall>b \<in> set (blockHistory bc0). bBlockNumber b \<noteq> blockCounter bc0"
  shows "staged bc0 (ApplyBlockHeader w bc (blockCounter bc0) header producer) \<and>
     last (blockHistory (ApplyBlockHeader w bc (blockCounter bc0) header producer)) =
       set_header header producer (last (blockHistory bc))"
proof -
  from assms(1) obtain b where b: "blockHistory bc = blockHistory bc0 @ [b]" "bBlockNumber b = blockCounter bc0"
    "bTxHashes b = map txHash (pendingBlock bc0)"
    by (auto simp: staged_def)
  let ?P = "\<lambda>x. bBlockNumber x = blockCounter bc0"
  have up: "update_first ?P (set_header header producer) (blockHistory bc) = blockHistory bc0 @ [set_header header producer b]"
    unfolding b(1) using assms(2) b(2) by (intro update_first_snoc) auto
  have ex: "list_ex ?P (blockHistory bc)" unfolding b(1) using b(2) by (simp add: list_ex_iff)
  then have eq: "ApplyBlockHeader w bc (blockCounter bc0) header producer =
      snd (persistChain w (bc\<lparr>blockHistory := blockHistory bc0 @ [set_header header producer b]\<rparr>))"
    by (simp only: ApplyBlockHeader_def if_True up)
  show ?thesis using assms(1) b unfolding eq staged_def by (auto simp: set_header_def)
qed

lemma UndoLastConfirmedBlock_staged:
  assumes "staged bc0 bc" and "bBlockNumber block = blockCounter bc0" and "ioRestore io = CopyOk"
    and "moved = map (stamp (blockCounter bc0)) (pendingBlock bc0)" and "inflight_ok bc0"
  shows "restored bc0 (snd (UndoLastConfirmedBlock io block moved True bc))"
proof -
  from assms(1) obtain b where b: "blockHistory bc = blockHistory bc0 @ [b]" "bBlockNumber b = blockCounter bc0"
    and s: "blockCounter bc = i64 (blockCounter bc0 + 1)" "mempool bc = mempool bc0" "pendingBlock bc = []"
    "confirmedHashes bc = confirmedHashes bc0 \<union> txHash ` set (pendingBlock bc0)" "l2bak bc = Some (stateFile bc0)" "ledger bc"
    by (auto simp: staged_def)
  let ?bc1 = "snd (restore_state io bc)"
  have r: "restore_state io bc = (True, bc\<lparr>stateFile := stateFile bc0\<rparr>)"
    using s(5) assms(3) by (simp add: restore_state_def)
  let ?bc2 = "undoExplorerConfirmLocked block moved ToPending (bc\<lparr>stateFile := stateFile bc0\<rparr>)"
  let ?bc3 = "remove_backup io ?bc2"
  have roll: "rollbackConfirmLocked io block moved True ToPending bc = (None, ?bc3)"
    using s(6) by (simp add: rollbackConfirmLocked_def r)
  have u: "blockHistory ?bc2 = blockHistory bc0" "blockCounter ?bc2 = blockCounter bc0"
    using b s(1) assms(2) by (simp_all add: undoExplorerConfirmLocked_def undo_tip_def)
  have disj: "confirmedHashes bc0 \<union> txHash ` set (pendingBlock bc0) - txHash ` set (pendingBlock bc0) = confirmedHashes bc0"
    using assms(5) by (auto simp: inflight_ok_def)
  have frame: "stateFile ?bc3 = stateFile bc0" "blockHistory ?bc3 = blockHistory bc0" "blockCounter ?bc3 = blockCounter bc0"
    "mempool ?bc3 = mempool bc0" "map txHash (pendingBlock ?bc3) = map txHash (pendingBlock bc0)"
    "map sender_nonce (pendingBlock ?bc3) = map sender_nonce (pendingBlock bc0)" "confirmedHashes ?bc3 = confirmedHashes bc0" "ledger ?bc3"
    using u s disj assms(4) by (simp_all add: remove_backup_def image_image comp_def)
  have "snd (UndoLastConfirmedBlock io block moved True bc) = snd (persistChain (ioPersist io) ?bc3)"
    by (simp add: UndoLastConfirmedBlock_def roll case_prod_beta Let_def)
  then show ?thesis unfolding restored_def using frame by (simp add: persistChain_frame)
qed

lemma commitBlockToRocks_chain:
  "commitBlockToRocks fx block txs root nd = (e, nd1) \<Longrightarrow> ndChain nd1 = ndChain nd"
  by (auto simp: commitBlockToRocks_def Let_def split: if_splits sum.splits prod.splits)

lemma commit_txs_hashes: "commit_txs h txs = Inr rows \<Longrightarrow> map fst rows = map txHash txs"
  by (induction txs arbitrary: rows) (auto split: option.splits sum.splits)

lemma commitBlockToRocks_success:
  assumes "commitBlockToRocks fx block (map Some txs) root nd = (None, nd1)" and "fxRocks fx"
  shows "\<exists>payload. fxCommit fx payload (ndRocks nd) = (True, ndRocks nd1) \<and> rbTxHashes (bcBlock payload) = map txHash txs \<and>
     rbHeight (bcBlock payload) = GatewayBlockToRocksHeight (bBlockNumber block) \<and> rbBlockHash (bcBlock payload) = bBlockHash block \<and>
     rbStateRoot (bcBlock payload) \<noteq> []"
proof -
  let ?root = "commit_root fx nd root"
  from assms obtain rows accounts where
    "commit_txs (GatewayBlockToRocksHeight (bBlockNumber block)) txs = Inr rows" "?root \<noteq> []"
    "fxCommit fx (commit_payload block ?root rows accounts) (ndRocks nd) = (True, ndRocks nd1)"
    by (auto simp: commitBlockToRocks_def Let_def split: if_splits sum.splits prod.splits)
  then show ?thesis
    by (intro exI [of _ "commit_payload block ?root rows accounts"]) (simp add: commit_payload_def commit_txs_hashes)
qed

lemma staged_discard [simp]:
  "blockHistory (ForgetTxPool rm (DiscardStateBackup io b bc) hs) = blockHistory bc"
  "stateFile (ForgetTxPool rm (DiscardStateBackup io b bc) hs) = stateFile bc"
  "l2bak (ForgetTxPool rm (DiscardStateBackup io b bc) hs) = (if b \<and> ioRemove io then None else l2bak bc)"
  by (simp_all add: ForgetTxPool_def DiscardStateBackup_def remove_backup_def)

lemma undo_block_restored:
  assumes "staged bc0 (ndChain nd)" "bBlockNumber block = blockCounter bc0" "ioRestore io = CopyOk"
    "moved = map (stamp (blockCounter bc0)) (pendingBlock bc0)" "inflight_ok bc0"
  shows "restored bc0 (ndChain (undo_block io block moved True nd))"
  using UndoLastConfirmedBlock_staged [OF assms] by (simp add: undo_block_def)

lemma DurableCommit_staged:
  assumes "DurableCommitAfterExplorer fx io rm point block moved True nd = ((err, out), nd2)"
    and "staged bc0 (ndChain nd)" "bBlockNumber block = blockCounter bc0" "ioRestore io = CopyOk"
    "moved = map (stamp (blockCounter bc0)) (pendingBlock bc0)" "inflight_ok bc0" "point \<noteq> FailPointCrashAfterExplorer"
  shows "(err \<noteq> None \<longrightarrow> restored bc0 (ndChain nd2)) \<and>
    (err = None \<longrightarrow> blockHistory (ndChain nd2) = blockHistory (ndChain nd) \<and> frBlock out = block \<and>
       (ioRemove io \<longrightarrow> l2bak (ndChain nd2) = None) \<and>
       (fxRocks fx \<longrightarrow> (\<exists>payload. fxCommit fx payload (ndRocks nd) = (True, ndRocks nd2) \<and>
          rbTxHashes (bcBlock payload) = map txHash (pendingBlock bc0) \<and>
          rbHeight (bcBlock payload) = GatewayBlockToRocksHeight (blockCounter bc0) \<and>
          rbBlockHash (bcBlock payload) = bBlockHash block)))"
proof -
  note undo = undo_block_restored [OF _ assms(3-6)]
  obtain e nd1 where c: "commitBlockToRocks fx block (map Some moved) (bStateRoot block) nd = (e, nd1)" by fastforce
  note ch = commitBlockToRocks_chain [OF c]
  consider "point = FailPointAfterExplorerBeforeRocks" | "point = FailPointRocksWriteBatch" | "point = FailPointNone"
    using assms(7) by (cases point) auto
  then show ?thesis
  proof cases
    case 1
    then show ?thesis using assms(1,2) undo [of nd] by (auto simp: DurableCommitAfterExplorer_def Let_def)
  next
    case 2
    then have "err \<noteq> None" "nd2 = undo_block io block moved True (nd\<lparr>ndCommitErrors := Suc (ndCommitErrors nd)\<rparr>)"
      using assms(1) by (auto simp: DurableCommitAfterExplorer_def Let_def)
    then show ?thesis using assms(2) undo [of "nd\<lparr>ndCommitErrors := Suc (ndCommitErrors nd)\<rparr>"] by auto
  next
    case 3
    show ?thesis
    proof (cases e)
      case (Some x)
      then have "err \<noteq> None" "nd2 = undo_block io block moved True (nd1\<lparr>ndCommitErrors := Suc (ndCommitErrors nd1)\<rparr>)"
        using assms(1) 3 c by (auto simp: DurableCommitAfterExplorer_def Let_def)
      then show ?thesis using assms(2) ch undo [of "nd1\<lparr>ndCommitErrors := Suc (ndCommitErrors nd1)\<rparr>"] by auto
    next
      case None
      then have r: "err = None" "frBlock out = block" "ndRocks nd2 = ndRocks nd1"
        "ndChain nd2 = ForgetTxPool rm (DiscardStateBackup io True (ndChain nd1)) (filter (\<lambda>h. h \<noteq> []) (map txHash moved))"
        using assms(1) 3 c by (auto simp: DurableCommitAfterExplorer_def Let_def)
      have h: "map txHash moved = map txHash (pendingBlock bc0)" by (simp add: assms(5) comp_def)
      have "\<exists>payload. fxCommit fx payload (ndRocks nd) = (True, ndRocks nd2) \<and>
          rbTxHashes (bcBlock payload) = map txHash (pendingBlock bc0) \<and>
          rbHeight (bcBlock payload) = GatewayBlockToRocksHeight (blockCounter bc0) \<and>
          rbBlockHash (bcBlock payload) = bBlockHash block" if "fxRocks fx"
        using commitBlockToRocks_success [OF c [unfolded None] that] r(3) h assms(3) by auto
      then show ?thesis using r ch by auto
    qed
  qed
qed

subsection \<open>Properties\<close>

lemma finalize_atomic:
  assumes "L2ConfirmBlock env core io0 id bc = (Inr (moved, block, backup), ndChain nd)" and "ledger bc" "inflight_ok bc"
    and "\<forall>b \<in> set (blockHistory bc). bBlockNumber b \<noteq> blockCounter bc"
    and "ioRestore io = CopyOk" "ioRemove io" "point \<noteq> FailPointCrashAfterExplorer"
    and "FinalizeConfirmedBlock fx io rm point block moved backup producer nd = ((err, out), nd2)"
  shows "(err \<noteq> None \<longrightarrow> restored bc (ndChain nd2)) \<and>
    (err = None \<longrightarrow> (\<exists>b. blockHistory (ndChain nd2) = blockHistory bc @ [b] \<and> l2bak (ndChain nd2) = None \<and>
       bTxHashes b = map txHash (pendingBlock bc) \<and> bBlockHash b = bBlockHash (frBlock out) \<and>
       (fxRocks fx \<longrightarrow> (\<exists>payload. fxCommit fx payload (ndRocks nd) = (True, ndRocks nd2) \<and>
          rbTxHashes (bcBlock payload) = bTxHashes b \<and>
          rbHeight (bcBlock payload) = GatewayBlockToRocksHeight (blockCounter bc) \<and>
          rbBlockHash (bcBlock payload) = bBlockHash b))))"
proof -
  from L2ConfirmBlock_staged [OF assms(1,2)] have st: "staged bc (ndChain nd)" and backup
    and m: "moved = map (stamp (blockCounter bc)) (pendingBlock bc)" and n: "bBlockNumber block = blockCounter bc"
    and l: "last (blockHistory (ndChain nd)) = block" by blast+
  obtain b where b: "blockHistory (ndChain nd) = blockHistory bc @ [b]" "bTxHashes b = map txHash (pendingBlock bc)"
    using st by (auto simp: staged_def)
  with l have "b = block" by simp
  show ?thesis
  proof (cases "assembleBlockHeader fx nd (bBlockNumber block) moved producer (bTimestamp block)")
    case None
    show ?thesis
    proof (cases "fxRocks fx")
      case True
      then have "err \<noteq> None" "nd2 = undo_block io block moved True nd"
        using assms(8) None \<open>backup\<close> by (auto simp: FinalizeConfirmedBlock_def Let_def)
      then show ?thesis using undo_block_restored [OF st n assms(5) m assms(3)] by auto
    next
      case False
      then have "err = None" "frBlock out = block"
        "ndChain nd2 = snd (persistChain (ioPersist io) (DiscardStateBackup io True (ndChain nd)))"
        using assms(8) None \<open>backup\<close> by (auto simp: FinalizeConfirmedBlock_def Let_def)
      then show ?thesis using False b \<open>b = block\<close> assms(6) by (simp add: DiscardStateBackup_def remove_backup_def)
    qed
  next
    case (Some header)
    let ?bc1 = "ApplyBlockHeader (ioPersist io) (ndChain nd) (blockCounter bc) header producer"
    let ?block = "block\<lparr>bBlockHash := hdBlockHash header, bMerkleRoot := hdMerkleRoot header, bStateRoot := hdStateRoot header,
        bPreviousHash := hdPreviousHash header, bProducerNodeID := producer\<rparr>"
    have d: "DurableCommitAfterExplorer fx io rm point ?block moved True (nd\<lparr>ndChain := ?bc1\<rparr>) = ((err, out), nd2)"
      using assms(8) Some \<open>backup\<close> n by (simp add: FinalizeConfirmedBlock_def)
    note h = ApplyBlockHeader_staged [OF st assms(4), of "ioPersist io" header producer]
    from h obtain b1 where b1: "blockHistory ?bc1 = blockHistory bc @ [b1]" "bTxHashes b1 = map txHash (pendingBlock bc)"
      by (auto simp: staged_def)
    then have "b1 = set_header header producer block" using h l by simp
    then have bh: "bBlockHash b1 = bBlockHash ?block" by (simp add: set_header_def)
    have r: "(err \<noteq> None \<longrightarrow> restored bc (ndChain nd2)) \<and>
      (err = None \<longrightarrow> blockHistory (ndChain nd2) = blockHistory ?bc1 \<and> frBlock out = ?block \<and> l2bak (ndChain nd2) = None \<and>
       (fxRocks fx \<longrightarrow> (\<exists>payload. fxCommit fx payload (ndRocks nd) = (True, ndRocks nd2) \<and>
          rbTxHashes (bcBlock payload) = map txHash (pendingBlock bc) \<and>
          rbHeight (bcBlock payload) = GatewayBlockToRocksHeight (blockCounter bc) \<and>
          rbBlockHash (bcBlock payload) = bBlockHash ?block)))"
      using DurableCommit_staged [OF d _ _ assms(5) m assms(3,7)] h n assms(6) by simp
    show ?thesis
    proof (cases err)
      case None
      with r b1 bh show ?thesis by (intro conjI impI exI [of _ b1]) simp_all
    next
      case (Some x)
      with r show ?thesis by blast
    qed
  qed
qed

text \<open>
  C10: the confirmation boundary is all or nothing. Take a successful \<open>L2ConfirmBlock\<close> from a chain with a
  ledger whose in-flight transactions are in order (\<open>inflight_ok\<close>) and which has no block with the number
  the new one gets, then finalise its result, with no other goroutine writing in either call, with a file system that can
  copy Core's backup back and delete it, and without the injected
  crash point, which simulates a process that dies. Then finalising either fails and leaves Core's
  state, the history, the counter, the confirmed set and the mempool as they were before the
  confirmation with the same transactions pending again, or succeeds: the block is on top of the old
  history, the backup is gone, and with Rocks on, Rocks accepted a block of that height with exactly the
  pending transactions and the header hash the explorer shows.
\<close>

theorem FinalizeConfirmedBlock_atomic:
  assumes "L2ConfirmBlock env core io0 id bc = (Inr (moved, block, backup), ndChain nd)" and "ledger bc" "inflight_ok bc"
    and "\<forall>b \<in> set (blockHistory bc). bBlockNumber b \<noteq> blockCounter bc"
    and "ioRestore io = CopyOk" "ioRemove io" "point \<noteq> FailPointCrashAfterExplorer"
    and "FinalizeConfirmedBlock fx io rm point block moved backup producer nd = ((err, out), nd2)"
  shows "(err \<noteq> None \<longrightarrow> restored bc (ndChain nd2)) \<and>
    (err = None \<longrightarrow> (\<exists>b. blockHistory (ndChain nd2) = blockHistory bc @ [b] \<and> l2bak (ndChain nd2) = None \<and>
       bTxHashes b = map txHash (pendingBlock bc) \<and> bBlockHash b = bBlockHash (frBlock out) \<and>
       (fxRocks fx \<longrightarrow> (\<exists>payload. fxCommit fx payload (ndRocks nd) = (True, ndRocks nd2) \<and>
          rbTxHashes (bcBlock payload) = bTxHashes b \<and>
          rbHeight (bcBlock payload) = GatewayBlockToRocksHeight (blockCounter bc) \<and>
          rbBlockHash (bcBlock payload) = bBlockHash b))))"
  using assms by (rule finalize_atomic)

text \<open>An API whose Core cannot assemble a header.\<close>

definition no_header_api :: "(nat, unit) final_api" where
  "no_header_api = \<lparr>fxRocks = True, fxReads = (\<lambda>r. demo_rocks), fxAssemble = (\<lambda>c n p t hs pr. None), fxStateRoot = (\<lambda>c. None),
     fxQuery = (\<lambda>c a. None), fxAccount = (\<lambda>r a. None), fxOrder = id, fxCommit = (\<lambda>p r. (False, r))\<rparr>"

theorem FinalizeConfirmedBlock_atomic_witness:
  "\<exists>moved block bc1. L2ConfirmBlock plain_env counting_core good_io id pending_chain = (Inr (moved, block, True), bc1) \<and>
     restored pending_chain (ndChain (snd (FinalizeConfirmedBlock no_header_api good_io (\<lambda>h. True) FailPointNone block moved True
       ''n0'' \<lparr>ndChain = bc1, ndRocks = (), ndCommitErrors = 0\<rparr>)))"
proof -
  obtain moved block bc1 where l2: "L2ConfirmBlock plain_env counting_core good_io id pending_chain = (Inr (moved, block, True), bc1)"
    using demo_success by blast
  let ?nd = "\<lparr>ndChain = bc1, ndRocks = (), ndCommitErrors = 0\<rparr>"
  obtain err out nd2 where f: "FinalizeConfirmedBlock no_header_api good_io (\<lambda>h. True) FailPointNone block moved True ''n0'' ?nd = ((err, out), nd2)"
    by (metis surj_pair)
  have "assembleBlockHeader no_header_api ?nd n txs pr t = None" for n txs pr t
    by (simp add: assembleBlockHeader_def no_header_api_def)
  then have "err \<noteq> None" using f by (auto simp: FinalizeConfirmedBlock_def Let_def no_header_api_def)
  moreover have "inflight_ok pending_chain" by (simp add: inflight_ok_def pending_chain_simps sender_nonce_def)
  ultimately have "restored pending_chain (ndChain nd2)"
    using FinalizeConfirmedBlock_atomic [OF _ pending_chain_simps(1) _ _ _ _ _ f, of plain_env counting_core good_io] l2
    by (simp add: pending_chain_simps good_io_def)
  with l2 f show ?thesis by (metis snd_conv)
qed

lemma undo_disk_frame:
  "chainFile (undoExplorerConfirmLocked b txs q bc) = chainFile bc"
  "durableHead (undoExplorerConfirmLocked b txs q bc) = durableHead bc"
  "chainDisk (undoExplorerConfirmLocked b txs q bc) = chainDisk bc"
proof -
  have "chainFile (undo_one q x tx) = chainFile x \<and> durableHead (undo_one q x tx) = durableHead x \<and> chainDisk (undo_one q x tx) = chainDisk x"
    for x :: "'a Blockchain" and tx by (simp add: undo_one_def Let_def split: requeue.split)
  then have "chainFile (foldl (undo_one q) x txs) = chainFile x \<and> durableHead (foldl (undo_one q) x txs) = durableHead x \<and>
      chainDisk (foldl (undo_one q) x txs) = chainDisk x" for x :: "'a Blockchain"
    by (induction txs arbitrary: x) simp_all
  moreover have "chainFile (undo_fees b (undo_tip b bc)) = chainFile bc" "durableHead (undo_fees b (undo_tip b bc)) = durableHead bc"
    "chainDisk (undo_fees b (undo_tip b bc)) = chainDisk bc" by (simp_all add: undo_fees_def undo_tip_def Let_def)
  ultimately show "chainFile (undoExplorerConfirmLocked b txs q bc) = chainFile bc"
    "durableHead (undoExplorerConfirmLocked b txs q bc) = durableHead bc" "chainDisk (undoExplorerConfirmLocked b txs q bc) = chainDisk bc"
    by (simp_all add: undoExplorerConfirmLocked_def)
qed

text \<open>
  Remark: undoing a persisted block never reaches the disk: the durable head is not lowered, so the guard
  against shrinking refuses the write, the undo reports an error and the snapshot still holds the block.
\<close>

theorem UndoLastConfirmedBlock_write_refused:
  assumes "staged bc0 bc" "bBlockNumber block = blockCounter bc0" "ioRestore io = CopyOk" "chainFile bc \<noteq> []"
    and "durableHead bc = blockCounter bc0" "0 \<le> blockCounter bc0" "historyHead (blockHistory bc0) < blockCounter bc0"
  shows "fst (UndoLastConfirmedBlock io block moved True bc) =
       Some (ExplorerPersist (ShrinkHead (blockCounter bc0) (historyHead (blockHistory bc0)))) \<and>
     chainDisk (snd (UndoLastConfirmedBlock io block moved True bc)) = chainDisk bc"
proof -
  from assms(1) obtain b where b: "blockHistory bc = blockHistory bc0 @ [b]" "bBlockNumber b = blockCounter bc0"
    and s: "l2bak bc = Some (stateFile bc0)" "ledger bc" by (auto simp: staged_def)
  let ?bc2 = "undoExplorerConfirmLocked block moved ToPending (bc\<lparr>stateFile := stateFile bc0\<rparr>)"
  have roll: "rollbackConfirmLocked io block moved True ToPending bc = (None, remove_backup io ?bc2)"
    using s assms(3) by (simp add: rollbackConfirmLocked_def restore_state_def)
  have "blockHistory ?bc2 = blockHistory bc0"
    using b assms(2) by (simp add: undoExplorerConfirmLocked_def undo_tip_def)
  then have "persistChain (ioPersist io) (remove_backup io ?bc2) =
      (Some (ShrinkHead (blockCounter bc0) (historyHead (blockHistory bc0))), remove_backup io ?bc2)"
    using assms(4-7) by (simp add: persistChain_def remove_backup_def undo_disk_frame Let_def)
  then show ?thesis by (simp add: UndoLastConfirmedBlock_def roll remove_backup_def undo_disk_frame)
qed

text \<open>
  Remark: with Rocks on, a block that contains a faucet transfer is never finalised: Core can execute the
  transfer but it has no Core form to commit, so the commit fails and the block is undone every time.
\<close>

theorem commitBlockToRocks_refuses_faucet:
  assumes "fxRocks fx" "tx \<in> set txs" "txFrom tx = FaucetAddress"
  shows "\<exists>e. commitBlockToRocks fx block (map Some txs) root nd = (Some e, nd)"
proof -
  have "ToCoreJSON tx = None" using assms(3) by (simp add: ToCoreJSON_def)
  then have "\<exists>e. commit_txs h txs = Inl e" for h
    using assms(2) by (induction txs) (auto split: option.splits sum.splits)
  then obtain e where "commit_txs (GatewayBlockToRocksHeight (bBlockNumber block)) txs = Inl e" by blast
  then show ?thesis using assms(1) by (auto simp: commitBlockToRocks_def Let_def)
qed

end
