(* ===== verification/Rating.thy ===== *)
theory Rating
  imports Chain_Data
begin

text \<open>
  Node rating (\<^verbatim>\<open>internal/rating/registry.go\<close>, \<^verbatim>\<open>slashing.go\<close>): the reputation formula, the registry
  operations, slashing with suspension, and the weighted selection of a validator committee.

  The registry map is an association list. The random source is an argument: \<open>rnd k n\<close> is the value
  of the \<open>k\<close>-th call of \<open>rand.Int63n(n)\<close> (or \<open>rand.Intn(n)\<close>), which lies in \<open>[0, n)\<close>. The product with a
  floating point factor in \<open>ApplyUptimePenalty\<close> is an argument as well: the value of
  \<open>int64(float64(uptime) * factor)\<close>.
\<close>

definition ScoreScale :: int where
  "ScoreScale = 1000000"

datatype node_status = Active | Suspended

record NodeScores =
  NodeID :: string
  Status :: node_status
  UptimeScore :: int
  LatencyScore :: int
  MissedVotes :: int
  TotalVotes :: int
  Stake :: int
  ReputationScore :: int
  LoadScore :: int
  CurrentTasks :: int
  MaxCapacity :: int

type_synonym registry = "(string \<times> NodeScores) list"

definition VoteAccuracy :: "NodeScores \<Rightarrow> int" where
  "VoteAccuracy n =
     (if TotalVotes n \<le> 0 then ScoreScale
      else
        let correct = i64 (TotalVotes n - MissedVotes n);
            correct' = (if correct < 0 then 0 else correct)
        in go_div (i64 (correct' * ScoreScale)) (TotalVotes n))"

definition stake_weight :: "int \<Rightarrow> NodeScores \<Rightarrow> int" where
  "stake_weight maxStake n =
     (if maxStake > 0 \<and> Stake n \<ge> 0
      then let w = go_div (i64 (Stake n * ScoreScale)) maxStake in if w < ScoreScale then w else ScoreScale
      else ScoreScale)"

definition ComputeReputation :: "int \<Rightarrow> NodeScores \<Rightarrow> NodeScores" where
  "ComputeReputation maxStake n =
     n\<lparr>ReputationScore :=
         go_div (i64 (UptimeScore n * 300 + LatencyScore n * 200 + VoteAccuracy n * 300 + stake_weight maxStake n * 200))
           1000\<rparr>"

definition SelectionWeight :: "NodeScores \<Rightarrow> int" where
  "SelectionWeight n =
     (let penalty = i64 (ScoreScale - LoadScore n);
          penalty' = (if penalty < 0 then 0 else penalty)
      in go_div (i64 (ReputationScore n * penalty')) ScoreScale)"

definition IsEligibleForCommittee :: "NodeScores \<Rightarrow> bool" where
  "IsEligibleForCommittee n \<longleftrightarrow> Status n \<noteq> Suspended"

subsection \<open>Registry\<close>

definition new_node :: "string \<Rightarrow> int \<Rightarrow> int \<Rightarrow> NodeScores" where
  "new_node nodeID stake maxCapacity =
     ComputeReputation 0
       \<lparr>NodeID = nodeID, Status = Active, UptimeScore = ScoreScale, LatencyScore = ScoreScale, MissedVotes = 0,
        TotalVotes = 0, Stake = stake, ReputationScore = 0, LoadScore = 0, CurrentTasks = 0, MaxCapacity = maxCapacity\<rparr>"

definition EnsureNode :: "registry \<Rightarrow> string \<Rightarrow> int \<Rightarrow> int \<Rightarrow> registry" where
  "EnsureNode r nodeID stake maxCapacity =
     (case map_of r nodeID of
        Some n \<Rightarrow> r
      | None \<Rightarrow> AList.update nodeID (new_node nodeID stake (if maxCapacity \<le> 0 then 1 else maxCapacity)) r)"

definition maxStakeLocked :: "registry \<Rightarrow> int" where
  "maxStakeLocked r = foldl (\<lambda>m n. if Stake n > m then Stake n else m) 0 (map snd r)"

definition modify_node :: "registry \<Rightarrow> string \<Rightarrow> (NodeScores \<Rightarrow> NodeScores) \<Rightarrow> registry" where
  "modify_node r nodeID f =
     (case map_of r nodeID of None \<Rightarrow> r | Some n \<Rightarrow> AList.update nodeID (f n) r)"

definition SetVoteStats :: "registry \<Rightarrow> string \<Rightarrow> int \<Rightarrow> int \<Rightarrow> registry" where
  "SetVoteStats r nodeID missed votes =
     modify_node r nodeID (\<lambda>n.
       let missed' = (if missed < 0 then 0 else missed);
           votes' = (if votes < missed' then missed' else votes)
       in ComputeReputation (maxStakeLocked r) (n\<lparr>MissedVotes := missed', TotalVotes := votes'\<rparr>))"

definition clamp_score :: "int \<Rightarrow> int" where
  "clamp_score s = (if s < 0 then 0 else if s > ScoreScale then ScoreScale else s)"

definition SetUptime :: "registry \<Rightarrow> string \<Rightarrow> int \<Rightarrow> registry" where
  "SetUptime r nodeID score =
     modify_node r nodeID (\<lambda>n. ComputeReputation (maxStakeLocked r) (n\<lparr>UptimeScore := clamp_score score\<rparr>))"

definition ApplyUptimePenalty :: "registry \<Rightarrow> string \<Rightarrow> (int \<Rightarrow> int) \<Rightarrow> registry" where
  "ApplyUptimePenalty r nodeID scaled =
     modify_node r nodeID (\<lambda>n.
       ComputeReputation (maxStakeLocked r) (n\<lparr>UptimeScore := clamp_score (scaled (UptimeScore n))\<rparr>))"

definition SetLoad :: "registry \<Rightarrow> string \<Rightarrow> int \<Rightarrow> int \<Rightarrow> registry" where
  "SetLoad r nodeID currentTasks maxCapacity =
     modify_node r nodeID (\<lambda>n.
       let tasks = (if currentTasks < 0 then 0 else currentTasks);
           cap = (if maxCapacity \<le> 0 then 1 else maxCapacity)
       in n\<lparr>CurrentTasks := tasks, MaxCapacity := cap, LoadScore := clamp_score (go_div (i64 (tasks * ScoreScale)) cap)\<rparr>)"

definition RecomputeAll :: "registry \<Rightarrow> registry" where
  "RecomputeAll r = map (\<lambda>(k, n). (k, ComputeReputation (maxStakeLocked r) n)) r"

definition SelectionWeightFor :: "registry \<Rightarrow> string \<Rightarrow> int" where
  "SelectionWeightFor r nodeID =
     (case map_of r nodeID of
        None \<Rightarrow> ScoreScale
      | Some n \<Rightarrow> (let w = SelectionWeight n in if w \<le> 0 then 1 else w))"

definition SelectionPercentFromLoad :: "int \<Rightarrow> int" where
  "SelectionPercentFromLoad loadPct =
     (if loadPct = 0 then 50 else if loadPct < 20 then 30 else if loadPct < 30 then 25
      else if loadPct < 60 then 20 else if loadPct < 85 then 15 else 10)"

subsection \<open>Slashing\<close>

text \<open>The reason is an integer in the code; \<open>SlashOther\<close> is any value without a tier of its own.\<close>

datatype SlashingReason = SlashNoVote | SlashAgainstMajority | SlashEquivocation | SlashInvalidTx | SlashOther

definition SuspensionThreshold :: int where
  "SuspensionThreshold = 100000"

fun reputationPenaltyFor :: "SlashingReason \<Rightarrow> int" where
  "reputationPenaltyFor SlashNoVote = ScoreScale * 2 div 100"
| "reputationPenaltyFor SlashAgainstMajority = ScoreScale * 3 div 100"
| "reputationPenaltyFor SlashEquivocation = ScoreScale * 15 div 100"
| "reputationPenaltyFor SlashInvalidTx = ScoreScale * 10 div 100"
| "reputationPenaltyFor SlashOther = 0"

fun stakeSlashFor :: "SlashingReason \<Rightarrow> int" where
  "stakeSlashFor SlashNoVote = 1"
| "stakeSlashFor SlashAgainstMajority = 2"
| "stakeSlashFor SlashEquivocation = 100"
| "stakeSlashFor SlashInvalidTx = 50"
| "stakeSlashFor SlashOther = 0"

definition slash_node :: "SlashingReason \<Rightarrow> NodeScores \<Rightarrow> NodeScores" where
  "slash_node reason n =
     (let rep = i64 (ReputationScore n - reputationPenaltyFor reason);
          rep' = (if rep < 0 then 0 else rep);
          st = i64 (Stake n - stakeSlashFor reason);
          st' = (if st < 0 then 0 else st)
      in n\<lparr>ReputationScore := rep', Stake := st',
           Status := (if rep' < SuspensionThreshold then Suspended else Status n)\<rparr>)"

text \<open>\<open>None\<close>: node not found.\<close>

definition applySlashLocked :: "registry \<Rightarrow> string \<Rightarrow> SlashingReason \<Rightarrow> registry option" where
  "applySlashLocked r nodeID reason =
     (case map_of r nodeID of None \<Rightarrow> None | Some n \<Rightarrow> Some (AList.update nodeID (slash_node reason n) r))"

definition ApplySlash :: "registry \<Rightarrow> string \<Rightarrow> SlashingReason \<Rightarrow> registry option" where
  "ApplySlash r nodeID reason = applySlashLocked r nodeID reason"

definition slash_batch_one :: "SlashingReason \<Rightarrow> registry \<Rightarrow> string \<Rightarrow> registry" where
  "slash_batch_one reason r nodeID =
     (if nodeID = [] then r
      else
        let r1 = (if map_of r nodeID = None then AList.update nodeID (new_node nodeID 0 1) r else r)
        in case applySlashLocked r1 nodeID reason of None \<Rightarrow> r1 | Some r2 \<Rightarrow> r2)"

definition ApplySlashBatch :: "registry \<Rightarrow> string list \<Rightarrow> SlashingReason \<Rightarrow> registry" where
  "ApplySlashBatch r nodeIDs reason = foldl (slash_batch_one reason) r nodeIDs"

subsection \<open>Committee\<close>

definition eligible_id :: "registry \<Rightarrow> string \<Rightarrow> bool" where
  "eligible_id r nodeID = (case map_of r nodeID of None \<Rightarrow> True | Some n \<Rightarrow> IsEligibleForCommittee n)"

definition filterEligibleCandidates :: "registry \<Rightarrow> string list \<Rightarrow> string list" where
  "filterEligibleCandidates r ids = filter (eligible_id r) ids"

definition pick_weight :: "registry \<Rightarrow> string \<Rightarrow> int" where
  "pick_weight r nodeID = (let w = SelectionWeightFor r nodeID in if w \<le> 0 then 1 else w)"

fun roll_pick :: "registry \<Rightarrow> int \<Rightarrow> int \<Rightarrow> string list \<Rightarrow> string option" where
  "roll_pick r roll s [] = None"
| "roll_pick r roll s (i # is) =
     (let s' = i64 (s + pick_weight r i) in if roll < s' then Some i else roll_pick r roll s' is)"

definition SelectByWeight :: "(int \<Rightarrow> int) \<Rightarrow> registry \<Rightarrow> string list \<Rightarrow> string" where
  "SelectByWeight rnd r ids =
     (case ids of
        [] \<Rightarrow> []
      | [i] \<Rightarrow> i
      | _ \<Rightarrow>
          (let eligible = filterEligibleCandidates r ids;
               weight = foldl (\<lambda>t i. i64 (t + pick_weight r i)) 0 eligible
           in case eligible of
                [] \<Rightarrow> []
              | [i] \<Rightarrow> i
              | _ \<Rightarrow>
                  (if weight \<le> 0 then eligible ! nat (rnd (int (length eligible)))
                   else case roll_pick r (rnd weight) 0 eligible of
                          Some i \<Rightarrow> i
                        | None \<Rightarrow> last eligible)))"

text \<open>The selection loop: at most \<open>cnt\<close> picks, the \<open>k\<close>-th with its own roll. A pick of the empty id
  ends it.\<close>

fun committee_loop :: "(nat \<Rightarrow> int \<Rightarrow> int) \<Rightarrow> registry \<Rightarrow> nat \<Rightarrow> nat \<Rightarrow> string list \<Rightarrow> string list" where
  "committee_loop rnd r k 0 remaining = []"
| "committee_loop rnd r k (Suc left) remaining =
     (if remaining = [] then []
      else
        let picked = SelectByWeight (rnd k) r remaining
        in if picked = [] then []
           else picked # committee_loop rnd r (Suc k) left (filter (\<lambda>i. i \<noteq> picked) remaining))"

definition SelectCommittee :: "(nat \<Rightarrow> int \<Rightarrow> int) \<Rightarrow> registry \<Rightarrow> string list \<Rightarrow> int \<Rightarrow> string list" where
  "SelectCommittee rnd r ids cnt =
     (let eligible = filterEligibleCandidates r ids
      in if cnt \<le> 0 \<or> eligible = [] then []
         else if cnt \<ge> int (length eligible) then eligible
         else committee_loop rnd r 0 (nat cnt) eligible)"

subsection \<open>Scores stay in range\<close>

text \<open>The bounds: scores in \<open>[0, ScoreScale]\<close>, votes and stakes below \<open>2^43\<close>, where a product with
  \<open>ScoreScale\<close> still fits 63 bits.\<close>

definition node_ok :: "NodeScores \<Rightarrow> bool" where
  "node_ok n \<longleftrightarrow>
     0 \<le> UptimeScore n \<and> UptimeScore n \<le> ScoreScale \<and> 0 \<le> LatencyScore n \<and> LatencyScore n \<le> ScoreScale \<and>
     0 \<le> MissedVotes n \<and> MissedVotes n \<le> TotalVotes n \<and> TotalVotes n < 2 ^ 43 \<and> 0 \<le> Stake n \<and> Stake n < 2 ^ 43 \<and>
     0 \<le> ReputationScore n \<and> ReputationScore n \<le> ScoreScale \<and> 0 \<le> LoadScore n \<and> LoadScore n \<le> ScoreScale \<and>
     1 \<le> MaxCapacity n"

definition registry_ok :: "registry \<Rightarrow> bool" where
  "registry_ok r \<longleftrightarrow> wf_map r \<and> (\<forall>(k, n) \<in> set r. node_ok n)"

lemma scaled_div:
  assumes "0 \<le> a" "a < 2 ^ 43" "0 < b"
  shows "go_div (i64 (a * ScoreScale)) b = a * ScoreScale div b"
    and "0 \<le> a * ScoreScale div b"
proof -
  have "a * ScoreScale < 2 ^ 63" "0 \<le> a * ScoreScale" using assms by (simp_all add: ScoreScale_def)
  moreover from this have "in_i64 (a * ScoreScale)" by (simp add: in_i64_def)
  ultimately show "go_div (i64 (a * ScoreScale)) b = a * ScoreScale div b" and "0 \<le> a * ScoreScale div b"
    using assms by (simp_all add: go_div_nonneg pos_imp_zdiv_nonneg_iff)
qed

lemma VoteAccuracy_range:
  assumes "0 \<le> MissedVotes n" "MissedVotes n \<le> TotalVotes n" "TotalVotes n < 2 ^ 43"
  shows "0 \<le> VoteAccuracy n \<and> VoteAccuracy n \<le> ScoreScale"
proof (cases "TotalVotes n \<le> 0")
  case True
  then show ?thesis by (simp add: VoteAccuracy_def ScoreScale_def)
next
  case False
  let ?c = "TotalVotes n - MissedVotes n"
  have c: "0 \<le> ?c" "?c < 2 ^ 43" "i64 ?c = ?c" using assms by (simp_all add: in_i64_def)
  then have "VoteAccuracy n = ?c * ScoreScale div TotalVotes n"
    using False scaled_div(1) [of ?c "TotalVotes n"] by (simp add: VoteAccuracy_def Let_def)
  moreover have "?c * ScoreScale div TotalVotes n \<le> TotalVotes n * ScoreScale div TotalVotes n"
    using assms False by (intro zdiv_mono1) (simp_all add: ScoreScale_def)
  ultimately show ?thesis using scaled_div(2) [of ?c "TotalVotes n"] c False by simp
qed

lemma stake_weight_range:
  "0 \<le> Stake n \<Longrightarrow> Stake n < 2 ^ 43 \<Longrightarrow> 0 \<le> stake_weight m n \<and> stake_weight m n \<le> ScoreScale"
  using scaled_div [of "Stake n" m] by (auto simp: stake_weight_def Let_def ScoreScale_def)

lemma ComputeReputation_range:
  assumes "0 \<le> UptimeScore n" "UptimeScore n \<le> ScoreScale" "0 \<le> LatencyScore n" "LatencyScore n \<le> ScoreScale"
    "0 \<le> MissedVotes n" "MissedVotes n \<le> TotalVotes n" "TotalVotes n < 2 ^ 43" "0 \<le> Stake n" "Stake n < 2 ^ 43"
  shows "0 \<le> ReputationScore (ComputeReputation m n) \<and> ReputationScore (ComputeReputation m n) \<le> ScoreScale"
proof -
  let ?s = "UptimeScore n * 300 + LatencyScore n * 200 + VoteAccuracy n * 300 + stake_weight m n * 200"
  have b: "0 \<le> ?s" "?s \<le> ScoreScale * 1000"
    using assms VoteAccuracy_range [of n] stake_weight_range [of n m] by simp_all
  then have "in_i64 ?s" "?s < 2 ^ 63" by (simp_all add: in_i64_def ScoreScale_def)
  then have "ReputationScore (ComputeReputation m n) = ?s div 1000"
    using b by (simp add: ComputeReputation_def go_div_nonneg)
  moreover have "?s div 1000 \<le> ScoreScale * 1000 div 1000" using b by (intro zdiv_mono1) simp_all
  ultimately show ?thesis using b by (simp add: pos_imp_zdiv_nonneg_iff)
qed

lemma ComputeReputation_ok: "node_ok n \<Longrightarrow> node_ok (ComputeReputation m n)"
  using ComputeReputation_range [of n m] by (simp add: node_ok_def ComputeReputation_def)

lemma ComputeReputation_okI:
  assumes "node_ok (n\<lparr>ReputationScore := 0\<rparr>)"
  shows "node_ok (ComputeReputation m n)"
  using assms ComputeReputation_range [of n m] by (simp add: node_ok_def ComputeReputation_def)

lemma registry_ok_update: "registry_ok r \<Longrightarrow> node_ok n \<Longrightarrow> registry_ok (AList.update k n r)"
  by (auto simp: registry_ok_def dest: update_elem)

lemma registry_ok_lookup: "registry_ok r \<Longrightarrow> map_of r k = Some n \<Longrightarrow> node_ok n"
  by (auto simp: registry_ok_def dest: map_of_SomeD)

lemma modify_node_ok:
  "registry_ok r \<Longrightarrow> (\<And>n. node_ok n \<Longrightarrow> node_ok (f n)) \<Longrightarrow> registry_ok (modify_node r k f)"
  by (auto simp: modify_node_def registry_ok_update registry_ok_lookup split: option.split)

lemma clamp_score_range: "0 \<le> clamp_score s \<and> clamp_score s \<le> ScoreScale"
  by (simp add: clamp_score_def ScoreScale_def)

lemma new_node_ok: "0 \<le> stake \<Longrightarrow> stake < 2 ^ 43 \<Longrightarrow> 1 \<le> cap \<Longrightarrow> node_ok (new_node k stake cap)"
  unfolding new_node_def by (rule ComputeReputation_okI) (simp add: node_ok_def ScoreScale_def)

lemma slash_node_ok:
  assumes "node_ok n"
  shows "node_ok (slash_node reason n)"
proof -
  have p: "0 \<le> reputationPenaltyFor reason" "reputationPenaltyFor reason \<le> ScoreScale"
    by (cases reason; simp add: ScoreScale_def)+
  have s: "0 \<le> stakeSlashFor reason" "stakeSlashFor reason \<le> 100" by (cases reason; simp)+
  have "i64 (ReputationScore n - reputationPenaltyFor reason) = ReputationScore n - reputationPenaltyFor reason"
    "i64 (Stake n - stakeSlashFor reason) = Stake n - stakeSlashFor reason"
    using assms p s by (simp_all add: node_ok_def in_i64_def ScoreScale_def)
  then show ?thesis using assms p s by (simp add: node_ok_def slash_node_def Let_def)
qed

subsection \<open>The registry as a machine\<close>

text \<open>Every mutating operation, with vote counts, stakes and capacities of at most 32 bits.\<close>

datatype rating_event =
    EvEnsure string "32 word" int
  | EvVotes string "32 word" "32 word"
  | EvUptime string int
  | EvPenalty string "int \<Rightarrow> int"
  | EvLoad string int int
  | EvRecompute
  | EvSlash string SlashingReason
  | EvSlashBatch "string list" SlashingReason

fun rating_step :: "registry \<Rightarrow> rating_event \<Rightarrow> registry" where
  "rating_step r (EvEnsure k stake cap) = EnsureNode r k (uint stake) cap"
| "rating_step r (EvVotes k missed votes) = SetVoteStats r k (uint missed) (uint votes)"
| "rating_step r (EvUptime k s) = SetUptime r k s"
| "rating_step r (EvPenalty k f) = ApplyUptimePenalty r k f"
| "rating_step r (EvLoad k tasks cap) = SetLoad r k tasks cap"
| "rating_step r EvRecompute = RecomputeAll r"
| "rating_step r (EvSlash k reason) = (case ApplySlash r k reason of None \<Rightarrow> r | Some r' \<Rightarrow> r')"
| "rating_step r (EvSlashBatch ks reason) = ApplySlashBatch r ks reason"

definition is_suspended :: "registry \<Rightarrow> string \<Rightarrow> bool" where
  "is_suspended r k = (case map_of r k of None \<Rightarrow> False | Some n \<Rightarrow> Status n = Suspended)"

definition suspended_le :: "registry \<Rightarrow> registry \<Rightarrow> bool" where
  "suspended_le r r' \<longleftrightarrow> (\<forall>k. is_suspended r k \<longrightarrow> is_suspended r' k)"

lemma suspended_le_refl [simp]: "suspended_le r r"
  by (simp add: suspended_le_def)

lemma suspended_le_trans: "suspended_le r s \<Longrightarrow> suspended_le s t \<Longrightarrow> suspended_le r t"
  by (simp add: suspended_le_def)

lemma word32_lt: "uint (w :: 32 word) < 2 ^ 43"
proof -
  have "uint w < 2 ^ 32" using uint_lt2p [of w] by simp
  then show ?thesis by simp
qed

lemma ComputeReputation_Status [simp]: "Status (ComputeReputation m n) = Status n"
  by (simp add: ComputeReputation_def)

lemma suspended_le_update:
  "(\<And>n. map_of r k = Some n \<Longrightarrow> Status n = Suspended \<Longrightarrow> Status n' = Suspended) \<Longrightarrow> suspended_le r (AList.update k n' r)"
  by (auto simp: suspended_le_def is_suspended_def split: option.splits)

lemma suspended_le_modify:
  "(\<And>n. Status n = Suspended \<Longrightarrow> Status (f n) = Suspended) \<Longrightarrow> suspended_le r (modify_node r k f)"
  by (auto simp: modify_node_def suspended_le_def is_suspended_def split: option.splits)

lemma slash_node_Status: "Status n = Suspended \<Longrightarrow> Status (slash_node reason n) = Suspended"
  by (simp add: slash_node_def Let_def)

lemma applySlash_step:
  assumes "applySlashLocked r k reason = Some r'"
  shows "registry_ok r \<Longrightarrow> registry_ok r'" and "suspended_le r r'"
proof -
  obtain n where n: "map_of r k = Some n" and r': "r' = AList.update k (slash_node reason n) r"
    using assms by (auto simp: applySlashLocked_def split: option.splits)
  show "registry_ok r \<Longrightarrow> registry_ok r'"
    unfolding r' by (intro registry_ok_update slash_node_ok) (auto dest: registry_ok_lookup [OF _ n])
  show "suspended_le r r'" unfolding r' by (rule suspended_le_update) (simp add: n slash_node_Status)
qed

lemma slash_batch_one_step:
  "registry_ok r \<Longrightarrow> registry_ok (slash_batch_one reason r k) \<and> suspended_le r (slash_batch_one reason r k)"
proof -
  assume ok: "registry_ok r"
  define r1 where "r1 = (if map_of r k = None then AList.update k (new_node k 0 1) r else r)"
  have "registry_ok (AList.update k (new_node k 0 1) r)" using ok by (intro registry_ok_update new_node_ok) simp_all
  then have r1: "registry_ok r1" using ok by (simp add: r1_def)
  have "suspended_le r (AList.update k (new_node k 0 1) r)" if "map_of r k = None"
    using that by (intro suspended_le_update) simp
  then have le1: "suspended_le r r1" by (simp add: r1_def)
  show ?thesis
  proof (cases "applySlashLocked r1 k reason")
    case None
    then show ?thesis using r1 le1 ok by (simp add: slash_batch_one_def r1_def Let_def)
  next
    case (Some r2)
    then have "slash_batch_one reason r k = (if k = [] then r else r2)"
      by (simp add: slash_batch_one_def r1_def Let_def)
    then show ?thesis using applySlash_step [OF Some] r1 le1 ok suspended_le_trans by auto
  qed
qed

lemma ApplySlashBatch_step:
  "registry_ok r \<Longrightarrow> registry_ok (ApplySlashBatch r ks reason) \<and> suspended_le r (ApplySlashBatch r ks reason)"
  unfolding ApplySlashBatch_def
proof (induction ks arbitrary: r)
  case (Cons k ks)
  from slash_batch_one_step [OF Cons.prems] Cons.IH show ?case by (auto intro: suspended_le_trans)
qed simp

lemma RecomputeAll_step:
  assumes "registry_ok r"
  shows "registry_ok (RecomputeAll r)" and "suspended_le r (RecomputeAll r)"
proof -
  show "registry_ok (RecomputeAll r)"
    using assms by (auto simp: registry_ok_def RecomputeAll_def comp_def case_prod_beta ComputeReputation_ok)
  have "map_of (RecomputeAll r) k = map_option (ComputeReputation (maxStakeLocked r)) (map_of r k)" for k
    by (simp add: RecomputeAll_def map_of_map)
  then show "suspended_le r (RecomputeAll r)" by (auto simp: suspended_le_def is_suspended_def split: option.splits)
qed

lemma rating_step_inv:
  assumes ok: "registry_ok r"
  shows "registry_ok (rating_step r ev) \<and> suspended_le r (rating_step r ev)"
proof (cases ev)
  case (EvEnsure k stake cap)
  have "node_ok (new_node k (uint stake) (if cap \<le> 0 then 1 else cap))"
    using word32_lt [of stake] by (intro new_node_ok) simp_all
  with EvEnsure ok show ?thesis
    by (auto simp: EnsureNode_def intro: registry_ok_update suspended_le_update split: option.split)
next
  case (EvVotes k missed votes)
  have "node_ok (let missed' = (if uint missed < 0 then 0 else uint missed);
           votes' = (if uint votes < missed' then missed' else uint votes)
       in ComputeReputation (maxStakeLocked r) (n\<lparr>MissedVotes := missed', TotalVotes := votes'\<rparr>))" if "node_ok n" for n
    unfolding Let_def using that word32_lt [of votes] word32_lt [of missed] by (intro ComputeReputation_ok) (simp add: node_ok_def)
  with EvVotes ok show ?thesis
    by (auto simp: SetVoteStats_def Let_def intro!: modify_node_ok suspended_le_modify)
next
  case (EvUptime k s)
  then show ?thesis using ok clamp_score_range
    by (auto simp: SetUptime_def node_ok_def intro!: modify_node_ok suspended_le_modify ComputeReputation_ok)
next
  case (EvPenalty k f)
  then show ?thesis using ok clamp_score_range
    by (auto simp: ApplyUptimePenalty_def node_ok_def intro!: modify_node_ok suspended_le_modify ComputeReputation_ok)
next
  case (EvLoad k tasks cap)
  then show ?thesis using ok clamp_score_range
    by (auto simp: SetLoad_def node_ok_def Let_def intro!: modify_node_ok suspended_le_modify)
next
  case EvRecompute
  then show ?thesis using RecomputeAll_step [OF ok] by simp
next
  case (EvSlash k reason)
  then show ?thesis using ok applySlash_step [of r k reason] by (simp add: ApplySlash_def split: option.split)
next
  case (EvSlashBatch ks reason)
  then show ?thesis using ApplySlashBatch_step [OF ok] by simp
qed

interpretation rating: growing_machine rating_step registry_ok suspended_le
  by unfold_locales (auto simp: rating_step_inv intro: suspended_le_trans)

subsection \<open>Committee selection\<close>

lemma pick_weight_pos: "0 < pick_weight r i"
  by (simp add: pick_weight_def Let_def)

lemma pick_weight_le:
  assumes "registry_ok r"
  shows "pick_weight r i \<le> ScoreScale"
proof (cases "map_of r i")
  case None
  then show ?thesis by (simp add: pick_weight_def SelectionWeightFor_def ScoreScale_def)
next
  case (Some n)
  then have ok: "node_ok n" using assms by (rule registry_ok_lookup [rotated])
  then have p: "0 \<le> ScoreScale - LoadScore n" "ScoreScale - LoadScore n \<le> ScoreScale" "0 \<le> ReputationScore n" "ReputationScore n \<le> ScoreScale"
    by (simp_all add: node_ok_def)
  let ?x = "ReputationScore n * (ScoreScale - LoadScore n)"
  have le: "?x \<le> ScoreScale * ScoreScale" using p by (intro mult_mono) simp_all
  have "0 \<le> ?x" using p by simp
  moreover from le have "?x < 2 ^ 63" by (simp add: ScoreScale_def)
  ultimately have "go_div (i64 ?x) ScoreScale = ?x div ScoreScale"
    by (simp add: go_div_nonneg in_i64_def ScoreScale_def)
  moreover have "i64 (ScoreScale - LoadScore n) = ScoreScale - LoadScore n"
    using p by (simp add: in_i64_def ScoreScale_def)
  ultimately have "SelectionWeight n = ?x div ScoreScale" using p by (simp add: SelectionWeight_def Let_def)
  also have "\<dots> \<le> ScoreScale * ScoreScale div ScoreScale" using le by (intro zdiv_mono1) (simp_all add: ScoreScale_def)
  finally have "SelectionWeight n \<le> ScoreScale" by (simp add: ScoreScale_def)
  then show ?thesis using Some by (simp add: pick_weight_def SelectionWeightFor_def Let_def ScoreScale_def)
qed

lemma roll_pick_mem: "roll_pick r roll s is = Some i \<Longrightarrow> i \<in> set is"
  by (induction r roll s "is" rule: roll_pick.induct) (auto simp: Let_def split: if_splits)

text \<open>A pick is one of the eligible candidates, whatever the weights add up to.\<close>

lemma SelectByWeight_mem:
  assumes "ids \<noteq> []" "\<forall>i \<in> set ids. eligible_id r i" and rnd: "\<And>n. 0 < n \<Longrightarrow> 0 \<le> rnd n \<and> rnd n < n"
  shows "SelectByWeight rnd r ids \<in> set ids"
proof -
  have f: "filterEligibleCandidates r ids = ids" using assms(2) by (simp add: filterEligibleCandidates_def filter_id_conv)
  consider i where "ids = [i]" | i j ks where "ids = i # j # ks" using assms(1) by (metis neq_Nil_conv)
  then show ?thesis
  proof cases
    case (2 i j ks)
    let ?w = "foldl (\<lambda>t i. i64 (t + pick_weight r i)) 0 ids"
    have eq: "SelectByWeight rnd r ids =
        (if ?w \<le> 0 then ids ! nat (rnd (int (length ids)))
         else case roll_pick r (rnd ?w) 0 ids of Some i \<Rightarrow> i | None \<Rightarrow> last ids)"
      using f unfolding 2 by (simp add: SelectByWeight_def Let_def)
    have "nat (rnd (int (length ids))) < length ids" using rnd [of "int (length ids)"] 2 by auto
    then show ?thesis unfolding eq using assms(1) by (auto split: option.split dest: roll_pick_mem)
  qed (simp add: SelectByWeight_def)
qed

lemma committee_loop_props:
  assumes "distinct ids" "[] \<notin> set ids" "\<forall>i \<in> set ids. eligible_id r i"
    and rnd: "\<And>k n. 0 < n \<Longrightarrow> 0 \<le> rnd k n \<and> rnd k n < n"
  shows "distinct (committee_loop rnd r k m ids) \<and> set (committee_loop rnd r k m ids) \<subseteq> set ids \<and>
     length (committee_loop rnd r k m ids) = min m (length ids)"
  using assms(1-3)
proof (induction m arbitrary: k ids)
  case (Suc m)
  show ?case
  proof (cases "ids = []")
    case True
    then show ?thesis by simp
  next
    case False
    let ?p = "SelectByWeight (rnd k) r ids"
    let ?rest = "filter (\<lambda>i. i \<noteq> ?p) ids"
    let ?c = "committee_loop rnd r (Suc k) m ?rest"
    have p: "?p \<in> set ids" using False Suc.prems(3) rnd [of _ k] by (intro SelectByWeight_mem) auto
    then have "?p \<noteq> []" using Suc.prems(2) by auto
    then have eq: "committee_loop rnd r k (Suc m) ids = ?p # ?c" using False by (simp add: Let_def)
    have "mset ids = add_mset ?p (mset ?rest)"
      using p Suc.prems(1) by (simp add: distinct_count_atmost_1 set_eq_iff_mset_remdups_eq) (auto simp: multiset_eq_iff distinct_count_atmost_1)
    then have "length ids = Suc (length ?rest)" by (metis size_add_mset size_mset)
    moreover have "distinct ?c \<and> set ?c \<subseteq> set ?rest \<and> length ?c = min m (length ?rest)"
      using Suc.prems by (intro Suc.IH) auto
    ultimately show ?thesis unfolding eq using p by auto
  qed
qed simp

lemma SelectCommittee_props:
  assumes "distinct ids" "[] \<notin> set ids" and rnd: "\<And>k n. 0 < n \<Longrightarrow> 0 \<le> rnd k n \<and> rnd k n < n"
  shows "distinct (SelectCommittee rnd r ids cnt) \<and> set (SelectCommittee rnd r ids cnt) \<subseteq> set (filter (eligible_id r) ids) \<and>
     length (SelectCommittee rnd r ids cnt) = (if cnt \<le> 0 then 0 else min (nat cnt) (length (filter (eligible_id r) ids)))"
proof -
  define e where "e = filter (eligible_id r) ids"
  have e: "distinct e" "[] \<notin> set e" "\<forall>j \<in> set e. eligible_id r j" using assms(1,2) by (auto simp: e_def)
  have sel: "SelectCommittee rnd r ids cnt = (if cnt \<le> 0 \<or> e = [] then []
     else if cnt \<ge> int (length e) then e else committee_loop rnd r 0 (nat cnt) e)"
    by (simp only: SelectCommittee_def filterEligibleCandidates_def Let_def e_def)
  consider "cnt \<le> 0 \<or> e = []" | "0 < cnt" "e \<noteq> []" "cnt \<ge> int (length e)" | "0 < cnt" "e \<noteq> []" "cnt < int (length e)" by linarith
  then have "distinct (SelectCommittee rnd r ids cnt) \<and> set (SelectCommittee rnd r ids cnt) \<subseteq> set e \<and>
     length (SelectCommittee rnd r ids cnt) = (if cnt \<le> 0 then 0 else min (nat cnt) (length e))"
  proof cases
    case 1
    then show ?thesis unfolding sel by auto
  next
    case 2
    then have "SelectCommittee rnd r ids cnt = e" unfolding sel by simp
    then show ?thesis using e(1) 2 by (auto simp: min_def)
  next
    case 3
    then have "SelectCommittee rnd r ids cnt = committee_loop rnd r 0 (nat cnt) e" unfolding sel by simp
    then show ?thesis using committee_loop_props [where rnd = rnd and k = 0 and m = "nat cnt", OF e rnd] 3(1) by simp
  qed
  then show ?thesis unfolding e_def .
qed

subsection \<open>Weights as probabilities\<close>

text \<open>With fewer than \<open>2 ^ 63 / ScoreScale\<close> candidates the running sum of weights does not wrap.\<close>

lemma weight_step:
  assumes "registry_ok r" and "0 \<le> s" and "s + ScoreScale * int (length (i # is)) < 2 ^ 63"
  shows "i64 (s + pick_weight r i) = s + pick_weight r i \<and> 0 \<le> s + pick_weight r i \<and>
     s + pick_weight r i + ScoreScale * int (length is) < 2 ^ 63"
proof -
  have b: "0 < pick_weight r i" "pick_weight r i \<le> ScoreScale" by (simp_all add: pick_weight_pos pick_weight_le assms(1))
  have nn: "0 \<le> ScoreScale * int (length is)" by (simp add: ScoreScale_def)
  have "s + ScoreScale + ScoreScale * int (length is) < 2 ^ 63" using assms(3) by (simp add: algebra_simps)
  then have lt: "s + pick_weight r i + ScoreScale * int (length is) < 2 ^ 63" using b by linarith
  with nn have "s + pick_weight r i < 2 ^ 63" by linarith
  with b assms(2) have "in_i64 (s + pick_weight r i)" unfolding in_i64_def by linarith
  then show ?thesis using lt b assms(2) by simp
qed

lemma partial_sums:
  assumes "registry_ok r" and "0 \<le> s" and "s + ScoreScale * int (length is) < 2 ^ 63"
  shows "foldl (\<lambda>t i. i64 (t + pick_weight r i)) s is = s + sum_list (map (pick_weight r) is)"
  using assms(2,3)
proof (induction "is" arbitrary: s)
  case (Cons i "is")
  then show ?case using weight_step [OF assms(1) Cons.prems] by simp
qed simp

lemma roll_pick_some:
  assumes "registry_ok r" and "0 \<le> s" and "s + ScoreScale * int (length is) < 2 ^ 63"
    and "roll < s + sum_list (map (pick_weight r) is)" "s \<le> roll"
  shows "roll_pick r roll s is \<noteq> None"
  using assms(2-)
proof (induction "is" arbitrary: s)
  case (Cons i "is")
  note w = weight_step [OF assms(1) Cons.prems(1,2)]
  then have "roll_pick r roll s (i # is) = (if roll < s + pick_weight r i then Some i else roll_pick r roll (s + pick_weight r i) is)"
    by (simp add: Let_def)
  with Cons.IH [of "s + pick_weight r i"] Cons.prems w show ?case by (simp add: algebra_simps)
qed simp

lemma roll_pick_card:
  assumes "registry_ok r" and "distinct is" and "i \<in> set is" and "0 \<le> s" and "s + ScoreScale * int (length is) < 2 ^ 63"
  shows "card {roll \<in> {s..<s + sum_list (map (pick_weight r) is)}. roll_pick r roll s is = Some i} = nat (pick_weight r i)"
  using assms(2-5)
proof (induction "is" arbitrary: s)
  case (Cons j "is")
  let ?w = "pick_weight r j" and ?S = "sum_list (map (pick_weight r) is)"
  note ws = weight_step [OF assms(1) Cons.prems(3,4)]
  then have i64: "i64 (s + ?w) = s + ?w" by simp
  have b: "0 < ?w" by (rule pick_weight_pos)
  have pick: "roll_pick r roll s (j # is) = (if roll < s + ?w then Some j else roll_pick r roll (s + ?w) is)" for roll
    by (simp add: i64 Let_def)
  have "0 \<le> ?S" by (rule sum_list_nonneg) (auto simp: less_imp_le pick_weight_pos)
  let ?A = "{roll \<in> {s..<s + ?w}. Some j = Some i}"
  let ?B = "{roll \<in> {s + ?w..<s + ?w + ?S}. roll_pick r roll (s + ?w) is = Some i}"
  have split: "{roll \<in> {s..<s + sum_list (map (pick_weight r) (j # is))}. roll_pick r roll s (j # is) = Some i} = ?A \<union> ?B"
    using b \<open>0 \<le> ?S\<close> by (auto simp: pick simp del: roll_pick.simps split: if_splits)
  show ?case
  proof (cases "i = j")
    case True
    then have "?B = {}" using Cons.prems(1) by (auto dest: roll_pick_mem)
    with True have "?A \<union> ?B = {s..<s + ?w}" by auto
    then show ?thesis unfolding split using True by simp
  next
    case False
    then have "?A \<union> ?B = ?B" by auto
    moreover have "card ?B = nat (pick_weight r i)"
      using Cons.IH [of "s + ?w"] Cons.prems(1,2) False ws by simp
    ultimately show ?thesis unfolding split by (simp only:)
  qed
qed simp

subsection \<open>Properties\<close>

text \<open>
  C40: whatever operations run, with vote counts and stakes of at most 32 bits, every node's reputation, uptime, latency and load stay between 0 and the
  score scale, its missed votes never exceed its votes and its stake never goes negative.
\<close>

theorem registry_scores_in_range: "registry_ok (foldl rating_step [] events)"
  by (rule rating.run_inv) (simp add: registry_ok_def)

text \<open>
  Remark: suspension is permanent and excludes from the committee: a node that is suspended at some point is in
  no committee chosen after any further operations.
\<close>

theorem suspended_never_selected:
  assumes "is_suspended (foldl rating_step [] es) i" and "\<And>k n. 0 < n \<Longrightarrow> 0 \<le> rnd k n \<and> rnd k n < n"
    and "distinct ids" "[] \<notin> set ids"
  shows "i \<notin> set (SelectCommittee rnd (foldl rating_step [] (es @ fs)) ids cnt)"
proof -
  let ?r = "foldl rating_step (foldl rating_step [] es) fs"
  have "registry_ok (foldl rating_step [] es)" by (rule rating.run_inv) (simp add: registry_ok_def)
  then have "suspended_le (foldl rating_step [] es) ?r" by (rule rating.run_le)
  with assms(1) have "is_suspended ?r i" by (simp add: suspended_le_def)
  then have n: "\<not> eligible_id ?r i"
    by (auto simp: is_suspended_def eligible_id_def IsEligibleForCommittee_def split: option.splits)
  with SelectCommittee_props [where rnd = rnd and r = ?r and cnt = cnt, OF assms(3,4,2)] show ?thesis by auto
qed

definition slash_events :: "rating_event list" where
  "slash_events = EvEnsure ''a'' 0 1 # replicate 7 (EvSlash ''a'' SlashEquivocation)"

lemma slash_events_suspend: "is_suspended (foldl rating_step [] slash_events) ''a''"
  by code_simp

theorem suspended_never_selected_witness:
  "''a'' \<notin> set (SelectCommittee (\<lambda>k n. 0) (foldl rating_step [] (slash_events @ [EvRecompute])) [''a'', ''b'', ''c''] 2)"
  using suspended_never_selected [OF slash_events_suspend, of "\<lambda>k n. 0" "[''a'', ''b'', ''c'']" "[EvRecompute]" 2]
  by simp

text \<open>
  Remark: a committee is a set of eligible candidates of the asked size: no repetition, nobody suspended, and
  exactly the requested number of members, or all eligible ones when there are fewer.
\<close>

theorem SelectCommittee_spec:
  assumes "distinct ids" "[] \<notin> set ids" and "\<And>k n. 0 < n \<Longrightarrow> 0 \<le> rnd k n \<and> rnd k n < n"
  shows "let c = SelectCommittee rnd r ids cnt; e = filter (eligible_id r) ids
     in distinct c \<and> set c \<subseteq> set e \<and> length c = (if cnt \<le> 0 then 0 else min (nat cnt) (length e))"
  using SelectCommittee_props [OF assms] by (simp only: Let_def)

theorem SelectCommittee_spec_witness:
  "length (SelectCommittee (\<lambda>k n. n - 1) [] [''a'', ''b'', ''c''] 2) = 2"
  using SelectCommittee_spec [of "[''a'', ''b'', ''c'']" "\<lambda>k n. n - 1" "[]" 2]
  by (simp add: Let_def eligible_id_def)

text \<open>
  Remark: selection is proportional to weight: of the equally likely rolls \<open>0, ..., total - 1\<close> exactly as
  many choose a candidate as its selection weight says.
\<close>

theorem SelectByWeight_proportional:
  assumes "registry_ok r" and "distinct ids" and "\<forall>i \<in> set ids. eligible_id r i" and "i \<in> set ids"
    and "2 \<le> length ids" and "length ids < 2 ^ 40"
  shows "card {roll \<in> {0..<sum_list (map (pick_weight r) ids)}. SelectByWeight (\<lambda>n. roll) r ids = i} =
     nat (pick_weight r i)"
proof -
  let ?T = "sum_list (map (pick_weight r) ids)"
  have f: "filterEligibleCandidates r ids = ids" using assms(3) by (simp add: filterEligibleCandidates_def filter_id_conv)
  obtain a b ks where ids: "ids = a # b # ks" using assms(5) by (metis One_nat_def Suc_1 Suc_le_length_iff)
  have "int (length ids) < 2 ^ 40" using assms(6) by (metis of_nat_less_iff of_nat_numeral of_nat_power)
  then have bnd: "0 + ScoreScale * int (length ids) < 2 ^ 63" by (simp add: ScoreScale_def)
  have w: "foldl (\<lambda>t i. i64 (t + pick_weight r i)) 0 ids = ?T" using partial_sums [OF assms(1) _ bnd] by simp
  have pos: "0 < ?T"
    using sum_list_nonneg_le [of "map (pick_weight r) ids" "pick_weight r i"] pick_weight_pos [of r] assms(4)
    by (fastforce intro: order_less_le_trans less_imp_le)
  have sel: "SelectByWeight (\<lambda>n. roll) r ids = (case roll_pick r roll 0 ids of Some i \<Rightarrow> i | None \<Rightarrow> last ids)" for roll
    using f w pos unfolding ids by (simp add: SelectByWeight_def Let_def)
  have "{roll \<in> {0..<?T}. SelectByWeight (\<lambda>n. roll) r ids = i} = {roll \<in> {0..<0 + ?T}. roll_pick r roll 0 ids = Some i}"
    using roll_pick_some [OF assms(1) _ bnd] by (auto simp: sel split: option.splits)
  then show ?thesis using roll_pick_card [OF assms(1,2,4) _ bnd] by simp
qed

theorem SelectByWeight_proportional_witness:
  "card {roll \<in> {0..<2000000}. SelectByWeight (\<lambda>n. roll) [] [''a'', ''b''] = ''b''} = 1000000"
proof -
  have "pick_weight [] i = 1000000" for i by (simp add: pick_weight_def SelectionWeightFor_def ScoreScale_def)
  then show ?thesis
    using SelectByWeight_proportional [of "[]" "[''a'', ''b'']" "''b''"]
    by (simp add: registry_ok_def eligible_id_def)
qed

text \<open>
  Remark: the reputation penalty of a slash does not last: the next recomputation of the reputation gives the
  value the node would have without the penalty, apart from the reduced stake.
\<close>

theorem slash_erased_by_recompute:
  assumes "ApplySlash r k reason = Some r'" and "map_of r k = Some n" and "map_of (RecomputeAll r') k = Some n'"
  shows "ReputationScore n' =
     ReputationScore (ComputeReputation (maxStakeLocked r') (n\<lparr>Stake := Stake (slash_node reason n)\<rparr>))"
proof -
  have "r' = AList.update k (slash_node reason n) r"
    using assms(1,2) by (simp add: ApplySlash_def applySlashLocked_def)
  then have "map_of (RecomputeAll r') k = Some (ComputeReputation (maxStakeLocked r') (slash_node reason n))"
    by (simp add: RecomputeAll_def map_of_map)
  with assms(3) have "n' = ComputeReputation (maxStakeLocked r') (slash_node reason n)" by simp
  then show ?thesis
    by (simp add: ComputeReputation_def VoteAccuracy_def stake_weight_def slash_node_def Let_def)
qed

theorem slash_erased_by_recompute_witness:
  "\<exists>r' n'. ApplySlash [(''a'', new_node ''a'' 0 1)] ''a'' SlashEquivocation = Some r' \<and>
     map_of (RecomputeAll r') ''a'' = Some n' \<and> ReputationScore n' = 1000000"
proof -
  let ?n = "new_node ''a'' 0 1"
  let ?r' = "[(''a'', slash_node SlashEquivocation ?n)]"
  have s: "ApplySlash [(''a'', ?n)] ''a'' SlashEquivocation = Some ?r'"
    by (simp add: ApplySlash_def applySlashLocked_def)
  moreover have m: "map_of (RecomputeAll ?r') ''a'' = Some (ComputeReputation (maxStakeLocked ?r') (slash_node SlashEquivocation ?n))"
    by (simp add: RecomputeAll_def)
  moreover have "ReputationScore (ComputeReputation (maxStakeLocked ?r') (slash_node SlashEquivocation ?n)) = 1000000"
    using slash_erased_by_recompute [OF s _ m, of ?n]
    by (simp add: maxStakeLocked_def slash_node_def Let_def ComputeReputation_def new_node_def VoteAccuracy_def
        stake_weight_def ScoreScale_def go_div_nonneg in_i64_def)
  ultimately show ?thesis by blast
qed

end
