(* ===== verification/Hashing.thy ===== *)
theory Hashing
  imports Go_Strings
begin

text \<open>
  The parts of Go's \<^verbatim>\<open>crypto/sha256\<close> and \<^verbatim>\<open>encoding/hex\<close> that the gateway calls: SHA-256 on a string of bytes
  (FIPS 180-4) and the lower-case hexadecimal encoding with its decoder.
\<close>

unbundle bit_operations_syntax

type_synonym byte = "8 word"
type_synonym u32 = "32 word"

definition bytes_of :: "string \<Rightarrow> byte list" where
  "bytes_of s = map (\<lambda>c. of_nat (code c)) s"

subsection \<open>Hexadecimal\<close>

definition hex_char :: "nat \<Rightarrow> char" where
  "hex_char n = (if n < 10 then digit_char n else char_of (n + 87))"

definition EncodeToString :: "byte list \<Rightarrow> string" where
  "EncodeToString bs = concat (map (\<lambda>b. [hex_char (unat b div 16), hex_char (unat b mod 16)]) bs)"

definition hex_val :: "char \<Rightarrow> nat option" where
  "hex_val c =
     (let n = code c
      in if 48 \<le> n \<and> n \<le> 57 then Some (n - 48)
         else if 97 \<le> n \<and> n \<le> 102 then Some (n - 87)
         else if 65 \<le> n \<and> n \<le> 70 then Some (n - 55)
         else None)"

text \<open>\<open>hex.DecodeString\<close>; \<open>None\<close> on an odd length or a character that is no hexadecimal digit.\<close>

fun DecodeString :: "string \<Rightarrow> byte list option" where
  "DecodeString [] = Some []"
| "DecodeString [c] = None"
| "DecodeString (c # d # cs) =
     (case (hex_val c, hex_val d, DecodeString cs) of
        (Some x, Some y, Some bs) \<Rightarrow> Some (of_nat (16 * x + y) # bs)
      | _ \<Rightarrow> None)"

subsection \<open>SHA-256\<close>

text \<open>The constants: 32 bits of the fraction of the cube (square) root of the first 64 (8) primes. The root is
  found bit by bit from bit \<open>b - 1\<close> down.\<close>

fun int_root :: "nat \<Rightarrow> int \<Rightarrow> nat \<Rightarrow> int \<Rightarrow> int" where
  "int_root k n 0 acc = acc"
| "int_root k n (Suc b) acc = int_root k n b (if (acc + 2 ^ b) ^ k \<le> n then acc + 2 ^ b else acc)"

definition frac_root :: "nat \<Rightarrow> int \<Rightarrow> u32" where
  "frac_root k p = of_int (int_root k (p * 2 ^ (32 * k)) 37 0)"

definition first_primes :: "int list" where
  "first_primes = filter (\<lambda>p. \<forall>d \<in> set [2..p - 1]. \<not> d dvd p) [2..311]"

definition sha_K :: "u32 list" where
  "sha_K = map (frac_root 3) first_primes"

definition sha_H0 :: "u32 list" where
  "sha_H0 = map (frac_root 2) (take 8 first_primes)"

definition be32 :: "u32 \<Rightarrow> byte list" where
  "be32 w = map (\<lambda>k. ucast (drop_bit k w)) [24, 16, 8, 0]"

definition be64 :: "u64 \<Rightarrow> byte list" where
  "be64 w = map (\<lambda>k. ucast (drop_bit k w)) [56, 48, 40, 32, 24, 16, 8, 0]"

definition from_be32 :: "byte list \<Rightarrow> u32" where
  "from_be32 bs = foldl (\<lambda>w b. push_bit 8 w OR ucast b) 0 bs"

definition sha_pad :: "byte list \<Rightarrow> byte list" where
  "sha_pad m =
     m @ 0x80 # replicate ((119 - length m mod 64) mod 64) 0 @ be64 (of_nat (8 * length m))"

fun chunks :: "nat \<Rightarrow> 'a list \<Rightarrow> 'a list list" where
  "chunks n xs = (if n = 0 \<or> xs = [] then [] else take n xs # chunks n (drop n xs))"

declare chunks.simps [simp del]

definition sha_schedule :: "u32 list \<Rightarrow> u32 list" where
  "sha_schedule ws =
     foldl (\<lambda>w t.
         let a = w ! (t - 15); b = w ! (t - 2);
             s0 = word_rotr 7 a XOR word_rotr 18 a XOR drop_bit 3 a;
             s1 = word_rotr 17 b XOR word_rotr 19 b XOR drop_bit 10 b
         in w @ [w ! (t - 16) + s0 + w ! (t - 7) + s1]) ws [16..<64]"

type_synonym sha_state = "u32 \<times> u32 \<times> u32 \<times> u32 \<times> u32 \<times> u32 \<times> u32 \<times> u32"

fun sha_round :: "sha_state \<Rightarrow> u32 \<times> u32 \<Rightarrow> sha_state" where
  "sha_round (a, b, c, d, e, f, g, h) (k, w) =
     (let S1 = word_rotr 6 e XOR word_rotr 11 e XOR word_rotr 25 e;
          ch = (e AND f) XOR (NOT e AND g);
          t1 = h + S1 + ch + k + w;
          S0 = word_rotr 2 a XOR word_rotr 13 a XOR word_rotr 22 a;
          maj = (a AND b) XOR (a AND c) XOR (b AND c)
      in (t1 + (S0 + maj), a, b, c, d + t1, e, f, g))"

definition sha_block :: "u32 list \<Rightarrow> byte list \<Rightarrow> u32 list" where
  "sha_block hs block =
     (let w = sha_schedule (map from_be32 (chunks 4 block));
          (a, b, c, d, e, f, g, h) =
            foldl sha_round (hs ! 0, hs ! 1, hs ! 2, hs ! 3, hs ! 4, hs ! 5, hs ! 6, hs ! 7) (zip sha_K w)
      in map2 (+) hs [a, b, c, d, e, f, g, h])"

definition Sum256 :: "byte list \<Rightarrow> byte list" where
  "Sum256 m = concat (map be32 (foldl sha_block sha_H0 (chunks 64 (sha_pad m))))"

definition sha256_hex :: "string \<Rightarrow> string" where
  "sha256_hex s = EncodeToString (Sum256 (bytes_of s))"

subsection \<open>Laws of the hexadecimal encoding\<close>

lemma code_hex_char: "n < 16 \<Longrightarrow> code (hex_char n) = (if n < 10 then 48 + n else n + 87)"
  by (simp add: hex_char_def digit_char_def)

lemma hex_val_char [simp]: "n < 16 \<Longrightarrow> hex_val (hex_char n) = Some n"
  by (simp add: hex_val_def code_hex_char Let_def)

lemma is_lower_hex_char: "n < 16 \<Longrightarrow> is_lower_hex (hex_char n)"
  by (simp add: is_lower_hex_def is_digit_def code_hex_char)

lemma unat_byte: "unat (b :: byte) < 256"
  using unsigned_less [of b] by simp

lemma DecodeString_EncodeToString [simp]: "DecodeString (EncodeToString bs) = Some bs"
proof (induction bs)
  case (Cons b bs)
  have "unat b div 16 < 16" "unat b mod 16 < 16" using unat_byte [of b] by auto
  then show ?case using Cons by (simp add: EncodeToString_def)
qed (simp add: EncodeToString_def)

lemma EncodeToString_inj: "EncodeToString a = EncodeToString b \<longleftrightarrow> a = b"
  by (metis DecodeString_EncodeToString option.inject)

lemma length_EncodeToString [simp]: "length (EncodeToString bs) = 2 * length bs"
  by (induction bs) (simp_all add: EncodeToString_def)

lemma EncodeToString_lower_hex: "list_all is_lower_hex (EncodeToString bs)"
proof (induction bs)
  case (Cons b bs)
  have "unat b div 16 < 16" "unat b mod 16 < 16" using unat_byte [of b] by auto
  then show ?case using Cons by (simp add: EncodeToString_def is_lower_hex_char)
qed (simp add: EncodeToString_def)

subsection \<open>Joined strings\<close>

text \<open>\<open>strings.Join(xs, string(sep))\<close> for a one-byte separator, and \<open>%d\<close> of an \<open>int64\<close>.\<close>

fun Join :: "char \<Rightarrow> string list \<Rightarrow> string" where
  "Join sep [] = []"
| "Join sep [x] = x"
| "Join sep (x # y # ys) = x @ sep # Join sep (y # ys)"

definition FormatInt :: "int \<Rightarrow> string" where
  "FormatInt n = (if n < 0 then char_of (45 :: nat) # digits_of (nat (- n)) else digits_of (nat n))"

lemma split_at_sep:
  assumes "x @ sep # u = y @ sep # v" "sep \<notin> set x" "sep \<notin> set y"
  shows "x = y \<and> u = v"
  using assms
proof (induction x arbitrary: y)
  case Nil
  then show ?case by (cases y) auto
next
  case (Cons a x)
  then show ?case by (cases y) auto
qed

lemma Join_inj:
  assumes "Join sep xs = Join sep ys" "\<forall>x \<in> set xs. sep \<notin> set x \<and> x \<noteq> []" "\<forall>y \<in> set ys. sep \<notin> set y \<and> y \<noteq> []"
  shows "xs = ys"
  using assms
proof (induction sep xs arbitrary: ys rule: Join.induct)
  case (1 sep)
  then show ?case by (cases "(sep, ys)" rule: Join.cases) auto
next
  case (2 sep x)
  then show ?case by (cases "(sep, ys)" rule: Join.cases) auto
next
  case (3 sep x y zs)
  show ?case
  proof (cases "(sep, ys)" rule: Join.cases)
    case (1 sep')
    then show ?thesis using 3 by simp
  next
    case (2 sep' a)
    then show ?thesis using "3.prems" by auto
  next
    case (3 sep' a b cs)
    then have ys: "ys = a # b # cs" by simp
    have eq: "x @ sep # Join sep (y # zs) = a @ sep # Join sep (b # cs)" using "3.prems"(1) by (simp add: ys)
    have "sep \<notin> set x" "sep \<notin> set a" using "3.prems"(2,3) by (simp_all add: ys)
    from split_at_sep [OF eq this] have "x = a" "Join sep (y # zs) = Join sep (b # cs)" by simp_all
    moreover from this(2) have "y # zs = b # cs" using "3.prems"(2,3) by (intro "3.IH") (simp_all add: ys)
    ultimately show ?thesis by (simp add: ys)
  qed
qed

lemma set_Join: "set (Join sep xs) \<subseteq> insert sep (\<Union>x \<in> set xs. set x)"
  by (induction sep xs rule: Join.induct) auto

end
