(* ===== verification/Identity.thy ===== *)
theory Identity
  imports Hashing Chain_Data
begin

text \<open>
  Node identity and signed votes (\<^verbatim>\<open>internal/nodes/identity.go\<close>) and the identifier of a vote round
  (\<open>computeVoteBlockID\<close> in \<^verbatim>\<open>internal/handlers/handlers_consensus.go\<close>).

  Ed25519 of the standard library is a record of its three operations on byte strings. A theorem that
  needs that a signature verifies states the law of the scheme as a hypothesis.
\<close>

record ed25519 =
  edKeys :: "byte list \<times> byte list"
  edSign :: "byte list \<Rightarrow> byte list \<Rightarrow> byte list"
  edVerify :: "byte list \<Rightarrow> byte list \<Rightarrow> byte list \<Rightarrow> bool"

definition PublicKeySize :: nat where "PublicKeySize = 32"
definition PrivateKeySize :: nat where "PrivateKeySize = 64"
definition SignatureSize :: nat where "SignatureSize = 64"

subsection \<open>Identity file\<close>

record NodeIdentity =
  idNodeID :: string
  idPubKey :: string
  idPrivKey :: string

datatype identity_error = ParseIdentity | IncompleteIdentity | InvalidPrivKey | InvalidPubKey | NodeIDMismatch | ReadIdentity | SaveIdentity

datatype identity_read = IdMissing | IdUnreadable | IdCorrupt | IdParsed NodeIdentity

definition decode_sized :: "nat \<Rightarrow> string \<Rightarrow> byte list option" where
  "decode_sized n s = (case DecodeString s of Some bs \<Rightarrow> (if length bs = n then Some bs else None) | None \<Rightarrow> None)"

definition check_identity :: "NodeIdentity \<Rightarrow> identity_error + NodeIdentity" where
  "check_identity f =
     (if idPrivKey f = [] \<or> idPubKey f = [] then Inl IncompleteIdentity
      else case decode_sized PrivateKeySize (idPrivKey f) of
          None \<Rightarrow> Inl InvalidPrivKey
        | Some priv \<Rightarrow>
            (case decode_sized PublicKeySize (idPubKey f) of
               None \<Rightarrow> Inl InvalidPubKey
             | Some pub \<Rightarrow>
                 (let nodeID = (if idNodeID f = [] then EncodeToString pub else idNodeID f)
                  in if nodeID \<noteq> EncodeToString pub then Inl NodeIDMismatch
                     else Inr (f\<lparr>idNodeID := nodeID\<rparr>))))"

text \<open>The new content of the file is the second component; \<open>save_ok\<close> says whether it could be written.\<close>

definition LoadOrCreateIdentity ::
  "ed25519 \<Rightarrow> bool \<Rightarrow> identity_read \<Rightarrow> (identity_error + NodeIdentity) \<times> identity_read" where
  "LoadOrCreateIdentity ed save_ok file =
     (case file of
        IdParsed f \<Rightarrow> (check_identity f, file)
      | IdCorrupt \<Rightarrow> (Inl ParseIdentity, file)
      | IdUnreadable \<Rightarrow> (Inl ReadIdentity, file)
      | IdMissing \<Rightarrow>
          (let new = \<lparr>idNodeID = EncodeToString (fst (edKeys ed)), idPubKey = EncodeToString (fst (edKeys ed)),
                  idPrivKey = EncodeToString (snd (edKeys ed))\<rparr>
           in if save_ok then (Inr new, IdParsed new) else (Inl SaveIdentity, file)))"

subsection \<open>Votes\<close>

definition vote_prefix :: string where
  "vote_prefix = ''platarium-vote-v1|''"

definition VoteMessage :: "string \<Rightarrow> bool \<Rightarrow> string" where
  "VoteMessage blockID yes = vote_prefix @ blockID @ [CHR ''|'', if yes then CHR ''1'' else CHR ''0'']"

definition SignVote :: "ed25519 \<Rightarrow> NodeIdentity \<Rightarrow> string \<Rightarrow> bool \<Rightarrow> string option" where
  "SignVote ed ident blockID yes =
     map_option (\<lambda>priv. EncodeToString (edSign ed priv (bytes_of (VoteMessage blockID yes))))
       (decode_sized PrivateKeySize (idPrivKey ident))"

datatype vote_error = VotePubKey | VoteNodeMismatch | VoteSigEncoding | VoteSigInvalid

definition VerifyVoteSignature :: "ed25519 \<Rightarrow> string \<Rightarrow> string \<Rightarrow> bool \<Rightarrow> string \<Rightarrow> string \<Rightarrow> vote_error option" where
  "VerifyVoteSignature ed nodeID blockID yes pubKeyHex sigHex =
     (case decode_sized PublicKeySize pubKeyHex of
        None \<Rightarrow> Some VotePubKey
      | Some pub \<Rightarrow>
          (if EncodeToString pub \<noteq> nodeID then Some VoteNodeMismatch
           else case decode_sized SignatureSize sigHex of
               None \<Rightarrow> Some VoteSigEncoding
             | Some sig \<Rightarrow>
                 (if edVerify ed pub (bytes_of (VoteMessage blockID yes)) sig then None else Some VoteSigInvalid)))"

definition RequireSignedVotes :: "string \<Rightarrow> bool" where
  "RequireSignedVotes raw \<longleftrightarrow> ToLower (TrimSpace raw) \<notin> {''1'', ''true'', ''yes'', ''on''}"

definition acceptPeerVote :: "ed25519 \<Rightarrow> string \<Rightarrow> string \<Rightarrow> string \<Rightarrow> bool \<Rightarrow> string \<Rightarrow> string \<Rightarrow> bool" where
  "acceptPeerVote ed raw blockId nodeId yes pubKey signature \<longleftrightarrow>
     \<not> RequireSignedVotes raw \<or>
     (pubKey \<noteq> [] \<and> signature \<noteq> [] \<and> VerifyVoteSignature ed nodeId blockId yes pubKey signature = None)"

subsection \<open>Vote round identifiers\<close>

definition vote_payload :: "string \<Rightarrow> int \<Rightarrow> string list \<Rightarrow> string \<Rightarrow> string" where
  "vote_payload phase blockNumber txHashes stateRoot =
     phase @ CHR '':'' # FormatInt blockNumber @ CHR '':'' # Join CHR '','' (sort txHashes) @ CHR '':'' # stateRoot"

definition computeVoteBlockID :: "string \<Rightarrow> int \<Rightarrow> string list \<Rightarrow> string \<Rightarrow> string" where
  "computeVoteBlockID phase blockNumber txHashes stateRoot = sha256_hex (vote_payload phase blockNumber txHashes stateRoot)"

subsection \<open>Facts\<close>

lemma decode_sized_encode: "length bs = n \<Longrightarrow> decode_sized n (EncodeToString bs) = Some bs"
  by (simp add: decode_sized_def)

lemma bytes_of_inj: "bytes_of s = bytes_of t \<longleftrightarrow> s = t"
proof -
  have "inj (\<lambda>c. of_nat (code c) :: byte)"
  proof (rule injI)
    fix c d :: char
    assume "of_nat (code c) = (of_nat (code d) :: byte)"
    then have "unat (of_nat (code c) :: byte) = unat (of_nat (code d) :: byte)" by simp
    then have "code c = code d" by (simp add: unat_of_nat)
    then show "c = d" by (simp add: code_def)
  qed
  then show ?thesis by (auto simp: bytes_of_def inj_map_eq_map)
qed

lemma VoteMessage_inj: "VoteMessage b y = VoteMessage b' y' \<longleftrightarrow> b = b' \<and> y = y'"
proof
  assume "VoteMessage b y = VoteMessage b' y'"
  then have "b @ [CHR ''|'', if y then CHR ''1'' else CHR ''0''] = b' @ [CHR ''|'', if y' then CHR ''1'' else CHR ''0'']"
    by (simp add: VoteMessage_def)
  then show "b = b' \<and> y = y'" by (simp add: append_eq_append_conv split: if_splits)
qed simp

lemma digits_of_no: "\<not> is_digit c \<Longrightarrow> c \<notin> set (digits_of n)"
  using digits_of_digits [of n] by (auto simp: list_all_iff)

lemma digits_of_inj: "m < 2 ^ 64 \<Longrightarrow> n < 2 ^ 64 \<Longrightarrow> digits_of m = digits_of n \<Longrightarrow> m = n"
  using ParseUint_loop_digits_of by (metis prod.inject)

lemma FormatInt_inj:
  assumes "in_i64 m" "in_i64 n" "FormatInt m = FormatInt n"
  shows "m = n"
proof -
  have minus: "\<not> is_digit (char_of (45 :: nat))" by (simp add: is_digit_def)
  have "hd (digits_of k) \<noteq> char_of (45 :: nat)" for k
    using digits_of_no [OF minus, of k] hd_in_set [OF digits_of_nonempty] by metis
  then have sgn: "(m < 0) = (n < 0)" using assms(3) by (auto simp: FormatInt_def split: if_splits) (metis list.sel(1))+
  have b: "nat (- m) < 2 ^ 64" "nat (- n) < 2 ^ 64" "nat m < 2 ^ 64" "nat n < 2 ^ 64"
    using assms(1,2) by (auto simp: in_i64_def nat_less_iff)
  show ?thesis
  proof (cases "m < 0")
    case True
    then have "nat (- m) = nat (- n)" using sgn assms(3) b by (intro digits_of_inj) (auto simp: FormatInt_def)
    then show ?thesis using True sgn by simp
  next
    case False
    then have "nat m = nat n" using sgn assms(3) b by (intro digits_of_inj) (auto simp: FormatInt_def)
    then show ?thesis using False sgn by simp
  qed
qed

lemma FormatInt_no_colon: "CHR '':'' \<notin> set (FormatInt n)"
proof -
  have "\<not> is_digit CHR '':''" "CHR '':'' \<noteq> char_of (45 :: nat)" by code_simp+
  then show ?thesis using digits_of_no by (auto simp: FormatInt_def)
qed

subsection \<open>Properties\<close>

text \<open>
  C11: a signed vote counts only for what it says. When signatures are required, a node accepts a vote
  exactly when the vote's own \<open>pubKey\<close> field decodes to a 32-byte key whose hexadecimal form is the voter's
  node id, its own \<open>signature\<close> field decodes to 64 bytes, and Ed25519 verifies that signature under that
  key over the message of this round and answer; and that message determines the round and the answer,
  so what verifies for another round or the opposite answer is a signature of a different message.
\<close>

theorem acceptPeerVote_binding:
  assumes "RequireSignedVotes raw"
  shows "(acceptPeerVote ed raw blockId nodeId yes pubKey signature \<longleftrightarrow>
      (\<exists>pub sig. DecodeString pubKey = Some pub \<and> length pub = 32 \<and> nodeId = EncodeToString pub \<and>
         DecodeString signature = Some sig \<and> length sig = 64 \<and> edVerify ed pub (bytes_of (VoteMessage blockId yes)) sig)) \<and>
    (\<forall>b y. bytes_of (VoteMessage b y) = bytes_of (VoteMessage blockId yes) \<longleftrightarrow> b = blockId \<and> y = yes)"
proof -
  have "acceptPeerVote ed raw blockId nodeId yes pubKey signature \<longleftrightarrow>
      pubKey \<noteq> [] \<and> signature \<noteq> [] \<and> VerifyVoteSignature ed nodeId blockId yes pubKey signature = None"
    using assms by (simp add: acceptPeerVote_def)
  also have "\<dots> \<longleftrightarrow> (\<exists>pub sig. DecodeString pubKey = Some pub \<and> length pub = 32 \<and> nodeId = EncodeToString pub \<and>
         DecodeString signature = Some sig \<and> length sig = 64 \<and> edVerify ed pub (bytes_of (VoteMessage blockId yes)) sig)"
    by (cases "pubKey = []"; cases "signature = []")
      (auto simp: VerifyVoteSignature_def decode_sized_def PublicKeySize_def SignatureSize_def split: option.splits if_splits)
  finally show ?thesis by (simp add: bytes_of_inj VoteMessage_inj)
qed

text \<open>A toy signature scheme in which the signature is a fixed byte string.\<close>

definition toy_ed :: ed25519 where
  "toy_ed = \<lparr>edKeys = (replicate 32 1, replicate 64 2), edSign = (\<lambda>k m. replicate 64 3), edVerify = (\<lambda>k m s. s = replicate 64 3)\<rparr>"

theorem acceptPeerVote_binding_witness:
  "let key = EncodeToString (replicate 32 1); sig = EncodeToString (replicate 64 3)
   in acceptPeerVote toy_ed [] ''b'' key True key sig \<and> \<not> acceptPeerVote toy_ed [] ''b'' ''n1'' True key sig"
proof -
  have r: "RequireSignedVotes []" by code_simp
  have "EncodeToString (replicate 32 1) \<noteq> ''n1''" by (simp add: list_eq_iff_nth_eq)
  then show ?thesis
    unfolding Let_def acceptPeerVote_binding [OF r, THEN conjunct1] by (simp add: toy_ed_def)
qed

text \<open>
  Remark: a node's own votes verify: whatever identity it loaded or created, its signature of a vote is accepted
  by \<open>VerifyVoteSignature\<close> under its own node id, provided Ed25519 verifies what it signed and the loaded
  keys belong together.
\<close>

theorem SignVote_verifies:
  assumes "fst (LoadOrCreateIdentity ed save_ok stored) = Inr ident"
    and "\<And>pub priv m. DecodeString (idPubKey ident) = Some pub \<Longrightarrow> DecodeString (idPrivKey ident) = Some priv \<Longrightarrow>
       edVerify ed pub m (edSign ed priv m) \<and> length (edSign ed priv m) = 64"
    and "length (fst (edKeys ed)) = 32" "length (snd (edKeys ed)) = 64"
  shows "\<exists>s. SignVote ed ident blockID yes = Some s \<and>
     VerifyVoteSignature ed (idNodeID ident) blockID yes (idPubKey ident) s = None"
proof -
  have "\<exists>pub priv. decode_sized PublicKeySize (idPubKey ident) = Some pub \<and> decode_sized PrivateKeySize (idPrivKey ident) = Some priv \<and>
      idNodeID ident = EncodeToString pub"
  proof (cases stored)
    case (IdParsed f)
    then have "check_identity f = Inr ident" using assms(1) by (simp add: LoadOrCreateIdentity_def)
    then show ?thesis by (auto simp: check_identity_def Let_def split: if_splits option.splits)
  next
    case IdMissing
    then have "ident = \<lparr>idNodeID = EncodeToString (fst (edKeys ed)), idPubKey = EncodeToString (fst (edKeys ed)),
        idPrivKey = EncodeToString (snd (edKeys ed))\<rparr>"
      using assms(1) by (auto simp: LoadOrCreateIdentity_def Let_def split: if_splits)
    then show ?thesis using assms(3,4) by (simp add: decode_sized_encode PublicKeySize_def PrivateKeySize_def)
  qed (use assms(1) in \<open>simp_all add: LoadOrCreateIdentity_def\<close>)
  then obtain pub priv where k: "decode_sized PublicKeySize (idPubKey ident) = Some pub"
    "decode_sized PrivateKeySize (idPrivKey ident) = Some priv" "idNodeID ident = EncodeToString pub" by blast
  then have "DecodeString (idPubKey ident) = Some pub" "DecodeString (idPrivKey ident) = Some priv"
    by (auto simp: decode_sized_def split: option.splits if_splits)
  from assms(2) [OF this] show ?thesis
    using k by (simp add: SignVote_def VerifyVoteSignature_def decode_sized_encode SignatureSize_def)
qed

theorem SignVote_verifies_witness:
  "\<exists>ident s. fst (LoadOrCreateIdentity toy_ed True IdMissing) = Inr ident \<and> SignVote toy_ed ident ''b'' True = Some s \<and>
     VerifyVoteSignature toy_ed (idNodeID ident) ''b'' True (idPubKey ident) s = None"
proof -
  obtain ident where i: "fst (LoadOrCreateIdentity toy_ed True IdMissing) = Inr ident"
    by (simp add: LoadOrCreateIdentity_def Let_def)
  have "\<exists>s. SignVote toy_ed ident ''b'' True = Some s \<and> VerifyVoteSignature toy_ed (idNodeID ident) ''b'' True (idPubKey ident) s = None"
    by (rule SignVote_verifies [OF i]) (simp_all add: toy_ed_def)
  with i show ?thesis by blast
qed

text \<open>
  Remark: a vote round is named after what is voted on. The round id does not depend on the order in which a
  node holds the transactions, and the text that is hashed determines the phase, the block number, the
  multiset of transaction hashes and the state root, for phases and hashes in the alphabet they use.
\<close>

theorem computeVoteBlockID_payload:
  assumes "CHR '':'' \<notin> set phase" "CHR '':'' \<notin> set phase'" "in_i64 n" "in_i64 n'"
    and "\<forall>h \<in> set hs. h \<noteq> [] \<and> CHR '','' \<notin> set h \<and> CHR '':'' \<notin> set h"
    and "\<forall>h \<in> set hs'. h \<noteq> [] \<and> CHR '','' \<notin> set h \<and> CHR '':'' \<notin> set h"
  shows "(mset hs = mset hs' \<longrightarrow> computeVoteBlockID phase n hs root = computeVoteBlockID phase n hs' root) \<and>
     (vote_payload phase n hs root = vote_payload phase' n' hs' root' \<longleftrightarrow>
        phase = phase' \<and> n = n' \<and> mset hs = mset hs' \<and> root = root')"
proof -
  have perm: "sort xs = sort ys \<longleftrightarrow> mset xs = mset ys" for xs ys :: "string list"
    by (metis mset_sort properties_for_sort sorted_sort)
  have noc: "CHR '':'' \<notin> set (Join CHR '','' (sort xs))" if "\<forall>h \<in> set xs. CHR '':'' \<notin> set h" for xs
    using set_Join [of "CHR '',''" "sort xs"] that by auto
  have "phase = phase' \<and> n = n' \<and> mset hs = mset hs' \<and> root = root'"
    if eq: "vote_payload phase n hs root = vote_payload phase' n' hs' root'"
  proof -
    from split_at_sep [OF eq [unfolded vote_payload_def] assms(1,2)]
    have p: "phase = phase'" and r1: "FormatInt n @ CHR '':'' # Join CHR '','' (sort hs) @ CHR '':'' # root =
        FormatInt n' @ CHR '':'' # Join CHR '','' (sort hs') @ CHR '':'' # root'" by simp_all
    from split_at_sep [OF r1 FormatInt_no_colon FormatInt_no_colon]
    have f: "FormatInt n = FormatInt n'" and r2: "Join CHR '','' (sort hs) @ CHR '':'' # root = Join CHR '','' (sort hs') @ CHR '':'' # root'"
      by simp_all
    have "Join CHR '','' (sort hs) = Join CHR '','' (sort hs') \<and> root = root'"
      using r2 noc [of hs] noc [of hs'] assms(5,6) by (intro split_at_sep) auto
    moreover from this have "sort hs = sort hs'" using assms(5,6) by (intro Join_inj [of "CHR '',''"]) auto
    ultimately show ?thesis using p FormatInt_inj [OF assms(3,4) f] perm by simp
  qed
  moreover have "vote_payload phase n hs root = vote_payload phase n hs' root" if "mset hs = mset hs'"
  proof -
    have "sort hs = sort hs'" using that by (simp only: perm)
    then show ?thesis by (simp only: vote_payload_def)
  qed
  ultimately show ?thesis unfolding computeVoteBlockID_def by auto
qed

theorem computeVoteBlockID_payload_witness:
  "computeVoteBlockID ''l1'' 4 [''b'', ''a''] ''r'' = computeVoteBlockID ''l1'' 4 [''a'', ''b''] ''r''"
  using computeVoteBlockID_payload [of "''l1''" "''l1''" 4 4 "[''b'', ''a'']" "[''a'', ''b'']" "''r''" "''r''"]
  by (simp add: in_i64_def add_mset_commute)

end
