(* ===== verification/Voting.thy ===== *)
theory Voting
  imports Rating Identity
begin

text \<open>
  Vote rounds (\<^verbatim>\<open>internal/handlers/handlers.go\<close>, \<^verbatim>\<open>handlers_consensus.go\<close>): the committee of a round, the
  counting of signed votes until the threshold or the timeout closes the round, the verdict with
  Core's aggregation, and what a round does to the reputation of its voters.

  L1 and L2 rounds differ only in the threshold, so both are instances of one group of definitions
  with the layer as an argument. A committee is the key list of the Go map (all its values are true).
  The \<open>done\<close> channel has room for one value and is written without blocking: \<open>None\<close> is empty. Core's
  calls are arguments: \<open>None\<close> stands for a gateway without a Core, a call that returns \<open>None\<close> failed.
\<close>

subsection \<open>Rounds\<close>

datatype vote_layer = L1 | L2

definition L1VoteThresholdPct :: int where "L1VoteThresholdPct = 67"
definition L2VoteThresholdPct :: int where "L2VoteThresholdPct = 70"

fun threshold_pct :: "vote_layer \<Rightarrow> int" where
  "threshold_pct L1 = L1VoteThresholdPct"
| "threshold_pct L2 = L2VoteThresholdPct"

definition need :: "vote_layer \<Rightarrow> int \<Rightarrow> int" where
  "need layer totalExpected = go_div (i64 (i64 (totalExpected * threshold_pct layer) + 99)) 100"

record vote_round =
  vrBlockId :: string
  vrVotes :: "(string \<times> bool) list"
  vrTotalExpected :: int
  vrCommittee :: "string list option"
  vrDone :: "bool option"
  vrClosed :: bool

definition yes_count :: "(string \<times> bool) list \<Rightarrow> int" where
  "yes_count votes = int (length (filter snd votes))"

text \<open>\<open>closed = true\<close> and a non-blocking send.\<close>

definition close_round :: "bool \<Rightarrow> vote_round \<Rightarrow> vote_round" where
  "close_round b rd = rd\<lparr>vrClosed := True, vrDone := (case vrDone rd of None \<Rightarrow> Some b | Some c \<Rightarrow> Some c)\<rparr>"

definition slash_equivocation :: "registry \<Rightarrow> string \<Rightarrow> registry" where
  "slash_equivocation r nodeId =
     (let r1 = EnsureNode r nodeId 0 1
      in case ApplySlash r1 nodeId SlashEquivocation of None \<Rightarrow> r1 | Some r2 \<Rightarrow> r2)"

definition count_vote :: "vote_layer \<Rightarrow> string \<Rightarrow> bool \<Rightarrow> vote_round \<Rightarrow> vote_round" where
  "count_vote layer nodeId yes rd =
     (let votes = AList.update nodeId yes (vrVotes rd);
          rd1 = rd\<lparr>vrVotes := votes\<rparr>;
          n = need layer (vrTotalExpected rd)
      in if yes_count votes \<ge> n \<and> int (length votes) \<ge> n then close_round True rd1 else rd1)"

definition receive_vote :: "vote_layer \<Rightarrow> registry \<times> vote_round \<Rightarrow> string \<Rightarrow> string \<Rightarrow> bool \<Rightarrow> registry \<times> vote_round" where
  "receive_vote layer s blockId nodeId yes =
     (let (r, rd) = s
      in if vrBlockId rd \<noteq> blockId then s
         else if (case vrCommittee rd of None \<Rightarrow> False | Some c \<Rightarrow> nodeId \<notin> set c) then s
         else if vrClosed rd then s
         else case map_of (vrVotes rd) nodeId of
             Some prev \<Rightarrow> (if prev \<noteq> yes then (slash_equivocation r nodeId, rd) else s)
           | None \<Rightarrow> (r, count_vote layer nodeId yes rd))"

text \<open>The handler's voting state.\<close>

record voting =
  vtRegistry :: registry
  l1VoteRound :: "vote_round option"
  l2VoteRound :: "vote_round option"
  l1VotedIds :: "string list"
  l2VotedIds :: "string list"
  lastL1Votes :: "(string \<times> bool) list"
  lastL2Votes :: "(string \<times> bool) list"
  lastL1Accepted :: bool
  lastL2Accepted :: bool

fun the_round :: "vote_layer \<Rightarrow> voting \<Rightarrow> vote_round option" where
  "the_round L1 vt = l1VoteRound vt"
| "the_round L2 vt = l2VoteRound vt"

fun set_round :: "vote_layer \<Rightarrow> vote_round option \<Rightarrow> voting \<Rightarrow> voting" where
  "set_round L1 rd vt = vt\<lparr>l1VoteRound := rd\<rparr>"
| "set_round L2 rd vt = vt\<lparr>l2VoteRound := rd\<rparr>"

definition onVote ::
  "ed25519 \<Rightarrow> string \<Rightarrow> vote_layer \<Rightarrow> voting \<Rightarrow> string \<Rightarrow> string \<Rightarrow> bool \<Rightarrow> string \<Rightarrow> string \<Rightarrow> voting" where
  "onVote ed env layer vt blockId nodeId yes pubKey signature =
     (if \<not> acceptPeerVote ed env blockId nodeId yes pubKey signature then vt
      else case the_round layer vt of
          None \<Rightarrow> vt
        | Some rd \<Rightarrow>
            (let (r, rd') = receive_vote layer (vtRegistry vt, rd) blockId nodeId yes
             in set_round layer (Some rd') (vt\<lparr>vtRegistry := r\<rparr>)))"

definition onL1Vote :: "ed25519 \<Rightarrow> string \<Rightarrow> voting \<Rightarrow> string \<Rightarrow> string \<Rightarrow> bool \<Rightarrow> string \<Rightarrow> string \<Rightarrow> voting" where
  "onL1Vote ed env = onVote ed env L1"

definition onL2Vote :: "ed25519 \<Rightarrow> string \<Rightarrow> voting \<Rightarrow> string \<Rightarrow> string \<Rightarrow> bool \<Rightarrow> string \<Rightarrow> string \<Rightarrow> voting" where
  "onL2Vote ed env = onVote ed env L2"

text \<open>A proposal is answered at most once: the new state and whether a vote is submitted.\<close>

definition onL1Proposal :: "string \<Rightarrow> voting \<Rightarrow> string \<Rightarrow> string \<Rightarrow> bool \<times> voting" where
  "onL1Proposal myId vt blockId proposer =
     (if proposer = myId \<or> blockId \<in> set (l1VotedIds vt) then (False, vt)
      else (True, vt\<lparr>l1VotedIds := blockId # l1VotedIds vt\<rparr>))"

definition onL2Proposal :: "string \<Rightarrow> voting \<Rightarrow> string \<Rightarrow> string \<Rightarrow> bool \<times> voting" where
  "onL2Proposal myId vt blockId proposer =
     (if proposer = myId \<or> blockId \<in> set (l2VotedIds vt) then (False, vt)
      else (True, vt\<lparr>l2VotedIds := blockId # l2VotedIds vt\<rparr>))"

definition onL1VoteResult :: "voting \<Rightarrow> (string \<times> bool) list \<Rightarrow> bool \<Rightarrow> voting" where
  "onL1VoteResult vt votes accepted = vt\<lparr>lastL1Votes := votes, lastL1Accepted := accepted\<rparr>"

definition onL2VoteResult :: "voting \<Rightarrow> (string \<times> bool) list \<Rightarrow> bool \<Rightarrow> voting" where
  "onL2VoteResult vt votes accepted = vt\<lparr>lastL2Votes := votes, lastL2Accepted := accepted\<rparr>"

text \<open>Milliseconds.\<close>

definition voteRoundTimeout :: "int \<Rightarrow> int" where
  "voteRoundTimeout totalExpected =
     (if totalExpected \<le> 3 then 1200
      else let d = 5000 + totalExpected * 150 in if d > 45000 then 45000 else d)"

subsection \<open>The committee\<close>

record committee_core =
  ccCount :: "int \<Rightarrow> int \<Rightarrow> int option"
  ccSelect :: "(string \<times> int) list \<Rightarrow> string \<Rightarrow> int \<Rightarrow> string list option"

definition load_of :: "NodeScores \<Rightarrow> int" where
  "load_of n = go_div (i64 (LoadScore n * 100)) ScoreScale"

definition networkLoadPct :: "registry \<Rightarrow> string list \<Rightarrow> int" where
  "networkLoadPct r candidates =
     foldl (\<lambda>loadPct i. case map_of r i of None \<Rightarrow> loadPct | Some n \<Rightarrow> (if load_of n > loadPct then load_of n else loadPct))
       0 candidates"

definition fallback_size :: "int \<Rightarrow> int \<Rightarrow> int" where
  "fallback_size numCandidates loadPct =
     (let size0 = go_div (i64 (numCandidates * SelectionPercentFromLoad loadPct)) 100;
          size1 = (if size0 < 1 then 1 else size0);
          size2 = (if numCandidates \<ge> 3 \<and> size1 < 3 then 3 else size1)
      in if size2 > numCandidates then numCandidates else size2)"

definition to_select :: "int \<Rightarrow> string list \<Rightarrow> int" where
  "to_select committeeSize others =
     (let k = i64 (committeeSize - 1); k1 = (if k < 0 then 0 else k)
      in if k1 > int (length others) then int (length others) else k1)"

definition seed_hex :: "string \<Rightarrow> string" where
  "seed_hex blockId = sha256_hex blockId"

definition committee_list ::
  "committee_core option \<Rightarrow> (nat \<Rightarrow> int \<Rightarrow> int) \<Rightarrow> registry \<Rightarrow> string \<Rightarrow> string list \<Rightarrow> int \<Rightarrow> string \<Rightarrow> string list" where
  "committee_list cc rnd r myId candidates loadPct blockId =
     (let others = filter (\<lambda>i. i \<noteq> myId) candidates;
          n = int (length candidates);
          local_pick = (\<lambda>k. if k > 0 then SelectCommittee rnd r others k else [])
      in case cc of
           None \<Rightarrow> local_pick (to_select (fallback_size n loadPct) others)
         | Some core \<Rightarrow>
             (case ccCount core n loadPct of
                None \<Rightarrow> local_pick (to_select (fallback_size n loadPct) others)
              | Some sz \<Rightarrow>
                  (let k = to_select sz others
                   in if k = 0 then []
                      else case ccSelect core (map (\<lambda>i. (i, pick_weight r i)) others) (seed_hex blockId) k of
                          Some ids \<Rightarrow> ids
                        | None \<Rightarrow> SelectCommittee rnd r others k)))"

definition committee_set :: "string \<Rightarrow> string list \<Rightarrow> string list" where
  "committee_set myId ids = remdups (myId # ids)"

text \<open>The round a proposer opens, with its own yes vote; alone in the committee it closes at once.\<close>

definition open_round :: "string \<Rightarrow> string list \<Rightarrow> string \<Rightarrow> vote_round" where
  "open_round myId committee blockId =
     (let rd = \<lparr>vrBlockId = blockId, vrVotes = [(myId, True)], vrTotalExpected = int (length committee),
                vrCommittee = Some committee, vrDone = None, vrClosed = False\<rparr>
      in if vrTotalExpected rd = 1 then close_round True rd else rd)"

definition timeout_round :: "vote_round \<Rightarrow> vote_round" where
  "timeout_round rd = (if vrClosed rd then rd else close_round False rd)"

subsection \<open>The verdict\<close>

record VoteResult =
  Confirmed :: bool
  ToPenalize :: "string list"
  ResultError :: string

definition votesToCoreJSON :: "(string \<times> bool) list \<Rightarrow> (string \<times> bool) list" where
  "votesToCoreJSON votes = sort_key fst votes"

definition allowDegradedConsensus :: "string \<Rightarrow> bool" where
  "allowDegradedConsensus v = (v \<noteq> [] \<and> (EqualFold v ''1'' \<or> EqualFold v ''true'' \<or> EqualFold v ''yes''))"

type_synonym vote_core = "vote_layer \<Rightarrow> (string \<times> bool) list \<Rightarrow> VoteResult option"

definition finalizeVoteRoundWithCore ::
  "vote_core option \<Rightarrow> (string \<times> bool) list \<Rightarrow> vote_layer \<Rightarrow> bool \<Rightarrow> bool \<times> string list \<times> bool" where
  "finalizeVoteRoundWithCore vc votes layer timeoutPending =
     (if votes = [] then (False, [], False)
      else case vc of
          None \<Rightarrow> (timeoutPending, [], False)
        | Some process \<Rightarrow>
            (case process layer (votesToCoreJSON votes) of
               None \<Rightarrow> (False, [], True)
             | Some res \<Rightarrow> (Confirmed res, ToPenalize res, False)))"

definition lone_proposer :: "int \<Rightarrow> (string \<times> bool) list \<Rightarrow> string \<Rightarrow> bool" where
  "lone_proposer totalExpected votes myId = (totalExpected > 1 \<and> length votes = 1 \<and> map_of votes myId = Some True)"

definition maybeDegradedAccept :: "string \<Rightarrow> bool \<Rightarrow> bool \<Rightarrow> int \<Rightarrow> (string \<times> bool) list \<Rightarrow> string \<Rightarrow> bool \<times> bool" where
  "maybeDegradedAccept env accepted coreRPCFailed totalExpected votes myId =
     (if accepted \<or> coreRPCFailed \<or> \<not> allowDegradedConsensus env then (accepted, False)
      else if lone_proposer totalExpected votes myId then (True, True)
      else (accepted, False))"

text \<open>The end of \<open>l1CollectBlockRun\<close>'s and \<open>l2ConfirmBlockRun\<close>'s round: accepted, and whom to penalise.\<close>

definition round_verdict ::
  "vote_core option \<Rightarrow> string \<Rightarrow> bool \<Rightarrow> vote_layer \<Rightarrow> string \<Rightarrow> vote_round \<Rightarrow> bool \<times> string list" where
  "round_verdict vc env testnet layer myId rd =
     (let ok = (case vrDone rd of Some b \<Rightarrow> b | None \<Rightarrow> False);
          (accepted, toPenalize, failed) = finalizeVoteRoundWithCore vc (vrVotes rd) layer ok;
          (accepted1, degraded1) = maybeDegradedAccept env accepted failed (vrTotalExpected rd) (vrVotes rd) myId;
          override = (\<not> accepted1 \<and> testnet \<and> lone_proposer (vrTotalExpected rd) (vrVotes rd) myId)
      in (accepted1 \<or> override, if degraded1 \<or> override then [] else toPenalize))"

subsection \<open>Reputation\<close>

definition vote_stat :: "bool \<Rightarrow> registry \<Rightarrow> string \<Rightarrow> registry" where
  "vote_stat wrong r nodeId =
     (let r1 = EnsureNode r nodeId 0 1
      in case map_of r1 nodeId of
           None \<Rightarrow> r1
         | Some n \<Rightarrow>
             SetVoteStats r1 nodeId (if wrong then i64 (MissedVotes n + 1) else MissedVotes n) (i64 (TotalVotes n + 1)))"

definition updateVoteStatsFromRound ::
  "registry \<Rightarrow> (string \<times> bool) list \<Rightarrow> bool \<Rightarrow> string list option \<Rightarrow> string list \<Rightarrow> registry" where
  "updateVoteStatsFromRound r votes accepted expectedVoters connected =
     (let r1 = foldl (\<lambda>r p. vote_stat (snd p \<noteq> accepted) r (fst p)) r votes;
          toPenalise = filter (\<lambda>i. map_of votes i = None) (case expectedVoters of Some c \<Rightarrow> c | None \<Rightarrow> connected)
      in foldl (vote_stat True) r1 toPenalise)"

definition applyVoteSlashing :: "registry \<Rightarrow> (string \<times> bool) list \<Rightarrow> string list \<Rightarrow> string list option \<Rightarrow> registry" where
  "applyVoteSlashing r votes toPenalize committee =
     (let r1 = (if toPenalize = [] then r else ApplySlashBatch r toPenalize SlashAgainstMajority)
      in case committee of
           None \<Rightarrow> r1
         | Some c \<Rightarrow>
             (let noVote = filter (\<lambda>i. map_of votes i = None) c
              in if noVote = [] then r1 else ApplySlashBatch r1 noVote SlashNoVote))"

fun set_last_votes :: "vote_layer \<Rightarrow> (string \<times> bool) list \<Rightarrow> bool \<Rightarrow> voting \<Rightarrow> voting" where
  "set_last_votes L1 votes ok vt = vt\<lparr>lastL1Votes := votes, lastL1Accepted := ok\<rparr>"
| "set_last_votes L2 votes ok vt = vt\<lparr>lastL2Votes := votes, lastL2Accepted := ok\<rparr>"

definition complete_round ::
  "vote_core option \<Rightarrow> string \<Rightarrow> bool \<Rightarrow> vote_layer \<Rightarrow> string \<Rightarrow> string list \<Rightarrow> vote_round \<Rightarrow> voting \<Rightarrow> bool \<times> voting" where
  "complete_round vc env testnet layer myId connected rd vt =
     (let (ok, toPenalize) = round_verdict vc env testnet layer myId rd;
          r1 = updateVoteStatsFromRound (vtRegistry vt) (vrVotes rd) ok (vrCommittee rd) connected;
          r2 = applyVoteSlashing r1 (vrVotes rd) toPenalize (vrCommittee rd)
      in (ok, (set_last_votes layer (vrVotes rd) ok (set_round layer None vt))\<lparr>vtRegistry := r2\<rparr>))"

subsection \<open>A round as a machine\<close>

datatype round_event =
    VoteArrives string string bool string string
  | RoundTimeout

fun round_step :: "ed25519 \<Rightarrow> string \<Rightarrow> vote_layer \<Rightarrow> registry \<times> vote_round \<Rightarrow> round_event \<Rightarrow> registry \<times> vote_round" where
  "round_step ed env layer s (VoteArrives blockId nodeId yes pubKey signature) =
     (if acceptPeerVote ed env blockId nodeId yes pubKey signature then receive_vote layer s blockId nodeId yes else s)"
| "round_step ed env layer s RoundTimeout = (fst s, timeout_round (snd s))"

definition round_run :: "ed25519 \<Rightarrow> string \<Rightarrow> vote_layer \<Rightarrow> registry \<times> vote_round \<Rightarrow> round_event list \<Rightarrow> registry \<times> vote_round" where
  "round_run ed env layer s events = foldl (round_step ed env layer) s events"

text \<open>Votes come from the committee, one each, the proposer's yes among them; the round signals true exactly
  when the yes votes reach the threshold.\<close>

definition round_ok :: "vote_layer \<Rightarrow> string \<Rightarrow> vote_round \<Rightarrow> bool" where
  "round_ok layer myId rd \<longleftrightarrow>
     (\<exists>c. vrCommittee rd = Some c \<and> distinct c \<and> int (length c) = vrTotalExpected rd \<and> fst ` set (vrVotes rd) \<subseteq> set c) \<and>
     vrTotalExpected rd < 2 ^ 40 \<and> wf_map (vrVotes rd) \<and> map_of (vrVotes rd) myId = Some True \<and>
     (vrClosed rd \<longleftrightarrow> vrDone rd \<noteq> None) \<and>
     (vrDone rd = Some True \<longleftrightarrow> need layer (vrTotalExpected rd) \<le> yes_count (vrVotes rd))"

lemma need_eq:
  assumes "0 \<le> n" "n < 2 ^ 40"
  shows "need layer n = (n * threshold_pct layer + 99) div 100"
proof -
  have p: "0 \<le> threshold_pct layer" "threshold_pct layer \<le> 100"
    by (cases layer; simp add: L1VoteThresholdPct_def L2VoteThresholdPct_def)+
  then have "0 \<le> n * threshold_pct layer" "n * threshold_pct layer \<le> n * 100"
    using assms by (simp_all add: mult_left_mono)
  then have "in_i64 (n * threshold_pct layer)" "in_i64 (n * threshold_pct layer + 99)"
      "0 \<le> n * threshold_pct layer + 99" "n * threshold_pct layer + 99 < 2 ^ 63"
    using assms by (simp_all add: in_i64_def)
  then show ?thesis by (simp add: need_def go_div_nonneg)
qed

lemma need_bounds:
  assumes "1 \<le> n" "n < 2 ^ 40"
  shows "1 \<le> need layer n" "need layer n \<le> n" "2 \<le> n \<Longrightarrow> 2 \<le> need layer n"
    "n * threshold_pct layer \<le> need layer n * 100"
  using assms need_eq [of n layer]
  by (cases layer; simp add: L1VoteThresholdPct_def L2VoteThresholdPct_def)+

lemma yes_count_update:
  assumes "map_of votes i = None"
  shows "yes_count (AList.update i b votes) = yes_count votes + (if b then 1 else 0)"
    and "length (AList.update i b votes) = Suc (length votes)"
proof -
  have "AList.update i b votes = votes @ [(i, b)]"
    using assms by (induction votes) (auto split: if_splits)
  then show "yes_count (AList.update i b votes) = yes_count votes + (if b then 1 else 0)"
    and "length (AList.update i b votes) = Suc (length votes)"
    by (simp_all add: yes_count_def)
qed

lemma yes_count_le: "yes_count votes \<le> int (length votes)"
  by (simp add: yes_count_def)

lemma fst_update: "fst ` set (AList.update k v m) = insert k (fst ` set m)"
  by (metis dom_map_of_conv_image_fst dom_fun_upd map_of_update option.distinct(1))

lemma count_vote_ok:
  assumes ok: "round_ok layer myId rd" and open_: "\<not> vrClosed rd" and c: "vrCommittee rd = Some c" "i \<in> set c"
    and new: "map_of (vrVotes rd) i = None"
  shows "round_ok layer myId (count_vote layer i yes rd) \<and> map_of (vrVotes rd) \<subseteq>\<^sub>m map_of (vrVotes (count_vote layer i yes rd))"
proof -
  have me: "i \<noteq> myId" using ok new by (auto simp: round_ok_def)
  have "vrDone rd = None" "yes_count (vrVotes rd) < need layer (vrTotalExpected rd)"
    using ok open_ by (auto simp: round_ok_def)
  then show ?thesis
    using ok c me new yes_count_le [of "AList.update i yes (vrVotes rd)"]
    by (auto simp: round_ok_def count_vote_def close_round_def Let_def fst_update yes_count_update map_le_def
        simp del: map_of_eq_Some_iff)
qed

lemma receive_vote_cases:
  assumes "vrCommittee rd = Some c"
  shows "snd (receive_vote layer (r, rd) b i yes) = rd \<or>
    (\<not> vrClosed rd \<and> i \<in> set c \<and> vrBlockId rd = b \<and> map_of (vrVotes rd) i = None \<and>
     snd (receive_vote layer (r, rd) b i yes) = count_vote layer i yes rd)"
  using assms by (auto simp: receive_vote_def split: option.split)

lemma round_step_ok:
  assumes "round_ok layer myId (snd s)"
  shows "round_ok layer myId (snd (round_step ed env layer s ev)) \<and>
    map_of (vrVotes (snd s)) \<subseteq>\<^sub>m map_of (vrVotes (snd (round_step ed env layer s ev)))"
proof (cases ev)
  case (VoteArrives b i yes pk sig)
  obtain r rd where s: "s = (r, rd)" by (cases s)
  obtain c where c: "vrCommittee rd = Some c" using assms s by (auto simp: round_ok_def)
  consider "snd (round_step ed env layer s ev) = rd"
    | "\<not> vrClosed rd" "i \<in> set c" "map_of (vrVotes rd) i = None"
      "snd (round_step ed env layer s ev) = count_vote layer i yes rd"
    using receive_vote_cases [OF c, of layer r b i yes]
    by (cases "acceptPeerVote ed env b i yes pk sig") (auto simp: VoteArrives s)
  then show ?thesis
  proof cases
    case 1
    then show ?thesis using assms s by simp
  next
    case 2
    then show ?thesis using count_vote_ok [of layer myId rd c i yes] c assms s by simp
  qed
next
  case RoundTimeout
  then show ?thesis using assms by (auto simp: timeout_round_def close_round_def round_ok_def)
qed

lemma open_round_ok:
  assumes "distinct c" "myId \<in> set c" "int (length c) < 2 ^ 40"
  shows "round_ok layer myId (open_round myId c b)"
proof -
  have n: "1 \<le> int (length c)" using assms(2) by (cases c) auto
  have "need layer (int (length c)) \<le> 1 \<longleftrightarrow> int (length c) = 1"
    using need_bounds [OF n assms(3), of layer] n by linarith
  then show ?thesis using assms by (auto simp: round_ok_def open_round_def Let_def close_round_def yes_count_def)
qed

text \<open>Each layer's round keeps its invariant, and a recorded vote is never changed.\<close>

interpretation vote_machine: growing_machine "round_step ed env layer" "\<lambda>s. round_ok layer myId (snd s)"
    "\<lambda>s t. map_of (vrVotes (snd s)) \<subseteq>\<^sub>m map_of (vrVotes (snd t))"
  for ed env layer myId
  by unfold_locales (auto simp: round_step_ok intro: map_le_trans)

subsection \<open>Quorums\<close>

text \<open>A vote threshold above two thirds: two quorums of one committee share more than a third of it.\<close>

locale quorum =
  fixes q :: "int \<Rightarrow> int"
  assumes two_thirds: "1 \<le> n \<Longrightarrow> n < 2 ^ 40 \<Longrightarrow> 2 * n < 3 * q n"
    and attainable: "1 \<le> n \<Longrightarrow> n < 2 ^ 40 \<Longrightarrow> q n \<le> n"
begin

lemma intersect:
  assumes "finite C" "C \<noteq> {}" "int (card C) < 2 ^ 40" "A \<subseteq> C" "B \<subseteq> C"
    and "q (int (card C)) \<le> int (card A)" "q (int (card C)) \<le> int (card B)"
  shows "int (card C) < 3 * int (card (A \<inter> B))"
proof -
  have n: "1 \<le> int (card C)" using assms(1,2) by (simp add: Suc_leI card_gt_0_iff)
  have "finite A" "finite B" using assms(1,4,5) by (auto intro: finite_subset)
  then have "card A + card B = card (A \<union> B) + card (A \<inter> B)" by (rule card_Un_Int)
  moreover have "card (A \<union> B) \<le> card C" using assms(1,4,5) by (intro card_mono) auto
  ultimately show ?thesis using two_thirds [OF n assms(3)] assms(6,7) by linarith
qed

end

interpretation layer_quorum: quorum "need layer" for layer
proof
  fix n :: int
  assume "1 \<le> n" "n < 2 ^ 40"
  note b = need_bounds [OF this, of layer]
  show "need layer n \<le> n" by (rule b)
  show "2 * n < 3 * need layer n"
    using b(4) \<open>1 \<le> n\<close> by (cases layer) (simp_all add: L1VoteThresholdPct_def L2VoteThresholdPct_def)
qed

definition yes_set :: "vote_round \<Rightarrow> string set" where
  "yes_set rd = {i. map_of (vrVotes rd) i = Some True}"

lemma card_yes_set:
  assumes "wf_map (vrVotes rd)"
  shows "int (card (yes_set rd)) = yes_count (vrVotes rd)"
proof -
  have "yes_set rd = fst ` set (filter snd (vrVotes rd))"
    using assms by (force simp: yes_set_def)
  moreover have "distinct (map fst (filter snd (vrVotes rd)))" using assms by (rule distinct_map_filter')
  ultimately show ?thesis
    by (simp add: yes_count_def distinct_card [symmetric] distinct_map card_image flip: set_map)
qed

lemma round_ok_yes_set:
  assumes "round_ok layer myId rd" "vrCommittee rd = Some c"
  shows "yes_set rd \<subseteq> set c" "card (set c) = length c" "int (card (set c)) = vrTotalExpected rd"
    "vrDone rd = Some True \<Longrightarrow> need layer (int (card (set c))) \<le> int (card (yes_set rd))"
  using assms card_yes_set [of rd] by (auto simp: round_ok_def yes_set_def distinct_card dest: map_of_SomeD)

subsection \<open>Runs of a round\<close>

lemma round_step_const:
  assumes "vrCommittee (snd s) = Some c"
  shows "vrCommittee (snd (round_step ed env layer s ev)) = Some c"
    and "vrBlockId (snd (round_step ed env layer s ev)) = vrBlockId (snd s)"
    and "vrTotalExpected (snd (round_step ed env layer s ev)) = vrTotalExpected (snd s)"
proof -
  obtain r rd where s: "s = (r, rd)" by (cases s)
  consider "snd (round_step ed env layer s ev) = rd"
    | i yes where "snd (round_step ed env layer s ev) = count_vote layer i yes rd"
    | "snd (round_step ed env layer s ev) = timeout_round rd"
    using receive_vote_cases [of rd c layer r] assms s
    by (cases ev) (metis round_step.simps(1) snd_conv, simp)
  then show "vrCommittee (snd (round_step ed env layer s ev)) = Some c"
    and "vrBlockId (snd (round_step ed env layer s ev)) = vrBlockId (snd s)"
    and "vrTotalExpected (snd (round_step ed env layer s ev)) = vrTotalExpected (snd s)"
    using assms s by (cases; simp add: count_vote_def timeout_round_def close_round_def Let_def)+
qed

lemma round_run_const:
  assumes "vrCommittee (snd s) = Some c"
  shows "vrCommittee (snd (round_run ed env layer s evs)) = Some c \<and>
    vrBlockId (snd (round_run ed env layer s evs)) = vrBlockId (snd s) \<and>
    vrTotalExpected (snd (round_run ed env layer s evs)) = vrTotalExpected (snd s)"
  using assms unfolding round_run_def
proof (induction evs arbitrary: s)
  case (Cons ev evs)
  then show ?case using round_step_const [OF Cons.prems, of ed env layer ev] by simp
qed simp

lemma open_round_simps [simp]:
  "vrCommittee (open_round myId c b) = Some c" "vrBlockId (open_round myId c b) = b"
  "vrTotalExpected (open_round myId c b) = int (length c)" "vrVotes (open_round myId c b) = [(myId, True)]"
  by (simp_all add: open_round_def Let_def close_round_def)

lemma round_run_ok:
  assumes "distinct c" "myId \<in> set c" "int (length c) < 2 ^ 40"
  shows "round_ok layer myId (snd (round_run ed env layer (r, open_round myId c b) evs))"
  unfolding round_run_def by (rule vote_machine.run_inv) (simp add: open_round_ok [OF assms])

lemma round_run_snoc:
  "round_run ed env layer s (evs @ [ev]) = round_step ed env layer (round_run ed env layer s evs) ev"
  by (simp add: round_run_def)

lemma timeout_done: "round_ok layer myId rd \<Longrightarrow> vrDone (timeout_round rd) \<noteq> None"
  by (auto simp: timeout_round_def close_round_def round_ok_def)

text \<open>Where the votes of a round come from.\<close>

definition vote_source :: "ed25519 \<Rightarrow> string \<Rightarrow> string \<Rightarrow> round_event list \<Rightarrow> string \<Rightarrow> string \<Rightarrow> bool \<Rightarrow> bool" where
  "vote_source ed env myId evs b i yes \<longleftrightarrow>
     (i = myId \<and> yes) \<or>
     (\<exists>pk sig. VoteArrives b i yes pk sig \<in> set evs \<and> acceptPeerVote ed env b i yes pk sig)"

lemma round_step_votes:
  assumes c: "vrCommittee (snd s) = Some c" and v: "map_of (vrVotes (snd (round_step ed env layer s ev))) i = Some yes"
  shows "map_of (vrVotes (snd s)) i = Some yes \<or>
    (\<exists>pk sig. ev = VoteArrives (vrBlockId (snd s)) i yes pk sig \<and> acceptPeerVote ed env (vrBlockId (snd s)) i yes pk sig)"
proof (cases ev)
  case (VoteArrives b j y pk sig)
  obtain r rd where s: "s = (r, rd)" by (cases s)
  show ?thesis
  proof (cases "acceptPeerVote ed env b j y pk sig")
    case True
    then have "map_of (vrVotes (snd (receive_vote layer (r, rd) b j y))) i = Some yes" using v by (simp add: VoteArrives s)
    then show ?thesis
      using receive_vote_cases [of rd c layer r b j y] c True
      by (auto simp: s VoteArrives count_vote_def close_round_def Let_def split: if_splits)
  next
    case False
    then show ?thesis using v by (simp add: VoteArrives s)
  qed
next
  case RoundTimeout
  then show ?thesis using v by (auto simp: timeout_round_def close_round_def split: if_splits)
qed

lemma round_run_votes:
  assumes c: "vrCommittee (snd s) = Some c" and v: "map_of (vrVotes (snd (round_run ed env layer s evs))) i = Some yes"
  shows "map_of (vrVotes (snd s)) i = Some yes \<or>
    (\<exists>pk sig. VoteArrives (vrBlockId (snd s)) i yes pk sig \<in> set evs \<and> acceptPeerVote ed env (vrBlockId (snd s)) i yes pk sig)"
  using v
proof (induction evs rule: rev_induct)
  case (snoc ev evs)
  let ?s = "round_run ed env layer s evs"
  have "vrCommittee (snd ?s) = Some c" "vrBlockId (snd ?s) = vrBlockId (snd s)" using round_run_const [OF c] by simp_all
  then show ?case using round_step_votes [of ?s c ed env layer ev i yes] snoc by (auto simp: round_run_snoc)
qed (simp add: round_run_def)

lemma unanimous_step:
  assumes ok: "round_ok layer myId (snd s)" and c: "vrCommittee (snd s) = Some c" "i \<in> set c" and b: "vrBlockId (snd s) = b"
    and a: "acceptPeerVote ed env b i yes pk sig"
  shows "vrClosed (snd (round_step ed env layer s (VoteArrives b i yes pk sig))) \<or>
    map_of (vrVotes (snd (round_step ed env layer s (VoteArrives b i yes pk sig)))) i \<noteq> None"
  using assms by (cases s) (auto simp: receive_vote_def count_vote_def close_round_def Let_def split: option.split)

lemma closed_step: "vrClosed (snd s) \<Longrightarrow> vrCommittee (snd s) = Some c \<Longrightarrow> snd (round_step ed env layer s ev) = snd s"
  using receive_vote_cases [of "snd s" c layer "fst s"] by (cases ev) (auto simp: timeout_round_def)

lemma closed_run:
  "vrClosed (snd s) \<Longrightarrow> vrCommittee (snd s) = Some c \<Longrightarrow> snd (round_run ed env layer s evs) = snd s"
  by (induction evs rule: rev_induct) (simp_all add: round_run_snoc closed_step round_run_def)

lemma round_run_append: "round_run ed env layer s (es @ fs) = round_run ed env layer (round_run ed env layer s es) fs"
  by (simp add: round_run_def)

lemma full_count:
  assumes "distinct c" "set c \<subseteq> yes_set rd" "wf_map (vrVotes rd)"
  shows "int (length c) \<le> yes_count (vrVotes rd)"
proof -
  have "finite (yes_set rd)"
    by (rule finite_subset [of _ "fst ` set (vrVotes rd)"]) (force simp: yes_set_def dest: map_of_SomeD)+
  then have "card (set c) \<le> card (yes_set rd)" using assms(2) by (rule card_mono)
  then show ?thesis using assms(1) card_yes_set [OF assms(3)] by (simp add: distinct_card)
qed

lemma round_step_False:
  assumes c: "vrCommittee (snd s) = Some c" and f: "vrDone (snd (round_step ed env layer s ev)) = Some False"
  shows "vrDone (snd s) = Some False \<or> ev = RoundTimeout"
proof (cases ev)
  case (VoteArrives b i yes pk sig)
  obtain r rd where s: "s = (r, rd)" by (cases s)
  have "vrDone (snd (receive_vote layer (r, rd) b i yes)) = Some False \<Longrightarrow> vrDone rd = Some False"
    using receive_vote_cases [of rd c layer r b i yes] c
    by (auto simp: s count_vote_def close_round_def Let_def split: option.splits if_splits)
  then show ?thesis using f by (auto simp: VoteArrives s split: if_splits)
qed simp

lemma round_run_False:
  assumes "vrDone (snd (round_run ed env layer (r, open_round myId c b) evs)) = Some False"
  shows "RoundTimeout \<in> set evs"
  using assms
proof (induction evs rule: rev_induct)
  case Nil
  then show ?case by (auto simp: round_run_def open_round_def close_round_def Let_def split: if_splits)
next
  case (snoc ev evs)
  let ?s = "round_run ed env layer (r, open_round myId c b) evs"
  have "vrCommittee (snd ?s) = Some c" using round_run_const [of "(r, open_round myId c b)" c] by simp
  from round_step_False [OF this] snoc show ?case by (auto simp: round_run_snoc)
qed

text \<open>In a round that is still open every delivered member vote has been counted.\<close>

lemma open_run_counts:
  assumes c: "distinct c" "myId \<in> set c" "int (length c) < 2 ^ 40" and i: "i \<in> set c"
    and ev: "VoteArrives b i yes pk sig \<in> set evs" "acceptPeerVote ed env b i yes pk sig"
    and open_end: "\<not> vrClosed (snd (round_run ed env layer (r, open_round myId c b) evs))"
  shows "map_of (vrVotes (snd (round_run ed env layer (r, open_round myId c b) evs))) i \<noteq> None"
proof -
  let ?run = "round_run ed env layer (r, open_round myId c b)"
  note const = round_run_const [of "(r, open_round myId c b)" c ed env layer, simplified]
  obtain es fs where "evs = es @ VoteArrives b i yes pk sig # fs" using ev(1) by (meson in_set_conv_decomp)
  then have rest: "?run evs = round_run ed env layer (?run (es @ [VoteArrives b i yes pk sig])) fs" (is "_ = round_run _ _ _ ?t fs")
    by (simp add: round_run_def)
  have "\<not> vrClosed (snd ?t)" using open_end closed_run [of ?t c] const by (metis rest)
  then have "map_of (vrVotes (snd ?t)) i \<noteq> None"
    using unanimous_step [OF round_run_ok [OF c, of layer ed env r b es] _ i _ ev(2)] const [of es]
    by (auto simp: round_run_snoc)
  moreover have "map_of (vrVotes (snd ?t)) \<subseteq>\<^sub>m map_of (vrVotes (snd (?run evs)))"
    unfolding rest unfolding round_run_def [of _ _ _ ?t] by (rule vote_machine.run_le) (rule round_run_ok [OF c])
  ultimately show ?thesis by (force simp: map_le_def dom_def)
qed

subsection \<open>Vote statistics\<close>

text \<open>Missed and counted votes of a node; an unknown node has none.\<close>

definition vote_stats :: "registry \<Rightarrow> string \<Rightarrow> int \<times> int" where
  "vote_stats r i = (case map_of r i of None \<Rightarrow> (0, 0) | Some n \<Rightarrow> (MissedVotes n, TotalVotes n))"

lemma vote_stats_range: "registry_ok r \<Longrightarrow> 0 \<le> fst (vote_stats r i) \<and> fst (vote_stats r i) \<le> snd (vote_stats r i)"
  by (auto simp: vote_stats_def node_ok_def dest!: registry_ok_lookup split: option.split)

lemma EnsureNode_stats [simp]: "vote_stats (EnsureNode r i 0 1) j = vote_stats r j"
  by (auto simp: vote_stats_def EnsureNode_def new_node_def ComputeReputation_def split: option.split)

lemma EnsureNode_ok: "registry_ok r \<Longrightarrow> registry_ok (EnsureNode r i 0 1)"
  using rating_step_inv [of r "EvEnsure i 0 1"] by simp

lemma EnsureNode_known: "\<exists>n. map_of (EnsureNode r i 0 1) i = Some n"
  by (auto simp: EnsureNode_def split: option.split)

lemma SetVoteStats_stats:
  assumes "map_of r i = Some n" "0 \<le> m" "m \<le> t"
  shows "vote_stats (SetVoteStats r i m t) j = (if j = i then (m, t) else vote_stats r j)"
  using assms by (simp add: vote_stats_def SetVoteStats_def modify_node_def Let_def ComputeReputation_def)

lemma SetVoteStats_ok:
  assumes "registry_ok r" "0 \<le> m" "m \<le> t" "t < 2 ^ 43"
  shows "registry_ok (SetVoteStats r i m t)"
  unfolding SetVoteStats_def Let_def
proof (intro modify_node_ok [OF assms(1)] ComputeReputation_ok)
  fix n assume "node_ok n"
  then show "node_ok (n\<lparr>MissedVotes := if m < 0 then 0 else m, TotalVotes := if t < (if m < 0 then 0 else m) then if m < 0 then 0 else m else t\<rparr>)"
    using assms by (simp add: node_ok_def)
qed

lemma vote_stat_step:
  assumes ok: "registry_ok r" and small: "snd (vote_stats r i) < 2 ^ 42"
  shows "registry_ok (vote_stat wrong r i) \<and>
    (\<forall>j. vote_stats (vote_stat wrong r i) j =
      (if j = i then (fst (vote_stats r i) + (if wrong then 1 else 0), snd (vote_stats r i) + 1) else vote_stats r j))"
proof -
  obtain n where n: "map_of (EnsureNode r i 0 1) i = Some n" using EnsureNode_known by blast
  then have st: "vote_stats r i = (MissedVotes n, TotalVotes n)" using EnsureNode_stats [of r i i] by (simp add: vote_stats_def)
  have b: "0 \<le> MissedVotes n" "MissedVotes n \<le> TotalVotes n" "TotalVotes n < 2 ^ 42"
    using vote_stats_range [OF ok, of i] small st by simp_all
  then have "i64 (MissedVotes n + 1) = MissedVotes n + 1" "i64 (TotalVotes n + 1) = TotalVotes n + 1"
    by (simp_all add: in_i64_def)
  then have eq: "vote_stat wrong r i =
      SetVoteStats (EnsureNode r i 0 1) i (MissedVotes n + (if wrong then 1 else 0)) (TotalVotes n + 1)"
    using n by (simp add: vote_stat_def)
  show ?thesis
    unfolding eq using b st n EnsureNode_ok [OF ok, of i]
    by (auto intro!: SetVoteStats_ok simp: SetVoteStats_stats)
qed

lemma vote_stat_fold:
  assumes "distinct (map fst ps)" "registry_ok r" "\<forall>p \<in> set ps. snd (vote_stats r (fst p)) < 2 ^ 42"
  shows "registry_ok (foldl (\<lambda>r p. vote_stat (snd p) r (fst p)) r ps) \<and>
    (\<forall>j. vote_stats (foldl (\<lambda>r p. vote_stat (snd p) r (fst p)) r ps) j =
      (case map_of ps j of
         None \<Rightarrow> vote_stats r j
       | Some wrong \<Rightarrow> (fst (vote_stats r j) + (if wrong then 1 else 0), snd (vote_stats r j) + 1)))"
  using assms
proof (induction ps arbitrary: r)
  case (Cons p ps)
  obtain i w where p: "p = (i, w)" by (cases p)
  let ?r = "vote_stat w r i"
  have step: "registry_ok ?r" "vote_stats ?r j =
      (if j = i then (fst (vote_stats r i) + (if w then 1 else 0), snd (vote_stats r i) + 1) else vote_stats r j)" for j
    using vote_stat_step [of r i w] Cons.prems by (simp_all add: p)
  have "\<forall>q \<in> set ps. snd (vote_stats ?r (fst q)) < 2 ^ 42"
    using Cons.prems by (auto simp: step(2) p image_iff)
  then have IH: "registry_ok (foldl (\<lambda>r p. vote_stat (snd p) r (fst p)) ?r ps) \<and>
    (\<forall>j. vote_stats (foldl (\<lambda>r p. vote_stat (snd p) r (fst p)) ?r ps) j =
      (case map_of ps j of
         None \<Rightarrow> vote_stats ?r j
       | Some wrong \<Rightarrow> (fst (vote_stats ?r j) + (if wrong then 1 else 0), snd (vote_stats ?r j) + 1)))"
    using Cons.prems step(1) by (intro Cons.IH) simp_all
  have "map_of ps i = None" using Cons.prems(1) by (simp add: p map_of_eq_None_iff)
  then show ?case using IH by (auto simp: p step(2) split: option.split)
qed simp

lemma fallback_size_bounds:
  assumes "1 \<le> n" "n < 2 ^ 40"
  shows "1 \<le> fallback_size n l" "fallback_size n l \<le> n" "3 \<le> n \<Longrightarrow> 3 \<le> fallback_size n l"
  by (use assms in \<open>simp_all add: fallback_size_def Let_def\<close>)

lemma to_select_eq:
  assumes "1 \<le> sz" "sz \<le> 2 ^ 40"
  shows "to_select sz others = min (sz - 1) (int (length others))"
  using assms by (simp add: to_select_def Let_def in_i64_def min_def)

text \<open>The handler's vote callbacks are steps of the round in their slot.\<close>

lemma onVote_round_step:
  assumes "the_round layer vt = Some rd"
  shows "vtRegistry (onVote ed env layer vt b i yes pk sig) = fst (round_step ed env layer (vtRegistry vt, rd) (VoteArrives b i yes pk sig))"
    and "the_round layer (onVote ed env layer vt b i yes pk sig) = Some (snd (round_step ed env layer (vtRegistry vt, rd) (VoteArrives b i yes pk sig)))"
  using assms by (cases layer; simp add: onVote_def case_prod_beta)+

subsection \<open>Properties\<close>

text \<open>
  C12: whatever votes arrive, in any order, with repeated, contradicting, foreign and unsigned ones among
  them: a round of fewer than \<open>2 ^ 40\<close> members counts at most one vote of each member and of nobody else, a counted
  vote was delivered for this block with an accepted signature (or is the proposer's own yes), and when the timer
  has run the round has signalled exactly whether the yes votes reach the threshold.
\<close>

theorem vote_round_exact:
  assumes "distinct c" "myId \<in> set c" "int (length c) < 2 ^ 40"
  shows "let rd = snd (round_run ed env layer (r, open_round myId c b) (evs @ [RoundTimeout]))
     in vrDone rd = Some (need layer (int (length c)) \<le> yes_count (vrVotes rd)) \<and>
        wf_map (vrVotes rd) \<and> fst ` set (vrVotes rd) \<subseteq> set c \<and>
        (\<forall>(i, yes) \<in> set (vrVotes rd). vote_source ed env myId evs b i yes)"
proof -
  let ?s = "(r, open_round myId c b)"
  let ?rd = "snd (round_run ed env layer ?s (evs @ [RoundTimeout]))"
  have ok: "round_ok layer myId ?rd" by (rule round_run_ok [OF assms])
  have "?rd = timeout_round (snd (round_run ed env layer ?s evs))" by (simp add: round_run_snoc)
  then have "vrDone ?rd \<noteq> None" using timeout_done [OF round_run_ok [OF assms]] by simp
  moreover have "vrTotalExpected ?rd = int (length c)" "vrCommittee ?rd = Some c"
    using round_run_const [of ?s c ed env layer "evs @ [RoundTimeout]"] by simp_all
  ultimately have "vrDone ?rd = Some (need layer (int (length c)) \<le> yes_count (vrVotes ?rd))"
    and w: "wf_map (vrVotes ?rd)" "fst ` set (vrVotes ?rd) \<subseteq> set c"
    using ok by (auto simp: round_ok_def simp del: map_of_eq_Some_iff)
  moreover have "vote_source ed env myId evs b i yes" if "(i, yes) \<in> set (vrVotes ?rd)" for i yes
    using that w(1) round_run_votes [of ?s c ed env layer "evs @ [RoundTimeout]" i yes]
    by (auto simp: vote_source_def split: if_splits)
  ultimately show ?thesis by (auto simp: Let_def)
qed

definition yes_votes :: "string \<Rightarrow> string list \<Rightarrow> round_event list" where
  "yes_votes b ids = map (\<lambda>i. VoteArrives b i True [] []) ids"

theorem vote_round_exact_witness:
  "vrDone (snd (round_run toy_ed ''1'' L1 ([], open_round ''a'' [''a'', ''b'', ''c''] ''x'')
     (yes_votes ''x'' [''b'', ''b'', ''d''] @ [RoundTimeout]))) = Some False"
proof -
  let ?rd = "snd (round_run toy_ed ''1'' L1 ([], open_round ''a'' [''a'', ''b'', ''c''] ''x'')
     (yes_votes ''x'' [''b'', ''b'', ''d''] @ [RoundTimeout]))"
  have "vrDone ?rd = Some (need L1 (int (length [''a'', ''b'', ''c''])) \<le> yes_count (vrVotes ?rd))"
    using vote_round_exact [of "[''a'', ''b'', ''c'']" "''a''" toy_ed "''1''" L1 "[]" "''x''" "yes_votes ''x'' [''b'', ''b'', ''d'']"]
    by (simp add: Let_def)
  moreover have "yes_count (vrVotes ?rd) = 2 \<and> need L1 (int (length [''a'', ''b'', ''c''])) = 3" by code_simp
  ultimately show ?thesis by simp
qed

text \<open>
  C13: two rounds of one layer with the same committee, run by any proposers for any blocks and with any
  arrivals, that both reached the threshold have more than a third of the committee in common among their yes voters:
  two conflicting blocks can both pass only if more than a third of the committee voted for both.
\<close>

theorem accepted_rounds_intersect:
  assumes "distinct c" "p \<in> set c" "p' \<in> set c" "int (length c) < 2 ^ 40"
    and "vrDone (snd (round_run ed env layer (r, open_round p c b) evs)) = Some True"
    and "vrDone (snd (round_run ed env layer (r', open_round p' c b') evs')) = Some True"
  shows "int (length c) <
    3 * int (card (yes_set (snd (round_run ed env layer (r, open_round p c b) evs)) \<inter>
                   yes_set (snd (round_run ed env layer (r', open_round p' c b') evs'))))"
proof -
  let ?rd = "snd (round_run ed env layer (r, open_round p c b) evs)"
  let ?rd' = "snd (round_run ed env layer (r', open_round p' c b') evs')"
  have c: "vrCommittee ?rd = Some c" "vrCommittee ?rd' = Some c"
    using round_run_const [of "(r, open_round p c b)" c] round_run_const [of "(r', open_round p' c b')" c] by simp_all
  note 1 = round_ok_yes_set [OF round_run_ok [OF assms(1,2,4)] c(1)]
  note 2 = round_ok_yes_set [OF round_run_ok [OF assms(1,3,4)] c(2)]
  have "int (card (set c)) < 3 * int (card (yes_set ?rd \<inter> yes_set ?rd'))"
    using 1(1,4) 2(1,4) assms by (intro layer_quorum.intersect) (auto simp: distinct_card)
  then show ?thesis using assms(1) by (simp add: distinct_card)
qed

theorem accepted_rounds_intersect_witness:
  "3 < 3 * int (card (
     yes_set (snd (round_run toy_ed ''1'' L2 ([], open_round ''a'' [''a'', ''b'', ''c''] ''x'') (yes_votes ''x'' [''b'', ''c'']))) \<inter>
     yes_set (snd (round_run toy_ed ''1'' L2 ([], open_round ''b'' [''a'', ''b'', ''c''] ''y'') (yes_votes ''y'' [''a'', ''c''])))))"
proof -
  have "vrDone (snd (round_run toy_ed ''1'' L2 ([], open_round ''a'' [''a'', ''b'', ''c''] ''x'') (yes_votes ''x'' [''b'', ''c'']))) = Some True"
    "vrDone (snd (round_run toy_ed ''1'' L2 ([], open_round ''b'' [''a'', ''b'', ''c''] ''y'') (yes_votes ''y'' [''a'', ''c'']))) = Some True"
    by code_simp+
  from accepted_rounds_intersect [OF _ _ _ _ this] show ?thesis by simp
qed

text \<open>
  Remark: a round cannot be kept from succeeding by the order of arrivals: when a yes vote of every other committee
  member is delivered before the timer and none of them delivers a no, the round signals true.
\<close>

theorem unanimous_round_succeeds:
  assumes "distinct c" "myId \<in> set c" "int (length c) < 2 ^ 40"
    and all: "\<And>i. i \<in> set c \<Longrightarrow> i \<noteq> myId \<Longrightarrow>
      \<exists>pk sig. VoteArrives b i True pk sig \<in> set evs \<and> acceptPeerVote ed env b i True pk sig"
    and no_no: "\<And>i pk sig. VoteArrives b i False pk sig \<notin> set evs" and "RoundTimeout \<notin> set evs"
  shows "vrDone (snd (round_run ed env layer (r, open_round myId c b) evs)) = Some True"
proof (rule ccontr)
  let ?rd = "snd (round_run ed env layer (r, open_round myId c b) evs)"
  assume not_done: "vrDone ?rd \<noteq> Some True"
  have ok: "round_ok layer myId ?rd" by (rule round_run_ok [OF assms(1-3)])
  have "vrDone ?rd \<noteq> Some False" using round_run_False assms(6) by blast
  with not_done have "vrDone ?rd = None" by (cases "vrDone ?rd") auto
  then have open_end: "\<not> vrClosed ?rd" using ok by (simp add: round_ok_def)
  have "i \<in> yes_set ?rd" if i: "i \<in> set c" for i
  proof (cases "i = myId")
    case True
    then show ?thesis using ok by (simp add: yes_set_def round_ok_def del: map_of_eq_Some_iff)
  next
    case False
    with all [OF i] open_run_counts [OF assms(1-3) i _ _ open_end]
    obtain y where y: "map_of (vrVotes ?rd) i = Some y" by blast
    then have y using round_run_votes [of "(r, open_round myId c b)" c ed env layer evs i y] no_no False
      by (cases y) (auto split: if_splits)
    with y show ?thesis by (simp add: yes_set_def)
  qed
  then have "int (length c) \<le> yes_count (vrVotes ?rd)"
    using ok by (intro full_count [OF assms(1)]) (auto simp: round_ok_def)
  moreover have "need layer (int (length c)) \<le> int (length c)"
    using assms(2,3) by (intro need_bounds) (auto simp: Suc_le_eq length_pos_if_in_set)
  ultimately show False using not_done ok round_run_const [of "(r, open_round myId c b)" c ed env layer evs]
    by (simp add: round_ok_def)
qed

theorem unanimous_round_succeeds_witness:
  "vrDone (snd (round_run toy_ed ''1'' L2 ([], open_round ''a'' [''a'', ''b'', ''c''] ''x'') (yes_votes ''x'' [''c'', ''z'', ''b'', ''c'']))) = Some True"
proof (rule unanimous_round_succeeds)
  fix i assume "i \<in> set [''a'', ''b'', ''c'']" "i \<noteq> ''a''"
  moreover have "acceptPeerVote toy_ed ''1'' ''x'' i True [] []"
    by (simp add: acceptPeerVote_def RequireSignedVotes_def TrimSpace_def ToLower_def is_space_def lower_char_def code_def)
  ultimately show "\<exists>pk sig. VoteArrives ''x'' i True pk sig \<in> set (yes_votes ''x'' [''c'', ''z'', ''b'', ''c'']) \<and>
      acceptPeerVote toy_ed ''1'' ''x'' i True pk sig"
    by (auto simp: yes_votes_def)
qed (simp_all add: yes_votes_def)

text \<open>
  Remark: who decides a round: with a Core, its verdict on the votes and nothing else; without one, the local
  threshold. Only a proposer whose vote is the sole one of a larger committee can be accepted besides, and only on
  a testnet, or with degraded consensus switched on and no failed call to Core.
\<close>

theorem round_verdict_iff:
  assumes "vrVotes rd \<noteq> []"
  shows "fst (round_verdict vc env testnet layer myId rd) \<longleftrightarrow>
    (case vc of
       None \<Rightarrow> vrDone rd = Some True
     | Some process \<Rightarrow> (case process layer (votesToCoreJSON (vrVotes rd)) of None \<Rightarrow> False | Some res \<Rightarrow> Confirmed res)) \<or>
    lone_proposer (vrTotalExpected rd) (vrVotes rd) myId \<and>
    (testnet \<or>
     allowDegradedConsensus env \<and>
     (case vc of None \<Rightarrow> True | Some process \<Rightarrow> process layer (votesToCoreJSON (vrVotes rd)) \<noteq> None))"
  using assms
  by (auto simp: round_verdict_def finalizeVoteRoundWithCore_def maybeDegradedAccept_def Let_def split: option.split)

theorem round_verdict_iff_witness:
  "\<not> fst (round_verdict (Some (\<lambda>_ _. None)) ''1'' False L1 ''a'' (open_round ''a'' [''a'', ''b''] ''x''))"
  using round_verdict_iff [of "open_round ''a'' [''a'', ''b''] ''x''" "Some (\<lambda>_ _. None)" "''1''" False L1 "''a''"] by simp

text \<open>
  Remark: the testnet override is not guarded by the failure of Core: on a testnet a lone proposer is accepted although Core
  could not be asked.
\<close>

lemma testnet_overrides_core_failure:
  "fst (round_verdict (Some (\<lambda>_ _. None)) [] True L1 ''a'' (open_round ''a'' [''a'', ''b''] ''x''))"
  by (simp add: round_verdict_def finalizeVoteRoundWithCore_def maybeDegradedAccept_def lone_proposer_def
      allowDegradedConsensus_def Let_def open_round_def)

text \<open>
  Remark: after a round, with fewer than \<open>2 ^ 42\<close> votes per node before it, every voter has one vote more, and one missed vote more exactly when it voted against the
  result; every committee member that did not vote has one more of both; and nobody else's record changes. This holds for
  every iteration order of the vote and committee maps.
\<close>

theorem vote_stats_exact:
  assumes "registry_ok r" "\<forall>i. snd (vote_stats r i) < 2 ^ 42" and "wf_map votes" "distinct c"
  shows "let r' = updateVoteStatsFromRound r votes accepted (Some c) connected
     in registry_ok r' \<and>
        (\<forall>i. vote_stats r' i =
           (case map_of votes i of
              Some yes \<Rightarrow> (fst (vote_stats r i) + (if yes \<noteq> accepted then 1 else 0), snd (vote_stats r i) + 1)
            | None \<Rightarrow> (if i \<in> set c then (fst (vote_stats r i) + 1, snd (vote_stats r i) + 1) else vote_stats r i)))"
proof -
  let ?no = "filter (\<lambda>i. map_of votes i = None) c"
  define ps where "ps = map (\<lambda>(i, yes). (i, yes \<noteq> accepted)) votes @ map (\<lambda>i. (i, True)) ?no"
  have eq: "updateVoteStatsFromRound r votes accepted (Some c) connected = foldl (\<lambda>r p. vote_stat (snd p) r (fst p)) r ps"
    by (simp add: updateVoteStatsFromRound_def ps_def foldl_map case_prod_beta Let_def)
  have "map fst ps = map fst votes @ ?no" by (simp add: ps_def case_prod_beta comp_def)
  moreover have "set (map fst votes) \<inter> set ?no = {}" by (auto simp: map_of_eq_None_iff)
  ultimately have d: "distinct (map fst ps)" using assms(3,4) by simp
  have m: "map_of ps i = (case map_of votes i of
      Some yes \<Rightarrow> Some (yes \<noteq> accepted) | None \<Rightarrow> (if i \<in> set c then Some True else None))" for i
  proof -
    have "map_of (map (\<lambda>(i, yes). (i, yes \<noteq> accepted)) votes) i = map_option (\<lambda>yes. yes \<noteq> accepted) (map_of votes i)"
      by (simp add: map_of_map)
    moreover have "map_of (map (\<lambda>i. (i, True)) ?no) i = (if i \<in> set ?no then Some True else None)"
      by (simp only: map_of_map_restrict restrict_map_def comp_def)
    ultimately show ?thesis
      by (cases "map_of votes i") (simp_all add: ps_def map_add_def del: map_of_eq_None_iff)
  qed
  show ?thesis
    unfolding eq Let_def using vote_stat_fold [OF d assms(1)] assms(2) by (auto simp: m split: option.split)
qed

theorem vote_stats_exact_witness:
  "vote_stats (updateVoteStatsFromRound [] [(''a'', True), (''b'', False)] True (Some [''c'', ''a'', ''b'']) []) ''c'' = (1, 1)"
  using vote_stats_exact [of "[]" "[(''a'', True), (''b'', False)]" "[''c'', ''a'', ''b'']" True "[]"]
  by (simp add: registry_ok_def vote_stats_def Let_def)

text \<open>
  Remark: the gateway's own choice of a committee (without a Core, or when its count call fails) among fewer than \<open>2 ^ 40\<close>
  candidates: the proposer and eligible connected nodes, nobody twice, as many as the load table asks for or as there are eligible nodes;
  with three or more candidates it asks for at least three.
\<close>

theorem committee_fallback_spec:
  assumes "case cc of None \<Rightarrow> True | Some core \<Rightarrow> ccCount core (int (length candidates)) loadPct = None"
    and "distinct candidates" "myId \<in> set candidates" "[] \<notin> set candidates" "int (length candidates) < 2 ^ 40"
    and rnd: "\<And>k n. 0 < n \<Longrightarrow> 0 \<le> rnd k n \<and> rnd k n < n"
  shows "let c = committee_set myId (committee_list cc rnd r myId candidates loadPct blockId);
         asked = fallback_size (int (length candidates)) loadPct;
         eligible = filter (\<lambda>i. i \<noteq> myId \<and> eligible_id r i) candidates
     in distinct c \<and> myId \<in> set c \<and> set c \<subseteq> insert myId (set eligible) \<and>
        int (length c) = min asked (1 + int (length eligible)) \<and>
        1 \<le> asked \<and> (3 \<le> length candidates \<longrightarrow> 3 \<le> asked)"
proof -
  let ?n = "int (length candidates)" and ?others = "filter (\<lambda>i. i \<noteq> myId) candidates"
  let ?asked = "fallback_size ?n loadPct"
  let ?e = "filter (eligible_id r) ?others"
  have n: "1 \<le> ?n" using assms(3) by (cases candidates) auto
  note b = fallback_size_bounds [OF n assms(5), of loadPct]
  have k: "to_select ?asked ?others = min (?asked - 1) (int (length ?others))"
    using b assms(5) by (intro to_select_eq) simp_all
  define ids where "ids = committee_list cc rnd r myId candidates loadPct blockId"
  have ids: "ids = (if to_select ?asked ?others > 0 then SelectCommittee rnd r ?others (to_select ?asked ?others) else [])"
    using assms(1) by (cases cc) (simp_all add: ids_def committee_list_def Let_def)
  have "distinct ids \<and> set ids \<subseteq> set ?e \<and> int (length ids) = min (?asked - 1) (int (length ?e))"
  proof (cases "to_select ?asked ?others > 0")
    case True
    moreover have "length ?e \<le> length ?others" by (rule length_filter_le)
    ultimately show ?thesis
      using SelectCommittee_props [where rnd = rnd and r = r and ids = ?others and cnt = "to_select ?asked ?others", OF _ _ rnd] assms(2,4) b(1)
      unfolding ids by (auto simp: k min_def)
  next
    case False
    then have "ids = []" unfolding ids by simp
    moreover have "?asked = 1 \<or> ?others = []" using False b(1) unfolding k min_less_iff_conj of_nat_0_less_iff length_greater_0_conv by linarith
    then have "min (?asked - 1) (int (length ?e)) = 0" using b(1) by (elim disjE) (simp_all del: filter_filter)
    ultimately show ?thesis by simp
  qed
  moreover have "?e = filter (\<lambda>i. i \<noteq> myId \<and> eligible_id r i) candidates" by (simp add: conj_commute)
  moreover from calculation have "myId \<notin> set ids" by auto
  ultimately show ?thesis using b unfolding ids_def [symmetric] Let_def
    by (auto simp: committee_set_def distinct_remdups_id min_def)
qed

theorem committee_fallback_spec_witness:
  "length (committee_set ''a'' (committee_list None (\<lambda>k n. 0) [] ''a'' [''a'', ''b'', ''c'', ''d''] 0 ''x'')) = 3"
  using committee_fallback_spec [where cc = None and candidates = "[''a'', ''b'', ''c'', ''d'']" and loadPct = 0 and myId = "''a''"
      and rnd = "\<lambda>k n. 0" and r = "[]" and blockId = "''x''"]
  by (simp add: Let_def eligible_id_def fallback_size_def SelectionPercentFromLoad_def go_div_nonneg in_i64_def)

text \<open>
  Remark: the candidates that are handed to Core's selection are not filtered: a suspended node can be put on a
  committee that Core chooses.
\<close>

lemma core_committee_suspended:
  assumes "ccCount core (int (length candidates)) loadPct = Some sz" "2 \<le> sz" "sz \<le> 2 ^ 40" "i \<in> set candidates" "i \<noteq> myId"
    and "\<And>ids seed k. i \<in> fst ` set ids \<Longrightarrow> 0 < k \<Longrightarrow> ccSelect core ids seed k = Some [i]"
  shows "i \<in> set (committee_list (Some core) rnd r myId candidates loadPct blockId)"
proof -
  let ?others = "filter (\<lambda>j. j \<noteq> myId) candidates"
  have "i \<in> set ?others" using assms by simp
  then have "0 < length ?others" by (rule length_pos_if_in_set)
  then have "0 < to_select sz ?others" using assms(2,3) by (simp add: to_select_eq)
  moreover have "i \<in> fst ` set (map (\<lambda>j. (j, pick_weight r j)) ?others)" using assms(4,5) by (force simp: image_iff)
  ultimately show ?thesis using assms(1,6) by (simp add: committee_list_def Let_def)
qed

end
