(* ===== verification/L1_Validation.thy ===== *)
theory L1_Validation
  imports Mempool
begin

text \<open>
  Validation of a selection of transactions before an L1 vote (\<^verbatim>\<open>internal/handlers/handlers_consensus.go\<close>): which
  transactions Core accepts, which are dropped from the mempool for good, and the reading of Core's error
  messages that decides between the two, with the scanning of integers by \<open>fmt.Sscanf\<close>.

  Core's answers are arguments: \<open>lcVerify\<close> is the reply of \<open>l1-verify-txs\<close> on Core's state (\<open>Inl\<close> an error),
  absent when the gateway runs without a Core process, and \<open>lcValidateTx\<close> the error of \<open>validate-tx\<close>.
\<close>

subsection \<open>Searching and scanning strings\<close>

fun Index :: "string \<Rightarrow> string \<Rightarrow> nat option" where
  "Index [] sub = (if sub = [] then Some 0 else None)"
| "Index (c # s) sub = (if HasPrefix (c # s) sub then Some 0 else map_option Suc (Index s sub))"

definition Contains :: "string \<Rightarrow> string \<Rightarrow> bool" where
  "Contains s sub \<longleftrightarrow> Index s sub \<noteq> None"

text \<open>\<open>fmt.Sscanf\<close> for formats of literals, single blanks and \<open>%d\<close>. A blank needs a space that is no newline,
  or the end of the input; \<open>%d\<close> skips such spaces, then reads a sign and digits of a 64-bit integer.\<close>

datatype scan_item = Lit char | Blank | Verb_d

fun scan_items :: "string \<Rightarrow> scan_item list" where
  "scan_items [] = []"
| "scan_items (c # s) =
     (if c = CHR ''%'' \<and> s \<noteq> [] \<and> hd s = CHR ''d'' then Verb_d # scan_items (tl s)
      else if c = CHR '' '' then Blank # scan_items s
      else Lit c # scan_items s)"

definition skip_blanks :: "string \<Rightarrow> string" where
  "skip_blanks s = dropWhile (\<lambda>c. is_space c \<and> code c \<noteq> 10) s"

definition scan_int :: "string \<Rightarrow> (int \<times> string) option" where
  "scan_int s0 =
     (let s = skip_blanks s0;
          sign = (if s \<noteq> [] \<and> (hd s = CHR ''+'' \<or> hd s = CHR ''-'') then [hd s] else []);
          digits = takeWhile is_digit (drop (length sign) s)
      in if digits = [] then None
         else case ParseInt (sign @ digits) of
             (i, None) \<Rightarrow> Some (i, drop (length sign + length digits) s)
           | (_, Some _) \<Rightarrow> None)"

fun Sscanf :: "scan_item list \<Rightarrow> string \<Rightarrow> int list option" where
  "Sscanf [] s = Some []"
| "Sscanf (Lit c # items) s = (if s \<noteq> [] \<and> hd s = c then Sscanf items (tl s) else None)"
| "Sscanf (Blank # items) s =
     (if s = [] then Sscanf items s
      else if is_space (hd s) \<and> code (hd s) \<noteq> 10 then Sscanf items (skip_blanks s)
      else None)"
| "Sscanf (Verb_d # items) s =
     (case scan_int s of
        None \<Rightarrow> None
      | Some (i, rest) \<Rightarrow> map_option (Cons i) (Sscanf items rest))"

subsection \<open>Core's error messages\<close>

definition nonce_format :: string where "nonce_format = ''invalid nonce: expected %d, got %d''"
definition expected_format :: string where "expected_format = ''expected %d, got %d''"

definition future_nonce :: "string \<Rightarrow> string \<Rightarrow> bool option" where
  "future_nonce format msg =
     (case Sscanf (scan_items format) msg of Some [expected, got] \<Rightarrow> Some (got > expected) | _ \<Rightarrow> None)"

definition isPermanentMempoolInvalid :: "string \<Rightarrow> bool" where
  "isPermanentMempoolInvalid errMsg =
     (let msg = ToLower errMsg
      in if msg = [] then True
         else if HasPrefix msg ''l1 verification failed for tx '' \<and> \<not> Contains msg ''signature'' \<and>
            \<not> Contains msg ''nonce'' \<and> \<not> Contains msg ''balance'' then False
         else if Contains msg ''nonce''
         then (case future_nonce nonce_format msg of
                 Some future \<Rightarrow> \<not> future
               | None \<Rightarrow>
                   (case (Index msg ''expected '', Index msg ''got '') of
                      (Some reExp, Some reGot) \<Rightarrow>
                        \<not> (reGot > reExp \<and> future_nonce expected_format (drop reExp msg) = Some True)
                    | _ \<Rightarrow> True))
         else True)"

definition failed_prefix :: string where "failed_prefix = ''L1 verification failed for tx ''"
definition apply_prefix :: string where "apply_prefix = ''apply tx ''"

text \<open>The token after a prefix, up to a separator.\<close>

definition token_after :: "string \<Rightarrow> (char \<Rightarrow> bool) \<Rightarrow> string \<Rightarrow> string option" where
  "token_after prefix sep msg =
     map_option (\<lambda>idx. takeWhile (\<lambda>c. \<not> sep c) (TrimSpace (drop (idx + length prefix) msg))) (Index msg prefix)"

definition is_separator :: "char \<Rightarrow> bool" where
  "is_separator c \<longleftrightarrow> code c \<in> {32, 9, 10, 13} \<or> c = CHR '','' \<or> c = CHR '';''"

definition extractFailedTxHash :: "string \<Rightarrow> string" where
  "extractFailedTxHash msg =
     (case token_after failed_prefix is_separator msg of
        None \<Rightarrow> []
      | Some hash \<Rightarrow> (if length hash < 16 then [] else hash))"

definition trim_quotes :: "string \<Rightarrow> string" where
  "trim_quotes s =
     (let q = (\<lambda>c. code c = 34 \<or> code c = 39) in rev (dropWhile q (rev (dropWhile q s))))"

definition extractApplyTxHash :: "string \<Rightarrow> string" where
  "extractApplyTxHash msg =
     (case token_after apply_prefix (\<lambda>c. is_separator c \<or> c = CHR '':'') msg of
        None \<Rightarrow> extractFailedTxHash msg
      | Some token \<Rightarrow> (let hash = trim_quotes token in if length hash < 16 then [] else hash))"

definition firstNonEmpty :: "string list \<Rightarrow> string" where
  "firstNonEmpty vals = (case filter (\<lambda>v. TrimSpace v \<noteq> []) vals of [] \<Rightarrow> [] | v # _ \<Rightarrow> v)"

subsection \<open>Validation\<close>

record L1TxVerifyResult =
  trHash :: string
  trValid :: bool
  trError :: string

record L1VerifyResult =
  lvValid :: bool
  lvError :: string
  lvTxResults :: "L1TxVerifyResult list"

definition verify_failed_msg :: string where "verify_failed_msg = ''L1 verification failed''"

definition L1VerifyTxs :: "string + L1VerifyResult \<Rightarrow> L1VerifyResult option \<times> string option" where
  "L1VerifyTxs reply =
     (case reply of
        Inl e \<Rightarrow> (None, Some e)
      | Inr out \<Rightarrow>
          (Some out, if lvValid out then None else Some (if lvError out \<noteq> [] then lvError out else verify_failed_msg)))"

record 'c l1_core =
  lcVerify :: "('c \<Rightarrow> core_tx list \<Rightarrow> string + L1VerifyResult) option"
  lcValidateTx :: "'c \<Rightarrow> core_tx \<Rightarrow> string option"

datatype l1_error = EmptySet | NoLedger | NotCompatible | CoreError string

record l1ValidateOutcome =
  voOK :: bool
  voErr :: "l1_error option"
  InvalidHashes :: "string list"
  ValidTxs :: "Transaction option list"

definition rejected :: "l1_error \<Rightarrow> string list \<Rightarrow> Transaction option list \<Rightarrow> l1ValidateOutcome" where
  "rejected e invalid good = \<lparr>voOK = False, voErr = Some e, InvalidHashes = invalid, ValidTxs = good\<rparr>"

definition accepted_txs :: "Transaction option list \<Rightarrow> l1ValidateOutcome" where
  "accepted_txs good = \<lparr>voOK = True, voErr = None, InvalidHashes = [], ValidTxs = good\<rparr>"

definition is_faucet :: "Transaction \<Rightarrow> bool" where
  "is_faucet tx \<longleftrightarrow> txFrom tx = FaucetAddress"

fun txsToCoreJSONArray :: "Transaction option list \<Rightarrow> core_tx list option" where
  "txsToCoreJSONArray [] = Some []"
| "txsToCoreJSONArray (None # txs) = txsToCoreJSONArray txs"
| "txsToCoreJSONArray (Some tx # txs) =
     (if is_faucet tx then txsToCoreJSONArray txs
      else case ToCoreJSON tx of None \<Rightarrow> None | Some j \<Rightarrow> map_option (Cons j) (txsToCoreJSONArray txs))"

definition incompatible :: "Transaction \<Rightarrow> bool" where
  "incompatible tx \<longleftrightarrow> \<not> is_faucet tx \<and> ToCoreJSON tx = None"

text \<open>Reading Core's per-transaction results.\<close>

definition invalid_hashes :: "L1VerifyResult \<Rightarrow> string list" where
  "invalid_hashes res =
     map trHash (filter (\<lambda>tr. \<not> trValid tr \<and> trHash tr \<noteq> [] \<and> isPermanentMempoolInvalid (trError tr)) (lvTxResults res))"

definition valid_hash :: "L1VerifyResult \<Rightarrow> string \<Rightarrow> bool" where
  "valid_hash res h \<longleftrightarrow> h \<in> trHash ` set (filter trValid (lvTxResults res))"

definition good_txs :: "L1VerifyResult \<Rightarrow> Transaction option list \<Rightarrow> Transaction option list" where
  "good_txs res txs = map Some (filter (\<lambda>tx. is_faucet tx \<or> valid_hash res (txHash tx)) (nonnil txs))"

definition read_results :: "L1VerifyResult \<Rightarrow> string option \<Rightarrow> Transaction option list \<Rightarrow> l1ValidateOutcome" where
  "read_results res err txs =
     (let invalid = invalid_hashes res;
          good = good_txs res txs
      in if invalid \<noteq> [] \<or> (err \<noteq> None \<and> \<not> lvValid res \<and> good = [])
         then rejected (CoreError (case err of
                Some e \<Rightarrow> e
              | None \<Rightarrow> (if lvError res \<noteq> [] then lvError res else verify_failed_msg))) invalid good
         else if lvValid res \<and> invalid = [] then accepted_txs good
         else if good \<noteq> [] then accepted_txs good
         else rejected (CoreError (firstNonEmpty [lvError res, verify_failed_msg])) invalid good)"

text \<open>One call of \<open>validate-tx\<close> per transaction; \<open>seen\<close> are the slots before the current one.\<close>

fun validate_each :: "(core_tx \<Rightarrow> string option) \<Rightarrow> Transaction option list \<Rightarrow> Transaction option list \<Rightarrow> Transaction option list
    \<Rightarrow> l1ValidateOutcome" where
  "validate_each check all seen [] = accepted_txs all"
| "validate_each check all seen (None # txs) = validate_each check all (seen @ [None]) txs"
| "validate_each check all seen (Some tx # txs) =
     (if is_faucet tx then validate_each check all (seen @ [Some tx]) txs
      else case ToCoreJSON tx of
          None \<Rightarrow> rejected NotCompatible [txHash tx] []
        | Some j \<Rightarrow>
            (case check j of
               None \<Rightarrow> validate_each check all (seen @ [Some tx]) txs
             | Some e \<Rightarrow>
                 (if isPermanentMempoolInvalid e then rejected (CoreError e) [txHash tx] []
                  else
                    let good = takeWhile (\<lambda>t. t \<noteq> None) seen
                    in if good \<noteq> [] then accepted_txs good else rejected (CoreError e) [] [])))"

definition validateTxsForL1 :: "'c l1_core \<Rightarrow> 'c Blockchain \<Rightarrow> Transaction option list \<Rightarrow> l1ValidateOutcome" where
  "validateTxsForL1 lc bc txs =
     (if txs = [] then rejected EmptySet [] []
      else if \<not> ledger bc then rejected NoLedger [] []
      else case txsToCoreJSONArray txs of
          None \<Rightarrow>
            (let bad = map txHash (filter incompatible (nonnil txs));
                 good = map Some (filter (\<lambda>tx. \<not> incompatible tx) (nonnil txs))
             in if bad \<noteq> [] then rejected NotCompatible bad good else rejected NotCompatible [] [])
        | Some [] \<Rightarrow> accepted_txs txs
        | Some items \<Rightarrow>
            (case lcVerify lc of
               None \<Rightarrow> validate_each (lcValidateTx lc (stateFile bc)) txs [] txs
             | Some verify \<Rightarrow>
                 (case L1VerifyTxs (verify (stateFile bc) items) of
                    (res, err) \<Rightarrow>
                      (if res \<noteq> None \<and> lvTxResults (the res) \<noteq> [] then read_results (the res) err txs
                       else case err of
                           None \<Rightarrow> accepted_txs txs
                         | Some e \<Rightarrow>
                             (let hash = extractFailedTxHash e
                              in if hash \<noteq> [] then rejected (CoreError e) [hash] [] else rejected (CoreError e) [] [])))))"

subsection \<open>A peer's vote\<close>

text \<open>A peer looks at its own state up to eight times, a quarter of a second apart: \<open>states\<close> are the chains it sees. The first
  attempt that finds the proposal decides; with none the vote is no.\<close>

definition maxAttempts :: nat where
  "maxAttempts = 8"

definition resolveMempoolTxsForProposal :: "'c Blockchain \<Rightarrow> nat \<Rightarrow> string list \<Rightarrow> Transaction list option" where
  "resolveMempoolTxsForProposal bc txCount txHashes =
     (if txHashes \<noteq> [] then GetMempoolTxsByHashes bc txHashes
      else if length (GetMempool bc) \<noteq> txCount then None
      else Some (GetMempool bc))"

fun vote_attempts :: "('c Blockchain \<Rightarrow> Transaction list option) \<Rightarrow> 'c l1_core \<Rightarrow> nat \<Rightarrow> 'c Blockchain list \<Rightarrow> bool" where
  "vote_attempts look lc 0 states = False"
| "vote_attempts look lc (Suc k) [] = False"
| "vote_attempts look lc (Suc k) (bc # states) =
     (case look bc of
        Some (tx # txs) \<Rightarrow> voOK (validateTxsForL1 lc bc (map Some (tx # txs)))
      | _ \<Rightarrow> vote_attempts look lc k states)"

definition submitL1Vote :: "'c l1_core \<Rightarrow> nat \<Rightarrow> string list \<Rightarrow> 'c Blockchain list \<Rightarrow> bool" where
  "submitL1Vote lc txCount txHashes states =
     vote_attempts (\<lambda>bc. resolveMempoolTxsForProposal bc txCount txHashes) lc maxAttempts states"

definition submitL2Vote :: "'c l1_core \<Rightarrow> string list \<Rightarrow> 'c Blockchain list \<Rightarrow> bool" where
  "submitL2Vote lc txHashes states =
     vote_attempts (\<lambda>bc. if txHashes \<noteq> [] \<and> \<not> PendingBlockMatchesHashes bc txHashes then None else Some (pendingBlock bc))
       lc maxAttempts states"

subsection \<open>Reading a nonce message\<close>

definition nonce_message :: "nat \<Rightarrow> nat \<Rightarrow> string" where
  "nonce_message expected got = ''invalid nonce: expected '' @ digits_of expected @ '', got '' @ digits_of got"

lemma skip_blanks_digits: "skip_blanks (digits_of n @ s) = digits_of n @ s"
proof -
  have "\<not> is_space (hd (digits_of n @ s))" using hd_digits_of [of n] by (simp add: is_digit_def is_space_def)
  then show ?thesis unfolding skip_blanks_def by (intro dropWhile_id) auto
qed

lemma scan_int_digits:
  assumes "n < 2 ^ 63" "s = [] \<or> \<not> is_digit (hd s)"
  shows "scan_int (digits_of n @ s) = Some (int n, s)"
proof -
  have "hd (digits_of n @ s) \<noteq> CHR ''+''" "hd (digits_of n @ s) \<noteq> CHR ''-''"
    using hd_digits_of [of n] by (auto simp: is_digit_def code_def)
  then show ?thesis
    using takeWhile_digits_of [OF assms(2), of n] ParseInt_digits_of [OF assms(1)]
    by (simp add: scan_int_def skip_blanks_digits Let_def)
qed

lemma Sscanf_nonce:
  assumes "e < 2 ^ 63" "g < 2 ^ 63"
  shows "future_nonce nonce_format (nonce_message e g) = Some (e < g)"
proof -
  have items: "scan_items nonce_format = map (\<lambda>c. if c = CHR '' '' then Blank else Lit c) ''invalid nonce: expected '' @ Verb_d #
      map (\<lambda>c. if c = CHR '' '' then Blank else Lit c) '', got '' @ [Verb_d]"
    by (simp add: nonce_format_def)
  have sp: "is_space CHR '' ''" "\<not> is_digit CHR '',''" "code CHR '' '' \<noteq> 10" "\<not> is_space CHR ''n''" "\<not> is_space CHR ''e''" "\<not> is_space CHR ''g''"
    by (simp_all add: is_space_def is_digit_def code_def)
  have sb: "skip_blanks (CHR '' '' # s) = skip_blanks s" "skip_blanks (CHR ''n'' # s) = CHR ''n'' # s"
    "skip_blanks (CHR ''e'' # s) = CHR ''e'' # s" "skip_blanks (CHR ''g'' # s) = CHR ''g'' # s" for s
    using sp by (simp_all add: skip_blanks_def)
  have "Sscanf (scan_items nonce_format) (nonce_message e g) = Some [int e, int g]"
    unfolding items nonce_message_def
    using sp sb skip_blanks_digits [of _ "[]"] skip_blanks_digits scan_int_digits [of g "[]"] scan_int_digits [of e "'', got '' @ digits_of g"] assms
    by simp
  then show ?thesis by (simp add: future_nonce_def)
qed

lemma ToLower_nonce_message: "ToLower (nonce_message e g) = nonce_message e g"
proof -
  have "ToLower ''invalid nonce: expected '' = ''invalid nonce: expected ''" "ToLower '', got '' = '', got ''"
    by (simp_all add: ToLower_def lower_char_def code_def)
  then show ?thesis by (simp only: nonce_message_def ToLower_append ToLower_digits_of)
qed

lemma Contains_nonce_message: "Contains (nonce_message e g) ''nonce''"
  by (simp add: Contains_def nonce_message_def HasPrefix_def)

lemma isPermanent_nonce:
  assumes "ToLower errMsg = nonce_message expected got" "expected < 2 ^ 63" "got < 2 ^ 63"
  shows "isPermanentMempoolInvalid errMsg \<longleftrightarrow> got \<le> expected"
proof -
  have "nonce_message expected got \<noteq> []" "\<not> HasPrefix (nonce_message expected got) ''l1 verification failed for tx ''"
    by (simp_all add: nonce_message_def HasPrefix_def)
  then show ?thesis
    using assms Sscanf_nonce [of expected got] Contains_nonce_message
    by (auto simp: isPermanentMempoolInvalid_def Let_def)
qed

subsection \<open>What validation drops and keeps\<close>

text \<open>Core blames a hash: the transaction has no Core form, \<open>validate-tx\<close> or \<open>l1-verify-txs\<close> gave a permanent error for it,
  or the call failed with a message that names it.\<close>

definition blamed :: "'c l1_core \<Rightarrow> 'c Blockchain \<Rightarrow> Transaction option list \<Rightarrow> string \<Rightarrow> bool" where
  "blamed lc bc txs h \<longleftrightarrow>
     (\<exists>tx \<in> set (nonnil txs). txHash tx = h \<and>
        (incompatible tx \<or>
         (\<exists>j e. ToCoreJSON tx = Some j \<and> lcValidateTx lc (stateFile bc) j = Some e \<and> isPermanentMempoolInvalid e))) \<or>
     (\<exists>verify items. lcVerify lc = Some verify \<and> txsToCoreJSONArray txs = Some items \<and>
        (case L1VerifyTxs (verify (stateFile bc) items) of
           (res, err) \<Rightarrow>
             (case res of
                None \<Rightarrow> False
              | Some r \<Rightarrow> \<exists>tr \<in> set (lvTxResults r). trHash tr = h \<and> \<not> trValid tr \<and> isPermanentMempoolInvalid (trError tr)) \<or>
             (case err of None \<Rightarrow> False | Some e \<Rightarrow> extractFailedTxHash e = h)))"

text \<open>Core vouches for a transaction: by its own check, or by a verdict on the selection or on this hash.\<close>

definition vouched :: "'c l1_core \<Rightarrow> 'c Blockchain \<Rightarrow> Transaction option list \<Rightarrow> Transaction \<Rightarrow> bool" where
  "vouched lc bc txs tx \<longleftrightarrow>
     is_faucet tx \<or>
     (case lcVerify lc of
        None \<Rightarrow> (\<exists>j. ToCoreJSON tx = Some j \<and> lcValidateTx lc (stateFile bc) j = None)
      | Some verify \<Rightarrow>
          (\<exists>items res. txsToCoreJSONArray txs = Some items \<and> verify (stateFile bc) items = Inr res \<and>
             (lvValid res \<or> valid_hash res (txHash tx))))"

definition sound_outcome :: "'c l1_core \<Rightarrow> 'c Blockchain \<Rightarrow> Transaction option list \<Rightarrow> l1ValidateOutcome \<Rightarrow> bool" where
  "sound_outcome lc bc txs out \<longleftrightarrow>
     set (nonnil (ValidTxs out)) \<subseteq> set (nonnil txs) \<and>
     (\<forall>h \<in> set (InvalidHashes out). blamed lc bc txs h) \<and>
     (if voOK out then InvalidHashes out = [] \<and> voErr out = None \<and> txs \<noteq> [] \<and> ledger bc \<and>
          (\<forall>tx \<in> set (nonnil (ValidTxs out)). vouched lc bc txs tx)
      else voErr out \<noteq> None)"

lemma sound_rejected:
  "set (nonnil good) \<subseteq> set (nonnil txs) \<Longrightarrow> (\<And>h. h \<in> set bad \<Longrightarrow> blamed lc bc txs h) \<Longrightarrow>
   sound_outcome lc bc txs (rejected e bad good)"
  by (simp add: sound_outcome_def rejected_def)

lemma sound_accepted:
  "set (nonnil good) \<subseteq> set (nonnil txs) \<Longrightarrow> txs \<noteq> [] \<Longrightarrow> ledger bc \<Longrightarrow>
   (\<And>tx. tx \<in> set (nonnil good) \<Longrightarrow> vouched lc bc txs tx) \<Longrightarrow> sound_outcome lc bc txs (accepted_txs good)"
  by (simp add: sound_outcome_def accepted_txs_def)

lemma nonnil_append [simp]: "nonnil (xs @ ys) = nonnil xs @ nonnil ys"
  by (induction xs rule: nonnil.induct) auto

lemma set_nonnil_takeWhile: "set (nonnil (takeWhile P xs)) \<subseteq> set (nonnil xs)"
  by (induction xs rule: nonnil.induct) auto

lemma txsToCoreJSONArray_Nil: "txsToCoreJSONArray txs = Some [] \<Longrightarrow> tx \<in> set (nonnil txs) \<Longrightarrow> is_faucet tx"
  by (induction txs rule: txsToCoreJSONArray.induct) (auto split: if_splits option.splits)

lemma read_results_sound:
  assumes "txs \<noteq> []" "ledger bc" "lcVerify lc = Some verify" "txsToCoreJSONArray txs = Some items"
    "verify (stateFile bc) items = Inr res"
  shows "sound_outcome lc bc txs (read_results res err txs)"
proof -
  have g: "set (nonnil (good_txs res txs)) \<subseteq> set (nonnil txs)" by (auto simp: good_txs_def)
  have bad: "blamed lc bc txs h" if "h \<in> set (invalid_hashes res)" for h
    using that assms(3-5) by (auto simp: blamed_def invalid_hashes_def L1VerifyTxs_def)
  have ok: "vouched lc bc txs tx" if "tx \<in> set (nonnil (good_txs res txs))" for tx
    using that assms(3-5) by (auto simp: vouched_def good_txs_def)
  show ?thesis
    unfolding read_results_def Let_def
    by (simp only: sound_rejected [where lc = lc, OF g bad] sound_accepted [where lc = lc, OF g assms(1,2) ok] simp_thms split: if_split)
qed

lemma validate_each_sound:
  assumes "txs \<noteq> []" "ledger bc" "lcVerify lc = None" and "txs = seen @ rest"
    and "\<And>tx. tx \<in> set (nonnil seen) \<Longrightarrow> vouched lc bc txs tx"
  shows "sound_outcome lc bc txs (validate_each (lcValidateTx lc (stateFile bc)) txs seen rest)"
  using assms(4,5)
proof (induction rest arbitrary: seen)
  case Nil
  then show ?case using assms(1,2) by (auto intro: sound_accepted)
next
  case (Cons t rest)
  show ?case
  proof (cases t)
    case None
    then show ?thesis using Cons by simp
  next
    case (Some tx)
    have mem: "tx \<in> set (nonnil txs)" using Cons.prems(1) Some by simp
    have step: "vouched lc bc txs tx \<Longrightarrow>
        sound_outcome lc bc txs (validate_each (lcValidateTx lc (stateFile bc)) txs (seen @ [Some tx]) rest)"
      using Cons.prems Some by (intro Cons.IH) auto
    have pre: "sound_outcome lc bc txs (accepted_txs (takeWhile (\<lambda>t. t \<noteq> None) seen))"
      using Cons.prems assms(1,2) set_nonnil_takeWhile [of _ seen] by (intro sound_accepted) auto
    consider "is_faucet tx" | "\<not> is_faucet tx" "ToCoreJSON tx = None"
      | j where "\<not> is_faucet tx" "ToCoreJSON tx = Some j" "lcValidateTx lc (stateFile bc) j = None"
      | j e where "\<not> is_faucet tx" "ToCoreJSON tx = Some j" "lcValidateTx lc (stateFile bc) j = Some e"
      by (metis not_None_eq)
    then show ?thesis
    proof cases
      case 1
      then show ?thesis using step by (simp add: Some vouched_def)
    next
      case 2
      then show ?thesis using mem by (auto simp: Some incompatible_def blamed_def intro!: sound_rejected)
    next
      case 3
      then show ?thesis using step assms(3) by (simp add: Some vouched_def)
    next
      case 4
      then have "isPermanentMempoolInvalid e \<Longrightarrow> blamed lc bc txs (txHash tx)" using mem unfolding blamed_def by blast
      with 4 pre show ?thesis by (auto simp: Some Let_def intro!: sound_rejected)
    qed
  qed
qed

subsection \<open>Properties\<close>

text \<open>
  Remark: a transaction whose nonce is ahead of its account is never deleted for that: of Core's message
  "invalid nonce: expected N, got M", in any letter case, the gateway makes a permanent failure exactly when M is not above N.
\<close>

theorem future_nonce_kept:
  assumes "ToLower errMsg = nonce_message expected got" "expected < 2 ^ 63" "got < 2 ^ 63"
  shows "isPermanentMempoolInvalid errMsg \<longleftrightarrow> got \<le> expected"
  using assms by (rule isPermanent_nonce)

theorem future_nonce_kept_witness:
  "\<not> isPermanentMempoolInvalid ''Invalid nonce: expected 5, got 17''"
proof -
  have "ToLower ''Invalid nonce: expected 5, got 17'' = nonce_message 5 17" by code_simp
  from future_nonce_kept [OF this] show ?thesis by simp
qed

text \<open>
  C9: validation fails closed and drops nobody without cause: it succeeds only with a Core ledger and a
  selection, and then every transaction it keeps is one of the selection that Core vouched for (or a faucet credit); a
  hash is reported as invalid only if Core blamed it; a failure carries an error.
\<close>

theorem validateTxsForL1_sound: "sound_outcome lc bc txs (validateTxsForL1 lc bc txs)"
proof (cases "txs = [] \<or> \<not> ledger bc")
  case True
  then show ?thesis by (auto simp: validateTxsForL1_def intro: sound_rejected)
next
  case False
  then have ne: "txs \<noteq> []" "ledger bc" by simp_all
  consider "txsToCoreJSONArray txs = None" | "txsToCoreJSONArray txs = Some []"
    | j js where "txsToCoreJSONArray txs = Some (j # js)" by (metis list.exhaust not_None_eq)
  then show ?thesis
  proof cases
    case 1
    then show ?thesis
      using ne by (auto simp: validateTxsForL1_def Let_def blamed_def intro!: sound_rejected)
  next
    case 2
    then show ?thesis
      using ne txsToCoreJSONArray_Nil [OF 2] by (auto simp: validateTxsForL1_def vouched_def intro!: sound_accepted)
  next
    case 3
    show ?thesis
    proof (cases "lcVerify lc")
      case None
      then show ?thesis using ne 3 validate_each_sound [OF ne None, of "[]" txs] by (simp add: validateTxsForL1_def)
    next
      case (Some verify)
      show ?thesis
      proof (cases "verify (stateFile bc) (j # js)")
        case (Inl e)
        then show ?thesis
          using ne 3 Some by (auto simp: validateTxsForL1_def L1VerifyTxs_def Let_def blamed_def intro!: sound_rejected)
      next
        case (Inr res)
        then show ?thesis
          using ne 3 Some read_results_sound [OF ne Some 3 Inr]
          by (auto simp: validateTxsForL1_def L1VerifyTxs_def Let_def blamed_def vouched_def
              intro!: sound_rejected sound_accepted)
      qed
    qed
  qed
qed

text \<open>
  Remark: a peer votes yes on an L2 proposal only if, in a state it saw, its own pending block was there, was a permutation of the proposal's
  hashes (when it names any), and passed the validation with Core.
\<close>

lemma vote_attempts_yes:
  "vote_attempts look lc k states \<Longrightarrow>
   \<exists>bc \<in> set states. \<exists>txs. look bc = Some txs \<and> txs \<noteq> [] \<and> voOK (validateTxsForL1 lc bc (map Some txs))"
  by (induction look lc k states rule: vote_attempts.induct) (auto split: option.splits list.splits)

lemma submitL2Vote_yes:
  assumes "submitL2Vote lc txHashes states"
  shows "\<exists>bc \<in> set states. pendingBlock bc \<noteq> [] \<and> ledger bc \<and> (txHashes \<noteq> [] \<longrightarrow> PendingBlockMatchesHashes bc txHashes) \<and>
    voOK (validateTxsForL1 lc bc (map Some (pendingBlock bc)))"
proof -
  from vote_attempts_yes [OF assms [unfolded submitL2Vote_def]] obtain bc where
    "bc \<in> set states" "txHashes \<noteq> [] \<longrightarrow> PendingBlockMatchesHashes bc txHashes" "pendingBlock bc \<noteq> []"
    "voOK (validateTxsForL1 lc bc (map Some (pendingBlock bc)))" by (auto split: if_splits)
  moreover from this(4) have "ledger bc" by (auto simp: validateTxsForL1_def rejected_def split: if_splits)
  ultimately show ?thesis by blast
qed

end
