(* ===== verification/Rewards.thy ===== *)
theory Rewards
  imports Rating
begin

text \<open>
  Block rewards (\<^verbatim>\<open>internal/rewards\<close> and the reward code of \<^verbatim>\<open>internal/handlers/handlers.go\<close>): the split of
  the block fees into burn, treasury, L1 and L2 pools, the division of a pool among the YES voters by
  selection weight, the per-node earnings, the operator reward with its idempotence map, and the
  validation XP.

  A vote map is an association list in the iteration order of the run, so is the map of shares. The Core
  ledger calls \<open>Credit\<close> and \<open>CreditToken\<close> are recorded in the order they are made.
\<close>

subsection \<open>Configuration\<close>

record RewardConfig =
  BurnPct :: int
  TreasuryPct :: int
  L1Pct :: int
  L2Pct :: int

definition DefaultConfig :: RewardConfig where
  "DefaultConfig = \<lparr>BurnPct = 10, TreasuryPct = 18, L1Pct = 36, L2Pct = 36\<rparr>"

text \<open>\<open>strconv.Atoi\<close> on a 64-bit platform is \<open>ParseInt(s, 10, 64)\<close>; the argument is the value of the
  environment variable, empty when it is unset.\<close>

definition envInt :: "string \<Rightarrow> int \<Rightarrow> int" where
  "envInt raw fallback =
     (if raw = [] then fallback
      else case ParseInt raw of (n, e) \<Rightarrow> if e \<noteq> None \<or> n < 0 then fallback else n)"

definition burn_var :: string where "burn_var = ''PLATARIUM_BURN_PCT''"
definition treasury_var :: string where "treasury_var = ''PLATARIUM_TREASURY_PCT''"
definition l1_var :: string where "l1_var = ''PLATARIUM_L1_PCT''"
definition l2_var :: string where "l2_var = ''PLATARIUM_L2_PCT''"

definition ConfigFromEnv :: "(string \<Rightarrow> string) \<Rightarrow> RewardConfig" where
  "ConfigFromEnv getenv =
     \<lparr>BurnPct = envInt (getenv burn_var) (BurnPct DefaultConfig),
      TreasuryPct = envInt (getenv treasury_var) (TreasuryPct DefaultConfig),
      L1Pct = envInt (getenv l1_var) (L1Pct DefaultConfig),
      L2Pct = envInt (getenv l2_var) (L2Pct DefaultConfig)\<rparr>"

definition isHex :: "string \<Rightarrow> bool" where
  "isHex s \<longleftrightarrow> s \<noteq> [] \<and> list_all (\<lambda>c. is_digit c \<or> (97 \<le> code c \<and> code c \<le> 102)) s"

definition wallet_upper :: string where "wallet_upper = ''Px''"
definition wallet_lower :: string where "wallet_lower = ''px''"

definition normalizeOperatorWallet :: "string \<Rightarrow> string" where
  "normalizeOperatorWallet addr =
     (let v = TrimSpace addr; hex = ToLower (drop 2 v)
      in if length v < 3 then []
         else if (HasPrefix v wallet_upper \<or> HasPrefix v wallet_lower) \<and> length v > 2 \<and> isHex hex
         then wallet_upper @ hex
         else [])"

subsection \<open>The split of the fees\<close>

record SplitResult =
  Burn :: int
  Treasury :: int
  L1Pool :: int
  L2Pool :: int

definition pct_sum :: "RewardConfig \<Rightarrow> int" where
  "pct_sum c =
     (let s = i64 (BurnPct c + TreasuryPct c + L1Pct c + L2Pct c) in if s \<le> 0 then 100 else s)"

definition SplitBlockFees :: "RewardConfig \<Rightarrow> int \<Rightarrow> SplitResult" where
  "SplitBlockFees c fees =
     (if fees \<le> 0 then \<lparr>Burn = 0, Treasury = 0, L1Pool = 0, L2Pool = 0\<rparr>
      else
        let s = pct_sum c;
            b = go_div (i64 (fees * BurnPct c)) s;
            t = go_div (i64 (fees * TreasuryPct c)) s;
            l1 = go_div (i64 (fees * L1Pct c)) s;
            l2 = go_div (i64 (fees * L2Pct c)) s
        in \<lparr>Burn = b, Treasury = i64 (t + i64 (fees - b - t - l1 - l2)), L1Pool = l1, L2Pool = l2\<rparr>)"

record Distributor =
  dist_config :: RewardConfig
  TotalBurned :: int
  TotalTreasury :: int

definition NewDistributor :: "(string \<Rightarrow> string) \<Rightarrow> Distributor" where
  "NewDistributor getenv = \<lparr>dist_config = ConfigFromEnv getenv, TotalBurned = 0, TotalTreasury = 0\<rparr>"

definition SetConfig :: "Distributor \<Rightarrow> RewardConfig \<Rightarrow> Distributor" where
  "SetConfig d c = d\<lparr>dist_config := c\<rparr>"

definition SetTotals :: "Distributor \<Rightarrow> int \<Rightarrow> int \<Rightarrow> Distributor" where
  "SetTotals d burned treasury =
     d\<lparr>TotalBurned := (if burned < 0 then 0 else burned), TotalTreasury := (if treasury < 0 then 0 else treasury)\<rparr>"

definition ApplyBlock :: "Distributor \<Rightarrow> int \<Rightarrow> (int \<times> int) \<times> Distributor" where
  "ApplyBlock d fees =
     (let sr = SplitBlockFees (dist_config d) fees
      in ((L1Pool sr, L2Pool sr),
          d\<lparr>TotalBurned := i64 (TotalBurned d + Burn sr), TotalTreasury := i64 (TotalTreasury d + Treasury sr)\<rparr>))"

definition AddBurnTreasury :: "Distributor \<Rightarrow> int \<Rightarrow> int \<Rightarrow> Distributor" where
  "AddBurnTreasury d b t =
     d\<lparr>TotalBurned := i64 (TotalBurned d + b), TotalTreasury := i64 (TotalTreasury d + t)\<rparr>"

definition ParseFee :: "string \<Rightarrow> int" where
  "ParseFee s = (let n = fst (ParseInt s) in if n < 0 then 0 else n)"

text \<open>\<open>rebuildDistributorTotalsFromChain\<close>: the totals from the block history after a restart.\<close>

definition rebuild_step :: "RewardConfig \<Rightarrow> int \<times> int \<Rightarrow> BlockRecord \<Rightarrow> int \<times> int" where
  "rebuild_step c acc b =
     (if bTotalFees b \<le> 0 then acc
      else let sr = SplitBlockFees c (bTotalFees b) in (i64 (fst acc + Burn sr), i64 (snd acc + Treasury sr)))"

definition rebuildDistributorTotalsFromChain :: "Distributor \<Rightarrow> BlockRecord list \<Rightarrow> Distributor" where
  "rebuildDistributorTotalsFromChain d hist =
     (let acc = foldl (rebuild_step (dist_config d)) (0, 0) hist
      in if fst acc > 0 \<or> snd acc > 0 then SetTotals d (fst acc) (snd acc) else d)"

subsection \<open>Sharing a pool\<close>

type_synonym shares = "(string \<times> int) list"

definition share_of :: "shares \<Rightarrow> string \<Rightarrow> int" where
  "share_of sh i = (case map_of sh i of None \<Rightarrow> 0 | Some x \<Rightarrow> x)"

definition add_share :: "shares \<Rightarrow> string \<Rightarrow> int \<Rightarrow> shares" where
  "add_share sh i x = AList.update i (i64 (share_of sh i + x)) sh"

definition yes_voters :: "(string \<times> bool) list \<Rightarrow> string list" where
  "yes_voters votes = map fst (filter snd votes)"

text \<open>The weights of the voters and their sum; a sum that wrapped to a non-positive value falls back to
  weight 1 for everybody.\<close>

definition pool_weights :: "registry \<Rightarrow> string list \<Rightarrow> (string \<Rightarrow> int) \<times> int" where
  "pool_weights r ids =
     (let W = foldl (\<lambda>t i. i64 (t + pick_weight r i)) 0 ids
      in if W \<le> 0 then (\<lambda>i. 1, int (length ids)) else (pick_weight r, W))"

definition share_step :: "int \<Rightarrow> (string \<Rightarrow> int) \<Rightarrow> int \<Rightarrow> shares \<times> int \<Rightarrow> string \<Rightarrow> shares \<times> int" where
  "share_step remainder w W acc i =
     (let s = go_div (i64 (remainder * w i)) W in (add_share (fst acc) i s, i64 (snd acc + s)))"

text \<open>Every voter gets 1 when the pool is large enough; the rest is shared by weight.\<close>

definition base_shares :: "int \<Rightarrow> string list \<Rightarrow> shares" where
  "base_shares pool ids = (if pool \<ge> int (length ids) then map (\<lambda>i. (i, 1)) ids else [])"

definition pool_remainder :: "int \<Rightarrow> string list \<Rightarrow> int" where
  "pool_remainder pool ids = (if pool \<ge> int (length ids) then pool - int (length ids) else pool)"

definition distributePool :: "registry \<Rightarrow> int \<Rightarrow> (string \<times> bool) list \<Rightarrow> shares" where
  "distributePool r pool votes =
     (let ids = yes_voters votes
      in if pool \<le> 0 \<or> ids = [] then []
         else
           let w = fst (pool_weights r ids);
               W = snd (pool_weights r ids);
               base = base_shares pool ids;
               remainder = pool_remainder pool ids
           in if remainder \<le> 0 then base
              else
                let acc = foldl (share_step remainder w W) (base, 0) ids
                in if snd acc < remainder then add_share (fst acc) (hd ids) (i64 (remainder - snd acc)) else fst acc)"

subsection \<open>Validation XP\<close>

definition MinValidationXP :: int where
  "MinValidationXP = 10"

definition loadXPBonus :: "int \<Rightarrow> int" where
  "loadXPBonus loadPct =
     (let sel = SelectionPercentFromLoad loadPct
      in if sel \<ge> 50 then 0 else if sel \<ge> 30 then 2 else if sel \<ge> 25 then 4
         else if sel \<ge> 20 then 6 else if sel \<ge> 15 then 8 else 10)"

definition distributionXPBonus :: "int \<Rightarrow> int \<Rightarrow> int \<Rightarrow> int" where
  "distributionXPBonus myWeight totalWeight voterCount =
     (if voterCount \<le> 0 \<or> totalWeight \<le> 0 \<or> myWeight \<le> 0 then 0
      else
        let equal = go_div totalWeight voterCount;
            equal' = (if equal \<le> 0 then 1 else equal);
            ratioScaled = go_div (i64 (myWeight * 10)) equal'
        in if ratioScaled \<le> 10 then 0
           else if ratioScaled - 10 > 10 then 10 else ratioScaled - 10)"

definition ComputeValidationXP :: "int \<Rightarrow> int \<Rightarrow> int \<Rightarrow> int \<Rightarrow> int" where
  "ComputeValidationXP loadPct myWeight totalWeight voterCount =
     (let xp = MinValidationXP + loadXPBonus loadPct + distributionXPBonus myWeight totalWeight voterCount
      in if xp < MinValidationXP then MinValidationXP else xp)"

subsection \<open>Earnings and the operator reward\<close>

datatype ledger_call =
    Credit string u64 u64
  | CreditToken string string u64

record reward_state =
  rw_registry :: registry
  rw_distributor :: Distributor
  allNodeEarnings :: "string \<Rightarrow> int \<times> int"
  nodeEarnedL1 :: int
  nodeEarnedFees :: int
  operatorRewardedBlock :: "u64 list"
  ledger_calls :: "ledger_call list"

record reward_node =
  rw_nodeID :: string
  operatorWallet :: string
  ledger_present :: bool

definition earn_l1 :: "(string \<Rightarrow> int \<times> int) \<Rightarrow> string \<times> int \<Rightarrow> string \<Rightarrow> int \<times> int" where
  "earn_l1 e p = e(fst p := (i64 (fst (e (fst p)) + snd p), snd (e (fst p))))"

definition earn_l2 :: "(string \<Rightarrow> int \<times> int) \<Rightarrow> string \<times> int \<Rightarrow> string \<Rightarrow> int \<times> int" where
  "earn_l2 e p = e(fst p := (fst (e (fst p)), i64 (snd (e (fst p)) + snd p)))"

definition recordEarnings :: "reward_node \<Rightarrow> reward_state \<Rightarrow> shares \<Rightarrow> shares \<Rightarrow> reward_state" where
  "recordEarnings nd st l1 l2 =
     st\<lparr>allNodeEarnings := foldl earn_l2 (foldl earn_l1 (allNodeEarnings st) l1) l2,
        nodeEarnedL1 := (case map_of l1 (rw_nodeID nd) of None \<Rightarrow> nodeEarnedL1 st | Some x \<Rightarrow> i64 (nodeEarnedL1 st + x)),
        nodeEarnedFees := (case map_of l2 (rw_nodeID nd) of None \<Rightarrow> nodeEarnedFees st | Some x \<Rightarrow> i64 (nodeEarnedFees st + x))\<rparr>"

definition earner_weight :: "registry \<Rightarrow> shares \<Rightarrow> shares \<Rightarrow> int \<times> int" where
  "earner_weight r l1 l2 =
     (let earners = remdups (map fst (filter (\<lambda>p. snd p > 0) l1) @ map fst (filter (\<lambda>p. snd p > 0) l2))
      in (foldl (\<lambda>t i. i64 (t + pick_weight r i)) 0 earners, int (length earners)))"

definition operatorRewardedMax :: nat where
  "operatorRewardedMax = 5000"

definition mark_rewarded :: "u64 \<Rightarrow> u64 list \<Rightarrow> u64 list" where
  "mark_rewarded b bs = (if length (b # bs) > operatorRewardedMax then [b] else b # bs)"

definition applyOperatorBlockReward ::
  "reward_node \<Rightarrow> reward_state \<Rightarrow> u64 \<Rightarrow> int \<Rightarrow> shares \<Rightarrow> shares \<Rightarrow> reward_state" where
  "applyOperatorBlockReward nd st b loadPct l1 l2 =
     (let feeTotal = i64 (share_of l1 (rw_nodeID nd) + share_of l2 (rw_nodeID nd))
      in if operatorWallet nd = [] \<or> feeTotal \<le> 0 \<or> b \<in> set (operatorRewardedBlock st) then st
         else
           let (totalWeight, n) = earner_weight (rw_registry st) l1 l2;
               xp = ComputeValidationXP loadPct (pick_weight (rw_registry st) (rw_nodeID nd)) totalWeight n
           in st\<lparr>operatorRewardedBlock := mark_rewarded b (operatorRewardedBlock st),
                ledger_calls := ledger_calls st @
                  (if ledger_present nd then [Credit (operatorWallet nd) 0 (word_of_int feeTotal)] else []) @
                  (if ledger_present nd \<and> xp > 0 then [CreditToken (operatorWallet nd) TokenXP (word_of_int xp)] else [])\<rparr>)"

text \<open>The reward half of \<open>L2ConfirmBlock\<close> in the handler: split, apply, share, record, pay the operator.\<close>

definition distribute_block_fees ::
  "reward_node \<Rightarrow> reward_state \<Rightarrow> int \<Rightarrow> u64 \<Rightarrow> int \<Rightarrow> (string \<times> bool) list \<Rightarrow> (string \<times> bool) list \<Rightarrow>
     (shares \<times> shares) \<times> reward_state" where
  "distribute_block_fees nd st fees b loadPct l1Votes l2Votes =
     (if fees \<le> 0 then (([], []), st)
      else
        let ((l1Pool, l2Pool), d) = ApplyBlock (rw_distributor st) fees;
            l1 = distributePool (rw_registry st) l1Pool l1Votes;
            l2 = distributePool (rw_registry st) l2Pool l2Votes;
            st1 = recordEarnings nd (st\<lparr>rw_distributor := d\<rparr>) l1 l2
        in ((l1, l2), applyOperatorBlockReward nd st1 b loadPct l1 l2))"

text \<open>\<open>onFeeDistribution\<close>: what another node reports, after the JSON payload has been read.\<close>

definition onFeeDistribution ::
  "reward_node \<Rightarrow> reward_state \<Rightarrow> shares \<Rightarrow> shares \<Rightarrow> int \<Rightarrow> int \<Rightarrow> u64 \<Rightarrow> int \<Rightarrow> reward_state" where
  "onFeeDistribution nd st l1 l2 burn treasury b loadPct =
     (let st1 = recordEarnings nd st l1 l2;
          st2 = (if burn > 0 \<or> treasury > 0
                 then st1\<lparr>rw_distributor := AddBurnTreasury (rw_distributor st1) burn treasury\<rparr> else st1)
      in if b > 0 then applyOperatorBlockReward nd st2 b loadPct l1 l2 else st2)"

subsection \<open>Facts about the split\<close>

text \<open>Percentages as the configuration delivers them, small enough that no product overflows.\<close>

definition config_ok :: "RewardConfig \<Rightarrow> bool" where
  "config_ok c \<longleftrightarrow> 0 \<le> BurnPct c \<and> 0 \<le> TreasuryPct c \<and> 0 \<le> L1Pct c \<and> 0 \<le> L2Pct c \<and>
     BurnPct c + TreasuryPct c + L1Pct c + L2Pct c < 2 ^ 10"

lemma pct_sum_bounds:
  assumes "config_ok c"
  shows "0 < pct_sum c \<and> BurnPct c + TreasuryPct c + L1Pct c + L2Pct c \<le> pct_sum c \<and> pct_sum c < 2 ^ 10"
proof -
  have "i64 (BurnPct c + TreasuryPct c + L1Pct c + L2Pct c) = BurnPct c + TreasuryPct c + L1Pct c + L2Pct c"
    using assms by (simp add: config_ok_def in_i64_def)
  with assms show ?thesis by (simp add: pct_sum_def config_ok_def Let_def)
qed

lemma part_eq:
  assumes "0 \<le> p" "p < 2 ^ 10" "0 < s" "0 \<le> fees" "fees < 2 ^ 53"
  shows "go_div (i64 (fees * p)) s = fees * p div s"
proof -
  have "fees * p \<le> fees * 2 ^ 10" using assms by (intro mult_left_mono) simp_all
  then have "fees * p < 2 ^ 63" using assms(5) by simp
  moreover have "0 \<le> fees * p" using assms by simp
  ultimately show ?thesis using assms(3) by (simp add: go_div_nonneg in_i64_def)
qed

lemma parts_le:
  fixes s :: int
  assumes "0 < s" "0 \<le> fees" "p + q + u + v \<le> s"
  shows "fees * p div s + fees * q div s + fees * u div s + fees * v div s \<le> fees"
proof -
  have m: "s * (x div s) \<le> x" for x using assms(1) by (simp add: minus_mod_eq_mult_div [symmetric])
  have "s * (fees * p div s + fees * q div s + fees * u div s + fees * v div s) \<le> fees * p + fees * q + fees * u + fees * v"
    using m [of "fees * p"] m [of "fees * q"] m [of "fees * u"] m [of "fees * v"] by (simp add: distrib_left)
  also have "\<dots> = fees * (p + q + u + v)" by (simp add: distrib_left)
  also have "\<dots> \<le> fees * s" using assms(2,3) by (intro mult_left_mono)
  finally show ?thesis using assms(1) by (simp add: mult.commute [of fees])
qed

lemma SplitBlockFees_parts:
  assumes "config_ok c" "0 < fees" "fees < 2 ^ 53"
  shows "let s = pct_sum c; r = SplitBlockFees c fees
    in Burn r = fees * BurnPct c div s \<and> L1Pool r = fees * L1Pct c div s \<and> L2Pool r = fees * L2Pct c div s \<and>
       Treasury r = fees - Burn r - L1Pool r - L2Pool r \<and> fees * TreasuryPct c div s \<le> Treasury r"
proof -
  let ?s = "pct_sum c"
  note ps = pct_sum_bounds [OF assms(1)]
  have rng: "0 \<le> BurnPct c" "0 \<le> TreasuryPct c" "0 \<le> L1Pct c" "0 \<le> L2Pct c" using assms(1) by (simp_all add: config_ok_def)
  then have p: "BurnPct c < 2 ^ 10" "TreasuryPct c < 2 ^ 10" "L1Pct c < 2 ^ 10" "L2Pct c < 2 ^ 10" using ps by linarith+
  have e: "go_div (i64 (fees * p)) ?s = fees * p div ?s" if "0 \<le> p" "p < 2 ^ 10" for p
    using part_eq that ps assms(2,3) by simp
  note e = e [OF rng(1) p(1)] e [OF rng(2) p(2)] e [OF rng(3) p(3)] e [OF rng(4) p(4)]
  let ?b = "fees * BurnPct c div ?s" and ?t = "fees * TreasuryPct c div ?s" and ?u = "fees * L1Pct c div ?s" and ?v = "fees * L2Pct c div ?s"
  have nn: "0 \<le> ?b" "0 \<le> ?t" "0 \<le> ?u" "0 \<le> ?v" using rng ps assms(2) by (simp_all add: pos_imp_zdiv_nonneg_iff)
  have le: "?b + ?t + ?u + ?v \<le> fees" using parts_le [of ?s fees] ps assms(2) by simp
  have i1: "i64 (fees - ?b - ?t - ?u - ?v) = fees - ?b - ?t - ?u - ?v"
    using le nn assms(2,3) by (intro i64_id) (simp add: in_i64_def)
  have i2: "i64 (?t + (fees - ?b - ?t - ?u - ?v)) = fees - ?b - ?u - ?v"
    using le nn assms(2,3) by (subst i64_id) (simp_all add: in_i64_def)
  have r: "SplitBlockFees c fees = \<lparr>Burn = ?b, Treasury = fees - ?b - ?u - ?v, L1Pool = ?u, L2Pool = ?v\<rparr>"
    using assms(2) by (simp only: SplitBlockFees_def e Let_def i1 i2) simp
  show ?thesis unfolding r Let_def using le by simp
qed

subsection \<open>Facts about the shares\<close>

definition total_shares :: "shares \<Rightarrow> int" where
  "total_shares sh = sum_list (map snd sh)"

lemma share_of_absent: "k \<notin> fst ` set sh \<Longrightarrow> share_of sh k = 0"
  by (simp add: share_of_def map_of_eq_None_iff [THEN iffD2])

lemma total_shares_update:
  "distinct (map fst sh) \<Longrightarrow> total_shares (AList.update k v sh) = total_shares sh - share_of sh k + v"
  by (induction sh) (auto simp: total_shares_def share_of_def map_of_eq_None_iff [THEN iffD2] image_iff)

lemma share_of_le_total:
  assumes "distinct (map fst sh)" "\<forall>p \<in> set sh. 0 \<le> snd p"
  shows "0 \<le> share_of sh k \<and> share_of sh k \<le> total_shares sh"
proof (cases "map_of sh k")
  case None
  then show ?thesis using assms(2) by (auto simp: share_of_def total_shares_def intro!: sum_list_nonneg)
next
  case (Some x)
  then have "(k, x) \<in> set sh" by (rule map_of_SomeD)
  then have "0 \<le> x" "x \<in> set (map snd sh)" using assms(2) by force+
  then show ?thesis using Some assms(2) sum_list_nonneg_le [of "map snd sh" x] by (auto simp: share_of_def total_shares_def)
qed

text \<open>A map of shares that is consistent: distinct nodes, no negative share, and a total below \<open>2 ^ 63\<close>.\<close>

definition shares_ok :: "shares \<Rightarrow> bool" where
  "shares_ok sh \<longleftrightarrow> distinct (map fst sh) \<and> (\<forall>p \<in> set sh. 0 \<le> snd p) \<and> total_shares sh < 2 ^ 63"

lemma add_share_ok:
  assumes "shares_ok sh" "0 \<le> x" "total_shares sh + x < 2 ^ 63"
  shows "shares_ok (add_share sh i x) \<and> total_shares (add_share sh i x) = total_shares sh + x \<and>
     share_of (add_share sh i x) = (share_of sh)(i := share_of sh i + x) \<and>
     fst ` set (add_share sh i x) = insert i (fst ` set sh)"
proof -
  have d: "distinct (map fst sh)" and nn: "\<forall>p \<in> set sh. 0 \<le> snd p" using assms(1) by (simp_all add: shares_ok_def)
  note b = share_of_le_total [OF d nn, of i]
  have "i64 (share_of sh i + x) = share_of sh i + x" using b assms(2,3) by (intro i64_id) (simp add: in_i64_def)
  then have a: "add_share sh i x = AList.update i (share_of sh i + x) sh" by (simp add: add_share_def)
  have t: "total_shares (add_share sh i x) = total_shares sh + x" unfolding a by (simp add: total_shares_update [OF d])
  moreover have "distinct (map fst (add_share sh i x))" unfolding a using d by (simp add: distinct_update)
  moreover have "\<forall>p \<in> set (add_share sh i x). 0 \<le> snd p"
    unfolding a using nn b assms(2) d by (auto simp: set_update_wf)
  moreover have "share_of (add_share sh i x) = (share_of sh)(i := share_of sh i + x)"
    unfolding a by (rule ext) (simp add: share_of_def update_conv)
  moreover have "fst ` set (add_share sh i x) = insert i (fst ` set sh)"
    unfolding a using dom_update [of i "share_of sh i + x" sh] by (simp add: dom_map_of_conv_image_fst)
  ultimately show ?thesis using assms(3) by (simp add: shares_ok_def)
qed

lemma share_fold:
  assumes "shares_ok sh" and "\<forall>i \<in> set ids. 0 \<le> s i" and "distinct ids"
    and "0 \<le> d" "d + sum_list (map s ids) \<le> R" "total_shares sh + sum_list (map s ids) < 2 ^ 63" "R < 2 ^ 63"
    and "\<forall>i \<in> set ids. go_div (i64 (R * w i)) W = s i"
  shows "\<exists>sh'. foldl (share_step R w W) (sh, d) ids = (sh', d + sum_list (map s ids)) \<and> shares_ok sh' \<and>
     total_shares sh' = total_shares sh + sum_list (map s ids) \<and>
     share_of sh' = (\<lambda>i. share_of sh i + (if i \<in> set ids then s i else 0)) \<and>
     fst ` set sh' = set ids \<union> fst ` set sh"
  using assms
proof (induction ids arbitrary: sh d)
  case (Cons i ids)
  have si: "0 \<le> s i" using Cons.prems(2) by simp
  have rest: "0 \<le> sum_list (map s ids)" using Cons.prems(2) by (auto intro!: sum_list_nonneg)
  have a: "shares_ok (add_share sh i (s i))" "total_shares (add_share sh i (s i)) = total_shares sh + s i"
    "share_of (add_share sh i (s i)) = (share_of sh)(i := share_of sh i + s i)"
    "fst ` set (add_share sh i (s i)) = insert i (fst ` set sh)"
    using add_share_ok [OF Cons.prems(1) si, of i] Cons.prems(6) rest by simp_all
  have "i64 (d + s i) = d + s i"
    using Cons.prems(4,5,7) si rest by (intro i64_id) (simp add: in_i64_def)
  then have step: "share_step R w W (sh, d) i = (add_share sh i (s i), d + s i)"
    using Cons.prems(8) by (simp add: share_step_def Let_def)
  have "\<exists>sh'. foldl (share_step R w W) (add_share sh i (s i), d + s i) ids = (sh', d + s i + sum_list (map s ids)) \<and> shares_ok sh' \<and>
     total_shares sh' = total_shares (add_share sh i (s i)) + sum_list (map s ids) \<and>
     share_of sh' = (\<lambda>j. share_of (add_share sh i (s i)) j + (if j \<in> set ids then s j else 0)) \<and>
     fst ` set sh' = set ids \<union> fst ` set (add_share sh i (s i))"
    using Cons.prems a(1,2) si by (intro Cons.IH) (simp_all add: add.assoc)
  then obtain sh' where h: "foldl (share_step R w W) (add_share sh i (s i), d + s i) ids = (sh', d + s i + sum_list (map s ids))"
    "shares_ok sh'" "total_shares sh' = total_shares sh + s i + sum_list (map s ids)"
    "share_of sh' = (\<lambda>j. ((share_of sh)(i := share_of sh i + s i)) j + (if j \<in> set ids then s j else 0))"
    "fst ` set sh' = set ids \<union> insert i (fst ` set sh)"
    unfolding a by blast
  have "foldl (share_step R w W) (sh, d) (i # ids) = (sh', d + sum_list (map s (i # ids)))"
    using step h(1) by (simp add: add.assoc)
  moreover have "share_of sh' = (\<lambda>j. share_of sh j + (if j \<in> set (i # ids) then s j else 0))"
    unfolding h(4) using Cons.prems(3) by (auto simp: fun_eq_iff)
  ultimately show ?case using h(2,3,5) by (intro exI [of _ sh']) (simp add: add.assoc)
qed auto

text \<open>Rounding down never gives away more than there is.\<close>

lemma proportional_le:
  fixes W :: int
  assumes "0 < W" "W = sum_list (map w ids)"
  shows "sum_list (map (\<lambda>i. R * w i div W) ids) \<le> R"
proof -
  have m: "W * (x div W) \<le> x" for x using assms(1) by (simp add: minus_mod_eq_mult_div [symmetric])
  have "W * sum_list (map (\<lambda>i. R * w i div W) js) \<le> R * sum_list (map w js)" for js
  proof (induction js)
    case (Cons j js)
    then show ?case using m [of "R * w j"] by (simp add: distrib_left)
  qed simp
  from this [of ids] have "W * sum_list (map (\<lambda>i. R * w i div W) ids) \<le> W * R" by (simp add: assms(2) mult.commute)
  then show ?thesis using assms(1) by simp
qed

lemma pool_weights_eq:
  assumes "registry_ok r" "ids \<noteq> []" "length ids < 2 ^ 40"
  shows "pool_weights r ids = (pick_weight r, sum_list (map (pick_weight r) ids)) \<and> 0 < sum_list (map (pick_weight r) ids)"
proof -
  have "int (length ids) < 2 ^ 40" using assms(3) by (metis of_nat_less_iff of_nat_numeral of_nat_power)
  then have "0 + ScoreScale * int (length ids) < 2 ^ 63" by (simp add: ScoreScale_def)
  then have "foldl (\<lambda>t i. i64 (t + pick_weight r i)) 0 ids = sum_list (map (pick_weight r) ids)"
    using partial_sums [OF assms(1), of 0 ids] by simp
  moreover have "0 < sum_list (map (pick_weight r) ids)"
    using assms(2) pick_weight_pos [of r] by (induction ids rule: list_nonempty_induct) (auto intro: add_pos_pos)
  ultimately show ?thesis by (simp add: pool_weights_def Let_def)
qed

lemma share_of_const: "share_of (map (\<lambda>i. (i, c)) ids) j = (if j \<in> set ids then c else 0)"
  by (induction ids) (auto simp: share_of_def)

lemma total_shares_const: "total_shares (map (\<lambda>i. (i, 1)) ids) = int (length ids)"
  by (induction ids) (simp_all add: total_shares_def)

lemma base_shares_ok:
  assumes "distinct ids" "0 < pool" "pool < 2 ^ 43"
  shows "shares_ok (base_shares pool ids) \<and> total_shares (base_shares pool ids) + pool_remainder pool ids = pool \<and>
     0 \<le> pool_remainder pool ids \<and> pool_remainder pool ids \<le> pool \<and>
     share_of (base_shares pool ids) = (\<lambda>i. if pool \<ge> int (length ids) \<and> i \<in> set ids then 1 else 0) \<and>
     fst ` set (base_shares pool ids) \<subseteq> set ids"
proof (cases "pool \<ge> int (length ids)")
  case True
  have "distinct (map fst (map (\<lambda>i. (i, 1 :: int)) ids))" using assms(1) by (simp add: comp_def)
  then show ?thesis using True assms
    by (auto simp: base_shares_def pool_remainder_def shares_ok_def total_shares_const share_of_const fun_eq_iff)
next
  case False
  then show ?thesis using assms
    by (simp add: base_shares_def pool_remainder_def shares_ok_def total_shares_def share_of_def [abs_def])
qed

lemma weight_share:
  assumes "registry_ok r" "0 \<le> R" "R < 2 ^ 43" "0 < W"
  shows "go_div (i64 (R * pick_weight r i)) W = R * pick_weight r i div W \<and> 0 \<le> R * pick_weight r i div W"
proof -
  have w: "0 < pick_weight r i" "pick_weight r i \<le> 2 ^ 20"
    using pick_weight_pos pick_weight_le [OF assms(1), of i] by (simp_all add: ScoreScale_def)
  have "R * pick_weight r i \<le> R * 2 ^ 20" using assms(2) w(2) by (intro mult_left_mono)
  also have "\<dots> < 2 ^ 63" using assms(3) by simp
  finally have lt: "R * pick_weight r i < 2 ^ 63" .
  have nn: "0 \<le> R * pick_weight r i" using assms(2) w(1) by simp
  then have "in_i64 (R * pick_weight r i)" using lt by (simp add: in_i64_def)
  then show ?thesis using nn lt assms(4) by (simp add: go_div_nonneg pos_imp_zdiv_nonneg_iff)
qed

text \<open>Sharing out the remainder \<open>R\<close> on top of the base shares gives away exactly \<open>R\<close>.\<close>

lemma remainder_shared:
  assumes "registry_ok r" "distinct ids" "ids \<noteq> []" "W = sum_list (map (pick_weight r) ids)" "0 < W"
    and "shares_ok base" "total_shares base + R = pool" "0 \<le> R" "R \<le> pool" "pool < 2 ^ 43" "fst ` set base \<subseteq> set ids"
    and acc: "acc = foldl (share_step R (pick_weight r) W) (base, 0) ids"
    and sh: "sh = (if snd acc < R then add_share (fst acc) (hd ids) (i64 (R - snd acc)) else fst acc)"
  shows "shares_ok sh \<and> total_shares sh = pool \<and> fst ` set sh = set ids \<and>
     (\<forall>i \<in> set ids. share_of base i + R * pick_weight r i div W \<le> share_of sh i)"
proof -
  define s where "s i = R * pick_weight r i div W" for i
  let ?S = "sum_list (map s ids)"
  have s: "go_div (i64 (R * pick_weight r i)) W = s i" "0 \<le> s i" for i
    using weight_share [OF assms(1,8) _ assms(5), of i] assms(9,10) by (simp_all add: s_def)
  have S: "?S \<le> R" unfolding s_def by (rule proportional_le [OF assms(5,4)])
  have S0: "0 \<le> ?S" by (rule sum_list_nonneg) (auto simp: s(2))
  obtain sh1 where h: "acc = (sh1, 0 + ?S)" "shares_ok sh1" "total_shares sh1 = total_shares base + ?S"
    "share_of sh1 = (\<lambda>i. share_of base i + (if i \<in> set ids then s i else 0))" "fst ` set sh1 = set ids \<union> fst ` set base"
    unfolding acc using share_fold [of base ids s 0 R "pick_weight r" W] assms S s by auto
  have keys: "fst ` set sh1 = set ids" using h(5) assms(11) by blast
  have lo: "share_of base i + s i \<le> share_of sh1 i" if "i \<in> set ids" for i using that by (simp add: h(4))
  show ?thesis
  proof (cases "?S < R")
    case True
    have "i64 (R - ?S) = R - ?S" using S S0 assms(9,10) by (intro i64_id) (simp add: in_i64_def)
    then have eq: "sh = add_share sh1 (hd ids) (R - ?S)" using True unfolding sh h(1) by simp
    have "shares_ok sh \<and> total_shares sh = pool \<and>
       share_of sh = (share_of sh1)(hd ids := share_of sh1 (hd ids) + (R - ?S)) \<and> fst ` set sh = set ids"
      unfolding eq using add_share_ok [OF h(2), of "R - ?S" "hd ids"] S assms(3,7,10) h(3) keys by (simp add: insert_absorb)
    moreover from this have "share_of base i + s i \<le> share_of sh i" if "i \<in> set ids" for i
      using lo [OF that] S by (cases "i = hd ids") simp_all
    ultimately show ?thesis unfolding s_def by blast
  next
    case False
    then have "sh = sh1" unfolding sh h(1) by simp
    then show ?thesis using h(2,3) keys lo S False assms(7) unfolding s_def by simp
  qed
qed

lemma distributePool_shares:
  assumes "registry_ok r" "wf_map votes" "0 < pool" "pool < 2 ^ 43" "yes_voters votes \<noteq> []" "length votes < 2 ^ 40"
  shows "let sh = distributePool r pool votes; ids = yes_voters votes;
        W = sum_list (map (pick_weight r) ids); R = pool_remainder pool ids
     in shares_ok sh \<and> total_shares sh = pool \<and> fst ` set sh = set ids \<and>
        (\<forall>i \<in> set ids. (if pool \<ge> int (length ids) then 1 else 0) + R * pick_weight r i div W \<le> share_of sh i)"
proof -
  define ids where "ids = yes_voters votes"
  define W where "W = sum_list (map (pick_weight r) ids)"
  define R where "R = pool_remainder pool ids"
  let ?base = "base_shares pool ids"
  let ?acc = "foldl (share_step R (pick_weight r) W) (?base, 0) ids"
  have d: "distinct ids" using assms(2) unfolding ids_def yes_voters_def by (simp add: distinct_map_filter)
  have ne: "ids \<noteq> []" using assms(5) by (simp add: ids_def)
  have "length ids \<le> length votes" by (simp add: ids_def yes_voters_def)
  then have len: "length ids < 2 ^ 40" using assms(6) by linarith
  have W: "pool_weights r ids = (pick_weight r, W)" "0 < W"
    using pool_weights_eq [OF assms(1) ne len] by (simp_all add: W_def)
  have b: "shares_ok ?base" "total_shares ?base + R = pool" "0 \<le> R" "R \<le> pool"
    "share_of ?base = (\<lambda>i. if pool \<ge> int (length ids) \<and> i \<in> set ids then 1 else 0)" "fst ` set ?base \<subseteq> set ids"
    using base_shares_ok [OF d assms(3,4)] by (simp_all add: R_def)
  have dp: "distributePool r pool votes =
     (if R \<le> 0 then ?base
      else if snd ?acc < R then add_share (fst ?acc) (hd ids) (i64 (R - snd ?acc)) else fst ?acc)"
    using assms(3) ne unfolding distributePool_def Let_def ids_def [symmetric] W(1) R_def by simp
  note names = ids_def [symmetric] R_def [symmetric] W_def [symmetric]
  show ?thesis
  proof (cases "R \<le> 0")
    case True
    then have "R = 0" using b(3) by simp
    then have "?base = map (\<lambda>i. (i, 1)) ids"
      using assms(3) by (auto simp: R_def pool_remainder_def base_shares_def split: if_splits)
    then show ?thesis unfolding dp Let_def names using True b \<open>R = 0\<close> by (simp add: image_image)
  next
    case False
    have "shares_ok (distributePool r pool votes) \<and> total_shares (distributePool r pool votes) = pool \<and>
       fst ` set (distributePool r pool votes) = set ids \<and>
       (\<forall>i \<in> set ids. share_of ?base i + R * pick_weight r i div W \<le> share_of (distributePool r pool votes) i)"
      by (rule remainder_shared [OF assms(1) d ne W_def W(2) b(1-4) assms(4) b(6) refl]) (use False dp in simp)
    then show ?thesis unfolding Let_def names by (simp add: b(5))
  qed
qed

lemma distributePool_bounds:
  assumes "registry_ok r" "0 \<le> pool" "pool < 2 ^ 43" "wf_map votes" "yes_voters votes \<noteq> []" "length votes < 2 ^ 40"
  shows "total_shares (distributePool r pool votes) = pool \<and>
      fst ` set (distributePool r pool votes) \<subseteq> set (yes_voters votes) \<and>
      (pool \<ge> int (length (yes_voters votes)) \<longrightarrow> (\<forall>i \<in> set (yes_voters votes). 1 \<le> share_of (distributePool r pool votes) i))"
proof (cases "pool = 0")
  case True
  then have "distributePool r pool votes = []" by (simp add: distributePool_def Let_def)
  moreover have "\<not> pool \<ge> int (length (yes_voters votes))" using True assms(5) by (cases "yes_voters votes") simp_all
  ultimately show ?thesis using True by (simp add: total_shares_def)
next
  case False
  then have pos: "0 < pool" using assms(2) by simp
  let ?ids = "yes_voters votes" and ?sh = "distributePool r pool votes"
  let ?W = "sum_list (map (pick_weight r) ?ids)" and ?R = "pool_remainder pool ?ids"
  have d: "total_shares ?sh = pool" "fst ` set ?sh = set ?ids"
    "\<forall>i \<in> set ?ids. (if pool \<ge> int (length ?ids) then 1 else 0) + ?R * pick_weight r i div ?W \<le> share_of ?sh i"
    using distributePool_shares [OF assms(1,4) pos assms(3,5,6), unfolded Let_def] by blast+
  have "0 \<le> ?W" by (rule sum_list_nonneg) (auto intro: less_imp_le pick_weight_pos)
  then have nn: "0 \<le> ?R * pick_weight r i div ?W" for i
    using pos pick_weight_pos [of r i] by (intro div_int_pos_iff [THEN iffD2]) (auto simp: pool_remainder_def)
  have "1 \<le> share_of ?sh i" if "pool \<ge> int (length ?ids)" "i \<in> set ?ids" for i
  proof -
    have "1 + ?R * pick_weight r i div ?W \<le> share_of ?sh i" using d(3) that by (simp only: if_True simp_thms)
    then show ?thesis using nn [of i] by linarith
  qed
  then show ?thesis using d(1,2) by blast
qed

lemma ApplyBlock_totals:
  assumes "config_ok (dist_config d)" "0 \<le> TotalBurned d" "0 \<le> TotalTreasury d" "0 < fees"
    "TotalBurned d + TotalTreasury d + fees < 2 ^ 53"
  shows "let d' = snd (ApplyBlock d fees) in dist_config d' = dist_config d \<and> 0 \<le> TotalBurned d' \<and> 0 \<le> TotalTreasury d' \<and>
     TotalBurned d' + TotalTreasury d' \<le> TotalBurned d + TotalTreasury d + fees"
proof -
  let ?r = "SplitBlockFees (dist_config d) fees" and ?s = "pct_sum (dist_config d)"
  have "fees < 2 ^ 53" using assms(2,3,5) by linarith
  note parts = SplitBlockFees_parts [OF assms(1,4) this, unfolded Let_def]
  have q: "0 \<le> fees * p div ?s" if "0 \<le> p" for p
    using that pct_sum_bounds [OF assms(1)] assms(4) by (simp add: pos_imp_zdiv_nonneg_iff)
  have c: "0 \<le> BurnPct (dist_config d)" "0 \<le> TreasuryPct (dist_config d)" "0 \<le> L1Pct (dist_config d)" "0 \<le> L2Pct (dist_config d)"
    using assms(1) by (simp_all add: config_ok_def)
  have b: "0 \<le> Burn ?r" "0 \<le> L1Pool ?r" "0 \<le> L2Pool ?r" using parts q c by simp_all
  have t: "0 \<le> Treasury ?r" using parts q [OF c(2)] by linarith
  have sum: "Burn ?r + Treasury ?r \<le> fees" using parts b by linarith
  have "i64 (TotalBurned d + Burn ?r) = TotalBurned d + Burn ?r" "i64 (TotalTreasury d + Treasury ?r) = TotalTreasury d + Treasury ?r"
    using assms(2,3,5) b(1) t sum by (simp_all add: in_i64_def)
  then show ?thesis using assms(2,3) b t sum by (simp add: ApplyBlock_def Let_def)
qed

definition applied_totals :: "Distributor \<Rightarrow> BlockRecord list \<Rightarrow> Distributor" where
  "applied_totals d hist = foldl (\<lambda>d b. if bTotalFees b > 0 then snd (ApplyBlock d (bTotalFees b)) else d) d hist"

definition history_fees :: "BlockRecord list \<Rightarrow> int" where
  "history_fees hist = sum_list (map (\<lambda>b. max 0 (bTotalFees b)) hist)"

text \<open>A restart rebuilds the totals: the fold over the history is what applying block by block gives.\<close>

lemma rebuild_fold:
  "foldl (rebuild_step c) (TotalBurned d, TotalTreasury d) hist =
     (TotalBurned (applied_totals d hist), TotalTreasury (applied_totals d hist))" if "dist_config d = c"
  using that unfolding applied_totals_def
proof (induction hist arbitrary: d)
  case (Cons b hist)
  let ?d = "if bTotalFees b > 0 then snd (ApplyBlock d (bTotalFees b)) else d"
  have "rebuild_step c (TotalBurned d, TotalTreasury d) b = (TotalBurned ?d, TotalTreasury ?d)"
    using Cons.prems by (simp add: rebuild_step_def ApplyBlock_def Let_def)
  moreover have "dist_config ?d = c" using Cons.prems by (simp add: ApplyBlock_def Let_def)
  ultimately show ?case using Cons.IH [of ?d] by (simp only: foldl_Cons)
qed simp

lemma applied_totals_nonneg:
  assumes "config_ok (dist_config d)" "0 \<le> TotalBurned d" "0 \<le> TotalTreasury d" "TotalBurned d + TotalTreasury d + history_fees hist < 2 ^ 53"
  shows "0 \<le> TotalBurned (applied_totals d hist) \<and> 0 \<le> TotalTreasury (applied_totals d hist) \<and>
     dist_config (applied_totals d hist) = dist_config d"
  using assms
proof (induction hist arbitrary: d)
  case (Cons b hist)
  have rest: "0 \<le> history_fees hist" unfolding history_fees_def by (rule sum_list_nonneg) auto
  show ?case
  proof (cases "0 < bTotalFees b")
    case True
    let ?d = "snd (ApplyBlock d (bTotalFees b))"
    have fees: "history_fees (b # hist) = bTotalFees b + history_fees hist" using True by (simp add: history_fees_def)
    then have "TotalBurned d + TotalTreasury d + bTotalFees b < 2 ^ 53" using Cons.prems(4) rest by linarith
    from ApplyBlock_totals [OF Cons.prems(1-3) True this, unfolded Let_def]
    have "dist_config ?d = dist_config d" "0 \<le> TotalBurned ?d" "0 \<le> TotalTreasury ?d"
      "TotalBurned ?d + TotalTreasury ?d + history_fees hist < 2 ^ 53" using Cons.prems(4) fees by simp_all
    with Cons.IH [of ?d] Cons.prems(1) True show ?thesis by (simp add: applied_totals_def)
  next
    case False
    then have "history_fees (b # hist) = history_fees hist" by (simp add: history_fees_def)
    with Cons.IH [of d] Cons.prems False show ?thesis by (simp add: applied_totals_def)
  qed
qed (simp add: applied_totals_def)

subsection \<open>Properties\<close>

text \<open>
  Remark: the fee split neither creates nor loses fees: whatever the configuration, overflow included, the four
  parts add up to the fees modulo \<open>2 ^ 64\<close>.
\<close>

theorem SplitBlockFees_conserves:
  assumes "0 < fees" "fees < 2 ^ 63"
  shows "let r = SplitBlockFees c fees in i64 (Burn r + Treasury r + L1Pool r + L2Pool r) = fees"
proof -
  define b t u v where "b = go_div (i64 (fees * BurnPct c)) (pct_sum c)" and "t = go_div (i64 (fees * TreasuryPct c)) (pct_sum c)"
    and "u = go_div (i64 (fees * L1Pct c)) (pct_sum c)" and "v = go_div (i64 (fees * L2Pct c)) (pct_sum c)"
  have r: "SplitBlockFees c fees = \<lparr>Burn = b, Treasury = i64 (t + i64 (fees - b - t - u - v)), L1Pool = u, L2Pool = v\<rparr>"
    using assms(1) by (simp add: SplitBlockFees_def Let_def b_def t_def u_def v_def)
  have "i64 (b + i64 (t + i64 (fees - b - t - u - v)) + u + v) = i64 (i64 (t + i64 (fees - b - t - u - v)) + (b + u + v))"
    by (simp add: algebra_simps)
  also have "\<dots> = i64 (t + i64 (fees - b - t - u - v) + (b + u + v))" by (rule i64_add_left)
  also have "\<dots> = i64 (i64 (fees - b - t - u - v) + (t + (b + u + v)))" by (simp add: algebra_simps)
  also have "\<dots> = i64 (fees - b - t - u - v + (t + (b + u + v)))" by (rule i64_add_left)
  also have "\<dots> = i64 fees" by simp
  finally show ?thesis unfolding r Let_def using assms by (simp add: in_i64_def)
qed

theorem SplitBlockFees_conserves_witness:
  "let r = SplitBlockFees DefaultConfig 1001 in i64 (Burn r + Treasury r + L1Pool r + L2Pool r) = 1001"
  by (rule SplitBlockFees_conserves) simp_all

lemma distributePool_wf:
  assumes "wf_map votes"
  shows "wf_map (distributePool r pool votes)"
proof -
  have base: "wf_map (base_shares p (yes_voters votes))" for p
    using assms distinct_map_filter [of fst votes snd] by (simp add: base_shares_def yes_voters_def comp_def)
  have "wf_map sh \<Longrightarrow> wf_map (fst (foldl (share_step rem w W) (sh, n) ids))" for sh n rem w W ids
    by (induction ids arbitrary: sh n) (simp_all add: share_step_def add_share_def Let_def)
  with base show ?thesis by (simp add: distributePool_def add_share_def Let_def)
qed

definition earned :: "shares \<Rightarrow> string \<Rightarrow> int \<Rightarrow> int" where
  "earned sh i x = (case map_of sh i of None \<Rightarrow> x | Some y \<Rightarrow> i64 (x + y))"

lemma earned_simps:
  "earned [] i y = y" "earned (p # sh) i y = (if i = fst p then i64 (y + snd p) else earned sh i y)"
  "i \<notin> fst ` set sh \<Longrightarrow> earned sh i y = y"
  by (simp_all add: earned_def map_of_eq_None_iff [THEN iffD2])

lemma earn_fold:
  assumes "wf_map sh"
  shows "foldl earn_l1 e sh i = (earned sh i (fst (e i)), snd (e i))" "foldl earn_l2 e sh i = (fst (e i), earned sh i (snd (e i)))"
proof -
  show "foldl earn_l1 e sh i = (earned sh i (fst (e i)), snd (e i))"
    using assms by (induction sh arbitrary: e) (auto simp: earned_simps earn_l1_def)
  show "foldl earn_l2 e sh i = (fst (e i), earned sh i (snd (e i)))"
    using assms by (induction sh arbitrary: e) (auto simp: earned_simps earn_l2_def)
qed

lemma operator_reward_frame [simp]:
  "rw_distributor (applyOperatorBlockReward nd st b loadPct l1 l2) = rw_distributor st"
  "allNodeEarnings (applyOperatorBlockReward nd st b loadPct l1 l2) = allNodeEarnings st"
  "rw_registry (applyOperatorBlockReward nd st b loadPct l1 l2) = rw_registry st"
  by (simp_all add: applyOperatorBlockReward_def Let_def split_beta)

lemma record_frame [simp]:
  "rw_distributor (recordEarnings nd st l1 l2) = rw_distributor st"
  by (simp add: recordEarnings_def)

text \<open>
  C38: a block's fees are distributed to the last unit. For fees below \<open>2 ^ 43\<close> and fewer than \<open>2 ^ 40\<close> votes per layer, with percentages that are not negative and
  add up to less than \<open>2 ^ 10\<close>, scores of the registry in range, and YES voters in both layers: burn,
  treasury and the shares of the L1 and L2 voters add up to the fees of the block; only YES voters get a
  share, each at least 1 when its pool has one unit per voter; and the distributor's totals grow by burn
  and treasury and every node's recorded earnings by its shares (as \<open>int64\<close>), nobody else's.
\<close>

theorem block_fees_fully_distributed:
  assumes "registry_ok (rw_registry st)" "config_ok (dist_config (rw_distributor st))" "0 < fees" "fees < 2 ^ 43"
    and "wf_map l1Votes" "wf_map l2Votes" "yes_voters l1Votes \<noteq> []" "yes_voters l2Votes \<noteq> []"
    and "length l1Votes < 2 ^ 40" "length l2Votes < 2 ^ 40"
    and "distribute_block_fees nd st fees b loadPct l1Votes l2Votes = ((l1, l2), st')"
  shows "let r = SplitBlockFees (dist_config (rw_distributor st)) fees; d = rw_distributor st
     in (Burn r + Treasury r + total_shares l1 + total_shares l2 = fees \<and>
        fst ` set l1 \<subseteq> set (yes_voters l1Votes) \<and> fst ` set l2 \<subseteq> set (yes_voters l2Votes) \<and>
        (L1Pool r \<ge> int (length (yes_voters l1Votes)) \<longrightarrow> (\<forall>i \<in> set (yes_voters l1Votes). 1 \<le> share_of l1 i)) \<and>
        (L2Pool r \<ge> int (length (yes_voters l2Votes)) \<longrightarrow> (\<forall>i \<in> set (yes_voters l2Votes). 1 \<le> share_of l2 i))) \<and>
        rw_distributor st' = d\<lparr>TotalBurned := i64 (TotalBurned d + Burn r), TotalTreasury := i64 (TotalTreasury d + Treasury r)\<rparr> \<and>
        (\<forall>i. allNodeEarnings st' i =
           ((case map_of l1 i of None \<Rightarrow> fst (allNodeEarnings st i) | Some x \<Rightarrow> i64 (fst (allNodeEarnings st i) + x)),
            (case map_of l2 i of None \<Rightarrow> snd (allNodeEarnings st i) | Some x \<Rightarrow> i64 (snd (allNodeEarnings st i) + x))))"
proof -
  define r where "r = SplitBlockFees (dist_config (rw_distributor st)) fees"
  note parts = SplitBlockFees_parts [OF assms(2,3), unfolded Let_def r_def [symmetric]]
  note ps = pct_sum_bounds [OF assms(2)]
  have c: "0 \<le> BurnPct (dist_config (rw_distributor st))" "0 \<le> TreasuryPct (dist_config (rw_distributor st))"
    "0 \<le> L1Pct (dist_config (rw_distributor st))" "0 \<le> L2Pct (dist_config (rw_distributor st))"
    using assms(2) by (simp_all add: config_ok_def)
  have nn: "0 \<le> Burn r" "0 \<le> L1Pool r" "0 \<le> L2Pool r" "0 \<le> Treasury r" "Treasury r = fees - Burn r - L1Pool r - L2Pool r"
  proof -
    have q: "0 \<le> fees * p div pct_sum (dist_config (rw_distributor st))" if "0 \<le> p" for p
      using that ps assms(3) by (simp add: pos_imp_zdiv_nonneg_iff)
    show "0 \<le> Burn r" "0 \<le> L1Pool r" "0 \<le> L2Pool r" "0 \<le> Treasury r" "Treasury r = fees - Burn r - L1Pool r - L2Pool r"
      using parts assms(4) q [OF c(1)] q [OF c(2)] q [OF c(3)] q [OF c(4)] by auto
  qed
  have l: "l1 = distributePool (rw_registry st) (L1Pool r) l1Votes" "l2 = distributePool (rw_registry st) (L2Pool r) l2Votes"
    using assms(3,11) by (auto simp: distribute_block_fees_def ApplyBlock_def Let_def r_def)
  have pool: "total_shares (distributePool (rw_registry st) pool votes) = pool \<and>
      fst ` set (distributePool (rw_registry st) pool votes) \<subseteq> set (yes_voters votes) \<and>
      (pool \<ge> int (length (yes_voters votes)) \<longrightarrow> (\<forall>i \<in> set (yes_voters votes). 1 \<le> share_of (distributePool (rw_registry st) pool votes) i))"
    if "0 \<le> pool" "pool < 2 ^ 43" "wf_map votes" "yes_voters votes \<noteq> []" "length votes < 2 ^ 40" for pool votes
    by (rule distributePool_bounds [OF assms(1) that])
  have st': "st' = applyOperatorBlockReward nd (recordEarnings nd (st\<lparr>rw_distributor := snd (ApplyBlock (rw_distributor st) fees)\<rparr>) l1 l2) b loadPct l1 l2"
    using assms(3,11) unfolding l by (auto simp: distribute_block_fees_def ApplyBlock_def Let_def r_def)
  have wf: "wf_map l1" "wf_map l2" unfolding l by (rule distributePool_wf, rule assms(5), rule distributePool_wf, rule assms(6))
  have "allNodeEarnings st' i = (earned l1 i (fst (allNodeEarnings st i)), earned l2 i (snd (allNodeEarnings st i)))" for i
    unfolding st' by (simp add: recordEarnings_def earn_fold wf)
  moreover have "rw_distributor st' = snd (ApplyBlock (rw_distributor st) fees)" by (simp add: st')
  moreover have "Burn r + Treasury r + total_shares l1 + total_shares l2 = fees \<and>
      fst ` set l1 \<subseteq> set (yes_voters l1Votes) \<and> fst ` set l2 \<subseteq> set (yes_voters l2Votes) \<and>
      (L1Pool r \<ge> int (length (yes_voters l1Votes)) \<longrightarrow> (\<forall>i \<in> set (yes_voters l1Votes). 1 \<le> share_of l1 i)) \<and>
      (L2Pool r \<ge> int (length (yes_voters l2Votes)) \<longrightarrow> (\<forall>i \<in> set (yes_voters l2Votes). 1 \<le> share_of l2 i))"
    unfolding l using pool [OF nn(2) _ assms(5,7,9)] pool [OF nn(3) _ assms(6,8,10)] nn assms(4) by simp
  ultimately show ?thesis
    unfolding r_def [symmetric] Let_def earned_def by (simp add: ApplyBlock_def Let_def r_def [symmetric])
qed

definition reward_st0 :: reward_state where
  "reward_st0 = \<lparr>rw_registry = [], rw_distributor = \<lparr>dist_config = DefaultConfig, TotalBurned = 0, TotalTreasury = 0\<rparr>,
     allNodeEarnings = (\<lambda>i. (0, 0)), nodeEarnedL1 = 0, nodeEarnedFees = 0, operatorRewardedBlock = [], ledger_calls = []\<rparr>"

definition reward_nd0 :: reward_node where
  "reward_nd0 = \<lparr>rw_nodeID = ''a'', operatorWallet = ''Px1'', ledger_present = True\<rparr>"

definition two_votes :: "(string \<times> bool) list" where
  "two_votes = [(''a'', True), (''b'', True)]"

theorem block_fees_fully_distributed_witness:
  "\<exists>l1 l2 st'. distribute_block_fees reward_nd0 reward_st0 1001 5 0 two_votes two_votes = ((l1, l2), st') \<and>
     (let r = SplitBlockFees DefaultConfig 1001 in Burn r + Treasury r + total_shares l1 + total_shares l2 = 1001)"
proof -
  obtain l1 l2 st' where d: "distribute_block_fees reward_nd0 reward_st0 1001 5 0 two_votes two_votes = ((l1, l2), st')"
    by (metis surj_pair)
  have "Burn (SplitBlockFees DefaultConfig 1001) + Treasury (SplitBlockFees DefaultConfig 1001) + total_shares l1 + total_shares l2 = 1001"
    using block_fees_fully_distributed [OF _ _ _ _ _ _ _ _ _ _ d, unfolded Let_def]
    by (simp add: reward_st0_def registry_ok_def config_ok_def DefaultConfig_def two_votes_def yes_voters_def)
  with d show ?thesis by (metis (no_types))
qed

lemma rebuild_applied:
  assumes "config_ok (dist_config d)" "TotalBurned d = 0" "TotalTreasury d = 0" "history_fees hist < 2 ^ 53"
  shows "rebuildDistributorTotalsFromChain d hist = applied_totals d hist"
proof -
  let ?d = "applied_totals d hist"
  have f: "foldl (rebuild_step (dist_config d)) (0, 0) hist = (TotalBurned ?d, TotalTreasury ?d)"
    using rebuild_fold [OF refl, of d hist] assms(2,3) by simp
  have nn: "0 \<le> TotalBurned ?d" "0 \<le> TotalTreasury ?d" "dist_config ?d = dist_config d"
    using applied_totals_nonneg [OF assms(1), of hist] assms(2-4) by simp_all
  have "rebuildDistributorTotalsFromChain d hist = d\<lparr>TotalBurned := TotalBurned ?d, TotalTreasury := TotalTreasury ?d\<rparr>"
    unfolding rebuildDistributorTotalsFromChain_def f Let_def SetTotals_def
    using nn assms(2,3) by (cases d) auto
  also have "\<dots> = ?d" using nn(3) by (cases ?d; cases d) simp
  finally show ?thesis .
qed

text \<open>How the fees of a block reach a node: it confirms the block itself and distributes them, or the node that
  confirmed it reports the distribution, with the burn and treasury of the same split, when there are fees.\<close>

datatype fee_event =
    OwnBlock BlockRecord u64 int "(string \<times> bool) list" "(string \<times> bool) list"
  | PeerBlock BlockRecord shares shares u64 int

fun fee_block :: "fee_event \<Rightarrow> BlockRecord" where
  "fee_block (OwnBlock blk b loadPct l1Votes l2Votes) = blk"
| "fee_block (PeerBlock blk l1 l2 b loadPct) = blk"

fun fee_step :: "reward_node \<Rightarrow> reward_state \<Rightarrow> fee_event \<Rightarrow> reward_state" where
  "fee_step nd st (OwnBlock blk b loadPct l1Votes l2Votes) =
     snd (distribute_block_fees nd st (bTotalFees blk) b loadPct l1Votes l2Votes)"
| "fee_step nd st (PeerBlock blk l1 l2 b loadPct) =
     (if bTotalFees blk > 0
      then let r = SplitBlockFees (dist_config (rw_distributor st)) (bTotalFees blk)
           in onFeeDistribution nd st l1 l2 (Burn r) (Treasury r) b loadPct
      else st)"

lemma split_nonneg:
  assumes "config_ok c" "0 < fees" "fees < 2 ^ 53"
  shows "0 \<le> Burn (SplitBlockFees c fees)" "0 \<le> Treasury (SplitBlockFees c fees)"
proof -
  note parts = SplitBlockFees_parts [OF assms, unfolded Let_def]
  have q: "0 \<le> fees * p div pct_sum c" if "0 \<le> p" for p
    using that pct_sum_bounds [OF assms(1)] assms(2) by (simp add: pos_imp_zdiv_nonneg_iff)
  have "0 \<le> BurnPct c" "0 \<le> TreasuryPct c" using assms(1) by (simp_all add: config_ok_def)
  then show "0 \<le> Burn (SplitBlockFees c fees)" "0 \<le> Treasury (SplitBlockFees c fees)"
    using parts q [of "BurnPct c"] q [of "TreasuryPct c"] by auto
qed

lemma ApplyBlock_Add:
  "snd (ApplyBlock d fees) = AddBurnTreasury d (Burn (SplitBlockFees (dist_config d) fees)) (Treasury (SplitBlockFees (dist_config d) fees))"
  by (simp add: ApplyBlock_def AddBurnTreasury_def Let_def)

lemma AddBurnTreasury_zero: "in_i64 (TotalBurned d) \<Longrightarrow> in_i64 (TotalTreasury d) \<Longrightarrow> AddBurnTreasury d 0 0 = d"
  by (simp add: AddBurnTreasury_def)

lemma own_distributor:
  "rw_distributor (snd (distribute_block_fees nd st fees b loadPct v1 v2)) = (if fees > 0 then snd (ApplyBlock (rw_distributor st) fees) else rw_distributor st)"
  by (simp add: distribute_block_fees_def Let_def split_beta)

lemma peer_distributor:
  "rw_distributor (onFeeDistribution nd st l1 l2 x y b loadPct) =
     (if x > 0 \<or> y > 0 then AddBurnTreasury (rw_distributor st) x y else rw_distributor st)"
  by (simp add: onFeeDistribution_def Let_def)

lemma fee_step_totals:
  assumes "config_ok (dist_config (rw_distributor st))" "0 \<le> TotalBurned (rw_distributor st)" "0 \<le> TotalTreasury (rw_distributor st)"
    and "TotalBurned (rw_distributor st) + TotalTreasury (rw_distributor st) + max 0 (bTotalFees (fee_block ev)) < 2 ^ 53"
  shows "rw_distributor (fee_step nd st ev) = applied_totals (rw_distributor st) [fee_block ev]"
proof (cases ev)
  case (OwnBlock blk b loadPct l1Votes l2Votes)
  show ?thesis unfolding OwnBlock fee_step.simps own_distributor applied_totals_def by simp
next
  case (PeerBlock blk l1 l2 b loadPct)
  show ?thesis
  proof (cases "bTotalFees blk > 0")
    case True
    let ?d = "rw_distributor st"
    let ?r = "SplitBlockFees (dist_config ?d) (bTotalFees blk)"
    have lt: "bTotalFees blk < 2 ^ 53" "TotalBurned ?d < 2 ^ 53" "TotalTreasury ?d < 2 ^ 53"
      using assms(2-4) True unfolding PeerBlock fee_block.simps by linarith+
    then have i: "in_i64 (TotalBurned ?d)" "in_i64 (TotalTreasury ?d)" using assms(2,3) unfolding in_i64_def by simp_all
    have "\<not> (Burn ?r > 0 \<or> Treasury ?r > 0) \<Longrightarrow> Burn ?r = 0 \<and> Treasury ?r = 0" using split_nonneg [OF assms(1) True lt(1)] by linarith
    then have "(if Burn ?r > 0 \<or> Treasury ?r > 0 then AddBurnTreasury ?d (Burn ?r) (Treasury ?r) else ?d) = AddBurnTreasury ?d (Burn ?r) (Treasury ?r)"
      using AddBurnTreasury_zero [OF i] by auto
    then have "rw_distributor (fee_step nd st ev) = AddBurnTreasury ?d (Burn ?r) (Treasury ?r)"
      using True unfolding PeerBlock fee_step.simps Let_def by (simp only: if_True peer_distributor)
    also have "\<dots> = applied_totals ?d [blk]" unfolding ApplyBlock_Add [symmetric] applied_totals_def using True by simp
    finally show ?thesis unfolding PeerBlock fee_block.simps .
  qed (simp add: PeerBlock applied_totals_def)
qed

lemma fee_run_totals:
  assumes "config_ok (dist_config (rw_distributor st))" "0 \<le> TotalBurned (rw_distributor st)" "0 \<le> TotalTreasury (rw_distributor st)"
    and "TotalBurned (rw_distributor st) + TotalTreasury (rw_distributor st) + history_fees (map fee_block es) < 2 ^ 53"
  shows "rw_distributor (foldl (fee_step nd) st es) = applied_totals (rw_distributor st) (map fee_block es)"
  using assms
proof (induction es arbitrary: st)
  case (Cons ev es)
  let ?b = "fee_block ev" and ?d = "rw_distributor st" and ?st = "fee_step nd st ev"
  have rest: "0 \<le> history_fees (map fee_block es)" unfolding history_fees_def by (rule sum_list_nonneg) auto
  have h: "history_fees (map fee_block (ev # es)) = max 0 (bTotalFees ?b) + history_fees (map fee_block es)" by (simp add: history_fees_def)
  then have d: "rw_distributor ?st = applied_totals ?d [?b]" using Cons.prems rest by (intro fee_step_totals) simp_all
  have "dist_config (rw_distributor ?st) = dist_config ?d \<and> 0 \<le> TotalBurned (rw_distributor ?st) \<and> 0 \<le> TotalTreasury (rw_distributor ?st) \<and>
      TotalBurned (rw_distributor ?st) + TotalTreasury (rw_distributor ?st) \<le> TotalBurned ?d + TotalTreasury ?d + max 0 (bTotalFees ?b)"
  proof (cases "0 < bTotalFees ?b")
    case True
    have "TotalBurned ?d + TotalTreasury ?d + bTotalFees ?b < 2 ^ 53" using Cons.prems(4) h rest by simp
    from ApplyBlock_totals [OF Cons.prems(1-3) True this] show ?thesis using True by (simp add: d applied_totals_def Let_def)
  qed (use Cons.prems in \<open>simp add: d applied_totals_def\<close>)
  then have "rw_distributor (foldl (fee_step nd) ?st es) = applied_totals (rw_distributor ?st) (map fee_block es)"
    using Cons.prems(1,4) h by (intro Cons.IH) auto
  then show ?case unfolding d by (simp add: applied_totals_def)
qed (simp add: applied_totals_def)

text \<open>
  C39: the totals of a node can be rebuilt from its blocks. Start a node with totals of zero and let it learn
  the fees of every block of a history in order, each either because it confirms the block and distributes the
  fees itself or because the confirming node, with the same configuration, reports its distribution; with
  percentages that are not negative and add up to less than \<open>2 ^ 10\<close> and positive fees that add up to less
  than \<open>2 ^ 53\<close>. Then the burn and treasury totals that \<open>rebuildDistributorTotalsFromChain\<close> computes from that history are the
  totals the node has accumulated. (The history must carry its fees: the blocks read back from RocksDB have
  \<open>TotalFees\<close> 0, so rebuilding from those gives no totals.)
\<close>

theorem rebuilt_totals_match:
  assumes "config_ok (dist_config (rw_distributor st))" "TotalBurned (rw_distributor st) = 0" "TotalTreasury (rw_distributor st) = 0"
    and "map fee_block es = hist" "history_fees hist < 2 ^ 53"
  shows "rebuildDistributorTotalsFromChain (rw_distributor st) hist = rw_distributor (foldl (fee_step nd) st es)"
  using fee_run_totals [of st es nd] rebuild_applied [OF assms(1-3,5)] assms by simp

theorem rebuilt_totals_match_witness:
  "let own = block0\<lparr>bTotalFees := 1000\<rparr>; peers = block0\<lparr>bTotalFees := 50\<rparr>
   in rebuildDistributorTotalsFromChain (rw_distributor reward_st0) [own, peers] =
      rw_distributor (foldl (fee_step reward_nd0) reward_st0 [OwnBlock own 1 0 two_votes two_votes, PeerBlock peers [(''b'', 20)] [] 2 0])"
  unfolding Let_def
  by (rule rebuilt_totals_match) (simp_all add: reward_st0_def config_ok_def DefaultConfig_def history_fees_def)

text \<open>
  Remark: the validation XP lies between 10 and 30 for every load and every weight, overflow included.
\<close>

theorem ComputeValidationXP_range:
  "10 \<le> ComputeValidationXP loadPct myWeight totalWeight voterCount \<and>
   ComputeValidationXP loadPct myWeight totalWeight voterCount \<le> 30"
proof -
  have "0 \<le> loadXPBonus loadPct \<and> loadXPBonus loadPct \<le> 10" by (simp add: loadXPBonus_def Let_def)
  moreover have "0 \<le> distributionXPBonus myWeight totalWeight voterCount \<and> distributionXPBonus myWeight totalWeight voterCount \<le> 10"
    by (simp add: distributionXPBonus_def Let_def)
  ultimately show ?thesis by (simp add: ComputeValidationXP_def MinValidationXP_def Let_def)
qed

end
