(* ===== verification/Block_Production.thy ===== *)
theory Block_Production
  imports Finalize Voting L1_Validation Rewards
begin

text \<open>
  Block production (\<^verbatim>\<open>internal/handlers/handlers.go\<close>, \<^verbatim>\<open>block_logic.go\<close>, \<^verbatim>\<open>auto_block.go\<close>): the proposer prunes and
  selects transactions, validates them, holds the L1 vote and moves them to the pending block; the confirmer
  holds the L2 vote, applies the block through Core, makes it durable and distributes its fees; the background worker
  drains the mempool in rounds of the two. The theory composes the chain, the voting, the validation, the
  finalisation and the reward components.

  \<open>world\<close> collects what a run reads from outside: node ids, environment variables, the random source, Core's
  calls and the outcomes of file operations. The votes that arrive while a round is open are a list of round events;
  what other requests do to the chain during the wait is a function \<open>mid\<close>.
\<close>

record ('c, 'r) world =
  wMyId :: string
  wPeers :: "string list"
  wConnected :: "string list"
  wTestnet :: bool
  wUnsignedVotes :: string
  wDegraded :: string
  wDagOrdering :: string
  wDagP2P :: string
  wEd :: ed25519
  wRnd :: "nat \<Rightarrow> int \<Rightarrow> int"
  wL1Core :: "'c l1_core"
  wCommittee :: "committee_core option"
  wVoteCore :: "vote_core option"
  wSelect :: "('c \<Rightarrow> snapshot_entry list \<Rightarrow> string list option) option"
  wDagOrder :: "string \<Rightarrow> string list \<Rightarrow> (bool \<times> string list) option"
  wGenesis :: "string option"
  wPropose :: "string \<Rightarrow> string list \<Rightarrow> string list \<Rightarrow> string option"
  wTryCommit :: "string list \<Rightarrow> (bool \<times> string \<times> string list) option"
  wRocksBlocks :: "BlockRecord list option"
  wQuery :: "string \<Rightarrow> u64 option"
  wNow :: "string \<Rightarrow> int"
  wRm :: "string \<Rightarrow> bool"
  wEnv :: env
  wCore :: "'c core_api"
  wIO :: "'c io"
  wFinal :: "('c, 'r) final_api"
  wFinalIO :: "'c io"
  wFailPoint :: ConfirmFailPoint
  wRewardNode :: reward_node
  wDurationMs :: int

record ('c, 'r) handler =
  hNode :: "('c, 'r) node"
  hVoting :: voting
  hRewards :: reward_state
  pendingL1Beneficiary :: string

subsection \<open>Selecting transactions\<close>

definition DagP2PEnabled :: "string \<Rightarrow> bool" where
  "DagP2PEnabled v = switch_on v"

definition candidates :: "('c, 'r) world \<Rightarrow> string list" where
  "candidates w = wMyId w # wPeers w"

definition applyDagCommit :: "string \<Rightarrow> string list \<Rightarrow> 'c Blockchain \<Rightarrow> 'c Blockchain" where
  "applyDagCommit anchor digests bc = (if digests = [] then bc else SetDagCommitDigests bc anchor digests)"

definition onDagCommit :: "string \<Rightarrow> string \<Rightarrow> string list \<Rightarrow> 'c Blockchain \<Rightarrow> 'c Blockchain" where
  "onDagCommit env anchor digests bc =
     (if \<not> DagP2PEnabled env \<or> digests = [] then bc else SetDagCommitDigests bc anchor digests)"

definition maybeTryDagBatchCommit :: "('c, 'r) world \<Rightarrow> 'c Blockchain \<Rightarrow> 'c Blockchain" where
  "maybeTryDagBatchCommit w bc =
     (let committee = BuildDagCommittee (wMyId w) (wConnected w)
      in if \<not> DagP2PEnabled (wDagP2P w) \<or> wSelect w = None \<or> committee = [] then bc
         else case wTryCommit w committee of
             Some (True, anchor, digests) \<Rightarrow> applyDagCommit anchor digests bc
           | _ \<Rightarrow> bc)"

definition node_name :: "('c, 'r) world \<Rightarrow> string" where
  "node_name w = (if wMyId w = [] then ''n0'' else wMyId w)"

definition maybeProposeAndBroadcastDag :: "('c, 'r) world \<Rightarrow> Transaction list \<Rightarrow> 'c Blockchain \<Rightarrow> 'c Blockchain" where
  "maybeProposeAndBroadcastDag w txs bc =
     (let digests = map txHash (filter (\<lambda>tx. txHash tx \<noteq> [] \<and> txFrom tx \<noteq> FaucetAddress) txs)
      in if \<not> DagP2PEnabled (wDagP2P w) \<or> wSelect w = None \<or> txs = [] \<or> digests = [] then bc
         else case wGenesis w of
             None \<Rightarrow> bc
           | Some gen \<Rightarrow>
               (case wPropose w (node_name w) [gen] digests of
                  None \<Rightarrow> bc
                | Some status \<Rightarrow> (if status = ''rejected'' then bc else maybeTryDagBatchCommit w bc)))"

definition dag_reorder :: "('c, 'r) world \<Rightarrow> Transaction list \<Rightarrow> Transaction list" where
  "dag_reorder w txs =
     (if DagOrderingEnabled (wDagOrdering w) \<and> length txs \<ge> 2 \<and> \<not> list_ex (\<lambda>tx. txFrom tx = FaucetAddress) txs
      then (case wDagOrder w (node_name w) (filter (\<lambda>h. h \<noteq> []) (map txHash txs)) of
              Some (True, ds) \<Rightarrow> (if ds \<noteq> [] then PermuteByDigests ds txs txHash else txs)
            | _ \<Rightarrow> txs)
      else txs)"

text \<open>The selection is empty without a Core, without a ledger and when Core's call fails.\<close>

definition selectTxsForBlockCollect :: "('c, 'r) world \<Rightarrow> 'c Blockchain \<Rightarrow> Transaction list \<times> 'c Blockchain" where
  "selectTxsForBlockCollect w bc =
     (case wSelect w of
        None \<Rightarrow> ([], bc)
      | Some sel \<Rightarrow>
          (if \<not> ledger bc then ([], bc)
           else case sel (stateFile bc) (MempoolSnapshotJSON bc) of
               None \<Rightarrow> ([], bc)
             | Some hashes \<Rightarrow>
                 (let txs = dag_reorder w (SelectTxsByHashes bc hashes)
                  in (txs, maybeProposeAndBroadcastDag w txs bc))))"

definition pruneMempoolBeforeL1 :: "('c, 'r) world \<Rightarrow> 'c Blockchain \<Rightarrow> 'c Blockchain" where
  "pruneMempoolBeforeL1 w bc = snd (PruneMempool (wRocksBlocks w) (wQuery w) (wNow w) (wRm w) bc)"

definition state_root :: "('c, 'r) world \<Rightarrow> 'c Blockchain \<Rightarrow> string" where
  "state_root w bc =
     (if ledger bc then (case fxStateRoot (wFinal w) (stateFile bc) of Some root \<Rightarrow> root | None \<Rightarrow> []) else [])"

subsection \<open>A vote round of this node\<close>

definition run_round ::
  "('c, 'r) world \<Rightarrow> vote_layer \<Rightarrow> string \<Rightarrow> round_event list \<Rightarrow> voting \<Rightarrow> (bool \<times> vote_round) \<times> voting" where
  "run_round w layer blockId events vt =
     (let loadPct = networkLoadPct (vtRegistry vt) (candidates w);
          ids = committee_list (wCommittee w) (wRnd w) (vtRegistry vt) (wMyId w) (candidates w) loadPct blockId;
          rd0 = open_round (wMyId w) (committee_set (wMyId w) ids) blockId;
          (r, rd) = round_run (wEd w) (wUnsignedVotes w) layer (vtRegistry vt, rd0) (events @ [RoundTimeout]);
          (ok, vt') = complete_round (wVoteCore w) (wDegraded w) (wTestnet w) layer (wMyId w) (wConnected w) rd (vt\<lparr>vtRegistry := r\<rparr>)
      in ((ok, rd), vt'))"

subsection \<open>L1\<close>

datatype l1_response =
    L1NoPackable
  | L1ValidationFailed "string list"
  | L1ThresholdNotMet int nat int
  | L1Collected nat

fun l1_status :: "l1_response \<Rightarrow> nat" where
  "l1_status (L1Collected n) = 200"
| "l1_status _ = 400"

text \<open>Validation with one retry: the transactions that go to the vote, or the hashes reported as dropped.\<close>

definition l1_prepare :: "('c, 'r) world \<Rightarrow> Transaction list \<Rightarrow> 'c Blockchain \<Rightarrow> (string list + Transaction list) \<times> 'c Blockchain" where
  "l1_prepare w selected bc =
     (let out = validateTxsForL1 (wL1Core w) bc (map Some selected)
      in if voOK out then (Inr selected, bc)
         else
           let bc1 = RemoveFromMempool bc (InvalidHashes out);
               (retry, bc2) = (if nonnil (ValidTxs out) \<noteq> [] then (nonnil (ValidTxs out), bc1)
                               else selectTxsForBlockCollect w (pruneMempoolBeforeL1 w bc1))
           in if retry = [] then (Inl (InvalidHashes out), bc2)
              else
                let out2 = validateTxsForL1 (wL1Core w) bc2 (map Some retry)
                in if voOK out2 then (Inr retry, bc2)
                   else (Inl (InvalidHashes out @ InvalidHashes out2), RemoveFromMempool bc2 (InvalidHashes out2)))"

definition l1CollectBlockRun ::
  "('c, 'r) world \<Rightarrow> round_event list \<Rightarrow> ('c Blockchain \<Rightarrow> 'c Blockchain) \<Rightarrow> ('c, 'r) handler \<Rightarrow> l1_response \<times> ('c, 'r) handler" where
  "l1CollectBlockRun w events mid h =
     (let setc = (\<lambda>bc. h\<lparr>hNode := (hNode h)\<lparr>ndChain := bc\<rparr>\<rparr>);
          (selected, bc1) = selectTxsForBlockCollect w (pruneMempoolBeforeL1 w (ndChain (hNode h)))
      in if selected = [] then (L1NoPackable, setc bc1)
         else case l1_prepare w selected bc1 of
             (Inl bad, bc2) \<Rightarrow> (L1ValidationFailed bad, setc bc2)
           | (Inr collect, bc2) \<Rightarrow>
               (let blockId = computeVoteBlockID ''l1'' (NextBlockNumber bc1) (txHashesFromTransactions (map Some collect)) (state_root w bc1);
                    ((ok, rd), vt) = run_round w L1 blockId events (hVoting h);
                    h1 = (setc (mid bc2))\<lparr>hVoting := vt\<rparr>
                in if \<not> ok
                   then (L1ThresholdNotMet (yes_count (vrVotes rd)) (length (vrVotes rd)) (need L1 (vrTotalExpected rd)), h1)
                   else
                     let (moved, bc3) = L1CollectSelected (mid bc2) (map Some selected)
                     in (L1Collected (length moved),
                         h1\<lparr>hNode := (hNode h1)\<lparr>ndChain := bc3\<rparr>, pendingL1Beneficiary := wMyId w\<rparr>)))"

subsection \<open>L2\<close>

datatype l2_response =
    L2NoPending
  | L2ThresholdNotMet int nat int
  | L2Conflict confirm_error
  | L2PersistFailed confirm_error
  | L2ApplyFailed confirm_error
  | L2FinalizeFailed final_error
  | L2Confirmed BlockRecord nat

fun l2_status :: "l2_response \<Rightarrow> nat" where
  "l2_status L2NoPending = 400"
| "l2_status (L2ThresholdNotMet _ _ _) = 400"
| "l2_status (L2Conflict _) = 409"
| "l2_status (L2Confirmed _ _) = 200"
| "l2_status _ = 500"

definition IsL2ConfirmTOCTOU :: "confirm_error \<Rightarrow> bool" where
  "IsL2ConfirmTOCTOU e \<longleftrightarrow> e = PendingChanged \<or> e = PendingHashMismatch"

definition IsExplorerPersistAfterApply :: "confirm_error \<Rightarrow> bool" where
  "IsExplorerPersistAfterApply e = (case e of ExplorerInjected \<Rightarrow> True | ExplorerPersist p \<Rightarrow> True | _ \<Rightarrow> False)"

definition no_count :: "(string \<times> bool) list \<Rightarrow> int" where
  "no_count votes = int (length (filter (\<lambda>v. \<not> snd v) votes))"

text \<open>Recording the votes of a confirmed block.\<close>

definition record_votes :: "('c, 'r) world \<Rightarrow> string \<Rightarrow> BlockRecord \<Rightarrow> (string \<times> bool) list \<Rightarrow> (string \<times> bool) list
    \<Rightarrow> 'c Blockchain \<Rightarrow> 'c Blockchain" where
  "record_votes w l1Ben block l1Votes l2Votes bc =
     SetBlockVoteDetails
       (SetBlockVoteCounts bc (bBlockNumber block) (yes_count l1Votes) (no_count l1Votes) (yes_count l2Votes) (no_count l2Votes)
          (wDurationMs w) l1Ben (wMyId w))
       (bBlockNumber block) l1Votes l2Votes"

text \<open>After a successful confirmation: finalise, distribute, record.\<close>

definition l2_finalise ::
  "('c, 'r) world \<Rightarrow> (string \<times> bool) list \<Rightarrow> BlockRecord \<Rightarrow> Transaction list \<Rightarrow> bool \<Rightarrow> ('c, 'r) handler \<Rightarrow> l2_response \<times> ('c, 'r) handler" where
  "l2_finalise w l2Votes block moved backup h =
     (case FinalizeConfirmedBlock (wFinal w) (wFinalIO w) (wRm w) (wFailPoint w) block moved backup (wMyId w) (hNode h) of
        ((Some e, _), nd) \<Rightarrow> (L2FinalizeFailed e, h\<lparr>hNode := nd\<rparr>)
      | ((None, fin), nd) \<Rightarrow>
          (let b = frBlock fin;
               l1Votes = lastL1Votes (hVoting h);
               loadPct = networkLoadPct (vtRegistry (hVoting h)) (wMyId w # wConnected w);
               st = snd (distribute_block_fees (wRewardNode w) ((hRewards h)\<lparr>rw_registry := vtRegistry (hVoting h)\<rparr>)
                      (bTotalFees b) (word_of_int (bBlockNumber b)) loadPct l1Votes l2Votes)
           in (L2Confirmed b (length moved),
               h\<lparr>hNode := nd\<lparr>ndChain := record_votes w (pendingL1Beneficiary h) b l1Votes l2Votes (ndChain nd)\<rparr>, hRewards := st\<rparr>)))"

definition l2ConfirmBlockRun ::
  "('c, 'r) world \<Rightarrow> round_event list \<Rightarrow> ('c Blockchain \<Rightarrow> 'c Blockchain) \<Rightarrow> ('c Blockchain \<Rightarrow> 'c Blockchain)
   \<Rightarrow> ('c, 'r) handler \<Rightarrow> l2_response \<times> ('c, 'r) handler" where
  "l2ConfirmBlockRun w events mid mid' h =
     (let bc = ndChain (hNode h); pending = pendingBlock bc
      in if pending = [] then (L2NoPending, h)
         else
           let blockId = computeVoteBlockID ''l2'' (NextBlockNumber bc) (txHashesFromTransactions (map Some pending)) (state_root w bc);
               ((ok, rd), vt) = run_round w L2 blockId events (hVoting h);
               setc = (\<lambda>bc. h\<lparr>hNode := (hNode h)\<lparr>ndChain := bc\<rparr>, hVoting := vt\<rparr>)
           in if \<not> ok
              then (L2ThresholdNotMet (yes_count (vrVotes rd)) (length (vrVotes rd)) (need L2 (vrTotalExpected rd)), setc (mid bc))
              else case L2ConfirmBlock (wEnv w) (wCore w) (wIO w) mid' (mid bc) of
                  (Inl e, bc1) \<Rightarrow>
                    (if IsL2ConfirmTOCTOU e then (L2Conflict e, setc bc1)
                     else if IsExplorerPersistAfterApply e then (L2PersistFailed e, setc bc1)
                     else (L2ApplyFailed e, setc (snd (AbandonPendingBlock bc1 []))))
                | (Inr (moved, block, backup), bc1) \<Rightarrow> l2_finalise w (vrVotes rd) block moved backup (setc bc1))"

subsection \<open>The background worker\<close>

definition AutoBlockEnabled :: "string \<Rightarrow> bool \<Rightarrow> bool" where
  "AutoBlockEnabled env testnet = (let v = TrimSpace env in if v = [] then testnet else switch_on v)"

definition autoBlockDrainMaxRounds :: "string \<Rightarrow> nat" where
  "autoBlockDrainMaxRounds env =
     (let v = TrimSpace env
      in if v = [] then 12
         else case ParseInt v of (n, None) \<Rightarrow> (if n > 0 then nat n else 12) | (_, Some _) \<Rightarrow> 12)"

text \<open>What a round of the worker meets: the world, the arrivals of its vote round, Core's proposal status and block cycle, and
  the peer that would confirm.\<close>

record BlockCycleResult =
  bcOK :: bool
  bcValidHashes :: "string list"
  bcError :: string
  bcL1 :: string

record ('c, 'r) tick_input =
  tiWorld :: "('c, 'r) world"
  tiEvents :: "round_event list"
  tiStatus :: "snapshot_entry list \<Rightarrow> bool option"
  tiRpc :: bool
  tiCycleEnv :: string
  tiCycle :: "'c \<Rightarrow> snapshot_entry list \<Rightarrow> BlockCycleResult option"
  tiRestURL :: "string \<Rightarrow> string"
  tiForward :: "(nat \<times> bool) option"

definition coreBlockCycleEnabled :: "string \<Rightarrow> bool \<Rightarrow> string list \<Rightarrow> bool" where
  "coreBlockCycleEnabled env rpc peers =
     (let v = ToLower (TrimSpace env)
      in if v \<in> {''0'', ''false'', ''no'', ''off''} then False
         else if v \<in> {''1'', ''true'', ''yes'', ''on''} then rpc
         else rpc \<and> peers = [])"

definition allowBlockCycleAutoConfirm :: "string \<Rightarrow> bool \<Rightarrow> string list \<Rightarrow> bool" where
  "allowBlockCycleAutoConfirm env testnet peers =
     (let v = ToLower (TrimSpace env)
      in if v \<in> {''0'', ''false'', ''no'', ''off''} then False
         else if v \<in> {''1'', ''true'', ''yes'', ''on''} then peers = []
         else testnet \<and> peers = [])"

definition set_chain :: "'c Blockchain \<Rightarrow> ('c, 'r) handler \<Rightarrow> ('c, 'r) handler" where
  "set_chain bc h = h\<lparr>hNode := (hNode h)\<lparr>ndChain := bc\<rparr>\<rparr>"

definition autoBlockCollectL1 :: "('c, 'r) tick_input \<Rightarrow> ('c, 'r) handler \<Rightarrow> bool \<times> ('c, 'r) handler" where
  "autoBlockCollectL1 ti h =
     (let (resp, h1) = l1CollectBlockRun (tiWorld ti) (tiEvents ti) id h
      in (l1_status resp < 400 \<and> pendingBlock (ndChain (hNode h1)) \<noteq> [], h1))"

definition autoBlockCollectViaCycle :: "('c, 'r) tick_input \<Rightarrow> ('c, 'r) handler \<Rightarrow> bool \<times> ('c, 'r) handler" where
  "autoBlockCollectViaCycle ti h =
     (let bc = pruneMempoolBeforeL1 (tiWorld ti) (ndChain (hNode h));
          h1 = set_chain bc h
      in if \<not> ledger bc \<or> wSelect (tiWorld ti) = None then autoBlockCollectL1 ti h1
         else case tiCycle ti (stateFile bc) (MempoolSnapshotJSON bc) of
             None \<Rightarrow> autoBlockCollectL1 ti h1
           | Some res \<Rightarrow>
               (if \<not> bcOK res \<or> bcValidHashes res = []
                then
                  let detail = TrimSpace (bcError res @ CHR '' '' # bcL1 res);
                      hash = extractFailedTxHash (bcError res)
                  in if hash \<noteq> [] \<and> isPermanentMempoolInvalid detail
                     then (False, set_chain (RemoveFromMempool bc [hash]) h1)
                     else autoBlockCollectL1 ti h1
                else
                  let txs = SelectTxsByHashes bc (bcValidHashes res)
                  in if txs = [] then (False, h1) else (True, set_chain (SetPendingBlock bc (map Some txs)) h1)))"

text \<open>The confirm request of the worker: status and whether the body names the fence error. A peer that is chosen
  gets the request; a failed forward is not replaced by a local run.\<close>

definition L2ConfirmBlock_request :: "('c, 'r) tick_input \<Rightarrow> ('c, 'r) handler \<Rightarrow> (nat \<times> bool) \<times> ('c, 'r) handler" where
  "L2ConfirmBlock_request ti h =
     (let w = tiWorld ti
      in if pendingBlock (ndChain (hNode h)) = [] then ((400, False), h)
         else
           let selected = SelectByWeight (wRnd w 0) (vtRegistry (hVoting h)) (candidates w)
           in if selected \<noteq> wMyId w \<and> tiRestURL ti selected \<noteq> []
              then ((case tiForward ti of Some r \<Rightarrow> r | None \<Rightarrow> (502, False)), h)
              else
                let (resp, h1) = l2ConfirmBlockRun w (tiEvents ti) id id h
                in ((l2_status resp, (case resp of L2Conflict _ \<Rightarrow> True | _ \<Rightarrow> False)), h1))"

definition autoBlockConfirmPending :: "('c, 'r) tick_input \<Rightarrow> ('c, 'r) handler \<Rightarrow> bool \<times> ('c, 'r) handler" where
  "autoBlockConfirmPending ti h =
     (let bc = ndChain (hNode h); pending = pendingBlock bc
      in if pending = [] then (True, h)
         else
           let out = validateTxsForL1 (wL1Core (tiWorld ti)) bc (map Some pending)
           in if \<not> voOK out \<and> InvalidHashes out \<noteq> []
              then (False, set_chain (snd (AbandonPendingBlock bc (InvalidHashes out))) h)
              else
                let ((status, toctou), h1) = L2ConfirmBlock_request ti h
                in if status \<ge> 400
                   then (False,
                         if pendingBlock (ndChain (hNode h1)) \<noteq> [] \<and> \<not> toctou
                         then set_chain (snd (AbandonPendingBlock (ndChain (hNode h1)) [])) h1 else h1)
                   else (pendingBlock (ndChain (hNode h1)) = [], h1))"

fun drain_rounds :: "(nat \<Rightarrow> ('c, 'r) tick_input) \<Rightarrow> nat \<Rightarrow> nat \<Rightarrow> ('c, 'r) handler \<Rightarrow> ('c, 'r) handler" where
  "drain_rounds inp k 0 h = h"
| "drain_rounds inp k (Suc left) h =
     (let ti = inp k; bc = ndChain (hNode h)
      in if pendingBlock bc \<noteq> []
         then (case autoBlockConfirmPending ti h of
                 (True, h1) \<Rightarrow> drain_rounds inp (Suc k) left h1
               | (False, h1) \<Rightarrow> h1)
         else case tiStatus ti (MempoolSnapshotJSON bc) of
             None \<Rightarrow> h
           | Some False \<Rightarrow> h
           | Some True \<Rightarrow>
               (case (if coreBlockCycleEnabled (tiCycleEnv ti) (tiRpc ti) (wPeers (tiWorld ti))
                      then autoBlockCollectViaCycle ti h else autoBlockCollectL1 ti h) of
                  (True, h1) \<Rightarrow> drain_rounds inp (Suc k) left h1
                | (False, h1) \<Rightarrow> h1))"

definition autoBlockTick ::
  "(nat \<Rightarrow> ('c, 'r) tick_input) \<Rightarrow> string \<Rightarrow> int \<Rightarrow> (string \<Rightarrow> u64 option) \<Rightarrow> ('c, 'r) handler \<Rightarrow> ('c, 'r) handler" where
  "autoBlockTick inp env now query h =
     (let bc = ndChain (hNode h)
      in drain_rounds inp 0 (autoBlockDrainMaxRounds env) (set_chain (snd (RequeueUnconfirmedEscrows now query bc bc)) h))"

subsection \<open>What a run may change\<close>

text \<open>Operations that only take transactions out of the mempool.\<close>

definition mempool_only :: "'c Blockchain \<Rightarrow> 'c Blockchain \<Rightarrow> bool" where
  "mempool_only bc bc' \<longleftrightarrow>
     blockHistory bc' = blockHistory bc \<and> blockCounter bc' = blockCounter bc \<and> confirmedHashes bc' = confirmedHashes bc \<and>
     stateFile bc' = stateFile bc \<and> ledger bc' = ledger bc \<and> pendingBlock bc' = pendingBlock bc \<and>
     mset (mempool bc') \<subseteq># mset (mempool bc)"

lemma mempool_only_refl [simp]: "mempool_only bc bc"
  by (simp add: mempool_only_def)

lemma mempool_only_trans: "mempool_only a b \<Longrightarrow> mempool_only b c \<Longrightarrow> mempool_only a c"
  unfolding mempool_only_def by (metis subset_mset.order_trans)

lemma mempool_only_ok: "mempool_only bc bc' \<Longrightarrow> inflight_ok bc \<Longrightarrow> inflight_ok bc'"
  by (rule inflight_okI) (simp_all add: mempool_only_def)

lemma mempool_only_inv: "mempool_only bc bc' \<Longrightarrow> chain_inv bc \<Longrightarrow> chain_inv bc'"
  using mempool_only_ok [of bc bc'] chain_inv_same [of bc bc'] by (simp add: mempool_only_def chain_inv_def)

lemma mempool_only_prune: "mempool_only bc (pruneMempoolBeforeL1 w bc)"
proof -
  let ?n = "accountNoncesForMempool (wQuery w) bc"
  have "mset (prune_kept (wRocksBlocks w) ?n (wNow w) bc) \<subseteq># mset (mempool bc)" by (rule prune_kept_sub)
  then show ?thesis
    unfolding mempool_only_def pruneMempoolBeforeL1_def PruneMempool_def
    by (simp add: prune_locked_mempool) (simp add: prune_locked_def Let_def)
qed

lemma mempool_only_remove: "mempool_only bc (RemoveFromMempool bc hashes)"
  by (simp add: mempool_only_def RemoveFromMempool_def Let_def)

lemma mempool_only_dag: "mempool_only bc (SetDagCommitDigests bc anchor digests)"
  by (simp add: mempool_only_def SetDagCommitDigests_def)

lemma mempool_only_propose: "mempool_only bc (maybeProposeAndBroadcastDag w txs bc)"
  by (simp add: maybeProposeAndBroadcastDag_def maybeTryDagBatchCommit_def applyDagCommit_def mempool_only_dag Let_def
      split: option.split prod.split bool.split)

lemma mempool_only_select: "mempool_only bc (snd (selectTxsForBlockCollect w bc))"
  by (simp add: selectTxsForBlockCollect_def Let_def mempool_only_propose split: option.split)

lemmas mempool_only_ops = mempool_only_prune mempool_only_remove mempool_only_select

lemma l1_prepare_mempool: "mempool_only bc (snd (l1_prepare w selected bc))"
proof -
  let ?out = "validateTxsForL1 (wL1Core w) bc (map Some selected)"
  let ?bc1 = "RemoveFromMempool bc (InvalidHashes ?out)"
  have r: "mempool_only bc ?bc1" "mempool_only bc (snd (selectTxsForBlockCollect w (pruneMempoolBeforeL1 w ?bc1)))"
    by (meson mempool_only_ops mempool_only_trans)+
  then show ?thesis
    by (auto simp: l1_prepare_def Let_def case_prod_beta intro: mempool_only_trans [OF _ mempool_only_remove])
qed

lemma L1CollectSelected_view:
  "blockHistory (snd (L1CollectSelected bc selected)) = blockHistory bc"
  "blockCounter (snd (L1CollectSelected bc selected)) = blockCounter bc"
  "confirmedHashes (snd (L1CollectSelected bc selected)) = confirmedHashes bc"
  "stateFile (snd (L1CollectSelected bc selected)) = stateFile bc"
  "ledger (snd (L1CollectSelected bc selected)) = ledger bc"
  by (simp_all add: L1CollectSelected_def Let_def case_prod_beta)

lemma L1CollectSelected_moved:
  assumes "selected \<noteq> []"
  shows "pendingBlock (snd (L1CollectSelected bc selected)) = fst (L1CollectSelected bc selected)"
    "mset (fst (L1CollectSelected bc selected)) + mset (mempool (snd (L1CollectSelected bc selected))) = mset (mempool bc)"
  using assms by (simp_all add: L1CollectSelected_frame pick_split_mset)

lemma complete_round_votes:
  "fst (complete_round vc env testnet L1 myId conn rd vt) = lastL1Accepted (snd (complete_round vc env testnet L1 myId conn rd vt))"
  "fst (complete_round vc env testnet L2 myId conn rd vt) = lastL2Accepted (snd (complete_round vc env testnet L2 myId conn rd vt))"
  "lastL2Votes (snd (complete_round vc env testnet L2 myId conn rd vt)) = vrVotes rd"
  by (simp_all add: complete_round_def Let_def case_prod_beta)

lemma run_round_votes:
  "fst (fst (run_round w L1 b evs vt)) = lastL1Accepted (snd (run_round w L1 b evs vt))"
  "fst (fst (run_round w L2 b evs vt)) = lastL2Accepted (snd (run_round w L2 b evs vt))"
  "lastL2Votes (snd (run_round w L2 b evs vt)) = vrVotes (snd (fst (run_round w L2 b evs vt)))"
  by (simp_all add: run_round_def Let_def case_prod_beta complete_round_votes)

text \<open>The three ends of an L1 run.\<close>

lemma l1_run_cases:
  assumes "l1CollectBlockRun w events id h = (resp, h')"
  obtains (stopped) bc where "mempool_only (ndChain (hNode h)) bc" "h' = h\<lparr>hNode := (hNode h)\<lparr>ndChain := bc\<rparr>\<rparr>" "l1_status resp = 400"
  | (rejected) bc vt where "mempool_only (ndChain (hNode h)) bc" "h' = h\<lparr>hNode := (hNode h)\<lparr>ndChain := bc\<rparr>, hVoting := vt\<rparr>"
      "l1_status resp = 400"
  | (collected) bc vt selected where "mempool_only (ndChain (hNode h)) bc" "selected \<noteq> []" "lastL1Accepted vt"
      "resp = L1Collected (length (fst (L1CollectSelected bc selected)))"
      "h' = h\<lparr>hNode := (hNode h)\<lparr>ndChain := snd (L1CollectSelected bc selected)\<rparr>, hVoting := vt, pendingL1Beneficiary := wMyId w\<rparr>"
proof -
  let ?bc = "ndChain (hNode h)"
  obtain selected bc1 where sel: "selectTxsForBlockCollect w (pruneMempoolBeforeL1 w ?bc) = (selected, bc1)" by fastforce
  have m1: "mempool_only ?bc bc1"
    using mempool_only_trans [OF mempool_only_prune mempool_only_select, of ?bc w w] sel by simp
  obtain res bc2 where prep: "l1_prepare w selected bc1 = (res, bc2)" by fastforce
  have m2: "mempool_only ?bc bc2" using mempool_only_trans [OF m1] l1_prepare_mempool [of bc1 w selected] prep by simp
  show ?thesis
  proof (cases "selected = []")
    case True
    then show ?thesis using assms sel m1 by (intro stopped [of bc1]) (auto simp: l1CollectBlockRun_def)
  next
    case False
    show ?thesis
    proof (cases res)
      case (Inl bad)
      then show ?thesis using assms sel prep m2 False by (intro stopped [of bc2]) (auto simp: l1CollectBlockRun_def)
    next
      case (Inr collect)
      let ?b = "computeVoteBlockID ''l1'' (NextBlockNumber bc1) (txHashesFromTransactions (map Some collect)) (state_root w bc1)"
      obtain ok rd vt where rr: "run_round w L1 ?b events (hVoting h) = ((ok, rd), vt)" by (metis surj_pair)
      have acc: "ok = lastL1Accepted vt" using run_round_votes(1) [of w ?b events "hVoting h"] rr by simp
      show ?thesis
      proof (cases ok)
        case True
        then show ?thesis
          using assms sel prep Inr rr False acc m2
          by (intro collected [of bc2 "map Some selected" vt]) (auto simp: l1CollectBlockRun_def Let_def case_prod_beta)
      next
        case False
        then show ?thesis
          using assms sel prep Inr rr \<open>selected \<noteq> []\<close> m2
          by (intro rejected [of bc2 vt]) (auto simp: l1CollectBlockRun_def Let_def)
      qed
    qed
  qed
qed

subsection \<open>Confirming\<close>

lemma chain_inv_fresh:
  assumes "chain_inv bc" "length (blockHistory bc) < 2 ^ 63"
  shows "\<forall>b \<in> set (blockHistory bc). bBlockNumber b \<noteq> blockCounter bc"
proof
  fix b assume "b \<in> set (blockHistory bc)"
  then have "bBlockNumber b \<in> set (map bBlockNumber (blockHistory bc))" by simp
  moreover have "map bBlockNumber (blockHistory bc) = map (\<lambda>k. i64 (int k)) [0..<length (blockHistory bc)]"
    using assms(1) by (simp add: chain_inv_def)
  ultimately have "bBlockNumber b \<in> set (map (\<lambda>k. i64 (int k)) [0..<length (blockHistory bc)])" by (simp only:)
  then obtain k where k: "k < length (blockHistory bc)" "bBlockNumber b = i64 (int k)" by auto
  then have "i64 (int k) = int k" "i64 (int (length (blockHistory bc))) = int (length (blockHistory bc))"
    using assms(2) by (simp_all add: in_i64_def)
  with k assms(1) show "bBlockNumber b \<noteq> blockCounter bc" by (simp add: chain_inv_def)
qed

lemma chain_inv_cong:
  assumes "chain_inv bc" and "map bBlockNumber (blockHistory bc') = map bBlockNumber (blockHistory bc)"
    "map bTxHashes (blockHistory bc') = map bTxHashes (blockHistory bc)" "blockCounter bc' = blockCounter bc"
    "confirmedHashes bc' = confirmedHashes bc" "inflight bc' = inflight bc"
  shows "chain_inv bc'"
proof -
  have "length (blockHistory bc') = length (blockHistory bc)" using assms(2) by (metis length_map)
  then show ?thesis using assms by (simp add: chain_inv_def chain_hashes_def inflight_ok_def del: map_eq_conv)
qed

lemma restored_inv:
  assumes "restored bc bc'" "chain_inv bc"
  shows "chain_inv bc'" "mset (map txHash (inflight bc')) = mset (map txHash (inflight bc))"
proof -
  from assms(1) have h: "map txHash (inflight bc') = map txHash (inflight bc)" and n: "map sender_nonce (inflight bc') = map sender_nonce (inflight bc)"
    by (simp_all add: restored_def)
  have ok: "\<forall>x \<in> set (map txHash (inflight bc)). x \<noteq> [] \<and> x \<notin> confirmedHashes bc"
    using assms(2) by (auto simp: chain_inv_def inflight_ok_def)
  have f: "\<forall>tx \<in> set (inflight bc'). txHash tx \<noteq> [] \<and> txHash tx \<notin> confirmedHashes bc"
  proof
    fix tx assume "tx \<in> set (inflight bc')"
    then have "txHash tx \<in> set (map txHash (inflight bc'))" unfolding set_map by (rule imageI)
    then have "txHash tx \<in> set (map txHash (inflight bc))" unfolding h .
    with ok show "txHash tx \<noteq> [] \<and> txHash tx \<notin> confirmedHashes bc" by (rule bspec)
  qed
  have "distinct (map txHash (inflight bc'))" "distinct (map sender_nonce (inflight bc'))" "confirmedHashes bc' = confirmedHashes bc"
    using assms unfolding h n by (simp_all only: chain_inv_def inflight_ok_def restored_def)
  with f have "inflight_ok bc'" unfolding inflight_ok_def by (simp only: simp_thms)
  then show "chain_inv bc'" using assms(1) by (intro chain_inv_same [OF assms(2)]) (simp_all add: restored_def)
  show "mset (map txHash (inflight bc')) = mset (map txHash (inflight bc))" by (simp only: h)
qed

lemma map_update_first: "(\<And>x. g (f x) = g x) \<Longrightarrow> map g (update_first P f xs) = map g xs"
  by (induction xs) auto

text \<open>A successful finalisation changes nothing of the confirmed state but the header of the block.\<close>

lemma finalize_frame:
  assumes "FinalizeConfirmedBlock fx io rm point block moved backup producer nd = ((None, out), nd2)"
  shows "map bBlockNumber (blockHistory (ndChain nd2)) = map bBlockNumber (blockHistory (ndChain nd)) \<and>
    map bTxHashes (blockHistory (ndChain nd2)) = map bTxHashes (blockHistory (ndChain nd)) \<and>
    blockCounter (ndChain nd2) = blockCounter (ndChain nd) \<and> confirmedHashes (ndChain nd2) = confirmedHashes (ndChain nd) \<and>
    mempool (ndChain nd2) = mempool (ndChain nd) \<and> pendingBlock (ndChain nd2) = pendingBlock (ndChain nd) \<and>
    ledger (ndChain nd2) = ledger (ndChain nd) \<and> bBlockNumber (frBlock out) = bBlockNumber block"
proof (cases "assembleBlockHeader fx nd (bBlockNumber block) moved producer (bTimestamp block)")
  case None
  then show ?thesis using assms
    by (auto simp: FinalizeConfirmedBlock_def Let_def DiscardStateBackup_def remove_backup_def split: if_splits)
next
  case (Some header)
  let ?bc1 = "ApplyBlockHeader (ioPersist io) (ndChain nd) (bBlockNumber block) header producer"
  let ?block = "block\<lparr>bBlockHash := hdBlockHash header, bMerkleRoot := hdMerkleRoot header, bStateRoot := hdStateRoot header,
      bPreviousHash := hdPreviousHash header, bProducerNodeID := producer\<rparr>"
  have d: "DurableCommitAfterExplorer fx io rm point ?block moved backup (nd\<lparr>ndChain := ?bc1\<rparr>) = ((None, out), nd2)"
    using assms Some by (simp add: FinalizeConfirmedBlock_def)
  obtain e nd1 where c: "commitBlockToRocks fx ?block (map Some moved) (bStateRoot ?block) (nd\<lparr>ndChain := ?bc1\<rparr>) = (e, nd1)"
    by fastforce
  have ch: "ndChain nd1 = ?bc1" using commitBlockToRocks_chain [OF c] by simp
  from d c have n2: "ndChain nd2 = ForgetTxPool rm (DiscardStateBackup io backup (ndChain nd1)) (filter (\<lambda>h. h \<noteq> []) (map txHash moved))"
    and o: "frBlock out = ?block"
    by (cases e; auto simp: DurableCommitAfterExplorer_def Let_def split: if_splits)+
  show ?thesis unfolding n2 ch o
    by (simp add: ForgetTxPool_def DiscardStateBackup_def remove_backup_def ApplyBlockHeader_def map_update_first set_header_def)
qed

lemma record_votes_frame:
  "map bBlockNumber (blockHistory (record_votes w ben b v1 v2 bc)) = map bBlockNumber (blockHistory bc)"
  "map bTxHashes (blockHistory (record_votes w ben b v1 v2 bc)) = map bTxHashes (blockHistory bc)"
  "blockCounter (record_votes w ben b v1 v2 bc) = blockCounter bc" "confirmedHashes (record_votes w ben b v1 v2 bc) = confirmedHashes bc"
  "mempool (record_votes w ben b v1 v2 bc) = mempool bc" "pendingBlock (record_votes w ben b v1 v2 bc) = pendingBlock bc"
  "ledger (record_votes w ben b v1 v2 bc) = ledger bc" "l2bak (record_votes w ben b v1 v2 bc) = l2bak bc"
  by (simp_all add: record_votes_def SetBlockVoteDetails_def SetBlockVoteCounts_def map_update_first)

lemma record_votes_tip:
  assumes "blockHistory bc = bs @ [b]" "\<forall>x \<in> set bs. bBlockNumber x \<noteq> bBlockNumber b" "bBlockNumber b0 = bBlockNumber b"
  shows "\<exists>b'. blockHistory (record_votes w ben b0 v1 v2 bc) = bs @ [b'] \<and> bTxHashes b' = bTxHashes b \<and> bBlockHash b' = bBlockHash b \<and>
    bL2Yes b' = yes_count v2 \<and> bL2No b' = no_count v2"
  using assms by (simp add: record_votes_def SetBlockVoteDetails_def SetBlockVoteCounts_def update_first_snoc)

lemma Abandon_all:
  assumes "inflight_ok bc"
  shows "mset (map txHash (inflight (snd (AbandonPendingBlock bc [])))) = mset (map txHash (inflight bc))"
    "pendingBlock (snd (AbandonPendingBlock bc ds)) = []"
    "blockHistory (snd (AbandonPendingBlock bc ds)) = blockHistory bc" "stateFile (snd (AbandonPendingBlock bc ds)) = stateFile bc"
    "blockCounter (snd (AbandonPendingBlock bc ds)) = blockCounter bc" "confirmedHashes (snd (AbandonPendingBlock bc ds)) = confirmedHashes bc"
    "ledger (snd (AbandonPendingBlock bc ds)) = ledger bc"
proof -
  have "filter (\<lambda>tx. txHash tx \<noteq> []) (pendingBlock bc) = pendingBlock bc"
    using assms by (intro filter_True) (simp add: inflight_ok_def)
  then show "mset (map txHash (inflight (snd (AbandonPendingBlock bc [])))) = mset (map txHash (inflight bc))"
    by (simp add: AbandonPendingBlock_def Let_def)
qed (simp_all add: AbandonPendingBlock_def Let_def)

lemma Abandon_inv: "chain_inv bc \<Longrightarrow> chain_inv (snd (AbandonPendingBlock bc ds))"
  by (rule chain_inv_same) (simp_all add: AbandonPendingBlock_ok Abandon_all chain_inv_def)

text \<open>The hypotheses on the file system of a run: Core's state backup can be restored and removed, and no crash is injected.\<close>

definition safe_world :: "('c, 'r) world \<Rightarrow> bool" where
  "safe_world w \<longleftrightarrow> ioRestore (wIO w) = CopyOk \<and> ioRestore (wFinalIO w) = CopyOk \<and> ioRemove (wFinalIO w) \<and>
     wFailPoint w \<noteq> FailPointCrashAfterExplorer"

text \<open>A failed attempt to confirm: nothing recorded, nothing paid, no transaction lost.\<close>

definition unconfirmed :: "('c, 'r) handler \<Rightarrow> ('c, 'r) handler \<Rightarrow> bool" where
  "unconfirmed h h' \<longleftrightarrow>
     (let bc = ndChain (hNode h); bc' = ndChain (hNode h')
      in blockHistory bc' = blockHistory bc \<and> stateFile bc' = stateFile bc \<and> confirmedHashes bc' = confirmedHashes bc \<and>
         hRewards h' = hRewards h \<and> mset (map txHash (inflight bc')) = mset (map txHash (inflight bc)))"

text \<open>A confirmed block: one block with the pending transactions on top, in Rocks when it is on, with the votes of the accepted round.\<close>

definition confirmed_block :: "('c, 'r) world \<Rightarrow> ('c, 'r) handler \<Rightarrow> BlockRecord \<Rightarrow> ('c, 'r) handler \<Rightarrow> bool" where
  "confirmed_block w h b h' \<longleftrightarrow>
     (let bc = ndChain (hNode h); bc' = ndChain (hNode h')
      in pendingBlock bc' = [] \<and> mempool bc' = mempool bc \<and> l2bak bc' = None \<and> lastL2Accepted (hVoting h') \<and>
         (\<exists>b'. blockHistory bc' = blockHistory bc @ [b'] \<and> bTxHashes b' = map txHash (pendingBlock bc) \<and> bBlockHash b' = bBlockHash b \<and>
            bL2Yes b' = yes_count (lastL2Votes (hVoting h')) \<and> bL2No b' = no_count (lastL2Votes (hVoting h')) \<and>
            (fxRocks (wFinal w) \<longrightarrow> (\<exists>payload. fxCommit (wFinal w) payload (ndRocks (hNode h)) = (True, ndRocks (hNode h')) \<and>
               rbTxHashes (bcBlock payload) = bTxHashes b' \<and> rbHeight (bcBlock payload) = GatewayBlockToRocksHeight (blockCounter bc) \<and>
               rbBlockHash (bcBlock payload) = bBlockHash b'))))"

lemma L2ConfirmBlock_ledger:
  assumes "L2ConfirmBlock env core io id bc = (r, bc')"
  shows "ledger bc' = ledger bc"
  using assms
proof (cases rule: L2ConfirmBlock_cases)
  case (apply_failed e)
  then show ?thesis by (blast dest: apply_ledger)
next
  case (applied bc1)
  have "ledger bc1 = ledger bc" by (rule apply_ledger [OF applied(1)])
  moreover have "ledger bc' = ledger bc1"
    using applied(2) by (auto simp: l2_finish_eq l2_fence_def persist_or_undo_def Let_def
        split: if_splits prod.splits option.splits dest!: persistChain_ledger)
  ultimately show ?thesis by simp
qed

lemma l2_confirm_failed:
  assumes "L2ConfirmBlock env core io id bc = (Inl e, bc1)" "chain_inv bc" "ioRestore io = CopyOk"
  shows "chain_inv bc1" "ledger bc1 = ledger bc" "blockHistory bc1 = blockHistory bc" "stateFile bc1 = stateFile bc"
    "confirmedHashes bc1 = confirmedHashes bc" "map txHash (inflight bc1) = map txHash (inflight bc)"
proof -
  have ok: "inflight_ok bc" using assms(2) by (simp add: chain_inv_def)
  note r = L2ConfirmBlock_restores [OF assms(1) ok assms(3)]
  show "chain_inv bc1" using chain_inv_confirm [OF assms(2) keeps_blocks_id assms(1)] by blast
  show "ledger bc1 = ledger bc" by (rule L2ConfirmBlock_ledger [OF assms(1)])
  show "blockHistory bc1 = blockHistory bc" "stateFile bc1 = stateFile bc" "confirmedHashes bc1 = confirmedHashes bc"
    "map txHash (inflight bc1) = map txHash (inflight bc)" using r by simp_all
qed

lemma l2_finalise_spec:
  assumes L2: "L2ConfirmBlock env core io0 id (ndChain (hNode h)) = (Inr (moved, block, backup), bc1)"
    and inv: "chain_inv (ndChain (hNode h))" "ledger (ndChain (hNode h))" "length (blockHistory (ndChain (hNode h))) < 2 ^ 63"
    and w: "safe_world w" and acc: "lastL2Accepted vt" "lastL2Votes vt = votes"
    and run: "l2_finalise w votes block moved backup (h\<lparr>hNode := (hNode h)\<lparr>ndChain := bc1\<rparr>, hVoting := vt\<rparr>) = (resp, h')"
  shows "((\<exists>b n. resp = L2Confirmed b n \<and> confirmed_block w h b h') \<or> (\<exists>e. resp = L2FinalizeFailed e) \<and> unconfirmed h h') \<and>
    chain_inv (ndChain (hNode h')) \<and> ledger (ndChain (hNode h'))"
proof -
  let ?bc = "ndChain (hNode h)" and ?nd = "(hNode h)\<lparr>ndChain := bc1\<rparr>"
  let ?fin = "FinalizeConfirmedBlock (wFinal w) (wFinalIO w) (wRm w) (wFailPoint w) block moved backup (wMyId w) ?nd"
  obtain err out nd2 where fin: "?fin = ((err, out), nd2)" by (metis surj_pair)
  have ok: "inflight_ok ?bc" using inv(1) by (simp add: chain_inv_def)
  note fresh = chain_inv_fresh [OF inv(1,3)]
  have io: "ioRestore (wFinalIO w) = CopyOk" "ioRemove (wFinalIO w)" "wFailPoint w \<noteq> FailPointCrashAfterExplorer"
    using w by (simp_all add: safe_world_def)
  have L2': "L2ConfirmBlock env core io0 id ?bc = (Inr (moved, block, backup), ndChain ?nd)" using L2 by simp
  note fa = finalize_atomic [OF L2' inv(2) ok fresh io fin]
  note st = L2ConfirmBlock_staged [OF L2 inv(2)]
  show ?thesis
  proof (cases err)
    case (Some e)
    then have h': "resp = L2FinalizeFailed e" "hNode h' = nd2" "hRewards h' = hRewards h"
      using run fin by (auto simp: l2_finalise_def)
    have r: "restored ?bc (ndChain nd2)" using fa Some by blast
    then have "unconfirmed h h'"
      unfolding unconfirmed_def Let_def h' using restored_inv(2) [OF r inv(1)] by (simp add: restored_def)
    then show ?thesis using h' restored_inv(1) [OF r inv(1)] r by (simp add: restored_def)
  next
    case None
    from fa None obtain b where b: "blockHistory (ndChain nd2) = blockHistory ?bc @ [b]" "l2bak (ndChain nd2) = None"
      "bTxHashes b = map txHash (pendingBlock ?bc)" "bBlockHash b = bBlockHash (frBlock out)"
      "fxRocks (wFinal w) \<longrightarrow> (\<exists>payload. fxCommit (wFinal w) payload (ndRocks ?nd) = (True, ndRocks nd2) \<and>
          rbTxHashes (bcBlock payload) = bTxHashes b \<and> rbHeight (bcBlock payload) = GatewayBlockToRocksHeight (blockCounter ?bc) \<and>
          rbBlockHash (bcBlock payload) = bBlockHash b)" by blast
    note ff = finalize_frame [OF fin [unfolded None], simplified]
    let ?rec = "record_votes w (pendingL1Beneficiary h) (frBlock out) (lastL1Votes vt) votes"
    have h': "resp = L2Confirmed (frBlock out) (length moved)" "hVoting h' = vt" "ndChain (hNode h') = ?rec (ndChain nd2)"
      "ndRocks (hNode h') = ndRocks nd2"
      using run fin None by (auto simp: l2_finalise_def Let_def)
    obtain b0 where b0: "blockHistory bc1 = blockHistory ?bc @ [b0]" "bBlockNumber b0 = blockCounter ?bc"
      using st by (auto simp: staged_def)
    have "map bBlockNumber (blockHistory ?bc @ [b]) = map bBlockNumber (blockHistory ?bc @ [b0])"
      using ff by (simp only: b(1) b0(1))
    then have nb: "bBlockNumber b = blockCounter ?bc" using b0(2) by simp
    obtain b' where b': "blockHistory (?rec (ndChain nd2)) = blockHistory ?bc @ [b']" "bTxHashes b' = bTxHashes b" "bBlockHash b' = bBlockHash b"
      "bL2Yes b' = yes_count votes" "bL2No b' = no_count votes"
      using record_votes_tip [OF b(1), of "frBlock out" w "pendingL1Beneficiary h" "lastL1Votes vt" votes] fresh nb ff st by auto
    have "chain_inv bc1" using chain_inv_confirm [OF inv(1) keeps_blocks_id L2] by blast
    then have "chain_inv (?rec (ndChain nd2))"
      by (rule chain_inv_cong) (use ff in \<open>simp_all only: record_votes_frame\<close>)
    moreover have "ledger (?rec (ndChain nd2))" using ff st by (simp add: record_votes_frame staged_def)
    moreover have "confirmed_block w h (frBlock out) h'"
      unfolding confirmed_block_def Let_def h' using b b' ff st acc by (auto simp: record_votes_frame staged_def)
    ultimately show ?thesis using h' by auto
  qed
qed

lemma l2_run_spec:
  assumes run: "l2ConfirmBlockRun w events id id h = (resp, h')"
    and inv: "chain_inv (ndChain (hNode h))" "ledger (ndChain (hNode h))" "length (blockHistory (ndChain (hNode h))) < 2 ^ 63"
    and w: "safe_world w"
  shows "((\<exists>b n. resp = L2Confirmed b n \<and> confirmed_block w h b h') \<or> 400 \<le> l2_status resp \<and> unconfirmed h h') \<and>
    chain_inv (ndChain (hNode h')) \<and> ledger (ndChain (hNode h'))"
proof (cases "pendingBlock (ndChain (hNode h)) = []")
  case True
  then have "resp = L2NoPending" "h' = h" using run by (simp_all add: l2ConfirmBlockRun_def)
  then show ?thesis using inv by (simp add: unconfirmed_def)
next
  case False
  let ?bc = "ndChain (hNode h)"
  let ?b = "computeVoteBlockID ''l2'' (NextBlockNumber ?bc) (txHashesFromTransactions (map Some (pendingBlock ?bc))) (state_root w ?bc)"
  obtain ok rd vt where rr: "run_round w L2 ?b events (hVoting h) = ((ok, rd), vt)" by (metis surj_pair)
  have acc: "lastL2Accepted vt = ok" "lastL2Votes vt = vrVotes rd"
    using run_round_votes [of w ?b events "hVoting h"] rr by simp_all
  let ?set = "\<lambda>bc. h\<lparr>hNode := (hNode h)\<lparr>ndChain := bc\<rparr>, hVoting := vt\<rparr>"
  obtain res bc1 where L2: "L2ConfirmBlock (wEnv w) (wCore w) (wIO w) id ?bc = (res, bc1)" by fastforce
  show ?thesis
  proof (cases ok)
    case no: False
    then have "l2_status resp = 400" "h' = ?set ?bc" using run False rr by (auto simp: l2ConfirmBlockRun_def Let_def)
    then show ?thesis using inv by (simp add: unconfirmed_def)
  next
    case True
    show ?thesis
    proof (cases res)
      case (Inr x)
      obtain moved block backup where x: "x = (moved, block, backup)" by (cases x) auto
      have "l2_finalise w (vrVotes rd) block moved backup (?set bc1) = (resp, h')"
        using run False rr True L2 Inr x by (simp add: l2ConfirmBlockRun_def Let_def)
      from l2_finalise_spec [OF L2 [unfolded Inr x] inv w _ _ this] acc True show ?thesis by auto
    next
      case (Inl e)
      have "ioRestore (wIO w) = CopyOk" using w by (simp add: safe_world_def)
      note f = l2_confirm_failed [OF L2 [unfolded Inl] inv(1) this]
      let ?bc2 = "snd (AbandonPendingBlock bc1 [])"
      have "400 \<le> l2_status resp" and h': "h' = ?set bc1 \<or> h' = ?set ?bc2"
        using run False rr True L2 Inl by (auto simp: l2ConfirmBlockRun_def Let_def split: if_splits)
      have ok1: "inflight_ok bc1" using f(1) by (simp add: chain_inv_def)
      have m: "mset (map txHash (inflight bc1)) = mset (map txHash (inflight ?bc))" by (simp only: f(6))
      have "unconfirmed h (?set bc1)" using f(3-5) m by (simp add: unconfirmed_def Let_def)
      moreover have "unconfirmed h (?set ?bc2)" using f(3-5) m Abandon_all [OF ok1] by (simp add: unconfirmed_def Let_def)
      moreover have "chain_inv ?bc2" "ledger ?bc2 = ledger bc1" using Abandon_inv [OF f(1)] Abandon_all [OF ok1] by simp_all
      ultimately show ?thesis using f(1,2) h' inv(2) \<open>400 \<le> l2_status resp\<close> by (elim disjE) simp_all
    qed
  qed
qed

subsection \<open>Draining the mempool\<close>

lemma set_chain_node [simp]: "ndChain (hNode (set_chain bc h)) = bc"
  by (simp add: set_chain_def)

lemma L1CollectSelected_inv: "chain_inv bc \<Longrightarrow> chain_inv (snd (L1CollectSelected bc selected))"
  by (rule chain_inv_same) (simp_all add: L1CollectSelected_ok L1CollectSelected_view chain_inv_def)

text \<open>A step that keeps the invariant, the ledger and the history.\<close>

definition quiet :: "('c, 'r) handler \<Rightarrow> ('c, 'r) handler \<Rightarrow> bool" where
  "quiet h h' \<longleftrightarrow> chain_inv (ndChain (hNode h')) \<and> ledger (ndChain (hNode h')) \<and>
     blockHistory (ndChain (hNode h')) = blockHistory (ndChain (hNode h))"

lemma autoBlockCollectL1_quiet:
  assumes "chain_inv (ndChain (hNode h))" "ledger (ndChain (hNode h))"
  shows "quiet h (snd (autoBlockCollectL1 ti h))"
proof -
  obtain resp h1 where run: "l1CollectBlockRun (tiWorld ti) (tiEvents ti) id h = (resp, h1)" by fastforce
  have "quiet h h1"
    using run
  proof (cases rule: l1_run_cases)
    case (stopped bc)
    then show ?thesis using assms mempool_only_inv [OF stopped(1) assms(1)] by (simp add: quiet_def mempool_only_def)
  next
    case (rejected bc vt)
    then show ?thesis using assms mempool_only_inv [OF rejected(1) assms(1)] by (simp add: quiet_def mempool_only_def)
  next
    case (collected bc vt selected)
    then show ?thesis
      using assms L1CollectSelected_inv [OF mempool_only_inv [OF collected(1) assms(1)], of selected]
      by (simp add: quiet_def mempool_only_def L1CollectSelected_view)
  qed
  then show ?thesis by (simp add: autoBlockCollectL1_def run)
qed

lemma byHash_Some: "byHash txs h = Some tx \<Longrightarrow> tx \<in> set txs \<and> txHash tx = h"
proof -
  have "fold (\<lambda>tx m. if txHash tx \<noteq> [] then m(txHash tx \<mapsto> tx) else m) txs m h = Some tx \<Longrightarrow>
      m h = Some tx \<or> tx \<in> set txs \<and> txHash tx = h" for m
    by (induction txs arbitrary: m) (force split: if_splits)+
  from this [of Map.empty] show "byHash txs h = Some tx \<Longrightarrow> tx \<in> set txs \<and> txHash tx = h" by (auto simp: byHash_def)
qed

lemma SelectTxsByHashes_sub:
  assumes "distinct hashes"
  shows "distinct (map txHash (SelectTxsByHashes bc hashes)) \<and> set (SelectTxsByHashes bc hashes) \<subseteq> set (mempool bc)"
proof -
  have "set (List.map_filter (byHash (mempool bc)) hashes) \<subseteq> set (mempool bc) \<and>
      distinct (map txHash (List.map_filter (byHash (mempool bc)) hashes)) \<and>
      txHash ` set (List.map_filter (byHash (mempool bc)) hashes) \<subseteq> set hashes"
    using assms
    by (induction hashes) (auto simp: List.map_filter_simps dest: byHash_Some split: option.splits)
  then show ?thesis by (simp add: SelectTxsByHashes_def)
qed

lemma SetPendingBlock_inv:
  assumes inv: "chain_inv bc" and txs: "set txs \<subseteq> set (mempool bc)" "distinct (map txHash txs)"
  shows "chain_inv (SetPendingBlock bc (map Some txs))"
proof (rule chain_inv_same [OF inv])
  let ?bc' = "SetPendingBlock bc (map Some txs)"
  let ?rest = "filter (\<lambda>tx. txHash tx \<notin> set (map txHash txs)) (mempool bc)"
  have eq: "pendingBlock ?bc' = txs" "mempool ?bc' = ?rest" "confirmedHashes ?bc' = confirmedHashes bc"
    by (simp_all add: SetPendingBlock_def)
  have ok: "inflight_ok bc" using inv by (simp add: chain_inv_def)
  have d: "distinct (mempool bc)" using ok by (simp add: inflight_ok_def distinct_map)
  have "distinct (txs @ ?rest)" using txs(2) d by (auto simp: distinct_map)
  moreover have "set (txs @ ?rest) \<subseteq> set (mempool bc)" using txs(1) by auto
  ultimately have "mset (txs @ ?rest) \<subseteq># mset (mempool bc)"
    using subset_imp_msubset_mset_set [of "set (txs @ ?rest)" "set (mempool bc)"] d by (simp only: mset_set_set finite_set)
  then have "mset (inflight ?bc') \<subseteq># mset (inflight bc)"
    unfolding eq by (simp add: subset_mset.order_trans [OF _ mset_subset_eq_add_right])
  then show "inflight_ok ?bc'" by (rule inflight_okI) (simp_all add: eq ok)
qed (simp_all add: SetPendingBlock_def)

lemma autoBlockCollectViaCycle_quiet:
  assumes "chain_inv (ndChain (hNode h))" "ledger (ndChain (hNode h))"
    and core: "\<And>c snap res. tiCycle ti c snap = Some res \<Longrightarrow> distinct (bcValidHashes res)"
  shows "quiet h (snd (autoBlockCollectViaCycle ti h))"
proof -
  let ?bc = "pruneMempoolBeforeL1 (tiWorld ti) (ndChain (hNode h))"
  let ?h1 = "set_chain ?bc h"
  have m: "mempool_only (ndChain (hNode h)) ?bc" by (rule mempool_only_prune)
  have inv: "chain_inv ?bc" "ledger ?bc" "blockHistory ?bc = blockHistory (ndChain (hNode h))"
    using mempool_only_inv [OF m assms(1)] m assms(2) by (simp_all add: mempool_only_def)
  have l1: "quiet h (snd (autoBlockCollectL1 ti ?h1))"
    using autoBlockCollectL1_quiet [of ?h1 ti] inv by (simp add: quiet_def)
  have q: "quiet h ?h1" using inv by (simp add: quiet_def)
  have rm: "quiet h (set_chain (RemoveFromMempool ?bc hs) ?h1)" for hs
    using mempool_only_inv [OF mempool_only_remove [of ?bc hs] inv(1)] mempool_only_remove [of ?bc hs] inv
    by (simp add: quiet_def mempool_only_def)
  have sp: "quiet h (set_chain (SetPendingBlock ?bc (map Some (SelectTxsByHashes ?bc hs))) ?h1)" if "distinct hs" for hs
    using SetPendingBlock_inv [OF inv(1)] SelectTxsByHashes_sub [OF that, of ?bc] inv by (simp add: quiet_def) (simp add: SetPendingBlock_def Let_def)
  show ?thesis
    using l1 q rm sp core
    by (auto simp: autoBlockCollectViaCycle_def Let_def split: option.split)
qed

text \<open>The invariant kept and at most \<open>n\<close> blocks appended.\<close>

definition grows :: "nat \<Rightarrow> ('c, 'r) handler \<Rightarrow> ('c, 'r) handler \<Rightarrow> bool" where
  "grows n h h' \<longleftrightarrow> chain_inv (ndChain (hNode h')) \<and> ledger (ndChain (hNode h')) \<and>
     (\<exists>ext. blockHistory (ndChain (hNode h')) = blockHistory (ndChain (hNode h)) @ ext \<and> length ext \<le> n)"

lemma quiet_grows: "quiet h h' \<Longrightarrow> grows n h h'"
  by (simp add: quiet_def grows_def)

lemma grows_trans: "grows m h h1 \<Longrightarrow> grows n h1 h2 \<Longrightarrow> grows (m + n) h h2"
  by (fastforce simp: grows_def)

lemma grows_mono: "grows m h h' \<Longrightarrow> m \<le> n \<Longrightarrow> grows n h h'"
  by (auto simp: grows_def)

lemma grows_abandon:
  assumes "grows n h h'"
  shows "grows n h (set_chain (snd (AbandonPendingBlock (ndChain (hNode h')) ds)) h')"
proof -
  have "inflight_ok (ndChain (hNode h'))" using assms by (simp add: grows_def chain_inv_def)
  from Abandon_all [OF this] Abandon_inv [of "ndChain (hNode h')" ds] assms show ?thesis by (simp add: grows_def)
qed

lemma l2_run_grows:
  assumes "chain_inv (ndChain (hNode h))" "ledger (ndChain (hNode h))" "length (blockHistory (ndChain (hNode h))) < 2 ^ 63" "safe_world w"
  shows "grows 1 h (snd (l2ConfirmBlockRun w evs id id h))"
proof -
  obtain resp h1 where r: "l2ConfirmBlockRun w evs id id h = (resp, h1)" by fastforce
  from l2_run_spec [OF r assms] show ?thesis by (auto simp: r grows_def confirmed_block_def unconfirmed_def Let_def)
qed

lemma autoBlockConfirmPending_grows:
  assumes "chain_inv (ndChain (hNode h))" "ledger (ndChain (hNode h))" "length (blockHistory (ndChain (hNode h))) < 2 ^ 63"
    "safe_world (tiWorld ti)"
  shows "grows 1 h (snd (autoBlockConfirmPending ti h))"
proof -
  have self: "grows 1 h h" using assms(1,2) by (simp add: grows_def)
  have req: "grows 1 h (snd (L2ConfirmBlock_request ti h))"
    using self l2_run_grows [OF assms] by (simp add: L2ConfirmBlock_request_def Let_def case_prod_beta)
  show ?thesis
    using self grows_abandon [OF self] req grows_abandon [OF req] by (simp add: autoBlockConfirmPending_def Let_def case_prod_beta)
qed

lemma drain_rounds_unfold:
  "drain_rounds inp k (Suc left) h =
     (let cont = (\<lambda>p. if fst p then drain_rounds inp (Suc k) left (snd p) else snd p); ti = inp k; bc = ndChain (hNode h)
      in if pendingBlock bc \<noteq> [] then cont (autoBlockConfirmPending ti h)
         else if tiStatus ti (MempoolSnapshotJSON bc) \<noteq> Some True then h
         else if coreBlockCycleEnabled (tiCycleEnv ti) (tiRpc ti) (wPeers (tiWorld ti))
         then cont (autoBlockCollectViaCycle ti h) else cont (autoBlockCollectL1 ti h))"
  by (simp add: Let_def case_prod_beta split: option.split bool.split)

lemma drain_rounds_grows:
  assumes "chain_inv (ndChain (hNode h))" "ledger (ndChain (hNode h))" "length (blockHistory (ndChain (hNode h))) + left < 2 ^ 63"
    and w: "\<And>j. safe_world (tiWorld (inp j))"
    and core: "\<And>j c snap res. tiCycle (inp j) c snap = Some res \<Longrightarrow> distinct (bcValidHashes res)"
  shows "grows left h (drain_rounds inp k left h)"
  using assms(1-3)
proof (induction left arbitrary: k h)
  case 0
  then show ?case by (simp add: grows_def)
next
  case (Suc left)
  have cont: "grows (Suc left) h (if fst p then drain_rounds inp (Suc k) left (snd p) else snd p)" if g: "grows 1 h (snd p)" for p
  proof (cases "fst p")
    case True
    have "length (blockHistory (ndChain (hNode (snd p)))) + left < 2 ^ 63" using g Suc.prems(3) by (auto simp: grows_def)
    then have "grows left (snd p) (drain_rounds inp (Suc k) left (snd p))" using g by (intro Suc.IH) (simp_all add: grows_def)
    from grows_trans [OF g this] True show ?thesis by simp
  next
    case False
    then show ?thesis using grows_mono [OF g] by simp
  qed
  have "grows 1 h (snd (autoBlockConfirmPending (inp k) h))"
    using Suc.prems w by (intro autoBlockConfirmPending_grows) simp_all
  moreover have "grows 1 h (snd (autoBlockCollectViaCycle (inp k) h))" "grows 1 h (snd (autoBlockCollectL1 (inp k) h))"
    using Suc.prems core by (auto intro!: quiet_grows autoBlockCollectViaCycle_quiet autoBlockCollectL1_quiet)
  moreover have "grows (Suc left) h h" using Suc.prems by (simp add: grows_def)
  ultimately show ?case unfolding drain_rounds_unfold Let_def using cont by simp
qed

subsection \<open>Properties\<close>

text \<open>
  C7: an L2 run is all or nothing across the chain, Core's state, Rocks, the votes and the rewards. From a sound chain
  with a ledger (fewer than \<open>2 ^ 63\<close> blocks), with nobody else writing and a file system that can restore the backup, it either reports a confirmed
  block, and then exactly the pending transactions are in one new block on top, accepted by Rocks when it is on, stamped with the counts of the
  accepted round, with the backup gone; or it reports an error, and then the history, Core's state, the confirmed set and all earnings are as before and
  the same transactions are still waiting, pending or in the mempool.
\<close>

theorem l2_run_all_or_nothing:
  assumes "l2ConfirmBlockRun w events id id h = (resp, h')"
    and "chain_inv (ndChain (hNode h))" "ledger (ndChain (hNode h))" "length (blockHistory (ndChain (hNode h))) < 2 ^ 63" "safe_world w"
  shows "case resp of L2Confirmed b n \<Rightarrow> confirmed_block w h b h' | _ \<Rightarrow> unconfirmed h h'"
  using l2_run_spec [OF assms] by (cases resp) auto

definition solo_world :: "(nat, unit) world" where
  "solo_world = \<lparr>wMyId = ''n0'', wPeers = [], wConnected = [], wTestnet = False, wUnsignedVotes = [], wDegraded = [], wDagOrdering = ''0'',
     wDagP2P = ''0'', wEd = toy_ed, wRnd = (\<lambda>k n. 0), wL1Core = \<lparr>lcVerify = None, lcValidateTx = (\<lambda>c j. None)\<rparr>, wCommittee = None,
     wVoteCore = None, wSelect = Some (\<lambda>c snap. Some [''h1'', ''h2'']), wDagOrder = (\<lambda>n ds. None), wGenesis = None, wPropose = (\<lambda>a ps ds. None),
     wTryCommit = (\<lambda>c. None), wRocksBlocks = None, wQuery = (\<lambda>a. None), wNow = (\<lambda>a. 0), wRm = (\<lambda>h. True), wEnv = plain_env, wCore = counting_core,
     wIO = good_io, wFinal = no_header_api\<lparr>fxRocks := False\<rparr>, wFinalIO = good_io, wFailPoint = FailPointNone, wRewardNode = reward_nd0,
     wDurationMs = 7\<rparr>"

definition idle_voting :: voting where
  "idle_voting = \<lparr>vtRegistry = [], l1VoteRound = None, l2VoteRound = None, l1VotedIds = [], l2VotedIds = [], lastL1Votes = [], lastL2Votes = [],
     lastL1Accepted = False, lastL2Accepted = False\<rparr>"

definition solo_handler :: "nat Blockchain \<Rightarrow> (nat, unit) handler" where
  "solo_handler bc = \<lparr>hNode = \<lparr>ndChain = bc, ndRocks = (), ndCommitErrors = 0\<rparr>, hVoting = idle_voting, hRewards = reward_st0,
     pendingL1Beneficiary = []\<rparr>"

lemma solo_round: "fst (fst (run_round solo_world layer b evs vt))"
proof -
  let ?rd = "open_round ''n0'' [''n0''] b"
  have ids: "committee_list None rnd r ''n0'' [''n0''] l b = []" for rnd r l
    by (simp add: committee_list_def to_select_def Let_def)
  have rd: "vrClosed ?rd" "vrDone ?rd = Some True" by (simp_all add: open_round_def close_round_def)
  have run: "snd (round_run ed env layer (r, ?rd) es) = ?rd" for ed env r es
    using closed_run [of "(r, ?rd)" "[''n0'']"] rd(1) by simp
  show ?thesis
    by (simp add: run_round_def candidates_def solo_world_def ids committee_set_def Let_def case_prod_beta run complete_round_def
        round_verdict_def finalizeVoteRoundWithCore_def rd(2) maybeDegradedAccept_def)
qed

lemma solo_safe: "safe_world solo_world"
  by (simp add: safe_world_def solo_world_def good_io_def)

lemma pending_chain_inv: "chain_inv pending_chain"
  by (simp add: chain_inv_def inflight_ok_def chain_hashes_def pending_chain_simps sender_nonce_def in_i64_def)

lemma solo_confirms: "\<exists>b n. fst (l2ConfirmBlockRun solo_world evs id id (solo_handler pending_chain)) = L2Confirmed b n"
proof -
  let ?b = "computeVoteBlockID ''l2'' (NextBlockNumber pending_chain)
    (txHashesFromTransactions (map Some (pendingBlock pending_chain))) (state_root solo_world pending_chain)"
  obtain rd vt where rr: "run_round solo_world L2 ?b evs idle_voting = ((True, rd), vt)"
    using solo_round [of L2 ?b evs idle_voting] by (metis prod.collapse)
  obtain moved block bc1 where "L2ConfirmBlock plain_env counting_core good_io id pending_chain = (Inr (moved, block, True), bc1)"
    using demo_success by blast
  then have L2: "L2ConfirmBlock (wEnv solo_world) (wCore solo_world) (wIO solo_world) id pending_chain = (Inr (moved, block, True), bc1)"
    by (simp add: solo_world_def)
  have nohdr: "assembleBlockHeader (wFinal solo_world) nd n txs pr t = None" for nd :: "(nat, unit) node" and n txs pr t
    by (simp add: assembleBlockHeader_def solo_world_def no_header_api_def)
  have off: "\<not> fxRocks (wFinal solo_world)" by (simp add: solo_world_def)
  show ?thesis
    using rr L2 off
    by (simp add: l2ConfirmBlockRun_def solo_handler_def pending_chain_simps(2) Let_def l2_finalise_def FinalizeConfirmedBlock_def nohdr)
qed

theorem l2_run_all_or_nothing_witness:
  "\<exists>b. confirmed_block solo_world (solo_handler pending_chain) b (snd (l2ConfirmBlockRun solo_world [] id id (solo_handler pending_chain)))"
proof -
  let ?r = "l2ConfirmBlockRun solo_world [] id id (solo_handler pending_chain)"
  obtain b n where "?r = (L2Confirmed b n, snd ?r)" using solo_confirms [of "[]"] by (metis prod.collapse)
  from l2_run_all_or_nothing [OF this] show ?thesis
    using solo_safe pending_chain_inv by (auto simp: solo_handler_def pending_chain_simps)
qed

text \<open>
  Remark: an L1 run, whatever Core answers and whatever votes arrive, touches neither the history nor Core's state nor the
  earnings. It collects only after an accepted round and only transactions of the mempool, each once, into the pending block;
  without a collection the pending block stays and the mempool can only lose transactions.
\<close>

theorem l1_run_effects:
  assumes "l1CollectBlockRun w events id h = (resp, h')" "inflight_ok (ndChain (hNode h))"
  shows "let bc = ndChain (hNode h); bc' = ndChain (hNode h')
    in blockHistory bc' = blockHistory bc \<and> stateFile bc' = stateFile bc \<and> confirmedHashes bc' = confirmedHashes bc \<and>
       hRewards h' = hRewards h \<and> inflight_ok bc' \<and>
       (case resp of
          L1Collected n \<Rightarrow> lastL1Accepted (hVoting h') \<and> length (pendingBlock bc') = n \<and>
            mset (pendingBlock bc') + mset (mempool bc') \<subseteq># mset (mempool bc)
        | _ \<Rightarrow> pendingBlock bc' = pendingBlock bc \<and> mset (mempool bc') \<subseteq># mset (mempool bc))"
  using assms(1)
proof (cases rule: l1_run_cases)
  case (stopped bc)
  then show ?thesis using mempool_only_ok [OF stopped(1) assms(2)] by (cases resp) (simp_all add: mempool_only_def)
next
  case (rejected bc vt)
  then show ?thesis using mempool_only_ok [OF rejected(1) assms(2)] by (cases resp) (simp_all add: mempool_only_def)
next
  case (collected bc vt selected)
  have "inflight_ok (snd (L1CollectSelected bc selected))"
    by (rule L1CollectSelected_ok) (rule mempool_only_ok [OF collected(1) assms(2)])
  then show ?thesis
    using collected L1CollectSelected_moved [OF collected(2), of bc] by (simp add: mempool_only_def L1CollectSelected_view)
qed

theorem l1_run_effects_witness:
  "stateFile (ndChain (hNode (snd (l1CollectBlockRun solo_world [] id (solo_handler pending_chain))))) = 40"
proof -
  let ?r = "l1CollectBlockRun solo_world [] id (solo_handler pending_chain)"
  have "?r = (fst ?r, snd ?r)" by simp
  from l1_run_effects [OF this] pending_chain_inv show ?thesis
    by (simp add: solo_handler_def pending_chain_simps chain_inv_def Let_def)
qed

text \<open>Re-queueing appends candidates with new hashes to the mempool; it compares hashes only, not nonces.\<close>

lemma requeue_fold:
  assumes "foldl (requeue_step led query bc) (pool, busy) cands = (pool', busy')" and "\<forall>tx \<in> set cands. txHash tx \<noteq> []"
  shows "\<exists>ys. pool' = pool @ ys \<and> mset ys \<subseteq># mset cands \<and> distinct (map txHash ys) \<and>
    (\<forall>tx \<in> set ys. txHash tx \<noteq> [] \<and> txHash tx \<notin> busy \<and> txHash tx \<notin> confirmedHashes bc)"
  using assms
proof (induction cands arbitrary: pool busy)
  case (Cons tx cands)
  show ?case
  proof (cases "requeue_step led query bc (pool, busy) tx = (pool, busy)")
    case True
    then have "foldl (requeue_step led query bc) (pool, busy) cands = (pool', busy')" using Cons.prems(1) by simp
    from Cons.IH [OF this] Cons.prems(2) obtain ys where ys: "pool' = pool @ ys" "mset ys \<subseteq># mset cands" "distinct (map txHash ys)"
      "\<forall>tx \<in> set ys. txHash tx \<noteq> [] \<and> txHash tx \<notin> busy \<and> txHash tx \<notin> confirmedHashes bc"
      by auto
    then have "mset ys \<subseteq># mset (tx # cands)" by (simp add: subset_mset.order_trans [OF ys(2)])
    with ys show ?thesis by blast
  next
    case False
    then have st: "requeue_step led query bc (pool, busy) tx = (pool @ [tx], insert (txHash tx) busy)"
      and new: "txHash tx \<notin> busy" "txHash tx \<notin> confirmedHashes bc"
      by (auto simp: requeue_step_def Let_def split: if_splits)
    then have "foldl (requeue_step led query bc) (pool @ [tx], insert (txHash tx) busy) cands = (pool', busy')"
      using Cons.prems(1) by simp
    from Cons.IH [OF this] Cons.prems(2) obtain ys where ys: "pool' = (pool @ [tx]) @ ys" "mset ys \<subseteq># mset cands" "distinct (map txHash ys)"
      "\<forall>u \<in> set ys. txHash u \<noteq> [] \<and> txHash u \<notin> insert (txHash tx) busy \<and> txHash u \<notin> confirmedHashes bc"
      by auto
    then show ?thesis using new Cons.prems(2) by (intro exI [of _ "tx # ys"]) auto
  qed
qed (auto intro: exI [of _ "[]"])

lemma requeue_ok:
  assumes ok: "inflight_ok bc" and nonces: "distinct (map sender_nonce (inflight bc @ requeue_candidates now bc))"
  shows "inflight_ok (snd (RequeueUnconfirmedEscrows now query bc bc))"
proof (cases "requeue_candidates now bc = []")
  case False
  let ?busy = "{h \<in> set (map txHash (inflight bc @ inflight bc)). h \<noteq> []}"
  obtain pool busy' where f: "foldl (requeue_step (ledger bc) query bc) (mempool bc, ?busy) (requeue_candidates now bc) = (pool, busy')"
    by fastforce
  have "\<forall>tx \<in> set (requeue_candidates now bc). txHash tx \<noteq> []" by (auto simp: requeue_candidates_def escrowAwaitingBlock_def)
  from requeue_fold [OF f this] obtain ys where ys: "pool = mempool bc @ ys" "mset ys \<subseteq># mset (requeue_candidates now bc)"
    "distinct (map txHash ys)" "\<forall>tx \<in> set ys. txHash tx \<noteq> [] \<and> txHash tx \<notin> ?busy \<and> txHash tx \<notin> confirmedHashes bc"
    by blast
  have r: "snd (RequeueUnconfirmedEscrows now query bc bc) = bc\<lparr>mempool := mempool bc @ ys\<rparr>"
    using False f ys(1) by (simp add: RequeueUnconfirmedEscrows_def Let_def)
  have "mset (inflight bc @ ys) \<subseteq># mset (inflight bc @ requeue_candidates now bc)" using ys(2) by simp
  then have dn: "distinct (map sender_nonce (inflight bc @ ys))" using nonces by (rule mset_sub_distinct)
  have "set (map txHash ys) \<inter> set (map txHash (inflight bc)) = {}" using ys(4) by auto
  then have "distinct (map txHash (inflight bc @ ys))" using ok ys(3) by (auto simp: inflight_ok_def)
  with dn have "inflight_ok (bc\<lparr>mempool := mempool bc @ ys\<rparr>)" using ok ys(4) by (auto simp: inflight_ok_def)
  then show ?thesis by (simp add: r)
qed (simp add: ok RequeueUnconfirmedEscrows_def)

lemma requeue_frame:
  "blockHistory (snd (RequeueUnconfirmedEscrows now query bc bc')) = blockHistory bc'"
  "blockCounter (snd (RequeueUnconfirmedEscrows now query bc bc')) = blockCounter bc'"
  "confirmedHashes (snd (RequeueUnconfirmedEscrows now query bc bc')) = confirmedHashes bc'"
  "ledger (snd (RequeueUnconfirmedEscrows now query bc bc')) = ledger bc'"
  by (simp_all add: RequeueUnconfirmedEscrows_def Let_def case_prod_beta)

lemma requeue_inv:
  assumes "chain_inv bc" and "distinct (map sender_nonce (inflight bc @ requeue_candidates now bc))"
  shows "chain_inv (snd (RequeueUnconfirmedEscrows now query bc bc))"
  using assms by (intro chain_inv_same [OF assms(1)]) (simp_all add: requeue_ok requeue_frame chain_inv_def)

text \<open>
  C8: a tick of the background worker keeps the chain sound. Started on a sound chain with a ledger, where the indexed
  escrows that are about to be re-queued share no sender and nonce with each other or with what is in flight, and with
  fewer than \<open>2 ^ 63\<close> blocks in the end, one \<open>autoBlockTick\<close> (the re-queueing of escrows and then the drain loop) ends, with any
  answers of Core, any votes and any failing commits, with a sound chain whose history extends the old one by at most one
  block per round, at most \<open>autoBlockDrainMaxRounds\<close> of them. (The lists of hashes Core's block cycle returns name no hash twice,
  the backup of Core's state can be restored and removed, no crash is injected, and nobody else writes meanwhile.)
\<close>

theorem autoBlockTick_keeps_chain:
  assumes "chain_inv (ndChain (hNode h))" "ledger (ndChain (hNode h))"
    and "length (blockHistory (ndChain (hNode h))) + autoBlockDrainMaxRounds env < 2 ^ 63"
    and "distinct (map sender_nonce (inflight (ndChain (hNode h)) @ requeue_candidates now (ndChain (hNode h))))"
    and "\<And>j. safe_world (tiWorld (inp j))"
    and "\<And>j c snap res. tiCycle (inp j) c snap = Some res \<Longrightarrow> distinct (bcValidHashes res)"
  shows "let h' = autoBlockTick inp env now query h
    in chain_inv (ndChain (hNode h')) \<and>
       (\<exists>ext. blockHistory (ndChain (hNode h')) = blockHistory (ndChain (hNode h)) @ ext \<and> length ext \<le> autoBlockDrainMaxRounds env)"
proof -
  let ?bc = "snd (RequeueUnconfirmedEscrows now query (ndChain (hNode h)) (ndChain (hNode h)))"
  have "chain_inv (ndChain (hNode (set_chain ?bc h)))" using requeue_inv [OF assms(1,4)] by simp
  from drain_rounds_grows [where inp = inp and k = 0, OF this _ _ assms(5,6)] show ?thesis
    using assms(2,3) by (simp add: autoBlockTick_def Let_def grows_def requeue_frame)
qed

definition solo_input :: "(nat, unit) tick_input" where
  "solo_input = \<lparr>tiWorld = solo_world, tiEvents = [], tiStatus = (\<lambda>s. Some True), tiRpc = True, tiCycleEnv = [],
     tiCycle = (\<lambda>c s. Some \<lparr>bcOK = True, bcValidHashes = [''h1''], bcError = [], bcL1 = []\<rparr>), tiRestURL = (\<lambda>i. []), tiForward = None\<rparr>"

theorem autoBlockTick_keeps_chain_witness:
  "chain_inv (ndChain (hNode (autoBlockTick (\<lambda>j. solo_input) [] 9 (\<lambda>a. None) (solo_handler pending_chain))))"
proof -
  have "autoBlockDrainMaxRounds [] = 12" by (simp add: autoBlockDrainMaxRounds_def TrimSpace_def)
  moreover have "requeue_candidates 9 pending_chain = []" by (simp add: requeue_candidates_def pending_chain_def NewBlockchain_def)
  ultimately show ?thesis
    using autoBlockTick_keeps_chain [of "solo_handler pending_chain" "[]" 9 "\<lambda>j. solo_input" "\<lambda>a. None"] solo_safe pending_chain_inv
    by (simp add: solo_handler_def pending_chain_simps solo_input_def chain_inv_def inflight_ok_def Let_def)
qed

text \<open>
  Remark: the re-queueing of escrows does not look at nonces. Two unconfirmed escrow transactions of one sender with one
  nonce in the index (one of them replaced while in flight, or gossiped) are both put back into the mempool, which admission
  never allows.
\<close>

definition twin_escrow :: "string \<Rightarrow> Transaction" where
  "twin_escrow h = (signed_tx h 0)\<lparr>txType := ''escrow_lock''\<rparr>"

definition twin_chain :: "nat Blockchain" where
  "twin_chain = (NewBlockchain 0)\<lparr>ledger := True, transactions := [(''h1'', twin_escrow ''h1''), (''h2'', twin_escrow ''h2'')]\<rparr>"

lemma requeue_doubles_nonce:
  "chain_inv twin_chain \<and> mempool (snd (RequeueUnconfirmedEscrows 9 (\<lambda>a. None) twin_chain twin_chain)) = [twin_escrow ''h1'', twin_escrow ''h2''] \<and>
   sender_nonce (twin_escrow ''h1'') = sender_nonce (twin_escrow ''h2'')"
proof -
  have t: "escrowAwaitingBlock (twin_escrow h) \<longleftrightarrow> h \<noteq> []" "txHash (twin_escrow h) = h" "txTimestamp (twin_escrow h) = 7"
    "txFrom (twin_escrow h) = ''Pxa''" "txNonce (twin_escrow h) = 0" "txBlockNumber (twin_escrow h) = 0" for h
    by (simp_all add: twin_escrow_def escrowAwaitingBlock_def signed_tx_def tx0_def)
  have c: "pendingBlock twin_chain = []" "mempool twin_chain = []" "confirmedHashes twin_chain = {}" "blockHistory twin_chain = []"
    "blockCounter twin_chain = 0" "transactions twin_chain = [(''h1'', twin_escrow ''h1''), (''h2'', twin_escrow ''h2'')]"
    by (simp_all add: twin_chain_def NewBlockchain_def)
  have "requeue_candidates 9 twin_chain = [twin_escrow ''h1'', twin_escrow ''h2'']"
    by (simp add: requeue_candidates_def c t mempoolFutureMaxAgeSec_def in_i64_def insort_key_def)
  then show ?thesis
    by (simp add: RequeueUnconfirmedEscrows_def requeue_step_def c t chain_inv_def chain_hashes_def inflight_ok_def in_i64_def
        sender_nonce_def)
qed

text \<open>
  Remark: collecting while a block is still pending loses that block's transactions: they are neither pending nor in the
  mempool afterwards.
\<close>

lemma l1_collect_drops_pending:
  assumes "l1CollectBlockRun w events id h = (L1Collected n, h')" "inflight_ok (ndChain (hNode h))" "tx \<in> set (pendingBlock (ndChain (hNode h)))"
  shows "tx \<notin> set (inflight (ndChain (hNode h')))"
  using assms(1)
proof (cases rule: l1_run_cases)
  case (collected bc vt selected)
  have "set (inflight (ndChain (hNode h'))) \<subseteq> set (mempool (ndChain (hNode h)))"
    using collected(1,5) L1CollectSelected_moved [OF collected(2), of bc] unfolding mempool_only_def
    by (simp add: set_mset_mono flip: set_mset_mset)
  moreover have "tx \<notin> set (mempool (ndChain (hNode h)))" using assms(2,3) by (auto simp: inflight_ok_def)
  ultimately show ?thesis by blast
qed simp_all

text \<open>
  Remark: a transaction that Core refused for its future nonce is put to the vote and into the block although the validation
  outcome lists only the accepted ones as valid.
\<close>

definition nonce_core :: "nat l1_core" where
  "nonce_core = \<lparr>lcVerify = Some (\<lambda>c js. Inr \<lparr>lvValid = False, lvError = ''nonce gap'', lvTxResults =
     [\<lparr>trHash = ''h1'', trValid = True, trError = []\<rparr>,
      \<lparr>trHash = ''h2'', trValid = False, trError = ''invalid nonce: expected 1, got 7''\<rparr>]\<rparr>), lcValidateTx = (\<lambda>c j. None)\<rparr>"

lemma l1_packs_refused:
  "let txs = [signed_tx ''h1'' 0, signed_tx ''h2'' 7]
   in ValidTxs (validateTxsForL1 nonce_core pending_chain (map Some txs)) = [Some (signed_tx ''h1'' 0)] \<and>
      fst (l1_prepare (solo_world\<lparr>wL1Core := nonce_core\<rparr>) txs pending_chain) = Inr txs"
proof -
  let ?t1 = "signed_tx ''h1'' 0" and ?t2 = "signed_tx ''h2'' 7"
  have "ToLower ''invalid nonce: expected 1, got 7'' = nonce_message 1 7" by code_simp
  then have kept: "\<not> isPermanentMempoolInvalid ''invalid nonce: expected 1, got 7''" using isPermanent_nonce by fastforce
  have nf: "\<not> is_faucet ?t1" "\<not> is_faucet ?t2" by (simp_all add: is_faucet_def pending_chain_simps FaucetAddress_def)
  obtain j1 j2 where "ToCoreJSON ?t1 = Some j1" "ToCoreJSON ?t2 = Some j2" using pending_chain_simps(12) by blast
  then have "txsToCoreJSONArray [Some ?t1, Some ?t2] = Some [j1, j2]" using nf by simp
  then have "validateTxsForL1 nonce_core pending_chain [Some ?t1, Some ?t2] = accepted_txs [Some ?t1]"
    using kept nf
    by (simp add: validateTxsForL1_def pending_chain_simps nonce_core_def L1VerifyTxs_def read_results_def invalid_hashes_def good_txs_def
        valid_hash_def Let_def)
  then show ?thesis by (simp add: Let_def l1_prepare_def accepted_txs_def)
qed

end
