(* ===== verification/Limits.thy ===== *)
theory Limits
  imports Explorer Hashing
begin

text \<open>
  The faucet with its cooldown file, \<open>internal/faucet/cooldown.go\<close> and \<open>Faucet\<close> of
  \<open>internal/handlers/handlers.go\<close>, and the request limiter, \<open>internal/ratelimit/limiter.go\<close>.

  A \<open>time.Time\<close> is its Unix time in nanoseconds, a \<open>time.Duration\<close> its nanoseconds. The cooldown file
  is the map that was encoded into it; a write goes through a temporary file and a rename, so it either
  replaces the file or leaves it.
\<close>

subsection \<open>Times\<close>

definition Second :: int where "Second = 1000000000"
definition Hour :: int where "Hour = 3600 * Second"

definition Unix :: "int \<Rightarrow> int" where
  "Unix now = now div Second"

text \<open>\<open>t.Sub(u)\<close> saturates at the ends of \<open>Duration\<close>.\<close>

definition time_Sub :: "int \<Rightarrow> int \<Rightarrow> int" where
  "time_Sub t u = max MinInt64 (min MaxInt64 (t - u))"

subsection \<open>The cooldown store\<close>

record CooldownStore =
  cdCooldown :: int
  cdClaims :: "(string \<times> int) list"
  cdFile :: "(string \<times> int) list option"

datatype cooldown_error = CooldownDir | CooldownRead | CooldownParse | AddressRequired | CooldownPersist

definition defaultCooldown :: int where
  "defaultCooldown = 24 * Hour"

definition normalizeAddress :: "string \<Rightarrow> string" where
  "normalizeAddress address = TrimSpace address"

text \<open>What reading the file gives: no file, an error, undecodable text, or the decoded map (\<open>None\<close> for
  a missing or null \<open>claims\<close>).\<close>

datatype claims_file = NoFile | ReadError | BadJSON | Claims "(string \<times> int) list option"

definition load_claims :: "claims_file \<Rightarrow> cooldown_error + (string \<times> int) list" where
  "load_claims f =
     (case f of NoFile \<Rightarrow> Inr [] | ReadError \<Rightarrow> Inl CooldownRead | BadJSON \<Rightarrow> Inl CooldownParse
      | Claims None \<Rightarrow> Inr [] | Claims (Some m) \<Rightarrow> Inr m)"

definition on_disk :: "claims_file \<Rightarrow> (string \<times> int) list option" where
  "on_disk f = (case f of Claims m \<Rightarrow> m | _ \<Rightarrow> None)"

definition NewCooldownStore :: "bool \<Rightarrow> claims_file \<Rightarrow> int \<Rightarrow> cooldown_error + CooldownStore" where
  "NewCooldownStore mkdir_ok f cooldown =
     (if \<not> mkdir_ok then Inl CooldownDir
      else case load_claims f of
          Inl e \<Rightarrow> Inl e
        | Inr m \<Rightarrow> Inr \<lparr>cdCooldown = (if cooldown \<le> 0 then defaultCooldown else cooldown), cdClaims = m, cdFile = on_disk f\<rparr>)"

definition persist_claims :: "bool \<Rightarrow> CooldownStore \<Rightarrow> cooldown_error option \<times> CooldownStore" where
  "persist_claims ok s = (if ok then (None, s\<lparr>cdFile := Some (cdClaims s)\<rparr>) else (Some CooldownPersist, s))"

definition next_claim :: "CooldownStore \<Rightarrow> int \<Rightarrow> int" where
  "next_claim s last_at = last_at * Second + cdCooldown s"

definition Remaining :: "CooldownStore \<Rightarrow> string \<Rightarrow> int \<Rightarrow> int" where
  "Remaining s address now =
     (let key = normalizeAddress address
      in if key = [] then 0
         else case map_of (cdClaims s) key of
             None \<Rightarrow> 0
           | Some last_at \<Rightarrow>
               (if last_at \<le> 0 \<or> now \<ge> next_claim s last_at then 0 else time_Sub (next_claim s last_at) now))"

definition RecordClaim :: "bool \<Rightarrow> CooldownStore \<Rightarrow> string \<Rightarrow> int \<Rightarrow> cooldown_error option \<times> CooldownStore" where
  "RecordClaim ok s address now =
     (let key = normalizeAddress address
      in if key = [] then (Some AddressRequired, s)
         else persist_claims ok (s\<lparr>cdClaims := AList.update key (Unix now) (cdClaims s)\<rparr>))"

definition TryClaim :: "bool \<Rightarrow> CooldownStore \<Rightarrow> string \<Rightarrow> int \<Rightarrow> (cooldown_error + int) \<times> CooldownStore" where
  "TryClaim ok s address now =
     (let key = normalizeAddress address
      in if key = [] then (Inl AddressRequired, s)
         else
           let blocked = (case map_of (cdClaims s) key of
                            Some last_at \<Rightarrow> last_at > 0 \<and> now < next_claim s last_at | None \<Rightarrow> False)
           in if blocked then (Inr (time_Sub (next_claim s (the (map_of (cdClaims s) key))) now), s)
              else
                case persist_claims ok (s\<lparr>cdClaims := AList.update key (Unix now) (cdClaims s)\<rparr>) of
                  (None, s1) \<Rightarrow> (Inr 0, s1)
                | (Some e, s1) \<Rightarrow>
                    (Inl e, s1\<lparr>cdClaims := (case map_of (cdClaims s) key of
                                             Some prev \<Rightarrow> AList.update key prev (cdClaims s1)
                                           | None \<Rightarrow> AList.delete key (cdClaims s1))\<rparr>))"

definition ReleaseClaim :: "bool \<Rightarrow> CooldownStore \<Rightarrow> string \<Rightarrow> cooldown_error option \<times> CooldownStore" where
  "ReleaseClaim ok s address =
     (let key = normalizeAddress address
      in if key = [] then (Some AddressRequired, s)
         else persist_claims ok (s\<lparr>cdClaims := AList.delete key (cdClaims s)\<rparr>))"

text \<open>\<open>FormatWait\<close>; \<open>int(d.Seconds())\<close> is the truncated number of seconds for every duration below
  \<open>2 ^ 24\<close> seconds, where the \<open>float64\<close> sum cannot round up to the next second.\<close>

definition plural :: "int \<Rightarrow> string" where
  "plural n = (if n = 1 then [] else ''s'')"

definition unit_part :: "int \<Rightarrow> string \<Rightarrow> string" where
  "unit_part n u = FormatInt n @ '' '' @ u @ plural n"

definition FormatWait :: "int \<Rightarrow> int \<times> int \<times> int \<times> string" where
  "FormatWait d0 =
     (let d = max 0 d0; t = d div Second; hours = t div 3600; minutes = (t mod 3600) div 60; seconds = t mod 60;
          p1 = (if hours > 0 then [unit_part hours ''hour''] else []);
          p2 = p1 @ (if minutes > 0 then [unit_part minutes ''minute''] else []);
          parts = p2 @ (if seconds > 0 \<or> p2 = [] then [unit_part seconds ''second''] else [])
      in (hours, minutes, seconds, Join CHR '' '' parts))"

subsection \<open>The faucet\<close>

definition isValidFaucetAddress :: "string \<Rightarrow> bool" where
  "isValidFaucetAddress address =
     (let a = TrimSpace address in \<not> (length a < 8 \<or> length a > 128) \<and> HasPrefix a ''Px'')"

definition faucetCooldownFromEnv :: "string \<Rightarrow> int" where
  "faucetCooldownFromEnv raw =
     (let v = TrimSpace raw
      in if v \<noteq> [] \<and> snd (ParseInt v) = None \<and> fst (ParseInt v) > 0 then i64 (fst (ParseInt v) * Hour) else 24 * Hour)"

definition MelancholyFaucetAmountPLP :: u64 where
  "MelancholyFaucetAmountPLP = 5000"

definition faucetAmountFromEnv :: "string \<Rightarrow> u64" where
  "faucetAmountFromEnv raw =
     (let v = TrimSpace raw
      in if v \<noteq> [] \<and> snd (ParseUint v) = None \<and> fst (ParseUint v) > 0 then fst (ParseUint v) else MelancholyFaucetAmountPLP)"

record 'c faucet_state =
  fsStore :: "CooldownStore option"
  fsChain :: "'c Blockchain"

record 'c faucet_request =
  fqAddress :: string
  fqNow :: int
  fqHash :: string
  fqTxTime :: int
  fqClaimWritten :: bool
  fqReleaseWritten :: bool
  fqChainWritten :: bool
  fqCore :: "'c core_api"

datatype faucet_response =
    FaucetForbidden | FaucetUnavailable | FaucetBadAddress | FaucetNoStore | FaucetClaimFailed
  | FaucetCooling int | FaucetFailed faucet_error | FaucetCredited Transaction

definition faucet_amount :: "u64 \<Rightarrow> u64" where
  "faucet_amount configured = (if configured = 0 then MelancholyFaucetAmountPLP else configured)"

definition Faucet :: "bool \<Rightarrow> u64 \<Rightarrow> 'c faucet_request \<Rightarrow> 'c faucet_state \<Rightarrow> faucet_response \<times> 'c faucet_state" where
  "Faucet testnet configured rq st =
     (let address = TrimSpace (fqAddress rq)
      in if \<not> testnet then (FaucetForbidden, st)
         else if \<not> ledger (fsChain st) then (FaucetUnavailable, st)
         else if \<not> isValidFaucetAddress address then (FaucetBadAddress, st)
         else case fsStore st of
             None \<Rightarrow> (FaucetNoStore, st)
           | Some s \<Rightarrow>
               (case TryClaim (fqClaimWritten rq) s address (fqNow rq) of
                  (Inl e, s1) \<Rightarrow> (FaucetClaimFailed, st\<lparr>fsStore := Some s1\<rparr>)
                | (Inr wait, s1) \<Rightarrow>
                    (if wait > 0 then (FaucetCooling wait, st\<lparr>fsStore := Some s1\<rparr>)
                     else
                       case InstantFaucetCredit (fqCore rq) (fqChainWritten rq) (fqHash rq) (fqTxTime rq) (fsChain st)
                              address (faucet_amount configured) of
                         (Inl e, bc) \<Rightarrow>
                           (FaucetFailed e, st\<lparr>fsStore := Some (snd (ReleaseClaim (fqReleaseWritten rq) s1 address)), fsChain := bc\<rparr>)
                       | (Inr tx, bc) \<Rightarrow> (FaucetCredited tx, st\<lparr>fsStore := Some s1, fsChain := bc\<rparr>))))"

subsection \<open>The request limiter\<close>

record bucket =
  bkCount :: int
  bkResetAt :: int

record Limiter =
  lmBuckets :: "(string \<times> bucket) list"
  lmLimit :: int
  lmWindow :: int

definition NewLimiter :: "int \<Rightarrow> int \<Rightarrow> Limiter" where
  "NewLimiter limit window =
     \<lparr>lmBuckets = [], lmLimit = (if limit \<le> 0 then 30 else limit), lmWindow = (if window \<le> 0 then 60 * Second else window)\<rparr>"

definition Allow :: "int \<Rightarrow> string \<Rightarrow> Limiter \<Rightarrow> bool \<times> Limiter" where
  "Allow now key l =
     (case map_of (lmBuckets l) key of
        Some b \<Rightarrow>
          (if now > bkResetAt b
           then (True, l\<lparr>lmBuckets := AList.update key \<lparr>bkCount = 1, bkResetAt = now + lmWindow l\<rparr> (lmBuckets l)\<rparr>)
           else if bkCount b \<ge> lmLimit l then (False, l)
           else (True, l\<lparr>lmBuckets := AList.update key (b\<lparr>bkCount := bkCount b + 1\<rparr>) (lmBuckets l)\<rparr>))
      | None \<Rightarrow>
          (True, l\<lparr>lmBuckets := AList.update key \<lparr>bkCount = 1, bkResetAt = now + lmWindow l\<rparr> (lmBuckets l)\<rparr>))"

text \<open>\<open>allowContactRate\<close>; the client address and the device header are read from the request.\<close>

definition rate_key :: "string \<Rightarrow> string \<Rightarrow> string \<Rightarrow> string" where
  "rate_key action ip dev = (if dev \<noteq> [] then action @ ''|dev:'' @ dev else action @ ''|'' @ ip)"

definition allowContactRate :: "int \<Rightarrow> string \<Rightarrow> string \<Rightarrow> string \<Rightarrow> Limiter option \<Rightarrow> bool \<times> Limiter option" where
  "allowContactRate now ip dev action l =
     (case l of
        None \<Rightarrow> (True, None)
      | Some lm \<Rightarrow> (let (ok, lm1) = Allow now (rate_key action ip (TrimSpace dev)) lm in (ok, Some lm1)))"

subsection \<open>One credit per cooldown\<close>

datatype 'c faucet_event =
    FaucetCall "'c faucet_request"
  | FaucetRestart
  | ChainMoves "'c Blockchain \<Rightarrow> 'c Blockchain"

definition faucet_restart :: "CooldownStore \<Rightarrow> CooldownStore option" where
  "faucet_restart s =
     (case NewCooldownStore True (case cdFile s of None \<Rightarrow> NoFile | Some m \<Rightarrow> Claims (Some m)) (cdCooldown s) of
        Inl e \<Rightarrow> None | Inr s1 \<Rightarrow> Some s1)"

fun faucet_step :: "bool \<Rightarrow> u64 \<Rightarrow> 'c faucet_state \<Rightarrow> 'c faucet_event \<Rightarrow> 'c faucet_state" where
  "faucet_step testnet amount st (FaucetCall rq) = snd (Faucet testnet amount rq st)"
| "faucet_step testnet amount st FaucetRestart =
     st\<lparr>fsStore := (case fsStore st of None \<Rightarrow> None | Some s \<Rightarrow> faucet_restart s)\<rparr>"
| "faucet_step testnet amount st (ChainMoves f) = st\<lparr>fsChain := f (fsChain st)\<rparr>"

definition claim_held :: "string \<Rightarrow> int \<Rightarrow> int \<Rightarrow> CooldownStore option \<Rightarrow> bool" where
  "claim_held key T c store \<longleftrightarrow>
     (case store of
        None \<Rightarrow> False
      | Some s \<Rightarrow> cdCooldown s = c \<and> map_of (cdClaims s) key = Some T
          \<and> (case cdFile s of None \<Rightarrow> False | Some m \<Rightarrow> map_of m key = Some T))"

lemma claim_held_store: "claim_held key T c store \<Longrightarrow> \<exists>s. store = Some s"
  by (cases store) (simp_all add: claim_held_def)

lemma TryClaim_other:
  assumes "claim_held key T c (Some s)" "normalizeAddress a \<noteq> key"
  shows "claim_held key T c (Some (snd (TryClaim ok s a now)))"
  using assms
  by (auto simp: TryClaim_def Let_def claim_held_def persist_claims_def split: option.splits)

lemma ReleaseClaim_other:
  assumes "claim_held key T c (Some s)" "normalizeAddress a \<noteq> key"
  shows "claim_held key T c (Some (snd (ReleaseClaim ok s a)))"
  using assms by (auto simp: ReleaseClaim_def Let_def claim_held_def persist_claims_def split: option.splits)

lemma TryClaim_blocked:
  assumes "claim_held key T c (Some s)" "normalizeAddress a = key" "key \<noteq> []" "0 < T" "now < T * Second + c"
  shows "\<exists>wait > 0. TryClaim ok s a now = (Inr wait, s)"
proof -
  have "map_of (cdClaims s) key = Some T" "cdCooldown s = c" using assms(1) by (simp_all add: claim_held_def)
  with assms show ?thesis
    by (auto simp: TryClaim_def Let_def next_claim_def time_Sub_def MaxInt64_def MinInt64_def)
qed

lemma Faucet_keeps_claim:
  assumes "claim_held key T c (fsStore st)" "key \<noteq> []" "0 < T" "fqNow rq < T * Second + c"
  shows "claim_held key T c (fsStore (snd (Faucet testnet amount rq st)))"
proof -
  obtain s where s: "fsStore st = Some s" using assms(1) by (auto simp: claim_held_def split: option.splits)
  define a where "a = TrimSpace (fqAddress rq)"
  have held: "claim_held key T c (Some s)" using assms(1) s by simp
  show ?thesis
  proof (cases "normalizeAddress a = key")
    case True
    then obtain wait where "0 < wait" "TryClaim (fqClaimWritten rq) s a (fqNow rq) = (Inr wait, s)"
      using TryClaim_blocked [OF held True assms(2-4)] by blast
    then show ?thesis using held s by (simp add: Faucet_def Let_def flip: a_def)
  next
    case False
    let ?s1 = "snd (TryClaim (fqClaimWritten rq) s a (fqNow rq))"
    have h1: "claim_held key T c (Some ?s1)" using held False by (rule TryClaim_other)
    have "fsStore (snd (Faucet testnet amount rq st)) \<in> {Some s, Some ?s1, Some (snd (ReleaseClaim (fqReleaseWritten rq) ?s1 a))}"
      using s by (auto simp: Faucet_def Let_def split: prod.splits sum.splits simp flip: a_def)
    then show ?thesis using held h1 ReleaseClaim_other [OF h1 False] by auto
  qed
qed

lemma faucet_restart_held: "claim_held key T c (Some s) \<Longrightarrow> 0 < c \<Longrightarrow> claim_held key T c (faucet_restart s)"
  by (auto simp: claim_held_def faucet_restart_def NewCooldownStore_def load_claims_def on_disk_def split: option.splits)

lemma claim_held_run:
  assumes "claim_held key T c (fsStore st)" "key \<noteq> []" "0 < T" "0 < c"
    and "\<forall>rq. FaucetCall rq \<in> set evs \<longrightarrow> fqNow rq < T * Second + c"
  shows "claim_held key T c (fsStore (foldl (faucet_step testnet amount) st evs))"
  using assms
proof (induction evs arbitrary: st)
  case (Cons e evs)
  have "claim_held key T c (fsStore (faucet_step testnet amount st e))"
  proof (cases e)
    case (FaucetCall rq)
    then show ?thesis using Cons.prems by (auto intro: Faucet_keeps_claim)
  next
    case FaucetRestart
    obtain s where s: "fsStore st = Some s" using claim_held_store [OF Cons.prems(1)] by blast
    with FaucetRestart show ?thesis using faucet_restart_held [of key T c s] Cons.prems(1,4) by simp
  qed (use Cons.prems(1) in simp)
  then show ?case using Cons.IH Cons.prems by simp
qed simp

lemma Faucet_credited:
  assumes "fst (Faucet testnet amount rq st) = FaucetCredited tx"
  defines "a \<equiv> TrimSpace (fqAddress rq)"
  obtains s w where "fsStore st = Some s" "fst (TryClaim (fqClaimWritten rq) s a (fqNow rq)) = Inr w" "w \<le> 0"
    "fsStore (snd (Faucet testnet amount rq st)) = Some (snd (TryClaim (fqClaimWritten rq) s a (fqNow rq)))"
    "isValidFaucetAddress a"
  using assms(1)
  by (auto simp: Faucet_def Let_def a_def split: if_splits option.splits prod.splits sum.splits)

lemma TryClaim_free:
  assumes "fst (TryClaim ok s a now) = Inr w" "w \<le> 0" "a = normalizeAddress a"
  shows "claim_held a (Unix now) (cdCooldown s) (Some (snd (TryClaim ok s a now)))"
    and "map_of (cdClaims s) a = Some T \<Longrightarrow> 0 < T \<Longrightarrow> T * Second + cdCooldown s \<le> now"
  using assms
  by (auto simp: TryClaim_def Let_def next_claim_def time_Sub_def MaxInt64_def MinInt64_def claim_held_def
      persist_claims_def split: if_splits option.splits prod.splits)

lemma TryClaim_held:
  assumes "claim_held a T (cdCooldown s) (Some s)" "0 < T" "now < T * Second + cdCooldown s" "a = normalizeAddress a" "a \<noteq> []"
  shows "\<exists>w > 0. TryClaim ok s a now = (Inr w, s)"
proof -
  have "map_of (cdClaims s) a = Some T" using assms(1) by (simp add: claim_held_def)
  then show ?thesis
    using assms(2-5) by (auto simp: TryClaim_def Let_def next_claim_def time_Sub_def MaxInt64_def MinInt64_def)
qed

text \<open>C22: an address whose faucet request was answered as credited is not paid again within its cooldown.
  After the credited answer, whatever happens (requests of this and other addresses, failed credits and
  released claims of others, failed writes of the store, restarts from the file, changes of the chain),
  every request for the same address before the whole second of the credit plus the cooldown leaves
  the whole faucet state, the chain and Core's state included, as it is, and is answered that the address
  is cooling down, or that there is no ledger. (The clock may not run backwards before that request, the credit
  is after the first second of 1970, and each request runs as one step. Only an answer as credited
  starts a cooldown: a credit that Core executed but whose snapshot could not be written is answered as an
  error and gives its claim back.)\<close>

theorem faucet_once_per_cooldown:
  assumes "fst (Faucet testnet amount rq st) = FaucetCredited tx"
    and "st2 = foldl (faucet_step testnet amount) (snd (Faucet testnet amount rq st)) events"
    and "TrimSpace (fqAddress rq') = TrimSpace (fqAddress rq)"
    and "\<forall>r. FaucetCall r \<in> set events \<longrightarrow> fqNow r \<le> fqNow rq'"
    and "fsStore st = Some s" "0 < cdCooldown s" "0 < Unix (fqNow rq)"
    and "fqNow rq' < Unix (fqNow rq) * Second + cdCooldown s"
  shows "snd (Faucet testnet amount rq' st2) = st2 \<and>
    (fst (Faucet testnet amount rq' st2) = FaucetUnavailable \<or> (\<exists>w > 0. fst (Faucet testnet amount rq' st2) = FaucetCooling w))"
proof -
  define a where "a = TrimSpace (fqAddress rq)"
  have norm: "a = normalizeAddress a" by (simp add: a_def normalizeAddress_def)
  obtain w where w: "fst (TryClaim (fqClaimWritten rq) s a (fqNow rq)) = Inr w" "w \<le> 0"
      "fsStore (snd (Faucet testnet amount rq st)) = Some (snd (TryClaim (fqClaimWritten rq) s a (fqNow rq)))"
      and valid: "isValidFaucetAddress a"
    using Faucet_credited [OF assms(1)] assms(5) unfolding a_def by (metis option.inject)
  have ne: "a \<noteq> []" using valid by (auto simp: isValidFaucetAddress_def a_def Let_def)
  have on: "testnet" using assms(1) by (auto simp: Faucet_def Let_def split: if_splits)
  have "claim_held a (Unix (fqNow rq)) (cdCooldown s) (fsStore (snd (Faucet testnet amount rq st)))"
    unfolding w(3) using TryClaim_free(1) [OF w(1,2)] norm by simp
  then have held: "claim_held a (Unix (fqNow rq)) (cdCooldown s) (fsStore st2)"
    unfolding assms(2) using assms(4,6,7,8) by (intro claim_held_run ne) auto
  then obtain s2 where s2: "fsStore st2 = Some s2" "cdCooldown s2 = cdCooldown s" "claim_held a (Unix (fqNow rq)) (cdCooldown s2) (Some s2)"
    by (cases "fsStore st2") (auto simp: claim_held_def)
  obtain w2 where w2: "w2 > 0" "TryClaim (fqClaimWritten rq') s2 a (fqNow rq') = (Inr w2, s2)"
    using TryClaim_held [OF s2(3) assms(7) _ norm ne, of "fqNow rq'"] assms(8) s2(2) by auto
  have same: "st2\<lparr>fsStore := Some s2\<rparr> = st2" using s2(1) by simp
  have "Faucet testnet amount rq' st2 = (if ledger (fsChain st2) then FaucetCooling w2 else FaucetUnavailable, st2)"
    using w2 valid assms(3) s2(1) on same by (simp add: Faucet_def Let_def a_def)
  then show ?thesis using w2(1) by simp
qed

definition paying_core :: "nat core_api" where
  "paying_core = counting_core\<lparr>coreCredit := (\<lambda>to a u c. (True, Suc c))\<rparr>"

definition claim_at :: "string \<Rightarrow> int \<Rightarrow> nat faucet_request" where
  "claim_at a t = \<lparr>fqAddress = a, fqNow = t, fqHash = ''faucet-1'', fqTxTime = 1, fqClaimWritten = True,
     fqReleaseWritten = True, fqChainWritten = True, fqCore = paying_core\<rparr>"

definition new_faucet :: "nat faucet_state" where
  "new_faucet = \<lparr>fsStore = Some \<lparr>cdCooldown = Hour, cdClaims = [], cdFile = None\<rparr>, fsChain = SetLedger (NewBlockchain 0)\<rparr>"

definition demo_tx :: Transaction where
  "demo_tx = faucet_tx ''faucet-1'' 1 ''Px00000001'' (7 * MicroPLPPerPLP)"

lemma small_amount: "\<not> (7 :: u64) > (-1) div MicroPLPPerPLP"
  by (simp add: MicroPLPPerPLP_def)

lemma demo_address: "isValidFaucetAddress ''Px00000001''" "TrimSpace ''Px00000001'' = ''Px00000001''"
  "TrimSpace '' Px00000001'' = ''Px00000001''"
  by code_simp+

lemma credit_demo:
  assumes "ledger bc" "chainFile bc = []"
  shows "\<exists>bc'. InstantFaucetCredit paying_core ok ''faucet-1'' 1 bc ''Px00000001'' 7 = (Inr demo_tx, bc')
           \<and> ledger bc' \<and> chainFile bc' = []"
  using assms small_amount
  by (simp add: InstantFaucetCredit_def paying_core_def AddTransaction_def faucet_tx_def tx0_def persistChain_def
      demo_tx_def Let_def)

lemma pays_demo:
  assumes "fsStore st = Some s" "ledger (fsChain st)" "chainFile (fsChain st) = []"
    and "TrimSpace a = ''Px00000001''" "TryClaim True s ''Px00000001'' t = (Inr 0, s1)"
  shows "\<exists>bc'. Faucet True 7 (claim_at a t) st = (FaucetCredited demo_tx, st\<lparr>fsStore := Some s1, fsChain := bc'\<rparr>)
           \<and> ledger bc' \<and> chainFile bc' = []"
  using credit_demo [OF assms(2,3), of True] assms demo_address
  by (auto simp: Faucet_def claim_at_def faucet_amount_def Let_def)

definition claimed :: "CooldownStore \<Rightarrow> string \<Rightarrow> int \<Rightarrow> CooldownStore" where
  "claimed s a T = s\<lparr>cdClaims := AList.update a T (cdClaims s), cdFile := Some (AList.update a T (cdClaims s))\<rparr>"

lemma claimed_simps [simp]:
  "cdClaims (claimed s a T) = AList.update a T (cdClaims s)" "cdFile (claimed s a T) = Some (AList.update a T (cdClaims s))"
  "cdCooldown (claimed s a T) = cdCooldown s"
  by (simp_all add: claimed_def)

lemma TryClaim_granted:
  assumes "TrimSpace a = a" "a \<noteq> []" "\<forall>T. map_of (cdClaims s) a = Some T \<longrightarrow> next_claim s T \<le> now"
  shows "TryClaim True s a now = (Inr 0, claimed s a (Unix now))"
  using assms by (auto simp: TryClaim_def Let_def normalizeAddress_def persist_claims_def claimed_def split: option.split)

lemma restart_written:
  assumes "cdFile s = Some (cdClaims s)" "0 < cdCooldown s"
  shows "faucet_restart s = Some s"
  using assms by (cases s) (simp add: faucet_restart_def NewCooldownStore_def load_claims_def on_disk_def)

definition fresh_store :: CooldownStore where
  "fresh_store = \<lparr>cdCooldown = Hour, cdClaims = [], cdFile = None\<rparr>"

theorem faucet_once_per_cooldown_witness:
  "\<exists>st1 w. Faucet True 7 (claim_at ''Px00000001'' (5 * Second)) new_faucet = (FaucetCredited demo_tx, st1)
     \<and> Faucet True 7 (claim_at '' Px00000001'' (3604 * Second)) (faucet_step True 7 st1 FaucetRestart) =
         (FaucetCooling w, faucet_step True 7 st1 FaucetRestart)"
proof -
  have store: "fsStore new_faucet = Some fresh_store" "ledger (fsChain new_faucet)" "chainFile (fsChain new_faucet) = []"
    by (simp_all add: new_faucet_def fresh_store_def SetLedger_def NewBlockchain_def)
  define s1 where "s1 = claimed fresh_store ''Px00000001'' 5"
  have s1: "faucet_restart s1 = Some s1" by (rule restart_written) (simp_all add: s1_def fresh_store_def Hour_def Second_def)
  have "TryClaim True fresh_store ''Px00000001'' (5 * Second) = (Inr 0, s1)"
    using TryClaim_granted [of "''Px00000001''" fresh_store "5 * Second"]
    by (simp add: demo_address fresh_store_def s1_def Unix_def Second_def)
  then obtain bc where one: "Faucet True 7 (claim_at ''Px00000001'' (5 * Second)) new_faucet =
      (FaucetCredited demo_tx, new_faucet\<lparr>fsStore := Some s1, fsChain := bc\<rparr>)" (is "_ = (_, ?st1)")
      and bc: "ledger bc"
    using pays_demo [OF store demo_address(2)] by blast
  have st2: "faucet_step True 7 ?st1 FaucetRestart = ?st1" by (simp add: s1)
  let ?r = "Faucet True 7 (claim_at '' Px00000001'' (3604 * Second)) ?st1"
  have "snd ?r = ?st1 \<and> (fst ?r = FaucetUnavailable \<or> (\<exists>w > 0. fst ?r = FaucetCooling w))"
    by (rule faucet_once_per_cooldown [where events = "[FaucetRestart]" and rq = "claim_at ''Px00000001'' (5 * Second)" and st = new_faucet and s = fresh_store])
      (use one st2 store in \<open>simp_all add: claim_at_def demo_address fresh_store_def Second_def Hour_def Unix_def\<close>)
  moreover have "fst ?r \<noteq> FaucetUnavailable"
    using bc by (simp add: Faucet_def Let_def split: option.split prod.split sum.split)
  ultimately show ?thesis using one st2 by (metis prod.collapse)
qed

text \<open>Remark: a credit whose chain snapshot cannot be written is answered with an error and its claim is
  released, although Core has already paid: the next request of the address is paid again at once.\<close>

lemma faucet_repaid_after_failed_snapshot:
  assumes "fsStore st = Some s" "TryClaim True s (TrimSpace (fqAddress rq)) (fqNow rq) = (Inr 0, s1)"
    and "isValidFaucetAddress (TrimSpace (fqAddress rq))" "ledger (fsChain st)" "fqClaimWritten rq" "fqReleaseWritten rq"
    and "InstantFaucetCredit (fqCore rq) (fqChainWritten rq) (fqHash rq) (fqTxTime rq) (fsChain st)
           (TrimSpace (fqAddress rq)) (faucet_amount amount) = (Inl (FaucetPersist e), bc)"
  shows "fst (Faucet True amount rq st) = FaucetFailed (FaucetPersist e)"
    and "fsChain (snd (Faucet True amount rq st)) = bc"
    and "\<exists>s2. fsStore (snd (Faucet True amount rq st)) = Some s2
           \<and> fst (TryClaim True s2 (TrimSpace (fqAddress rq)) (fqNow rq)) = Inr 0"
proof -
  have ne: "TrimSpace (fqAddress rq) \<noteq> []" using assms(3) by (auto simp: isValidFaucetAddress_def Let_def)
  show "fst (Faucet True amount rq st) = FaucetFailed (FaucetPersist e)" "fsChain (snd (Faucet True amount rq st)) = bc"
    using assms by (simp_all add: Faucet_def Let_def)
  show "\<exists>s2. fsStore (snd (Faucet True amount rq st)) = Some s2
           \<and> fst (TryClaim True s2 (TrimSpace (fqAddress rq)) (fqNow rq)) = Inr 0"
    using assms ne by (simp add: Faucet_def Let_def ReleaseClaim_def persist_claims_def TryClaim_def normalizeAddress_def)
qed

subsection \<open>The limiter\<close>

definition bucket_at :: "Limiter \<Rightarrow> string \<Rightarrow> int" where
  "bucket_at l key = (case map_of (lmBuckets l) key of None \<Rightarrow> 0 | Some b \<Rightarrow> bkCount b)"

fun allowed_count :: "string \<Rightarrow> Limiter \<Rightarrow> (int \<times> string) list \<Rightarrow> int" where
  "allowed_count key l [] = 0"
| "allowed_count key l ((now, k) # reqs) =
     (let (ok, l1) = Allow now k l in (if ok \<and> k = key then 1 else 0) + allowed_count key l1 reqs)"

definition window_open :: "Limiter \<Rightarrow> string \<Rightarrow> int \<Rightarrow> bool" where
  "window_open l key t \<longleftrightarrow> (case map_of (lmBuckets l) key of None \<Rightarrow> True | Some b \<Rightarrow> t + lmWindow l \<le> bkResetAt b)"

lemma Allow_frame [simp]: "lmLimit (snd (Allow now k l)) = lmLimit l" "lmWindow (snd (Allow now k l)) = lmWindow l"
  by (simp_all add: Allow_def split: option.split)

lemma allowed_in_window:
  assumes "window_open l key t" "0 \<le> bucket_at l key" "bucket_at l key \<le> lmLimit l" "1 \<le> lmLimit l"
    and "\<forall>(now, k) \<in> set reqs. t \<le> now \<and> now \<le> t + lmWindow l"
  shows "allowed_count key l reqs = min (lmLimit l - bucket_at l key) (int (length (filter (\<lambda>r. snd r = key) reqs)))"
  using assms
proof (induction reqs arbitrary: l)
  case (Cons r reqs)
  obtain now k where r: "r = (now, k)" by force
  let ?l = "snd (Allow now k l)"
  have time: "t \<le> now" "now \<le> t + lmWindow l" using Cons.prems(5) r by auto
  have other: "map_of (lmBuckets ?l) key = map_of (lmBuckets l) key" if "k \<noteq> key"
    using that by (auto simp: Allow_def split: option.split)
  have IH: "window_open ?l key t \<Longrightarrow> 0 \<le> bucket_at ?l key \<Longrightarrow> bucket_at ?l key \<le> lmLimit l \<Longrightarrow>
      allowed_count key ?l reqs = min (lmLimit l - bucket_at ?l key) (int (length (filter (\<lambda>r. snd r = key) reqs)))"
    using Cons.IH [of ?l] Cons.prems(4,5) by simp
  show ?case
  proof (cases "k = key")
    case False
    have same: "bucket_at ?l key = bucket_at l key" "window_open ?l key t"
      using other [OF False] Cons.prems(1) unfolding bucket_at_def window_open_def Allow_frame by simp_all
    then show ?thesis using IH Cons.prems(2,3) False by (simp add: r case_prod_beta Let_def)
  next
    case True
    show ?thesis
    proof (cases "bucket_at l key < lmLimit l")
      case room: True
      have "fst (Allow now key l)" "bucket_at (snd (Allow now key l)) key = bucket_at l key + 1"
          "window_open (snd (Allow now key l)) key t"
        using room time Cons.prems(1) True
        by (auto simp: Allow_def bucket_at_def window_open_def split: option.splits)
      then show ?thesis using IH room Cons.prems(2,3) True by (simp add: r case_prod_beta Let_def)
    next
      case full: False
      then have "Allow now key l = (False, l)"
        using Cons.prems(1-4) time True by (auto simp: Allow_def bucket_at_def window_open_def split: option.splits)
      then show ?thesis using Cons.IH [of l] Cons.prems full True by (simp add: r)
    qed
  qed
qed simp

text \<open>Remark: the limiter lets exactly the first \<open>limit\<close> requests of a key through in one window: whatever
  other keys ask in between, of the requests a new key makes within one window length, the number allowed is the
  smaller of the limit and the number asked.\<close>

theorem Allow_exact:
  assumes "map_of (lmBuckets l) key = None" "1 \<le> lmLimit l"
    and "\<forall>(now, k) \<in> set reqs. t \<le> now \<and> now \<le> t + lmWindow l"
  shows "allowed_count key l reqs = min (lmLimit l) (int (length (filter (\<lambda>r. snd r = key) reqs)))"
  using allowed_in_window [of l key t reqs] assms by (simp add: window_open_def bucket_at_def)

theorem Allow_exact_witness:
  "allowed_count ''k'' (NewLimiter 2 Second) [(0, ''k''), (1, ''j''), (2, ''k''), (2, ''k''), (Second, ''k'')] = 2"
  using Allow_exact [of "NewLimiter 2 Second" "''k''" "[(0, ''k''), (1, ''j''), (2, ''k''), (2, ''k''), (Second, ''k'')]" 0]
  by (simp add: NewLimiter_def Second_def)

text \<open>Remark: the key of \<open>allowContactRate\<close> is the client's own device header when it sends one, so a
  client that changes the header is never limited.\<close>

lemma new_device_is_allowed:
  assumes "map_of (lmBuckets lm) (action @ ''|dev:'' @ TrimSpace dev) = None" "TrimSpace dev \<noteq> []"
  shows "fst (allowContactRate now ip dev action (Some lm))"
  using assms by (simp add: allowContactRate_def rate_key_def Allow_def)

lemma FormatWait_exact:
  assumes "FormatWait d = (h, m, s, label)"
  shows "h * 3600 + m * 60 + s = max 0 d div Second \<and> 0 \<le> m \<and> m < 60 \<and> 0 \<le> s \<and> s < 60"
proof -
  define t where "t = max 0 d div Second"
  have "h = t div 3600" "m = (t mod 3600) div 60" "s = t mod 60"
    using assms by (auto simp: FormatWait_def Let_def t_def)
  moreover have "t mod 60 = (t mod 3600) mod 60" by (simp add: mod_mod_cancel)
  moreover have "t div 3600 * 3600 + t mod 3600 = t" "(t mod 3600) div 60 * 60 + (t mod 3600) mod 60 = t mod 3600"
    by (rule div_mult_mod_eq)+
  moreover have "0 \<le> t mod 3600" "t mod 3600 < 3600" by simp_all
  ultimately show ?thesis unfolding t_def [symmetric] by linarith
qed

end
