(* ===== verification/Admission.thy ===== *)
theory Admission
  imports Block_Production Limits
begin

text \<open>
  Admission of transactions, \<open>admitToMempool\<close> and the nonce reservations of
  \<open>internal/handlers/handlers.go\<close>, and the handlers that submit transactions: Core-signed transfers and
  the escrow transactions of \<open>internal/handlers/handlers_escrow_submit.go\<close>.

  Core's admission check and its signer are arguments. Validation runs without a lock, so a function
  \<open>mid\<close> may change the chain between it and the insertion.
\<close>

subsection \<open>State\<close>

record 'c admission =
  adChain :: "'c Blockchain"
  adReserved :: "(string \<times> u64 set) list"

record 'c admit_world =
  awAdmit :: "('c \<Rightarrow> core_tx \<Rightarrow> snapshot_entry list \<Rightarrow> (string + bool \<times> string)) option"
  awPoolWrite :: bool
  awPoolRename :: bool
  awChainWrite :: bool

datatype admit_error =
    NilTransaction | FaucetNotAdmitted | XPNotTransferable | CoreUnavailable | LedgerUnavailable | MissingSignature
  | AdmitRpc string | AdmitRejected string | MempoolRefused tx_error

subsection \<open>Admission\<close>

definition validateTxViaCore :: "'c admit_world \<Rightarrow> 'c Blockchain \<Rightarrow> Transaction \<Rightarrow> admit_error option" where
  "validateTxViaCore w bc tx =
     (case awAdmit w of
        None \<Rightarrow> Some CoreUnavailable
      | Some admit \<Rightarrow>
          (case ToCoreJSON tx of
             None \<Rightarrow> Some MissingSignature
           | Some ct \<Rightarrow>
               (case admit (stateFile bc) ct (AdmissionSnapshotJSON bc) of
                  Inl e \<Rightarrow> Some (AdmitRpc e)
                | Inr (accepted, msg) \<Rightarrow>
                    (if accepted then None
                     else Some (AdmitRejected (if msg \<noteq> [] then msg else ''mempool admit rejected''))))))"

definition validateTxForMempool :: "'c admit_world \<Rightarrow> 'c Blockchain \<Rightarrow> Transaction option \<Rightarrow> admit_error option" where
  "validateTxForMempool w bc txo =
     (case txo of
        None \<Rightarrow> Some NilTransaction
      | Some tx \<Rightarrow>
          (if txFrom tx = FaucetAddress \<or> txType tx = ''faucet'' then Some FaucetNotAdmitted
           else if IsNonTransferableAsset (txAsset tx) then Some XPNotTransferable
           else if awAdmit w = None then Some CoreUnavailable
           else if \<not> ledger bc then Some LedgerUnavailable
           else validateTxViaCore w bc tx))"

definition snapshot_now :: "Transaction \<Rightarrow> bool" where
  "snapshot_now tx \<longleftrightarrow>
     txType tx = ''escrow_lock'' \<or> txType tx = ''escrow_settle'' \<or> txType tx = ''escrow_cancel''
     \<or> txType tx = ''escrow_refund'' \<or> txPurpose tx = ''deal''"

definition indexMempoolAdmission :: "'c admit_world \<Rightarrow> 'c Blockchain \<Rightarrow> Transaction \<Rightarrow> tx_error option \<times> 'c Blockchain" where
  "indexMempoolAdmission w bc tx =
     (case AddToMempool bc tx of
        (Some e, bc1) \<Rightarrow> (Some e, bc1)
      | (None, bc1) \<Rightarrow>
          (let bc2 = (case AddTransaction bc1 tx of Inl _ \<Rightarrow> bc1 | Inr b \<Rightarrow> b);
               bc3 = SaveAdmittedTx (awPoolWrite w) (awPoolRename w) bc2 tx;
               bc4 = (if snapshot_now tx then snd (persistChain (awChainWrite w) bc3) else bc3)
           in (None, bc4)))"

text \<open>\<open>clearReservedNonceLocked\<close>: a set that becomes empty is removed from the map.\<close>

definition drop_reserved :: "string \<Rightarrow> u64 \<Rightarrow> (string \<times> u64 set) list \<Rightarrow> (string \<times> u64 set) list" where
  "drop_reserved address nonce m =
     (case map_of m address of
        None \<Rightarrow> m
      | Some r \<Rightarrow> if r - {nonce} = {} then AList.delete address m else AList.update address (r - {nonce}) m)"

definition clearReservedNonceLocked :: "string \<Rightarrow> u64 \<Rightarrow> 'c admission \<Rightarrow> 'c admission" where
  "clearReservedNonceLocked address nonce st = st\<lparr>adReserved := drop_reserved address nonce (adReserved st)\<rparr>"

definition admitToMempool ::
  "'c admit_world \<Rightarrow> ('c admission \<Rightarrow> 'c admission) \<Rightarrow> Transaction option \<Rightarrow> 'c admission \<Rightarrow> admit_error option \<times> 'c admission" where
  "admitToMempool w mid txo st =
     (case validateTxForMempool w (adChain st) txo of
        Some e \<Rightarrow> (Some e, st)
      | None \<Rightarrow>
          (let tx = the txo; st1 = mid st
           in case indexMempoolAdmission w (adChain st1) tx of
                (Some e, bc) \<Rightarrow> (Some (MempoolRefused e), st1\<lparr>adChain := bc\<rparr>)
              | (None, bc) \<Rightarrow>
                  (None, clearReservedNonceLocked (txFrom tx) (word_of_int (txNonce tx)) (st1\<lparr>adChain := bc\<rparr>))))"

subsection \<open>Nonce reservations\<close>

definition maxNonceReserveAhead :: u64 where
  "maxNonceReserveAhead = 256"

definition GetAccountQuery :: "bool \<Rightarrow> (string \<Rightarrow> AccountQuery option) \<Rightarrow> (string \<Rightarrow> AccountQuery option) option \<Rightarrow> string \<Rightarrow> AccountQuery option" where
  "GetAccountQuery led query rocks address =
     (case (if led then query address else None) of
        Some q \<Rightarrow> Some q
      | None \<Rightarrow>
          (case (case rocks of None \<Rightarrow> None | Some r \<Rightarrow> r address) of
             Some q \<Rightarrow> Some q
           | None \<Rightarrow> if \<not> led then None else query address))"

datatype nonce_error = NonceNoLedger | NonceQueryFailed | NoFreeNonce | NonceLoopRunning

text \<open>The loop \<open>for n := accountNonce; n <= limit; n++\<close> on \<open>uint64\<close>. The first argument counts the
  iterations left; running out of them is the value \<open>NonceLoopRunning\<close>, so that the claim that
  the loop ends is a theorem.\<close>

fun nonce_scan :: "nat \<Rightarrow> (u64 \<Rightarrow> bool) \<Rightarrow> u64 \<Rightarrow> u64 \<Rightarrow> nonce_error + u64" where
  "nonce_scan 0 taken limit n = Inl NonceLoopRunning"
| "nonce_scan (Suc fuel) taken limit n =
     (if n > limit then Inl NoFreeNonce
      else if taken n then nonce_scan fuel taken limit (n + 1)
      else Inr n)"

definition reserved_of :: "'c admission \<Rightarrow> string \<Rightarrow> u64 set" where
  "reserved_of st address = (case map_of (adReserved st) address of None \<Rightarrow> {} | Some r \<Rightarrow> r)"

definition nonce_taken :: "'c admission \<Rightarrow> string \<Rightarrow> u64 \<Rightarrow> bool" where
  "nonce_taken st address n \<longleftrightarrow> n \<in> reserved_of st address \<or> HasInFlightNonce (adChain st) address (sint n)"

definition allocateNonceLocked ::
  "(string \<Rightarrow> AccountQuery option) \<Rightarrow> (string \<Rightarrow> AccountQuery option) option \<Rightarrow> string \<Rightarrow> 'c admission
   \<Rightarrow> (nonce_error + u64 \<times> u64) \<times> 'c admission" where
  "allocateNonceLocked query rocks address st =
     (if \<not> ledger (adChain st) then (Inl NonceNoLedger, st)
      else case GetAccountQuery True query rocks address of
          None \<Rightarrow> (Inl NonceQueryFailed, st)
        | Some q \<Rightarrow>
            (let accountNonce = aqNonce q;
                 st1 = st\<lparr>adReserved := AList.update address (reserved_of st address) (adReserved st)\<rparr>
             in case nonce_scan 258 (nonce_taken st1 address) (accountNonce + maxNonceReserveAhead) accountNonce of
                  Inl e \<Rightarrow> (Inl e, st1)
                | Inr n \<Rightarrow>
                    (Inr (n, accountNonce),
                     st1\<lparr>adReserved := AList.update address (insert n (reserved_of st1 address)) (adReserved st1)\<rparr>)))"

definition releaseNonceLocked :: "string \<Rightarrow> u64 \<Rightarrow> 'c admission \<Rightarrow> bool \<times> 'c admission" where
  "releaseNonceLocked address nonce st =
     (if map_of (adReserved st) address = None then (False, st)
      else if nonce \<notin> reserved_of st address then (False, st)
      else if HasInFlightNonce (adChain st) address (sint nonce) then (False, st)
      else (True, st\<lparr>adReserved := drop_reserved address nonce (adReserved st)\<rparr>))"

datatype nonce_response = NonceBadAddress | NonceUnavailable nonce_error | NonceGiven string u64 u64 | NonceReleased string u64 bool

definition AllocateNonce ::
  "(string \<Rightarrow> AccountQuery option) \<Rightarrow> (string \<Rightarrow> AccountQuery option) option \<Rightarrow> string \<Rightarrow> 'c admission
   \<Rightarrow> nonce_response \<times> 'c admission" where
  "AllocateNonce query rocks raw st =
     (let address = TrimSpace raw
      in if \<not> isValidFaucetAddress address then (NonceBadAddress, st)
         else case allocateNonceLocked query rocks address st of
             (Inl e, st1) \<Rightarrow> (NonceUnavailable e, st1)
           | (Inr (n, acct), st1) \<Rightarrow> (NonceGiven address n acct, st1))"

definition ReleaseNonce :: "string \<Rightarrow> u64 \<Rightarrow> 'c admission \<Rightarrow> nonce_response \<times> 'c admission" where
  "ReleaseNonce raw nonce st =
     (let address = TrimSpace raw
      in if \<not> isValidFaucetAddress address then (NonceBadAddress, st)
         else let (ok, st1) = releaseNonceLocked address nonce st in (NonceReleased address nonce ok, st1))"

text \<open>The thin wrappers of \<open>handlers_escrow_submit.go\<close>; an \<open>int\<close> nonce is converted both ways.\<close>

definition allocateNonceForAddress ::
  "(string \<Rightarrow> AccountQuery option) \<Rightarrow> (string \<Rightarrow> AccountQuery option) option \<Rightarrow> string \<Rightarrow> 'c admission
   \<Rightarrow> int option \<times> 'c admission" where
  "allocateNonceForAddress query rocks address st =
     (if address = [] then (None, st)
      else case allocateNonceLocked query rocks address st of
          (Inl e, st1) \<Rightarrow> (None, st1)
        | (Inr (n, acct), st1) \<Rightarrow> (Some (sint n), st1))"

definition releaseNonceForAddress :: "string \<Rightarrow> int \<Rightarrow> 'c admission \<Rightarrow> 'c admission" where
  "releaseNonceForAddress address nonce st =
     (if nonce < 0 then st else snd (releaseNonceLocked address (word_of_int nonce) st))"

subsection \<open>The scan for a free nonce\<close>

lemma unat_succ: "unat (n :: u64) < 2 ^ 64 - 1 \<Longrightarrow> unat (n + 1) = unat n + 1"
  by (simp add: unat_word_ariths)

lemma nonce_scan_Inr:
  assumes "nonce_scan fuel taken limit n = Inr m"
  shows "\<not> taken m \<and> m \<le> limit"
  using assms by (induction fuel taken limit n rule: nonce_scan.induct) (auto split: if_splits)

lemma nonce_scan_ends:
  assumes "unat limit < 2 ^ 64 - 1" "unat limit + 2 \<le> fuel + unat n" "unat n \<le> unat limit + 1"
  shows "case nonce_scan fuel taken limit n of
           Inl e \<Rightarrow> e = NoFreeNonce \<and> (\<forall>k. n \<le> k \<and> k \<le> limit \<longrightarrow> taken k)
         | Inr m \<Rightarrow> n \<le> m \<and> m \<le> limit \<and> \<not> taken m \<and> (\<forall>k. n \<le> k \<and> k < m \<longrightarrow> taken k)"
  using assms
proof (induction fuel taken limit n rule: nonce_scan.induct)
  case (1 taken limit n)
  then show ?case by linarith
next
  case (2 fuel taken limit n)
  show ?case
  proof (cases "n \<le> limit \<and> taken n")
    case True
    then have le: "unat n \<le> unat limit" by (simp add: word_le_nat_alt)
    then have succ: "unat (n + 1) = unat n + 1" using 2(2) by (intro unat_succ) linarith
    have IH: "case nonce_scan fuel taken limit (n + 1) of
           Inl e \<Rightarrow> e = NoFreeNonce \<and> (\<forall>k. n + 1 \<le> k \<and> k \<le> limit \<longrightarrow> taken k)
         | Inr m \<Rightarrow> n + 1 \<le> m \<and> m \<le> limit \<and> \<not> taken m \<and> (\<forall>k. n + 1 \<le> k \<and> k < m \<longrightarrow> taken k)"
      using True 2(1-3) le succ by (intro 2(1)) (auto simp: not_less)
    have step: "taken k" if "n \<le> k" "n + 1 \<le> k \<Longrightarrow> taken k" for k
    proof (cases "k = n")
      case False
      with that(1) have "unat n < unat k" by (simp add: word_le_nat_alt order_less_le word_unat_eq_iff)
      then have "n + 1 \<le> k" using succ by (simp add: word_le_nat_alt)
      then show ?thesis by (rule that(2))
    qed (use True in simp)
    have low: "n \<le> m" if "n + 1 \<le> m" for m using that succ by (simp add: word_le_nat_alt)
    show ?thesis using IH True step low by (auto simp: not_less split: sum.splits)
  qed (auto simp: not_less)
qed

subsection \<open>Reservations\<close>

lemma reserved_of_update [simp]:
  "reserved_of (st\<lparr>adReserved := AList.update a r (adReserved st)\<rparr>) b = (if b = a then r else reserved_of st b)"
  by (simp add: reserved_of_def)

lemma reserved_of_drop:
  "reserved_of (st\<lparr>adReserved := drop_reserved a n (adReserved st)\<rparr>) b =
     (if b = a then reserved_of st a - {n} else reserved_of st b)"
  by (auto simp: reserved_of_def drop_reserved_def split: option.split)

lemma reserved_of_chain [simp]: "reserved_of (st\<lparr>adChain := c\<rparr>) b = reserved_of st b"
  by (simp add: reserved_of_def)

lemma reserved_of_clear: "reserved_of (clearReservedNonceLocked a n st) b = (if b = a then reserved_of st a - {n} else reserved_of st b)"
  unfolding clearReservedNonceLocked_def by (rule reserved_of_drop)

lemma nonce_taken_touch [simp]:
  "nonce_taken (st\<lparr>adReserved := AList.update a (reserved_of st a) (adReserved st)\<rparr>) a = nonce_taken st a"
  by (simp add: nonce_taken_def fun_eq_iff)

lemma allocate_Inr:
  assumes "fst (allocateNonceLocked query rocks a st) = Inr (n, acct)"
  shows "\<not> nonce_taken st a n"
    and "reserved_of (snd (allocateNonceLocked query rocks a st)) b = (if b = a then insert n (reserved_of st a) else reserved_of st b)"
    and "adChain (snd (allocateNonceLocked query rocks a st)) = adChain st"
  using assms nonce_scan_Inr [of 258 "nonce_taken st a"]
  by (auto simp: allocateNonceLocked_def Let_def split: if_splits option.splits sum.splits)

lemma allocate_Inl:
  assumes "fst (allocateNonceLocked query rocks a st) = Inl e"
  shows "reserved_of (snd (allocateNonceLocked query rocks a st)) b = reserved_of st b"
  using assms
  by (auto simp: allocateNonceLocked_def Let_def split: if_splits option.splits sum.splits)

subsection \<open>Allocation\<close>

text \<open>C17: allocating a nonce always ends and gives the lowest free nonce. For an account nonce at least 257 below
  \<open>2 ^ 64\<close> the loop returns within 258 checks: either the smallest nonce from the account's nonce up to 256
  beyond it that is neither reserved nor in flight, which it then reserves and nothing else, or, when all
  257 are taken, an error that reserves nothing.\<close>

theorem allocateNonce_lowest:
  assumes "ledger (adChain st)" "GetAccountQuery True query rocks a = Some q" "uint (aqNonce q) < 2 ^ 64 - 257"
  shows "case fst (allocateNonceLocked query rocks a st) of
           Inl e \<Rightarrow> e = NoFreeNonce \<and> (\<forall>k. aqNonce q \<le> k \<and> k \<le> aqNonce q + 256 \<longrightarrow> nonce_taken st a k)
             \<and> reserved_of (snd (allocateNonceLocked query rocks a st)) = reserved_of st
         | Inr (n, acct) \<Rightarrow> acct = aqNonce q \<and> acct \<le> n \<and> n \<le> acct + 256
             \<and> \<not> nonce_taken st a n \<and> (\<forall>k. acct \<le> k \<and> k < n \<longrightarrow> nonce_taken st a k)
             \<and> reserved_of (snd (allocateNonceLocked query rocks a st)) = (reserved_of st)(a := insert n (reserved_of st a))"
proof -
  let ?scan = "nonce_scan 258 (nonce_taken st a) (aqNonce q + 256) (aqNonce q)"
  have "unat (aqNonce q) < 2 ^ 64 - 257" using assms(3) by (simp add: nat_less_iff flip: nat_uint_eq)
  then have lim: "unat (aqNonce q + 256) = unat (aqNonce q) + 256" by (simp add: unat_word_ariths)
  have scan: "case ?scan of
           Inl e \<Rightarrow> e = NoFreeNonce \<and> (\<forall>k. aqNonce q \<le> k \<and> k \<le> aqNonce q + 256 \<longrightarrow> nonce_taken st a k)
         | Inr m \<Rightarrow> aqNonce q \<le> m \<and> m \<le> aqNonce q + 256 \<and> \<not> nonce_taken st a m
             \<and> (\<forall>k. aqNonce q \<le> k \<and> k < m \<longrightarrow> nonce_taken st a k)"
    using \<open>unat (aqNonce q) < 2 ^ 64 - 257\<close> by (intro nonce_scan_ends) (simp_all add: lim)
  have fst: "fst (allocateNonceLocked query rocks a st) = (case ?scan of Inl e \<Rightarrow> Inl e | Inr n \<Rightarrow> Inr (n, aqNonce q))"
    using assms(1,2) by (simp add: allocateNonceLocked_def maxNonceReserveAhead_def Let_def split: sum.split)
  show ?thesis
  proof (cases ?scan)
    case (Inl e)
    with scan show ?thesis by (simp add: fst fun_eq_iff allocate_Inl [OF fst [unfolded Inl, simplified]])
  next
    case (Inr n)
    with scan show ?thesis by (simp add: fst fun_eq_iff allocate_Inr(2) [OF fst [unfolded Inr, simplified]])
  qed
qed

definition nonce_state :: "nat admission" where
  "nonce_state = \<lparr>adChain = SetLedger (NewBlockchain 0), adReserved = [(''PxA'', {3})]\<rparr>"

definition account_at :: "u64 \<Rightarrow> string \<Rightarrow> AccountQuery option" where
  "account_at n a = Some \<lparr>aqAddress = a, aqBalance = [], aqUplpBalance = [], aqNonce = n, aqTokens = [], aqXp = []\<rparr>"

lemma nonce_state_simps:
  "ledger (adChain nonce_state)" "reserved_of nonce_state ''PxA'' = {3}" "HasInFlightNonce (adChain nonce_state) a k = False"
  "GetAccountQuery True (account_at 3) None a = account_at 3 a"
  by (simp_all add: nonce_state_def SetLedger_def NewBlockchain_def reserved_of_def HasInFlightNonce_def GetAccountQuery_def
      account_at_def)

lemma nonce_scan_more: "nonce_scan (numeral k) taken limit n =
    (if n > limit then Inl NoFreeNonce else if taken n then nonce_scan (pred_numeral k) taken limit (n + 1) else Inr n)"
  by (simp add: numeral_eq_Suc)

lemma allocated_demo: "fst (allocateNonceLocked (account_at 3) None ''PxA'' nonce_state) = Inr (4, 3)"
  by (simp add: allocateNonceLocked_def nonce_state_simps account_at_def Let_def maxNonceReserveAhead_def nonce_scan_more
      nonce_taken_def)

theorem allocateNonce_lowest_witness:
  "fst (allocateNonceLocked (account_at 3) None ''PxA'' nonce_state) = Inr (4, 3)
   \<and> \<not> nonce_taken nonce_state ''PxA'' 4 \<and> nonce_taken nonce_state ''PxA'' 3"
proof -
  let ?q = "the (account_at 3 ''PxA'')"
  have q: "GetAccountQuery True (account_at 3) None ''PxA'' = Some ?q" by (simp add: nonce_state_simps account_at_def)
  have n: "aqNonce ?q = 3" by (simp add: account_at_def)
  have "uint (aqNonce ?q) < 2 ^ 64 - 257" by (simp add: n)
  from allocateNonce_lowest [OF nonce_state_simps(1) q this] show ?thesis by (simp add: allocated_demo n)
qed

subsection \<open>Traces of reservations\<close>

text \<open>An admission validates against an older chain; the insertion sees the present state. The chain may
  change in any way between the events.\<close>

datatype 'c nonce_event =
    NonceAsked "string \<Rightarrow> AccountQuery option" "(string \<Rightarrow> AccountQuery option) option" string
  | NonceReturned string u64
  | TxSubmitted "'c admit_world" "'c Blockchain" "Transaction option"
  | ChainChanged "'c Blockchain \<Rightarrow> 'c Blockchain"

fun nonce_step :: "'c admission \<Rightarrow> 'c nonce_event \<Rightarrow> 'c admission" where
  "nonce_step st (NonceAsked query rocks a) = snd (allocateNonceLocked query rocks a st)"
| "nonce_step st (NonceReturned a n) = snd (releaseNonceLocked a n st)"
| "nonce_step st (TxSubmitted w old txo) =
     (if validateTxForMempool w old txo \<noteq> None then st
      else snd (admitToMempool w (\<lambda>_. st) txo (st\<lparr>adChain := old\<rparr>)))"
| "nonce_step st (ChainChanged f) = st\<lparr>adChain := f (adChain st)\<rparr>"

fun frees :: "string \<Rightarrow> u64 \<Rightarrow> 'c nonce_event \<Rightarrow> bool" where
  "frees a n (NonceReturned b m) \<longleftrightarrow> b = a \<and> m = n"
| "frees a n (TxSubmitted w old txo) \<longleftrightarrow> (case txo of None \<Rightarrow> False | Some tx \<Rightarrow> txFrom tx = a \<and> word_of_int (txNonce tx) = n)"
| "frees a n _ \<longleftrightarrow> False"

lemma release_keeps:
  "n \<in> reserved_of st a \<Longrightarrow> (b, m) \<noteq> (a, n) \<Longrightarrow> n \<in> reserved_of (snd (releaseNonceLocked b m st)) a"
  by (auto simp: releaseNonceLocked_def reserved_of_drop)

lemma admit_reserved:
  "reserved_of (snd (admitToMempool w mid (Some tx) st)) a \<supseteq>
     (if validateTxForMempool w (adChain st) (Some tx) \<noteq> None then reserved_of st a
      else if txFrom tx = a then reserved_of (mid st) a - {word_of_int (txNonce tx)} else reserved_of (mid st) a)"
  by (auto simp: admitToMempool_def Let_def reserved_of_clear split: option.splits prod.splits)

lemma nonce_step_keeps:
  assumes "n \<in> reserved_of st a" "\<not> frees a n e"
  shows "n \<in> reserved_of (nonce_step st e) a"
proof (cases e)
  case (NonceAsked query rocks b)
  then show ?thesis
    using assms(1) allocate_Inl [of query rocks b st] allocate_Inr(2) [of query rocks b st]
    by (cases "fst (allocateNonceLocked query rocks b st)") auto
next
  case (NonceReturned b m)
  then show ?thesis using assms release_keeps [of n st a b m] by auto
next
  case (TxSubmitted w old txo)
  show ?thesis
  proof (cases "validateTxForMempool w old txo")
    case None
    then obtain tx where tx: "txo = Some tx" by (cases txo) (auto simp: validateTxForMempool_def)
    have "n \<in> reserved_of (snd (admitToMempool w (\<lambda>_. st) (Some tx) (st\<lparr>adChain := old\<rparr>))) a"
      using admit_reserved [of w "st\<lparr>adChain := old\<rparr>" tx a "\<lambda>_. st"] None assms TxSubmitted tx by (auto split: if_splits)
    then show ?thesis using None TxSubmitted tx by simp
  qed (use TxSubmitted assms in simp)
qed (use assms in simp)

lemma nonce_run_keeps:
  "n \<in> reserved_of st a \<Longrightarrow> \<forall>e \<in> set events. \<not> frees a n e \<Longrightarrow> n \<in> reserved_of (foldl nonce_step st events) a"
  by (induction events arbitrary: st) (auto intro: nonce_step_keeps)

text \<open>C16: a nonce that was handed out is not handed out again until it is returned or a transaction with it
  is submitted: after an allocation of \<open>n\<close> for an address, whatever is asked, submitted or confirmed in
  between, a second allocation for the address gives a different nonce, unless \<open>n\<close> itself was released or used.\<close>

theorem nonce_not_reissued:
  assumes "fst (allocateNonceLocked query rocks a st) = Inr (n, acct)"
    and "fst (allocateNonceLocked query' rocks' a (foldl nonce_step (snd (allocateNonceLocked query rocks a st)) events))
         = Inr (n', acct')"
    and "\<forall>e \<in> set events. \<not> frees a n e"
  shows "n' \<noteq> n"
proof -
  have "n \<in> reserved_of (foldl nonce_step (snd (allocateNonceLocked query rocks a st)) events) a"
    by (rule nonce_run_keeps [OF _ assms(3)]) (simp add: allocate_Inr(2) [OF assms(1)])
  then show ?thesis using allocate_Inr(1) [OF assms(2)] by (auto simp: nonce_taken_def)
qed

lemma reserved_demo:
  "reserved_of (snd (allocateNonceLocked (account_at 3) None ''PxA'' nonce_state)) ''PxA'' = {4, 3}"
  "ledger (adChain (snd (allocateNonceLocked (account_at 3) None ''PxA'' nonce_state)))"
  "HasInFlightNonce (adChain (snd (allocateNonceLocked (account_at 3) None ''PxA'' nonce_state))) a k = False"
  using allocate_Inr(2) [OF allocated_demo, of "''PxA''"] allocate_Inr(3) [OF allocated_demo]
  by (simp_all add: nonce_state_simps)

lemma allocated_again_demo:
  "fst (allocateNonceLocked (account_at 3) None ''PxA''
     (foldl nonce_step (snd (allocateNonceLocked (account_at 3) None ''PxA'' nonce_state)) [NonceReturned ''PxB'' 4])) = Inr (5, 3)"
proof -
  define st where "st = snd (allocateNonceLocked (account_at 3) None ''PxA'' nonce_state)"
  have "snd (releaseNonceLocked ''PxB'' 4 st) = st"
    using allocate_Inr(2) [OF allocated_demo, of "''PxB''"]
    by (simp add: releaseNonceLocked_def st_def) (simp add: reserved_of_def nonce_state_def)
  moreover have "fst (allocateNonceLocked (account_at 3) None ''PxA'' st) = Inr (5, 3)"
    unfolding allocateNonceLocked_def [of _ _ _ st]
    by (simp add: st_def reserved_demo nonce_state_simps account_at_def Let_def maxNonceReserveAhead_def nonce_scan_more
        nonce_taken_def)
  ultimately show ?thesis by (simp add: st_def)
qed

theorem nonce_not_reissued_witness:
  "let st1 = snd (allocateNonceLocked (account_at 3) None ''PxA'' nonce_state)
   in \<exists>n'. fst (allocateNonceLocked (account_at 3) None ''PxA'' nonce_state) = Inr (4, 3) \<and>
        fst (allocateNonceLocked (account_at 3) None ''PxA'' (foldl nonce_step st1 [NonceReturned ''PxB'' 4])) = Inr (n', 3) \<and> n' \<noteq> 4"
  using nonce_not_reissued [OF allocated_demo allocated_again_demo] allocated_demo allocated_again_demo by (auto simp: Let_def)

subsection \<open>Admission\<close>

lemma SaveAdmittedTx_frame [simp]:
  "mempool (SaveAdmittedTx a b bc tx) = mempool bc" "pendingBlock (SaveAdmittedTx a b bc tx) = pendingBlock bc"
  "blockHistory (SaveAdmittedTx a b bc tx) = blockHistory bc" "blockCounter (SaveAdmittedTx a b bc tx) = blockCounter bc"
  "confirmedHashes (SaveAdmittedTx a b bc tx) = confirmedHashes bc" "stateFile (SaveAdmittedTx a b bc tx) = stateFile bc"
  by (simp_all add: SaveAdmittedTx_def split: option.split)

lemma index_error: "indexMempoolAdmission w bc tx = (Some e, bc') \<Longrightarrow> bc' = bc"
  by (auto simp: indexMempoolAdmission_def AddToMempool_def Let_def split: option.splits prod.splits if_splits scan_result.splits)

lemma index_success:
  assumes "indexMempoolAdmission w bc tx = (None, bc')"
  shows "mempool bc' = mempool (snd (AddToMempool bc tx))" "pendingBlock bc' = pendingBlock bc"
    "blockHistory bc' = blockHistory bc" "blockCounter bc' = blockCounter bc" "confirmedHashes bc' = confirmedHashes bc"
    "stateFile bc' = stateFile bc" "fst (AddToMempool bc tx) = None"
proof -
  define bc1 where "bc1 = snd (AddToMempool bc tx)"
  define bc2 where "bc2 = (case AddTransaction bc1 tx of Inl _ \<Rightarrow> bc1 | Inr b \<Rightarrow> b)"
  show ok: "fst (AddToMempool bc tx) = None"
    using assms by (simp add: indexMempoolAdmission_def Let_def split: prod.splits option.splits)
  then obtain b1 where am: "AddToMempool bc tx = (None, b1)" by (cases "AddToMempool bc tx") simp
  have b1: "bc1 = b1" by (simp add: bc1_def am)
  have bc': "bc' = (let bc3 = SaveAdmittedTx (awPoolWrite w) (awPoolRename w) bc2 tx
      in if snapshot_now tx then snd (persistChain (awChainWrite w) bc3) else bc3)"
    using assms unfolding bc2_def b1 indexMempoolAdmission_def am Let_def by simp
  have f1: "pendingBlock bc1 = pendingBlock bc" "blockHistory bc1 = blockHistory bc" "blockCounter bc1 = blockCounter bc"
      "confirmedHashes bc1 = confirmedHashes bc" "stateFile bc1 = stateFile bc"
    by (simp_all add: bc1_def AddToMempool_snd)
  have f2: "mempool bc2 = mempool bc1" "pendingBlock bc2 = pendingBlock bc1" "blockHistory bc2 = blockHistory bc1"
      "blockCounter bc2 = blockCounter bc1" "confirmedHashes bc2 = confirmedHashes bc1" "stateFile bc2 = stateFile bc1"
    by (simp_all add: bc2_def AddTransaction_def)
  show "mempool bc' = mempool (snd (AddToMempool bc tx))" "pendingBlock bc' = pendingBlock bc"
    "blockHistory bc' = blockHistory bc" "blockCounter bc' = blockCounter bc" "confirmedHashes bc' = confirmedHashes bc"
    "stateFile bc' = stateFile bc"
    unfolding bc' using f1 f2 by (simp_all add: Let_def bc1_def)
qed

lemma AddToMempool_accepted:
  assumes "fst (AddToMempool bc tx) = None"
  shows "txHash tx \<in> confirmedHashes bc \<or> txHash tx \<in> txHash ` set (inflight (snd (AddToMempool bc tx)))"
  using assms
  by (auto simp: AddToMempool_def image_Un dest!: scan_inflight_Duplicate split: if_splits scan_result.splits)

lemma validate_accepted:
  assumes "validateTxForMempool w bc (Some tx) = None"
  shows "txFrom tx \<noteq> FaucetAddress \<and> txType tx \<noteq> ''faucet'' \<and> \<not> IsNonTransferableAsset (txAsset tx)"
    and "\<exists>admit ct msg. awAdmit w = Some admit \<and> ToCoreJSON tx = Some ct
           \<and> admit (stateFile bc) ct (AdmissionSnapshotJSON bc) = Inr (True, msg)"
  using assms
  by (auto simp: validateTxForMempool_def validateTxViaCore_def split: if_splits option.splits sum.splits prod.splits)

text \<open>C15: what admission promises. A refused transaction leaves the reservations and the chain as they
  were (as the other handlers left them while Core was asked). An admitted one carries a Core signature, is no
  faucet and no Token:XP transaction, was accepted by Core against the state file and every transaction in flight
  at that moment, and is afterwards in flight or already confirmed; the chain invariant holds, so no two
  transactions in flight share a hash or a sender's nonce even when admissions overlap, and blocks, pending block and
  Core's state are untouched.\<close>

theorem admitToMempool_sound:
  assumes "chain_inv (adChain (mid st))"
  shows "case admitToMempool w mid txo st of
           (Some e, st') \<Rightarrow> st' = st \<or> st' = mid st
         | (None, st') \<Rightarrow>
             \<exists>tx ct admit msg. txo = Some tx \<and> ToCoreJSON tx = Some ct \<and> awAdmit w = Some admit
               \<and> admit (stateFile (adChain st)) ct (AdmissionSnapshotJSON (adChain st)) = Inr (True, msg)
               \<and> txFrom tx \<noteq> FaucetAddress \<and> txType tx \<noteq> ''faucet'' \<and> \<not> IsNonTransferableAsset (txAsset tx)
               \<and> txHash tx \<in> confirmedHashes (adChain st') \<union> txHash ` set (inflight (adChain st'))
               \<and> chain_inv (adChain st') \<and> blockHistory (adChain st') = blockHistory (adChain (mid st))
               \<and> pendingBlock (adChain st') = pendingBlock (adChain (mid st))
               \<and> stateFile (adChain st') = stateFile (adChain (mid st))"
proof (cases "validateTxForMempool w (adChain st) txo")
  case (Some e)
  then show ?thesis by (simp add: admitToMempool_def)
next
  case None
  then obtain tx where tx: "txo = Some tx" by (cases txo) (auto simp: validateTxForMempool_def)
  note acc = validate_accepted [OF None [unfolded tx]]
  let ?bc = "adChain (mid st)"
  obtain r bc' where ix: "indexMempoolAdmission w ?bc tx = (r, bc')" by force
  show ?thesis
  proof (cases r)
    case (Some e)
    then have "bc' = ?bc" using index_error ix by blast
    then show ?thesis using None tx ix Some by (simp add: admitToMempool_def)
  next
    case ok: None
    note ix' = index_success [OF ix [unfolded ok]]
    have "inflight_ok ?bc" using assms unfolding chain_inv_def by blast
    then have "inflight_ok (snd (AddToMempool ?bc tx))" by (rule AddToMempool_ok)
    moreover have infl: "inflight bc' = inflight (snd (AddToMempool ?bc tx))"
        "confirmedHashes bc' = confirmedHashes (snd (AddToMempool ?bc tx))"
      unfolding ix'(1,2,5) by (simp_all add: AddToMempool_snd)
    ultimately have "inflight_ok bc'" unfolding inflight_ok_def by (simp only:) blast
    then have "chain_inv bc'" by (rule chain_inv_same [OF assms _ ix'(3-5)])
    moreover have "txHash tx \<in> confirmedHashes bc' \<union> txHash ` set (inflight bc')"
      using AddToMempool_accepted [OF ix'(7)] unfolding infl(1) ix'(5) by blast
    moreover obtain admit ct msg where "awAdmit w = Some admit" "ToCoreJSON tx = Some ct"
        "admit (stateFile (adChain st)) ct (AdmissionSnapshotJSON (adChain st)) = Inr (True, msg)"
      using acc(2) by blast
    moreover define st' where "st' = clearReservedNonceLocked (txFrom tx) (word_of_int (txNonce tx)) ((mid st)\<lparr>adChain := bc'\<rparr>)"
    moreover have adm: "admitToMempool w mid txo st = (None, st')"
      using None tx ix ok by (simp add: admitToMempool_def st'_def)
    moreover have chain: "adChain st' = bc'" by (simp add: clearReservedNonceLocked_def st'_def)
    ultimately show ?thesis
      unfolding adm prod.case option.case chain using tx acc(1) ix'(2,3,6) by blast
  qed
qed

definition yes_world :: "nat admit_world" where
  "yes_world = \<lparr>awAdmit = Some (\<lambda>c ct snap. Inr (True, [])), awPoolWrite = True, awPoolRename = True, awChainWrite = True\<rparr>"

theorem admitToMempool_sound_witness:
  "\<exists>st'. admitToMempool yes_world id (Some (signed_tx ''h1'' 4)) nonce_state = (None, st') \<and> chain_inv (adChain st')
     \<and> pendingBlock (adChain st') = []"
proof -
  have "validateTxForMempool yes_world (adChain nonce_state) (Some (signed_tx ''h1'' 4)) = None"
    unfolding validateTxForMempool_def validateTxViaCore_def
    by (simp add: yes_world_def nonce_state_simps signed_tx_def tx0_def ToCoreJSON_def FaucetAddress_def
        IsNonTransferableAsset_def CanonicalAsset_def TokenXP_def Let_def) code_simp
  moreover have "fst (indexMempoolAdmission yes_world (adChain nonce_state) (signed_tx ''h1'' 4)) = None"
    by (simp add: indexMempoolAdmission_def AddToMempool_def nonce_state_def SetLedger_def NewBlockchain_def signed_tx_def
        Let_def)
  ultimately have "fst (admitToMempool yes_world id (Some (signed_tx ''h1'' 4)) nonce_state) = None"
    by (auto simp: admitToMempool_def Let_def split: prod.splits option.splits)
  moreover have inv: "chain_inv (adChain (id nonce_state))"
    using chain_inv_new by (simp add: nonce_state_def SetLedger_def chain_inv_def chain_hashes_def inflight_ok_def)
  moreover have "pendingBlock (adChain nonce_state) = []" by (simp add: nonce_state_def SetLedger_def NewBlockchain_def)
  ultimately show ?thesis
    using admitToMempool_sound [where mid = id and st = nonce_state and w = yes_world and txo = "Some (signed_tx ''h1'' 4)"]
    by (cases "admitToMempool yes_world id (Some (signed_tx ''h1'' 4)) nonce_state") auto
qed

text \<open>Remark: near the end of \<open>uint64\<close> the limit wraps around, and allocation fails although every nonce is free.\<close>

lemma allocate_wraps:
  assumes "ledger (adChain st)" "GetAccountQuery True query rocks a = Some q" "aqNonce q = - 1"
  shows "fst (allocateNonceLocked query rocks a st) = Inl NoFreeNonce"
  using assms by (simp add: allocateNonceLocked_def Let_def maxNonceReserveAhead_def nonce_scan_more)

text \<open>Remark: \<open>AddToMempool\<close> reports no error for a transaction it already knows, so a confirmed transaction that
  Core lets through again is indexed a second time, without its block number.\<close>

lemma confirmed_tx_reindexed:
  assumes "txHash tx \<in> confirmedHashes bc" "txHash tx \<noteq> []" "txPool bc = None" "\<not> snapshot_now tx"
  shows "fst (indexMempoolAdmission w bc tx) = None"
    and "map_of (transactions (snd (indexMempoolAdmission w bc tx))) (txHash tx) = Some tx"
    and "addressTxs (snd (indexMempoolAdmission w bc tx)) (txFrom tx) \<noteq> addressTxs bc (txFrom tx)"
  using assms
  by (simp_all add: indexMempoolAdmission_def AddToMempool_def AddTransaction_def SaveAdmittedTx_def Let_def append_address_def)

end
