(* ===== verification/Deals.thy ===== *)
theory Deals
  imports Identity
begin

text \<open>
  The volunteer panel of disputed deals, \<open>internal/deals/book.go\<close>, and the reads of Core's escrow
  records, \<open>internal/deals/escrow_read.go\<close>.

  A \<open>Book\<close> holds the cases, the index from escrow to case, the roster of volunteers, the height
  that freezes a case, and the file the book writes after each change. A file is the record that was
  encoded into it; \<open>None\<close> is a file that cannot be read or decoded. A flush may fail at any of its
  steps, which leaves the old file (\<open>fiWritten\<close>), and it writes the cases in the iteration order of
  the Go map (\<open>fiOrder\<close>).
\<close>

subsection \<open>Data\<close>

definition VerdictFulfilled :: string where "VerdictFulfilled = ''fulfilled''"
definition VerdictNotFulfilled :: string where "VerdictNotFulfilled = ''not-fulfilled''"
definition OutcomeFulfilled :: string where "OutcomeFulfilled = ''dispute-fulfilled''"
definition OutcomeNotFulfilled :: string where "OutcomeNotFulfilled = ''dispute-not-fulfilled''"
definition PanelDomain :: string where "PanelDomain = ''platarium-deal-panel-v1''"
definition PanelInstanceFirst :: byte where "PanelInstanceFirst = 1"
definition PanelGenerationFirst :: byte where "PanelGenerationFirst = 1"

record deal_brief =
  brCaseID :: string
  brTerms :: string
  brTermsHash :: string
  brPriorResult :: string
  brRevealsOpen :: bool

record cse =
  csBrief :: deal_brief
  csEscrowID :: string
  csPanel :: "string list"
  csPanelSet :: "string set"
  csCommits :: "(string \<times> string) list"
  csReveals :: "(string \<times> string) list"
  csQuorum :: string
  csDeadline :: u64
  csFrozen :: bool
  csInstance :: byte
  csGeneration :: byte

text \<open>The file record; a JSON \<open>null\<close> map is \<open>None\<close>.\<close>

record persistCase =
  pcBrief :: deal_brief
  pcEscrowID :: string
  pcPanel :: "string list"
  pcCommits :: "(string \<times> string) list option"
  pcReveals :: "(string \<times> string) list option"
  pcQuorum :: string
  pcDeadline :: u64
  pcFrozen :: bool
  pcInstance :: byte
  pcGeneration :: byte

record persistSnap =
  psRoster :: "string list"
  psHeight :: u64
  psCases :: "persistCase list"

record Book =
  bkCases :: "(string \<times> cse) list"
  bkByEscrow :: "(string \<times> string) list"
  bkRoster :: "string list"
  bkHeight :: u64
  bkPath :: string
  bkFile :: "persistSnap option"

record flush_io =
  fiWritten :: bool
  fiOrder :: "(string \<times> cse) list \<Rightarrow> (string \<times> cse) list"

datatype deal_error =
    TermsRequired | FewVolunteers | CaseCollision | UnknownCase | NotOnPanel | AlreadyCommitted
  | VerdictHashRequired | BadVerdict | RevealMismatch | AlreadyRevealed | NoQuorum
  | NilCase \<comment> \<open>the panic of reading a case the index names and the book lacks\<close>

subsection \<open>The panel\<close>

text \<open>The loops of \<open>SetRoster\<close> and \<open>PickFive\<close> that keep the first of each admissible key.\<close>

fun keep_first :: "(string \<Rightarrow> bool) \<Rightarrow> string set \<Rightarrow> string list \<Rightarrow> string list" where
  "keep_first skip seen [] = []"
| "keep_first skip seen (k # ks) =
     (if skip k \<or> k \<in> seen then keep_first skip seen ks else k # keep_first skip (insert k seen) ks)"

definition from_be64 :: "byte list \<Rightarrow> u64" where
  "from_be64 bs = foldl (\<lambda>w b. push_bit 8 w OR ucast b) 0 bs"

definition PanelSeed :: "string \<Rightarrow> string \<Rightarrow> byte \<Rightarrow> byte \<Rightarrow> byte list" where
  "PanelSeed escrowID terms instance_no generation =
     bytes_of PanelDomain @ Sum256 (bytes_of escrowID) @ Sum256 (bytes_of terms) @ [instance_no, generation]"

definition seat_index :: "byte list \<Rightarrow> nat \<Rightarrow> nat \<Rightarrow> nat" where
  "seat_index seed seat n = unat (from_be64 (take 8 (Sum256 (seed @ be64 (of_nat seat)))) mod of_nat n)"

fun pick_seats :: "byte list \<Rightarrow> nat \<Rightarrow> nat \<Rightarrow> string list \<Rightarrow> string list" where
  "pick_seats seed seat 0 remaining = []"
| "pick_seats seed seat (Suc k) remaining =
     (let idx = seat_index seed seat (length remaining)
      in remaining ! idx # pick_seats seed (Suc seat) k (take idx remaining @ drop (Suc idx) remaining))"

definition eligible :: "string list \<Rightarrow> string list \<Rightarrow> string list" where
  "eligible bonded exclude = sort (keep_first (\<lambda>a. a = [] \<or> a \<in> set (filter (\<lambda>e. e \<noteq> []) exclude)) {} bonded)"

definition PickFive :: "byte list \<Rightarrow> string list \<Rightarrow> string list \<Rightarrow> deal_error + string list" where
  "PickFive seed bonded exclude =
     (let el = eligible bonded exclude
      in if length el < 5 then Inl FewVolunteers else Inr (pick_seats seed 0 5 el))"

definition is_blank :: "char \<Rightarrow> bool" where
  "is_blank c \<longleftrightarrow> code c = 32 \<or> code c = 10 \<or> code c = 9"

definition stringsTrim :: "string \<Rightarrow> string" where
  "stringsTrim s = rev (dropWhile is_blank (rev (dropWhile is_blank s)))"

fun parseUint_loop :: "u64 \<Rightarrow> string \<Rightarrow> u64" where
  "parseUint_loop n [] = n"
| "parseUint_loop n (c # cs) =
     (if \<not> is_digit c then n else parseUint_loop (n * 10 + of_nat (digit_val c)) cs)"

definition parseUint :: "string \<Rightarrow> u64" where
  "parseUint s = parseUint_loop 0 s"

subsection \<open>Verdicts\<close>

definition HashCommit :: "string \<Rightarrow> string \<Rightarrow> string" where
  "HashCommit verdict nonce =
     (if nonce = [] then sha256_hex verdict else sha256_hex (verdict @ char_of (0 :: nat) # nonce))"

definition HashVerdict :: "string \<Rightarrow> string" where
  "HashVerdict verdict = HashCommit verdict []"

definition coreOutcome :: "string \<Rightarrow> string" where
  "coreOutcome v =
     (if v = VerdictFulfilled then OutcomeFulfilled
      else if v = VerdictNotFulfilled then OutcomeNotFulfilled else v)"

fun quorum_loop :: "(string \<Rightarrow> nat) \<Rightarrow> (string \<times> string) list \<Rightarrow> string option" where
  "quorum_loop counts [] = None"
| "quorum_loop counts ((k, v) # rest) =
     (if counts v + 1 \<ge> 3 then Some v else quorum_loop (counts(v := counts v + 1)) rest)"

definition quorumOf :: "(string \<times> string) list \<Rightarrow> string option" where
  "quorumOf reveals = quorum_loop (\<lambda>_. 0) reveals"

text \<open>\<open>if c.quorum == "" { if q, ok := quorumOf(c.reveals); ok { c.quorum = q } }\<close>\<close>

definition settle_quorum :: "cse \<Rightarrow> cse" where
  "settle_quorum c =
     (if csQuorum c = [] then (case quorumOf (csReveals c) of Some q \<Rightarrow> c\<lparr>csQuorum := q\<rparr> | None \<Rightarrow> c) else c)"

subsection \<open>The file\<close>

definition persist :: "cse \<Rightarrow> persistCase" where
  "persist c =
     \<lparr>pcBrief = csBrief c, pcEscrowID = csEscrowID c, pcPanel = csPanel c, pcCommits = Some (csCommits c),
      pcReveals = Some (csReveals c), pcQuorum = csQuorum c, pcDeadline = csDeadline c, pcFrozen = csFrozen c,
      pcInstance = csInstance c, pcGeneration = csGeneration c\<rparr>"

definition or_empty :: "'a list option \<Rightarrow> 'a list" where
  "or_empty m = (case m of None \<Rightarrow> [] | Some l \<Rightarrow> l)"

definition toCase :: "persistCase \<Rightarrow> cse" where
  "toCase p =
     \<lparr>csBrief = pcBrief p, csEscrowID = pcEscrowID p, csPanel = pcPanel p, csPanelSet = set (pcPanel p),
      csCommits = or_empty (pcCommits p), csReveals = or_empty (pcReveals p), csQuorum = pcQuorum p,
      csDeadline = pcDeadline p, csFrozen = pcFrozen p, csInstance = pcInstance p, csGeneration = pcGeneration p\<rparr>"

definition book_snap :: "flush_io \<Rightarrow> Book \<Rightarrow> persistSnap" where
  "book_snap io b =
     \<lparr>psRoster = bkRoster b, psHeight = bkHeight b, psCases = map (persist \<circ> snd) (fiOrder io (bkCases b))\<rparr>"

definition flushLocked :: "flush_io \<Rightarrow> Book \<Rightarrow> Book" where
  "flushLocked io b =
     (if bkPath b = [] then b else if fiWritten io then b\<lparr>bkFile := Some (book_snap io b)\<rparr> else b)"

definition NewBook :: Book where
  "NewBook = \<lparr>bkCases = [], bkByEscrow = [], bkRoster = [], bkHeight = 0, bkPath = [], bkFile = None\<rparr>"

definition load_case :: "Book \<Rightarrow> persistCase \<Rightarrow> Book" where
  "load_case b row =
     (let c = toCase row
      in b\<lparr>bkCases := AList.update (brCaseID (csBrief c)) c (bkCases b),
           bkByEscrow := AList.update (csEscrowID c) (brCaseID (csBrief c)) (bkByEscrow b)\<rparr>)"

definition OpenBook :: "string \<Rightarrow> persistSnap option \<Rightarrow> Book" where
  "OpenBook path f =
     (let b = NewBook\<lparr>bkPath := path, bkFile := f\<rparr>
      in if path = [] then b
         else case f of
             None \<Rightarrow> b
           | Some snap \<Rightarrow> foldl load_case (b\<lparr>bkRoster := psRoster snap, bkHeight := psHeight snap\<rparr>) (psCases snap))"

subsection \<open>Operations\<close>

definition SetRoster :: "flush_io \<Rightarrow> string list \<Rightarrow> Book \<Rightarrow> Book" where
  "SetRoster io keys b = flushLocked io (b\<lparr>bkRoster := keep_first (\<lambda>k. k = []) {} keys\<rparr>)"

definition freeze_case :: "u64 \<Rightarrow> cse \<Rightarrow> cse" where
  "freeze_case h c = (if \<not> csFrozen c \<and> h > csDeadline c then settle_quorum (c\<lparr>csFrozen := True\<rparr>) else c)"

definition SetHeight :: "flush_io \<Rightarrow> u64 \<Rightarrow> Book \<Rightarrow> Book" where
  "SetHeight io h b =
     flushLocked io (b\<lparr>bkHeight := h, bkCases := map (\<lambda>(k, c). (k, freeze_case h c)) (bkCases b)\<rparr>)"

definition set_case :: "string \<Rightarrow> cse \<Rightarrow> Book \<Rightarrow> Book" where
  "set_case caseID c b = b\<lparr>bkCases := AList.update caseID c (bkCases b)\<rparr>"

definition terms_hash :: "string \<Rightarrow> string" where
  "terms_hash terms = sha256_hex terms"

definition case_id :: "string \<Rightarrow> string \<Rightarrow> string" where
  "case_id escrowID hash = sha256_hex (''deal-case|'' @ escrowID @ CHR ''|'' # hash)"

definition OpenAppeal ::
  "flush_io \<Rightarrow> string \<Rightarrow> string \<Rightarrow> string \<Rightarrow> string list \<Rightarrow> string list \<Rightarrow> string \<Rightarrow> Book
   \<Rightarrow> (deal_error + deal_brief) \<times> Book" where
  "OpenAppeal io terms0 openBlock escrowID bonded exclude prior b =
     (let terms = stringsTrim terms0
      in if terms = [] \<or> escrowID = [] then (Inl TermsRequired, b)
         else case map_of (bkByEscrow b) escrowID of
             Some cid \<Rightarrow>
               (case map_of (bkCases b) cid of
                  None \<Rightarrow> (Inl NilCase, b)
                | Some c \<Rightarrow>
                    (let brief = (csBrief c)\<lparr>brPriorResult := prior\<rparr>
                     in (Inr brief, set_case cid (c\<lparr>csBrief := brief\<rparr>) b)))
           | None \<Rightarrow>
               (let pool = (if bkRoster b = [] then bonded else bkRoster b);
                    seed = PanelSeed escrowID terms PanelInstanceFirst PanelGenerationFirst
                in case PickFive seed pool exclude of
                     Inl e \<Rightarrow> (Inl e, b)
                   | Inr panel \<Rightarrow>
                       (let hash = terms_hash terms; caseID = case_id escrowID hash
                        in if caseID = escrowID then (Inl CaseCollision, b)
                           else
                             let brief = \<lparr>brCaseID = caseID, brTerms = terms, brTermsHash = hash,
                                          brPriorResult = prior, brRevealsOpen = False\<rparr>;
                                 c = \<lparr>csBrief = brief, csEscrowID = escrowID, csPanel = panel, csPanelSet = set panel,
                                      csCommits = [], csReveals = [], csQuorum = [], csDeadline = parseUint openBlock,
                                      csFrozen = False, csInstance = PanelInstanceFirst,
                                      csGeneration = PanelGenerationFirst\<rparr>
                             in (Inr brief,
                                 flushLocked io ((set_case caseID c b)
                                   \<lparr>bkByEscrow := AList.update escrowID caseID (bkByEscrow b)\<rparr>)))))"

definition OpenCase ::
  "flush_io \<Rightarrow> string \<Rightarrow> string \<Rightarrow> string \<Rightarrow> string list \<Rightarrow> string list \<Rightarrow> Book
   \<Rightarrow> (deal_error + deal_brief) \<times> Book" where
  "OpenCase io terms openBlock escrowID bonded exclude b = OpenAppeal io terms openBlock escrowID bonded exclude [] b"

definition case_brief :: "string \<Rightarrow> Book \<Rightarrow> deal_brief option" where
  "case_brief caseID b = map_option (\<lambda>c. (csBrief c)\<lparr>brRevealsOpen := csFrozen c\<rparr>) (map_of (bkCases b) caseID)"

definition Panel :: "string \<Rightarrow> Book \<Rightarrow> string list option" where
  "Panel caseID b = map_option csPanel (map_of (bkCases b) caseID)"

definition BriefsFor :: "string \<Rightarrow> Book \<Rightarrow> deal_brief list" where
  "BriefsFor addr b =
     sort_key brCaseID (map (csBrief \<circ> snd) (filter (\<lambda>(k, c). addr \<in> csPanelSet c) (bkCases b)))"

definition Commit :: "flush_io \<Rightarrow> string \<Rightarrow> string \<Rightarrow> string \<Rightarrow> Book \<Rightarrow> deal_error option \<times> Book" where
  "Commit io caseID key verdictHash b =
     (case map_of (bkCases b) caseID of
        None \<Rightarrow> (Some UnknownCase, b)
      | Some c \<Rightarrow>
          (if key \<notin> csPanelSet c then (Some NotOnPanel, b)
           else if map_of (csCommits c) key \<noteq> None then (Some AlreadyCommitted, b)
           else if verdictHash = [] then (Some VerdictHashRequired, b)
           else (None, flushLocked io (set_case caseID (c\<lparr>csCommits := AList.update key verdictHash (csCommits c)\<rparr>) b))))"

definition RevealNonce :: "flush_io \<Rightarrow> string \<Rightarrow> string \<Rightarrow> string \<Rightarrow> string \<Rightarrow> Book \<Rightarrow> deal_error option \<times> Book" where
  "RevealNonce io caseID key verdict nonce b =
     (if verdict \<noteq> VerdictFulfilled \<and> verdict \<noteq> VerdictNotFulfilled then (Some BadVerdict, b)
      else case map_of (bkCases b) caseID of
          None \<Rightarrow> (Some UnknownCase, b)
        | Some c \<Rightarrow>
            (if key \<notin> csPanelSet c then (Some NotOnPanel, b)
             else if map_of (csCommits c) key \<noteq> Some (HashCommit verdict nonce) then (Some RevealMismatch, b)
             else if map_of (csReveals c) key \<noteq> None then (Some AlreadyRevealed, b)
             else
               let c1 = c\<lparr>csReveals := AList.update key verdict (csReveals c)\<rparr>;
                   c2 = (if csFrozen c1 then settle_quorum c1 else c1)
               in (None, flushLocked io (set_case caseID c2 b))))"

definition Reveals :: "string \<Rightarrow> Book \<Rightarrow> deal_error + (string \<times> string) list" where
  "Reveals caseID b =
     (case map_of (bkCases b) caseID of
        None \<Rightarrow> Inl UnknownCase
      | Some c \<Rightarrow> Inr (if csFrozen c then csReveals c else []))"

text \<open>\<open>Quorum\<close> freezes and settles the case in memory, without a flush.\<close>

definition Quorum :: "string \<Rightarrow> Book \<Rightarrow> string option \<times> Book" where
  "Quorum caseID b =
     (case map_of (bkCases b) caseID of
        None \<Rightarrow> (None, b)
      | Some c \<Rightarrow>
          (let c1 = (if \<not> csFrozen c \<and> bkHeight b > csDeadline c then c\<lparr>csFrozen := True\<rparr> else c)
           in if \<not> csFrozen c1 then (None, b)
              else
                let c2 = settle_quorum c1
                in (if csQuorum c2 = [] then None else Some (coreOutcome (csQuorum c2)), set_case caseID c2 b)))"

definition TimeoutAllowed :: "string \<Rightarrow> Book \<Rightarrow> deal_error option" where
  "TimeoutAllowed caseID b =
     (case map_of (bkCases b) caseID of
        None \<Rightarrow> Some UnknownCase
      | Some c \<Rightarrow> if csQuorum c = [] then Some NoQuorum else None)"

subsection \<open>Core's escrow records\<close>

record CoreEscrow =
  ceEscrowID :: string
  ceCreator :: string
  ceBeneficiary :: string
  ceNode :: string
  ceAmount :: u64
  cePeacefulFee :: u64
  ceReservedFee :: u64
  ceAsset :: string
  cePurpose :: string
  ceStatus :: string
  ceExpiresAt :: u64

text \<open>\<open>LoadCoreEscrows\<close>: the rows of the decoded state file, each decoded on its own; the first row
  that cannot be decoded fails the whole read.\<close>

fun LoadCoreEscrows :: "(string \<Rightarrow> CoreEscrow option) \<Rightarrow> string list \<Rightarrow> CoreEscrow list option" where
  "LoadCoreEscrows dec [] = Some []"
| "LoadCoreEscrows dec (js # rest) =
     (case dec js of
        None \<Rightarrow> None
      | Some row \<Rightarrow> map_option ((#) row) (LoadCoreEscrows dec rest))"

definition DealsForAddress :: "CoreEscrow list \<Rightarrow> string \<Rightarrow> CoreEscrow list" where
  "DealsForAddress rows address =
     filter (\<lambda>row. cePurpose row = ''deal'' \<and>
        (EqualFold (ceCreator row) (TrimSpace address) \<or> EqualFold (ceBeneficiary row) (TrimSpace address))) rows"

definition DealByID :: "CoreEscrow list \<Rightarrow> string \<Rightarrow> CoreEscrow option" where
  "DealByID rows eid = find (\<lambda>row. ceEscrowID row = eid \<and> cePurpose row = ''deal'') rows"

subsection \<open>Seating\<close>

lemma set_keep_first: "set (keep_first skip seen ks) = {k \<in> set ks. \<not> skip k} - seen"
  by (induction skip seen ks rule: keep_first.induct) auto

lemma distinct_keep_first: "distinct (keep_first skip seen ks)"
  by (induction skip seen ks rule: keep_first.induct) (auto simp: set_keep_first)

lemma set_eligible: "set (eligible bonded exclude) = set bonded - set exclude - {[]}"
  by (auto simp: eligible_def set_keep_first)

lemma distinct_eligible: "distinct (eligible bonded exclude)"
  by (simp add: eligible_def distinct_keep_first)

lemma length_eligible: "length (eligible bonded exclude) = card (set bonded - set exclude - {[]})"
  by (metis distinct_eligible distinct_card set_eligible)

lemma eligible_cong:
  assumes "set bonded - set exclude - {[]} = set bonded' - set exclude' - {[]}"
  shows "eligible bonded exclude = eligible bonded' exclude'"
proof (rule sorted_distinct_set_unique)
  show "set (eligible bonded exclude) = set (eligible bonded' exclude')" using assms by (simp add: set_eligible)
qed (simp_all add: distinct_eligible, simp_all add: eligible_def)

lemma seat_index_less:
  assumes "0 < n" "n < 2 ^ 64"
  shows "seat_index seed seat n < n"
proof -
  have "unat (of_nat n :: u64) = n" using assms by (simp add: unat_of_nat take_bit_eq_mod)
  then show ?thesis using assms by (simp add: seat_index_def unat_mod)
qed

lemma remove_nth:
  assumes "i < length xs" "distinct xs"
  shows "distinct (take i xs @ drop (Suc i) xs)" "set (take i xs @ drop (Suc i) xs) = set xs - {xs ! i}"
proof -
  have xs: "xs = take i xs @ xs ! i # drop (Suc i) xs" using assms(1) by (rule id_take_nth_drop)
  with assms(2) have "distinct (take i xs @ xs ! i # drop (Suc i) xs)" by metis
  then show "distinct (take i xs @ drop (Suc i) xs)" by simp
  have "set xs = insert (xs ! i) (set (take i xs @ drop (Suc i) xs))" by (subst xs) simp
  moreover have "xs ! i \<notin> set (take i xs @ drop (Suc i) xs)"
    using \<open>distinct (take i xs @ xs ! i # drop (Suc i) xs)\<close> by simp
  ultimately show "set (take i xs @ drop (Suc i) xs) = set xs - {xs ! i}" by auto
qed

lemma pick_seats_props:
  assumes "distinct rem" "k \<le> length rem" "length rem < 2 ^ 64"
  shows "length (pick_seats seed seat k rem) = k \<and> distinct (pick_seats seed seat k rem)
         \<and> set (pick_seats seed seat k rem) \<subseteq> set rem"
  using assms
proof (induction k arbitrary: seat rem)
  case (Suc k)
  define i where "i = seat_index seed seat (length rem)"
  define rest where "rest = take i rem @ drop (Suc i) rem"
  have i: "i < length rem" unfolding i_def by (rule seat_index_less) (use Suc.prems in auto)
  have rest: "distinct rest" "set rest = set rem - {rem ! i}"
    unfolding rest_def using remove_nth [OF i Suc.prems(1)] by simp_all
  have "length rest = length rem - 1" unfolding rest_def using i by auto
  then have "length (pick_seats seed (Suc seat) k rest) = k \<and> distinct (pick_seats seed (Suc seat) k rest)
       \<and> set (pick_seats seed (Suc seat) k rest) \<subseteq> set rest"
    using Suc.prems by (intro Suc.IH rest(1)) auto
  moreover have "pick_seats seed seat (Suc k) rem = rem ! i # pick_seats seed (Suc seat) k rest"
    by (simp add: Let_def i_def rest_def)
  ultimately show ?case using rest i by auto
qed simp

lemma PickFive_Inr:
  assumes "PickFive seed bonded exclude = Inr panel" "length bonded < 2 ^ 64"
  shows "length panel = 5 \<and> distinct panel \<and> set panel \<subseteq> set bonded - set exclude - {[]}"
proof -
  let ?el = "eligible bonded exclude"
  have "length ?el \<le> card (set bonded)"
    unfolding length_eligible by (intro card_mono) auto
  also have "\<dots> \<le> length bonded" by (rule card_length)
  finally have "length ?el < 2 ^ 64" using assms(2) by linarith
  moreover have "panel = pick_seats seed 0 5 ?el" "5 \<le> length ?el"
    using assms(1) by (auto simp: PickFive_def Let_def split: if_splits)
  ultimately show ?thesis
    using pick_seats_props [OF distinct_eligible, of 5 bonded exclude seed 0] by (simp add: set_eligible)
qed

text \<open>Remark: seating a panel. Fewer than five admissible volunteers are refused; otherwise the panel is
  five different volunteers of the pool, none of them a party or an empty key, and it depends only on
  the set of admissible volunteers and the seed, never on the order or repetitions of the lists a
  gateway was given. (A slice has fewer than \<open>2 ^ 64\<close> elements.)\<close>

theorem PickFive_spec:
  assumes "length bonded < 2 ^ 64"
  shows "(case PickFive seed bonded exclude of
            Inl e \<Rightarrow> e = FewVolunteers \<and> card (set bonded - set exclude - {[]}) < 5
          | Inr panel \<Rightarrow> length panel = 5 \<and> distinct panel \<and> set panel \<subseteq> set bonded - set exclude - {[]})
       \<and> (set bonded' - set exclude' - {[]} = set bonded - set exclude - {[]} \<longrightarrow>
            PickFive seed bonded' exclude' = PickFive seed bonded exclude)"
proof
  show "case PickFive seed bonded exclude of
           Inl e \<Rightarrow> e = FewVolunteers \<and> card (set bonded - set exclude - {[]}) < 5
         | Inr panel \<Rightarrow> length panel = 5 \<and> distinct panel \<and> set panel \<subseteq> set bonded - set exclude - {[]}"
    using PickFive_Inr [OF _ assms, of seed exclude] length_eligible [of bonded exclude]
    by (auto simp: PickFive_def Let_def)
  show "set bonded' - set exclude' - {[]} = set bonded - set exclude - {[]} \<longrightarrow>
          PickFive seed bonded' exclude' = PickFive seed bonded exclude"
    using eligible_cong [of bonded' exclude' bonded exclude] by (simp add: PickFive_def)
qed

definition six_volunteers :: "string list" where
  "six_volunteers = [''v1'', ''v2'', ''v3'', ''v4'', ''v5'', ''v6'']"

theorem PickFive_spec_witness:
  "\<exists>panel. PickFive [] six_volunteers [''v6''] = Inr panel \<and> set panel \<subseteq> set six_volunteers - {''v6''}
     \<and> distinct panel \<and> PickFive [] (rev six_volunteers) [''v6'', ''v6''] = Inr panel"
proof -
  have "set six_volunteers - set [''v6''] - {[]} = {''v1'', ''v2'', ''v3'', ''v4'', ''v5''}"
    by (auto simp: six_volunteers_def)
  then have "card (set six_volunteers - set [''v6''] - {[]}) = 5" by simp
  then show ?thesis
    using PickFive_spec [where bonded = six_volunteers and seed = "[]" and exclude = "[''v6'']"
        and bonded' = "rev six_volunteers" and exclude' = "[''v6'', ''v6'']"]
    by (auto simp: six_volunteers_def split: sum.splits)
qed

subsection \<open>Counting reveals\<close>

definition votes_for :: "string \<Rightarrow> (string \<times> string) list \<Rightarrow> nat" where
  "votes_for v reveals = length (filter (\<lambda>(k, w). w = v) reveals)"

lemma votes_for_simps [simp]:
  "votes_for v [] = 0"
  "votes_for v ((k, w) # r) = (if w = v then Suc (votes_for v r) else votes_for v r)"
  by (simp_all add: votes_for_def)

lemma quorum_loop_Some: "quorum_loop counts r = Some v \<Longrightarrow> 3 \<le> counts v + votes_for v r"
  by (induction counts r rule: quorum_loop.induct) (auto split: if_splits)

lemma quorum_loop_None: "quorum_loop counts r = None \<Longrightarrow> \<forall>v. counts v < 3 \<Longrightarrow> counts v + votes_for v r < 3"
proof (induction counts r rule: quorum_loop.induct)
  case (2 counts k w rest)
  then have "\<not> 3 \<le> counts w + 1" and "quorum_loop (counts(w := counts w + 1)) rest = None"
    by (auto split: if_splits)
  moreover from \<open>\<not> 3 \<le> counts w + 1\<close> 2(3) have "\<forall>v. (counts(w := counts w + 1)) v < 3" by simp
  ultimately have "(counts(w := counts w + 1)) v + votes_for v rest < 3" using 2(1) by blast
  then show ?case by (auto split: if_splits)
qed simp

lemma votes_two: "v \<noteq> w \<Longrightarrow> votes_for v r + votes_for w r \<le> length r"
  by (induction r) (auto)

lemma quorumOf_iff:
  assumes "length r \<le> 5"
  shows "quorumOf r = Some v \<longleftrightarrow> 3 \<le> votes_for v r"
proof
  show "quorumOf r = Some v \<Longrightarrow> 3 \<le> votes_for v r"
    using quorum_loop_Some [of "\<lambda>_. 0" r v] by (simp add: quorumOf_def)
  assume v: "3 \<le> votes_for v r"
  then have "quorumOf r \<noteq> None" using quorum_loop_None [of "\<lambda>_. 0" r v] by (auto simp: quorumOf_def)
  then obtain w where w: "quorumOf r = Some w" by blast
  then have "3 \<le> votes_for w r" using quorum_loop_Some [of "\<lambda>_. 0" r w] by (simp add: quorumOf_def)
  with v assms have "w = v" using votes_two [of w v r] by linarith
  with w show "quorumOf r = Some v" by simp
qed

lemma votes_for_update:
  assumes "map_of r k = None"
  shows "votes_for v (AList.update k w r) = votes_for v r + (if w = v then 1 else 0)"
  using assms by (induction r) auto

lemma votes_for_card:
  assumes "wf_map r"
  shows "votes_for v r = card {k. map_of r k = Some v}"
proof -
  have eq: "{k. map_of r k = Some v} = fst ` set (filter (\<lambda>(k, w). w = v) r)"
    using assms by (force simp: map_of_eq_Some_iff)
  have "distinct (map fst (filter (\<lambda>(k, w). w = v) r))" using assms by (rule distinct_map_filter')
  then have "card (fst ` set (filter (\<lambda>(k, w). w = v) r)) = length (filter (\<lambda>(k, w). w = v) r)"
    by (metis distinct_card length_map list.set_map)
  then show ?thesis by (simp add: eq votes_for_def)
qed

subsection \<open>The invariant of the book\<close>

definition case_ok :: "string \<Rightarrow> cse \<Rightarrow> bool" where
  "case_ok k c \<longleftrightarrow>
     brCaseID (csBrief c) = k \<and> length (csPanel c) = 5 \<and> distinct (csPanel c) \<and> csPanelSet c = set (csPanel c)
     \<and> wf_map (csCommits c) \<and> wf_map (csReveals c) \<and> fst ` set (csCommits c) \<subseteq> set (csPanel c)
     \<and> (\<forall>m v. map_of (csReveals c) m = Some v \<longrightarrow>
          v \<in> {VerdictFulfilled, VerdictNotFulfilled} \<and> (\<exists>nonce. map_of (csCommits c) m = Some (HashCommit v nonce)))
     \<and> (csQuorum c \<noteq> [] \<longrightarrow> csFrozen c \<and> 3 \<le> votes_for (csQuorum c) (csReveals c))"

definition book_ok :: "Book \<Rightarrow> bool" where
  "book_ok b \<longleftrightarrow>
     wf_map (bkCases b) \<and> wf_map (bkByEscrow b) \<and> length (bkRoster b) < 2 ^ 64
     \<and> (\<forall>k c. map_of (bkCases b) k = Some c \<longrightarrow> case_ok k c)
     \<and> (\<forall>e k. map_of (bkByEscrow b) e = Some k \<longleftrightarrow> (\<exists>c. map_of (bkCases b) k = Some c \<and> csEscrowID c = e))"

lemma book_okD:
  assumes "book_ok b" "map_of (bkCases b) k = Some c"
  shows "case_ok k c"
  using assms by (simp add: book_ok_def del: map_of_eq_Some_iff)

lemma case_ok_reveal:
  assumes "case_ok k c" "map_of (csReveals c) m = Some v"
  shows "v \<in> {VerdictFulfilled, VerdictNotFulfilled}" "\<exists>nonce. map_of (csCommits c) m = Some (HashCommit v nonce)"
  using assms unfolding case_ok_def by blast+

lemma case_ok_reveals:
  assumes "case_ok k c"
  shows "length (csReveals c) \<le> 5" "wf_map (csReveals c)" "fst ` set (csReveals c) \<subseteq> set (csPanel c)"
proof -
  show wf: "wf_map (csReveals c)" using assms by (simp add: case_ok_def)
  show sub: "fst ` set (csReveals c) \<subseteq> set (csPanel c)"
  proof
    fix m assume "m \<in> fst ` set (csReveals c)"
    then obtain v where "map_of (csReveals c) m = Some v" by (metis map_of_eq_None_iff not_None_eq)
    then obtain nonce where "map_of (csCommits c) m = Some (HashCommit v nonce)"
      using case_ok_reveal(2) [OF assms] by blast
    then have "m \<in> fst ` set (csCommits c)" by (metis map_of_eq_None_iff option.distinct(1))
    then show "m \<in> set (csPanel c)" using assms by (auto simp: case_ok_def)
  qed
  have "length (csReveals c) = card (fst ` set (csReveals c))"
    using wf by (metis distinct_card length_map list.set_map)
  also have "\<dots> \<le> card (set (csPanel c))" using sub by (rule card_mono [rotated]) simp
  also have "\<dots> = 5" using assms by (simp add: case_ok_def distinct_card)
  finally show "length (csReveals c) \<le> 5" .
qed

lemma quorum_verdict:
  assumes "case_ok k c" "3 \<le> votes_for v (csReveals c)"
  shows "v \<in> {VerdictFulfilled, VerdictNotFulfilled}"
proof -
  have "0 < card {m. map_of (csReveals c) m = Some v}"
    using assms votes_for_card [OF case_ok_reveals(2) [OF assms(1)], of v] by simp
  then obtain m where "map_of (csReveals c) m = Some v" by (metis (mono_tags) card.empty empty_Collect_eq less_irrefl)
  then show ?thesis by (rule case_ok_reveal(1) [OF assms(1)])
qed

lemma verdict_not_empty: "v \<in> {VerdictFulfilled, VerdictNotFulfilled} \<Longrightarrow> v \<noteq> []"
  by (auto simp: VerdictFulfilled_def VerdictNotFulfilled_def)

lemma settle_quorum_simps [simp]:
  "csBrief (settle_quorum c) = csBrief c" "csEscrowID (settle_quorum c) = csEscrowID c"
  "csPanel (settle_quorum c) = csPanel c" "csPanelSet (settle_quorum c) = csPanelSet c"
  "csCommits (settle_quorum c) = csCommits c" "csReveals (settle_quorum c) = csReveals c"
  "csFrozen (settle_quorum c) = csFrozen c" "csDeadline (settle_quorum c) = csDeadline c"
  by (simp_all add: settle_quorum_def split: option.split)

lemma settle_quorum_keeps: "csQuorum c \<noteq> [] \<Longrightarrow> settle_quorum c = c"
  by (simp add: settle_quorum_def)

lemma settle_quorum_ok:
  assumes "case_ok k c" "csFrozen c"
  shows "case_ok k (settle_quorum c)"
proof -
  have "3 \<le> votes_for q (csReveals c)" if "quorumOf (csReveals c) = Some q" for q
    using that quorumOf_iff [OF case_ok_reveals(1) [OF assms(1)]] by simp
  then show ?thesis
    using assms unfolding settle_quorum_def by (auto simp: case_ok_def simp del: map_of_eq_Some_iff split: option.split)
qed

lemma settle_quorum_iff:
  assumes "case_ok k c" "csFrozen c"
  shows "csQuorum (settle_quorum c) = v \<and> v \<noteq> [] \<longleftrightarrow> 3 \<le> votes_for v (csReveals c)"
proof -
  have ok: "case_ok k (settle_quorum c)" using assms by (rule settle_quorum_ok)
  have len: "length (csReveals c) \<le> 5" using assms(1) by (rule case_ok_reveals(1))
  show ?thesis
  proof
    assume "csQuorum (settle_quorum c) = v \<and> v \<noteq> []"
    then show "3 \<le> votes_for v (csReveals c)" using ok by (auto simp: case_ok_def)
  next
    assume v: "3 \<le> votes_for v (csReveals c)"
    then have ne: "v \<noteq> []" using quorum_verdict [OF assms(1)] verdict_not_empty by blast
    have "csQuorum (settle_quorum c) \<noteq> []"
      using v ne quorumOf_iff [OF len, of v] by (auto simp: settle_quorum_def)
    then have "3 \<le> votes_for (csQuorum (settle_quorum c)) (csReveals c)" using ok by (auto simp: case_ok_def)
    with v len have "csQuorum (settle_quorum c) = v"
      using votes_two [of "csQuorum (settle_quorum c)" v "csReveals c"] by linarith
    with ne show "csQuorum (settle_quorum c) = v \<and> v \<noteq> []" by simp
  qed
qed

subsection \<open>Runs of the book\<close>

datatype deal_event =
    RosterSet flush_io "string list"
  | HeightSet flush_io u64
  | AppealOpened flush_io string string string "string list" "string list" string
  | Committed flush_io string string string
  | Revealed flush_io string string string string
  | QuorumAsked string

fun deal_step :: "Book \<Rightarrow> deal_event \<Rightarrow> Book" where
  "deal_step b (RosterSet io keys) = SetRoster io keys b"
| "deal_step b (HeightSet io h) = SetHeight io h b"
| "deal_step b (AppealOpened io terms openBlock e bonded exclude prior) =
     snd (OpenAppeal io terms openBlock e bonded exclude prior b)"
| "deal_step b (Committed io cid key hash) = snd (Commit io cid key hash b)"
| "deal_step b (Revealed io cid key verdict nonce) = snd (RevealNonce io cid key verdict nonce b)"
| "deal_step b (QuorumAsked cid) = snd (Quorum cid b)"

text \<open>The runs the promises cover: slices have a 64-bit length, and the case identifier of a new
  escrow, a SHA-256 digest, is not one the book already uses.\<close>

fun deal_covered :: "Book \<Rightarrow> deal_event \<Rightarrow> bool" where
  "deal_covered b (RosterSet io keys) \<longleftrightarrow> length keys < 2 ^ 64"
| "deal_covered b (AppealOpened io terms openBlock e bonded exclude prior) \<longleftrightarrow>
     length bonded < 2 ^ 64
     \<and> (map_of (bkByEscrow b) e = None \<longrightarrow> map_of (bkCases b) (case_id e (terms_hash (stringsTrim terms))) = None)"
| "deal_covered b _ \<longleftrightarrow> True"

definition case_le :: "cse \<Rightarrow> cse \<Rightarrow> bool" where
  "case_le c d \<longleftrightarrow>
     csEscrowID d = csEscrowID c \<and> csPanel d = csPanel c \<and> csDeadline d = csDeadline c
     \<and> brTerms (csBrief d) = brTerms (csBrief c)
     \<and> map_of (csCommits c) \<subseteq>\<^sub>m map_of (csCommits d) \<and> map_of (csReveals c) \<subseteq>\<^sub>m map_of (csReveals d)
     \<and> (csFrozen c \<longrightarrow> csFrozen d) \<and> (csQuorum c \<noteq> [] \<longrightarrow> csQuorum d = csQuorum c)"

definition book_le :: "Book \<Rightarrow> Book \<Rightarrow> bool" where
  "book_le a b \<longleftrightarrow> (\<forall>k c. map_of (bkCases a) k = Some c \<longrightarrow> (\<exists>d. map_of (bkCases b) k = Some d \<and> case_le c d))"

lemma case_le_refl [simp]: "case_le c c"
  by (simp add: case_le_def)

lemma case_le_trans: "case_le c d \<Longrightarrow> case_le d e \<Longrightarrow> case_le c e"
  unfolding case_le_def by (auto intro: map_le_trans)

lemma book_le_refl: "book_le b b"
  unfolding book_le_def using case_le_refl by blast

lemma book_le_trans: "book_le a b \<Longrightarrow> book_le b c \<Longrightarrow> book_le a c"
  unfolding book_le_def using case_le_trans by meson

lemma settle_quorum_le: "case_le c (settle_quorum c)"
  by (auto simp: case_le_def settle_quorum_keeps)

lemma flushLocked_simps [simp]:
  "bkCases (flushLocked io b) = bkCases b" "bkByEscrow (flushLocked io b) = bkByEscrow b"
  "bkRoster (flushLocked io b) = bkRoster b" "bkHeight (flushLocked io b) = bkHeight b"
  "bkPath (flushLocked io b) = bkPath b"
  by (simp_all add: flushLocked_def)

lemma set_case_simps [simp]:
  "bkCases (set_case k c b) = AList.update k c (bkCases b)" "bkByEscrow (set_case k c b) = bkByEscrow b"
  "bkRoster (set_case k c b) = bkRoster b" "bkHeight (set_case k c b) = bkHeight b"
  by (simp_all add: set_case_def)

lemma book_ok_flush [simp]: "book_ok (flushLocked io b) = book_ok b"
  by (simp add: book_ok_def)

lemma book_le_flush [simp]: "book_le a (flushLocked io b) = book_le a b"
  by (simp add: book_le_def)

lemma set_case_ok:
  assumes "book_ok b" "map_of (bkCases b) k = Some c" "case_ok k d" "case_le c d"
  shows "book_ok (set_case k d b) \<and> book_le b (set_case k d b)"
proof -
  have e: "csEscrowID d = csEscrowID c" using assms(4) by (simp add: case_le_def)
  have "(\<exists>x. map_of (AList.update k d (bkCases b)) j = Some x \<and> csEscrowID x = f)
      \<longleftrightarrow> (\<exists>x. map_of (bkCases b) j = Some x \<and> csEscrowID x = f)" for j f
    using assms(2) e by (cases "j = k") auto
  then have "book_ok (set_case k d b)"
    using assms(1,3) unfolding book_ok_def by (simp del: map_of_eq_Some_iff)
  moreover have "book_le b (set_case k d b)"
    unfolding book_le_def using assms(2,4) case_le_refl by (auto simp del: map_of_eq_Some_iff)
  ultimately show ?thesis ..
qed

lemma new_case_ok:
  assumes "book_ok b" "map_of (bkCases b) k = None" "map_of (bkByEscrow b) e = None" "case_ok k c" "csEscrowID c = e"
  shows "book_ok ((set_case k c b)\<lparr>bkByEscrow := AList.update e k (bkByEscrow b)\<rparr>)
    \<and> book_le b ((set_case k c b)\<lparr>bkByEscrow := AList.update e k (bkByEscrow b)\<rparr>)" (is "book_ok ?b \<and> _")
proof -
  have idx: "map_of (bkByEscrow b) f = Some j \<longleftrightarrow> (\<exists>x. map_of (bkCases b) j = Some x \<and> csEscrowID x = f)" for f j
    using assms(1) unfolding book_ok_def by blast
  have "map_of (bkByEscrow ?b) f = Some j \<longleftrightarrow> (\<exists>x. map_of (bkCases ?b) j = Some x \<and> csEscrowID x = f)" for f j
    using idx [of f j] idx [of e j] assms(2,3,5) by (auto simp del: map_of_eq_Some_iff)
  moreover have "\<forall>j x. map_of (bkCases ?b) j = Some x \<longrightarrow> case_ok j x"
    using assms(1,4) unfolding book_ok_def by (simp del: map_of_eq_Some_iff)
  moreover have "wf_map (bkCases ?b) \<and> wf_map (bkByEscrow ?b) \<and> length (bkRoster ?b) < 2 ^ 64"
    using assms(1) by (simp add: book_ok_def)
  ultimately have "book_ok ?b" unfolding book_ok_def by blast
  moreover have "book_le b ?b"
    unfolding book_le_def using assms(2) case_le_refl by (auto simp del: map_of_eq_Some_iff)
  ultimately show ?thesis ..
qed

lemma frozen_ok: "case_ok k c \<Longrightarrow> case_ok k (c\<lparr>csFrozen := True\<rparr>)"
  unfolding case_ok_def by (simp del: map_of_eq_Some_iff)

lemma frozen_le: "case_le c (c\<lparr>csFrozen := True\<rparr>)"
  by (simp add: case_le_def)

lemma freeze_case_ok: "case_ok k c \<Longrightarrow> case_ok k (freeze_case h c)"
  by (simp add: freeze_case_def settle_quorum_ok frozen_ok)

lemma freeze_case_le: "case_le c (freeze_case h c)"
  using case_le_trans [OF frozen_le settle_quorum_le] by (simp add: freeze_case_def)

lemma length_keep_first: "length (keep_first skip seen ks) \<le> length ks"
  by (induction skip seen ks rule: keep_first.induct) auto

lemma SetRoster_step:
  assumes "book_ok b" "length keys < 2 ^ 64"
  shows "book_ok (SetRoster io keys b) \<and> book_le b (SetRoster io keys b)"
proof -
  have "length (keep_first (\<lambda>k. k = []) {} keys) < 2 ^ 64"
    using assms(2) length_keep_first [of "\<lambda>k. k = []" "{}" keys] by linarith
  then show ?thesis using assms(1) book_le_refl [of b] by (simp add: SetRoster_def book_ok_def book_le_def)
qed

lemma SetHeight_step:
  assumes "book_ok b"
  shows "book_ok (SetHeight io h b) \<and> book_le b (SetHeight io h b)"
proof -
  let ?b = "b\<lparr>bkHeight := h, bkCases := map (\<lambda>(k, c). (k, freeze_case h c)) (bkCases b)\<rparr>"
  have m: "map_of (bkCases ?b) k = map_option (freeze_case h) (map_of (bkCases b) k)" for k
    by (simp add: map_of_map)
  have esc: "csEscrowID (freeze_case h c) = csEscrowID c" for c by (simp add: freeze_case_def)
  have "wf_map (bkCases ?b)" using assms by (simp add: book_ok_def comp_def case_prod_beta)
  moreover have "case_ok k c" if "map_of (bkCases ?b) k = Some c" for k c
    using that book_okD [OF assms, of k] unfolding m by (auto intro: freeze_case_ok)
  moreover have "map_of (bkByEscrow b) e = Some k \<longleftrightarrow> (\<exists>c. map_of (bkCases ?b) k = Some c \<and> csEscrowID c = e)" for e k
    using assms esc unfolding book_ok_def m by (auto simp del: map_of_eq_Some_iff)
  ultimately have "book_ok ?b" using assms unfolding book_ok_def by simp
  moreover have "book_le b ?b" unfolding book_le_def m using freeze_case_le by auto
  ultimately show ?thesis by (simp add: SetHeight_def)
qed

lemma Commit_step:
  assumes "book_ok b"
  shows "book_ok (snd (Commit io cid key hash b)) \<and> book_le b (snd (Commit io cid key hash b))"
proof (cases "fst (Commit io cid key hash b) = None")
  case True
  then obtain c where c: "map_of (bkCases b) cid = Some c" "key \<in> csPanelSet c" "map_of (csCommits c) key = None"
    and b: "snd (Commit io cid key hash b) =
          flushLocked io (set_case cid (c\<lparr>csCommits := AList.update key hash (csCommits c)\<rparr>) b)"
    by (auto simp: Commit_def split: option.splits if_splits)
  let ?d = "c\<lparr>csCommits := AList.update key hash (csCommits c)\<rparr>"
  note ok = book_okD [OF assms c(1)]
  have "fst ` set (AList.update key hash (csCommits c)) \<subseteq> set (csPanel c)"
    using ok c(2) unfolding case_ok_def by (auto dest!: update_elem)
  moreover have "map_of (csReveals c) m = Some v \<Longrightarrow> m \<noteq> key" for m v
    using case_ok_reveal(2) [OF ok, of m v] c(3) by auto
  ultimately have "case_ok cid ?d" using ok unfolding case_ok_def by (simp del: map_of_eq_Some_iff)
  moreover have "case_le c ?d" using c(3) by (auto simp: case_le_def map_le_def)
  ultimately show ?thesis unfolding b using set_case_ok [OF assms c(1)] by simp
next
  case False
  then have "snd (Commit io cid key hash b) = b" by (auto simp: Commit_def split: option.splits if_splits)
  then show ?thesis using assms book_le_refl by simp
qed

lemma RevealNonce_step:
  assumes "book_ok b"
  shows "book_ok (snd (RevealNonce io cid key v nonce b)) \<and> book_le b (snd (RevealNonce io cid key v nonce b))"
proof (cases "fst (RevealNonce io cid key v nonce b) = None")
  case True
  define upd where "upd = (\<lambda>c :: cse. c\<lparr>csReveals := AList.update key v (csReveals c)\<rparr>)"
  from True obtain c where c: "map_of (bkCases b) cid = Some c" "map_of (csCommits c) key = Some (HashCommit v nonce)"
      "map_of (csReveals c) key = None" "v \<in> {VerdictFulfilled, VerdictNotFulfilled}"
    and b: "snd (RevealNonce io cid key v nonce b) =
          flushLocked io (set_case cid (if csFrozen c then settle_quorum (upd c) else upd c) b)"
    unfolding upd_def by (auto simp: RevealNonce_def Let_def split: option.splits if_splits)
  note ok = book_okD [OF assms c(1)]
  have "\<forall>m w. map_of (csReveals (upd c)) m = Some w \<longrightarrow>
      w \<in> {VerdictFulfilled, VerdictNotFulfilled} \<and> (\<exists>nonce. map_of (csCommits c) m = Some (HashCommit w nonce))"
    using c(2,4) case_ok_reveal [OF ok] unfolding upd_def by (auto split: if_splits)
  moreover have "csQuorum c \<noteq> [] \<longrightarrow> csFrozen c \<and> 3 \<le> votes_for (csQuorum c) (csReveals (upd c))"
    using ok c(3) unfolding upd_def case_ok_def by (auto simp: votes_for_update)
  ultimately have "case_ok cid (upd c)"
    using ok unfolding case_ok_def upd_def by (simp del: map_of_eq_Some_iff)
  then have "case_ok cid (if csFrozen c then settle_quorum (upd c) else upd c)"
    using settle_quorum_ok [of cid "upd c"] by (simp add: upd_def)
  moreover have le: "case_le c (upd c)" using c(3) by (auto simp: case_le_def map_le_def upd_def)
  then have "case_le c (if csFrozen c then settle_quorum (upd c) else upd c)"
    using case_le_trans [OF le settle_quorum_le] by simp
  ultimately show ?thesis unfolding b using set_case_ok [OF assms c(1)] by simp
next
  case False
  then have "snd (RevealNonce io cid key v nonce b) = b"
    by (cases "map_of (bkCases b) cid") (auto simp: RevealNonce_def Let_def split: if_split_asm)
  then show ?thesis using assms book_le_refl by simp
qed

lemma frozen_same: "csFrozen c \<Longrightarrow> c\<lparr>csFrozen := True\<rparr> = c"
  by (cases c) simp

lemma Quorum_step:
  assumes "book_ok b"
  shows "book_ok (snd (Quorum cid b)) \<and> book_le b (snd (Quorum cid b))"
proof (cases "\<exists>c. map_of (bkCases b) cid = Some c \<and> (csFrozen c \<or> bkHeight b > csDeadline c)")
  case True
  then obtain c where c: "map_of (bkCases b) cid = Some c" and f: "csFrozen c \<or> bkHeight b > csDeadline c" by blast
  have eq: "snd (Quorum cid b) = set_case cid (settle_quorum (c\<lparr>csFrozen := True\<rparr>)) b"
    using c f by (cases "csFrozen c") (auto simp: Quorum_def Let_def frozen_same)
  have "case_le c (settle_quorum (c\<lparr>csFrozen := True\<rparr>))" by (rule case_le_trans [OF frozen_le settle_quorum_le])
  then show ?thesis
    unfolding eq using set_case_ok [OF assms c] settle_quorum_ok [OF frozen_ok [OF book_okD [OF assms c]]] by simp
next
  case False
  then have "snd (Quorum cid b) = b" by (auto simp: Quorum_def Let_def split: option.splits)
  then show ?thesis using assms book_le_refl by simp
qed

lemma prior_ok:
  "case_ok k c \<Longrightarrow> case_ok k (c\<lparr>csBrief := (csBrief c)\<lparr>brPriorResult := p\<rparr>\<rparr>)"
  "case_le c (c\<lparr>csBrief := (csBrief c)\<lparr>brPriorResult := p\<rparr>\<rparr>)"
  unfolding case_ok_def case_le_def by (simp_all del: map_of_eq_Some_iff)

definition fresh_case :: "string \<Rightarrow> string \<Rightarrow> string list \<Rightarrow> u64 \<Rightarrow> string \<Rightarrow> cse" where
  "fresh_case terms e panel deadline prior =
     \<lparr>csBrief = \<lparr>brCaseID = case_id e (terms_hash terms), brTerms = terms, brTermsHash = terms_hash terms,
                 brPriorResult = prior, brRevealsOpen = False\<rparr>,
      csEscrowID = e, csPanel = panel, csPanelSet = set panel, csCommits = [], csReveals = [], csQuorum = [],
      csDeadline = deadline, csFrozen = False, csInstance = PanelInstanceFirst, csGeneration = PanelGenerationFirst\<rparr>"

lemma fresh_case_ok:
  assumes "length panel = 5" "distinct panel"
  shows "case_ok (case_id e (terms_hash terms)) (fresh_case terms e panel deadline prior)"
  using assms by (simp add: case_ok_def fresh_case_def)

text \<open>The three ways an appeal changes the book.\<close>

lemma OpenAppeal_cases:
  obtains "snd (OpenAppeal io terms ob e bonded exclude prior b) = b"
  | k c where "map_of (bkByEscrow b) e = Some k" "map_of (bkCases b) k = Some c"
      "snd (OpenAppeal io terms ob e bonded exclude prior b)
       = set_case k (c\<lparr>csBrief := (csBrief c)\<lparr>brPriorResult := prior\<rparr>\<rparr>) b"
  | panel where "map_of (bkByEscrow b) e = None"
      "PickFive (PanelSeed e (stringsTrim terms) PanelInstanceFirst PanelGenerationFirst)
         (if bkRoster b = [] then bonded else bkRoster b) exclude = Inr panel"
      "snd (OpenAppeal io terms ob e bonded exclude prior b) =
         flushLocked io ((set_case (case_id e (terms_hash (stringsTrim terms)))
             (fresh_case (stringsTrim terms) e panel (parseUint ob) prior) b)
           \<lparr>bkByEscrow := AList.update e (case_id e (terms_hash (stringsTrim terms))) (bkByEscrow b)\<rparr>)"
proof (cases "stringsTrim terms = [] \<or> e = []")
  case True
  then show thesis using that(1) by (simp add: OpenAppeal_def)
next
  case guard: False
  let ?pick = "PickFive (PanelSeed e (stringsTrim terms) PanelInstanceFirst PanelGenerationFirst)
         (if bkRoster b = [] then bonded else bkRoster b) exclude"
  let ?k = "case_id e (terms_hash (stringsTrim terms))"
  show thesis
  proof (cases "map_of (bkByEscrow b) e")
    case (Some k)
    with guard that(1,2) show thesis by (cases "map_of (bkCases b) k") (auto simp: OpenAppeal_def Let_def)
  next
    case None
    show thesis
    proof (cases "\<exists>panel. ?pick = Inr panel \<and> ?k \<noteq> e")
      case True
      then obtain panel where p: "?pick = Inr panel" "?k \<noteq> e" by blast
      show thesis by (rule that(3) [OF None p(1)]) (use guard None p in \<open>simp add: OpenAppeal_def Let_def fresh_case_def\<close>)
    next
      case False
      then have "(\<exists>err. ?pick = Inl err) \<or> (\<exists>panel. ?pick = Inr panel \<and> ?k = e)" by (cases ?pick) auto
      with guard None have "snd (OpenAppeal io terms ob e bonded exclude prior b) = b"
        by (auto simp: OpenAppeal_def Let_def simp del: not_None_eq)
      then show thesis by (rule that(1))
    qed
  qed
qed

lemma OpenAppeal_step:
  assumes "book_ok b" "length bonded < 2 ^ 64"
    and "map_of (bkByEscrow b) e = None \<longrightarrow> map_of (bkCases b) (case_id e (terms_hash (stringsTrim terms))) = None"
  shows "book_ok (snd (OpenAppeal io terms ob e bonded exclude prior b))
    \<and> book_le b (snd (OpenAppeal io terms ob e bonded exclude prior b))"
proof (rule OpenAppeal_cases [of io terms ob e bonded exclude prior b])
  assume "snd (OpenAppeal io terms ob e bonded exclude prior b) = b"
  then show ?thesis using assms(1) book_le_refl by simp
next
  fix k c
  assume c: "map_of (bkCases b) k = Some c" and eq: "snd (OpenAppeal io terms ob e bonded exclude prior b)
       = set_case k (c\<lparr>csBrief := (csBrief c)\<lparr>brPriorResult := prior\<rparr>\<rparr>) b"
  show ?thesis unfolding eq by (rule set_case_ok [OF assms(1) c prior_ok(1) [OF book_okD [OF assms(1) c]] prior_ok(2)])
next
  fix panel
  let ?k = "case_id e (terms_hash (stringsTrim terms))"
  assume none: "map_of (bkByEscrow b) e = None"
    and pick: "PickFive (PanelSeed e (stringsTrim terms) PanelInstanceFirst PanelGenerationFirst)
         (if bkRoster b = [] then bonded else bkRoster b) exclude = Inr panel"
    and eq: "snd (OpenAppeal io terms ob e bonded exclude prior b) =
         flushLocked io ((set_case ?k (fresh_case (stringsTrim terms) e panel (parseUint ob) prior) b)
           \<lparr>bkByEscrow := AList.update e ?k (bkByEscrow b)\<rparr>)"
  have "length (if bkRoster b = [] then bonded else bkRoster b) < 2 ^ 64"
    using assms(1,2) by (simp add: book_ok_def)
  then have "length panel = 5 \<and> distinct panel" using PickFive_Inr [OF pick] by simp
  then have ok: "case_ok ?k (fresh_case (stringsTrim terms) e panel (parseUint ob) prior)" by (simp add: fresh_case_ok)
  have "csEscrowID (fresh_case (stringsTrim terms) e panel (parseUint ob) prior) = e" by (simp add: fresh_case_def)
  with assms(3) none show ?thesis unfolding eq using new_case_ok [OF assms(1) _ none ok] by simp
qed

lemma deal_step_ok:
  assumes "book_ok b" "deal_covered b e"
  shows "book_ok (deal_step b e) \<and> book_le b (deal_step b e)"
  using assms
  by (cases e) (simp_all add: SetRoster_step SetHeight_step OpenAppeal_step Commit_step RevealNonce_step Quorum_step)

interpretation dm: guarded_machine deal_step book_ok deal_covered book_le
  by unfold_locales (auto simp: deal_step_ok book_le_refl intro: book_le_trans)

lemma NewBook_ok: "book_ok (NewBook\<lparr>bkPath := path, bkFile := f\<rparr>)"
  by (simp add: book_ok_def NewBook_def)

subsection \<open>What the book promises\<close>

lemma votes_panel:
  assumes "case_ok k c"
  shows "votes_for v (csReveals c) =
    card {m \<in> set (csPanel c). map_of (csReveals c) m = Some v \<and> (\<exists>nonce. map_of (csCommits c) m = Some (HashCommit v nonce))}"
proof -
  have "m \<in> set (csPanel c)" if "map_of (csReveals c) m = Some v" for m
    using that case_ok_reveals(3) [OF assms] by (metis map_of_eq_None_iff option.distinct(1) subsetD)
  then have "{m \<in> set (csPanel c). map_of (csReveals c) m = Some v \<and> (\<exists>nonce. map_of (csCommits c) m = Some (HashCommit v nonce))}
      = {m. map_of (csReveals c) m = Some v}"
    using case_ok_reveal(2) [OF assms] by blast
  then show ?thesis using votes_for_card [OF case_ok_reveals(2) [OF assms]] by simp
qed

lemma Quorum_iff_votes:
  assumes "book_ok b" "map_of (bkCases b) cid = Some c"
  shows "fst (Quorum cid b) = Some out \<longleftrightarrow>
    (csFrozen c \<or> csDeadline c < bkHeight b) \<and> (\<exists>v. out = coreOutcome v \<and> 3 \<le> votes_for v (csReveals c))"
proof (cases "csFrozen c \<or> csDeadline c < bkHeight b")
  case True
  let ?d = "c\<lparr>csFrozen := True\<rparr>"
  have eq: "fst (Quorum cid b) =
      (if csQuorum (settle_quorum ?d) = [] then None else Some (coreOutcome (csQuorum (settle_quorum ?d))))"
    using assms(2) True by (cases "csFrozen c") (auto simp: Quorum_def Let_def frozen_same)
  have ok: "case_ok cid ?d" using frozen_ok [OF book_okD [OF assms]] .
  define q where "q = csQuorum (settle_quorum ?d)"
  have "3 \<le> votes_for v (csReveals c) \<longleftrightarrow> q = v \<and> v \<noteq> []" for v
    using settle_quorum_iff [OF ok, of v] by (simp add: q_def)
  then show ?thesis unfolding eq q_def [symmetric] using True by auto
next
  case False
  then show ?thesis using assms(2) by (simp add: Quorum_def)
qed

text \<open>C14: every run of the book that starts empty (roster changes, heights, complaints, commits,
  reveals and quorum reads in any order, flushes failing or not) keeps its invariant: five different
  panel members per case, commits and reveals only of members, every reveal one of the two verdicts and
  opening its own commit, a recorded quorum only on a frozen case and backed by three reveals, and an
  escrow index that names exactly the case of each escrow. The run covers 64-bit slice lengths and no
  collision of the SHA-256 case identifiers.\<close>

theorem deal_book_invariant:
  assumes "run_ok deal_step deal_covered (OpenBook path None) events"
  shows "book_ok (foldl deal_step (OpenBook path None) events)"
proof -
  have "book_ok (OpenBook path None)" using NewBook_ok [where path = path and f = None] by (cases "path = []") (simp_all add: OpenBook_def Let_def)
  then show ?thesis using dm.guarded_run [OF _ assms] by blast
qed

definition sure_io :: flush_io where
  "sure_io = \<lparr>fiWritten = True, fiOrder = id\<rparr>"

theorem deal_book_invariant_witness:
  "book_ok (foldl deal_step (OpenBook ''volunteers.json'' None)
     [RosterSet sure_io six_volunteers, AppealOpened sure_io ''paint the wall'' ''7'' ''esc1'' [] [''v6''] [],
      HeightSet sure_io 8, QuorumAsked ''none''])"
  by (rule deal_book_invariant)
    (simp add: SetRoster_def six_volunteers_def OpenBook_def NewBook_def Let_def del: keep_first.simps)

text \<open>Remark: the answer of a panel. In a book that satisfies the invariant, \<open>Quorum\<close> answers an outcome
  exactly when the case is frozen (or the height has passed its deadline) and at least three panel members
  have revealed that verdict against their own commits; with five members there is at most one such
  verdict, so the answer does not depend on the order in which the reveals are counted.\<close>

theorem Quorum_exact:
  assumes "book_ok b" "map_of (bkCases b) cid = Some c"
  shows "fst (Quorum cid b) = Some out \<longleftrightarrow>
    (csFrozen c \<or> csDeadline c < bkHeight b)
    \<and> (\<exists>v. out = coreOutcome v
        \<and> 3 \<le> card {m \<in> set (csPanel c). map_of (csReveals c) m = Some v
                       \<and> (\<exists>nonce. map_of (csCommits c) m = Some (HashCommit v nonce))})"
  unfolding votes_panel [OF book_okD [OF assms], symmetric] by (rule Quorum_iff_votes [OF assms])

definition voted_case :: cse where
  "voted_case =
     \<lparr>csBrief = \<lparr>brCaseID = ''case1'', brTerms = ''t'', brTermsHash = ''h'', brPriorResult = [], brRevealsOpen = False\<rparr>,
      csEscrowID = ''esc1'', csPanel = [''v1'', ''v2'', ''v3'', ''v4'', ''v5''],
      csPanelSet = {''v1'', ''v2'', ''v3'', ''v4'', ''v5''},
      csCommits = [(''v1'', HashCommit VerdictFulfilled ''a''), (''v3'', HashCommit VerdictFulfilled ''c''),
                   (''v5'', HashCommit VerdictFulfilled ''e'')],
      csReveals = [(''v5'', VerdictFulfilled), (''v1'', VerdictFulfilled), (''v3'', VerdictFulfilled)], csQuorum = [],
      csDeadline = 7, csFrozen = False, csInstance = PanelInstanceFirst, csGeneration = PanelGenerationFirst\<rparr>"

definition voted_book :: Book where
  "voted_book =
     \<lparr>bkCases = [(''case1'', voted_case)], bkByEscrow = [(''esc1'', ''case1'')], bkRoster = six_volunteers,
      bkHeight = 8, bkPath = ''volunteers.json'', bkFile = None\<rparr>"

lemma voted_case_ok: "case_ok ''case1'' voted_case"
  by (simp add: case_ok_def voted_case_def split: if_splits) blast

lemma voted_book_ok: "book_ok voted_book"
  using voted_case_ok
  by (auto simp: book_ok_def voted_book_def voted_case_def six_volunteers_def split: if_splits)

theorem Quorum_exact_witness:
  "fst (Quorum ''case1'' voted_book) = Some OutcomeFulfilled"
proof -
  have c: "map_of (bkCases voted_book) ''case1'' = Some voted_case" by (simp add: voted_book_def)
  have "3 \<le> votes_for VerdictFulfilled (csReveals voted_case)" by (simp add: voted_case_def)
  then have "3 \<le> card {m \<in> set (csPanel voted_case). map_of (csReveals voted_case) m = Some VerdictFulfilled
                       \<and> (\<exists>nonce. map_of (csCommits voted_case) m = Some (HashCommit VerdictFulfilled nonce))}"
    unfolding votes_panel [OF voted_case_ok] .
  moreover have "csDeadline voted_case < bkHeight voted_book" by (simp add: voted_case_def voted_book_def)
  moreover have "OutcomeFulfilled = coreOutcome VerdictFulfilled" by (simp add: coreOutcome_def)
  ultimately show ?thesis using Quorum_exact [OF voted_book_ok c, of OutcomeFulfilled] by blast
qed

text \<open>Remark: a verdict is final. Once \<open>Quorum\<close> has answered, every later run of the book (later commits,
  reveals, appeals on the same escrow, heights in any order) leaves the answer as it was; the run covers
  64-bit slice lengths and no collision of case identifiers.\<close>

theorem verdict_final:
  assumes "book_ok b" "fst (Quorum cid b) = Some out"
    and "run_ok deal_step deal_covered (snd (Quorum cid b)) events"
  shows "fst (Quorum cid (foldl deal_step (snd (Quorum cid b)) events)) = Some out"
proof -
  let ?b1 = "snd (Quorum cid b)" let ?b2 = "foldl deal_step ?b1 events"
  have ok1: "book_ok ?b1" using Quorum_step [OF assms(1)] by simp
  then have ok2: "book_ok ?b2" and le: "book_le ?b1 ?b2" using dm.guarded_run [OF _ assms(3)] by blast+
  obtain c1 where c1: "map_of (bkCases ?b1) cid = Some c1" "csQuorum c1 \<noteq> []" "out = coreOutcome (csQuorum c1)"
    using assms(2) by (auto simp: Quorum_def Let_def split: option.splits if_splits)
  obtain c2 where c2: "map_of (bkCases ?b2) cid = Some c2" and "case_le c1 c2"
    using le c1(1) unfolding book_le_def by blast
  then have q: "csQuorum c2 = csQuorum c1" using c1(2) by (simp add: case_le_def)
  with c1(2) have "csFrozen c2" using book_okD [OF ok2 c2] by (simp add: case_ok_def)
  with c1 c2 q show ?thesis by (simp add: Quorum_def Let_def settle_quorum_keeps)
qed

theorem verdict_final_witness:
  "fst (Quorum ''case1'' (foldl deal_step (snd (Quorum ''case1'' voted_book))
     [HeightSet sure_io 1, Committed sure_io ''case1'' ''v2'' ''h'', Revealed sure_io ''case1'' ''v2'' VerdictNotFulfilled []]))
   = Some OutcomeFulfilled"
proof -
  have "3 \<le> votes_for VerdictFulfilled (csReveals voted_case)" by (simp add: voted_case_def)
  then have "fst (Quorum ''case1'' voted_book) = Some OutcomeFulfilled"
    using Quorum_iff_votes [OF voted_book_ok, of "''case1''" voted_case OutcomeFulfilled]
    by (auto simp: voted_book_def voted_case_def coreOutcome_def)
  then show ?thesis by (rule verdict_final [OF voted_book_ok]) simp
qed

subsection \<open>Writing and reopening the book\<close>

lemma load_fold:
  "map_of (bkCases (foldl load_case b rows)) =
     map_of (bkCases b) ++ map_of (rev (map (\<lambda>r. (brCaseID (pcBrief r), toCase r)) rows))"
  "map_of (bkByEscrow (foldl load_case b rows)) =
     map_of (bkByEscrow b) ++ map_of (rev (map (\<lambda>r. (pcEscrowID r, brCaseID (pcBrief r))) rows))"
  "bkRoster (foldl load_case b rows) = bkRoster b" "bkHeight (foldl load_case b rows) = bkHeight b"
  "bkPath (foldl load_case b rows) = bkPath b" "bkFile (foldl load_case b rows) = bkFile b"
  by (induction rows arbitrary: b) (simp_all add: load_case_def Let_def toCase_def)

lemma load_fold_wf: "wf_map (bkCases b) \<Longrightarrow> wf_map (bkByEscrow b) \<Longrightarrow>
    wf_map (bkCases (foldl load_case b rows)) \<and> wf_map (bkByEscrow (foldl load_case b rows))"
  by (induction rows arbitrary: b) (simp_all add: load_case_def Let_def)

lemma toCase_persist: "case_ok k c \<Longrightarrow> toCase (persist c) = c"
  by (cases c) (simp add: toCase_def persist_def or_empty_def case_ok_def)

lemma brief_persist: "pcBrief (persist c) = csBrief c" "pcEscrowID (persist c) = csEscrowID c"
  by (simp_all add: persist_def)

lemma case_id_key: "case_ok k c \<Longrightarrow> brCaseID (csBrief c) = k"
  by (simp add: case_ok_def)

lemma map_of_perm:
  assumes "wf_map m" "mset m' = mset m"
  shows "map_of m' = map_of m"
proof -
  have "wf_map m'" using assms by (metis mset_eq_imp_distinct_iff mset_map)
  moreover have "set m' = set m" using assms(2) by (rule mset_eq_setD)
  ultimately show ?thesis using assms(1) by (simp add: map_of_inject_set)
qed

lemma reload_maps:
  assumes "book_ok b" "mset perm = mset (bkCases b)"
  shows "map_of (rev (map (\<lambda>r. (brCaseID (pcBrief r), toCase r)) (map (persist \<circ> snd) perm))) = map_of (bkCases b)"
    and "map_of (rev (map (\<lambda>r. (pcEscrowID r, brCaseID (pcBrief r))) (map (persist \<circ> snd) perm))) = map_of (bkByEscrow b)"
proof -
  have wf: "wf_map (bkCases b)" using assms(1) by (simp add: book_ok_def)
  have wfp: "wf_map perm" using wf assms(2) by (metis mset_eq_imp_distinct_iff mset_map)
  have ok: "case_ok k c" "map_of (bkCases b) k = Some c" if "(k, c) \<in> set perm" for k c
  proof -
    have "(k, c) \<in> set (bkCases b)" using that assms(2) by (metis mset_eq_setD)
    then show "map_of (bkCases b) k = Some c" using wf by simp
    then show "case_ok k c" by (rule book_okD [OF assms(1)])
  qed
  have "map (\<lambda>r. (brCaseID (pcBrief r), toCase r)) (map (persist \<circ> snd) perm) = perm"
    using toCase_persist [OF ok(1)] case_id_key [OF ok(1)] by (auto simp: brief_persist intro!: map_idI)
  then show "map_of (rev (map (\<lambda>r. (brCaseID (pcBrief r), toCase r)) (map (persist \<circ> snd) perm))) = map_of (bkCases b)"
    using map_of_rev_wf [OF wfp] map_of_perm [OF wf assms(2)] by simp
  define esc where "esc = map (\<lambda>(k, c). (csEscrowID c, k)) perm"
  have idx: "map_of (bkByEscrow b) e = Some k \<longleftrightarrow> (\<exists>c. map_of (bkCases b) k = Some c \<and> csEscrowID c = e)" for e k
    using assms(1) unfolding book_ok_def by blast
  have mem: "(e, k) \<in> set esc \<longleftrightarrow> map_of (bkByEscrow b) e = Some k" for e k
    unfolding idx using ok(2) assms(2) wf by (force simp: esc_def dest: mset_eq_setD)
  have "inj_on (csEscrowID \<circ> snd) (set perm)"
  proof (rule inj_onI)
    fix x y assume xy: "x \<in> set perm" "y \<in> set perm" and eq: "(csEscrowID \<circ> snd) x = (csEscrowID \<circ> snd) y"
    obtain k c where x: "x = (k, c)" by force
    obtain j d where y: "y = (j, d)" by force
    from xy eq have "map_of (bkByEscrow b) (csEscrowID c) = Some k" "map_of (bkByEscrow b) (csEscrowID c) = Some j"
      unfolding idx x y using ok(2) by auto
    then have "k = j" by simp
    moreover have "map_of (bkCases b) k = Some c" "map_of (bkCases b) j = Some d"
      using xy ok(2) unfolding x y by blast+
    ultimately show "x = y" unfolding x y by simp
  qed
  then have wfe: "wf_map esc"
    using wfp by (simp add: esc_def distinct_map comp_def case_prod_beta)
  have "map_of esc = map_of (bkByEscrow b)"
  proof
    fix e
    show "map_of esc e = map_of (bkByEscrow b) e"
      using mem [of e] wfe by (metis map_of_eq_Some_iff not_None_eq)
  qed
  moreover have "map (\<lambda>r. (pcEscrowID r, brCaseID (pcBrief r))) (map (persist \<circ> snd) perm) = esc"
    using case_id_key [OF ok(1)] by (auto simp: esc_def brief_persist)
  ultimately show "map_of (rev (map (\<lambda>r. (pcEscrowID r, brCaseID (pcBrief r))) (map (persist \<circ> snd) perm)))
      = map_of (bkByEscrow b)"
    using map_of_rev_wf [OF wfe] by simp
qed

text \<open>Remark: a book survives a restart. After a flush that was written, in whatever order the Go map listed
  the cases, opening the file again gives a book with the same cases, the same escrow index, roster and
  height, which satisfies the invariant and gives the same answer on every case.\<close>

theorem book_reopen:
  assumes "book_ok b" "bkPath b \<noteq> []" "fiWritten io" "mset (fiOrder io (bkCases b)) = mset (bkCases b)"
  shows "let b' = OpenBook (bkPath b) (bkFile (flushLocked io b))
         in map_of (bkCases b') = map_of (bkCases b) \<and> map_of (bkByEscrow b') = map_of (bkByEscrow b)
            \<and> bkRoster b' = bkRoster b \<and> bkHeight b' = bkHeight b \<and> book_ok b'
            \<and> fst (Quorum cid b') = fst (Quorum cid b)"
proof -
  define b' where "b' = OpenBook (bkPath b) (bkFile (flushLocked io b))"
  have b': "b' = foldl load_case (NewBook\<lparr>bkPath := bkPath b, bkFile := Some (book_snap io b), bkRoster := bkRoster b,
      bkHeight := bkHeight b\<rparr>) (map (persist \<circ> snd) (fiOrder io (bkCases b)))"
    using assms(2,3) by (simp add: b'_def flushLocked_def OpenBook_def book_snap_def Let_def)
  have maps: "map_of (bkCases b') = map_of (bkCases b)" "map_of (bkByEscrow b') = map_of (bkByEscrow b)"
    unfolding b' load_fold by (simp_all only: reload_maps [OF assms(1,4)]) (simp_all add: NewBook_def)
  have rest: "bkRoster b' = bkRoster b" "bkHeight b' = bkHeight b" unfolding b' load_fold by simp_all
  have wf: "wf_map (bkCases b') \<and> wf_map (bkByEscrow b')"
    unfolding b' by (rule load_fold_wf) (simp_all add: NewBook_def)
  then have "book_ok b'" using assms(1) unfolding book_ok_def maps rest by simp
  moreover have "fst (Quorum cid b') = fst (Quorum cid b)"
    by (simp add: Quorum_def maps rest Let_def split: option.split)
  ultimately show ?thesis using maps rest by (simp add: b'_def Let_def)
qed

theorem book_reopen_witness:
  "fst (Quorum ''case1'' (OpenBook ''volunteers.json'' (bkFile (flushLocked sure_io voted_book))))
   = fst (Quorum ''case1'' voted_book)"
  using book_reopen [OF voted_book_ok, of sure_io "''case1''"]
  by (simp add: sure_io_def voted_book_def Let_def)

subsection \<open>What the panel does not prevent\<close>

text \<open>Remark: a member may commit and reveal after the case is frozen, when \<open>Reveals\<close> already shows
  the other verdicts: neither operation looks at the freeze.\<close>

lemma late_vote_accepted:
  assumes "map_of (bkCases b) cid = Some c" "csFrozen c" "m \<in> csPanelSet c" "map_of (csCommits c) m = None"
    "map_of (csReveals c) m = None" "v \<in> {VerdictFulfilled, VerdictNotFulfilled}" "HashCommit v nonce \<noteq> []"
  shows "Reveals cid b = Inr (csReveals c)"
    and "fst (RevealNonce io cid m v nonce (snd (Commit io cid m (HashCommit v nonce) b))) = None"
  using assms by (auto simp: Reveals_def Commit_def RevealNonce_def Let_def)

end
