(* ===== verification/Contact_Economy.thy ===== *)
theory Contact_Economy
  imports Hashing
begin

text \<open>
  First-contact requests, \<open>internal/contacteconomy/store.go\<close> and \<open>settle.go\<close>, and the ownership proofs of
  \<open>internal/protocol/ownership.go\<close>.

  The store holds requests, established contacts, prices and reputation, and writes all of it to one file
  after each change; \<open>ok\<close> says whether that write succeeded. A write that fails leaves the change in memory.
\<close>

subsection \<open>Data\<close>

definition StatusPending :: string where "StatusPending = ''pending''"
definition StatusEstablished :: string where "StatusEstablished = ''established''"
definition StatusRejected :: string where "StatusRejected = ''rejected''"
definition StatusExpired :: string where "StatusExpired = ''expired''"
definition OutcomeAccepted :: string where "OutcomeAccepted = ''accepted''"
definition OutcomeTimeout :: string where "OutcomeTimeout = ''timeout''"
definition OutcomeRejected :: string where "OutcomeRejected = ''rejected''"

record contact_config =
  ccEnabled :: bool
  ccMinFeeUplp :: u64
  ccMaxFeeUplp :: u64
  ccDefaultUnknownUplp :: u64
  ccDefaultVerifiedUplp :: u64
  ccTimeoutSecs :: int
  ccBasePendingLimit :: int
  ccEconomyGateDMs :: bool

record PricingAnnounce =
  paAddress :: string
  paUnknownFeeUplp :: u64
  paVerifiedFeeUplp :: u64
  paBlocked :: bool
  paSignature :: string
  paUpdatedAt :: int

record ContactRequest =
  crRequestID :: string
  crRequestIDHash :: string
  crSender :: string
  crReceiver :: string
  crSenderPubKey :: string
  crReceiverPubKey :: string
  crEncryptedPayload :: string
  crTimestamp :: int
  crExpiresAt :: int
  crLockTxHash :: string
  crAmountUplp :: u64
  crStatus :: string
  crSettleOutcome :: string
  crSettleTxHash :: string

record ProtocolContactPair =
  cpA :: string
  cpB :: string
  cpEstablished :: int
  cpRequestID :: string

record Reputation =
  rpAddress :: string
  rpXP :: u64

record contact_data =
  cdRequests :: "(string \<times> ContactRequest) list"
  cdContacts :: "(string \<times> ProtocolContactPair) list"
  cdPricing :: "(string \<times> PricingAnnounce) list"
  cdXP :: "(string \<times> Reputation) list"

record contact_store =
  ctCfg :: contact_config
  ctData :: contact_data
  ctFile :: "contact_data option"

datatype contact_error =
    EconomyDisabled | FieldsRequired | LockAndPayloadRequired | PlaceholderLock | LockTooShort | PayloadTooLarge
  | AmountRequired | ReceiverBlocked | AlreadyContact | PendingLimitExceeded | DuplicateRequest | LockUsed | PairPending
  | SignatureRequired | StubSignature | OwnedMismatch | RequestNotFound | NotPending | OnlyReceiver | RequestExpired
  | InvalidOutcome | PricingAddressRequired | ContactPersist

subsection \<open>Helpers\<close>

definition normalize :: "string \<Rightarrow> string" where
  "normalize addr = TrimSpace addr"

definition pairKey :: "string \<Rightarrow> string \<Rightarrow> string" where
  "pairKey a0 b0 =
     (let a = normalize a0; b = normalize b0;
          (x, y) = (if ToLower a > ToLower b then (b, a) else (a, b))
      in ToLower x @ CHR ''|'' # ToLower y)"

definition RequestIDHash :: "string \<Rightarrow> string" where
  "RequestIDHash requestID = sha256_hex requestID"

definition empty_data :: contact_data where
  "empty_data = \<lparr>cdRequests = [], cdContacts = [], cdPricing = [], cdXP = []\<rparr>"

text \<open>\<open>NewStore\<close> with the decoded file (\<open>None\<close>: no file); the error returns of an unreadable file, an undecodable
  file or a missing directory give no store.\<close>

definition NewStore :: "contact_config \<Rightarrow> contact_data option \<Rightarrow> contact_store" where
  "NewStore cfg f = \<lparr>ctCfg = cfg, ctData = (case f of None \<Rightarrow> empty_data | Some d \<Rightarrow> d), ctFile = f\<rparr>"

definition persistLocked :: "bool \<Rightarrow> contact_store \<Rightarrow> bool \<times> contact_store" where
  "persistLocked ok s = (if ok then (True, s\<lparr>ctFile := Some (ctData s)\<rparr>) else (False, s))"

definition put_request :: "string \<Rightarrow> ContactRequest \<Rightarrow> contact_store \<Rightarrow> contact_store" where
  "put_request rid r s = s\<lparr>ctData := (ctData s)\<lparr>cdRequests := AList.update rid r (cdRequests (ctData s))\<rparr>\<rparr>"

subsection \<open>Prices, reputation, contacts\<close>

definition ClampFee :: "contact_config \<Rightarrow> u64 \<Rightarrow> u64" where
  "ClampFee cfg uplp =
     (if uplp < ccMinFeeUplp cfg then ccMinFeeUplp cfg else if uplp > ccMaxFeeUplp cfg then ccMaxFeeUplp cfg else uplp)"

definition SetPricing :: "bool \<Rightarrow> int \<Rightarrow> PricingAnnounce \<Rightarrow> contact_store \<Rightarrow> (contact_error + PricingAnnounce) \<times> contact_store" where
  "SetPricing ok now p s =
     (let addr = normalize (paAddress p)
      in if addr = [] then (Inl PricingAddressRequired, s)
         else
           let p1 = p\<lparr>paAddress := addr, paUnknownFeeUplp := ClampFee (ctCfg s) (paUnknownFeeUplp p),
                      paVerifiedFeeUplp := ClampFee (ctCfg s) (paVerifiedFeeUplp p), paUpdatedAt := now\<rparr>;
               s1 = s\<lparr>ctData := (ctData s)\<lparr>cdPricing := AList.update (ToLower addr) p1 (cdPricing (ctData s))\<rparr>\<rparr>;
               (written, s2) = persistLocked ok s1
           in (if written then Inr p1 else Inl ContactPersist, s2))"

definition GetPricing :: "contact_store \<Rightarrow> string \<Rightarrow> PricingAnnounce" where
  "GetPricing s address =
     (let addr = normalize address
      in case map_of (cdPricing (ctData s)) (ToLower addr) of
           Some p \<Rightarrow> p
         | None \<Rightarrow> \<lparr>paAddress = addr, paUnknownFeeUplp = ccDefaultUnknownUplp (ctCfg s),
                    paVerifiedFeeUplp = ccDefaultVerifiedUplp (ctCfg s), paBlocked = False, paSignature = [], paUpdatedAt = 0\<rparr>)"

definition HasProtocolContact :: "contact_store \<Rightarrow> string \<Rightarrow> string \<Rightarrow> bool" where
  "HasProtocolContact s a b \<longleftrightarrow> map_of (cdContacts (ctData s)) (pairKey a b) \<noteq> None"

definition PendingOutboundCount :: "contact_store \<Rightarrow> string \<Rightarrow> int" where
  "PendingOutboundCount s sender0 =
     int (length (filter (\<lambda>(k, r). EqualFold (crSender r) (normalize sender0) \<and> crStatus r = StatusPending) (cdRequests (ctData s))))"

definition GetXP :: "contact_store \<Rightarrow> string \<Rightarrow> u64" where
  "GetXP s address = (case map_of (cdXP (ctData s)) (ToLower (normalize address)) of Some r \<Rightarrow> rpXP r | None \<Rightarrow> 0)"

definition PendingLimit :: "contact_store \<Rightarrow> string \<Rightarrow> int" where
  "PendingLimit s address = min 50 (i64 (ccBasePendingLimit (ctCfg s) + sint (GetXP s address div 100)))"

definition AddXP :: "bool \<Rightarrow> string \<Rightarrow> u64 \<Rightarrow> contact_store \<Rightarrow> contact_store" where
  "AddXP ok address delta s =
     (let addr = ToLower (normalize address)
      in if addr = [] \<or> delta = 0 then s
         else
           snd (persistLocked ok
             (s\<lparr>ctData := (ctData s)\<lparr>cdXP := AList.update addr \<lparr>rpAddress = normalize address, rpXP = GetXP s address + delta\<rparr>
                   (cdXP (ctData s))\<rparr>\<rparr>)))"

subsection \<open>Requests\<close>

definition request_fields :: "ContactRequest \<Rightarrow> contact_error option" where
  "request_fields req =
     (if crRequestID req = [] \<or> crSender req = [] \<or> crReceiver req = [] then Some FieldsRequired
      else if crLockTxHash req = [] \<or> crEncryptedPayload req = [] then Some LockAndPayloadRequired
      else if HasPrefix (ToLower (crLockTxHash req)) ''escrow_lock:'' \<or> HasPrefix (ToLower (crLockTxHash req)) ''escrow-intent:''
      then Some PlaceholderLock
      else if length (crLockTxHash req) < 32 then Some LockTooShort
      else if length (crEncryptedPayload req) > 64 * 1024 then Some PayloadTooLarge
      else if crAmountUplp req = 0 then Some AmountRequired
      else None)"

text \<open>The part of \<open>CreateRequest\<close> under the write lock.\<close>

definition create_locked :: "bool \<Rightarrow> ContactRequest \<Rightarrow> contact_store \<Rightarrow> (contact_error + ContactRequest) \<times> contact_store" where
  "create_locked ok req s =
     (let rs = cdRequests (ctData s)
      in if map_of rs (crRequestID req) \<noteq> None then (Inl DuplicateRequest, s)
         else if list_ex (\<lambda>(k, r). crLockTxHash r = crLockTxHash req) rs then (Inl LockUsed, s)
         else if list_ex (\<lambda>(k, r). crStatus r = StatusPending \<and> EqualFold (crSender r) (crSender req)
                                 \<and> EqualFold (crReceiver r) (crReceiver req)) rs then (Inl PairPending, s)
         else let (written, s1) = persistLocked ok (put_request (crRequestID req) req s)
              in (if written then Inr req else Inl ContactPersist, s1))"

text \<open>The part before the write lock: normalisation, field checks and the reads of prices, contacts and counts.
  The outcome and settlement hash the client sent are kept as they are.\<close>

definition create_checked :: "int \<Rightarrow> ContactRequest \<Rightarrow> contact_store \<Rightarrow> contact_error + ContactRequest" where
  "create_checked now req0 s =
     (if \<not> ccEnabled (ctCfg s) then Inl EconomyDisabled
      else
        let req = req0\<lparr>crSender := normalize (crSender req0), crReceiver := normalize (crReceiver req0)\<rparr>
        in case request_fields req of
             Some e \<Rightarrow> Inl e
           | None \<Rightarrow>
               (if paBlocked (GetPricing s (crReceiver req)) then Inl ReceiverBlocked
                else if HasProtocolContact s (crSender req) (crReceiver req) then Inl AlreadyContact
                else if PendingOutboundCount s (crSender req) \<ge> PendingLimit s (crSender req) then Inl PendingLimitExceeded
                else
                  let ts = (if crTimestamp req = 0 then now else crTimestamp req)
                  in Inr (req\<lparr>crRequestIDHash := RequestIDHash (crRequestID req), crTimestamp := ts,
                              crExpiresAt := i64 (ts + ccTimeoutSecs (ctCfg s)), crStatus := StatusPending\<rparr>)))"

text \<open>\<open>CreateRequest\<close>; \<open>mid\<close> is what other requests do to the store before the lock is taken.\<close>

definition CreateRequest ::
  "bool \<Rightarrow> int \<Rightarrow> (contact_store \<Rightarrow> contact_store) \<Rightarrow> ContactRequest \<Rightarrow> contact_store
   \<Rightarrow> (contact_error + ContactRequest) \<times> contact_store" where
  "CreateRequest ok now mid req0 s =
     (case create_checked now req0 s of
        Inl e \<Rightarrow> (Inl e, s)
      | Inr req \<Rightarrow> create_locked ok req (mid s))"

definition GetRequest :: "contact_store \<Rightarrow> string \<Rightarrow> ContactRequest option" where
  "GetRequest s rid = map_of (cdRequests (ctData s)) rid"

definition FindByEscrowID :: "contact_store \<Rightarrow> string \<Rightarrow> ContactRequest option" where
  "FindByEscrowID s escrowID =
     (let eid = TrimSpace escrowID
      in if eid = [] then None
         else map_option snd (find (\<lambda>(k, r). crRequestIDHash r = eid \<or> EqualFold (crRequestIDHash r) eid) (cdRequests (ctData s))))"

text \<open>\<open>sort.Slice\<close> by timestamp is not stable: any order of equal timestamps may appear, one of them is this.\<close>

definition ListPendingFor :: "contact_store \<Rightarrow> string \<Rightarrow> ContactRequest list" where
  "ListPendingFor s address =
     (let addr = normalize address
      in sort_key crTimestamp
           (filter (\<lambda>r. crStatus r = StatusPending \<and> (EqualFold (crReceiver r) addr \<or> EqualFold (crSender r) addr))
              (map snd (cdRequests (ctData s)))))"

definition respond_check :: "string \<Rightarrow> string \<Rightarrow> contact_error option" where
  "respond_check actor signature =
     (if TrimSpace signature = [] then Some SignatureRequired
      else if HasPrefix signature ''sig-'' \<and> \<not> HasPrefix signature ''sig-core:'' then Some StubSignature
      else if HasPrefix signature ''owned:'' \<and>
              (normalize (TrimPrefix signature ''owned:'') = [] \<or>
               \<not> EqualFold (normalize (TrimPrefix signature ''owned:'')) (normalize actor)) then Some OwnedMismatch
      else None)"

definition Respond ::
  "bool \<Rightarrow> int \<Rightarrow> string \<Rightarrow> string \<Rightarrow> string \<Rightarrow> string \<Rightarrow> contact_store \<Rightarrow> (contact_error + ContactRequest) \<times> contact_store" where
  "Respond ok now requestID actor outcome signature s =
     (case respond_check actor signature of
        Some e \<Rightarrow> (Inl e, s)
      | None \<Rightarrow>
          (case map_of (cdRequests (ctData s)) requestID of
             None \<Rightarrow> (Inl RequestNotFound, s)
           | Some req \<Rightarrow>
               (if crStatus req \<noteq> StatusPending then (Inl NotPending, s)
                else if \<not> EqualFold (crReceiver req) (normalize actor) then (Inl OnlyReceiver, s)
                else if now > crExpiresAt req
                then (Inl RequestExpired,
                      snd (persistLocked ok (put_request requestID (req\<lparr>crStatus := StatusExpired, crSettleOutcome := OutcomeTimeout\<rparr>) s)))
                else if outcome = OutcomeAccepted
                then
                  let req1 = req\<lparr>crStatus := StatusEstablished, crSettleOutcome := OutcomeAccepted\<rparr>;
                      s1 = s\<lparr>ctData := (ctData s)\<lparr>cdContacts := AList.update (pairKey (crSender req) (crReceiver req))
                               \<lparr>cpA = crSender req, cpB = crReceiver req, cpEstablished = now, cpRequestID = crRequestID req\<rparr>
                               (cdContacts (ctData s))\<rparr>\<rparr>;
                      (written, s2) = persistLocked ok (put_request requestID req1 s1)
                  in (if written then Inr req1 else Inl ContactPersist, s2)
                else if outcome = OutcomeRejected
                then
                  let req1 = req\<lparr>crStatus := StatusRejected, crSettleOutcome := OutcomeRejected\<rparr>;
                      (written, s1) = persistLocked ok (put_request requestID req1 s)
                  in (if written then Inr req1 else Inl ContactPersist, s1)
                else (Inl InvalidOutcome, s))))"

definition MarkSettled :: "bool \<Rightarrow> string \<Rightarrow> string \<Rightarrow> contact_store \<Rightarrow> contact_error option \<times> contact_store" where
  "MarkSettled ok requestID settleTxHash s =
     (case map_of (cdRequests (ctData s)) requestID of
        None \<Rightarrow> (Some RequestNotFound, s)
      | Some req \<Rightarrow>
          (let (written, s1) = persistLocked ok (put_request requestID (req\<lparr>crSettleTxHash := settleTxHash\<rparr>) s)
           in (if written then None else Some ContactPersist, s1)))"

definition due :: "int \<Rightarrow> ContactRequest \<Rightarrow> bool" where
  "due now req \<longleftrightarrow> crStatus req = StatusPending \<and> now > crExpiresAt req"

definition expire_one :: "int \<Rightarrow> ContactRequest \<Rightarrow> ContactRequest" where
  "expire_one now req = (if due now req then req\<lparr>crStatus := StatusExpired, crSettleOutcome := OutcomeTimeout\<rparr> else req)"

definition ExpireDue :: "bool \<Rightarrow> int \<Rightarrow> contact_store \<Rightarrow> ContactRequest list \<times> contact_store" where
  "ExpireDue ok now s =
     (let rs = cdRequests (ctData s);
          out = map (expire_one now) (filter (due now) (map snd rs));
          s1 = s\<lparr>ctData := (ctData s)\<lparr>cdRequests := map (\<lambda>(k, r). (k, expire_one now r)) rs\<rparr>\<rparr>
      in (out, if out \<noteq> [] then snd (persistLocked ok s1) else s1))"

definition CanSendFreeDM :: "contact_store \<Rightarrow> string \<Rightarrow> string \<Rightarrow> bool" where
  "CanSendFreeDM s a b \<longleftrightarrow>
     \<not> ccEnabled (ctCfg s) \<or> \<not> ccEconomyGateDMs (ctCfg s) \<or> EqualFold (normalize a) (normalize b) \<or> HasProtocolContact s a b"

subsection \<open>The displayed split\<close>

definition split_bps :: "string \<Rightarrow> u64 \<times> u64 \<times> u64 \<times> u64" where
  "split_bps outcome =
     (if outcome = OutcomeAccepted then (70, 20, 10, 0)
      else if outcome = OutcomeTimeout then (0, 10, 0, 90)
      else if outcome = OutcomeRejected then (0, 10, 10, 80)
      else (0, 10, 0, 90))"

definition SplitBps :: "u64 \<Rightarrow> string \<Rightarrow> u64 \<times> u64 \<times> u64 \<times> u64" where
  "SplitBps amount outcome =
     (let (rb, nb, tb, fb) = split_bps outcome;
          recipient = amount * rb div 100; node = amount * nb div 100;
          treasury = amount * tb div 100; refund = amount * fb div 100;
          allocated = recipient + node + treasury + refund
      in (recipient, node, if allocated < amount then treasury + (amount - allocated) else treasury, refund))"

subsection \<open>Ownership proofs\<close>

datatype owner_error = OwnedInput | MissingAuthentication | OwnerAddressRequired | OwnerMismatch | ClientOwnedProof | MissingOwner

definition ResolveAuthenticatedOwner :: "string \<Rightarrow> string \<Rightarrow> owner_error + string" where
  "ResolveAuthenticatedOwner claimed0 authenticated0 =
     (let claimed = TrimSpace claimed0; authenticated = TrimSpace authenticated0
      in if HasPrefix claimed ''owned:'' \<or> HasPrefix authenticated ''owned:'' then Inl OwnedInput
         else if authenticated = [] then Inl MissingAuthentication
         else if claimed = [] then Inl OwnerAddressRequired
         else if \<not> EqualFold claimed authenticated then Inl OwnerMismatch
         else Inr authenticated)"

definition RejectClientOwnedProof :: "string \<Rightarrow> owner_error option" where
  "RejectClientOwnedProof signature = (if HasPrefix (TrimSpace signature) ''owned:'' then Some ClientOwnedProof else None)"

definition MintOwnedProof :: "string \<Rightarrow> owner_error + string" where
  "MintOwnedProof verified0 =
     (let verified = TrimSpace verified0
      in if verified = [] then Inl MissingOwner
         else if HasPrefix verified ''owned:'' then Inl OwnedInput
         else Inr (''owned:'' @ verified))"

definition MintOwnedProofAfterResolve :: "string \<Rightarrow> string \<Rightarrow> owner_error + string" where
  "MintOwnedProofAfterResolve claimed authenticated =
     (case ResolveAuthenticatedOwner claimed authenticated of
        Inl e \<Rightarrow> Inl e
      | Inr verified \<Rightarrow> MintOwnedProof verified)"

subsection \<open>The invariant of the store\<close>

lemma status_distinct [simp]:
  "StatusPending \<noteq> StatusEstablished" "StatusPending \<noteq> StatusRejected" "StatusPending \<noteq> StatusExpired"
  "StatusEstablished \<noteq> StatusPending" "StatusRejected \<noteq> StatusPending" "StatusExpired \<noteq> StatusPending"
  by (simp_all add: StatusPending_def StatusEstablished_def StatusRejected_def StatusExpired_def)

abbreviation request_of :: "contact_store \<Rightarrow> string \<Rightarrow> ContactRequest option" where
  "request_of s \<equiv> map_of (cdRequests (ctData s))"

abbreviation contact_of :: "contact_store \<Rightarrow> string \<Rightarrow> ProtocolContactPair option" where
  "contact_of s \<equiv> map_of (cdContacts (ctData s))"

definition lifecycle :: "ContactRequest \<Rightarrow> bool" where
  "lifecycle r \<longleftrightarrow>
     crStatus r = StatusPending \<or> crStatus r = StatusEstablished \<and> crSettleOutcome r = OutcomeAccepted
     \<or> crStatus r = StatusRejected \<and> crSettleOutcome r = OutcomeRejected
     \<or> crStatus r = StatusExpired \<and> crSettleOutcome r = OutcomeTimeout"

definition request_ok :: "string \<Rightarrow> ContactRequest \<Rightarrow> bool" where
  "request_ok k r \<longleftrightarrow>
     crRequestID r = k \<and> crRequestIDHash r = RequestIDHash k \<and> crSender r \<noteq> [] \<and> crReceiver r \<noteq> []
     \<and> 32 \<le> length (crLockTxHash r) \<and> length (crEncryptedPayload r) \<le> 64 * 1024 \<and> crAmountUplp r \<noteq> 0 \<and> lifecycle r"

definition same_pair :: "ContactRequest \<Rightarrow> ContactRequest \<Rightarrow> bool" where
  "same_pair r q \<longleftrightarrow> EqualFold (crSender r) (crSender q) \<and> EqualFold (crReceiver r) (crReceiver q)"

definition contact_ok :: "contact_store \<Rightarrow> bool" where
  "contact_ok s \<longleftrightarrow>
     wf_map (cdRequests (ctData s))
     \<and> (\<forall>k r. request_of s k = Some r \<longrightarrow> request_ok k r)
     \<and> (\<forall>k r j q. request_of s k = Some r \<longrightarrow> request_of s j = Some q \<longrightarrow> crLockTxHash r = crLockTxHash q \<longrightarrow> k = j)
     \<and> (\<forall>k r j q. request_of s k = Some r \<longrightarrow> request_of s j = Some q \<longrightarrow> crStatus r = StatusPending \<longrightarrow>
          crStatus q = StatusPending \<longrightarrow> same_pair r q \<longrightarrow> k = j)
     \<and> (\<forall>key p. contact_of s key = Some p \<longrightarrow>
          (\<exists>r. request_of s (cpRequestID p) = Some r \<and> crStatus r = StatusEstablished
             \<and> key = pairKey (crSender r) (crReceiver r) \<and> cpA p = crSender r \<and> cpB p = crReceiver r))"

text \<open>What later operations keep of a request.\<close>

definition request_le :: "ContactRequest \<Rightarrow> ContactRequest \<Rightarrow> bool" where
  "request_le r q \<longleftrightarrow>
     crRequestID q = crRequestID r \<and> crRequestIDHash q = crRequestIDHash r \<and> crSender q = crSender r
     \<and> crReceiver q = crReceiver r \<and> crLockTxHash q = crLockTxHash r \<and> crAmountUplp q = crAmountUplp r
     \<and> crEncryptedPayload q = crEncryptedPayload r \<and> crTimestamp q = crTimestamp r \<and> crExpiresAt q = crExpiresAt r
     \<and> (crStatus r \<noteq> StatusPending \<longrightarrow> crStatus q = crStatus r \<and> crSettleOutcome q = crSettleOutcome r)"

definition contact_le :: "contact_store \<Rightarrow> contact_store \<Rightarrow> bool" where
  "contact_le s t \<longleftrightarrow>
     (\<forall>k r. request_of s k = Some r \<longrightarrow> (\<exists>q. request_of t k = Some q \<and> request_le r q))
     \<and> dom (contact_of s) \<subseteq> dom (contact_of t)"

lemma request_le_refl [simp]: "request_le r r"
  by (simp add: request_le_def)

lemma request_le_trans: "request_le r q \<Longrightarrow> request_le q u \<Longrightarrow> request_le r u"
  unfolding request_le_def by metis

lemma contact_le_refl: "contact_le s s"
  unfolding contact_le_def using request_le_refl by blast

lemma contact_le_trans: "contact_le s t \<Longrightarrow> contact_le t u \<Longrightarrow> contact_le s u"
  unfolding contact_le_def using request_le_trans by (meson subset_trans)

lemma contact_okD:
  assumes "contact_ok s"
  shows "wf_map (cdRequests (ctData s))"
    and "request_of s k = Some r \<Longrightarrow> request_ok k r"
    and "request_of s k = Some r \<Longrightarrow> request_of s j = Some q \<Longrightarrow> crLockTxHash r = crLockTxHash q \<Longrightarrow> k = j"
    and "request_of s k = Some r \<Longrightarrow> request_of s j = Some q \<Longrightarrow> crStatus r = StatusPending \<Longrightarrow>
          crStatus q = StatusPending \<Longrightarrow> same_pair r q \<Longrightarrow> k = j"
    and "contact_of s key = Some p \<Longrightarrow> \<exists>r. request_of s (cpRequestID p) = Some r \<and> crStatus r = StatusEstablished
             \<and> key = pairKey (crSender r) (crReceiver r) \<and> cpA p = crSender r \<and> cpB p = crReceiver r"
  using assms unfolding contact_ok_def by blast+

lemma contact_okI:
  assumes "wf_map (cdRequests (ctData s))"
    and "\<And>k r. request_of s k = Some r \<Longrightarrow> request_ok k r"
    and "\<And>k r j q. request_of s k = Some r \<Longrightarrow> request_of s j = Some q \<Longrightarrow> crLockTxHash r = crLockTxHash q \<Longrightarrow> k = j"
    and "\<And>k r j q. request_of s k = Some r \<Longrightarrow> request_of s j = Some q \<Longrightarrow> crStatus r = StatusPending \<Longrightarrow>
          crStatus q = StatusPending \<Longrightarrow> same_pair r q \<Longrightarrow> k = j"
    and "\<And>key p. contact_of s key = Some p \<Longrightarrow> \<exists>r. request_of s (cpRequestID p) = Some r \<and> crStatus r = StatusEstablished
             \<and> key = pairKey (crSender r) (crReceiver r) \<and> cpA p = crSender r \<and> cpB p = crReceiver r"
  shows "contact_ok s"
  using assms unfolding contact_ok_def by blast

text \<open>Every operation changes the requests it finds by a function \<open>f\<close> that respects \<open>request_le\<close> and never makes a
  request pending, or adds one; contacts are kept or gain one for an established request.\<close>

lemma updated_ok:
  assumes ok: "contact_ok s"
    and req: "\<And>k. request_of t k = map_option (f k) (request_of s k)" and wf: "wf_map (cdRequests (ctData t))"
    and le: "\<And>k r. request_of s k = Some r \<Longrightarrow> request_le r (f k r) \<and> lifecycle (f k r)"
    and pend: "\<And>k r. request_of s k = Some r \<Longrightarrow> crStatus (f k r) = StatusPending \<Longrightarrow> crStatus r = StatusPending"
    and con: "\<And>key p. contact_of t key = Some p \<Longrightarrow> contact_of s key = Some p \<or>
        (\<exists>r. request_of t (cpRequestID p) = Some r \<and> crStatus r = StatusEstablished
             \<and> key = pairKey (crSender r) (crReceiver r) \<and> cpA p = crSender r \<and> cpB p = crReceiver r)"
    and dom: "dom (contact_of s) \<subseteq> dom (contact_of t)"
  shows "contact_ok t \<and> contact_le s t"
proof
  show "contact_le s t"
    unfolding contact_le_def using req le dom by auto
  have old: "\<exists>r0. request_of s k = Some r0 \<and> r = f k r0 \<and> request_le r0 r" if "request_of t k = Some r" for k r
    using that req [of k] le [of k] by (cases "request_of s k") auto
  show "contact_ok t"
  proof (rule contact_okI)
    show "wf_map (cdRequests (ctData t))" by (rule wf)
    show "request_ok k r" if kr: "request_of t k = Some r" for k r
    proof -
      obtain r0 where r0: "request_of s k = Some r0" "r = f k r0" "request_le r0 r" using old [OF kr] by blast
      then show ?thesis using contact_okD(2) [OF ok r0(1)] le [OF r0(1)] by (simp add: request_ok_def request_le_def)
    qed
    show "k = j" if "request_of t k = Some r" "request_of t j = Some q" "crLockTxHash r = crLockTxHash q" for k r j q
      using old [OF that(1)] old [OF that(2)] that(3) contact_okD(3) [OF ok] unfolding request_le_def by metis
    show "k = j" if kr: "request_of t k = Some r" and jq: "request_of t j = Some q"
        and st: "crStatus r = StatusPending" "crStatus q = StatusPending" "same_pair r q" for k r j q
    proof -
      obtain r0 where r0: "request_of s k = Some r0" "r = f k r0" "request_le r0 r" using old [OF kr] by blast
      obtain q0 where q0: "request_of s j = Some q0" "q = f j q0" "request_le q0 q" using old [OF jq] by blast
      show ?thesis
        using st pend [OF r0(1)] pend [OF q0(1)] r0 q0 contact_okD(4) [OF ok r0(1) q0(1)]
        by (simp add: same_pair_def request_le_def)
    qed
    show "\<exists>r. request_of t (cpRequestID p) = Some r \<and> crStatus r = StatusEstablished
             \<and> key = pairKey (crSender r) (crReceiver r) \<and> cpA p = crSender r \<and> cpB p = crReceiver r"
      if key: "contact_of t key = Some p" for key p
      using con [OF key]
    proof
      assume "contact_of s key = Some p"
      then obtain r where r: "request_of s (cpRequestID p) = Some r" "crStatus r = StatusEstablished"
          "key = pairKey (crSender r) (crReceiver r)" "cpA p = crSender r" "cpB p = crReceiver r"
        using contact_okD(5) [OF ok] by blast
      then have "request_of t (cpRequestID p) = Some (f (cpRequestID p) r)" using req by simp
      moreover have "request_le r (f (cpRequestID p) r)" using le r(1) by blast
      ultimately show ?thesis using r(2-5) by (auto simp: request_le_def)
    qed
  qed
qed

lemma persist_data [simp]: "ctData (snd (persistLocked ok s)) = ctData s" "ctCfg (snd (persistLocked ok s)) = ctCfg s"
  by (simp_all add: persistLocked_def)

lemma put_request_data [simp]:
  "cdRequests (ctData (put_request k r s)) = AList.update k r (cdRequests (ctData s))"
  "cdContacts (ctData (put_request k r s)) = cdContacts (ctData s)" "ctCfg (put_request k r s) = ctCfg s"
  by (simp_all add: put_request_def)

lemma same_data_ok:
  assumes "contact_ok s" and "cdRequests (ctData t) = cdRequests (ctData s)" "cdContacts (ctData t) = cdContacts (ctData s)"
  shows "contact_ok t \<and> contact_le s t"
  using assms contact_le_refl [of s] unfolding contact_ok_def contact_le_def by (simp del: map_of_eq_Some_iff)

text \<open>One request moves forward, with the contact an acceptance adds.\<close>

lemma moved_ok:
  assumes ok: "contact_ok s" and r: "request_of s k = Some r" and le: "request_le r q" "lifecycle q"
    and pend: "crStatus q = StatusPending \<Longrightarrow> crStatus r = StatusPending"
    and t: "cdRequests (ctData t) = AList.update k q (cdRequests (ctData s))"
    and con: "cdContacts (ctData t) = cdContacts (ctData s) \<or>
        crStatus q = StatusEstablished \<and>
        cdContacts (ctData t) = AList.update (pairKey (crSender r) (crReceiver r))
          \<lparr>cpA = crSender r, cpB = crReceiver r, cpEstablished = now, cpRequestID = crRequestID r\<rparr> (cdContacts (ctData s))"
  shows "contact_ok t \<and> contact_le s t"
proof (rule updated_ok [where f = "\<lambda>j x. if j = k then q else x", OF ok])
  show "request_of t j = map_option (\<lambda>x. if j = k then q else x) (request_of s j)" for j
    using r by (cases "request_of s j") (auto simp: t update_conv')
  show "wf_map (cdRequests (ctData t))" using contact_okD(1) [OF ok] by (simp add: t)
  show "request_le x (if j = k then q else x) \<and> lifecycle (if j = k then q else x)" if "request_of s j = Some x" for j x
    using that r le contact_okD(2) [OF ok that] by (auto simp: request_ok_def)
  show "crStatus x = StatusPending" if "request_of s j = Some x" "crStatus (if j = k then q else x) = StatusPending" for j x
    using that r pend by (auto split: if_splits)
  have id: "crRequestID r = k" using contact_okD(2) [OF ok r] by (simp add: request_ok_def)
  show "contact_of s key = Some p \<or>
        (\<exists>x. request_of t (cpRequestID p) = Some x \<and> crStatus x = StatusEstablished
             \<and> key = pairKey (crSender x) (crReceiver x) \<and> cpA p = crSender x \<and> cpB p = crReceiver x)"
    if "contact_of t key = Some p" for key p
    using con
  proof
    assume "cdContacts (ctData t) = cdContacts (ctData s)"
    then show ?thesis using that by simp
  next
    assume c: "crStatus q = StatusEstablished \<and>
        cdContacts (ctData t) = AList.update (pairKey (crSender r) (crReceiver r))
          \<lparr>cpA = crSender r, cpB = crReceiver r, cpEstablished = now, cpRequestID = crRequestID r\<rparr> (cdContacts (ctData s))"
    then show ?thesis
      using that le(1) id by (cases "key = pairKey (crSender r) (crReceiver r)") (auto simp: t update_conv' request_le_def)
  qed
  show "dom (contact_of s) \<subseteq> dom (contact_of t)" using con by (auto simp: update_conv')
qed

subsection \<open>Runs of the store\<close>

text \<open>
  The operations the gateway calls. \<open>CreateCalled\<close> is the locked part of \<open>CreateRequest\<close> for checks made against
  an earlier store \<open>old\<close>, as the code makes them before it takes the lock.
\<close>

datatype contact_event =
    CreateCalled bool int contact_store ContactRequest
  | ResponseGiven bool int string string string string
  | SettledMarked bool string string
  | ExpiryRun bool int
  | PricingSet bool int PricingAnnounce
  | XPAdded bool string u64

fun contact_step :: "contact_store \<Rightarrow> contact_event \<Rightarrow> contact_store" where
  "contact_step s (CreateCalled ok now old req) =
     (case create_checked now req old of Inl e \<Rightarrow> s | Inr r \<Rightarrow> snd (create_locked ok r s))"
| "contact_step s (ResponseGiven ok now rid actor outcome sig) = snd (Respond ok now rid actor outcome sig s)"
| "contact_step s (SettledMarked ok rid h) = snd (MarkSettled ok rid h s)"
| "contact_step s (ExpiryRun ok now) = snd (ExpireDue ok now s)"
| "contact_step s (PricingSet ok now p) = snd (SetPricing ok now p s)"
| "contact_step s (XPAdded ok a d) = AddXP ok a d s"

lemma CreateRequest_step:
  "snd (CreateRequest ok now mid req s) =
     (case create_checked now req s of Inl e \<Rightarrow> s | Inr r \<Rightarrow> contact_step (mid s) (CreateCalled ok now s req))"
  by (simp add: CreateRequest_def split: sum.split)

lemma create_checked_ok:
  assumes "create_checked now req0 s = Inr r"
  shows "request_ok (crRequestID r) r" and "crStatus r = StatusPending" and "crRequestID r = crRequestID req0"
  using assms
  by (auto simp: create_checked_def request_fields_def request_ok_def lifecycle_def Let_def split: if_splits option.splits)

lemma create_locked_cases:
  "snd (create_locked ok r s) = s \<or>
   request_of s (crRequestID r) = None \<and> (\<forall>k q. request_of s k = Some q \<longrightarrow> crLockTxHash q \<noteq> crLockTxHash r)
   \<and> (\<forall>k q. request_of s k = Some q \<longrightarrow> crStatus q = StatusPending \<longrightarrow> \<not> same_pair q r)
   \<and> snd (create_locked ok r s) = snd (persistLocked ok (put_request (crRequestID r) r s))"
  unfolding create_locked_def same_pair_def list_ex_iff
  by (auto simp: Let_def split_beta dest!: map_of_SomeD)

lemma same_pair_sym: "same_pair r q \<Longrightarrow> same_pair q r"
  by (simp add: same_pair_def EqualFold_def)

lemma added_ok:
  assumes ok: "contact_ok s" and r: "request_ok k r" "crStatus r = StatusPending" and new: "request_of s k = None"
    and lock: "\<forall>j q. request_of s j = Some q \<longrightarrow> crLockTxHash q \<noteq> crLockTxHash r"
    and pair: "\<forall>j q. request_of s j = Some q \<longrightarrow> crStatus q = StatusPending \<longrightarrow> \<not> same_pair q r"
    and t: "cdRequests (ctData t) = AList.update k r (cdRequests (ctData s))" "cdContacts (ctData t) = cdContacts (ctData s)"
  shows "contact_ok t \<and> contact_le s t"
proof
  have req: "request_of t j = (if j = k then Some r else request_of s j)" for j by (simp add: t update_conv')
  show "contact_le s t" unfolding contact_le_def using new by (auto simp: req t(2))
  show "contact_ok t"
  proof (rule contact_okI)
    show "wf_map (cdRequests (ctData t))" using contact_okD(1) [OF ok] by (simp add: t)
    show "request_ok j q" if "request_of t j = Some q" for j q
      using that r(1) contact_okD(2) [OF ok] by (auto simp: req split: if_splits)
    show "i = j" if "request_of t i = Some p" "request_of t j = Some q" "crLockTxHash p = crLockTxHash q" for i p j q
      using that lock contact_okD(3) [OF ok, of i p j q] by (auto simp: req split: if_splits)
    show "i = j" if "request_of t i = Some p" "request_of t j = Some q" "crStatus p = StatusPending"
        "crStatus q = StatusPending" "same_pair p q" for i p j q
      using that pair same_pair_sym contact_okD(4) [OF ok, of i p j q] by (auto simp: req split: if_splits)
    show "\<exists>q. request_of t (cpRequestID p) = Some q \<and> crStatus q = StatusEstablished
             \<and> key = pairKey (crSender q) (crReceiver q) \<and> cpA p = crSender q \<and> cpB p = crReceiver q"
      if "contact_of t key = Some p" for key p
      using contact_okD(5) [OF ok, of key p] that new by (auto simp: req t(2))
  qed
qed

lemma create_keeps: "contact_ok s \<Longrightarrow> contact_ok (contact_step s (CreateCalled ok now old req)) \<and>
    contact_le s (contact_step s (CreateCalled ok now old req))"
proof (cases "create_checked now req old")
  case (Inr r)
  assume ok: "contact_ok s"
  from create_locked_cases [of ok r s] show ?thesis
  proof
    assume "snd (create_locked ok r s) = s"
    then show ?thesis using Inr ok contact_le_refl by simp
  next
    assume new: "request_of s (crRequestID r) = None \<and> (\<forall>k q. request_of s k = Some q \<longrightarrow> crLockTxHash q \<noteq> crLockTxHash r)
      \<and> (\<forall>k q. request_of s k = Some q \<longrightarrow> crStatus q = StatusPending \<longrightarrow> \<not> same_pair q r)
      \<and> snd (create_locked ok r s) = snd (persistLocked ok (put_request (crRequestID r) r s))"
    then have "contact_ok (snd (create_locked ok r s)) \<and> contact_le s (snd (create_locked ok r s))"
      by (intro added_ok [OF ok create_checked_ok(1,2) [OF Inr]]) simp_all
    then show ?thesis using Inr by simp
  qed
qed (simp add: contact_le_refl)

lemma Respond_keeps:
  assumes ok: "contact_ok s"
  shows "contact_ok (snd (Respond w now rid actor outcome sig s)) \<and> contact_le s (snd (Respond w now rid actor outcome sig s))"
proof (cases "respond_check actor sig = None \<and> (\<exists>r. request_of s rid = Some r \<and> crStatus r = StatusPending
         \<and> EqualFold (crReceiver r) (normalize actor))")
  case False
  then have "snd (Respond w now rid actor outcome sig s) = s"
    by (auto simp: Respond_def simp del: map_of_eq_Some_iff split: option.split)
  then show ?thesis using ok contact_le_refl by simp
next
  case True
  then obtain r where chk: "respond_check actor sig = None" and r: "request_of s rid = Some r" "crStatus r = StatusPending"
      "EqualFold (crReceiver r) (normalize actor)" by blast
  let ?t = "snd (Respond w now rid actor outcome sig s)"
  consider (exp) "now > crExpiresAt r" | (acc) "now \<le> crExpiresAt r" "outcome = OutcomeAccepted"
    | (rej) "now \<le> crExpiresAt r" "outcome \<noteq> OutcomeAccepted" "outcome = OutcomeRejected"
    | (inv) "now \<le> crExpiresAt r" "outcome \<noteq> OutcomeAccepted" "outcome \<noteq> OutcomeRejected" by linarith
  then show ?thesis
  proof cases
    case exp
    show ?thesis
      by (rule moved_ok [OF ok r(1), where q = "r\<lparr>crStatus := StatusExpired, crSettleOutcome := OutcomeTimeout\<rparr>"])
        (use exp chk r in \<open>simp_all add: Respond_def request_le_def lifecycle_def del: map_of_eq_Some_iff\<close>)
  next
    case acc
    show ?thesis
      by (rule moved_ok [OF ok r(1), where q = "r\<lparr>crStatus := StatusEstablished, crSettleOutcome := OutcomeAccepted\<rparr>" and now = now])
        (use acc chk r in \<open>simp_all add: Respond_def Let_def split_beta request_le_def lifecycle_def del: map_of_eq_Some_iff\<close>)
  next
    case rej
    show ?thesis
      by (rule moved_ok [OF ok r(1), where q = "r\<lparr>crStatus := StatusRejected, crSettleOutcome := OutcomeRejected\<rparr>"])
        (use rej chk r in \<open>simp_all add: Respond_def Let_def split_beta request_le_def lifecycle_def del: map_of_eq_Some_iff\<close>)
  next
    case inv
    then have "?t = s" using chk r by (simp add: Respond_def del: map_of_eq_Some_iff)
    then show ?thesis using ok contact_le_refl by simp
  qed
qed

lemma MarkSettled_keeps:
  assumes ok: "contact_ok s"
  shows "contact_ok (snd (MarkSettled w rid h s)) \<and> contact_le s (snd (MarkSettled w rid h s))"
proof (cases "request_of s rid")
  case None
  then show ?thesis using ok contact_le_refl by (simp add: MarkSettled_def)
next
  case (Some r)
  have "lifecycle r" using contact_okD(2) [OF ok Some] by (simp add: request_ok_def)
  then show ?thesis
    by (intro moved_ok [OF ok Some, where q = "r\<lparr>crSettleTxHash := h\<rparr>"])
      (use Some in \<open>simp_all add: MarkSettled_def Let_def split_beta request_le_def lifecycle_def del: map_of_eq_Some_iff\<close>)
qed

lemma expire_one_le: "request_le r (expire_one now r)" "lifecycle r \<Longrightarrow> lifecycle (expire_one now r)"
  "crStatus (expire_one now r) = StatusPending \<Longrightarrow> crStatus r = StatusPending"
  by (auto simp: expire_one_def due_def request_le_def lifecycle_def split: if_splits)

lemma ExpireDue_keeps:
  assumes ok: "contact_ok s"
  shows "contact_ok (snd (ExpireDue w now s)) \<and> contact_le s (snd (ExpireDue w now s))"
proof (rule updated_ok [where f = "\<lambda>k. expire_one now", OF ok])
  have rs: "cdRequests (ctData (snd (ExpireDue w now s))) = map (\<lambda>(k, r). (k, expire_one now r)) (cdRequests (ctData s))"
    and cs: "cdContacts (ctData (snd (ExpireDue w now s))) = cdContacts (ctData s)"
    by (simp_all add: ExpireDue_def Let_def)
  show "request_of (snd (ExpireDue w now s)) k = map_option (expire_one now) (request_of s k)" for k
    by (simp add: rs map_of_map del: map_of_eq_Some_iff)
  show "wf_map (cdRequests (ctData (snd (ExpireDue w now s))))"
    using contact_okD(1) [OF ok] by (simp add: rs split_beta comp_def)
  show "request_le r (expire_one now r) \<and> lifecycle (expire_one now r)" if "request_of s k = Some r" for k r
    using expire_one_le contact_okD(2) [OF ok that] by (simp add: request_ok_def)
  show "dom (contact_of s) \<subseteq> dom (contact_of (snd (ExpireDue w now s)))" by (simp add: cs)
qed (use expire_one_le(3) in \<open>auto simp: ExpireDue_def Let_def\<close>)

lemma contact_step_keeps: "contact_ok s \<Longrightarrow> contact_ok (contact_step s e) \<and> contact_le s (contact_step s e)"
proof (cases e)
  case (PricingSet w now p)
  assume "contact_ok s"
  then show ?thesis by (rule same_data_ok) (simp_all add: PricingSet SetPricing_def Let_def split_beta)
next
  case (XPAdded w a d)
  assume "contact_ok s"
  then show ?thesis by (rule same_data_ok) (simp_all add: XPAdded AddXP_def Let_def)
qed (use create_keeps Respond_keeps MarkSettled_keeps ExpireDue_keeps in simp_all)

interpretation contacts: growing_machine contact_step contact_ok contact_le
  by unfold_locales (use contact_step_keeps contact_le_refl contact_le_trans in blast)+

lemma empty_contact_ok: "contact_ok (NewStore cfg None)"
  by (simp add: contact_ok_def NewStore_def empty_data_def)

text \<open>C20: Whatever operations run, in whatever order and whether or not their writes succeed, on a store that starts
  empty: every request keeps its identifier and hash, a lock transaction backs one request only, an ordered pair has
  one pending request at most, a request is pending or closed with the matching outcome, and every contact belongs to
  an established request of its pair.\<close>

theorem contact_store_invariant:
  "contact_ok (foldl contact_step (NewStore cfg None) es)"
  by (rule contacts.run_inv [OF empty_contact_ok])

text \<open>Remark: A request that has been accepted, rejected or expired stays so, with its outcome, its parties, its lock
  transaction and its amount, whatever runs afterwards, and an established contact stays.\<close>

theorem contact_request_final:
  assumes "contact_ok s" and "GetRequest s rid = Some r" and "crStatus r \<noteq> StatusPending" and "HasProtocolContact s a b"
  shows "HasProtocolContact (foldl contact_step s es) a b \<and>
         (\<exists>q. GetRequest (foldl contact_step s es) rid = Some q \<and> crStatus q = crStatus r
           \<and> crSettleOutcome q = crSettleOutcome r \<and> crSender q = crSender r \<and> crReceiver q = crReceiver r
           \<and> crLockTxHash q = crLockTxHash r \<and> crAmountUplp q = crAmountUplp r \<and> crExpiresAt q = crExpiresAt r)"
proof -
  have le: "contact_le s (foldl contact_step s es)" by (rule contacts.run_le [OF assms(1)])
  then obtain q where "request_of (foldl contact_step s es) rid = Some q" "request_le r q"
    using assms(2) unfolding contact_le_def GetRequest_def by blast
  moreover have "HasProtocolContact (foldl contact_step s es) a b"
    using le assms(4) unfolding contact_le_def HasProtocolContact_def by blast
  ultimately show ?thesis using assms(3) by (simp add: GetRequest_def request_le_def del: map_of_eq_Some_iff)
qed

lemma create_locked_contacts [simp]:
  "cdContacts (ctData (snd (create_locked ok r s))) = cdContacts (ctData s)" "ctCfg (snd (create_locked ok r s)) = ctCfg s"
  using create_locked_cases [of ok r s] by (metis persist_data put_request_data(2,3))+

lemma contact_step_cfg [simp]: "ctCfg (contact_step s e) = ctCfg s"
  by (cases e) (simp_all add: Respond_def MarkSettled_def ExpireDue_def SetPricing_def AddXP_def Let_def split_beta
      split: sum.split option.split)

lemma contact_run_cfg [simp]: "ctCfg (foldl contact_step s es) = ctCfg s"
  by (induction es arbitrary: s) simp_all

lemma no_new_contact:
  assumes "contact_of (contact_step s e) key = Some p" and "contact_of s key = None"
  obtains ok now rid actor sig r where "e = ResponseGiven ok now rid actor OutcomeAccepted sig"
    and "request_of s rid = Some r" "crStatus r = StatusPending" "EqualFold (crReceiver r) (normalize actor)"
    and "now \<le> crExpiresAt r" "respond_check actor sig = None" "key = pairKey (crSender r) (crReceiver r)"
proof (cases e)
  case (CreateCalled ok now old req)
  then have "contact_of (contact_step s e) key = contact_of s key"
    by (simp split: sum.split del: map_of_eq_Some_iff)
  then show ?thesis using assms by simp
next
  case (ResponseGiven ok now rid actor outcome sig)
  then show ?thesis
    using assms that
    by (auto simp: Respond_def Let_def split_beta update_conv' simp del: map_of_eq_Some_iff split: option.splits if_splits)
qed (use assms in \<open>auto simp: MarkSettled_def ExpireDue_def SetPricing_def AddXP_def Let_def split_beta
       simp del: map_of_eq_Some_iff split: option.splits if_splits\<close>)

text \<open>C21: With the economy and the gate for direct messages on, a message between two different addresses is free only
  if, earlier in the run, the receiver of a pending request of that pair accepted it before its expiry, with a
  signature field that passed the check.\<close>

theorem free_message_needs_acceptance:
  assumes "ccEnabled cfg" and "ccEconomyGateDMs cfg" and "\<not> EqualFold (normalize a) (normalize b)"
    and "CanSendFreeDM (foldl contact_step (NewStore cfg None) es) a b"
  shows "\<exists>pre ok now rid actor sig post r. es = pre @ ResponseGiven ok now rid actor OutcomeAccepted sig # post
           \<and> GetRequest (foldl contact_step (NewStore cfg None) pre) rid = Some r \<and> crStatus r = StatusPending
           \<and> EqualFold (crReceiver r) (normalize actor) \<and> now \<le> crExpiresAt r \<and> respond_check actor sig = None
           \<and> pairKey a b = pairKey (crSender r) (crReceiver r)"
proof -
  have "contact_of (foldl contact_step (NewStore cfg None) es) (pairKey a b) \<noteq> None"
    using assms by (simp add: CanSendFreeDM_def HasProtocolContact_def NewStore_def)
  then show ?thesis
  proof (induction es rule: rev_induct)
    case Nil
    then show ?case by (simp add: NewStore_def empty_data_def)
  next
    case (snoc e es)
    let ?s = "foldl contact_step (NewStore cfg None) es"
    show ?case
    proof (cases "contact_of ?s (pairKey a b)")
      case None
      with snoc.prems obtain p where "contact_of (contact_step ?s e) (pairKey a b) = Some p" by auto
      from no_new_contact [OF this None] show ?thesis unfolding GetRequest_def by (metis append_Nil2)
    next
      case Some
      then show ?thesis using snoc.IH by fastforce
    qed
  qed
qed

subsection \<open>Splits and ownership proofs\<close>

lemma unat_mult_div_100:
  fixes x y :: u64
  assumes "unat x * unat y < 2 ^ 64"
  shows "unat (x * y div 100) = unat x * unat y div 100"
  using assms by (simp add: unat_div unat_mult_lem [THEN iffD1])

lemma shares_le:
  fixes a r n t f :: nat
  assumes "r + n + t + f = 100"
  shows "a * r div 100 + a * n div 100 + a * t div 100 + a * f div 100 \<le> a"
proof -
  have "a * r + a * n + a * t + a * f = a * 100" by (simp flip: assms add: algebra_simps)
  moreover have "x div 100 * 100 \<le> x" for x :: nat by simp
  ultimately show ?thesis
    using div_mult_mod_eq [of "a * r" 100] div_mult_mod_eq [of "a * n" 100]
      div_mult_mod_eq [of "a * t" 100] div_mult_mod_eq [of "a * f" 100] by linarith
qed

text \<open>Remark: The displayed split gives the whole amount away for amounts below \<open>2 ^ 64 div 90\<close>; above that a product
  wraps around.\<close>

lemma SplitBps_conserves:
  assumes "unat amount * 90 < 2 ^ 64"
  shows "case SplitBps amount outcome of (r, n, t, f) \<Rightarrow> unat r + unat n + unat t + unat f = unat amount"
proof -
  obtain rb nb tb fb where b: "split_bps outcome = (rb, nb, tb, fb)" by (cases "split_bps outcome") auto
  have sum: "unat rb + unat nb + unat tb + unat fb = 100" and le: "unat rb \<le> 90" "unat nb \<le> 90" "unat tb \<le> 90" "unat fb \<le> 90"
    using b by (auto simp: split_bps_def split: if_splits)
  have "unat amount * n < 2 ^ 64" if "n \<le> 90" for n
    using assms mult_le_mono2 [OF that, of "unat amount"] by linarith
  then have part: "unat (amount * w div 100) = unat amount * unat w div 100" if "unat w \<le> 90" for w :: u64
    using that by (intro unat_mult_div_100) blast
  let ?r = "amount * rb div 100" and ?n = "amount * nb div 100" and ?t = "amount * tb div 100" and ?f = "amount * fb div 100"
  have tot: "unat ?r + unat ?n + unat ?t + unat ?f \<le> unat amount"
    using shares_le [OF sum, of "unat amount"] by (simp add: part le)
  have lt: "unat amount < 2 ^ 64" using unsigned_less [of amount] by simp
  have rn: "unat (?r + ?n) = unat ?r + unat ?n" using tot lt by (intro unat_add_lem [THEN iffD1]) simp
  have rnt: "unat (?r + ?n + ?t) = unat ?r + unat ?n + unat ?t" using tot lt rn by (subst unat_add_lem [THEN iffD1]) simp_all
  have all: "unat (?r + ?n + ?t + ?f) = unat ?r + unat ?n + unat ?t + unat ?f"
    using tot lt rnt by (subst unat_add_lem [THEN iffD1]) simp_all
  have "?r + ?n + ?t + ?f \<le> amount" using all tot by (simp add: word_le_nat_alt)
  then have rest: "unat (amount - (?r + ?n + ?t + ?f)) = unat amount - (unat ?r + unat ?n + unat ?t + unat ?f)"
    using all by (simp add: unat_sub)
  have tr: "unat (?t + (amount - (?r + ?n + ?t + ?f))) = unat ?t + (unat amount - (unat ?r + unat ?n + unat ?t + unat ?f))"
    using tot lt rest by (subst unat_add_lem [THEN iffD1]) simp_all
  show ?thesis
  proof (cases "?r + ?n + ?t + ?f < amount")
    case True
    then show ?thesis
      unfolding SplitBps_def b Let_def prod.case by (simp only: if_True prod.case tr) (use tot in linarith)
  next
    case False
    then have "?r + ?n + ?t + ?f = amount" using \<open>?r + ?n + ?t + ?f \<le> amount\<close> by simp
    then show ?thesis using b all by (simp add: SplitBps_def)
  qed
qed

lemma owned_not_space: "\<not> is_space (CHR ''o'')" "\<not> is_space (CHR '':'')"
  by code_simp+

lemma TrimSpace_owned: "TrimSpace (''owned:'' @ TrimSpace v) = ''owned:'' @ TrimSpace v"
proof (rule TrimSpace_trimmed)
  show "trimmed (''owned:'' @ TrimSpace v)"
    using trimmed_TrimSpace [of v] owned_not_space by (cases "TrimSpace v = []") (simp_all add: trimmed_def)
qed

lemma TrimSpace_owned_nonempty: "TrimSpace (''owned:'' @ v) \<noteq> []"
  by (simp add: TrimSpace_def owned_not_space)

lemma minted:
  assumes "MintOwnedProofAfterResolve claimed authenticated = Inr m"
  shows "m = ''owned:'' @ TrimSpace authenticated" and "EqualFold (TrimSpace claimed) (TrimSpace authenticated)"
    and "TrimSpace authenticated \<noteq> []"
  using assms
  by (auto simp: MintOwnedProofAfterResolve_def ResolveAuthenticatedOwner_def MintOwnedProof_def Let_def
      split: if_splits sum.splits)

lemma respond_check_owned:
  assumes "v \<noteq> []"
  shows "respond_check actor (''owned:'' @ v) = None \<longleftrightarrow> normalize v \<noteq> [] \<and> EqualFold (normalize v) (normalize actor)"
proof -
  have "TrimSpace (''owned:'' @ v) \<noteq> []" by (rule TrimSpace_owned_nonempty)
  moreover have "\<not> HasPrefix (''owned:'' @ v) ''sig-''" by (simp add: HasPrefix_def)
  ultimately show ?thesis
    unfolding respond_check_def by (simp only: TrimPrefix_append HasPrefix_append) simp
qed

text \<open>Remark: The marker minted for a claimed and a proven address passes the check of \<open>Respond\<close> for every actor that is
  the proven address up to case, and for no other; it is minted only when the claimed address is the proven one, and
  the handlers refuse it as client input.\<close>

theorem owned_proof_binds_owner:
  assumes "MintOwnedProofAfterResolve claimed authenticated = Inr m"
  shows "EqualFold (TrimSpace claimed) (TrimSpace authenticated) \<and> m = ''owned:'' @ TrimSpace authenticated
         \<and> (respond_check actor m = None \<longleftrightarrow> EqualFold (TrimSpace authenticated) (normalize actor))
         \<and> RejectClientOwnedProof m = Some ClientOwnedProof"
proof -
  note m = minted [OF assms]
  have "respond_check actor m = None \<longleftrightarrow> EqualFold (TrimSpace authenticated) (normalize actor)"
    unfolding m(1) respond_check_owned [OF m(3)] using m(3) by (simp add: normalize_def)
  moreover have "RejectClientOwnedProof m = Some ClientOwnedProof"
    unfolding RejectClientOwnedProof_def m(1) TrimSpace_owned by (simp add: HasPrefix_def)
  ultimately show ?thesis using m(1,2) by blast
qed

subsection \<open>Instances\<close>

definition demo_cfg :: contact_config where
  "demo_cfg = \<lparr>ccEnabled = True, ccMinFeeUplp = 10000, ccMaxFeeUplp = 100000000, ccDefaultUnknownUplp = 1000000,
     ccDefaultVerifiedUplp = 100000, ccTimeoutSecs = 2592000, ccBasePendingLimit = 5, ccEconomyGateDMs = True\<rparr>"

definition demo_request :: ContactRequest where
  "demo_request = \<lparr>crRequestID = ''r1'', crRequestIDHash = RequestIDHash ''r1'', crSender = ''alice'', crReceiver = ''bob'', crSenderPubKey = [],
     crReceiverPubKey = [], crEncryptedPayload = ''x'', crTimestamp = 1000, crExpiresAt = 2593000,
     crLockTxHash = ''aaaaaaaaaaaaaaaaaaaaaaaaaaaaaaaa'', crAmountUplp = 1, crStatus = StatusPending, crSettleOutcome = [], crSettleTxHash = []\<rparr>"

definition demo_events :: "contact_event list" where
  "demo_events = [CreateCalled True 1000 (NewStore demo_cfg None) demo_request,
     ResponseGiven True 1001 ''r1'' ''bob'' OutcomeAccepted ''owned:bob'']"

lemma demo_names: "TrimSpace ''alice'' = ''alice''" "TrimSpace ''bob'' = ''bob''" "ToLower ''alice'' = ''alice''" "ToLower ''bob'' = ''bob''"
    "ToLower ''aaaaaaaaaaaaaaaaaaaaaaaaaaaaaaaa'' = ''aaaaaaaaaaaaaaaaaaaaaaaaaaaaaaaa''" "pairKey ''alice'' ''bob'' = ''alice|bob''"
    "respond_check ''bob'' ''owned:bob'' = None"
  by code_simp+

lemma demo_fields: "request_fields demo_request = None"
  by (simp add: request_fields_def demo_request_def demo_names HasPrefix_def)

lemma demo_created: "create_checked 1000 demo_request (NewStore demo_cfg None) = Inr demo_request"
proof -
  let ?s = "NewStore demo_cfg None"
  have n: "demo_request\<lparr>crSender := normalize (crSender demo_request), crReceiver := normalize (crReceiver demo_request)\<rparr> = demo_request"
    by (simp add: demo_request_def normalize_def demo_names)
  have "ccEnabled (ctCfg ?s)" "\<not> paBlocked (GetPricing ?s (crReceiver demo_request))"
      "\<not> HasProtocolContact ?s (crSender demo_request) (crReceiver demo_request)"
      "PendingOutboundCount ?s (crSender demo_request) < PendingLimit ?s (crSender demo_request)"
    by (simp_all add: NewStore_def demo_cfg_def GetPricing_def HasProtocolContact_def PendingOutboundCount_def
        PendingLimit_def GetXP_def empty_data_def Let_def i64_def)
  then show ?thesis
    unfolding create_checked_def Let_def n demo_fields
    by (simp add: demo_request_def demo_cfg_def NewStore_def i64_def)
qed

lemma demo_sent: "snd (create_locked True demo_request (NewStore demo_cfg None)) =
    snd (persistLocked True (put_request ''r1'' demo_request (NewStore demo_cfg None)))"
  by (simp add: create_locked_def NewStore_def empty_data_def Let_def split_beta demo_request_def)

lemma demo_pending: "request_of (foldl contact_step (NewStore demo_cfg None) (take 1 demo_events)) ''r1'' = Some demo_request"
  by (simp add: demo_events_def demo_created demo_sent)

lemma demo_pending_fields: "crStatus demo_request = StatusPending" "crReceiver demo_request = ''bob''" "crSender demo_request = ''alice''"
    "crExpiresAt demo_request = 2593000" "crAmountUplp demo_request = 1" "crRequestID demo_request = ''r1''"
  by (simp_all add: demo_request_def)

lemma demo_run: "foldl contact_step (NewStore demo_cfg None) demo_events =
    snd (Respond True 1001 ''r1'' ''bob'' OutcomeAccepted ''owned:bob''
      (foldl contact_step (NewStore demo_cfg None) (take 1 demo_events)))"
  by (simp add: demo_events_def)

lemma demo_done:
  "request_of (foldl contact_step (NewStore demo_cfg None) demo_events) ''r1'' =
     Some (demo_request\<lparr>crStatus := StatusEstablished, crSettleOutcome := OutcomeAccepted\<rparr>)"
  "contact_of (foldl contact_step (NewStore demo_cfg None) demo_events) (pairKey ''alice'' ''bob'') \<noteq> None"
  unfolding demo_run Respond_def
  using demo_pending demo_pending_fields
  by (simp_all add: demo_names normalize_def Let_def split_beta update_conv' del: map_of_eq_Some_iff)

lemma demo_contact: "HasProtocolContact (foldl contact_step (NewStore demo_cfg None) demo_events) ''alice'' ''bob''"
  using demo_done(2) by (simp only: HasProtocolContact_def) simp

lemma demo_gate: "ccEnabled demo_cfg" "ccEconomyGateDMs demo_cfg" "\<not> EqualFold (normalize ''alice'') (normalize ''bob'')"
    "CanSendFreeDM (foldl contact_step (NewStore demo_cfg None) demo_events) ''alice'' ''bob''"
  using demo_contact by (simp_all add: demo_cfg_def normalize_def demo_names EqualFold_def CanSendFreeDM_def)

theorem contact_request_final_witness:
  "\<exists>q. GetRequest (foldl contact_step (foldl contact_step (NewStore demo_cfg None) demo_events) [ExpiryRun True 9999999]) ''r1'' = Some q
       \<and> crStatus q = StatusEstablished"
proof -
  have "GetRequest (foldl contact_step (NewStore demo_cfg None) demo_events) ''r1'' =
      Some (demo_request\<lparr>crStatus := StatusEstablished, crSettleOutcome := OutcomeAccepted\<rparr>)"
    using demo_done(1) by (simp only: GetRequest_def)
  from contact_request_final [OF contacts.run_inv [OF empty_contact_ok] this _ demo_contact, of "[ExpiryRun True 9999999]"]
  show ?thesis by auto
qed

theorem free_message_needs_acceptance_witness:
  "\<exists>pre ok now rid actor sig post r. demo_events = pre @ ResponseGiven ok now rid actor OutcomeAccepted sig # post
     \<and> GetRequest (foldl contact_step (NewStore demo_cfg None) pre) rid = Some r"
  using free_message_needs_acceptance [OF demo_gate] by blast

theorem owned_proof_binds_owner_witness:
  "MintOwnedProofAfterResolve ''Bob'' '' bob '' = Inr ''owned:bob'' \<and> respond_check ''BOB'' ''owned:bob'' = None
   \<and> respond_check ''eve'' ''owned:bob'' \<noteq> None"
proof -
  have m: "MintOwnedProofAfterResolve ''Bob'' '' bob '' = Inr ''owned:bob''" by code_simp
  have "EqualFold (TrimSpace '' bob '') (normalize ''BOB'')" "\<not> EqualFold (TrimSpace '' bob '') (normalize ''eve'')" by code_simp+
  then show ?thesis using m owned_proof_binds_owner [OF m, of "''BOB''"] owned_proof_binds_owner [OF m, of "''eve''"] by blast
qed

text \<open>Remark: The receiver's announced price is not enforced: a request that pays 1 is stored for a receiver whose
  price is 1000000 (the default).\<close>

lemma price_not_enforced:
  "paUnknownFeeUplp (GetPricing (NewStore demo_cfg None) ''bob'') = 1000000
   \<and> crAmountUplp demo_request = 1
   \<and> fst (CreateRequest True 1000 (\<lambda>s. s) demo_request (NewStore demo_cfg None)) = Inr demo_request"
proof -
  have "fst (create_locked True demo_request (NewStore demo_cfg None)) = Inr demo_request"
    by (simp add: create_locked_def NewStore_def empty_data_def Let_def split_beta persistLocked_def)
  then show ?thesis
    by (simp add: CreateRequest_def demo_created demo_pending_fields)
      (simp add: GetPricing_def NewStore_def empty_data_def demo_cfg_def Let_def)
qed

text \<open>Remark: A request whose write fails is refused to the client but stays in memory: the same request sent again is
  a duplicate.\<close>

lemma failed_write_keeps_request:
  assumes "fst (create_locked False r s) = Inl ContactPersist"
  shows "fst (create_locked ok r (snd (create_locked False r s))) = Inl DuplicateRequest"
  using assms
  by (auto simp: create_locked_def Let_def split_beta persistLocked_def update_conv' split: if_splits)

end
