(* ===== verification/Escrow_Api.thy ===== *)
theory Escrow_Api
  imports Admission Deals Contact_Economy
begin

text \<open>
  The escrow, deal and contact handlers: \<open>internal/escrow\<close>, \<open>internal/protocol/contact.go\<close>,
  \<open>internal/handlers/handlers_escrow.go\<close>, \<open>handlers_escrow_submit.go\<close>, \<open>handlers_deals.go\<close>,
  \<open>handlers_contact_economy.go\<close>, and \<open>submitCoreSignedTx\<close> of \<open>handlers.go\<close>. A handler takes the decoded request
  and the state it works on, and returns its answer and the new state. Core's key derivation, signer and signature
  check are arguments; a signed transaction is given as the decoded structure (\<open>None\<close>: text that does not decode).
  Between Core's admission check and the insertion other handlers may change the state, as \<open>mid\<close> says.
\<close>

subsection \<open>Escrow data\<close>

definition TxKindLock :: string where "TxKindLock = ''escrow_lock''"
definition TxKindSettle :: string where "TxKindSettle = ''escrow_settle''"
definition TxKindRefund :: string where "TxKindRefund = ''escrow_refund''"
definition TxKindCancel :: string where "TxKindCancel = ''escrow_cancel''"
definition PurposeContact :: string where "PurposeContact = ''contact''"
definition PurposeDeal :: string where "PurposeDeal = ''deal''"

record escrow_status =
  esEscrowID :: string
  esPurpose :: string
  esCreator :: string
  esBeneficiary :: string
  esAmountUplp :: u64
  esAsset :: string
  esStatus :: string
  esLockTxHash :: string
  esSettleTxHash :: string
  esExpiresAt :: int
  esOutcomeKey :: string

record SettleIntent =
  siTxKind :: string
  siEscrowID :: string
  siPurpose :: string
  siOutcomeKey :: string
  siAmountUplp :: u64
  siBeneficiary :: string
  siCreator :: string
  siSuggestedNode :: string
  siLockTxHash :: string

record LockPayload =
  lpTxKind :: string
  lpEscrowID :: string
  lpCreator :: string
  lpBeneficiary :: string
  lpAmount :: u64
  lpPurpose :: string
  lpRulesHash :: string
  lpExpiresAt :: int
  lpNonce :: u64

definition DefaultPurpose :: "string \<Rightarrow> string" where
  "DefaultPurpose purpose = (if TrimSpace purpose = [] then PurposeContact else purpose)"

definition MapProtocolOutcome :: "string \<Rightarrow> string" where
  "MapProtocolOutcome o1 =
     (if o1 = ''accepted'' \<or> o1 = ''accept'' then ''accept''
      else if o1 = ''timeout'' then ''timeout''
      else if o1 = ''rejected'' \<or> o1 = ''reject'' then ''reject''
      else if o1 = ''cancelled'' \<or> o1 = ''canceled'' \<or> o1 = ''cancel'' then ''cancel''
      else [])"

definition IsEscrowTxKind :: "string \<Rightarrow> bool" where
  "IsEscrowTxKind t \<longleftrightarrow>
     t = TxKindLock \<or> t = TxKindSettle \<or> t = TxKindRefund \<or> t = TxKindCancel
     \<or> t = ''contact_escrow_lock'' \<or> t = ''contact_escrow_settle''"

definition BuildSettleIntent ::
  "string \<Rightarrow> string \<Rightarrow> string \<Rightarrow> u64 \<Rightarrow> string \<Rightarrow> string \<Rightarrow> string \<Rightarrow> string \<Rightarrow> SettleIntent" where
  "BuildSettleIntent escrowID purpose protocolOutcome amountUplp creator beneficiary lockTxHash nodeHint =
     \<lparr>siTxKind = TxKindSettle, siEscrowID = escrowID, siPurpose = purpose, siOutcomeKey = MapProtocolOutcome protocolOutcome,
      siAmountUplp = amountUplp, siBeneficiary = beneficiary, siCreator = creator, siSuggestedNode = nodeHint,
      siLockTxHash = lockTxHash\<rparr>"

definition BuildLockPayload ::
  "string \<Rightarrow> string \<Rightarrow> string \<Rightarrow> string \<Rightarrow> string \<Rightarrow> u64 \<Rightarrow> int \<Rightarrow> u64 \<Rightarrow> LockPayload" where
  "BuildLockPayload escrowID creator beneficiary purpose rulesHash amount expiresAt nonce =
     \<lparr>lpTxKind = TxKindLock, lpEscrowID = escrowID, lpCreator = creator, lpBeneficiary = beneficiary, lpAmount = amount,
      lpPurpose = DefaultPurpose purpose, lpRulesHash = rulesHash, lpExpiresAt = expiresAt, lpNonce = nonce\<rparr>"

definition ContactSettleFromRequest :: "ContactRequest \<Rightarrow> string \<Rightarrow> SettleIntent" where
  "ContactSettleFromRequest req nodeHint =
     BuildSettleIntent (if crRequestIDHash req = [] then RequestIDHash (crRequestID req) else crRequestIDHash req)
       PurposeContact (if crSettleOutcome req = [] then OutcomeTimeout else crSettleOutcome req) (crAmountUplp req)
       (crSender req) (crReceiver req) (crLockTxHash req) nodeHint"

definition ContactLockPayload :: "string \<Rightarrow> string \<Rightarrow> string \<Rightarrow> u64 \<Rightarrow> int \<Rightarrow> u64 \<Rightarrow> LockPayload" where
  "ContactLockPayload escrowID creator beneficiary amount expiresAt nonce =
     BuildLockPayload escrowID creator beneficiary PurposeContact [] amount expiresAt nonce"

definition StatusFromContactRequest :: "ContactRequest \<Rightarrow> escrow_status" where
  "StatusFromContactRequest req =
     \<lparr>esEscrowID = crRequestIDHash req, esPurpose = PurposeContact, esCreator = crSender req, esBeneficiary = crReceiver req,
      esAmountUplp = crAmountUplp req, esAsset = ''PLP'',
      esStatus = (if crStatus req = StatusEstablished then ''RELEASED'' else if crStatus req = StatusRejected then ''REFUNDED''
                  else if crStatus req = StatusExpired then ''EXPIRED'' else ''LOCKED''),
      esLockTxHash = crLockTxHash req, esSettleTxHash = crSettleTxHash req, esExpiresAt = crExpiresAt req,
      esOutcomeKey = MapProtocolOutcome (crSettleOutcome req)\<rparr>"

subsection \<open>Signed transactions\<close>

record core_signed =
  sgHash :: string
  sgFrom :: string
  sgTo :: string
  sgAsset :: string
  sgAmount :: u64
  sgFeeUplp :: u64
  sgNonce :: int
  sgSigMain :: string
  sgSigDerived :: string
  sgPubMain :: string
  sgPubDerived :: string
  sgReads :: "string list"
  sgWrites :: "string list"
  sgTxKind :: string
  sgEscrowID :: string
  sgRequestIDHash :: string
  sgPurpose :: string
  sgExpiresAt :: u64
  sgSettleOutcomeKey :: string
  sgSettlePayee :: string
  sgSettleNode :: string

datatype signed_error = ParseSigned | MissingKind | MissingEscrowID

definition parseSignedEscrowTx :: "int \<Rightarrow> core_signed option \<Rightarrow> signed_error + Transaction" where
  "parseSignedEscrowTx now js =
     (case js of
        None \<Rightarrow> Inl ParseSigned
      | Some c \<Rightarrow>
          (if sgTxKind c = [] then Inl MissingKind
           else
             let escrowID = (if sgEscrowID c = [] then sgRequestIDHash c else sgEscrowID c)
             in if escrowID = [] then Inl MissingEscrowID
                else Inr
                  \<lparr>txHash = sgHash c, txFrom = sgFrom c, txTo = sgTo c, txValue = FormatUint (sgAmount c),
                   txFee = FormatUint (sgFeeUplp c), txNonce = sgNonce c, txTimestamp = now, txType = sgTxKind c,
                   txAssetType = ''native'', txContractAddress = [], txSigMain = sgSigMain c, txSigDerived = sgSigDerived c,
                   txPubMain = sgPubMain c, txPubDerived = sgPubDerived c, txAsset = sgAsset c, txAmountUplp = sgAmount c,
                   txFeeUplp = sgFeeUplp c, txReads = sgReads c, txWrites = sgWrites c, txBlockNumber = 0,
                   txRequestIDHash = escrowID, txEscrowID = escrowID, txPurpose = sgPurpose c, txExpiresAt = sint (sgExpiresAt c),
                   txSettleOutcome = None, txSettleOutcomeKey = sgSettleOutcomeKey c, txSettlePayee = sgSettlePayee c,
                   txSettleNode = sgSettleNode c\<rparr>))"

text \<open>The arguments of Core's signer, and the calls of Core the handlers use.\<close>

record sign_args =
  saFrom :: string
  saTo :: string
  saAsset :: string
  saAmount :: u64
  saFee :: u64
  saNonce :: u64
  saReads :: "string list"
  saWrites :: "string list"
  saMnemonic :: string
  saAlphanumeric :: string
  saTxKind :: string
  saEscrowID :: string
  saPurpose :: string
  saExpiresAt :: u64
  saOutcomeKey :: string
  saPayee :: string
  saNode :: string

record core_calls =
  ckKeys :: "string \<Rightarrow> string \<Rightarrow> string option"
  ckSign :: "sign_args \<Rightarrow> core_signed option option"
  ckVerify :: "(string \<times> string) list \<Rightarrow> string \<Rightarrow> string \<Rightarrow> bool option"

subsection \<open>The handlers' state\<close>

record 'c gateway =
  gwAdm :: "'c admission"
  gwContacts :: "contact_store option"
  gwBook :: Book
  gwWallet :: string
  gwRate :: "Limiter option"
  gwTestnet :: bool

text \<open>What a handler reads around it: Core, the results of file writes, the two clocks and the client's identity.\<close>

record 'c api_world =
  apCore :: "core_calls option"
  apAdmit :: "'c admit_world"
  apMid :: "'c admission \<Rightarrow> 'c admission"
  apQuery :: "string \<Rightarrow> AccountQuery option"
  apRocks :: "(string \<Rightarrow> AccountQuery option) option"
  apReads :: rocks
  apNow :: int
  apNanos :: int
  apIP :: string
  apDevice :: string
  apContactWrite :: bool
  apContactMid :: "contact_store \<Rightarrow> contact_store"
  apFlush :: flush_io

datatype api_error =
    RateLimited | NoCore | SecretsRequired | BodyIncomplete | KeysFailed | NonceFailed | SignFailed | SignedInvalid signed_error
  | NotAdmitted admit_error | SecretsRefused | WrongPurpose | NoGuarantor | WrongGuarantor | WrongAsset | DealRefused deal_error
  | PanelRequired | QuorumMismatch | OnlyParty | ContactsUnavailable | ActorRequired | OwnerRefused owner_error | SignatureCheck
  | SignatureInvalid | ProofRequired | ContactRefused contact_error | LockHashRequired | LockNotFound | NotLock | LockFrom
  | LockAmount | LockEscrow | EscrowUnknown | SettleHashRequired | SettleTarget | LedgerMissing | InvalidSigned | ZeroAmount
  | XPFrozen

definition rate_ok :: "'c api_world \<Rightarrow> string \<Rightarrow> 'c gateway \<Rightarrow> bool \<times> 'c gateway" where
  "rate_ok w action g =
     (let (ok, l) = allowContactRate (apNanos w) (apIP w) (apDevice w) action (gwRate g) in (ok, g\<lparr>gwRate := l\<rparr>))"

definition admit :: "'c api_world \<Rightarrow> Transaction \<Rightarrow> 'c gateway \<Rightarrow> admit_error option \<times> 'c gateway" where
  "admit w tx g =
     (let (r, a) = admitToMempool (apAdmit w) (apMid w) (Some tx) (gwAdm g) in (r, g\<lparr>gwAdm := a\<rparr>))"

definition release :: "string \<Rightarrow> int \<Rightarrow> 'c gateway \<Rightarrow> 'c gateway" where
  "release from nonce g = g\<lparr>gwAdm := releaseNonceForAddress from nonce (gwAdm g)\<rparr>"

subsection \<open>Escrow lock and settle\<close>

record escrow_body =
  ebMnemonic :: string
  ebAlphanumeric :: string
  ebFrom :: string
  ebBeneficiary :: string
  ebEscrowID :: string
  ebAmountUplp :: u64
  ebFeeUplp :: u64
  ebNonce :: "int option"
  ebExpiresAt :: int
  ebPurpose :: string
  ebOutcomeKey :: string
  ebCreator :: string
  ebNode :: string
  ebRequestID :: string

definition secrets_given :: "escrow_body \<Rightarrow> bool" where
  "secrets_given b \<longleftrightarrow> TrimSpace (ebMnemonic b) \<noteq> [] \<and> TrimSpace (ebAlphanumeric b) \<noteq> []"

definition choose_from :: "core_calls \<Rightarrow> escrow_body \<Rightarrow> string option" where
  "choose_from core b =
     (if TrimSpace (ebFrom b) \<noteq> [] then Some (TrimSpace (ebFrom b)) else ckKeys core (ebMnemonic b) (ebAlphanumeric b))"

definition choose_nonce :: "'c api_world \<Rightarrow> string \<Rightarrow> int option \<Rightarrow> 'c gateway \<Rightarrow> int option \<times> 'c gateway" where
  "choose_nonce w from given g =
     (case given of
        Some n \<Rightarrow> (Some n, g)
      | None \<Rightarrow>
          (let (n, a) = allocateNonceForAddress (apQuery w) (apRocks w) from (gwAdm g) in (n, g\<lparr>gwAdm := a\<rparr>)))"

text \<open>Sign, parse and admit; every failure gives the nonce back.\<close>

definition sign_submit ::
  "'c api_world \<Rightarrow> core_calls \<Rightarrow> sign_args \<Rightarrow> int \<Rightarrow> 'c gateway \<Rightarrow> (api_error + Transaction) \<times> 'c gateway" where
  "sign_submit w core args nonce g =
     (case ckSign core args of
        None \<Rightarrow> (Inl SignFailed, release (saFrom args) nonce g)
      | Some js \<Rightarrow>
          (case parseSignedEscrowTx (apNow w) js of
             Inl e \<Rightarrow> (Inl (SignedInvalid e), release (saFrom args) nonce g)
           | Inr tx \<Rightarrow>
               (case admit w tx g of
                  (Some e, g1) \<Rightarrow> (Inl (NotAdmitted e), release (saFrom args) nonce g1)
                | (None, g1) \<Rightarrow> (Inr tx, g1))))"

definition submit_escrow ::
  "'c api_world \<Rightarrow> (string \<Rightarrow> int \<Rightarrow> sign_args) \<Rightarrow> escrow_body \<Rightarrow> 'c gateway \<Rightarrow> (api_error + Transaction) \<times> 'c gateway" where
  "submit_escrow w args b g =
     (case apCore w of
        None \<Rightarrow> (Inl NoCore, g)
      | Some core \<Rightarrow>
          (case choose_from core b of
             None \<Rightarrow> (Inl KeysFailed, g)
           | Some from \<Rightarrow>
               (case choose_nonce w from (ebNonce b) g of
                  (None, g1) \<Rightarrow> (Inl NonceFailed, g1)
                | (Some nonce, g1) \<Rightarrow> sign_submit w core (args from nonce) nonce g1)))"

definition lock_args :: "'c api_world \<Rightarrow> escrow_body \<Rightarrow> string \<Rightarrow> int \<Rightarrow> sign_args" where
  "lock_args w b from nonce =
     (let expires = (if ebExpiresAt b = 0 then apNow w + 30 * 24 * 3600 else ebExpiresAt b)
      in \<lparr>saFrom = from, saTo = ebBeneficiary b, saAsset = ''PLP'', saAmount = ebAmountUplp b,
          saFee = (if ebFeeUplp b = 0 then 1 else ebFeeUplp b), saNonce = word_of_int nonce, saReads = [],
          saWrites = [from, ebBeneficiary b], saMnemonic = ebMnemonic b, saAlphanumeric = ebAlphanumeric b,
          saTxKind = TxKindLock, saEscrowID = ebEscrowID b, saPurpose = DefaultPurpose (ebPurpose b),
          saExpiresAt = word_of_int expires, saOutcomeKey = [], saPayee = ebBeneficiary b, saNode = []\<rparr>)"

definition SubmitEscrowLock :: "'c api_world \<Rightarrow> escrow_body \<Rightarrow> 'c gateway \<Rightarrow> (api_error + Transaction) \<times> 'c gateway" where
  "SubmitEscrowLock w b g0 =
     (let (ok, g) = rate_ok w ''escrow_lock'' g0
      in if \<not> ok then (Inl RateLimited, g)
         else if apCore w = None then (Inl NoCore, g)
         else if \<not> secrets_given b then (Inl SecretsRequired, g)
         else if ebEscrowID b = [] \<or> ebBeneficiary b = [] \<or> ebAmountUplp b = 0 then (Inl BodyIncomplete, g)
         else submit_escrow w (lock_args w b) b g)"

definition settle_outcome :: "escrow_body \<Rightarrow> string" where
  "settle_outcome b =
     (if MapProtocolOutcome (ebOutcomeKey b) \<noteq> [] then MapProtocolOutcome (ebOutcomeKey b) else TrimSpace (ebOutcomeKey b))"

definition settle_to :: "escrow_body \<Rightarrow> string \<Rightarrow> string" where
  "settle_to b from = (if ebCreator b \<noteq> [] then ebCreator b else if ebBeneficiary b \<noteq> [] then ebBeneficiary b else from)"

definition settle_args :: "escrow_body \<Rightarrow> string \<Rightarrow> int \<Rightarrow> sign_args" where
  "settle_args b from nonce =
     \<lparr>saFrom = from, saTo = settle_to b from, saAsset = ''PLP'', saAmount = ebAmountUplp b,
      saFee = (if ebFeeUplp b = 0 then 1 else ebFeeUplp b), saNonce = word_of_int nonce, saReads = [],
      saWrites = [from, settle_to b from], saMnemonic = ebMnemonic b, saAlphanumeric = ebAlphanumeric b,
      saTxKind = TxKindSettle, saEscrowID = ebEscrowID b, saPurpose = DefaultPurpose (ebPurpose b), saExpiresAt = 0,
      saOutcomeKey = settle_outcome b, saPayee = ebBeneficiary b, saNode = ebNode b\<rparr>"

definition mark_settled :: "'c api_world \<Rightarrow> escrow_body \<Rightarrow> string \<Rightarrow> 'c gateway \<Rightarrow> 'c gateway" where
  "mark_settled w b h g =
     (case gwContacts g of
        None \<Rightarrow> g
      | Some s \<Rightarrow>
          (if ebRequestID b \<noteq> [] then g\<lparr>gwContacts := Some (snd (MarkSettled (apContactWrite w) (ebRequestID b) h s))\<rparr>
           else case FindByEscrowID s (ebEscrowID b) of
               None \<Rightarrow> g
             | Some req \<Rightarrow> g\<lparr>gwContacts := Some (snd (MarkSettled (apContactWrite w) (crRequestID req) h s))\<rparr>))"

definition SubmitEscrowSettle :: "'c api_world \<Rightarrow> escrow_body \<Rightarrow> 'c gateway \<Rightarrow> (api_error + Transaction) \<times> 'c gateway" where
  "SubmitEscrowSettle w b g0 =
     (let (ok, g) = rate_ok w ''escrow_settle'' g0
      in if \<not> ok then (Inl RateLimited, g)
         else if apCore w = None then (Inl NoCore, g)
         else if \<not> secrets_given b then (Inl SecretsRequired, g)
         else if ebEscrowID b = [] \<or> ebAmountUplp b = 0 \<or> settle_outcome b = [] then (Inl BodyIncomplete, g)
         else case submit_escrow w (settle_args b) b g of
             (Inl e, g1) \<Rightarrow> (Inl e, g1)
           | (Inr tx, g1) \<Rightarrow> (Inr tx, mark_settled w b (txHash tx) g1))"

text \<open>\<open>GetEscrowStatus\<close>: the intent is offered while an outcome is recorded and no settlement hash is.\<close>

definition GetEscrowStatus :: "string \<Rightarrow> 'c gateway \<Rightarrow> api_error + escrow_status \<times> SettleIntent option" where
  "GetEscrowStatus raw g =
     (let eid = TrimSpace raw
      in if eid = [] then Inl BodyIncomplete
         else case gwContacts g of
             None \<Rightarrow> Inl ContactsUnavailable
           | Some s \<Rightarrow>
               (case FindByEscrowID s eid of
                  None \<Rightarrow> Inl EscrowUnknown
                | Some req \<Rightarrow>
                    Inr (StatusFromContactRequest req,
                         if crSettleOutcome req = [] \<or> crSettleTxHash req \<noteq> [] then None
                         else Some (ContactSettleFromRequest req []))))"

definition AckEscrowSettled :: "'c api_world \<Rightarrow> string \<Rightarrow> string \<Rightarrow> string \<Rightarrow> 'c gateway \<Rightarrow> api_error option \<times> 'c gateway" where
  "AckEscrowSettled w escrowID rawRequest settleTxHash g =
     (case gwContacts g of
        None \<Rightarrow> (Some ContactsUnavailable, g)
      | Some s \<Rightarrow>
          (if TrimSpace settleTxHash = [] then (Some SettleHashRequired, g)
           else
             let rid0 = TrimSpace rawRequest;
                 rid = (if rid0 = [] \<and> escrowID \<noteq> []
                        then (case FindByEscrowID s escrowID of None \<Rightarrow> [] | Some req \<Rightarrow> crRequestID req) else rid0)
             in if rid = [] then (Some SettleTarget, g)
                else case MarkSettled (apContactWrite w) rid settleTxHash s of
                    (r, s1) \<Rightarrow> (map_option ContactRefused r, g\<lparr>gwContacts := Some s1\<rparr>)))"

subsection \<open>Deals\<close>

definition requireDealGuarantor :: "'c gateway \<Rightarrow> Transaction \<Rightarrow> api_error option" where
  "requireDealGuarantor g tx =
     (if txPurpose tx \<noteq> PurposeDeal \<or> txType tx \<noteq> TxKindLock then None
      else if TrimSpace (gwWallet g) = [] then Some NoGuarantor
      else if \<not> EqualFold (TrimSpace (txSettleNode tx)) (TrimSpace (gwWallet g)) then Some WrongGuarantor
      else None)"

record signedDealBody =
  sdMnemonic :: string
  sdAlphanumeric :: string
  sdTransaction :: "core_signed option"
  sdCaseID :: string

definition rejectSecretMaterial :: "signedDealBody \<Rightarrow> bool" where
  "rejectSecretMaterial b \<longleftrightarrow> TrimSpace (sdMnemonic b) \<noteq> [] \<or> TrimSpace (sdAlphanumeric b) \<noteq> []"

text \<open>\<open>signedDealAdmit\<close> is \<open>admitToMempool\<close>.\<close>

definition signedDealAdmit :: "'c api_world \<Rightarrow> Transaction \<Rightarrow> 'c gateway \<Rightarrow> (api_error + Transaction) \<times> 'c gateway" where
  "signedDealAdmit w tx g =
     (case admit w tx g of (Some e, g1) \<Rightarrow> (Inl (NotAdmitted e), g1) | (None, g1) \<Rightarrow> (Inr tx, g1))"

definition SubmitDealLock :: "'c api_world \<Rightarrow> signedDealBody \<Rightarrow> 'c gateway \<Rightarrow> (api_error + Transaction) \<times> 'c gateway" where
  "SubmitDealLock w b g =
     (if rejectSecretMaterial b then (Inl SecretsRefused, g)
      else case parseSignedEscrowTx (apNow w) (sdTransaction b) of
          Inl e \<Rightarrow> (Inl (SignedInvalid e), g)
        | Inr tx \<Rightarrow>
            (if txType tx \<noteq> TxKindLock \<or> txPurpose tx \<noteq> PurposeDeal then (Inl WrongPurpose, g)
             else case requireDealGuarantor g tx of
                 Some e \<Rightarrow> (Inl e, g)
               | None \<Rightarrow> if txAsset tx \<noteq> ''PLP'' then (Inl WrongAsset, g) else signedDealAdmit w tx g))"

text \<open>The checks against the book; \<open>Quorum\<close> may freeze and settle the case.\<close>

definition timeout_check :: "signedDealBody \<Rightarrow> Transaction \<Rightarrow> Book \<Rightarrow> api_error option" where
  "timeout_check b tx book =
     (if txSettleOutcomeKey tx = ''timeout'' then map_option DealRefused (TimeoutAllowed (sdCaseID b) book) else None)"

definition dispute_check :: "signedDealBody \<Rightarrow> Transaction \<Rightarrow> Book \<Rightarrow> api_error option \<times> Book" where
  "dispute_check b tx book =
     (case Panel (sdCaseID b) book of
        None \<Rightarrow> (Some PanelRequired, book)
      | Some panel \<Rightarrow>
          (let (outcome, book1) = Quorum (sdCaseID b) book
           in (if outcome = Some (txSettleOutcomeKey tx) then None else Some QuorumMismatch, book1)))"

definition admitDealSettle ::
  "bool \<Rightarrow> 'c api_world \<Rightarrow> signedDealBody \<Rightarrow> 'c gateway \<Rightarrow> (api_error + Transaction) \<times> 'c gateway" where
  "admitDealSettle dispute w b g =
     (if rejectSecretMaterial b then (Inl SecretsRefused, g)
      else case parseSignedEscrowTx (apNow w) (sdTransaction b) of
          Inl e \<Rightarrow> (Inl (SignedInvalid e), g)
        | Inr tx \<Rightarrow>
            (if txType tx \<noteq> TxKindSettle \<or> txPurpose tx \<noteq> PurposeDeal then (Inl WrongPurpose, g)
             else case timeout_check b tx (gwBook g) of
                 Some e \<Rightarrow> (Inl e, g)
               | None \<Rightarrow>
                   (if dispute
                    then (case dispute_check b tx (gwBook g) of
                            (Some e, book) \<Rightarrow> (Inl e, g\<lparr>gwBook := book\<rparr>)
                          | (None, book) \<Rightarrow> signedDealAdmit w tx (g\<lparr>gwBook := book\<rparr>))
                    else signedDealAdmit w tx g)))"

definition SubmitDealSettle :: "'c api_world \<Rightarrow> signedDealBody \<Rightarrow> 'c gateway \<Rightarrow> (api_error + Transaction) \<times> 'c gateway" where
  "SubmitDealSettle = admitDealSettle False"

definition SubmitDealDisputeSettle :: "'c api_world \<Rightarrow> signedDealBody \<Rightarrow> 'c gateway \<Rightarrow> (api_error + Transaction) \<times> 'c gateway" where
  "SubmitDealDisputeSettle = admitDealSettle True"

record dispute_body =
  dbTerms :: string
  dbOpenBlock :: string
  dbEscrowID :: string
  dbBonded :: "string list"
  dbCreator :: string
  dbBeneficiary :: string
  dbNode :: string
  dbPriorResult :: string
  dbParty :: string

definition OpenDealDispute :: "'c api_world \<Rightarrow> dispute_body \<Rightarrow> 'c gateway \<Rightarrow> (api_error + deal_brief) \<times> 'c gateway" where
  "OpenDealDispute w b g =
     (if dbParty b \<noteq> [] \<and> dbParty b \<noteq> dbCreator b \<and> dbParty b \<noteq> dbBeneficiary b then (Inl OnlyParty, g)
      else
        let book = (if bkRoster (gwBook g) = [] \<and> dbBonded b \<noteq> [] then SetRoster (apFlush w) (dbBonded b) (gwBook g) else gwBook g)
        in case OpenAppeal (apFlush w) (dbTerms b) (dbOpenBlock b) (dbEscrowID b) (dbBonded b)
                  [dbCreator b, dbBeneficiary b, dbNode b] (dbPriorResult b) book of
             (Inl e, book1) \<Rightarrow> (Inl (DealRefused e), g\<lparr>gwBook := book1\<rparr>)
           | (Inr brief, book1) \<Rightarrow> (Inr brief, g\<lparr>gwBook := book1\<rparr>))"

subsection \<open>Contact handlers\<close>

definition verifyContactPricingOwnership ::
  "'c api_world \<Rightarrow> string \<Rightarrow> string \<Rightarrow> string \<Rightarrow> string \<Rightarrow> string \<Rightarrow> api_error + string" where
  "verifyContactPricingOwnership w address0 signature mnemonic alphanumeric pubMain =
     (let address = TrimSpace address0
      in if address = [] then Inl ActorRequired
         else case RejectClientOwnedProof signature of
             Some e \<Rightarrow> Inl (OwnerRefused e)
           | None \<Rightarrow>
               (if mnemonic \<noteq> [] \<and> alphanumeric \<noteq> []
                then (case apCore w of
                        None \<Rightarrow> Inl NoCore
                      | Some core \<Rightarrow>
                          (case ckKeys core mnemonic alphanumeric of
                             None \<Rightarrow> Inl KeysFailed
                           | Some pk \<Rightarrow>
                               (case ResolveAuthenticatedOwner address pk of
                                  Inl e \<Rightarrow> Inl (OwnerRefused e)
                                | Inr verified \<Rightarrow>
                                    (case MintOwnedProof verified of
                                       Inl e \<Rightarrow> Inl (OwnerRefused e)
                                     | Inr _ \<Rightarrow> Inr verified))))
                else case (if HasPrefix signature ''sig-core:'' then apCore w else None) of
                    None \<Rightarrow> Inl ProofRequired
                  | Some core \<Rightarrow>
                      (let pub = (if pubMain = [] then address else pubMain)
                       in case ckVerify core [(''type'', ''contact_pricing''), (''address'', address)]
                                 (TrimPrefix signature ''sig-core:'') pub of
                            None \<Rightarrow> Inl SignatureCheck
                          | Some False \<Rightarrow> Inl SignatureInvalid
                          | Some True \<Rightarrow>
                              (case ResolveAuthenticatedOwner address pub of
                                 Inl e \<Rightarrow> Inl (OwnerRefused e)
                               | Inr verified \<Rightarrow> Inr verified))))"

definition SetContactPricing ::
  "'c api_world \<Rightarrow> PricingAnnounce \<Rightarrow> string \<Rightarrow> string \<Rightarrow> string \<Rightarrow> 'c gateway \<Rightarrow> (api_error + PricingAnnounce) \<times> 'c gateway" where
  "SetContactPricing w p mnemonic alphanumeric pubMain g =
     (case gwContacts g of
        None \<Rightarrow> (Inl ContactsUnavailable, g)
      | Some s \<Rightarrow>
          (case verifyContactPricingOwnership w (paAddress p) (paSignature p) mnemonic alphanumeric pubMain of
             Inl e \<Rightarrow> (Inl e, g)
           | Inr verified \<Rightarrow>
               (case SetPricing (apContactWrite w) (apNow w) (p\<lparr>paAddress := verified\<rparr>) s of
                  (Inl e, s1) \<Rightarrow> (Inl (ContactRefused e), g\<lparr>gwContacts := Some s1\<rparr>)
                | (Inr q, s1) \<Rightarrow> (Inr q, g\<lparr>gwContacts := Some s1\<rparr>))))"

text \<open>\<open>verifyEscrowLockTx\<close>; reading a transaction may bring it into the index. An empty sender, a zero amount or an
  empty escrow identifier on either side is not compared.\<close>

definition find_lock :: "rocks \<Rightarrow> string \<Rightarrow> 'c Blockchain \<Rightarrow> Transaction option \<times> 'c Blockchain" where
  "find_lock rx hash bc =
     (case GetTransaction rx bc hash of
        (Some tx, bc1) \<Rightarrow> (Some tx, bc1)
      | (None, bc1) \<Rightarrow> (find (\<lambda>m. EqualFold (txHash m) hash) (GetMempool bc1), bc1))"

definition lock_matches :: "Transaction \<Rightarrow> string \<Rightarrow> u64 \<Rightarrow> string \<Rightarrow> api_error option" where
  "lock_matches tx sender amountUplp escrowID =
     (let kind = ToLower (txType tx); eid = (if txEscrowID tx = [] then txRequestIDHash tx else txEscrowID tx)
      in if kind \<noteq> TxKindLock \<and> kind \<noteq> ''contact_escrow_lock'' then Some NotLock
         else if sender \<noteq> [] \<and> \<not> EqualFold (txFrom tx) sender then Some LockFrom
         else if amountUplp > 0 \<and> txAmountUplp tx \<noteq> 0 \<and> txAmountUplp tx \<noteq> amountUplp then Some LockAmount
         else if escrowID \<noteq> [] \<and> eid \<noteq> [] \<and> \<not> EqualFold eid escrowID then Some LockEscrow
         else None)"

definition verifyEscrowLockTx ::
  "rocks \<Rightarrow> string \<Rightarrow> string \<Rightarrow> u64 \<Rightarrow> string \<Rightarrow> 'c Blockchain \<Rightarrow> api_error option \<times> 'c Blockchain" where
  "verifyEscrowLockTx rx lockTxHash sender amountUplp escrowID bc =
     (let hash = TrimSpace lockTxHash
      in if hash = [] then (Some LockHashRequired, bc)
         else case find_lock rx hash bc of
             (None, bc1) \<Rightarrow> (Some LockNotFound, bc1)
           | (Some tx, bc1) \<Rightarrow> (lock_matches tx sender amountUplp escrowID, bc1))"

definition CreateContactRequest ::
  "'c api_world \<Rightarrow> ContactRequest \<Rightarrow> 'c gateway \<Rightarrow> (api_error + ContactRequest) \<times> 'c gateway" where
  "CreateContactRequest w req g0 =
     (let (ok, g) = rate_ok w ''contact_request'' g0
      in if \<not> ok then (Inl RateLimited, g)
         else case gwContacts g of
             None \<Rightarrow> (Inl ContactsUnavailable, g)
           | Some s \<Rightarrow>
               (case verifyEscrowLockTx (apReads w) (crLockTxHash req) (crSender req) (crAmountUplp req)
                       (RequestIDHash (crRequestID req)) (adChain (gwAdm g)) of
                  (Some e, bc) \<Rightarrow> (Inl e, g\<lparr>gwAdm := (gwAdm g)\<lparr>adChain := bc\<rparr>\<rparr>)
                | (None, bc) \<Rightarrow>
                    (case CreateRequest (apContactWrite w) (apNow w) (apContactMid w) req s of
                       (r, s1) \<Rightarrow>
                         (case r of Inl e \<Rightarrow> Inl (ContactRefused e) | Inr q \<Rightarrow> Inr q,
                          g\<lparr>gwAdm := (gwAdm g)\<lparr>adChain := bc\<rparr>, gwContacts := Some s1\<rparr>))))"

definition verifyContactRespondOwnership ::
  "'c api_world \<Rightarrow> string \<Rightarrow> string \<Rightarrow> string \<Rightarrow> string \<Rightarrow> string \<Rightarrow> string \<Rightarrow> string \<Rightarrow> api_error + string \<times> string" where
  "verifyContactRespondOwnership w actor0 requestID outcome signature mnemonic alphanumeric pubMain =
     (let actor = TrimSpace actor0
      in if actor = [] then Inl ActorRequired
         else case RejectClientOwnedProof signature of
             Some e \<Rightarrow> Inl (OwnerRefused e)
           | None \<Rightarrow>
               (if mnemonic \<noteq> [] \<and> alphanumeric \<noteq> []
                then (case apCore w of
                        None \<Rightarrow> Inl NoCore
                      | Some core \<Rightarrow>
                          (case ckKeys core mnemonic alphanumeric of
                             None \<Rightarrow> Inl KeysFailed
                           | Some pk \<Rightarrow>
                               (case MintOwnedProofAfterResolve actor pk of
                                  Inl e \<Rightarrow> Inl (OwnerRefused e)
                                | Inr proof \<Rightarrow>
                                    (case ResolveAuthenticatedOwner actor pk of
                                       Inl e \<Rightarrow> Inl (OwnerRefused e)
                                     | Inr verified \<Rightarrow> Inr (verified, proof)))))
                else case (if HasPrefix signature ''sig-core:'' then apCore w else None) of
                    None \<Rightarrow> Inl ProofRequired
                  | Some core \<Rightarrow>
                      (let pub = (if pubMain = [] then actor else pubMain)
                       in case ckVerify core [(''type'', ''contact_respond''), (''requestId'', requestID), (''outcome'', outcome),
                                 (''actor'', actor)] (TrimPrefix signature ''sig-core:'') pub of
                            None \<Rightarrow> Inl SignatureCheck
                          | Some False \<Rightarrow> Inl SignatureInvalid
                          | Some True \<Rightarrow>
                              (case ResolveAuthenticatedOwner actor pub of
                                 Inl e \<Rightarrow> Inl (OwnerRefused e)
                               | Inr verified \<Rightarrow> Inr (verified, signature)))))"

record respond_body =
  rbRequestID :: string
  rbActor :: string
  rbOutcome :: string
  rbSignature :: string
  rbMnemonic :: string
  rbAlphanumeric :: string
  rbPubMain :: string

definition award_xp :: "bool \<Rightarrow> string \<Rightarrow> string \<Rightarrow> ContactRequest \<Rightarrow> contact_store \<Rightarrow> contact_store" where
  "award_xp ok outcome actor req s =
     (if outcome = OutcomeAccepted then AddXP ok (crSender req) 10 (AddXP ok actor 25 s)
      else if outcome = OutcomeRejected then AddXP ok actor 1 s else s)"

definition RespondContactRequest ::
  "'c api_world \<Rightarrow> respond_body \<Rightarrow> 'c gateway \<Rightarrow> (api_error + ContactRequest \<times> SettleIntent) \<times> 'c gateway" where
  "RespondContactRequest w b g0 =
     (let (ok, g) = rate_ok w ''contact_respond'' g0
      in if \<not> ok then (Inl RateLimited, g)
         else case gwContacts g of
             None \<Rightarrow> (Inl ContactsUnavailable, g)
           | Some s \<Rightarrow>
               (case verifyContactRespondOwnership w (rbActor b) (rbRequestID b) (rbOutcome b) (rbSignature b) (rbMnemonic b)
                       (rbAlphanumeric b) (rbPubMain b) of
                  Inl e \<Rightarrow> (Inl e, g)
                | Inr (verified, proof) \<Rightarrow>
                    (case Respond (apContactWrite w) (apNow w) (rbRequestID b) verified (rbOutcome b) proof s of
                       (Inl e, s1) \<Rightarrow> (Inl (ContactRefused e), g\<lparr>gwContacts := Some s1\<rparr>)
                     | (Inr req, s1) \<Rightarrow>
                         (Inr (req, ContactSettleFromRequest req []),
                          g\<lparr>gwContacts := Some (award_xp (apContactWrite w) (rbOutcome b) verified req s1)\<rparr>))))"

subsection \<open>Core-signed transactions\<close>

text \<open>\<open>mapToTx\<close> on the decoded transaction (\<open>None\<close>: the map does not decode).\<close>

definition mapToTx :: "Transaction option \<Rightarrow> Transaction option" where
  "mapToTx m = (case m of None \<Rightarrow> None | Some tx \<Rightarrow> if txHash tx = [] then None else Some tx)"

definition signed_defaults :: "int \<Rightarrow> Transaction \<Rightarrow> Transaction" where
  "signed_defaults now tx =
     tx\<lparr>txTimestamp := (if txTimestamp tx = 0 then now else txTimestamp tx),
        txType := (if txType tx = [] then ''transfer'' else txType tx),
        txAssetType := (if txAssetType tx = [] then ''native'' else txAssetType tx),
        txAsset := (if txAsset tx = [] then ''PLP'' else txAsset tx)\<rparr>"

definition signed_texts :: "Transaction \<Rightarrow> Transaction" where
  "signed_texts tx =
     tx\<lparr>txValue := (if txValue tx = [] \<and> txAmountUplp tx > 0 then FormatUint (txAmountUplp tx) else txValue tx),
        txFee := (if txFee tx = [] \<and> txFeeUplp tx > 0 then FormatUint (txFeeUplp tx) else txFee tx)\<rparr>"

text \<open>\<open>submitCoreSignedTx\<close> after the amount field has been read as an integer.\<close>

definition submitCoreSignedTx :: "'c api_world \<Rightarrow> Transaction option \<Rightarrow> 'c gateway \<Rightarrow> (api_error + Transaction) \<times> 'c gateway" where
  "submitCoreSignedTx w m g =
     (if gwTestnet g \<and> \<not> ledger (adChain (gwAdm g)) then (Inl LedgerMissing, g)
      else case mapToTx m of
          None \<Rightarrow> (Inl InvalidSigned, g)
        | Some raw \<Rightarrow>
            (if txAmountUplp raw = 0 then (Inl ZeroAmount, g)
             else
               let tx = signed_defaults (apNow w) raw
               in if IsNonTransferableAsset (txAsset tx) then (Inl XPFrozen, g)
                  else case requireDealGuarantor g tx of
                      Some e \<Rightarrow> (Inl e, g)
                    | None \<Rightarrow> signedDealAdmit w (signed_texts tx) g))"

definition onMempoolAdd :: "'c api_world \<Rightarrow> Transaction option \<Rightarrow> 'c gateway \<Rightarrow> 'c gateway" where
  "onMempoolAdd w m g = (case mapToTx m of None \<Rightarrow> g | Some tx \<Rightarrow> snd (admit w tx g))"

subsection \<open>What admission leaves behind\<close>

lemma admit_success:
  assumes "admitToMempool aw mid (Some tx) st = (None, st')"
  shows "validateTxForMempool aw (adChain st) (Some tx) = None"
    and "txHash tx \<in> confirmedHashes (adChain st') \<union> txHash ` set (inflight (adChain st'))"
proof -
  show v: "validateTxForMempool aw (adChain st) (Some tx) = None"
    using assms by (simp add: admitToMempool_def split: option.splits)
  obtain r bc where ix: "indexMempoolAdmission aw (adChain (mid st)) tx = (r, bc)" by force
  then have r: "r = None" and st': "adChain st' = bc"
    using assms v by (auto simp: admitToMempool_def clearReservedNonceLocked_def Let_def split: option.splits)
  note ok = index_success [OF ix [unfolded r]]
  have "confirmedHashes bc = confirmedHashes (adChain (mid st))" "inflight bc = inflight (snd (AddToMempool (adChain (mid st)) tx))"
    using ok by (simp_all add: AddToMempool_snd)
  then show "txHash tx \<in> confirmedHashes (adChain st') \<union> txHash ` set (inflight (adChain st'))"
    using AddToMempool_accepted [OF ok(7)] st' by auto
qed

definition accepted_by_core :: "'c api_world \<Rightarrow> Transaction \<Rightarrow> 'c gateway \<Rightarrow> 'c gateway \<Rightarrow> bool" where
  "accepted_by_core w tx g g' \<longleftrightarrow>
     validateTxForMempool (apAdmit w) (adChain (gwAdm g)) (Some tx) = None
     \<and> txHash tx \<in> confirmedHashes (adChain (gwAdm g')) \<union> txHash ` set (inflight (adChain (gwAdm g')))"

lemma admit_accepted: "admit w tx g = (None, g') \<Longrightarrow> accepted_by_core w tx g g'"
  using admit_success [of "apAdmit w" "apMid w" tx "gwAdm g"]
  by (auto simp: admit_def accepted_by_core_def split: prod.splits)

lemma signedDealAdmit_accepted:
  assumes "signedDealAdmit w tx g = (Inr tx', g')"
  shows "tx' = tx" and "accepted_by_core w tx g g'"
proof -
  obtain r g1 where a: "admit w tx g = (r, g1)" by force
  then have "r = None \<and> tx' = tx \<and> g' = g1" using assms by (auto simp: signedDealAdmit_def split: option.splits)
  then show "tx' = tx" and "accepted_by_core w tx g g'" using admit_accepted a by auto
qed

subsection \<open>Deals\<close>

lemma parsed_fields:
  assumes "parseSignedEscrowTx now js = Inr tx"
  shows "\<exists>c. js = Some c \<and> txHash tx = sgHash c \<and> txType tx = sgTxKind c \<and> txPurpose tx = sgPurpose c \<and> txAsset tx = sgAsset c
           \<and> txSettleNode tx = sgSettleNode c \<and> txSettleOutcomeKey tx = sgSettleOutcomeKey c \<and> txEscrowID tx \<noteq> []"
  using assms by (auto simp: parseSignedEscrowTx_def Let_def split: option.splits if_splits)

lemma guarantor_named:
  assumes "requireDealGuarantor g tx = None" "txPurpose tx = PurposeDeal" "txType tx = TxKindLock"
  shows "TrimSpace (gwWallet g) \<noteq> [] \<and> EqualFold (TrimSpace (txSettleNode tx)) (TrimSpace (gwWallet g))"
  using assms by (auto simp: requireDealGuarantor_def split: if_splits)

lemma signed_texts_fields [simp]:
  "txPurpose (signed_texts tx) = txPurpose tx" "txType (signed_texts tx) = txType tx" "txAsset (signed_texts tx) = txAsset tx"
  "txSettleNode (signed_texts tx) = txSettleNode tx" "txHash (signed_texts tx) = txHash tx"
  by (simp_all add: signed_texts_def)

text \<open>Remark: A deal lock that \<open>SubmitDealLock\<close> or \<open>submitCoreSignedTx\<close> answers with success names this node's own wallet as
  guarantor, was accepted by Core against the state of that moment, and is in flight or confirmed; a node without a
  wallet admits none.\<close>

theorem deal_lock_names_guarantor:
  assumes "SubmitDealLock w b g = (Inr tx, g') \<or> submitCoreSignedTx w m g = (Inr tx, g')"
    and "txPurpose tx = PurposeDeal" and "txType tx = TxKindLock"
  shows "TrimSpace (gwWallet g) \<noteq> [] \<and> EqualFold (TrimSpace (txSettleNode tx)) (TrimSpace (gwWallet g))
         \<and> accepted_by_core w tx g g'"
  using assms(1)
proof
  assume *: "SubmitDealLock w b g = (Inr tx, g')"
  then obtain raw where raw: "requireDealGuarantor g raw = None" "signedDealAdmit w raw g = (Inr tx, g')"
    by (auto simp: SubmitDealLock_def split: if_splits sum.splits option.splits)
  then show ?thesis using guarantor_named [of g raw] signedDealAdmit_accepted [OF raw(2)] assms(2,3) by simp
next
  assume *: "submitCoreSignedTx w m g = (Inr tx, g')"
  then obtain raw where raw: "requireDealGuarantor g raw = None" "signedDealAdmit w (signed_texts raw) g = (Inr tx, g')"
    by (auto simp: submitCoreSignedTx_def Let_def split: if_splits sum.splits option.splits)
  then show ?thesis using guarantor_named [of g raw] signedDealAdmit_accepted [OF raw(2)] assms(2,3) by simp
qed

text \<open>C18: A dispute settlement is admitted only for a case whose panel has closed: the case is frozen or past its
  deadline, and at least three of its five panel members revealed, against their own commits, the verdict whose
  outcome the signed transaction carries.\<close>

theorem dispute_settle_needs_quorum:
  assumes "book_ok (gwBook g)" and "SubmitDealDisputeSettle w b g = (Inr tx, g')"
  shows "txType tx = TxKindSettle \<and> txPurpose tx = PurposeDeal \<and> accepted_by_core w tx g g'
         \<and> (\<exists>c v. map_of (bkCases (gwBook g)) (sdCaseID b) = Some c \<and> (csFrozen c \<or> csDeadline c < bkHeight (gwBook g))
              \<and> txSettleOutcomeKey tx = coreOutcome v
              \<and> 3 \<le> card {m \<in> set (csPanel c). map_of (csReveals c) m = Some v
                             \<and> (\<exists>nonce. map_of (csCommits c) m = Some (HashCommit v nonce))})"
proof -
  from assms(2) obtain t book where t: "txType t = TxKindSettle" "txPurpose t = PurposeDeal"
      "dispute_check b t (gwBook g) = (None, book)" "signedDealAdmit w t (g\<lparr>gwBook := book\<rparr>) = (Inr tx, g')"
    by (auto simp: SubmitDealDisputeSettle_def admitDealSettle_def split: if_splits sum.splits option.splits prod.splits)
  have eq: "tx = t" and acc: "accepted_by_core w t g g'"
    using signedDealAdmit_accepted [OF t(4)] by (simp_all add: accepted_by_core_def)
  from t(3) have q: "fst (Quorum (sdCaseID b) (gwBook g)) = Some (txSettleOutcomeKey t)"
    by (auto simp: dispute_check_def split: option.splits prod.splits if_splits)
  then obtain c where c: "map_of (bkCases (gwBook g)) (sdCaseID b) = Some c"
    by (cases "map_of (bkCases (gwBook g)) (sdCaseID b)") (auto simp: Quorum_def)
  from q Quorum_iff_votes [OF assms(1) c] obtain v where "csFrozen c \<or> csDeadline c < bkHeight (gwBook g)"
      "txSettleOutcomeKey t = coreOutcome v" "3 \<le> votes_for v (csReveals c)" by blast
  then show ?thesis
    using eq acc t(1,2) c votes_panel [OF book_okD [OF assms(1) c], of v] by auto
qed

subsection \<open>Nonces of failed submissions\<close>

lemma allocate_chain [simp]: "adChain (snd (allocateNonceLocked query rocks a st)) = adChain st"
  by (simp add: allocateNonceLocked_def Let_def split: option.split sum.split)

lemma admit_refused:
  assumes "admitToMempool aw (\<lambda>a. a) (Some tx) st = (Some e, st')"
  shows "st' = st"
  using assms index_error [of aw "adChain st" tx]
  by (auto simp: admitToMempool_def Let_def split: option.splits prod.splits)

definition same_reservations :: "'c gateway \<Rightarrow> 'c gateway \<Rightarrow> bool" where
  "same_reservations g g' \<longleftrightarrow>
     adChain (gwAdm g') = adChain (gwAdm g) \<and> reserved_of (gwAdm g') = reserved_of (gwAdm g)"

lemma released_again:
  assumes "fst (allocateNonceLocked query rocks a st) = Inr (n, acct)" and "uint n < 2 ^ 63"
  defines "st1 \<equiv> snd (allocateNonceLocked query rocks a st)"
  shows "adChain (releaseNonceForAddress a (sint n) st1) = adChain st"
    and "reserved_of (releaseNonceForAddress a (sint n) st1) = reserved_of st"
proof -
  have sint: "sint n = uint n" using assms(2) by (rule sint_small)
  have res: "reserved_of st1 b = (if b = a then insert n (reserved_of st a) else reserved_of st b)" for b
    unfolding st1_def by (rule allocate_Inr(2) [OF assms(1)])
  have free: "n \<notin> reserved_of st a" "\<not> HasInFlightNonce (adChain st) a (sint n)"
    using allocate_Inr(1) [OF assms(1)] by (simp_all add: nonce_taken_def)
  have "map_of (adReserved st1) a \<noteq> None"
    using res [of a] by (auto simp: reserved_of_def split: option.splits)
  then have rel: "releaseNonceForAddress a (sint n) st1 = st1\<lparr>adReserved := drop_reserved a n (adReserved st1)\<rparr>"
    using free res [of a] sint by (auto simp: releaseNonceForAddress_def releaseNonceLocked_def st1_def)
  show "adChain (releaseNonceForAddress a (sint n) st1) = adChain st" unfolding rel by (simp add: st1_def)
  show "reserved_of (releaseNonceForAddress a (sint n) st1) = reserved_of st"
    unfolding rel fun_eq_iff reserved_of_drop using free(1) by (simp add: res)
qed

lemma chosen_then_released:
  assumes "\<forall>a q. GetAccountQuery True (apQuery w) (apRocks w) a = Some q \<longrightarrow> uint (aqNonce q) < 2 ^ 62"
    and "choose_nonce w fr None g = (Some n, g1)"
  shows "same_reservations g (release fr n g1)" and "adChain (gwAdm g1) = adChain (gwAdm g)"
proof -
  let ?al = "allocateNonceLocked (apQuery w) (apRocks w) fr (gwAdm g)"
  obtain m acct where al: "fst ?al = Inr (m, acct)" and n: "n = sint m" and g1: "g1 = g\<lparr>gwAdm := snd ?al\<rparr>"
    using assms(2)
    by (auto simp: choose_nonce_def allocateNonceForAddress_def Let_def split: prod.splits if_splits sum.splits)
  obtain q where "GetAccountQuery True (apQuery w) (apRocks w) fr = Some q" and "m \<le> aqNonce q + maxNonceReserveAhead"
    using al nonce_scan_Inr
    by (fastforce simp: allocateNonceLocked_def Let_def split: if_splits option.splits sum.splits)
  then have "uint m \<le> uint (aqNonce q + 256)" and "uint (aqNonce q) < 2 ^ 62"
    using assms(1) by (simp_all add: maxNonceReserveAhead_def word_le_def)
  then have "uint m < 2 ^ 63" by (simp add: uint_word_ariths)
  from released_again [OF al this] show "same_reservations g (release fr n g1)"
    by (simp add: same_reservations_def release_def g1 n)
  show "adChain (gwAdm g1) = adChain (gwAdm g)" by (simp add: g1)
qed

lemma sign_submit_refused:
  assumes "apMid w = (\<lambda>a. a)" and "sign_submit w core args n g = (Inl e, g')"
  shows "g' = release (saFrom args) n g"
proof -
  have "g1 = g" if "admit w tx g = (Some e', g1)" for tx e' g1
    using that admit_refused [of "apAdmit w" tx "gwAdm g"] by (auto simp: admit_def assms(1) split: prod.splits)
  then show ?thesis
    using assms(2) by (auto simp: sign_submit_def split: option.splits sum.splits prod.splits)
qed

lemma submit_refused:
  assumes "apMid w = (\<lambda>a. a)" and "ebNonce b = None" and "\<forall>fr n. saFrom (args fr n) = fr"
    and "\<forall>a q. GetAccountQuery True (apQuery w) (apRocks w) a = Some q \<longrightarrow> uint (aqNonce q) < 2 ^ 62"
    and "submit_escrow w args b g = (Inl e, g')"
  shows "same_reservations g g'"
proof -
  have refl: "same_reservations g g" by (simp add: same_reservations_def)
  have none: "same_reservations g g1" if "choose_nonce w fr None g = (None, g1)" for fr g1
  proof -
    obtain r st where al: "allocateNonceLocked (apQuery w) (apRocks w) fr (gwAdm g) = (r, st)" by force
    have "adChain st = adChain (gwAdm g)" using allocate_chain [of "apQuery w" "apRocks w" fr "gwAdm g"] by (simp only: al snd_conv)
    moreover have "reserved_of st = reserved_of (gwAdm g)" if "r = Inl e" for e
      using allocate_Inl [of "apQuery w" "apRocks w" fr "gwAdm g" e] al that by (simp add: fun_eq_iff)
    ultimately show ?thesis
      using that al
      by (auto simp: choose_nonce_def allocateNonceForAddress_def same_reservations_def Let_def split: if_splits sum.splits)
  qed
  have some: "same_reservations g g2"
    if "choose_nonce w fr None g = (Some n, g1)" "sign_submit w core (args fr n) n g1 = (Inl e, g2)" for fr n g1 core g2
    using sign_submit_refused [OF assms(1) that(2)] chosen_then_released(1) [OF assms(4) that(1)] assms(3) by simp
  show ?thesis
    using assms(2,5) refl none some by (auto simp: submit_escrow_def split: option.splits prod.splits)
qed

lemma rate_ok_frame: "rate_ok w action g = (ok, g1) \<Longrightarrow> gwAdm g1 = gwAdm g"
  by (auto simp: rate_ok_def split: prod.splits)

text \<open>C19: A refused escrow lock or settlement leaves no trace in the mempool and keeps no nonce: when no other request
  runs meanwhile and the handler chose the nonce itself, the chain and every address's reservations are as before,
  whatever failed: the rate limit, the fields, the key derivation, the signer, the parser or Core's admission. Account
  nonces are below \<open>2 ^ 62\<close>.\<close>

theorem refused_submit_keeps_no_nonce:
  assumes "apMid w = (\<lambda>a. a)" and "ebNonce b = None"
    and "\<forall>a q. GetAccountQuery True (apQuery w) (apRocks w) a = Some q \<longrightarrow> uint (aqNonce q) < 2 ^ 62"
    and "SubmitEscrowLock w b g = (Inl e, g') \<or> SubmitEscrowSettle w b g = (Inl e, g')"
  shows "same_reservations g g'"
  using assms(4)
proof
  assume *: "SubmitEscrowLock w b g = (Inl e, g')"
  obtain ok g1 where r: "rate_ok w ''escrow_lock'' g = (ok, g1)" by force
  have "same_reservations g1 g'"
    using * r submit_refused [OF assms(1,2) _ assms(3), of "lock_args w b"]
    by (auto simp: SubmitEscrowLock_def lock_args_def same_reservations_def Let_def split: if_splits)
  then show ?thesis using rate_ok_frame [OF r] by (simp add: same_reservations_def)
next
  assume *: "SubmitEscrowSettle w b g = (Inl e, g')"
  obtain ok g1 where r: "rate_ok w ''escrow_settle'' g = (ok, g1)" by force
  have "same_reservations g1 g'"
    using * r submit_refused [OF assms(1,2) _ assms(3), of "settle_args b"]
    by (auto simp: SubmitEscrowSettle_def settle_args_def same_reservations_def Let_def split: if_splits prod.splits sum.splits)
  then show ?thesis using rate_ok_frame [OF r] by (simp add: same_reservations_def)
qed

subsection \<open>Contacts\<close>

definition respond_message :: "respond_body \<Rightarrow> (string \<times> string) list" where
  "respond_message b =
     [(''type'', ''contact_respond''), (''requestId'', rbRequestID b), (''outcome'', rbOutcome b), (''actor'', TrimSpace (rbActor b))]"

lemma resolved_owner: "ResolveAuthenticatedOwner c auth = Inr v \<Longrightarrow> v = TrimSpace auth"
  by (auto simp: ResolveAuthenticatedOwner_def Let_def split: if_splits)

lemma respond_owner:
  assumes "verifyContactRespondOwnership w (rbActor b) (rbRequestID b) (rbOutcome b) (rbSignature b) (rbMnemonic b)
             (rbAlphanumeric b) (rbPubMain b) = Inr (verified, pr)"
  shows "\<exists>core pub. apCore w = Some core \<and> verified = TrimSpace pub
           \<and> (ckKeys core (rbMnemonic b) (rbAlphanumeric b) = Some pub
              \<or> ckVerify core (respond_message b) (TrimPrefix (rbSignature b) ''sig-core:'') pub = Some True)"
  using assms resolved_owner
  by (auto simp: verifyContactRespondOwnership_def respond_message_def Let_def
      split: if_splits option.splits sum.splits bool.splits)

lemma Respond_success:
  assumes "Respond ok now rid actor outcome sig s = (Inr q, s')"
  shows "\<exists>r. GetRequest s rid = Some r \<and> crStatus r = StatusPending \<and> EqualFold (crReceiver r) (normalize actor)
           \<and> now \<le> crExpiresAt r \<and> (outcome = OutcomeAccepted \<or> outcome = OutcomeRejected)"
  using assms
  by (auto simp: Respond_def GetRequest_def Let_def simp del: map_of_eq_Some_iff split: option.splits if_splits prod.splits)

text \<open>Remark: A contact request is answered over HTTP only by its receiver: a successful \<open>RespondContactRequest\<close> finds the
  request pending and not past its expiry, and Core either derived the receiver's address from the caller's secret or
  verified a signature under the receiver's key over the request's identifier, the outcome and the actor.\<close>

theorem respond_needs_receiver_wallet:
  assumes "RespondContactRequest w b g = (Inr (q, intent), g')"
  shows "\<exists>s core r pub. gwContacts g = Some s \<and> apCore w = Some core \<and> GetRequest s (rbRequestID b) = Some r
           \<and> crStatus r = StatusPending \<and> apNow w \<le> crExpiresAt r \<and> EqualFold (crReceiver r) (TrimSpace pub)
           \<and> (ckKeys core (rbMnemonic b) (rbAlphanumeric b) = Some pub
              \<or> ckVerify core (respond_message b) (TrimPrefix (rbSignature b) ''sig-core:'') pub = Some True)"
proof -
  obtain ok g1 where r: "rate_ok w ''contact_respond'' g = (ok, g1)" by force
  then have g1: "gwContacts g1 = gwContacts g" by (auto simp: rate_ok_def split: prod.splits)
  from assms r obtain s verified pr s1 where s: "gwContacts g1 = Some s"
      and own: "verifyContactRespondOwnership w (rbActor b) (rbRequestID b) (rbOutcome b) (rbSignature b) (rbMnemonic b)
             (rbAlphanumeric b) (rbPubMain b) = Inr (verified, pr)"
      and res: "Respond (apContactWrite w) (apNow w) (rbRequestID b) verified (rbOutcome b) pr s = (Inr q, s1)"
    by (auto simp: RespondContactRequest_def Let_def split: if_splits option.splits sum.splits prod.splits)
  from respond_owner [OF own] obtain core pub where o: "apCore w = Some core" "verified = TrimSpace pub"
      "ckKeys core (rbMnemonic b) (rbAlphanumeric b) = Some pub
       \<or> ckVerify core (respond_message b) (TrimPrefix (rbSignature b) ''sig-core:'') pub = Some True" by blast
  from Respond_success [OF res] obtain r where "GetRequest s (rbRequestID b) = Some r" "crStatus r = StatusPending"
      "EqualFold (crReceiver r) (normalize verified)" "apNow w \<le> crExpiresAt r" by blast
  then show ?thesis using o s g1 by (simp add: normalize_def) blast
qed

lemma sha_block_nonempty: "hs \<noteq> [] \<Longrightarrow> sha_block hs b \<noteq> []"
  unfolding sha_block_def Let_def by (auto split: prod.split simp: zip_eq_Nil_iff)

lemma sha_blocks_nonempty: "hs \<noteq> [] \<Longrightarrow> foldl sha_block hs bs \<noteq> []"
  by (induction bs arbitrary: hs) (simp_all add: sha_block_nonempty)

lemma RequestIDHash_nonempty: "RequestIDHash rid \<noteq> []"
proof -
  have "(2 :: int) \<in> set first_primes" unfolding first_primes_def set_filter set_upto by auto
  then have "sha_H0 \<noteq> []" by (auto simp: sha_H0_def)
  then obtain h hs where "foldl sha_block sha_H0 (chunks 64 (sha_pad (bytes_of rid))) = h # hs"
    using sha_blocks_nonempty by (metis list.exhaust)
  then have "Sum256 (bytes_of rid) \<noteq> []" unfolding Sum256_def by (simp add: be32_def)
  then have "0 < length (EncodeToString (Sum256 (bytes_of rid)))" by simp
  then show ?thesis unfolding RequestIDHash_def sha256_hex_def by (rule length_greater_0_conv [THEN iffD1])
qed

text \<open>Remark: A contact request is stored only if a lock transaction is found on the chain or in the mempool that is an
  escrow lock from the request's sender; its amount is the request's unless the transaction carries none, and its
  escrow identifier is the request's hash unless the transaction carries none. The stored request is pending, under
  its own identifier, and keeps the hash of the lock.\<close>

theorem contact_request_needs_lock:
  assumes "CreateContactRequest w req g = (Inr q, g')"
  shows "\<exists>tx bc. find_lock (apReads w) (TrimSpace (crLockTxHash req)) (adChain (gwAdm g)) = (Some tx, bc)
           \<and> (ToLower (txType tx) = TxKindLock \<or> ToLower (txType tx) = ''contact_escrow_lock'')
           \<and> EqualFold (txFrom tx) (crSender req) \<and> (txAmountUplp tx = 0 \<or> txAmountUplp tx = crAmountUplp req)
           \<and> (let eid = (if txEscrowID tx = [] then txRequestIDHash tx else txEscrowID tx)
              in eid = [] \<or> EqualFold eid (RequestIDHash (crRequestID req)))
           \<and> crStatus q = StatusPending \<and> request_ok (crRequestID req) q \<and> crLockTxHash q = crLockTxHash req"
proof -
  obtain ok g1 where r: "rate_ok w ''contact_request'' g = (ok, g1)" by force
  then have g1: "gwContacts g1 = gwContacts g" "gwAdm g1 = gwAdm g" by (auto simp: rate_ok_def split: prod.splits)
  let ?ver = "verifyEscrowLockTx (apReads w) (crLockTxHash req) (crSender req) (crAmountUplp req)
                       (RequestIDHash (crRequestID req)) (adChain (gwAdm g))"
  from assms r g1 obtain s s1 bc where v: "?ver = (None, bc)"
      and c: "CreateRequest (apContactWrite w) (apNow w) (apContactMid w) req s = (Inr q, s1)"
    by (auto simp: CreateContactRequest_def Let_def split: if_splits option.splits sum.splits prod.splits)
  from c obtain p where p: "create_checked (apNow w) req s = Inr p" "fst (create_locked (apContactWrite w) p (apContactMid w s)) = Inr q"
    by (auto simp: CreateRequest_def split: sum.splits)
  have q: "q = p" using p(2) by (auto simp: create_locked_def Let_def split: if_splits prod.splits)
  have fields: "crSender req \<noteq> []" "crAmountUplp req \<noteq> 0" "crLockTxHash p = crLockTxHash req"
    using p(1) by (auto simp: create_checked_def request_fields_def normalize_def TrimSpace_def Let_def split: if_splits option.splits)
  from v obtain tx where "find_lock (apReads w) (TrimSpace (crLockTxHash req)) (adChain (gwAdm g)) = (Some tx, bc)"
      "lock_matches tx (crSender req) (crAmountUplp req) (RequestIDHash (crRequestID req)) = None"
    by (auto simp: verifyEscrowLockTx_def Let_def split: if_splits option.splits prod.splits)
  moreover have "crAmountUplp req > 0" using fields(2) by (simp add: word_neq_0_conv)
  ultimately show ?thesis
    using fields q create_checked_ok [OF p(1)] RequestIDHash_nonempty
    by (auto simp: lock_matches_def Let_def split: if_splits)
qed

subsection \<open>Instances\<close>

definition demo_signed :: "string \<Rightarrow> string \<Rightarrow> string \<Rightarrow> string \<Rightarrow> core_signed" where
  "demo_signed kind purpose node outcome =
     \<lparr>sgHash = ''h1'', sgFrom = ''PxA'', sgTo = ''PxB'', sgAsset = ''PLP'', sgAmount = 5, sgFeeUplp = 1, sgNonce = 4,
      sgSigMain = ''s'', sgSigDerived = ''d'', sgPubMain = ''p'', sgPubDerived = ''q'', sgReads = [], sgWrites = [],
      sgTxKind = kind, sgEscrowID = ''esc1'', sgRequestIDHash = [], sgPurpose = purpose, sgExpiresAt = 0,
      sgSettleOutcomeKey = outcome, sgSettlePayee = [], sgSettleNode = node\<rparr>"

definition demo_core :: core_calls where
  "demo_core = \<lparr>ckKeys = (\<lambda>m a. Some ''bob''),
     ckSign = (\<lambda>a. Some (Some (demo_signed (saTxKind a) (saPurpose a) (saNode a) (saOutcomeKey a)))), ckVerify = (\<lambda>m s p. Some False)\<rparr>"

definition demo_world :: "nat api_world" where
  "demo_world = \<lparr>apCore = Some demo_core, apAdmit = yes_world, apMid = (\<lambda>a. a), apQuery = account_at 3, apRocks = None,
     apReads = demo_rocks, apNow = 1001, apNanos = 0, apIP = ''1.2.3.4'', apDevice = [], apContactWrite = True,
     apContactMid = (\<lambda>s. s), apFlush = sure_io\<rparr>"

definition demo_gateway :: "nat gateway" where
  "demo_gateway = \<lparr>gwAdm = nonce_state, gwContacts = None, gwBook = voted_book, gwWallet = ''Node1'', gwRate = None, gwTestnet = True\<rparr>"

definition demo_deal :: "core_signed \<Rightarrow> signedDealBody" where
  "demo_deal c = \<lparr>sdMnemonic = [], sdAlphanumeric = [], sdTransaction = Some c, sdCaseID = ''case1''\<rparr>"

lemma demo_parsed:
  "kind \<noteq> [] \<Longrightarrow> \<exists>tx. parseSignedEscrowTx now (Some (demo_signed kind purpose node outcome)) = Inr tx \<and> txType tx = kind
     \<and> txPurpose tx = purpose \<and> txSettleNode tx = node \<and> txSettleOutcomeKey tx = outcome \<and> txAsset tx = ''PLP''
     \<and> txHash tx = ''h1'' \<and> txFrom tx = ''PxA'' \<and> txNonce tx = 4 \<and> txSigMain tx = ''s'' \<and> txSigDerived tx = ''d''"
  by (simp add: parseSignedEscrowTx_def demo_signed_def Let_def)

lemma demo_admitted:
  assumes "txHash tx = ''h1''" "txFrom tx = ''PxA''" "txNonce tx = 4" "txSigMain tx = ''s''" "txSigDerived tx = ''d''"
    "txAsset tx = ''PLP''" "txType tx \<noteq> ''faucet''" "gwAdm g = nonce_state"
  shows "fst (admit demo_world tx g) = None"
proof -
  have "ToCoreJSON tx \<noteq> None" using assms by (simp add: ToCoreJSON_def FaucetAddress_def Let_def)
  moreover have "\<not> IsNonTransferableAsset ''PLP''" by code_simp
  moreover have "''PxA'' \<noteq> FaucetAddress" by (simp add: FaucetAddress_def)
  ultimately have "validateTxForMempool yes_world (adChain nonce_state) (Some tx) = None"
    using assms by (auto simp: validateTxForMempool_def validateTxViaCore_def yes_world_def nonce_state_simps)
  moreover have "fst (indexMempoolAdmission yes_world (adChain nonce_state) tx) = None"
    using assms by (simp add: indexMempoolAdmission_def AddToMempool_def nonce_state_def SetLedger_def NewBlockchain_def Let_def)
  ultimately have "fst (admitToMempool yes_world (\<lambda>a. a) (Some tx) nonce_state) = None"
    by (auto simp: admitToMempool_def Let_def split: prod.splits option.splits)
  then show ?thesis using assms(8) by (auto simp: admit_def demo_world_def split: prod.split)
qed

lemma demo_signed_admit:
  assumes "txHash tx = ''h1''" "txFrom tx = ''PxA''" "txNonce tx = 4" "txSigMain tx = ''s''" "txSigDerived tx = ''d''"
    "txAsset tx = ''PLP''" "txType tx \<noteq> ''faucet''" "gwAdm g = nonce_state"
  shows "\<exists>g'. signedDealAdmit demo_world tx g = (Inr tx, g')"
  using demo_admitted [OF assms] by (cases "admit demo_world tx g") (simp add: signedDealAdmit_def)

theorem deal_lock_names_guarantor_witness:
  "\<exists>tx g'. SubmitDealLock demo_world (demo_deal (demo_signed TxKindLock PurposeDeal ''node1'' [])) demo_gateway = (Inr tx, g')
     \<and> EqualFold (TrimSpace (txSettleNode tx)) (TrimSpace (gwWallet demo_gateway))"
proof -
  let ?b = "demo_deal (demo_signed TxKindLock PurposeDeal ''node1'' [])"
  obtain tx where tx: "parseSignedEscrowTx 1001 (sdTransaction ?b) = Inr tx" "txType tx = TxKindLock"
      "txPurpose tx = PurposeDeal" "txSettleNode tx = ''node1''" "txAsset tx = ''PLP''" "txHash tx = ''h1''" "txFrom tx = ''PxA''"
      "txNonce tx = 4" "txSigMain tx = ''s''" "txSigDerived tx = ''d''"
    using demo_parsed [of TxKindLock 1001 PurposeDeal "''node1''" "[]"] by (auto simp: demo_deal_def TxKindLock_def)
  have "TrimSpace ''Node1'' = ''Node1''" by code_simp
  then have g: "TrimSpace (gwWallet demo_gateway) = ''Node1''" by (simp add: demo_gateway_def)
  have n: "EqualFold (TrimSpace ''node1'') ''Node1''" by code_simp
  have guar: "requireDealGuarantor demo_gateway tx = None"
    unfolding requireDealGuarantor_def tx(4) g using n by simp
  obtain g' where "signedDealAdmit demo_world tx demo_gateway = (Inr tx, g')"
    using demo_signed_admit [of tx demo_gateway] tx by (auto simp: demo_gateway_def TxKindLock_def)
  moreover have "\<not> rejectSecretMaterial ?b" by (simp add: rejectSecretMaterial_def demo_deal_def TrimSpace_def)
  moreover have "apNow demo_world = 1001" by (simp add: demo_world_def)
  ultimately have *: "SubmitDealLock demo_world ?b demo_gateway = (Inr tx, g')"
    unfolding SubmitDealLock_def using tx guar by (simp add: demo_deal_def)
  then show ?thesis using deal_lock_names_guarantor [OF disjI1 [OF *] tx(3,2)] by blast
qed

theorem dispute_settle_needs_quorum_witness:
  "\<exists>tx g'. SubmitDealDisputeSettle demo_world (demo_deal (demo_signed TxKindSettle PurposeDeal [] OutcomeFulfilled)) demo_gateway
       = (Inr tx, g') \<and> txPurpose tx = PurposeDeal"
proof -
  let ?b = "demo_deal (demo_signed TxKindSettle PurposeDeal [] OutcomeFulfilled)"
  obtain tx where tx: "parseSignedEscrowTx 1001 (sdTransaction ?b) = Inr tx" "txType tx = TxKindSettle"
      "txPurpose tx = PurposeDeal" "txSettleOutcomeKey tx = OutcomeFulfilled" "txAsset tx = ''PLP''" "txHash tx = ''h1''" "txFrom tx = ''PxA''"
      "txNonce tx = 4" "txSigMain tx = ''s''" "txSigDerived tx = ''d''"
    using demo_parsed [of TxKindSettle 1001 PurposeDeal "[]" OutcomeFulfilled] by (auto simp: demo_deal_def TxKindSettle_def)
  have case1: "map_of (bkCases voted_book) ''case1'' = Some voted_case" by (simp add: voted_book_def)
  have "3 \<le> votes_for VerdictFulfilled (csReveals voted_case)" by (simp add: voted_case_def)
  moreover have "csDeadline voted_case < bkHeight voted_book" by (simp add: voted_case_def voted_book_def)
  moreover have "OutcomeFulfilled = coreOutcome VerdictFulfilled" by (simp add: coreOutcome_def)
  ultimately have q: "fst (Quorum ''case1'' voted_book) = Some OutcomeFulfilled"
    using Quorum_iff_votes [OF voted_book_ok case1, of OutcomeFulfilled] by blast
  obtain book where "Quorum ''case1'' voted_book = (Some OutcomeFulfilled, book)" using q by (metis prod.collapse)
  then have d: "dispute_check ?b tx voted_book = (None, book)"
    using tx(4) case1 by (simp add: dispute_check_def Panel_def demo_deal_def)
  have "OutcomeFulfilled \<noteq> ''timeout''" by (simp add: OutcomeFulfilled_def)
  then have t: "timeout_check ?b tx voted_book = None" by (simp add: timeout_check_def tx(4))
  obtain g' where a: "signedDealAdmit demo_world tx (demo_gateway\<lparr>gwBook := book\<rparr>) = (Inr tx, g')"
    using demo_signed_admit [of tx "demo_gateway\<lparr>gwBook := book\<rparr>"] tx by (auto simp: demo_gateway_def TxKindSettle_def)
  have "\<not> rejectSecretMaterial ?b" by (simp add: rejectSecretMaterial_def demo_deal_def TrimSpace_def)
  moreover have "apNow demo_world = 1001" "gwBook demo_gateway = voted_book" by (simp_all add: demo_world_def demo_gateway_def)
  ultimately have *: "SubmitDealDisputeSettle demo_world ?b demo_gateway = (Inr tx, g')"
    unfolding SubmitDealDisputeSettle_def admitDealSettle_def using tx t d a by simp
  have "book_ok (gwBook demo_gateway)" using voted_book_ok by (simp add: demo_gateway_def)
  from dispute_settle_needs_quorum [OF this *] * show ?thesis by blast
qed

definition demo_lock :: escrow_body where
  "demo_lock = \<lparr>ebMnemonic = ''m'', ebAlphanumeric = ''a'', ebFrom = ''PxA'', ebBeneficiary = [], ebEscrowID = ''e'', ebAmountUplp = 0,
     ebFeeUplp = 0, ebNonce = None, ebExpiresAt = 0, ebPurpose = [], ebOutcomeKey = [], ebCreator = [], ebNode = [], ebRequestID = []\<rparr>"

definition broken_world :: "nat api_world" where
  "broken_world = demo_world\<lparr>apCore := Some (demo_core\<lparr>ckSign := (\<lambda>a. None)\<rparr>)\<rparr>"

definition demo_paid_lock :: escrow_body where
  "demo_paid_lock = demo_lock\<lparr>ebBeneficiary := ''PxB'', ebAmountUplp := 5\<rparr>"

theorem refused_submit_keeps_no_nonce_witness:
  "\<exists>g'. SubmitEscrowLock broken_world demo_paid_lock demo_gateway = (Inl SignFailed, g') \<and> same_reservations demo_gateway g'"
proof -
  have sec: "secrets_given demo_paid_lock" and fr: "TrimSpace ''PxA'' = ''PxA''" by code_simp+
  have "fst (SubmitEscrowLock broken_world demo_paid_lock demo_gateway) = Inl SignFailed"
    using sec
    by (simp add: SubmitEscrowLock_def rate_ok_def allowContactRate_def demo_gateway_def broken_world_def demo_world_def
        demo_paid_lock_def demo_lock_def submit_escrow_def choose_from_def fr choose_nonce_def allocateNonceForAddress_def
        allocated_demo sign_submit_def split: prod.split sum.split)
      (use allocated_demo in force)
  then obtain g' where "SubmitEscrowLock broken_world demo_paid_lock demo_gateway = (Inl SignFailed, g')" by (metis prod.collapse)
  moreover from this have "same_reservations demo_gateway g'"
    by (intro refused_submit_keeps_no_nonce [where w = broken_world and b = demo_paid_lock and e = SignFailed] disjI1)
      (auto simp: broken_world_def demo_world_def demo_paid_lock_def demo_lock_def nonce_state_simps account_at_def)
  ultimately show ?thesis by blast
qed

definition demo_respond :: respond_body where
  "demo_respond = \<lparr>rbRequestID = ''r1'', rbActor = ''Bob'', rbOutcome = OutcomeAccepted, rbSignature = [], rbMnemonic = ''m'',
     rbAlphanumeric = ''a'', rbPubMain = []\<rparr>"

definition demo_inbox :: contact_store where
  "demo_inbox = foldl contact_step (NewStore demo_cfg None) (take 1 demo_events)"

theorem respond_needs_receiver_wallet_witness:
  "\<exists>q intent g'. RespondContactRequest demo_world demo_respond (demo_gateway\<lparr>gwContacts := Some demo_inbox\<rparr>) = (Inr (q, intent), g')
     \<and> (\<exists>r. GetRequest demo_inbox ''r1'' = Some r \<and> EqualFold (crReceiver r) ''bob'')"
proof -
  let ?g = "demo_gateway\<lparr>gwContacts := Some demo_inbox\<rparr>"
  have names: "TrimSpace ''Bob'' = ''Bob''" "RejectClientOwnedProof [] = None"
      "MintOwnedProofAfterResolve ''Bob'' ''bob'' = Inr ''owned:bob''" "ResolveAuthenticatedOwner ''Bob'' ''bob'' = Inr ''bob''"
    by code_simp+
  have own: "verifyContactRespondOwnership demo_world (rbActor demo_respond) (rbRequestID demo_respond) (rbOutcome demo_respond)
      (rbSignature demo_respond) (rbMnemonic demo_respond) (rbAlphanumeric demo_respond) (rbPubMain demo_respond) = Inr (''bob'', ''owned:bob'')"
    by (simp add: verifyContactRespondOwnership_def demo_respond_def demo_world_def demo_core_def names Let_def)
  have "fst (Respond True 1001 ''r1'' ''bob'' OutcomeAccepted ''owned:bob'' demo_inbox) =
      Inr (demo_request\<lparr>crStatus := StatusEstablished, crSettleOutcome := OutcomeAccepted\<rparr>)"
    using demo_pending demo_pending_fields
    by (simp add: Respond_def demo_inbox_def demo_names normalize_def Let_def split_beta persistLocked_def del: map_of_eq_Some_iff)
  then obtain s1 where res: "Respond True 1001 ''r1'' ''bob'' OutcomeAccepted ''owned:bob'' demo_inbox =
      (Inr (demo_request\<lparr>crStatus := StatusEstablished, crSettleOutcome := OutcomeAccepted\<rparr>), s1)" by (metis prod.collapse)
  have w: "apContactWrite demo_world = True" "apNow demo_world = 1001" by (simp_all add: demo_world_def)
  have b: "rbRequestID demo_respond = ''r1''" "rbOutcome demo_respond = OutcomeAccepted" by (simp_all add: demo_respond_def)
  have rate: "rate_ok demo_world ''contact_respond'' ?g = (True, ?g)"
    by (simp add: rate_ok_def allowContactRate_def demo_gateway_def)
  have "gwContacts ?g = Some demo_inbox" by simp
  then obtain q intent g' where *: "RespondContactRequest demo_world demo_respond ?g = (Inr (q, intent), g')"
    unfolding RespondContactRequest_def rate using own res w b by (simp add: Let_def)
  moreover have "GetRequest demo_inbox ''r1'' = Some demo_request" "crReceiver demo_request = ''bob''"
    using demo_pending demo_pending_fields(2) by (simp_all only: GetRequest_def demo_inbox_def)
  ultimately show ?thesis using respond_needs_receiver_wallet [OF *] by auto
qed

text \<open>An instance with the lock in the mempool.\<close>

definition locked_chain :: "nat Blockchain" where
  "locked_chain = (NewBlockchain 0)\<lparr>mempool := [tx0\<lparr>txHash := crLockTxHash demo_request, txFrom := ''alice'', txType := TxKindLock,
     txAmountUplp := 1\<rparr>]\<rparr>"

definition locked_gateway :: "nat gateway" where
  "locked_gateway = demo_gateway\<lparr>gwAdm := (nonce_state\<lparr>adChain := locked_chain\<rparr>), gwContacts := Some (NewStore demo_cfg None)\<rparr>"

theorem contact_request_needs_lock_witness:
  "\<exists>g'. CreateContactRequest (demo_world\<lparr>apNow := 1000\<rparr>) demo_request locked_gateway = (Inr demo_request, g')
     \<and> (\<exists>tx bc. find_lock demo_rocks (TrimSpace (crLockTxHash demo_request)) locked_chain = (Some tx, bc) \<and> EqualFold (txFrom tx) ''alice'')"
proof -
  let ?h = "''aaaaaaaaaaaaaaaaaaaaaaaaaaaaaaaa''"
  let ?tx = "tx0\<lparr>txHash := crLockTxHash demo_request, txFrom := ''alice'', txType := TxKindLock, txAmountUplp := 1\<rparr>"
  have h: "TrimSpace ?h = ?h" "ToLower TxKindLock = TxKindLock" by code_simp+
  have rh: "crLockTxHash demo_request = ?h" by (simp add: demo_request_def)
  have "getTransactionFromRocks demo_rocks ?h = None" by (simp add: getTransactionFromRocks_def demo_rocks_def)
  then have find: "find_lock demo_rocks ?h locked_chain = (Some ?tx, locked_chain)"
    by (simp add: find_lock_def GetTransaction_def locked_chain_def NewBlockchain_def GetMempool_def rh)
  have match: "lock_matches ?tx ''alice'' 1 e = None" for e
    by (simp add: lock_matches_def Let_def h tx0_def)
  have f: "crSender demo_request = ''alice''" "crAmountUplp demo_request = 1" by (simp_all add: demo_pending_fields)
  have ver: "verifyEscrowLockTx demo_rocks (crLockTxHash demo_request) (crSender demo_request) (crAmountUplp demo_request) e locked_chain
      = (None, locked_chain)" for e
    unfolding verifyEscrowLockTx_def rh f h(1) Let_def find using match by (simp add: rh)
  obtain s1 where cr: "CreateRequest True 1000 (\<lambda>s. s) demo_request (NewStore demo_cfg None) = (Inr demo_request, s1)"
    using price_not_enforced by (metis prod.collapse)
  let ?w = "demo_world\<lparr>apNow := 1000\<rparr>"
  have rate: "rate_ok ?w ''contact_request'' locked_gateway = (True, locked_gateway)"
    by (simp add: rate_ok_def allowContactRate_def locked_gateway_def demo_gateway_def)
  have g: "gwContacts locked_gateway = Some (NewStore demo_cfg None)" "adChain (gwAdm locked_gateway) = locked_chain"
    and w: "apReads ?w = demo_rocks" "apContactWrite ?w = True" "apNow ?w = 1000" "apContactMid ?w = (\<lambda>s. s)"
    by (simp_all add: locked_gateway_def demo_world_def)
  obtain g' where *: "CreateContactRequest ?w demo_request locked_gateway = (Inr demo_request, g')"
    unfolding CreateContactRequest_def rate w by (simp add: g ver cr)
  from contact_request_needs_lock [OF *] * show ?thesis unfolding g w f by blast
qed

text \<open>Remark: \<open>SubmitEscrowLock\<close> takes the purpose from the request and does not ask for the guarantor: a deal lock goes
  through \<open>/api/escrow/lock\<close> without naming this node, which \<open>/api/deals/lock\<close> refuses.\<close>

definition deal_by_escrow :: escrow_body where
  "deal_by_escrow = demo_paid_lock\<lparr>ebPurpose := PurposeDeal, ebNonce := Some 4\<rparr>"

lemma escrow_lock_skips_guarantor:
  "\<exists>tx g'. SubmitEscrowLock demo_world deal_by_escrow demo_gateway = (Inr tx, g') \<and> txPurpose tx = PurposeDeal
     \<and> txType tx = TxKindLock \<and> requireDealGuarantor demo_gateway tx = Some WrongGuarantor"
proof -
  have n: "secrets_given deal_by_escrow" "TrimSpace ''PxA'' = ''PxA''" "DefaultPurpose PurposeDeal = PurposeDeal" by code_simp+
  obtain tx where tx: "parseSignedEscrowTx 1001 (Some (demo_signed TxKindLock PurposeDeal [] [])) = Inr tx" "txType tx = TxKindLock"
      "txPurpose tx = PurposeDeal" "txSettleNode tx = []" "txAsset tx = ''PLP''" "txHash tx = ''h1''" "txFrom tx = ''PxA''"
      "txNonce tx = 4" "txSigMain tx = ''s''" "txSigDerived tx = ''d''"
    using demo_parsed [of TxKindLock 1001 PurposeDeal "[]" "[]"] by (auto simp: TxKindLock_def)
  obtain g1 where a: "admit demo_world tx demo_gateway = (None, g1)"
    using demo_admitted [of tx demo_gateway] tx by (cases "admit demo_world tx demo_gateway") (auto simp: demo_gateway_def TxKindLock_def)
  have rate: "rate_ok demo_world ''escrow_lock'' demo_gateway = (True, demo_gateway)"
    by (simp add: rate_ok_def allowContactRate_def demo_gateway_def)
  have w: "apCore demo_world = Some demo_core" "apNow demo_world = 1001" by (simp_all add: demo_world_def)
  have b: "ebEscrowID deal_by_escrow = ''e''" "ebBeneficiary deal_by_escrow = ''PxB''" "ebAmountUplp deal_by_escrow = 5"
      "choose_from demo_core deal_by_escrow = Some ''PxA''" "ebNonce deal_by_escrow = Some 4"
    by (simp_all add: deal_by_escrow_def demo_paid_lock_def demo_lock_def choose_from_def n)
  have s: "ckSign demo_core (lock_args demo_world deal_by_escrow ''PxA'' 4) = Some (Some (demo_signed TxKindLock PurposeDeal [] []))"
    by (simp add: demo_core_def lock_args_def deal_by_escrow_def n Let_def)
  have "SubmitEscrowLock demo_world deal_by_escrow demo_gateway = (Inr tx, g1)"
    unfolding SubmitEscrowLock_def rate submit_escrow_def choose_nonce_def sign_submit_def
    using n w b s tx(1) a by simp
  moreover have "TrimSpace ''Node1'' = ''Node1''" "\<not> EqualFold (TrimSpace []) ''Node1''" by code_simp+
  then have "requireDealGuarantor demo_gateway tx = Some WrongGuarantor"
    using tx(2-4) by (simp add: requireDealGuarantor_def demo_gateway_def)
  ultimately show ?thesis using tx by blast
qed

text \<open>Remark: A nonce the client chose itself is also given back on failure: a failing request frees a nonce another
  client holds.\<close>

lemma given_nonce_frees_reservation:
  "3 \<in> reserved_of (gwAdm demo_gateway) ''PxA''
   \<and> 3 \<notin> reserved_of (gwAdm (snd (SubmitEscrowLock broken_world (demo_paid_lock\<lparr>ebNonce := Some 3\<rparr>) demo_gateway))) ''PxA''"
proof -
  let ?b = "demo_paid_lock\<lparr>ebNonce := Some 3\<rparr>"
  have n: "secrets_given ?b" "TrimSpace ''PxA'' = ''PxA''" by code_simp+
  have rate: "rate_ok broken_world ''escrow_lock'' demo_gateway = (True, demo_gateway)"
    by (simp add: rate_ok_def allowContactRate_def demo_gateway_def)
  obtain core where w: "apCore broken_world = Some core" "\<And>a. ckSign core a = None" by (simp add: broken_world_def)
  have b: "ebEscrowID ?b = ''e''" "ebBeneficiary ?b = ''PxB''" "ebAmountUplp ?b = 5"
      "choose_from core ?b = Some ''PxA''" "ebNonce ?b = Some 3"
    by (simp_all add: demo_paid_lock_def demo_lock_def choose_from_def n)
  have sub: "snd (SubmitEscrowLock broken_world ?b demo_gateway) = release ''PxA'' 3 demo_gateway"
    unfolding SubmitEscrowLock_def rate submit_escrow_def choose_nonce_def sign_submit_def
    using n w b by (simp add: lock_args_def Let_def)
  have g: "gwAdm demo_gateway = nonce_state" by (simp add: demo_gateway_def)
  have m: "map_of (adReserved nonce_state) ''PxA'' \<noteq> None" by (simp add: nonce_state_def)
  have "3 \<notin> reserved_of (releaseNonceForAddress ''PxA'' 3 nonce_state) ''PxA''"
    unfolding releaseNonceForAddress_def releaseNonceLocked_def
    using m nonce_state_simps by (simp add: reserved_of_drop)
  then show ?thesis unfolding sub by (simp add: release_def g nonce_state_simps)
qed

text \<open>Remark: The plain settlement handler has no panel check: a settlement with a dispute outcome passes all its checks
  whatever the case identifier and the book.\<close>

lemma plain_settle_skips_panel:
  assumes "\<not> rejectSecretMaterial b" "parseSignedEscrowTx (apNow w) (sdTransaction b) = Inr tx" "txType tx = TxKindSettle"
    "txPurpose tx = PurposeDeal" "txSettleOutcomeKey tx = OutcomeFulfilled"
  shows "SubmitDealSettle w b g = signedDealAdmit w tx g"
  using assms by (simp add: SubmitDealSettle_def admitDealSettle_def timeout_check_def OutcomeFulfilled_def)

text \<open>Remark: The outcome a client sends with a new request is kept: \<open>GetEscrowStatus\<close> then reports a pending request as
  locked and offers, with it, an intent to settle it as accepted.\<close>

lemma pending_request_offers_settle:
  assumes "crSettleOutcome req = OutcomeAccepted" "create_checked now req s = Inr q"
  shows "crStatus q = StatusPending \<and> esStatus (StatusFromContactRequest q) = ''LOCKED''
         \<and> siOutcomeKey (ContactSettleFromRequest q []) = ''accept''"
proof -
  have "crStatus q = StatusPending" by (rule create_checked_ok(2) [OF assms(2)])
  moreover have "crSettleOutcome q = OutcomeAccepted"
    using assms by (auto simp: create_checked_def Let_def split: if_splits option.splits)
  ultimately show ?thesis
    by (simp add: StatusFromContactRequest_def ContactSettleFromRequest_def BuildSettleIntent_def MapProtocolOutcome_def
        OutcomeAccepted_def)
qed

end
