(* ===== verification/Messaging.thy ===== *)
theory Messaging
  imports Escrow_Api
begin

text \<open>
  The messaging server, \<open>internal/websocket/server.go\<close>, \<open>messaging.go\<close> and \<open>address.go\<close>: sessions, direct messages with
  the first-contact gate, the buffer for offline addresses, the messages of peers, and the contact protocol over a
  websocket.

  A client object is shared by the two maps of the server and by the goroutine that reads its socket, so the objects
  are kept in one list by client identifier and the maps hold identifiers. \<open>alive\<close> says for which sockets a write
  succeeds. Handlers return what they send as a list of (client, message) pairs.
\<close>

subsection \<open>Addresses\<close>

definition isHexString :: "string \<Rightarrow> bool" where
  "isHexString s \<longleftrightarrow> s \<noteq> [] \<and> list_all is_lower_hex s"

definition normalizePlatariumAddress :: "string \<Rightarrow> string" where
  "normalizePlatariumAddress addr =
     (let v = TrimSpace addr
      in if length v < 3 then v
         else if HasPrefix v ''Px'' \<or> HasPrefix v ''px''
         then (let lower = ToLower (drop 2 v) in if isHexString lower then ''Px'' @ lower else v)
         else v)"

subsection \<open>State\<close>

record Client =
  clIPAddress :: string
  clConnectedAt :: int
  clAddress :: string
  clAuthenticated :: bool
  clDeviceID :: string
  clDeviceLabel :: string

record OfflineMessage =
  omFrom :: string
  omTo :: string
  omText :: string
  omTimestamp :: int
  omBufferedAt :: int

record ws_server =
  wsObjs :: "(string \<times> Client) list"
  wsClients :: "string list"
  wsByAddr :: "(string \<times> string list) list"
  wsOffline :: "(string \<times> OfflineMessage list) list"
  wsKeys :: "(string \<times> string) list"
  wsHits :: "(string \<times> int list) list"
  wsContacts :: "contact_store option"

datatype ws_out =
    ChatMsg string string string int
  | ContactMsg ContactRequest
  | ContactResolved ContactRequest string

type_synonym prover = "string \<Rightarrow> string \<Rightarrow> string \<Rightarrow> string \<Rightarrow> string \<Rightarrow> bool"

definition NewServer :: ws_server where
  "NewServer = \<lparr>wsObjs = [], wsClients = [], wsByAddr = [], wsOffline = [], wsKeys = [], wsHits = [], wsContacts = None\<rparr>"

definition SetContactEconomy :: "contact_store option \<Rightarrow> ws_server \<Rightarrow> ws_server" where
  "SetContactEconomy ce s = s\<lparr>wsContacts := ce\<rparr>"

text \<open>The prover that \<open>ensureContactEconomy\<close> installs.\<close>

definition gateway_prover :: "'c api_world \<Rightarrow> prover" where
  "gateway_prover w address signature mnemonic alphanumeric pubMain \<longleftrightarrow>
     (case verifyContactPricingOwnership w address signature mnemonic alphanumeric pubMain of Inl _ \<Rightarrow> False | Inr _ \<Rightarrow> True)"

definition client_of :: "ws_server \<Rightarrow> string \<Rightarrow> Client" where
  "client_of s i = the (map_of (wsObjs s) i)"

definition AuthenticatedOwner :: "Client \<Rightarrow> string" where
  "AuthenticatedOwner c = (if clAuthenticated c then clAddress c else [])"

definition sessions :: "ws_server \<Rightarrow> string \<Rightarrow> string list" where
  "sessions s address = (case map_of (wsByAddr s) address of None \<Rightarrow> [] | Some m \<Rightarrow> m)"

definition buffered :: "ws_server \<Rightarrow> string \<Rightarrow> OfflineMessage list" where
  "buffered s address = (case map_of (wsOffline s) address of None \<Rightarrow> [] | Some b \<Rightarrow> b)"

definition set_client :: "string \<Rightarrow> Client \<Rightarrow> ws_server \<Rightarrow> ws_server" where
  "set_client i c s = s\<lparr>wsObjs := AList.update i c (wsObjs s)\<rparr>"

subsection \<open>Connecting and disconnecting\<close>

definition ws_connect :: "string \<Rightarrow> string \<Rightarrow> int \<Rightarrow> ws_server \<Rightarrow> ws_server" where
  "ws_connect i ip now s =
     (set_client i \<lparr>clIPAddress = ip, clConnectedAt = now, clAddress = [], clAuthenticated = False, clDeviceID = [], clDeviceLabel = []\<rparr> s)
       \<lparr>wsClients := List.insert i (wsClients s)\<rparr>"

definition removeClientFromAddrLocked :: "string \<Rightarrow> string \<Rightarrow> ws_server \<Rightarrow> ws_server" where
  "removeClientFromAddrLocked address i s =
     (case map_of (wsByAddr s) address of
        None \<Rightarrow> s
      | Some m \<Rightarrow>
          (let m1 = filter (\<lambda>j. j \<noteq> i) m
           in s\<lparr>wsByAddr := if m1 = [] then AList.delete address (wsByAddr s) else AList.update address m1 (wsByAddr s)\<rparr>))"

text \<open>The deferred function of \<open>handleWebSocket\<close>. The handler starts the read loop in a goroutine and returns, so it
  runs right after the connection is accepted.\<close>

definition ws_cleanup :: "string \<Rightarrow> ws_server \<Rightarrow> ws_server" where
  "ws_cleanup i s =
     (if i \<notin> set (wsClients s) then s
      else
        let s1 = s\<lparr>wsClients := removeAll i (wsClients s)\<rparr>
        in if clAddress (client_of s i) \<noteq> [] then removeClientFromAddrLocked (clAddress (client_of s i)) i s1 else s1)"

definition handleWebSocket :: "string \<Rightarrow> string \<Rightarrow> int \<Rightarrow> (ws_server \<Rightarrow> ws_server) \<Rightarrow> ws_server \<Rightarrow> ws_server" where
  "handleWebSocket i ip now mid s = ws_cleanup i (mid (ws_connect i ip now s))"

definition BroadcastToClients :: "ws_server \<Rightarrow> string list" where
  "BroadcastToClients s = wsClients s"

subsection \<open>Registration\<close>

definition replaced :: "ws_server \<Rightarrow> string \<Rightarrow> string \<Rightarrow> string list" where
  "replaced s address i =
     (let dev = clDeviceID (client_of s i)
      in if dev = [] then [] else filter (\<lambda>j. clDeviceID (client_of s j) = dev \<and> j \<noteq> i) (sessions s address))"

definition addClientToAddrLocked :: "string \<Rightarrow> string \<Rightarrow> ws_server \<Rightarrow> ws_server" where
  "addClientToAddrLocked address i s =
     (let old = replaced s address i
      in s\<lparr>wsObjs := map (\<lambda>(j, c). (j, if j \<in> set old then c\<lparr>clAddress := [], clAuthenticated := False\<rparr> else c)) (wsObjs s),
           wsByAddr := AList.update address (List.insert i (filter (\<lambda>j. j \<notin> set old) (sessions s address))) (wsByAddr s)\<rparr>)"

record register_data =
  rdAddress :: string
  rdDeviceID :: string
  rdDeviceLabel :: string
  rdSignature :: string
  rdMnemonic :: string
  rdAlphanumeric :: string
  rdPubMain :: string
  rdE2ee :: string

datatype ws_error =
    AddressRequired | NoProver | NotProved | InvalidMessage | MessageTooLarge | NotRegistered | GroupRateLimited
  | ProtocolContactRequired | NoContacts | WsContact contact_error | WsOwner owner_error

definition has_proof :: "register_data \<Rightarrow> bool" where
  "has_proof d \<longleftrightarrow>
     (TrimSpace (rdMnemonic d) \<noteq> [] \<and> TrimSpace (rdAlphanumeric d) \<noteq> []) \<or> HasPrefix (TrimSpace (rdSignature d)) ''sig-core:''"

definition resolveRegisterAuthentication :: "prover option \<Rightarrow> string \<Rightarrow> register_data \<Rightarrow> ws_error + bool" where
  "resolveRegisterAuthentication prove address d =
     (if \<not> has_proof d then Inr False
      else case prove of
          None \<Rightarrow> Inl NoProver
        | Some p \<Rightarrow>
            if p address (rdSignature d) (rdMnemonic d) (rdAlphanumeric d) (rdPubMain d) then Inr True else Inl NotProved)"

definition offlineMessageTTLSeconds :: int where "offlineMessageTTLSeconds = 86400"
definition offlineMessageMaxPerRecipient :: nat where "offlineMessageMaxPerRecipient = 500"

definition offlineMessageAgeOK :: "OfflineMessage \<Rightarrow> int \<Rightarrow> bool" where
  "offlineMessageAgeOK m now \<longleftrightarrow>
     now - (if omBufferedAt m = 0 then omTimestamp m else omBufferedAt m) \<le> offlineMessageTTLSeconds"

definition bind_session :: "string \<Rightarrow> string \<Rightarrow> bool \<Rightarrow> register_data \<Rightarrow> ws_server \<Rightarrow> ws_server" where
  "bind_session i address authed d s =
     (let c = client_of s i; old = normalizePlatariumAddress (clAddress c);
          s1 = (if clAddress c \<noteq> [] \<and> old \<noteq> address then removeClientFromAddrLocked old i s else s);
          dev = (if TrimSpace (rdDeviceID d) = [] then i else TrimSpace (rdDeviceID d));
          label = (if TrimSpace (rdDeviceLabel d) = [] then ''Device'' else TrimSpace (rdDeviceLabel d));
          c1 = c\<lparr>clAddress := address, clAuthenticated := authed, clDeviceID := dev, clDeviceLabel := label\<rparr>
      in addClientToAddrLocked address i (set_client i c1 s1))"

text \<open>The part of \<open>bindClientRegister\<close> under the lock, after the binding: the key, and the messages that waited.\<close>

definition take_pending :: "string \<Rightarrow> string \<Rightarrow> ws_server \<Rightarrow> OfflineMessage list \<times> ws_server" where
  "take_pending raw address s =
     (if buffered s address = [] \<and> raw \<noteq> address
      then (buffered s raw, s\<lparr>wsOffline := AList.delete address (AList.delete raw (wsOffline s))\<rparr>)
      else (buffered s address, s\<lparr>wsOffline := AList.delete address (wsOffline s)\<rparr>))"

definition chat_of :: "OfflineMessage \<Rightarrow> ws_out" where
  "chat_of m = ChatMsg (omFrom m) (omTo m) (omText m) (omTimestamp m)"

text \<open>\<open>bindClientRegister\<close>; the first \<open>n\<close> writes of waiting messages succeed, a failed write ends the delivery.\<close>

definition bindClientRegister ::
  "prover option \<Rightarrow> int \<Rightarrow> nat \<Rightarrow> string \<Rightarrow> register_data \<Rightarrow> ws_server \<Rightarrow> (ws_error + bool \<times> (string \<times> ws_out) list) \<times> ws_server" where
  "bindClientRegister prove now n i d s =
     (if rdAddress d = [] then (Inl AddressRequired, s)
      else
        let address = normalizePlatariumAddress (rdAddress d)
        in case resolveRegisterAuthentication prove address d of
             Inl e \<Rightarrow> (Inl e, s)
           | Inr authed \<Rightarrow>
               (let s1 = bind_session i address authed d s;
                    s2 = (if rdE2ee d \<noteq> [] then s1\<lparr>wsKeys := AList.update address (rdE2ee d) (wsKeys s1)\<rparr> else s1);
                    (pending, s3) = take_pending (rdAddress d) address s2;
                    fresh = filter (\<lambda>m. offlineMessageAgeOK m now) pending
                in (Inr (authed, map (\<lambda>m. (i, chat_of m)) (take n fresh)), s3)))"

subsection \<open>Direct messages\<close>

definition drop_dead :: "string list \<Rightarrow> ws_server \<Rightarrow> ws_server" where
  "drop_dead dead s =
     foldl (\<lambda>t i. (if clAddress (client_of t i) \<noteq> [] then removeClientFromAddrLocked (clAddress (client_of t i)) i t else t)
                    \<lparr>wsClients := removeAll i (wsClients t)\<rparr>) s dead"

definition fanOutJSON :: "(string \<Rightarrow> bool) \<Rightarrow> string \<Rightarrow> ws_out \<Rightarrow> ws_server \<Rightarrow> (string \<times> ws_out) list \<times> ws_server" where
  "fanOutJSON alive address payload s =
     (map (\<lambda>i. (i, payload)) (filter alive (sessions s address)),
      drop_dead (filter (\<lambda>i. \<not> alive i) (sessions s address)) s)"

definition push_offline :: "OfflineMessage \<Rightarrow> ws_server \<Rightarrow> ws_server" where
  "push_offline m s =
     (let buf = buffered s (omTo m) @ [m]
      in s\<lparr>wsOffline := AList.update (omTo m)
             (if length buf > offlineMessageMaxPerRecipient then drop (length buf - offlineMessageMaxPerRecipient) buf else buf)
             (wsOffline s)\<rparr>)"

definition groupProtocolRateLimit :: nat where "groupProtocolRateLimit = 120"
definition groupProtocolRateWindowSecs :: int where "groupProtocolRateWindowSecs = 60"

definition hits_of :: "ws_server \<Rightarrow> string \<Rightarrow> int list" where
  "hits_of s key = (case map_of (wsHits s) key of None \<Rightarrow> [] | Some h \<Rightarrow> h)"

definition allowGroupProtocolSend :: "string \<Rightarrow> int \<Rightarrow> ws_server \<Rightarrow> bool \<times> ws_server" where
  "allowGroupProtocolSend from now s =
     (let key = normalizePlatariumAddress from;
          kept = filter (\<lambda>ts. ts \<ge> now - groupProtocolRateWindowSecs) (hits_of s key)
      in if length kept \<ge> groupProtocolRateLimit then (False, s\<lparr>wsHits := AList.update key kept (wsHits s)\<rparr>)
         else (True, s\<lparr>wsHits := AList.update key (kept @ [now]) (wsHits s)\<rparr>))"

definition maxDirectMessageTextBytes :: nat where "maxDirectMessageTextBytes = 12 * 1024 * 1024"

datatype dm_outcome = DmRefused ws_error | DmBuffered bool | DmDelivered nat

text \<open>The checks of \<open>handleDirectMessage\<close>; \<open>grp\<close> says that the purpose is the group protocol.\<close>

definition dm_check :: "string \<Rightarrow> string \<Rightarrow> string \<Rightarrow> bool \<Rightarrow> int \<Rightarrow> ws_server \<Rightarrow> ws_error option \<times> ws_server" where
  "dm_check from to text grp now s =
     (if from = [] then (Some NotRegistered, s)
      else
        let (ok, s1) = (if grp then allowGroupProtocolSend from now s else (True, s))
        in if \<not> ok then (Some GroupRateLimited, s1)
           else case wsContacts s1 of
               None \<Rightarrow> (None, s1)
             | Some ce \<Rightarrow> if \<not> grp \<and> \<not> CanSendFreeDM ce from to then (Some ProtocolContactRequired, s1) else (None, s1))"

definition handleDirectMessage ::
  "(string \<Rightarrow> bool) \<Rightarrow> int \<Rightarrow> string \<Rightarrow> string \<Rightarrow> string \<Rightarrow> string \<Rightarrow> ws_server \<Rightarrow> dm_outcome \<times> (string \<times> ws_out) list \<times> ws_server" where
  "handleDirectMessage alive now i toRaw text purpose s =
     (if toRaw = [] \<or> text = [] then (DmRefused InvalidMessage, [], s)
      else if length text > maxDirectMessageTextBytes then (DmRefused MessageTooLarge, [], s)
      else
        let to = normalizePlatariumAddress toRaw; from = clAddress (client_of s i); grp = (TrimSpace purpose = ''group_protocol'')
        in case dm_check from to text grp now s of
             (Some e, s1) \<Rightarrow> (DmRefused e, [], s1)
           | (None, s1) \<Rightarrow>
               (let m = \<lparr>omFrom = from, omTo = to, omText = text, omTimestamp = now, omBufferedAt = now\<rparr>
                in if sessions s1 to = [] \<and> (toRaw = to \<or> sessions s1 toRaw = [])
                   then (DmBuffered True, [], push_offline m s1)
                   else
                     let (sent, s2) = fanOutJSON alive to (chat_of m) s1
                     in if sent = [] then (DmBuffered False, [], push_offline m s2)
                        else (DmDelivered (length sent),
                              sent @ (if from \<noteq> to then map (\<lambda>j. (j, chat_of m)) (filter (\<lambda>j. j \<noteq> i \<and> alive j) (sessions s2 from)) else []),
                              s2)))"

text \<open>\<open>HandleIncomingPeerMessage\<close>: no check of the sender and no first-contact gate. A timestamp of 0 stands for a
  missing one.\<close>

definition HandleIncomingPeerMessage ::
  "(string \<Rightarrow> bool) \<Rightarrow> int \<Rightarrow> string \<Rightarrow> string \<Rightarrow> string \<Rightarrow> int \<Rightarrow> ws_server \<Rightarrow> (string \<times> ws_out) list \<times> ws_server" where
  "HandleIncomingPeerMessage alive now toRaw fromRaw text ts s =
     (if toRaw = [] \<or> fromRaw = [] \<or> text = [] then ([], s)
      else
        let to = normalizePlatariumAddress toRaw; from = normalizePlatariumAddress fromRaw;
            (sent, s1) = fanOutJSON alive to (ChatMsg from to text ts) s
        in if sent \<noteq> [] then (sent, s1)
           else ([], push_offline \<lparr>omFrom = from, omTo = to, omText = text, omTimestamp = (if ts = 0 then now else ts),
                                   omBufferedAt = now\<rparr> s1))"

definition pruneExpiredOfflineMessages :: "int \<Rightarrow> ws_server \<Rightarrow> ws_server" where
  "pruneExpiredOfflineMessages now s =
     s\<lparr>wsOffline := filter (\<lambda>(to, b). b \<noteq> []) (map (\<lambda>(to, b). (to, filter (\<lambda>m. offlineMessageAgeOK m now) b)) (wsOffline s))\<rparr>"

subsection \<open>Devices and keys\<close>

text \<open>\<open>handleDevicesLogout\<close>: the target's socket is closed; the session stays in the maps until a write fails.\<close>

definition handleDevicesLogout :: "string \<Rightarrow> string \<Rightarrow> ws_server \<Rightarrow> string option" where
  "handleDevicesLogout i rawTarget s =
     (if clAddress (client_of s i) = [] \<or> TrimSpace rawTarget = [] then None
      else find (\<lambda>j. clDeviceID (client_of s j) = TrimSpace rawTarget) (sessions s (clAddress (client_of s i))))"

definition key_of :: "ws_server \<Rightarrow> string \<Rightarrow> string" where
  "key_of s address = (case map_of (wsKeys s) address of None \<Rightarrow> [] | Some k \<Rightarrow> k)"

definition LookupE2eePubKey :: "ws_server \<Rightarrow> string \<Rightarrow> string" where
  "LookupE2eePubKey s address =
     (let norm = normalizePlatariumAddress address in if key_of s norm \<noteq> [] then key_of s norm else key_of s address)"

definition handleE2eePubKeyRequest :: "ws_server \<Rightarrow> string \<Rightarrow> string \<Rightarrow> (string \<times> string) option" where
  "handleE2eePubKeyRequest s raw requestID =
     (if raw = [] \<or> requestID = [] then None
      else let a = normalizePlatariumAddress raw in Some (a, if key_of s a = [] \<and> raw \<noteq> a then key_of s raw else key_of s a))"

subsection \<open>The contact protocol over a websocket\<close>

text \<open>\<open>DeliverContactRequest\<close>: the buffer is not bounded here; \<open>marshal\<close> encodes the payload.\<close>

definition DeliverContactRequest ::
  "(ContactRequest \<Rightarrow> string) \<Rightarrow> (string \<Rightarrow> bool) \<Rightarrow> int \<Rightarrow> ContactRequest \<Rightarrow> ws_server \<Rightarrow> (string \<times> ws_out) list \<times> ws_server" where
  "DeliverContactRequest marshal alive now req s =
     (let to = normalizePlatariumAddress (crReceiver req); (sent, s1) = fanOutJSON alive to (ContactMsg req) s
      in if sent \<noteq> [] then (sent, s1)
         else ([], s1\<lparr>wsOffline := AList.update to
                 (buffered s1 to @ [\<lparr>omFrom = crSender req, omTo = to, omText = marshal req, omTimestamp = now, omBufferedAt = now\<rparr>])
                 (wsOffline s1)\<rparr>))"

definition NotifyContactResolved :: "(string \<Rightarrow> bool) \<Rightarrow> ContactRequest \<Rightarrow> string \<Rightarrow> ws_server \<Rightarrow> (string \<times> ws_out) list \<times> ws_server" where
  "NotifyContactResolved alive req enc s =
     (let (sent1, s1) = fanOutJSON alive (normalizePlatariumAddress (crSender req)) (ContactResolved req enc) s;
          (sent2, s2) = fanOutJSON alive (normalizePlatariumAddress (crReceiver req)) (ContactResolved req enc) s1
      in (sent1 @ sent2, s2))"

definition handleProtocolContactQuery :: "string \<Rightarrow> string \<Rightarrow> ws_server \<Rightarrow> bool" where
  "handleProtocolContactQuery i peerRaw s \<longleftrightarrow>
     (case wsContacts s of
        None \<Rightarrow> True
      | Some ce \<Rightarrow> if ccEnabled (ctCfg ce) then HasProtocolContact ce (clAddress (client_of s i)) peerRaw else True)"

text \<open>\<open>handleContactRequestWS\<close>: the fields of the message are given as a request; the sender is the session's address,
  and timestamps, status and settlement fields start at zero. The lock is not looked up.\<close>

definition ws_request :: "Client \<Rightarrow> ContactRequest \<Rightarrow> ContactRequest" where
  "ws_request c d =
     d\<lparr>crSender := clAddress c, crRequestIDHash := [], crTimestamp := 0, crExpiresAt := 0, crStatus := [], crSettleOutcome := [],
       crSettleTxHash := []\<rparr>"

definition handleContactRequestWS ::
  "(ContactRequest \<Rightarrow> string) \<Rightarrow> (string \<Rightarrow> bool) \<Rightarrow> bool \<Rightarrow> (contact_store \<Rightarrow> contact_store) \<Rightarrow> int \<Rightarrow> string \<Rightarrow> ContactRequest \<Rightarrow> ws_server
   \<Rightarrow> (ws_error + ContactRequest \<times> (string \<times> ws_out) list) \<times> ws_server" where
  "handleContactRequestWS marshal alive ok mid now i d s =
     (case wsContacts s of
        None \<Rightarrow> (Inl NoContacts, s)
      | Some ce \<Rightarrow>
          (case CreateRequest ok now mid (ws_request (client_of s i) d) ce of
             (Inl e, ce1) \<Rightarrow> (Inl (WsContact e), s\<lparr>wsContacts := Some ce1\<rparr>)
           | (Inr req, ce1) \<Rightarrow>
               (let (sent, s1) = DeliverContactRequest marshal alive now req (s\<lparr>wsContacts := Some ce1\<rparr>) in (Inr (req, sent), s1))))"

definition prepareContactRespondOwnership :: "Client \<Rightarrow> string \<Rightarrow> string \<Rightarrow> owner_error + string \<times> string" where
  "prepareContactRespondOwnership c actor signature =
     (let auth = AuthenticatedOwner c
      in case ResolveAuthenticatedOwner (if actor = [] then auth else actor) auth of
           Inl e \<Rightarrow> Inl e
         | Inr verified \<Rightarrow>
             (case RejectClientOwnedProof signature of
                Some e \<Rightarrow> Inl e
              | None \<Rightarrow>
                  (if TrimSpace signature = []
                   then (case MintOwnedProof verified of Inl e \<Rightarrow> Inl e | Inr m \<Rightarrow> Inr (verified, m))
                   else Inr (verified, signature))))"

definition applyContactRespondWS ::
  "(string \<Rightarrow> bool) \<Rightarrow> bool \<Rightarrow> int \<Rightarrow> string \<Rightarrow> respond_body \<Rightarrow> string \<Rightarrow> ws_server
   \<Rightarrow> (ws_error + ContactRequest \<times> SettleIntent \<times> (string \<times> ws_out) list) \<times> ws_server" where
  "applyContactRespondWS alive ok now i b enc s =
     (case wsContacts s of
        None \<Rightarrow> (Inl NoContacts, s)
      | Some ce \<Rightarrow>
          (case prepareContactRespondOwnership (client_of s i) (rbActor b) (rbSignature b) of
             Inl e \<Rightarrow> (Inl (WsOwner e), s)
           | Inr (verified, sig) \<Rightarrow>
               (case Respond ok now (rbRequestID b) verified (rbOutcome b) sig ce of
                  (Inl e, ce1) \<Rightarrow> (Inl (WsContact e), s\<lparr>wsContacts := Some ce1\<rparr>)
                | (Inr req, ce1) \<Rightarrow>
                    (let ce2 = (if rbOutcome b = OutcomeAccepted then AddXP ok (crSender req) 10 (AddXP ok verified 25 ce1) else ce1);
                         (sent, s1) = NotifyContactResolved alive req enc (s\<lparr>wsContacts := Some ce2\<rparr>)
                     in (Inr (req, ContactSettleFromRequest req [], sent), s1)))))"

definition handleContactPricingAnnounce ::
  "prover option \<Rightarrow> bool \<Rightarrow> int \<Rightarrow> string \<Rightarrow> PricingAnnounce \<Rightarrow> register_data \<Rightarrow> ws_server \<Rightarrow> (ws_error + PricingAnnounce) \<times> ws_server" where
  "handleContactPricingAnnounce prove ok now i p d s =
     (case wsContacts s of
        None \<Rightarrow> (Inl NoContacts, s)
      | Some ce \<Rightarrow>
          (let addr = TrimSpace (AuthenticatedOwner (client_of s i))
           in if addr = [] then (Inl AddressRequired, s)
              else case ResolveAuthenticatedOwner (if paAddress p = [] then addr else paAddress p) addr of
                  Inl e \<Rightarrow> (Inl (WsOwner e), s)
                | Inr _ \<Rightarrow>
                    (case prove of
                       None \<Rightarrow> (Inl NoProver, s)
                     | Some pr \<Rightarrow>
                         (if \<not> pr addr (rdSignature d) (rdMnemonic d) (rdAlphanumeric d) (rdPubMain d) then (Inl NotProved, s)
                          else case SetPricing ok now (p\<lparr>paAddress := addr, paSignature := rdSignature d\<rparr>) ce of
                              (Inl e, ce1) \<Rightarrow> (Inl (WsContact e), s\<lparr>wsContacts := Some ce1\<rparr>)
                            | (Inr q, ce1) \<Rightarrow> (Inr q, s\<lparr>wsContacts := Some ce1\<rparr>)))))"

subsection \<open>Normal addresses\<close>

lemma lower_hex_ToLower: "list_all is_lower_hex s \<Longrightarrow> ToLower s = s"
  by (induction s) (simp_all add: ToLower_def)

lemma is_lower_hex_not_space: "is_lower_hex c \<Longrightarrow> \<not> is_space c"
  by (auto simp: is_lower_hex_def is_digit_def is_space_def)

lemma normalize_idem [simp]:
  "normalizePlatariumAddress (normalizePlatariumAddress a) = normalizePlatariumAddress a"
proof -
  define v where "v = TrimSpace a"
  have v: "TrimSpace v = v" by (simp add: v_def)
  show ?thesis
  proof (cases "3 \<le> length v \<and> (HasPrefix v ''Px'' \<or> HasPrefix v ''px'') \<and> isHexString (ToLower (drop 2 v))")
    case True
    let ?h = "ToLower (drop 2 v)"
    have n: "normalizePlatariumAddress a = ''Px'' @ ?h"
      using True by (auto simp: normalizePlatariumAddress_def Let_def v_def [symmetric])
    have h: "list_all is_lower_hex ?h" "?h \<noteq> []" using True by (simp_all add: isHexString_def)
    have "\<not> is_space (last ?h)" using h is_lower_hex_not_space by (auto simp: list_all_iff)
    moreover have "\<not> is_space (CHR ''P'')" by code_simp
    ultimately have "TrimSpace (''Px'' @ ?h) = ''Px'' @ ?h"
      using h(2) by (intro TrimSpace_trimmed) (simp add: trimmed_def)
    moreover have "3 \<le> length (''Px'' @ ?h)" using h(2) by (cases ?h) auto
    ultimately show ?thesis
      unfolding n using h by (auto simp: normalizePlatariumAddress_def Let_def HasPrefix_def isHexString_def)
  next
    case False
    then have n: "normalizePlatariumAddress a = v" by (auto simp: normalizePlatariumAddress_def Let_def v_def [symmetric])
    show ?thesis unfolding n using n by (simp add: normalizePlatariumAddress_def v v_def [symmetric])
  qed
qed

subsection \<open>Sessions\<close>

definition session_ok :: "ws_server \<Rightarrow> string \<Rightarrow> string \<Rightarrow> bool" where
  "session_ok s a i \<longleftrightarrow>
     (\<exists>c. map_of (wsObjs s) i = Some c \<and> clAddress c = a \<and> a \<noteq> [] \<and> clDeviceID c \<noteq> [])"

definition ws_ok :: "(string \<Rightarrow> bool) \<Rightarrow> ws_server \<Rightarrow> bool" where
  "ws_ok proved s \<longleftrightarrow>
     wf_map (wsByAddr s)
     \<and> (\<forall>a. distinct (sessions s a))
     \<and> (\<forall>a. \<forall>i \<in> set (sessions s a). session_ok s a i)
     \<and> (\<forall>a. \<forall>i \<in> set (sessions s a). \<forall>j \<in> set (sessions s a). clDeviceID (client_of s i) = clDeviceID (client_of s j) \<longrightarrow> i = j)
     \<and> (\<forall>i c. map_of (wsObjs s) i = Some c \<longrightarrow> normalizePlatariumAddress (clAddress c) = clAddress c)
     \<and> (\<forall>i c. map_of (wsObjs s) i = Some c \<longrightarrow> clAuthenticated c \<longrightarrow> proved (clAddress c))"

lemma ws_okD:
  assumes "ws_ok proved s"
  shows "wf_map (wsByAddr s)" and "distinct (sessions s a)" and "i \<in> set (sessions s a) \<Longrightarrow> session_ok s a i"
    and "i \<in> set (sessions s a) \<Longrightarrow> j \<in> set (sessions s a) \<Longrightarrow> clDeviceID (client_of s i) = clDeviceID (client_of s j) \<Longrightarrow> i = j"
    and "map_of (wsObjs s) i = Some c \<Longrightarrow> normalizePlatariumAddress (clAddress c) = clAddress c"
    and "map_of (wsObjs s) i = Some c \<Longrightarrow> clAuthenticated c \<Longrightarrow> proved (clAddress c)"
  using assms unfolding ws_ok_def by blast+

text \<open>Removing sessions, buffers, keys or contacts keeps the invariant.\<close>

lemma shrink_ok:
  assumes ok: "ws_ok proved s" and objs: "wsObjs t = wsObjs s" and wf: "wf_map (wsByAddr t)"
    and sub: "\<And>a. \<exists>P. sessions t a = filter P (sessions s a)"
  shows "ws_ok proved t"
proof -
  have mem: "set (sessions t a) \<subseteq> set (sessions s a)" and dist: "distinct (sessions t a)" for a
    using sub [of a] ws_okD(2) [OF ok, of a] by auto
  have c: "client_of t = client_of s" by (simp add: client_of_def objs fun_eq_iff)
  show ?thesis
    unfolding ws_ok_def objs c
  proof (intro conjI allI ballI impI)
    show "session_ok t a i" if "i \<in> set (sessions t a)" for a i
      using that mem ws_okD(3) [OF ok] unfolding session_ok_def objs by blast
    show "i = j" if "i \<in> set (sessions t a)" "j \<in> set (sessions t a)" "clDeviceID (client_of s i) = clDeviceID (client_of s j)" for a i j
      using that mem ws_okD(4) [OF ok] by blast
  qed (use wf dist ws_okD(5,6) [OF ok] in auto)
qed

lemma sessions_cong: "wsByAddr t = wsByAddr s \<Longrightarrow> sessions t a = sessions s a"
  by (simp add: sessions_def)

lemma same_sessions_ok:
  assumes "ws_ok proved s" "wsObjs t = wsObjs s" "wsByAddr t = wsByAddr s"
  shows "ws_ok proved t"
  using assms(1,2)
proof (rule shrink_ok)
  show "wf_map (wsByAddr t)" using ws_okD(1) [OF assms(1)] assms(3) by simp
  show "\<exists>P. sessions t a = filter P (sessions s a)" for a
    using sessions_cong [OF assms(3), of a] by (intro exI [of _ "\<lambda>_. True"]) simp
qed

lemma remove_simps [simp]:
  "wsObjs (removeClientFromAddrLocked a i s) = wsObjs s" "wsClients (removeClientFromAddrLocked a i s) = wsClients s"
  "wsOffline (removeClientFromAddrLocked a i s) = wsOffline s" "wsKeys (removeClientFromAddrLocked a i s) = wsKeys s"
  "wsHits (removeClientFromAddrLocked a i s) = wsHits s" "wsContacts (removeClientFromAddrLocked a i s) = wsContacts s"
  by (simp_all add: removeClientFromAddrLocked_def Let_def split: option.split)

lemma remove_sessions:
  assumes "wf_map (wsByAddr s)"
  shows "sessions (removeClientFromAddrLocked a i s) b = (if b = a then filter (\<lambda>j. j \<noteq> i) (sessions s a) else sessions s b)"
  using assms
  by (auto simp: removeClientFromAddrLocked_def sessions_def Let_def delete_conv' update_conv' simp del: map_of_eq_Some_iff split: option.split)

lemma remove_wf: "wf_map (wsByAddr s) \<Longrightarrow> wf_map (wsByAddr (removeClientFromAddrLocked a i s))"
  by (simp add: removeClientFromAddrLocked_def Let_def split: option.split)

lemma remove_ok: "ws_ok proved s \<Longrightarrow> ws_ok proved (removeClientFromAddrLocked a i s)"
proof (rule shrink_ok)
  assume ok: "ws_ok proved s"
  show "wf_map (wsByAddr (removeClientFromAddrLocked a i s))" using remove_wf ws_okD(1) [OF ok] by blast
  show "\<exists>P. sessions (removeClientFromAddrLocked a i s) b = filter P (sessions s b)" for b
    using remove_sessions [OF ws_okD(1) [OF ok], of a i b]
    by (intro exI [of _ "\<lambda>j. b = a \<longrightarrow> j \<noteq> i"]) (auto intro: filter_cong)
qed simp_all

lemma drop_dead_ok: "ws_ok proved s \<Longrightarrow> ws_ok proved (drop_dead dead s)"
proof (induction dead arbitrary: s)
  case (Cons i dead)
  let ?t = "(if clAddress (client_of s i) \<noteq> [] then removeClientFromAddrLocked (clAddress (client_of s i)) i s else s)
              \<lparr>wsClients := removeAll i (wsClients s)\<rparr>"
  have "ws_ok proved ?t"
    using remove_ok [OF Cons.prems] Cons.prems by (auto intro: same_sessions_ok [of proved s] same_sessions_ok [of proved "removeClientFromAddrLocked (clAddress (client_of s i)) i s"])
  then have "ws_ok proved (drop_dead dead ?t)" by (rule Cons.IH)
  moreover have "drop_dead (i # dead) s = drop_dead dead ?t" by (simp add: drop_dead_def)
  ultimately show ?case by simp
qed (simp add: drop_dead_def)

lemma drop_dead_objs [simp]: "wsObjs (drop_dead dead s) = wsObjs s" "wsOffline (drop_dead dead s) = wsOffline s"
    "wsContacts (drop_dead dead s) = wsContacts s" "wsHits (drop_dead dead s) = wsHits s" "wsKeys (drop_dead dead s) = wsKeys s"
  unfolding drop_dead_def by (induction dead arbitrary: s) simp_all

lemma fanOut_ok: "ws_ok proved s \<Longrightarrow> ws_ok proved (snd (fanOutJSON alive a p s))"
  by (simp add: fanOutJSON_def drop_dead_ok)

lemma fanOut_simps [simp]:
  "wsObjs (snd (fanOutJSON alive a p s)) = wsObjs s" "wsOffline (snd (fanOutJSON alive a p s)) = wsOffline s"
  "wsContacts (snd (fanOutJSON alive a p s)) = wsContacts s" "wsHits (snd (fanOutJSON alive a p s)) = wsHits s"
  by (simp_all add: fanOutJSON_def)

text \<open>Binding: the client leaves its old address, older sessions of its device lose theirs, and it joins the new one.\<close>

lemma set_client_simps [simp]:
  "wsByAddr (set_client i c s) = wsByAddr s" "wsOffline (set_client i c s) = wsOffline s"
  "map_of (wsObjs (set_client i c s)) j = (if j = i then Some c else map_of (wsObjs s) j)"
  "sessions (set_client i c s) a = sessions s a"
  by (simp_all add: set_client_def sessions_def update_conv')

lemma add_sessions:
  "sessions (addClientToAddrLocked a i s) b =
     (if b = a then List.insert i (filter (\<lambda>j. j \<notin> set (replaced s a i)) (sessions s a)) else sessions s b)"
  by (simp add: addClientToAddrLocked_def sessions_def Let_def update_conv')

lemma map_of_map_key: "map_of (map (\<lambda>(j, c). (j, f j c)) xs) k = map_option (f k) (map_of xs k)"
  by (induction xs) auto

lemma add_objs:
  "map_of (wsObjs (addClientToAddrLocked a i s)) j =
     map_option (\<lambda>c. if j \<in> set (replaced s a i) then c\<lparr>clAddress := [], clAuthenticated := False\<rparr> else c) (map_of (wsObjs s) j)"
  by (simp add: addClientToAddrLocked_def Let_def map_of_map_key)

lemma normalize_Nil [simp]: "normalizePlatariumAddress [] = []"
  by (simp add: normalizePlatariumAddress_def TrimSpace_def)

lemma only_address:
  assumes "ws_ok proved s" "i \<in> set (sessions s a)" "i \<in> set (sessions s b)"
  shows "a = b"
  using ws_okD(3) [OF assms(1,2)] ws_okD(3) [OF assms(1,3)] by (auto simp: session_ok_def)

lemma bound_ok:
  assumes ok: "ws_ok proved s" and nowhere: "\<And>b. b \<noteq> a \<Longrightarrow> i \<notin> set (sessions s b)"
    and c: "clAddress c = a" "normalizePlatariumAddress a = a" "clDeviceID c \<noteq> []" "clAuthenticated c \<Longrightarrow> proved a" "a \<noteq> []"
  shows "ws_ok proved (addClientToAddrLocked a i (set_client i c s))"
proof -
  let ?s = "set_client i c s"
  let ?t = "addClientToAddrLocked a i ?s"
  let ?R = "set (replaced ?s a i)"
  have ci: "client_of ?s i = c" by (simp add: client_of_def)
  have cj: "j \<noteq> i \<Longrightarrow> client_of ?s j = client_of s j" for j by (simp add: client_of_def)
  have R: "?R = {j \<in> set (sessions s a). clDeviceID (client_of s j) = clDeviceID c \<and> j \<noteq> i}"
    using c(3) cj by (auto simp: replaced_def Let_def ci)
  have objs: "map_of (wsObjs ?t) j = (if j = i then Some c
      else map_option (\<lambda>x. if j \<in> ?R then x\<lparr>clAddress := [], clAuthenticated := False\<rparr> else x) (map_of (wsObjs s) j))" for j
    using R by (simp add: add_objs)
  have dev: "clDeviceID (client_of ?t j) = (if j = i then clDeviceID c else clDeviceID (client_of s j))"
    if "j = i \<or> map_of (wsObjs s) j \<noteq> None" for j
    using that by (auto simp: client_of_def objs)
  have ses: "set (sessions ?t b) = (if b = a then insert i (set (sessions s a) - ?R) else set (sessions s b))" for b
    by (auto simp: add_sessions)
  have live: "map_of (wsObjs s) j \<noteq> None" if "j \<in> set (sessions s b)" for j b
    using ws_okD(3) [OF ok that] by (auto simp: session_ok_def)
  have other: "session_ok ?t b j" if j: "j \<in> set (sessions s b)" "j \<noteq> i" "j \<notin> ?R" for b j
    using ws_okD(3) [OF ok j(1)] j(2,3) by (auto simp: session_ok_def objs)
  show ?thesis
    unfolding ws_ok_def
  proof (intro conjI allI ballI impI)
    show "wf_map (wsByAddr ?t)" using ws_okD(1) [OF ok] by (simp add: addClientToAddrLocked_def Let_def)
    show "distinct (sessions ?t b)" for b using ws_okD(2) [OF ok] by (simp add: add_sessions)
    show "session_ok ?t b j" if "j \<in> set (sessions ?t b)" for b j
    proof (cases "j = i")
      case True
      then have "b = a" using that nowhere by (auto simp: ses split: if_splits)
      then show ?thesis using c True by (simp add: session_ok_def objs)
    next
      case False
      have "j \<in> set (sessions s b) \<and> j \<notin> ?R"
      proof (cases "b = a")
        case True
        then show ?thesis using \<open>j \<in> set (sessions ?t b)\<close> False by (simp add: ses)
      next
        case False
        then have "j \<in> set (sessions s b)" using \<open>j \<in> set (sessions ?t b)\<close> by (simp add: ses)
        then show ?thesis using only_address [OF ok, of j b a] False unfolding R by blast
      qed
      then show ?thesis using False other by blast
    qed
    show "j = k" if j: "j \<in> set (sessions ?t b)" and k: "k \<in> set (sessions ?t b)"
        and eq: "clDeviceID (client_of ?t j) = clDeviceID (client_of ?t k)" for b j k
    proof (rule ccontr)
      assume ne: "j \<noteq> k"
      have old: "x \<in> set (sessions s b)" "clDeviceID (client_of ?t x) = clDeviceID (client_of s x)" if "x \<in> set (sessions ?t b)" "x \<noteq> i" for x
        using that live [of x b] dev [of x] by (simp_all add: ses split: if_splits)
      have clash: False if "x \<in> set (sessions ?t b)" "x \<noteq> i" "i \<in> set (sessions ?t b)"
          "clDeviceID (client_of ?t x) = clDeviceID (client_of ?t i)" for x
      proof -
        have "b = a" using that(3) nowhere by (auto simp: ses split: if_splits)
        then have "x \<in> set (sessions s a)" "x \<notin> ?R" using that(1,2) by (simp_all add: ses)
        moreover have "clDeviceID (client_of s x) = clDeviceID c" using old(2) [OF that(1,2)] that(4) dev [of i] by simp
        ultimately show False using that(2) unfolding R by blast
      qed
      show False
      proof (cases "j = i \<or> k = i")
        case True
        then show ?thesis using clash [of j] clash [of k] j k eq ne by auto
      next
        case False
        then show ?thesis using ws_okD(4) [OF ok old(1) [OF j] old(1) [OF k]] old(2) [OF j] old(2) [OF k] eq ne by simp
      qed
    qed
    show "normalizePlatariumAddress (clAddress x) = clAddress x" if "map_of (wsObjs ?t) j = Some x" for j x
      using that c ws_okD(5) [OF ok, of j] by (auto simp: objs split: if_splits)
    show "proved (clAddress x)" if "map_of (wsObjs ?t) j = Some x" "clAuthenticated x" for j x
      using that c ws_okD(6) [OF ok, of j] by (auto simp: objs split: if_splits)
  qed
qed

lemma normalize_nonblank: "TrimSpace a \<noteq> [] \<Longrightarrow> normalizePlatariumAddress a \<noteq> []"
  by (auto simp: normalizePlatariumAddress_def Let_def)

lemma bind_session_ok:
  assumes ok: "ws_ok proved s" and i: "map_of (wsObjs s) i = Some c" "i \<noteq> []"
    and a: "normalizePlatariumAddress a = a" "a \<noteq> []" "authed \<Longrightarrow> proved a"
  shows "ws_ok proved (bind_session i a authed d s)"
proof -
  let ?s1 = "if clAddress c \<noteq> [] \<and> clAddress c \<noteq> a then removeClientFromAddrLocked (clAddress c) i s else s"
  have ci: "client_of s i = c" "normalizePlatariumAddress (clAddress c) = clAddress c"
    using i ws_okD(5) [OF ok i(1)] by (simp_all add: client_of_def)
  have ok1: "ws_ok proved ?s1" using ok remove_ok by simp
  have "i \<notin> set (sessions ?s1 b)" if "b \<noteq> a" for b
    using that ws_okD(3) [OF ok, of i b] i(1) by (auto simp: session_ok_def remove_sessions [OF ws_okD(1) [OF ok]])
  then show ?thesis
    unfolding bind_session_def Let_def ci using i(2) a by (intro bound_ok [OF ok1]) simp_all
qed

lemma register_ok:
  assumes ok: "ws_ok proved s" and i: "map_of (wsObjs s) i = Some c" "i \<noteq> []" and raw: "TrimSpace (rdAddress d) \<noteq> []"
    and prove: "\<And>p. prove = Some p \<Longrightarrow> (\<And>a g m x k. p a g m x k \<Longrightarrow> proved a)"
  shows "ws_ok proved (snd (bindClientRegister prove now n i d s))"
proof (cases "resolveRegisterAuthentication prove (normalizePlatariumAddress (rdAddress d)) d")
  case (Inl e)
  then show ?thesis using ok by (simp add: bindClientRegister_def Let_def)
next
  case (Inr authed)
  let ?a = "normalizePlatariumAddress (rdAddress d)"
  let ?s1 = "bind_session i ?a authed d s"
  have "authed \<Longrightarrow> proved ?a"
    using Inr prove by (auto simp: resolveRegisterAuthentication_def split: if_splits option.splits)
  then have ok1: "ws_ok proved ?s1"
    using normalize_nonblank [OF raw] by (intro bind_session_ok [OF ok i]) simp_all
  have "wsObjs (snd (bindClientRegister prove now n i d s)) = wsObjs ?s1" "wsByAddr (snd (bindClientRegister prove now n i d s)) = wsByAddr ?s1"
    using raw Inr by (auto simp: bindClientRegister_def take_pending_def Let_def TrimSpace_def)
  then show ?thesis by (rule same_sessions_ok [OF ok1])
qed

subsection \<open>Runs of the server\<close>

datatype ws_event =
    SocketOpened string string int
  | HandlerReturned string
  | RegisterReceived int nat string register_data
  | MessageReceived "string \<Rightarrow> bool" int string string string string
  | PeerMessageReceived "string \<Rightarrow> bool" int string string string int
  | JanitorRun int
  | ContactRequestReceived "ContactRequest \<Rightarrow> string" "string \<Rightarrow> bool" bool "contact_store \<Rightarrow> contact_store" int string ContactRequest
  | ContactAnswerReceived "string \<Rightarrow> bool" bool int string respond_body string
  | PricingReceived bool int string PricingAnnounce register_data

fun ws_step :: "prover option \<Rightarrow> ws_server \<Rightarrow> ws_event \<Rightarrow> ws_server" where
  "ws_step prove s (SocketOpened i ip now) = ws_connect i ip now s"
| "ws_step prove s (HandlerReturned i) = ws_cleanup i s"
| "ws_step prove s (RegisterReceived now n i d) = snd (bindClientRegister prove now n i d s)"
| "ws_step prove s (MessageReceived alive now i to text purpose) = snd (snd (handleDirectMessage alive now i to text purpose s))"
| "ws_step prove s (PeerMessageReceived alive now to from text ts) = snd (HandleIncomingPeerMessage alive now to from text ts s)"
| "ws_step prove s (JanitorRun now) = pruneExpiredOfflineMessages now s"
| "ws_step prove s (ContactRequestReceived marshal alive ok mid now i d) = snd (handleContactRequestWS marshal alive ok mid now i d s)"
| "ws_step prove s (ContactAnswerReceived alive ok now i b enc) = snd (applyContactRespondWS alive ok now i b enc s)"
| "ws_step prove s (PricingReceived ok now i p d) = snd (handleContactPricingAnnounce prove ok now i p d s)"

text \<open>Client identifiers are fresh; a client registers an address that is not blank.\<close>

fun ws_covered :: "ws_server \<Rightarrow> ws_event \<Rightarrow> bool" where
  "ws_covered s (SocketOpened i ip now) \<longleftrightarrow> i \<noteq> [] \<and> map_of (wsObjs s) i = None"
| "ws_covered s (RegisterReceived now n i d) \<longleftrightarrow> i \<noteq> [] \<and> map_of (wsObjs s) i \<noteq> None \<and> TrimSpace (rdAddress d) \<noteq> []"
| "ws_covered s _ \<longleftrightarrow> True"

lemma connect_ok:
  assumes ok: "ws_ok proved s" and new: "map_of (wsObjs s) i = None"
  shows "ws_ok proved (ws_connect i ip now s)"
proof -
  let ?t = "ws_connect i ip now s"
  have objs: "map_of (wsObjs ?t) j = (if j = i then Some \<lparr>clIPAddress = ip, clConnectedAt = now, clAddress = [], clAuthenticated = False,
      clDeviceID = [], clDeviceLabel = []\<rparr> else map_of (wsObjs s) j)" and ses: "sessions ?t a = sessions s a"
    and ba: "wsByAddr ?t = wsByAddr s" for j a
    by (simp_all add: ws_connect_def set_client_def sessions_def update_conv')
  have "i \<notin> set (sessions s a)" for a using ws_okD(3) [OF ok, of i a] new by (auto simp: session_ok_def)
  then have cl: "client_of ?t j = client_of s j" "session_ok ?t a j = session_ok s a j" if "j \<in> set (sessions s a)" for j a
    using that objs [of j] by (auto simp: client_of_def session_ok_def)
  show ?thesis
    unfolding ws_ok_def ses ba
  proof (intro conjI allI ballI impI)
    show "j = k" if "j \<in> set (sessions s a)" "k \<in> set (sessions s a)" "clDeviceID (client_of ?t j) = clDeviceID (client_of ?t k)" for j k a
      using that cl(1) ws_okD(4) [OF ok, of j a k] by auto
    show "session_ok ?t a j" if "j \<in> set (sessions s a)" for a j using that cl(2) ws_okD(3) [OF ok] by blast
  qed (use ws_okD(1,2,5,6) [OF ok] in \<open>auto simp: objs split: if_splits\<close>)
qed

lemma cleanup_ok: "ws_ok proved s \<Longrightarrow> ws_ok proved (ws_cleanup i s)"
proof -
  assume ok: "ws_ok proved s"
  then have "ws_ok proved (s\<lparr>wsClients := removeAll i (wsClients s)\<rparr>)" by (rule same_sessions_ok) simp_all
  then show ?thesis using ok remove_ok by (simp add: ws_cleanup_def Let_def)
qed

lemma push_offline_simps [simp]:
  "wsObjs (push_offline m s) = wsObjs s" "wsByAddr (push_offline m s) = wsByAddr s" "wsContacts (push_offline m s) = wsContacts s"
  by (simp_all add: push_offline_def Let_def)

lemma dm_check_simps [simp]:
  "wsObjs (snd (dm_check f t x g n s)) = wsObjs s" "wsByAddr (snd (dm_check f t x g n s)) = wsByAddr s"
  "wsOffline (snd (dm_check f t x g n s)) = wsOffline s" "wsContacts (snd (dm_check f t x g n s)) = wsContacts s"
  by (simp_all add: dm_check_def allowGroupProtocolSend_def Let_def split_beta split: option.split)

lemma push_ok: "ws_ok proved s \<Longrightarrow> ws_ok proved (push_offline m s)"
  by (rule same_sessions_ok) simp_all

lemma direct_ok:
  assumes ok: "ws_ok proved s"
  shows "ws_ok proved (snd (snd (handleDirectMessage alive now i to text purpose s)))"
proof -
  obtain e s1 where chk: "dm_check (clAddress (client_of s i)) (normalizePlatariumAddress to) text
      (TrimSpace purpose = ''group_protocol'') now s = (e, s1)" by force
  have "ws_ok proved (snd (dm_check (clAddress (client_of s i)) (normalizePlatariumAddress to) text
      (TrimSpace purpose = ''group_protocol'') now s))"
    by (rule same_sessions_ok [OF ok]) simp_all
  then have ok1: "ws_ok proved s1" by (simp only: chk snd_conv)
  show ?thesis
    using ok ok1 push_ok fanOut_ok [OF ok1]
    by (cases e) (auto simp: handleDirectMessage_def chk Let_def split_beta)
qed

lemma peer_ok: "ws_ok proved s \<Longrightarrow> ws_ok proved (snd (HandleIncomingPeerMessage alive now to from text ts s))"
  using push_ok fanOut_ok by (auto simp: HandleIncomingPeerMessage_def Let_def split_beta)

lemma contacts_ok: "ws_ok proved s \<Longrightarrow> ws_ok proved (s\<lparr>wsContacts := c\<rparr>)"
  by (rule same_sessions_ok) simp_all

lemma deliver_ok: "ws_ok proved s \<Longrightarrow> ws_ok proved (snd (DeliverContactRequest marshal alive now req s))"
proof -
  assume ok: "ws_ok proved s"
  let ?s1 = "snd (fanOutJSON alive (normalizePlatariumAddress (crReceiver req)) (ContactMsg req) s)"
  have "ws_ok proved ?s1" using ok by (rule fanOut_ok)
  moreover have "ws_ok proved (?s1\<lparr>wsOffline := x\<rparr>)" for x by (rule same_sessions_ok [OF \<open>ws_ok proved ?s1\<close>]) simp_all
  ultimately show ?thesis by (simp add: DeliverContactRequest_def Let_def split_beta)
qed

lemma notify_ok: "ws_ok proved s \<Longrightarrow> ws_ok proved (snd (NotifyContactResolved alive req enc s))"
  by (simp add: NotifyContactResolved_def Let_def split_beta fanOut_ok)

lemma request_ws_ok: "ws_ok proved s \<Longrightarrow> ws_ok proved (snd (handleContactRequestWS marshal alive ok mid now i d s))"
  using contacts_ok deliver_ok
  by (auto simp: handleContactRequestWS_def Let_def split_beta split: option.split prod.split sum.split)

lemma answer_ok: "ws_ok proved s \<Longrightarrow> ws_ok proved (snd (applyContactRespondWS alive ok now i b enc s))"
  using contacts_ok notify_ok
  by (auto simp: applyContactRespondWS_def Let_def split_beta split: option.split prod.split sum.split)

lemma pricing_ok: "ws_ok proved s \<Longrightarrow> ws_ok proved (snd (handleContactPricingAnnounce prove ok now i p d s))"
  using contacts_ok by (auto simp: handleContactPricingAnnounce_def Let_def split: option.split prod.split sum.split)

lemma janitor_ok: "ws_ok proved s \<Longrightarrow> ws_ok proved (pruneExpiredOfflineMessages now s)"
  by (rule same_sessions_ok) (simp_all add: pruneExpiredOfflineMessages_def)

definition provable :: "prover option \<Rightarrow> string \<Rightarrow> bool" where
  "provable prove a \<longleftrightarrow> (\<exists>p sig mnemonic alphanumeric pubMain. prove = Some p \<and> p a sig mnemonic alphanumeric pubMain)"

lemma ws_step_ok:
  assumes ok: "ws_ok (provable prove) s" and "ws_covered s e"
  shows "ws_ok (provable prove) (ws_step prove s e)"
proof (cases e)
  case (RegisterReceived now n i d)
  then obtain c where "map_of (wsObjs s) i = Some c" using assms(2) by auto
  then have "ws_ok (provable prove) (snd (bindClientRegister prove now n i d s))"
    using assms(2) RegisterReceived by (intro register_ok [OF ok]) (auto simp: provable_def)
  then show ?thesis by (simp add: RegisterReceived)
qed (use assms connect_ok cleanup_ok direct_ok peer_ok janitor_ok request_ws_ok answer_ok pricing_ok in simp_all)

interpretation messaging: guarded_machine "ws_step prove" "ws_ok (provable prove)" ws_covered "\<lambda>s t. True" for prove
  by unfold_locales (use ws_step_ok in auto)

lemma NewServer_ok: "ws_ok proved (SetContactEconomy ce NewServer)"
  by (simp add: ws_ok_def NewServer_def SetContactEconomy_def sessions_def)

text \<open>What makes a session authenticated: an earlier registration of that same socket, for that address, whose proof
  the prover accepted, and after which the socket was not opened anew and registered only in vain.\<close>

definition refused_register :: "prover option \<Rightarrow> register_data \<Rightarrow> bool" where
  "refused_register prove d \<longleftrightarrow>
     rdAddress d = [] \<or> (\<exists>e. resolveRegisterAuthentication prove (normalizePlatariumAddress (rdAddress d)) d = Inl e)"

fun keeps_login :: "prover option \<Rightarrow> string \<Rightarrow> ws_event \<Rightarrow> bool" where
  "keeps_login prove i (SocketOpened j ip now) \<longleftrightarrow> j \<noteq> i"
| "keeps_login prove i (RegisterReceived now n j d) \<longleftrightarrow> j \<noteq> i \<or> refused_register prove d"
| "keeps_login prove i _ \<longleftrightarrow> True"

definition logged_in :: "prover option \<Rightarrow> ws_event list \<Rightarrow> string \<Rightarrow> string \<Rightarrow> bool" where
  "logged_in prove es i a \<longleftrightarrow>
     (\<exists>pre now n d post p. es = pre @ RegisterReceived now n i d # post \<and> list_all (keeps_login prove i) post \<and>
        normalizePlatariumAddress (rdAddress d) = a \<and> has_proof d \<and> prove = Some p \<and>
        p a (rdSignature d) (rdMnemonic d) (rdAlphanumeric d) (rdPubMain d))"

lemma remove_objs [simp]: "wsObjs (removeClientFromAddrLocked a i s) = wsObjs s"
  by (simp add: removeClientFromAddrLocked_def Let_def split: option.split)

lemma deliver_objs: "wsObjs (snd (DeliverContactRequest marshal alive now req s)) = wsObjs s"
  by (simp add: DeliverContactRequest_def Let_def split_beta)

lemma notify_objs: "wsObjs (snd (NotifyContactResolved alive req enc s)) = wsObjs s"
  by (simp add: NotifyContactResolved_def Let_def split_beta)

lemma direct_objs: "wsObjs (snd (snd (handleDirectMessage alive now i to text purpose s))) = wsObjs s"
proof -
  obtain e s1 where chk: "dm_check (clAddress (client_of s i)) (normalizePlatariumAddress to) text
      (TrimSpace purpose = ''group_protocol'') now s = (e, s1)" by force
  have "wsObjs s1 = wsObjs s"
    using dm_check_simps(1) [of "clAddress (client_of s i)" "normalizePlatariumAddress to" "text" "TrimSpace purpose = ''group_protocol''" now s]
    by (simp add: chk)
  then show ?thesis by (cases e) (simp_all add: handleDirectMessage_def chk Let_def split_beta)
qed

lemma other_step_objs:
  assumes "\<And>j ip now. e \<noteq> SocketOpened j ip now" and "\<And>now n j d. e \<noteq> RegisterReceived now n j d"
  shows "wsObjs (ws_step prove s e) = wsObjs s"
proof (cases e)
  case (ContactRequestReceived marshal alive ok mid now i d)
  then show ?thesis by (auto simp: handleContactRequestWS_def Let_def split_beta deliver_objs split: option.split prod.split sum.split)
next
  case (ContactAnswerReceived alive ok now i b enc)
  then show ?thesis by (auto simp: applyContactRespondWS_def Let_def split_beta notify_objs split: option.split prod.split sum.split)
next
  case (PricingReceived ok now i p d)
  then show ?thesis by (auto simp: handleContactPricingAnnounce_def Let_def split: option.split prod.split sum.split)
next
  case (PeerMessageReceived alive now to "from" "text" ts)
  then show ?thesis by (simp add: HandleIncomingPeerMessage_def Let_def split_beta)
next
  case (JanitorRun now)
  then show ?thesis by (simp add: pruneExpiredOfflineMessages_def)
qed (use assms in \<open>simp_all add: ws_cleanup_def Let_def direct_objs\<close>)

lemma bind_session_objs:
  assumes "map_of (wsObjs (bind_session i a authed d s)) j = Some c" "clAuthenticated c"
  shows "if j = i then clAddress c = a \<and> authed else map_of (wsObjs s) j = Some c"
  using assms by (auto simp: bind_session_def Let_def add_objs replaced_def split: if_splits)

lemma register_objs:
  assumes "map_of (wsObjs (snd (bindClientRegister prove now n i d s))) j = Some c" "clAuthenticated c"
    and "j = i \<Longrightarrow> \<not> refused_register prove d"
  shows "if j = i then clAddress c = normalizePlatariumAddress (rdAddress d) \<and>
      resolveRegisterAuthentication prove (clAddress c) d = Inr True else map_of (wsObjs s) j = Some c"
proof (cases "refused_register prove d")
  case True
  then have "bindClientRegister prove now n i d s = (fst (bindClientRegister prove now n i d s), s)"
    by (auto simp: refused_register_def bindClientRegister_def Let_def)
  then have "snd (bindClientRegister prove now n i d s) = s" by (metis snd_conv)
  then show ?thesis using assms True by auto
next
  case False
  then obtain authed where r: "resolveRegisterAuthentication prove (normalizePlatariumAddress (rdAddress d)) d = Inr authed" "rdAddress d \<noteq> []"
    by (cases "resolveRegisterAuthentication prove (normalizePlatariumAddress (rdAddress d)) d") (auto simp: refused_register_def)
  then have "wsObjs (snd (bindClientRegister prove now n i d s)) = wsObjs (bind_session i (normalizePlatariumAddress (rdAddress d)) authed d s)"
    by (auto simp: bindClientRegister_def take_pending_def Let_def)
  then have "map_of (wsObjs (bind_session i (normalizePlatariumAddress (rdAddress d)) authed d s)) j = Some c" using assms(1) by simp
  from bind_session_objs [OF this assms(2)] r show ?thesis by (auto split: if_splits)
qed

lemma logged_in_snoc: "logged_in prove es i a \<Longrightarrow> keeps_login prove i e \<Longrightarrow> logged_in prove (es @ [e]) i a"
proof -
  assume "logged_in prove es i a" and e: "keeps_login prove i e"
  then obtain pre now n d post p where "es = pre @ RegisterReceived now n i d # post" "list_all (keeps_login prove i) post"
    "normalizePlatariumAddress (rdAddress d) = a" "has_proof d" "prove = Some p" "p a (rdSignature d) (rdMnemonic d) (rdAlphanumeric d) (rdPubMain d)"
    unfolding logged_in_def by blast
  then show ?thesis unfolding logged_in_def
    using e by (intro exI [of _ pre] exI [of _ now] exI [of _ n] exI [of _ d] exI [of _ "post @ [e]"] exI [of _ p]) simp
qed

lemma session_logged_in:
  assumes "map_of (wsObjs (foldl (ws_step prove) (SetContactEconomy ce NewServer) es)) i = Some c" "clAuthenticated c"
  shows "logged_in prove es i (clAddress c)"
  using assms
proof (induction es arbitrary: c rule: rev_induct)
  case Nil
  then show ?case by (simp add: NewServer_def SetContactEconomy_def)
next
  case (snoc e es)
  let ?s = "foldl (ws_step prove) (SetContactEconomy ce NewServer) es"
  have now: "map_of (wsObjs (ws_step prove ?s e)) i = Some c" using snoc.prems(1) by simp
  show ?case
  proof (cases "keeps_login prove i e")
    case True
    have "map_of (wsObjs ?s) i = Some c"
    proof (cases e)
      case (SocketOpened j ip t)
      then show ?thesis using now True by (simp add: ws_connect_def)
    next
      case (RegisterReceived t n j d)
      show ?thesis
      proof (cases "j = i")
        case j: True
        then have "refused_register prove d" using True RegisterReceived by simp
        then have "ws_step prove ?s e = ?s" by (auto simp: RegisterReceived refused_register_def bindClientRegister_def Let_def)
        then show ?thesis using now by simp
      next
        case False
        then show ?thesis using register_objs [of prove t n j d ?s i c] now snoc.prems(2) RegisterReceived by simp
      qed
    qed (use now other_step_objs [of e prove ?s] in simp_all)
    with snoc.IH snoc.prems(2) True show ?thesis by (intro logged_in_snoc) simp_all
  next
    case False
    then consider (opened) ip t where "e = SocketOpened i ip t"
      | (registered) t n d where "e = RegisterReceived t n i d" "\<not> refused_register prove d"
      by (cases e) auto
    then show ?thesis
    proof cases
      case opened
      then show ?thesis using now snoc.prems(2) by (auto simp: ws_connect_def)
    next
      case registered
      then have "clAddress c = normalizePlatariumAddress (rdAddress d)" "resolveRegisterAuthentication prove (clAddress c) d = Inr True"
        using register_objs [of prove t n i d ?s i c] now snoc.prems(2) by auto
      then show ?thesis unfolding logged_in_def registered(1)
        by (intro exI [of _ es] exI [of _ t] exI [of _ n] exI [of _ d] exI [of _ "[]"])
          (auto simp: resolveRegisterAuthentication_def split: if_splits option.splits)
    qed
  qed
qed

text \<open>C28: sessions stay in order, whatever clients and peers send and however sockets come and go, in every run from a
  new server in which each opened socket gets a fresh client id, registrations come from opened sockets, and no client registers an address of
  blanks only (the server accepts it and files the socket under the empty address, where a later registration leaves
  it behind). After it a socket is filed under one address at most, the one in its client record, which is
  in normal form; an address has one session per device; and a client counts as authenticated only if that same
  socket registered, for exactly the address it is bound to, with a proof the ownership prover accepted, and neither
  reconnected nor registered successfully since.\<close>

theorem session_invariant:
  assumes "run_ok (ws_step prove) ws_covered (SetContactEconomy ce NewServer) es"
    and "s = foldl (ws_step prove) (SetContactEconomy ce NewServer) es"
  shows "(\<forall>a. distinct (sessions s a) \<and> (\<forall>i \<in> set (sessions s a).
        (\<exists>c. map_of (wsObjs s) i = Some c \<and> clAddress c = a \<and> normalizePlatariumAddress a = a) \<and>
        (\<forall>b. i \<in> set (sessions s b) \<longrightarrow> b = a) \<and>
        (\<forall>j \<in> set (sessions s a). clDeviceID (client_of s i) = clDeviceID (client_of s j) \<longrightarrow> i = j))) \<and>
    (\<forall>i c. map_of (wsObjs s) i = Some c \<and> clAuthenticated c \<longrightarrow> logged_in prove es i (clAddress c))"
proof -
  have ok: "ws_ok (provable prove) s" unfolding assms(2) using messaging.guarded_run [OF NewServer_ok assms(1)] by blast
  have "(\<exists>c. map_of (wsObjs s) i = Some c \<and> clAddress c = a \<and> normalizePlatariumAddress a = a)" if "i \<in> set (sessions s a)" for i a
    using ws_okD(3,5) [OF ok] that by (fastforce simp: session_ok_def)
  moreover have "\<forall>i c. map_of (wsObjs s) i = Some c \<and> clAuthenticated c \<longrightarrow> logged_in prove es i (clAddress c)"
    unfolding assms(2) using session_logged_in by blast
  ultimately show ?thesis using ws_okD(2,4) [OF ok] only_address [OF ok] by metis
qed

subsection \<open>Routing of direct messages\<close>

lemma drop_dead_sessions:
  assumes "wf_map (wsByAddr s)"
  shows "set (sessions (drop_dead dead s) a) \<subseteq> set (sessions s a)"
  using assms
proof (induction dead arbitrary: s)
  case (Cons i dead)
  let ?r = "if clAddress (client_of s i) \<noteq> [] then removeClientFromAddrLocked (clAddress (client_of s i)) i s else s"
  let ?t = "?r\<lparr>wsClients := removeAll i (wsClients s)\<rparr>"
  have "wf_map (wsByAddr ?t)" using Cons.prems remove_wf by simp
  moreover have "set (sessions ?r a) \<subseteq> set (sessions s a)" using remove_sessions [OF Cons.prems] by auto
  then have "set (sessions ?t a) \<subseteq> set (sessions s a)" using sessions_cong [of ?t ?r a] by simp
  moreover have "drop_dead (i # dead) s = drop_dead dead ?t" by (simp add: drop_dead_def)
  ultimately show ?case using Cons.IH [of ?t] by auto
qed (simp add: drop_dead_def)

lemma buffered_push:
  "buffered (push_offline m s) a =
     (if a = omTo m then drop (length (buffered s a) + 1 - 500) (buffered s a @ [m]) else buffered s a)"
  by (simp add: push_offline_def buffered_def offlineMessageMaxPerRecipient_def Let_def update_conv')

lemma buffered_cong: "wsOffline s = wsOffline t \<Longrightarrow> buffered s = buffered t"
  by (simp add: buffered_def fun_eq_iff)

lemma dm_check_passed:
  assumes "dm_check f t x g now s = (None, s1)"
  shows "f \<noteq> [] \<and> (g \<or> (\<forall>ce. wsContacts s = Some ce \<longrightarrow> CanSendFreeDM ce f t))"
  using assms
  by (auto simp: dm_check_def allowGroupProtocolSend_def Let_def split: if_splits option.splits prod.splits)

definition waiting :: "string \<Rightarrow> string \<Rightarrow> string \<Rightarrow> int \<Rightarrow> OfflineMessage" where
  "waiting f t x now = \<lparr>omFrom = f, omTo = t, omText = x, omTimestamp = now, omBufferedAt = now\<rparr>"

text \<open>C29: what becomes of a direct message. A refused message is neither sent nor stored. An accepted one comes from a
  registered session, is not too long, and passed the first-contact gate unless it is a group message; it reaches every
  live session of the recipient, and only sessions of the recipient and of the sender, under the session's own address
  as sender; if no session of the recipient could be reached it is the last of at most 500 messages waiting for the
  recipient, and no other address's messages change.\<close>

theorem direct_message_routing:
  assumes ok: "ws_ok proved s" and h: "handleDirectMessage alive now i toRaw text purpose s = (r, out, s')"
    and vars: "from1 = clAddress (client_of s i)" "to1 = normalizePlatariumAddress toRaw"
  shows "(\<forall>x \<in> set out. snd x = ChatMsg from1 to1 text now \<and> fst x \<in> set (sessions s to1) \<union> set (sessions s from1))
    \<and> (case r of
         DmRefused e \<Rightarrow> out = [] \<and> buffered s' = buffered s
       | DmBuffered b \<Rightarrow> out = [] \<and> filter alive (sessions s to1) = []
           \<and> buffered s' = (buffered s)(to1 := drop (length (buffered s to1) + 1 - 500) (buffered s to1 @ [waiting from1 to1 text now]))
       | DmDelivered n \<Rightarrow> buffered s' = buffered s \<and> n = length (filter alive (sessions s to1))
           \<and> (\<forall>j \<in> set (sessions s to1). alive j \<longrightarrow> (j, ChatMsg from1 to1 text now) \<in> set out))
    \<and> ((\<exists>e. r = DmRefused e) \<or>
        from1 \<noteq> [] \<and> text \<noteq> [] \<and> length text \<le> 12 * 1024 * 1024
        \<and> (TrimSpace purpose = ''group_protocol'' \<or> (\<forall>ce. wsContacts s = Some ce \<longrightarrow> CanSendFreeDM ce from1 to1)))"
proof (cases "toRaw = [] \<or> text = [] \<or> length text > maxDirectMessageTextBytes")
  case True
  then have "(r, out, s') = (DmRefused InvalidMessage, [], s) \<or> (r, out, s') = (DmRefused MessageTooLarge, [], s)"
    using h by (auto simp: handleDirectMessage_def split: if_splits)
  then show ?thesis by auto
next
  case False
  let ?grp = "TrimSpace purpose = ''group_protocol''"
  obtain e s1 where chk: "dm_check from1 to1 text ?grp now s = (e, s1)" by force
  have s1: "wsByAddr s1 = wsByAddr s" "wsOffline s1 = wsOffline s"
    using dm_check_simps(2,3) [of from1 to1 "text" ?grp now s] by (simp_all add: chk)
  have ses: "sessions s1 a = sessions s a" for a by (rule sessions_cong [OF s1(1)])
  show ?thesis
  proof (cases e)
    case (Some x)
    then have "r = DmRefused x \<and> out = [] \<and> s' = s1"
      using h False chk vars by (auto simp: handleDirectMessage_def Let_def)
    then show ?thesis using buffered_cong [OF s1(2)] by simp
  next
    case None
    let ?m = "waiting from1 to1 text now"
    let ?s2 = "snd (fanOutJSON alive to1 (chat_of ?m) s1)"
    have gate: "from1 \<noteq> [] \<and> text \<noteq> [] \<and> length text \<le> 12 * 1024 * 1024
        \<and> (?grp \<or> (\<forall>ce. wsContacts s = Some ce \<longrightarrow> CanSendFreeDM ce from1 to1))"
      using dm_check_passed [OF chk [unfolded None]] False by (auto simp: maxDirectMessageTextBytes_def)
    have chat: "chat_of ?m = ChatMsg from1 to1 text now" by (simp add: chat_of_def waiting_def)
    have to: "omTo ?m = to1" by (simp add: waiting_def)
    have b2: "buffered ?s2 = buffered s" by (rule buffered_cong) (simp add: s1)
    have b1: "buffered s1 = buffered s" by (rule buffered_cong [OF s1(2)])
    have own: "set (sessions ?s2 from1) \<subseteq> set (sessions s from1)"
      using drop_dead_sessions [of s1 _ from1] ws_okD(1) [OF ok] s1(1) ses by (auto simp: fanOutJSON_def)
    have res: "(r, out, s') =
        (if sessions s1 to1 = [] \<and> (toRaw = to1 \<or> sessions s1 toRaw = []) then (DmBuffered True, [], push_offline ?m s1)
         else if filter alive (sessions s to1) = [] then (DmBuffered False, [], push_offline ?m ?s2)
         else (DmDelivered (length (filter alive (sessions s to1))),
               map (\<lambda>j. (j, chat_of ?m)) (filter alive (sessions s to1)) @
                 (if from1 \<noteq> to1 then map (\<lambda>j. (j, chat_of ?m)) (filter (\<lambda>j. j \<noteq> i \<and> alive j) (sessions ?s2 from1)) else []), ?s2))"
      using h False chk None vars
      by (auto simp: handleDirectMessage_def Let_def waiting_def [symmetric] fanOutJSON_def ses)
    show ?thesis
      using res gate own b1 b2 ses by (auto simp: chat to buffered_push fun_eq_iff split: if_splits)
  qed
qed

subsection \<open>Contacts over a websocket\<close>

lemma prepared_owner:
  assumes "prepareContactRespondOwnership c actor sig = Inr (verified, m)"
  shows "clAuthenticated c \<and> verified = TrimSpace (clAddress c)"
proof -
  from assms obtain x where "ResolveAuthenticatedOwner x (AuthenticatedOwner c) = Inr verified"
    by (auto simp: prepareContactRespondOwnership_def Let_def split: sum.splits option.splits if_splits)
  then show ?thesis
    by (auto simp: ResolveAuthenticatedOwner_def AuthenticatedOwner_def TrimSpace_def Let_def split: if_splits)
qed

text \<open>C30: over a websocket, too, only the receiver answers a contact request. In every run from a new server, without
  restriction on what is sent, if an answer over a socket succeeds, the request was pending and not expired, and the
  socket that answers had itself registered with a proof that the ownership prover accepted, for an address that is
  the receiver's up to case and surrounding spaces, and had neither reconnected nor registered successfully since.\<close>

theorem ws_answer_needs_proof:
  assumes s: "s = foldl (ws_step prove) (SetContactEconomy ce0 NewServer) es"
    and i: "map_of (wsObjs s) i = Some c" and h: "applyContactRespondWS alive ok now i b enc s = (Inr (q, intent, sent), s')"
  shows "logged_in prove es i (clAddress c)
         \<and> (\<exists>ce r. wsContacts s = Some ce \<and> GetRequest ce (rbRequestID b) = Some r \<and> crStatus r = StatusPending
              \<and> now \<le> crExpiresAt r \<and> EqualFold (crReceiver r) (TrimSpace (clAddress c)))"
proof -
  have c: "client_of s i = c" using i by (simp add: client_of_def)
  from h obtain ce verified sig ce1 where w: "wsContacts s = Some ce"
      and own: "prepareContactRespondOwnership c (rbActor b) (rbSignature b) = Inr (verified, sig)"
      and res: "Respond ok now (rbRequestID b) verified (rbOutcome b) sig ce = (Inr q, ce1)"
    by (auto simp: applyContactRespondWS_def c Let_def split: option.splits sum.splits prod.splits)
  note o = prepared_owner [OF own]
  have "logged_in prove es i (clAddress c)" using session_logged_in i o unfolding s by blast
  moreover from Respond_success [OF res] obtain r where "GetRequest ce (rbRequestID b) = Some r" "crStatus r = StatusPending"
      "EqualFold (crReceiver r) (normalize verified)" "now \<le> crExpiresAt r" by blast
  ultimately show ?thesis using o w by (simp add: normalize_def)
qed

subsection \<open>The group protocol's rate\<close>

text \<open>The times at which a sender's group messages were let through, for a sequence of calls.\<close>

fun group_sends :: "string \<Rightarrow> int list \<Rightarrow> ws_server \<Rightarrow> int list" where
  "group_sends a [] s = []"
| "group_sends a (now # ts) s =
     (let (ok, s1) = allowGroupProtocolSend a now s in (if ok then [now] else []) @ group_sends a ts s1)"

definition within :: "int \<Rightarrow> int list \<Rightarrow> nat" where
  "within t ts = length (filter (\<lambda>x. t \<le> x \<and> x \<le> t + 60) ts)"

lemma within_append [simp]: "within t (xs @ ys) = within t xs + within t ys"
  by (simp add: within_def)

lemma hits_after:
  "hits_of (snd (allowGroupProtocolSend a now s)) (normalizePlatariumAddress a) =
     (let kept = filter (\<lambda>x. x \<ge> now - 60) (hits_of s (normalizePlatariumAddress a))
      in if length kept \<ge> 120 then kept else kept @ [now])"
  "fst (allowGroupProtocolSend a now s) \<longleftrightarrow> length (filter (\<lambda>x. x \<ge> now - 60) (hits_of s (normalizePlatariumAddress a))) < 120"
  by (simp_all add: allowGroupProtocolSend_def hits_of_def groupProtocolRateWindowSecs_def groupProtocolRateLimit_def Let_def
      update_conv' not_le)

lemma length_filter_mono: "(\<And>x. P x \<Longrightarrow> Q x) \<Longrightarrow> length (filter P xs) \<le> length (filter Q xs)"
  by (induction xs) (auto simp: le_Suc_eq)

lemma group_sends_within:
  assumes "sorted ts" and "\<forall>x \<in> set A. \<forall>y \<in> set ts. x \<le> y" and "\<forall>t. within t A \<le> 120"
    and "\<forall>y \<in> set ts. filter (\<lambda>x. x \<ge> y - 60) (hits_of s (normalizePlatariumAddress a)) = filter (\<lambda>x. x \<ge> y - 60) A"
  shows "within t (A @ group_sends a ts s) \<le> 120"
  using assms
proof (induction ts arbitrary: A s)
  case (Cons now ts)
  let ?k = "normalizePlatariumAddress a" and ?s = "snd (allowGroupProtocolSend a now s)" and ?ok = "fst (allowGroupProtocolSend a now s)"
  let ?A = "A @ (if ?ok then [now] else [])"
  have kept: "filter (\<lambda>x. x \<ge> now - 60) (hits_of s ?k) = filter (\<lambda>x. x \<ge> now - 60) A" using Cons.prems(4) by simp
  have later: "now \<le> y" if "y \<in> set ts" for y using Cons.prems(1) that by simp
  have "within u ?A \<le> 120" for u
  proof (cases "?ok \<and> u \<le> now \<and> now \<le> u + 60")
    case True
    have "within u A \<le> length (filter (\<lambda>x. x \<ge> now - 60) A)"
      unfolding within_def using True by (intro length_filter_mono) linarith
    then show ?thesis using True kept hits_after(2) [of a now s] by (simp add: within_def)
  next
    case False
    then show ?thesis using Cons.prems(3) by (auto simp: within_def)
  qed
  moreover have "filter (\<lambda>x. x \<ge> y - 60) (hits_of ?s ?k) = filter (\<lambda>x. x \<ge> y - 60) ?A" if "y \<in> set ts" for y
  proof -
    have narrow: "filter (\<lambda>x. x \<ge> y - 60) (filter (\<lambda>x. x \<ge> now - 60) A) = filter (\<lambda>x. x \<ge> y - 60) A"
      using later [OF that] by (auto intro: filter_cong)
    show ?thesis
      using hits_after [of a now s] narrow by (auto simp: kept Let_def simp del: filter_filter)
  qed
  moreover have "\<forall>x \<in> set ?A. \<forall>y \<in> set ts. x \<le> y" using Cons.prems(2) later by auto
  ultimately have "within t (?A @ group_sends a ts ?s) \<le> 120" using Cons.prems(1) by (intro Cons.IH) simp_all
  then show ?case by (simp add: split_beta Let_def)
qed simp

text \<open>Remark: the bypass of the first-contact gate is limited: with a clock that does not run backwards, however often a sender
  tries, at most 120 of its group messages are let through in any 60 seconds.\<close>

theorem group_protocol_rate:
  assumes "sorted clock"
  shows "length (filter (\<lambda>x. t \<le> x \<and> x \<le> t + 60) (group_sends a clock (SetContactEconomy ce NewServer))) \<le> 120"
  using group_sends_within [of clock "[]" "SetContactEconomy ce NewServer" a t] assms
  by (simp add: within_def hits_of_def NewServer_def SetContactEconomy_def)

subsection \<open>Messages for offline addresses\<close>

lemma bind_session_offline [simp]: "wsOffline (bind_session i a authed d s) = wsOffline s"
  by (simp add: bind_session_def addClientToAddrLocked_def Let_def)

lemma register_pending:
  assumes "bindClientRegister prove now n i d s = (Inr (authed, out), s')" and "buffered s (normalizePlatariumAddress (rdAddress d)) \<noteq> []"
  shows "out = map (\<lambda>m. (i, chat_of m)) (take n (filter (\<lambda>m. offlineMessageAgeOK m now) (buffered s (normalizePlatariumAddress (rdAddress d)))))"
    and "buffered s' (normalizePlatariumAddress (rdAddress d)) = []"
proof -
  let ?a = "normalizePlatariumAddress (rdAddress d)"
  let ?s1 = "bind_session i ?a authed d s"
  let ?s2 = "if rdE2ee d \<noteq> [] then ?s1\<lparr>wsKeys := AList.update ?a (rdE2ee d) (wsKeys ?s1)\<rparr> else ?s1"
  have b: "buffered ?s2 = buffered s" by (rule buffered_cong) simp
  have "take_pending (rdAddress d) ?a ?s2 = (buffered s ?a, ?s2\<lparr>wsOffline := AList.delete ?a (wsOffline ?s2)\<rparr>)"
    unfolding take_pending_def b using assms(2) by simp
  moreover have "resolveRegisterAuthentication prove ?a d = Inr authed" "rdAddress d \<noteq> []"
    using assms(1) by (auto simp: bindClientRegister_def Let_def split: if_splits sum.splits prod.splits)
  ultimately have eq: "bindClientRegister prove now n i d s =
      (Inr (authed, map (\<lambda>m. (i, chat_of m)) (take n (filter (\<lambda>m. offlineMessageAgeOK m now) (buffered s ?a)))),
       ?s2\<lparr>wsOffline := AList.delete ?a (wsOffline ?s2)\<rparr>)"
    unfolding bindClientRegister_def Let_def by simp
  then show "out = map (\<lambda>m. (i, chat_of m)) (take n (filter (\<lambda>m. offlineMessageAgeOK m now) (buffered s ?a)))"
    using assms(1) by simp
  have "s' = ?s2\<lparr>wsOffline := AList.delete ?a (wsOffline ?s2)\<rparr>" using assms(1) eq by simp
  then show "buffered s' ?a = []" by (simp add: buffered_def delete_conv')
qed

lemma register_succeeds:
  "resolveRegisterAuthentication prove (normalizePlatariumAddress (rdAddress d)) d = Inr authed \<Longrightarrow> rdAddress d \<noteq> [] \<Longrightarrow>
   \<exists>out s'. bindClientRegister prove now n i d s = (Inr (authed, out), s')"
  by (simp add: bindClientRegister_def Let_def split_beta)

lemma buffered_message:
  assumes "handleDirectMessage alive now i toRaw text purpose s = (DmBuffered r, out, s')"
  shows "buffered s' (normalizePlatariumAddress toRaw) =
    drop (length (buffered s (normalizePlatariumAddress toRaw)) + 1 - 500)
      (buffered s (normalizePlatariumAddress toRaw) @ [waiting (clAddress (client_of s i)) (normalizePlatariumAddress toRaw) text now])"
proof -
  let ?f = "clAddress (client_of s i)" and ?t = "normalizePlatariumAddress toRaw"
  obtain s1 where chk: "dm_check ?f ?t text (TrimSpace purpose = ''group_protocol'') now s = (None, s1)"
      and s': "\<exists>s2. s' = push_offline (waiting ?f ?t text now) s2 \<and> wsOffline s2 = wsOffline s1"
    using assms
    by (fastforce simp: handleDirectMessage_def Let_def waiting_def fanOutJSON_def split: if_splits prod.splits option.splits)
  have "wsOffline s1 = wsOffline s" using dm_check_simps(3) [of ?f ?t "text" "TrimSpace purpose = ''group_protocol''" now s] by (simp add: chk)
  then obtain s2 where "s' = push_offline (waiting ?f ?t text now) s2" "buffered s2 = buffered s" using s' buffered_cong by metis
  then show ?thesis by (simp add: buffered_push waiting_def)
qed

text \<open>What one event does to the messages that wait for an address \<open>t\<close>: nothing, one more message at the end, with the
  oldest ones dropped beyond 500, or the expired ones removed. A registration for \<open>t\<close> itself is left out.\<close>

definition waits_on :: "string \<Rightarrow> (OfflineMessage \<Rightarrow> bool) \<Rightarrow> ws_server \<Rightarrow> ws_server \<Rightarrow> bool" where
  "waits_on t young s s' \<longleftrightarrow>
     (wf_map (wsOffline s) \<longrightarrow> wf_map (wsOffline s')) \<and>
     (\<exists>x k P. k \<le> length (buffered s t) + 1 - 500 \<and> (\<forall>m. young m \<longrightarrow> P m) \<and>
        buffered s' t \<in> {buffered s t, drop k (buffered s t @ [x]), filter P (buffered s t)})"

lemma waits_onI:
  assumes "wf_map (wsOffline s) \<longrightarrow> wf_map (wsOffline s')"
  shows "buffered s' t = buffered s t \<Longrightarrow> waits_on t young s s'"
    and "buffered s' t = drop k (buffered s t @ [x]) \<Longrightarrow> k \<le> length (buffered s t) + 1 - 500 \<Longrightarrow> waits_on t young s s'"
    and "buffered s' t = filter P (buffered s t) \<Longrightarrow> \<forall>m. young m \<longrightarrow> P m \<Longrightarrow> waits_on t young s s'"
  unfolding waits_on_def using assms by (blast, blast, blast)

lemma waits_same: "wsOffline s' = wsOffline s \<Longrightarrow> waits_on t young s s'"
  by (rule waits_onI(1)) (simp_all add: buffered_def)

lemma waits_push:
  assumes "wsOffline s1 = wsOffline s"
  shows "waits_on t young s (push_offline m s1)"
proof -
  have b: "buffered s1 = buffered s" using assms by (rule buffered_cong)
  have wf: "wf_map (wsOffline s) \<longrightarrow> wf_map (wsOffline (push_offline m s1))" using assms by (simp add: push_offline_def Let_def)
  show ?thesis
  proof (cases "t = omTo m")
    case True
    then have "buffered (push_offline m s1) t = drop (length (buffered s t) + 1 - 500) (buffered s t @ [m])" unfolding buffered_push b by simp
    then show ?thesis by (rule waits_onI(2) [OF wf]) (rule order_refl)
  qed (simp add: waits_onI(1) [OF wf] buffered_push b)
qed

lemma buffered_prune:
  assumes "wf_map (wsOffline s)"
  shows "buffered (pruneExpiredOfflineMessages now s) t = filter (\<lambda>m. offlineMessageAgeOK m now) (buffered s t)"
    and "wf_map (wsOffline (pruneExpiredOfflineMessages now s))"
proof -
  let ?f = "\<lambda>b. filter (\<lambda>m. offlineMessageAgeOK m now) b"
  have "distinct (map fst xs) \<Longrightarrow> map_of (filter (\<lambda>(to, b). b \<noteq> []) (map (\<lambda>(to, b). (to, ?f b)) xs)) t =
      (case map_of xs t of None \<Rightarrow> None | Some b \<Rightarrow> if ?f b = [] then None else Some (?f b))" for xs
  proof (induction xs)
    case (Cons x xs)
    have "map_of xs (fst x) = None" using Cons.prems by (simp add: map_of_eq_None_iff)
    then show ?case using Cons by (cases x) (auto split: option.splits)
  qed simp
  then show "buffered (pruneExpiredOfflineMessages now s) t = ?f (buffered s t)"
    using assms by (simp add: pruneExpiredOfflineMessages_def buffered_def split: option.split)
  have "distinct (map fst xs) \<Longrightarrow> distinct (map fst (filter (\<lambda>(to, b). b \<noteq> []) (map (\<lambda>(to, b). (to, ?f b)) xs)))" for xs
    by (rule distinct_map_filter) (simp add: split_beta comp_def)
  then show "wf_map (wsOffline (pruneExpiredOfflineMessages now s))"
    using assms by (simp add: pruneExpiredOfflineMessages_def)
qed

fun spares :: "string \<Rightarrow> int \<Rightarrow> ws_event \<Rightarrow> bool" where
  "spares t until (RegisterReceived now n i d) \<longleftrightarrow> normalizePlatariumAddress (rdAddress d) \<noteq> t"
| "spares t until (JanitorRun now) \<longleftrightarrow> now \<le> until"
| "spares t until _ \<longleftrightarrow> True"

lemma register_spares:
  assumes "normalizePlatariumAddress (rdAddress d) \<noteq> t" "normalizePlatariumAddress t = t"
  shows "waits_on t young s (snd (bindClientRegister prove now n i d s))"
proof -
  have raw: "rdAddress d \<noteq> t" using assms by auto
  have tp: "buffered (snd (take_pending (rdAddress d) (normalizePlatariumAddress (rdAddress d)) s2)) t = buffered s2 t"
    "wf_map (wsOffline s2) \<longrightarrow> wf_map (wsOffline (snd (take_pending (rdAddress d) (normalizePlatariumAddress (rdAddress d)) s2)))" for s2
    using assms(1) raw by (simp_all add: take_pending_def buffered_def delete_conv')
  show ?thesis
  proof (rule waits_onI(1))
    show "buffered (snd (bindClientRegister prove now n i d s)) t = buffered s t"
      using tp(1) by (auto simp: bindClientRegister_def Let_def split_beta buffered_def split: sum.split)
    show "wf_map (wsOffline s) \<longrightarrow> wf_map (wsOffline (snd (bindClientRegister prove now n i d s)))"
      using tp(2) by (auto simp: bindClientRegister_def Let_def split_beta split: sum.split)
  qed
qed

lemma deliver_waits: "waits_on t young s (snd (DeliverContactRequest marshal alive now req s))"
proof -
  let ?to = "normalizePlatariumAddress (crReceiver req)"
  let ?m = "\<lparr>omFrom = crSender req, omTo = ?to, omText = marshal req, omTimestamp = now, omBufferedAt = now\<rparr>"
  obtain sent s1 where f: "fanOutJSON alive ?to (ContactMsg req) s = (sent, s1)" by force
  have o: "wsOffline s1 = wsOffline s" using fanOut_simps(2) [of alive ?to "ContactMsg req" s] by (simp add: f)
  then have b: "buffered s1 = buffered s" by (rule buffered_cong)
  let ?s2 = "s1\<lparr>wsOffline := AList.update ?to (buffered s1 ?to @ [?m]) (wsOffline s1)\<rparr>"
  have wf: "wf_map (wsOffline s) \<longrightarrow> wf_map (wsOffline ?s2)" by (simp add: o)
  have "buffered ?s2 t = (if t = ?to then drop 0 (buffered s t @ [?m]) else buffered s t)"
    by (simp add: buffered_def update_conv' o b)
  then have "waits_on t young s ?s2"
    using waits_onI(1) [OF wf, of t] waits_onI(2) [OF wf, of t 0 ?m] by (cases "t = ?to") simp_all
  then show ?thesis using waits_same [OF o] by (simp add: DeliverContactRequest_def Let_def f)
qed

lemma direct_waits: "waits_on t young s (snd (snd (handleDirectMessage alive now i to text purpose s)))"
proof -
  obtain e s1 where chk: "dm_check (clAddress (client_of s i)) (normalizePlatariumAddress to) text
      (TrimSpace purpose = ''group_protocol'') now s = (e, s1)" by force
  have o: "wsOffline s1 = wsOffline s"
    using dm_check_simps(3) [of "clAddress (client_of s i)" "normalizePlatariumAddress to" "text" "TrimSpace purpose = ''group_protocol''" now s]
    by (simp add: chk)
  then have "wsOffline (snd (fanOutJSON alive a p s1)) = wsOffline s" for a p by simp
  then show ?thesis
    using o waits_push waits_same by (cases e) (auto simp: handleDirectMessage_def chk Let_def split_beta)
qed

lemma ws_step_waits:
  assumes "spares t until e" "normalizePlatariumAddress t = t" and wf: "wf_map (wsOffline s)"
  shows "waits_on t (\<lambda>m. \<forall>now \<le> until. offlineMessageAgeOK m now) s (ws_step prove s e)"
proof (cases e)
  case (RegisterReceived now n i d)
  then show ?thesis using assms by (simp add: register_spares)
next
  case (JanitorRun now)
  have "wf_map (wsOffline s) \<longrightarrow> wf_map (wsOffline (pruneExpiredOfflineMessages now s))" by (simp add: buffered_prune(2))
  then show ?thesis using buffered_prune(1) [OF wf] assms(1) JanitorRun by (auto intro: waits_onI(3))
next
  case (PeerMessageReceived alive now to "from" "text" ts)
  then show ?thesis by (auto simp: HandleIncomingPeerMessage_def Let_def split_beta intro: waits_push waits_same)
next
  case (ContactRequestReceived marshal alive ok mid now i d)
  have "waits_on t y s (snd (DeliverContactRequest marshal alive now req (s\<lparr>wsContacts := ce\<rparr>)))" for y req ce
    using deliver_waits [of t y "s\<lparr>wsContacts := ce\<rparr>"] by (simp add: waits_on_def buffered_def)
  then show ?thesis
    using ContactRequestReceived by (auto simp: handleContactRequestWS_def Let_def split_beta split: option.split prod.split sum.split intro: waits_same)
next
  case (ContactAnswerReceived alive ok now i b enc)
  then show ?thesis
    by (auto simp: applyContactRespondWS_def NotifyContactResolved_def Let_def split_beta split: option.split prod.split sum.split intro!: waits_same)
next
  case (PricingReceived ok now i p d)
  then show ?thesis by (auto simp: handleContactPricingAnnounce_def Let_def split: option.split prod.split sum.split intro: waits_same)
next
  case (MessageReceived alive now i to "text" purpose)
  then show ?thesis by (simp add: direct_waits)
qed (auto simp: ws_connect_def ws_cleanup_def removeClientFromAddrLocked_def Let_def split: option.split intro!: waits_same)

definition still_waits :: "string \<Rightarrow> OfflineMessage \<Rightarrow> nat \<Rightarrow> ws_server \<Rightarrow> bool" where
  "still_waits t m k s \<longleftrightarrow> wf_map (wsOffline s) \<and> (\<exists>xs ys. buffered s t = xs @ m # ys \<and> length ys \<le> k)"

lemma still_waits_on:
  assumes "still_waits t m k s" "waits_on t young s s'" "young m" "Suc k < 500"
  shows "still_waits t m (Suc k) s'"
proof -
  obtain xs ys where b: "buffered s t = xs @ m # ys" "length ys \<le> k" and wf: "wf_map (wsOffline s)"
    using assms(1) unfolding still_waits_def by blast
  obtain x j P where w: "wf_map (wsOffline s')" "j \<le> length (buffered s t) + 1 - 500" "P m"
    "buffered s' t = buffered s t \<or> buffered s' t = drop j (buffered s t @ [x]) \<or> buffered s' t = filter P (buffered s t)"
    using assms(2,3) wf unfolding waits_on_def by blast
  have j: "j \<le> length xs" using w(2) b assms(4) by simp
  from w(4) have "\<exists>us vs. buffered s' t = us @ m # vs \<and> length vs \<le> Suc k"
  proof (elim disjE)
    assume "buffered s' t = drop j (buffered s t @ [x])"
    then have "buffered s' t = drop j xs @ m # (ys @ [x])" using j by (simp add: b(1))
    then show ?thesis using b(2) by (intro exI [of _ "drop j xs"] exI [of _ "ys @ [x]"]) simp
  next
    assume "buffered s' t = filter P (buffered s t)"
    then have "buffered s' t = filter P xs @ m # filter P ys" using w(3) by (simp add: b(1))
    moreover have "length (filter P ys) \<le> Suc k" using b(2) length_filter_le [of P ys] by linarith
    ultimately show ?thesis by blast
  next
    assume "buffered s' t = buffered s t"
    then show ?thesis using b by (intro exI [of _ xs] exI [of _ ys]) simp
  qed
  then show ?thesis using w(1) unfolding still_waits_def by blast
qed

lemma still_waits_run:
  assumes "still_waits t m k s" "\<forall>e \<in> set es. spares t until e" "normalizePlatariumAddress t = t"
    and "\<forall>now \<le> until. offlineMessageAgeOK m now" "k + length es < 500"
  shows "still_waits t m (k + length es) (foldl (ws_step prove) s es)"
  using assms
proof (induction es arbitrary: s k)
  case (Cons e es)
  have "wf_map (wsOffline s)" using Cons.prems(1) by (simp add: still_waits_def)
  then have "waits_on t (\<lambda>m. \<forall>now \<le> until. offlineMessageAgeOK m now) s (ws_step prove s e)"
    using Cons.prems(2,3) by (intro ws_step_waits) simp_all
  from still_waits_on [OF Cons.prems(1) this Cons.prems(4)] Cons.prems(5)
  have "still_waits t m (Suc k) (ws_step prove s e)" by simp
  from Cons.IH [OF this] Cons.prems show ?case by simp
qed simp

text \<open>C31: a message for an offline recipient is not lost while it is young. After it was buffered (in a server whose
  buffer map has one entry per address), let fewer than 500 further events happen: messages, also for the same
  recipient, contact traffic, sockets opening and closing, registrations for other addresses, and janitor runs within
  24 hours of the message. If the recipient's address then registers within the 24 hours and every write to it
  succeeds, the message is delivered, with the sender, text and time it was sent with, at most as many messages
  after it as there were events in between, and nothing waits for the address any more.\<close>

theorem offline_message_delivered:
  assumes "handleDirectMessage alive now i toRaw text purpose s = (DmBuffered r, out, s1)" "wf_map (wsOffline s)"
    and "t = normalizePlatariumAddress toRaw" "\<forall>e \<in> set es. spares t (now + 86400) e" "length es < 500"
    and "s2 = foldl (ws_step prove) s1 es"
    and "bindClientRegister prove later n j d s2 = (Inr (authed, delivered), s3)"
    and "normalizePlatariumAddress (rdAddress d) = t" and "later \<le> now + 86400" and "length (buffered s2 t) \<le> n"
  shows "(\<exists>before after. delivered = before @ (j, ChatMsg (clAddress (client_of s i)) t text now) # after \<and> length after \<le> length es)
         \<and> buffered s3 t = []"
proof -
  let ?m = "waiting (clAddress (client_of s i)) t text now"
  have young: "\<forall>x \<le> now + 86400. offlineMessageAgeOK ?m x" by (simp add: offlineMessageAgeOK_def offlineMessageTTLSeconds_def waiting_def)
  have "waits_on t (\<lambda>m. True) s s1" using direct_waits [of t "\<lambda>m. True" s alive now i toRaw "text" purpose] by (simp add: assms(1))
  then have wf: "wf_map (wsOffline s1)" using assms(2) by (simp add: waits_on_def)
  have "buffered s1 t = drop (length (buffered s t) + 1 - 500) (buffered s t) @ [?m]"
    using buffered_message [OF assms(1)] by (simp add: assms(3))
  then have "still_waits t ?m 0 s1" using wf unfolding still_waits_def by auto
  then have "still_waits t ?m (0 + length es) s2"
    unfolding assms(6) using assms(3-5) young by (intro still_waits_run) simp_all
  then obtain xs ys where b: "buffered s2 t = xs @ ?m # ys" "length ys \<le> length es" unfolding still_waits_def by auto
  let ?P = "\<lambda>m. offlineMessageAgeOK m later"
  have "length (filter ?P (buffered s2 t)) \<le> n" using assms(10) length_filter_le [of ?P "buffered s2 t"] by linarith
  then have take: "take n (filter ?P (buffered s2 t)) = filter ?P (buffered s2 t)" by simp
  have "buffered s2 (normalizePlatariumAddress (rdAddress d)) \<noteq> []" by (simp add: assms(8) b(1))
  note reg = register_pending [OF assms(7) this, unfolded assms(8) take]
  have "?P ?m" using young assms(9) by simp
  then have "delivered = map (\<lambda>m. (j, chat_of m)) (filter ?P xs) @ (j, chat_of ?m) # map (\<lambda>m. (j, chat_of m)) (filter ?P ys)"
    using reg(1) by (simp add: b(1))
  moreover have "length (filter ?P ys) \<le> length es" using b(2) length_filter_le [of ?P ys] by linarith
  ultimately show ?thesis using reg(2)
    by (intro conjI exI [of _ "map (\<lambda>m. (j, chat_of m)) (filter ?P xs)"] exI [of _ "map (\<lambda>m. (j, chat_of m)) (filter ?P ys)"])
      (simp_all add: chat_of_def waiting_def)
qed

subsection \<open>Instances\<close>

definition bob_data :: register_data where
  "bob_data = \<lparr>rdAddress = ''PxB0'', rdDeviceID = ''phone'', rdDeviceLabel = [], rdSignature = [], rdMnemonic = ''m'', rdAlphanumeric = ''a'',
     rdPubMain = [], rdE2ee = ''k1''\<rparr>"

definition demo_prover :: prover where
  "demo_prover a sig mn al pub \<longleftrightarrow> (a = ''Pxb0'' \<or> a = ''bob'') \<and> mn = ''m''"

lemma demo_addresses: "normalizePlatariumAddress ''PxB0'' = ''Pxb0''" "normalizePlatariumAddress ''Pxb0'' = ''Pxb0''"
    "TrimSpace ''PxB0'' = ''PxB0''" "TrimSpace ''phone'' = ''phone''" "TrimSpace ''m'' = ''m''" "TrimSpace ''a'' = ''a''" "TrimSpace [] = []"
    "TrimSpace ''group_protocol'' = ''group_protocol''" "TrimSpace ''Pxb0'' = ''Pxb0''"
  by code_simp+

lemma bob_resolved: "resolveRegisterAuthentication (Some demo_prover) ''Pxb0'' bob_data = Inr True"
  by (simp add: resolveRegisterAuthentication_def has_proof_def bob_data_def demo_addresses demo_prover_def)

text \<open>A server with one session of alice, who writes to the offline address of bob.\<close>

definition alice_server :: ws_server where
  "alice_server = NewServer\<lparr>wsObjs := [(''c2'', \<lparr>clIPAddress = [], clConnectedAt = 1, clAddress = ''Pxa1'', clAuthenticated = False,
     clDeviceID = ''d'', clDeviceLabel = []\<rparr>),
     (''c1'', \<lparr>clIPAddress = [], clConnectedAt = 1, clAddress = [], clAuthenticated = False, clDeviceID = [], clDeviceLabel = []\<rparr>)], wsByAddr := [(''Pxa1'', [''c2''])]\<rparr>"

lemma alice_ok: "ws_ok (\<lambda>a. True) alice_server"
proof -
  have "normalizePlatariumAddress ''Pxa1'' = ''Pxa1''" by code_simp
  then show ?thesis
    by (auto simp: ws_ok_def alice_server_def NewServer_def sessions_def session_ok_def split: if_splits option.splits)
qed

lemma alice_writes:
  "handleDirectMessage (\<lambda>_. True) 100 ''c2'' ''PxB0'' ''hi'' [] alice_server =
     (DmBuffered True, [], push_offline (waiting ''Pxa1'' ''Pxb0'' ''hi'' 100) alice_server)"
  by (simp add: handleDirectMessage_def demo_addresses maxDirectMessageTextBytes_def Let_def dm_check_def waiting_def)
    (simp add: alice_server_def NewServer_def client_of_def sessions_def)

theorem direct_message_routing_witness:
  "buffered (push_offline (waiting ''Pxa1'' ''Pxb0'' ''hi'' 100) alice_server) ''Pxb0'' = [waiting ''Pxa1'' ''Pxb0'' ''hi'' 100]"
proof -
  have c: "clAddress (client_of alice_server ''c2'') = ''Pxa1''" by (simp add: client_of_def alice_server_def)
  have b: "buffered alice_server ''Pxb0'' = []" by (simp add: buffered_def alice_server_def NewServer_def)
  from direct_message_routing [OF alice_ok alice_writes c [symmetric] demo_addresses(1) [symmetric]] show ?thesis
    by (simp add: b)
qed

theorem offline_message_delivered_witness:
  "\<exists>s3 before after. bindClientRegister (Some demo_prover) 200 500 ''c1'' bob_data
       (ws_step (Some demo_prover) (push_offline (waiting ''Pxa1'' ''Pxb0'' ''hi'' 100) alice_server) (JanitorRun 150)) =
       (Inr (True, before @ (''c1'', ChatMsg ''Pxa1'' ''Pxb0'' ''hi'' 100) # after), s3) \<and> buffered s3 ''Pxb0'' = []"
proof -
  let ?s1 = "push_offline (waiting ''Pxa1'' ''Pxb0'' ''hi'' 100) alice_server"
  let ?s2 = "foldl (ws_step (Some demo_prover)) ?s1 [JanitorRun 150]"
  have a: "rdAddress bob_data \<noteq> []" "normalizePlatariumAddress (rdAddress bob_data) = ''Pxb0''" by (simp_all add: bob_data_def demo_addresses)
  obtain out s3 where r: "bindClientRegister (Some demo_prover) 200 500 ''c1'' bob_data ?s2 = (Inr (True, out), s3)"
    using register_succeeds [of "Some demo_prover" bob_data True 200 500 "''c1''" ?s2] bob_resolved a by auto
  have wf: "wf_map (wsOffline alice_server)" "buffered alice_server ''Pxb0'' = []" by (simp_all add: alice_server_def NewServer_def buffered_def)
  then have "wf_map (wsOffline ?s1)" by (simp add: push_offline_def Let_def)
  then have "buffered ?s2 ''Pxb0'' = filter (\<lambda>m. offlineMessageAgeOK m 150) [waiting ''Pxa1'' ''Pxb0'' ''hi'' 100]"
    by (simp add: buffered_prune buffered_push wf waiting_def)
  then have len: "length (buffered ?s2 ''Pxb0'') \<le> 500" by simp
  have "clAddress (client_of alice_server ''c2'') = ''Pxa1''" by (simp add: client_of_def alice_server_def)
  then have "(\<exists>before after. out = before @ (''c1'', ChatMsg ''Pxa1'' ''Pxb0'' ''hi'' 100) # after \<and> length after \<le> length [JanitorRun 150])
      \<and> buffered s3 ''Pxb0'' = []"
    using offline_message_delivered [OF alice_writes wf(1) demo_addresses(1) [symmetric] _ _ refl r a(2) _ len] by simp
  then show ?thesis using r by auto
qed

theorem group_protocol_rate_witness:
  "length (filter (\<lambda>x. 0 \<le> x \<and> x \<le> 0 + 60) (group_sends ''PxA'' (replicate 200 7) (SetContactEconomy None NewServer))) \<le> 120"
  by (rule group_protocol_rate) (simp add: sorted_replicate)

definition inbox_data :: register_data where
  "inbox_data = bob_data\<lparr>rdAddress := ''bob''\<rparr>"

definition inbox_events :: "ws_event list" where
  "inbox_events = [SocketOpened ''c1'' ''ip'' 5, RegisterReceived 6 500 ''c1'' inbox_data]"

definition bob_answers :: respond_body where
  "bob_answers = \<lparr>rbRequestID = ''r1'', rbActor = [], rbOutcome = OutcomeRejected, rbSignature = [], rbMnemonic = [], rbAlphanumeric = [], rbPubMain = []\<rparr>"

definition inbox_server :: ws_server where
  "inbox_server = foldl (ws_step (Some demo_prover)) (SetContactEconomy (Some demo_inbox) NewServer) inbox_events"

lemma inbox_simps: "normalizePlatariumAddress ''bob'' = ''bob''" "TrimSpace ''bob'' = ''bob''" "RejectClientOwnedProof [] = None"
    "ResolveAuthenticatedOwner ''bob'' ''bob'' = Inr ''bob''" "MintOwnedProof ''bob'' = Inr ''owned:bob''"
  by code_simp+

lemma inbox_resolved: "resolveRegisterAuthentication (Some demo_prover) ''bob'' inbox_data = Inr True"
  by (simp add: resolveRegisterAuthentication_def has_proof_def inbox_data_def bob_data_def demo_addresses demo_prover_def)

lemma bind_session_client:
  "\<exists>c. map_of (wsObjs (bind_session i a authed d s)) i = Some c \<and> clAddress c = a \<and> clAuthenticated c = authed"
  "wsContacts (bind_session i a authed d s) = wsContacts s"
  by (simp_all add: bind_session_def Let_def add_objs replaced_def) (simp add: addClientToAddrLocked_def Let_def set_client_def)

lemma register_client:
  assumes "bindClientRegister prove now n i d s = (Inr (authed, out), s')"
  shows "\<exists>c. map_of (wsObjs s') i = Some c \<and> clAddress c = normalizePlatariumAddress (rdAddress d) \<and> clAuthenticated c = authed"
    and "wsContacts s' = wsContacts s"
proof -
  let ?s1 = "bind_session i (normalizePlatariumAddress (rdAddress d)) authed d s"
  have "wsObjs s' = wsObjs ?s1" "wsContacts s' = wsContacts ?s1"
    using assms by (auto simp: bindClientRegister_def take_pending_def Let_def split: if_splits sum.splits)
  then show "\<exists>c. map_of (wsObjs s') i = Some c \<and> clAddress c = normalizePlatariumAddress (rdAddress d) \<and> clAuthenticated c = authed"
    and "wsContacts s' = wsContacts s" using bind_session_client by simp_all
qed

lemma inbox_session:
  "\<exists>c. map_of (wsObjs inbox_server) ''c1'' = Some c \<and> clAddress c = ''bob'' \<and> clAuthenticated c" "wsContacts inbox_server = Some demo_inbox"
proof -
  let ?s = "ws_connect ''c1'' ''ip'' 5 (SetContactEconomy (Some demo_inbox) NewServer)"
  have a: "normalizePlatariumAddress (rdAddress inbox_data) = ''bob''" "rdAddress inbox_data \<noteq> []"
    by (simp_all add: inbox_data_def inbox_simps)
  obtain out s' where r: "bindClientRegister (Some demo_prover) 6 500 ''c1'' inbox_data ?s = (Inr (True, out), s')"
    using register_succeeds [of "Some demo_prover" inbox_data True 6 500 "''c1''" ?s] inbox_resolved a by auto
  then have "inbox_server = s'" by (simp add: inbox_server_def inbox_events_def)
  moreover have "wsContacts ?s = Some demo_inbox" by (simp add: ws_connect_def set_client_def SetContactEconomy_def)
  ultimately show "\<exists>c. map_of (wsObjs inbox_server) ''c1'' = Some c \<and> clAddress c = ''bob'' \<and> clAuthenticated c"
    and "wsContacts inbox_server = Some demo_inbox" using register_client [OF r] a by simp_all
qed

theorem session_invariant_witness:
  "\<exists>c. map_of (wsObjs inbox_server) ''c1'' = Some c \<and> clAuthenticated c \<and> logged_in (Some demo_prover) inbox_events ''c1'' ''bob''"
proof -
  have run: "run_ok (ws_step (Some demo_prover)) ws_covered (SetContactEconomy (Some demo_inbox) NewServer) inbox_events"
    by (simp add: inbox_events_def NewServer_def SetContactEconomy_def ws_connect_def set_client_def inbox_data_def bob_data_def inbox_simps)
  obtain c where "map_of (wsObjs inbox_server) ''c1'' = Some c" "clAddress c = ''bob''" "clAuthenticated c" using inbox_session(1) by blast
  with session_invariant [OF run inbox_server_def] show ?thesis by metis
qed

theorem ws_answer_needs_proof_witness:
  "\<exists>c. map_of (wsObjs inbox_server) ''c1'' = Some c \<and> clAddress c = ''bob'' \<and> logged_in (Some demo_prover) inbox_events ''c1'' ''bob''
     \<and> (\<exists>x. fst (applyContactRespondWS (\<lambda>_. True) True 1001 ''c1'' bob_answers [] inbox_server) = Inr x)"
proof -
  obtain c where c: "map_of (wsObjs inbox_server) ''c1'' = Some c" "clAddress c = ''bob''" "clAuthenticated c" using inbox_session(1) by blast
  have cl: "client_of inbox_server ''c1'' = c" using c(1) by (simp add: client_of_def)
  have own: "prepareContactRespondOwnership c (rbActor bob_answers) (rbSignature bob_answers) = Inr (''bob'', ''owned:bob'')"
    using c(2,3) by (simp add: prepareContactRespondOwnership_def bob_answers_def AuthenticatedOwner_def inbox_simps demo_addresses Let_def)
  have "\<exists>q. fst (Respond True 1001 ''r1'' ''bob'' OutcomeRejected ''owned:bob'' demo_inbox) = Inr q"
    using demo_pending demo_pending_fields
    by (simp add: Respond_def demo_inbox_def demo_names normalize_def Let_def split_beta persistLocked_def OutcomeRejected_def
        OutcomeAccepted_def del: map_of_eq_Some_iff)
  then obtain q ce1 where res: "Respond True 1001 ''r1'' ''bob'' OutcomeRejected ''owned:bob'' demo_inbox = (Inr q, ce1)" by (metis prod.collapse)
  obtain sent s' where h: "applyContactRespondWS (\<lambda>_. True) True 1001 ''c1'' bob_answers [] inbox_server =
      (Inr (q, ContactSettleFromRequest q [], sent), s')"
    using own res inbox_session(2) by (simp add: applyContactRespondWS_def cl bob_answers_def Let_def split_beta)
  from ws_answer_needs_proof [OF inbox_server_def c(1) h] c(1,2) h show ?thesis by auto
qed

text \<open>Remark: an address of blanks only is accepted and normalised to the empty string, which the record of a client also
  uses for \<open>not registered\<close>: the next registration does not take the socket out of the sessions of the empty
  address, and it is then filed under two addresses.\<close>

lemma blank_register_filed_twice:
  assumes "TrimSpace (rdAddress d1) = []" "rdAddress d1 \<noteq> []" "rdAddress d2 \<noteq> []" "normalizePlatariumAddress (rdAddress d2) \<noteq> []"
    and "\<not> has_proof d1" "\<not> has_proof d2" "clAddress (client_of s i) = []"
    and s1_def: "s1 = snd (bindClientRegister prove t1 n1 i d1 s)" and s2_def: "s2 = snd (bindClientRegister prove t2 n2 i d2 s1)"
  shows "i \<in> set (sessions s2 []) \<and> i \<in> set (sessions s2 (normalizePlatariumAddress (rdAddress d2)))"
proof -
  have n: "normalizePlatariumAddress (rdAddress d1) = []" using assms(1) by (simp add: normalizePlatariumAddress_def Let_def)
  let ?b1 = "bind_session i [] False d1 s"
  let ?b2 = "bind_session i (normalizePlatariumAddress (rdAddress d2)) False d2 s1"
  have s1: "wsObjs s1 = wsObjs ?b1" "wsByAddr s1 = wsByAddr ?b1"
    using assms(2,5) n by (simp_all add: s1_def bindClientRegister_def resolveRegisterAuthentication_def take_pending_def Let_def)
  have s2: "wsByAddr s2 = wsByAddr ?b2"
    using assms(3,6) by (simp add: s2_def bindClientRegister_def resolveRegisterAuthentication_def take_pending_def Let_def)
  have "clAddress (client_of s1 i) = []" using bind_session_client(1) [of i "[]" False d1 s] s1(1) by (auto simp: client_of_def)
  moreover have "i \<in> set (sessions s1 [])" using assms(7) by (simp add: sessions_cong [OF s1(2)] bind_session_def Let_def add_sessions)
  ultimately show ?thesis using assms(4) by (simp add: sessions_cong [OF s2] bind_session_def Let_def add_sessions)
qed

text \<open>Remark: \<open>handleWebSocket\<close> starts the read loop in a goroutine and returns, and its deferred cleanup then takes the
  client out of the server's map: a client is never reached by a broadcast once its connection is set up.\<close>

lemma broadcast_misses_clients:
  "i \<notin> set (BroadcastToClients (handleWebSocket i ip now mid s))"
  by (auto simp: BroadcastToClients_def handleWebSocket_def ws_cleanup_def Let_def)

text \<open>Remark: no proof is needed to collect mail: a registration without proof for someone else's address takes the messages
  that wait for it and replaces its encryption key.\<close>

lemma unproved_register_takes_mail:
  assumes "\<not> has_proof d" "rdAddress d = a" "normalizePlatariumAddress a = a" "a \<noteq> []" "rdE2ee d \<noteq> []" "buffered s a \<noteq> []"
  shows "\<exists>out s'. bindClientRegister prove now n i d s = (Inr (False, out), s') \<and> buffered s' a = [] \<and> key_of s' a = rdE2ee d"
proof -
  have "resolveRegisterAuthentication prove a d = Inr False" using assms(1) by (simp add: resolveRegisterAuthentication_def)
  then obtain out s' where r: "bindClientRegister prove now n i d s = (Inr (False, out), s')"
    using register_succeeds [of prove d False now n i s] assms by auto
  have k: "key_of s' a = rdE2ee d"
    using r assms
    by (auto simp: bindClientRegister_def take_pending_def key_of_def Let_def update_conv' split: if_splits sum.splits prod.splits)
  show ?thesis using r k register_pending(2) [OF r] assms by auto
qed

text \<open>Remark: a contact request over a websocket is stored without looking for its lock transaction, which the HTTP handler
  requires.\<close>

lemma ws_request_without_lock:
  assumes "wsContacts s = Some ce" "create_checked now (ws_request (client_of s i) d) ce = Inr q"
    "fst (create_locked ok q (mid ce)) = Inr q"
  shows "\<exists>sent s'. handleContactRequestWS marshal alive ok mid now i d s = (Inr (q, sent), s')"
  using assms by (cases "create_locked ok q (mid ce)") (simp add: handleContactRequestWS_def CreateRequest_def split: prod.split)

text \<open>Remark: contact requests for an offline receiver are queued without the bound of 500.\<close>

lemma contact_queue_unbounded:
  assumes "sessions s (normalizePlatariumAddress (crReceiver req)) = []"
  shows "length (buffered (snd (DeliverContactRequest marshal alive now req s)) (normalizePlatariumAddress (crReceiver req)))
    = length (buffered s (normalizePlatariumAddress (crReceiver req))) + 1"
  using assms by (simp add: DeliverContactRequest_def fanOutJSON_def drop_dead_def buffered_def Let_def update_conv')

end
