(* ===== verification/Go_Json.thy ===== *)
theory Go_Json
  imports Gateway_Prelude
begin

text \<open>
  Decoded JSON as \<open>encoding/json\<close> gives it: a message is a \<open>map[string]interface{}\<close>, and handlers read its fields with
  type assertions that yield the zero value when the type is another.

  A JSON number decodes to a \<open>float64\<close>. The gateway converts each one to an integer right away, so a number is kept as
  its integral part. A number that was written from an \<open>int64\<close> is rounded to 53 significant bits on the way (\<open>f64\<close>).
\<close>

datatype json = JNull | JBool bool | JNum int | JStr string | JArr "json list" | JObj "(string \<times> json) list"

type_synonym jobject = "(string \<times> json) list"

definition getString :: "jobject \<Rightarrow> string \<Rightarrow> string" where
  "getString m k = (case map_of m k of Some (JStr s) \<Rightarrow> s | _ \<Rightarrow> [])"

definition getNum :: "jobject \<Rightarrow> string \<Rightarrow> int" where
  "getNum m k = (case map_of m k of Some (JNum n) \<Rightarrow> n | _ \<Rightarrow> 0)"

definition getBool :: "jobject \<Rightarrow> string \<Rightarrow> bool" where
  "getBool m k = (case map_of m k of Some (JBool b) \<Rightarrow> b | _ \<Rightarrow> False)"

text \<open>A slice or a map that is missing or of another type reads as nil, which ranges over nothing.\<close>

definition getArr :: "jobject \<Rightarrow> string \<Rightarrow> json list" where
  "getArr m k = (case map_of m k of Some (JArr xs) \<Rightarrow> xs | _ \<Rightarrow> [])"

definition getObj :: "jobject \<Rightarrow> string \<Rightarrow> jobject" where
  "getObj m k = (case map_of m k of Some (JObj xs) \<Rightarrow> xs | _ \<Rightarrow> [])"

text \<open>The elements of a slice that pass a type assertion, in order.\<close>

definition str_of :: "json \<Rightarrow> string option" where
  "str_of v = (case v of JStr s \<Rightarrow> Some s | _ \<Rightarrow> None)"

definition bool_of :: "json \<Rightarrow> bool option" where
  "bool_of v = (case v of JBool b \<Rightarrow> Some b | _ \<Rightarrow> None)"

definition obj_of :: "json \<Rightarrow> jobject option" where
  "obj_of v = (case v of JObj m \<Rightarrow> Some m | _ \<Rightarrow> None)"

definition strings_of :: "json list \<Rightarrow> string list" where
  "strings_of xs = nonnil (map str_of xs)"

definition objects_of :: "json list \<Rightarrow> jobject list" where
  "objects_of xs = nonnil (map obj_of xs)"

definition bools_of :: "jobject \<Rightarrow> (string \<times> bool) list" where
  "bools_of m = nonnil (map (\<lambda>(k, v). map_option (Pair k) (bool_of v)) m)"

lemmas json_defs = getString_def getNum_def getBool_def getArr_def getObj_def

lemma strings_of_simps [simp]:
  "strings_of [] = []" "strings_of (JStr s # xs) = s # strings_of xs"
  by (simp_all add: strings_of_def str_of_def)

lemma strings_of_map [simp]: "strings_of (map JStr xs) = xs"
  by (induction xs) simp_all

lemma objects_of_simps [simp]:
  "objects_of [] = []" "objects_of (JObj m # xs) = m # objects_of xs"
  by (simp_all add: objects_of_def obj_of_def)

lemma objects_of_map [simp]: "objects_of (map JObj xs) = xs"
  by (induction xs) simp_all

lemma bools_of_simps [simp]:
  "bools_of [] = []" "bools_of ((k, JBool b) # xs) = (k, b) # bools_of xs"
  by (simp_all add: bools_of_def bool_of_def)

lemma bools_of_map [simp]: "bools_of (map (\<lambda>(k, b). (k, JBool b)) xs) = xs"
  by (induction xs) auto

subsection \<open>Integers on the wire\<close>

fun bit_size :: "int \<Rightarrow> nat" where
  "bit_size n = (if n \<le> 0 then 0 else Suc (bit_size (n div 2)))"

declare bit_size.simps [simp del]

text \<open>Rounding to 53 significant bits, ties to even.\<close>

definition f64_abs :: "int \<Rightarrow> int" where
  "f64_abs n =
     (let e = bit_size n - 53; q = n div 2 ^ e; r = n mod 2 ^ e
      in (if 2 * r > 2 ^ e \<or> (2 * r = 2 ^ e \<and> odd q) then q + 1 else q) * 2 ^ e)"

definition f64 :: "int \<Rightarrow> int" where
  "f64 x = (if x < 0 then - f64_abs (- x) else f64_abs x)"

definition wire_num :: "int \<Rightarrow> json" where
  "wire_num x = JNum (f64 x)"

lemma bit_size_le: "n < 2 ^ k \<Longrightarrow> bit_size n \<le> k"
proof (induction k arbitrary: n)
  case 0
  then show ?case by (simp add: bit_size.simps [of n])
next
  case (Suc k)
  then have "n div 2 < 2 ^ k" by auto
  then have "bit_size (n div 2) \<le> k" by (rule Suc.IH)
  then show ?case by (simp add: bit_size.simps [of n])
qed

lemma f64_abs_exact: "n < 2 ^ 53 \<Longrightarrow> f64_abs n = n"
  using bit_size_le [of n 53] by (simp add: f64_abs_def)

lemma f64_exact: "\<bar>x\<bar> < 2 ^ 53 \<Longrightarrow> f64 x = x"
  by (simp add: f64_def f64_abs_exact)

lemma f64_rounds: "f64 (2 ^ 53 + 1) = 2 ^ 53"
  by code_simp

end
