(* ===== verification/Peer_Network.thy ===== *)
theory Peer_Network
  imports Go_Json L1_Validation Identity
begin

text \<open>
  The peer network, \<open>internal/nodes/nodes.go\<close> and \<open>discovery.go\<close>: the table of connected peers with their heartbeats,
  the registry of the peers' clients, blockchain events with duplicate detection, broadcasts, dialling and gossip.

  Times are nanoseconds; the zero time is \<open>None\<close>. A connection is a number, and \<open>wr\<close> says what a write on it returns:
  \<open>None\<close> for success, or the text of the error. Messages are decoded JSON objects. A callback is a field of the struct
  that another component sets, so an event handler returns the callbacks it invokes as values of \<open>peer_call\<close>. The
  slice expression \<open>nodeID[:8]\<close> panics on a short text and no goroutine of the gateway recovers: such an operation
  returns \<open>None\<close>.
\<close>

subsection \<open>State\<close>

record NodeInfo =
  niNodeID :: string
  niAddress :: string
  niHost :: string
  niPort :: int
  niRestURL :: string

record SocketInfo =
  siSocketID :: string
  siIPAddress :: string
  siConnectedAt :: string
  siNodeID :: string

record PeerConnection =
  pcNodeID :: string
  pcAddress :: string
  pcHost :: string
  pcPort :: int
  pcRestURL :: string
  pcConn :: "nat option"
  pcLastPong :: "int option"
  pcPingFailures :: int

record NodesManager =
  nmNodeID :: string
  nmHost :: string
  nmPort :: int
  nmAddress :: string
  nmRest :: string
  nmPeers :: "(string \<times> PeerConnection) list"
  nmSockets :: "(string \<times> (string \<times> SocketInfo) list) list"
  nmTimers :: "string list"
  nmSeen :: "(string \<times> int) list"
  nmKnown :: "string list"
  nmIdentity :: "NodeIdentity option"

definition NewNodesManager :: "NodeIdentity \<Rightarrow> int \<Rightarrow> string \<Rightarrow> NodesManager" where
  "NewNodesManager ident port host =
     \<lparr>nmNodeID = idNodeID ident, nmHost = host, nmPort = port, nmAddress = ''ws://'' @ host @ '':'' @ FormatInt port,
      nmRest = [], nmPeers = [], nmSockets = [], nmTimers = [], nmSeen = [], nmKnown = [], nmIdentity = Some ident\<rparr>"

definition SetNodeAddress :: "string \<Rightarrow> NodesManager \<Rightarrow> NodesManager" where
  "SetNodeAddress address nm = nm\<lparr>nmAddress := address\<rparr>"

definition SetRestBaseURL :: "string \<Rightarrow> NodesManager \<Rightarrow> NodesManager" where
  "SetRestBaseURL url nm = nm\<lparr>nmRest := url\<rparr>"

subsection \<open>Addresses\<close>

definition normalizePeerWebSocketDialURL :: "string \<Rightarrow> string option" where
  "normalizePeerWebSocketDialURL address =
     (let a = TrimSpace address; lower = ToLower a
      in if a = [] then None
         else if HasPrefix lower ''ws://'' \<or> HasPrefix lower ''wss://'' then Some a
         else if HasPrefix lower ''http://'' then Some (''ws://'' @ drop 7 a)
         else if HasPrefix lower ''https://'' then Some (''wss://'' @ drop 8 a)
         else Some (''ws://'' @ a))"

definition peerWebSocketDialURLsEqual :: "string \<Rightarrow> string \<Rightarrow> bool" where
  "peerWebSocketDialURLsEqual a b \<longleftrightarrow>
     normalizePeerWebSocketDialURL a \<noteq> None \<and> normalizePeerWebSocketDialURL a = normalizePeerWebSocketDialURL b"

subsection \<open>Votes\<close>

definition SignedVotePayload :: "ed25519 \<Rightarrow> NodesManager \<Rightarrow> string \<Rightarrow> bool \<Rightarrow> jobject" where
  "SignedVotePayload ed nm blockID yes =
     [(''blockId'', JStr blockID), (''nodeId'', JStr (nmNodeID nm)), (''yes'', JBool yes)] @
     (case nmIdentity nm of
        None \<Rightarrow> []
      | Some ident \<Rightarrow>
          (case SignVote ed ident blockID yes of
             None \<Rightarrow> []
           | Some sig \<Rightarrow> [(''pubKey'', JStr (idPubKey ident)), (''signature'', JStr sig)]))"

subsection \<open>Peers\<close>

definition GetPeerRestURL :: "NodesManager \<Rightarrow> string \<Rightarrow> string" where
  "GetPeerRestURL nm nodeID = (case map_of (nmPeers nm) nodeID of None \<Rightarrow> [] | Some p \<Rightarrow> pcRestURL p)"

definition getPeerByAddress :: "NodesManager \<Rightarrow> string \<Rightarrow> PeerConnection option" where
  "getPeerByAddress nm address = find (\<lambda>p. pcAddress p = address) (map snd (nmPeers nm))"

definition getPeerByConn :: "NodesManager \<Rightarrow> nat \<Rightarrow> PeerConnection option" where
  "getPeerByConn nm conn = find (\<lambda>p. pcConn p = Some conn) (map snd (nmPeers nm))"

definition peerLivePongWindow :: int where
  "peerLivePongWindow = 30 * 10 ^ 9"

definition peerResponsive :: "int option \<Rightarrow> int \<Rightarrow> bool" where
  "peerResponsive lastPong now \<longleftrightarrow> (case lastPong of None \<Rightarrow> True | Some t \<Rightarrow> now - t \<le> peerLivePongWindow)"

definition info_of :: "PeerConnection \<Rightarrow> NodeInfo" where
  "info_of p = \<lparr>niNodeID = pcNodeID p, niAddress = pcAddress p, niHost = pcHost p, niPort = pcPort p, niRestURL = pcRestURL p\<rparr>"

definition GetResponsiveConnectedNodes :: "int \<Rightarrow> NodesManager \<Rightarrow> NodeInfo list" where
  "GetResponsiveConnectedNodes now nm = map info_of (filter (\<lambda>p. peerResponsive (pcLastPong p) now) (map snd (nmPeers nm)))"

definition GetConnectedNodes :: "NodesManager \<Rightarrow> NodeInfo list" where
  "GetConnectedNodes nm = map (\<lambda>(_, p). info_of p) (nmPeers nm)"

text \<open>All sockets: the local ones, given by the getter if it is set, then those of the peers.\<close>

definition GetConnectedSockets :: "SocketInfo list option \<Rightarrow> NodesManager \<Rightarrow> SocketInfo list" where
  "GetConnectedSockets local nm =
     (case local of None \<Rightarrow> [] | Some xs \<Rightarrow> xs) @ concat (map (\<lambda>(_, m). map snd m) (nmSockets nm))"

definition update_peer :: "string \<Rightarrow> (PeerConnection \<Rightarrow> PeerConnection) \<Rightarrow> NodesManager \<Rightarrow> NodesManager" where
  "update_peer nodeID f nm = nm\<lparr>nmPeers := map (\<lambda>(k, p). (k, if k = nodeID then f p else p)) (nmPeers nm)\<rparr>"

definition key_at :: "NodesManager \<Rightarrow> string \<Rightarrow> string option" where
  "key_at nm address = map_option fst (find (\<lambda>(k, p). pcAddress p = address) (nmPeers nm))"

definition drop_peer :: "string \<Rightarrow> NodesManager \<Rightarrow> NodesManager" where
  "drop_peer nodeID nm = nm\<lparr>nmPeers := AList.delete nodeID (nmPeers nm), nmSockets := AList.delete nodeID (nmSockets nm)\<rparr>"

text \<open>\<open>nodeID[:8]\<close> in a log line.\<close>

definition sliceable :: "string \<Rightarrow> bool" where
  "sliceable nodeID \<longleftrightarrow> 8 \<le> length nodeID"

definition scheduleReconnect :: "string \<Rightarrow> NodesManager \<Rightarrow> NodesManager" where
  "scheduleReconnect address nm = (if address \<in> set (nmTimers nm) then nm else nm\<lparr>nmTimers := nmTimers nm @ [address]\<rparr>)"

subsection \<open>A peer connection\<close>

text \<open>The pong handler of \<open>handlePeerConnection\<close>; \<open>address\<close> is the one the connection was opened with.\<close>

definition handle_pong :: "string \<Rightarrow> int \<Rightarrow> NodesManager \<Rightarrow> NodesManager" where
  "handle_pong address now nm =
     (case key_at nm address of
        None \<Rightarrow> nm
      | Some k \<Rightarrow> update_peer k (\<lambda>p. p\<lparr>pcLastPong := Some now, pcPingFailures := 0\<rparr>) nm)"

text \<open>One tick of the heartbeat. The result is the connection to close, if any, and whether the goroutine goes on.\<close>

definition heartbeat_tick :: "(nat \<Rightarrow> string option) \<Rightarrow> string \<Rightarrow> int \<Rightarrow> NodesManager \<Rightarrow> (nat option \<times> bool) \<times> NodesManager" where
  "heartbeat_tick wr address now nm =
     (case key_at nm address of
        None \<Rightarrow> ((None, True), nm)
      | Some k \<Rightarrow>
          (let p = the (map_of (nmPeers nm) k)
           in case pcConn p of
                None \<Rightarrow> ((None, True), nm)
              | Some c \<Rightarrow>
                  (if wr c \<noteq> None then ((None, False), nm)
                   else if (case pcLastPong p of None \<Rightarrow> True | Some t \<Rightarrow> now - t > peerLivePongWindow)
                   then (let n = pcPingFailures p + 1; nm1 = update_peer k (\<lambda>q. q\<lparr>pcPingFailures := n\<rparr>) nm
                         in if n > 2 then ((Some c, False), nm1) else ((None, True), nm1))
                   else ((None, True), nm))))"

text \<open>The end of \<open>handlePeerConnection\<close>, when reading fails.\<close>

definition peer_disconnected :: "string \<Rightarrow> NodesManager \<Rightarrow> NodesManager option" where
  "peer_disconnected address nm =
     (case key_at nm address of
        None \<Rightarrow> Some (scheduleReconnect address nm)
      | Some k \<Rightarrow> if sliceable k then Some (scheduleReconnect address (drop_peer k nm)) else None)"

definition new_peer :: "jobject \<Rightarrow> nat \<Rightarrow> int \<Rightarrow> PeerConnection" where
  "new_peer data conn now =
     \<lparr>pcNodeID = getString data ''nodeId'', pcAddress = getString data ''address'', pcHost = getString data ''host'',
      pcPort = getNum data ''port'', pcRestURL = getString data ''restUrl'', pcConn = Some conn, pcLastPong = Some now,
      pcPingFailures = 0\<rparr>"

definition known_announce :: "jobject \<Rightarrow> nat \<Rightarrow> int \<Rightarrow> PeerConnection \<Rightarrow> PeerConnection" where
  "known_announce data conn now p =
     (let q = (if pcAddress p \<noteq> getString data ''address''
               then p\<lparr>pcConn := Some conn, pcAddress := getString data ''address'', pcHost := getString data ''host'',
                      pcPort := getNum data ''port'', pcLastPong := Some now, pcPingFailures := 0\<rparr>
               else p)
      in if getString data ''restUrl'' \<noteq> [] then q\<lparr>pcRestURL := getString data ''restUrl''\<rparr> else q)"

definition announcement :: "NodesManager \<Rightarrow> jobject" where
  "announcement nm =
     [(''nodeId'', JStr (nmNodeID nm)), (''address'', JStr (nmAddress nm)), (''host'', JStr (nmHost nm)),
      (''port'', wire_num (nmPort nm))] @ (if nmRest nm \<noteq> [] then [(''restUrl'', JStr (nmRest nm))] else [])"

text \<open>The block a node asks its new peer for; \<open>head\<close> is the result of the chain head callback.\<close>

definition sync_from :: "int option \<Rightarrow> int" where
  "sync_from head = (case head of None \<Rightarrow> 0 | Some h \<Rightarrow> if i64 (h + 1) < 0 then 0 else i64 (h + 1))"

text \<open>\<open>handleNodeAnnounce\<close>; what it writes on the connection: the own announcement, a request for sockets and one for
  blocks. The gossip that follows is \<open>collectGossipPeers\<close> below.\<close>

definition handleNodeAnnounce ::
  "int option \<Rightarrow> jobject \<Rightarrow> nat \<Rightarrow> int \<Rightarrow> NodesManager \<Rightarrow> ((string \<times> jobject) list \<times> NodesManager) option" where
  "handleNodeAnnounce head data conn now nm =
     (let nodeID = getString data ''nodeId''
      in if nodeID = nmNodeID nm \<or> nodeID = [] then Some ([], nm)
         else if map_of (nmPeers nm) nodeID \<noteq> None then Some ([], update_peer nodeID (known_announce data conn now) nm)
         else
           let nm1 = nm\<lparr>nmPeers := AList.update nodeID (new_peer data conn now) (nmPeers nm)\<rparr>
           in if \<not> sliceable nodeID then None
              else Some ([(''node:announce'', announcement nm1), (''sockets:request'', []),
                          (''sync:request'', [(''fromBlockNumber'', wire_num (sync_from head))])], nm1))"

subsection \<open>Sockets of the peers\<close>

definition handleClientConnected :: "string \<Rightarrow> jobject \<Rightarrow> NodesManager \<Rightarrow> NodesManager option" where
  "handleClientConnected nowText data nm =
     (let nodeID = getString data ''nodeId''; clientID = getString data ''clientId'';
          at = getString data ''connectedAt'';
          info = \<lparr>siSocketID = clientID, siIPAddress = getString data ''ip'', siConnectedAt = (if at = [] then nowText else at),
                  siNodeID = nodeID\<rparr>;
          old = (case map_of (nmSockets nm) nodeID of None \<Rightarrow> [] | Some m \<Rightarrow> m)
      in if nodeID = nmNodeID nm then Some nm
         else if \<not> sliceable nodeID then None
         else Some (nm\<lparr>nmSockets := AList.update nodeID (AList.update clientID info old) (nmSockets nm)\<rparr>))"

definition handleClientDisconnected :: "jobject \<Rightarrow> NodesManager \<Rightarrow> NodesManager option" where
  "handleClientDisconnected data nm =
     (let nodeID = getString data ''nodeId''
      in if nodeID = nmNodeID nm then Some nm
         else if \<not> sliceable nodeID then None
         else case map_of (nmSockets nm) nodeID of
             None \<Rightarrow> Some nm
           | Some m \<Rightarrow>
               (let m1 = AList.delete (getString data ''clientId'') m
                in Some (nm\<lparr>nmSockets := if m1 = [] then AList.delete nodeID (nmSockets nm)
                                        else AList.update nodeID m1 (nmSockets nm)\<rparr>)))"

definition socket_of :: "jobject \<Rightarrow> SocketInfo" where
  "socket_of d = \<lparr>siSocketID = getString d ''socketId'', siIPAddress = getString d ''ipAddress'',
                  siConnectedAt = getString d ''connectedAt'', siNodeID = getString d ''nodeId''\<rparr>"

definition HandleSocketsResponse :: "jobject \<Rightarrow> NodesManager \<Rightarrow> NodesManager" where
  "HandleSocketsResponse data nm =
     (let nodeID = getString data ''nodeId''
      in if nodeID = nmNodeID nm then nm
         else nm\<lparr>nmSockets := AList.update nodeID
                   (foldl (\<lambda>m d. AList.update (siSocketID (socket_of d)) (socket_of d) m) [] (objects_of (getArr data ''sockets'')))
                   (nmSockets nm)\<rparr>)"

definition socket_json :: "SocketInfo \<Rightarrow> json" where
  "socket_json s = JObj [(''socketId'', JStr (siSocketID s)), (''ipAddress'', JStr (siIPAddress s)),
                         (''connectedAt'', JStr (siConnectedAt s)), (''nodeId'', JStr (siNodeID s))]"

definition handleSocketsRequest :: "SocketInfo list option \<Rightarrow> NodesManager \<Rightarrow> jobject option" where
  "handleSocketsRequest local nm =
     map_option (\<lambda>xs. [(''nodeId'', JStr (nmNodeID nm)), (''sockets'', JArr (map socket_json xs))]) local"

subsection \<open>Blockchain events\<close>

datatype peer_call =
    MessageRoute jobject
  | L1Proposal string string int "string list"
  | L1Vote string string bool string string
  | L2Proposal string string "string list"
  | L2Vote string string bool string string
  | MempoolAdd jobject
  | DagVertex jobject
  | DagCommit jobject
  | L1BlockCollected string
  | PendingBlockSync "jobject list"
  | L1VoteResult "(string \<times> bool) list" bool
  | L2VoteResult "(string \<times> bool) list" bool
  | FeeDistribution jobject
  | BlockConfirmed jobject
  | NodeLoad string int int
  | SyncApply jobject

definition parsePayloadStringSlice :: "jobject \<Rightarrow> string \<Rightarrow> string list" where
  "parsePayloadStringSlice payload key = filter (\<lambda>s. s \<noteq> []) (strings_of (getArr payload key))"

text \<open>The callbacks of an event, all of which \<open>RegisterVoteCallbacks\<close> and \<open>RegisterSyncCallbacks\<close> have set. \<open>votes\<close> is
  read into a map: a repeated key keeps one entry.\<close>

definition event_calls :: "string \<Rightarrow> jobject \<Rightarrow> peer_call list" where
  "event_calls eventType payload =
     (if eventType = ''l1_proposal''
      then [L1Proposal (getString payload ''blockId'') (getString payload ''proposerNodeId'') (getNum payload ''txCount'')
              (parsePayloadStringSlice payload ''txHashes'')]
      else if eventType = ''l1_vote''
      then [L1Vote (getString payload ''blockId'') (getString payload ''nodeId'') (getBool payload ''yes'')
              (getString payload ''pubKey'') (getString payload ''signature'')]
      else if eventType = ''l2_proposal''
      then [L2Proposal (getString payload ''blockId'') (getString payload ''proposerNodeId'') (parsePayloadStringSlice payload ''txHashes'')]
      else if eventType = ''l2_vote''
      then [L2Vote (getString payload ''blockId'') (getString payload ''nodeId'') (getBool payload ''yes'')
              (getString payload ''pubKey'') (getString payload ''signature'')]
      else if eventType = ''mempool:add''
      then (case map_of payload ''tx'' of Some (JObj tx) \<Rightarrow> [MempoolAdd tx] | _ \<Rightarrow> [])
      else if eventType = ''dag:vertex'' then [DagVertex payload]
      else if eventType = ''dag:commit'' then [DagCommit payload]
      else if eventType = ''l1BlockCollected''
      then (let pend = objects_of (getArr payload ''pendingBlock'')
            in L1BlockCollected (getString payload ''l1BeneficiaryNodeId'') # (if pend \<noteq> [] then [PendingBlockSync pend] else []))
      else if eventType = ''l1_vote_result''
      then [L1VoteResult (bools_of (getObj payload ''votes'')) (getBool payload ''accepted'')]
      else if eventType = ''l2_vote_result''
      then [L2VoteResult (bools_of (getObj payload ''votes'')) (getBool payload ''accepted'')]
      else if eventType = ''fee_distribution'' then [FeeDistribution payload]
      else if eventType = ''block_confirmed'' then [BlockConfirmed payload]
      else if eventType = ''node_load''
      then (let nodeId = getString payload ''nodeId''; cur = getNum payload ''currentTasks''; cap = getNum payload ''maxCapacity''
            in if nodeId \<noteq> [] \<and> cap > 0 then [NodeLoad nodeId cur cap] else [])
      else [])"

definition five_minutes :: int where "five_minutes = 300 * 10 ^ 9"
definition ten_minutes :: int where "ten_minutes = 600 * 10 ^ 9"

text \<open>The duplicate check: \<open>None\<close> for a duplicate, otherwise the map with the event and without entries that are too old.\<close>

definition note_event :: "string \<Rightarrow> int \<Rightarrow> (string \<times> int) list \<Rightarrow> (string \<times> int) list option" where
  "note_event eventID now seen =
     (case map_of seen eventID of
        Some t \<Rightarrow> if now - t < five_minutes then None
                  else Some (filter (\<lambda>(_, u). \<not> now - u > ten_minutes) (AList.update eventID now seen))
      | None \<Rightarrow> Some (filter (\<lambda>(_, u). \<not> now - u > ten_minutes) (AList.update eventID now seen)))"

definition event_type :: "jobject \<Rightarrow> string" where
  "event_type msg = (let t = getString msg ''eventType'' in if t = [] then getString msg ''type'' else t)"

definition handleBlockchainEvent :: "int \<Rightarrow> jobject \<Rightarrow> NodesManager \<Rightarrow> peer_call list \<times> NodesManager" where
  "handleBlockchainEvent now msg nm =
     (let eventID = getString msg ''eventId'';
          calls = (if event_type msg = ''message:route'' then [MessageRoute (getObj msg ''data'')]
                   else event_calls (event_type msg) (getObj msg ''data''))
      in if getString msg ''originNodeId'' = nmNodeID nm then ([], nm)
         else if eventID = [] then (calls, nm)
         else case note_event eventID now (nmSeen nm) of
             None \<Rightarrow> ([], nm)
           | Some seen \<Rightarrow> (calls, nm\<lparr>nmSeen := seen\<rparr>))"

subsection \<open>Broadcasts\<close>

definition isConnDeadErr :: "string \<Rightarrow> bool" where
  "isConnDeadErr s \<longleftrightarrow> Contains s ''broken pipe'' \<or> Contains s ''connection reset'' \<or> Contains s ''use of closed network connection''"

definition dead_addresses :: "NodesManager \<Rightarrow> string list \<Rightarrow> string list" where
  "dead_addresses nm ids = filter (\<lambda>a. a \<noteq> []) (map pcAddress (nonnil (map (map_of (nmPeers nm)) ids)))"

definition removeDeadPeers :: "string list \<Rightarrow> NodesManager \<Rightarrow> NodesManager" where
  "removeDeadPeers ids nm = foldl (\<lambda>m a. scheduleReconnect a m) (foldl (\<lambda>m k. drop_peer k m) nm ids) (dead_addresses nm ids)"

definition event_id :: "string \<Rightarrow> int \<Rightarrow> NodesManager \<Rightarrow> string" where
  "event_id eventType now nm = eventType @ ''-'' @ FormatInt now @ ''-'' @ nmNodeID nm"

definition seconds :: "int \<Rightarrow> int" where
  "seconds t = t div 10 ^ 9"

definition event_envelope :: "string \<Rightarrow> jobject \<Rightarrow> string \<Rightarrow> int \<Rightarrow> NodesManager \<Rightarrow> jobject" where
  "event_envelope eventType data origin now nm =
     [(''type'', JStr ''blockchain:event''), (''eventType'', JStr eventType), (''data'', JObj data),
      (''timestamp'', wire_num (seconds now)), (''originNodeId'', JStr origin), (''eventId'', JStr (event_id eventType now nm))]"

definition targets :: "string \<Rightarrow> NodesManager \<Rightarrow> (string \<times> nat) list" where
  "targets origin nm =
     nonnil (map (\<lambda>(k, p). if origin \<noteq> [] \<and> k = origin then None else map_option (Pair k) (pcConn p)) (nmPeers nm))"

text \<open>\<open>BroadcastBlockchainEvent\<close>: the connections that got the event, and the manager.\<close>

definition BroadcastBlockchainEvent ::
  "(nat \<Rightarrow> string option) \<Rightarrow> string \<Rightarrow> jobject \<Rightarrow> string \<Rightarrow> int \<Rightarrow> NodesManager \<Rightarrow> ((nat \<times> jobject) list \<times> NodesManager) option" where
  "BroadcastBlockchainEvent wr eventType data origin now nm =
     (let ts = targets origin nm;
          nm1 = nm\<lparr>nmSeen := AList.update (event_id eventType now nm) now (nmSeen nm)\<rparr>;
          dead = map fst (filter (\<lambda>(_, c). case wr c of None \<Rightarrow> False | Some e \<Rightarrow> isConnDeadErr e) ts)
      in if list_ex (\<lambda>(k, c). case wr c of None \<Rightarrow> False | Some e \<Rightarrow> \<not> isConnDeadErr e \<and> \<not> sliceable k) ts then None
         else Some (map (\<lambda>(_, c). (c, event_envelope eventType data origin now nm)) (filter (\<lambda>(_, c). wr c = None) ts),
                    removeDeadPeers dead nm1))"

definition AnnounceClientConnected :: "string \<Rightarrow> string \<Rightarrow> string \<Rightarrow> NodesManager \<Rightarrow> (nat \<times> jobject) list" where
  "AnnounceClientConnected clientID ip connectedAt nm =
     map (\<lambda>(_, c). (c, [(''nodeId'', JStr (nmNodeID nm)), (''clientId'', JStr clientID), (''ip'', JStr ip),
                        (''connectedAt'', JStr connectedAt)])) (targets [] nm)"

definition AnnounceClientDisconnected :: "string \<Rightarrow> NodesManager \<Rightarrow> (nat \<times> jobject) list" where
  "AnnounceClientDisconnected clientID nm =
     map (\<lambda>(_, c). (c, [(''nodeId'', JStr (nmNodeID nm)), (''clientId'', JStr clientID)])) (targets [] nm)"

subsection \<open>Dialling and discovery\<close>

text \<open>\<open>file\<close> and \<open>env\<close> are the lists of \<open>peers.json\<close> and of the variable \<open>PEERS\<close>, when they decode.\<close>

definition loadPeers :: "string list option \<Rightarrow> string list option \<Rightarrow> NodesManager \<Rightarrow> string list" where
  "loadPeers file env nm =
     filter (\<lambda>p. \<not> peerWebSocketDialURLsEqual p (nmAddress nm))
       ((case file of None \<Rightarrow> [] | Some xs \<Rightarrow> xs) @ (case env of None \<Rightarrow> [] | Some xs \<Rightarrow> xs))"

definition dial_url :: "NodesManager \<Rightarrow> string \<Rightarrow> string option" where
  "dial_url nm address =
     (case normalizePeerWebSocketDialURL address of
        None \<Rightarrow> None
      | Some u \<Rightarrow>
          (case normalizePeerWebSocketDialURL (nmAddress nm) of None \<Rightarrow> None | Some self \<Rightarrow> if u = self then None else Some u))"

definition recordKnownPeer :: "string \<Rightarrow> NodesManager \<Rightarrow> NodesManager" where
  "recordKnownPeer address nm = (case dial_url nm address of None \<Rightarrow> nm | Some u \<Rightarrow> nm\<lparr>nmKnown := List.insert u (nmKnown nm)\<rparr>)"

text \<open>\<open>ConnectToPeers\<close>: the addresses for which a dialling goroutine is started.\<close>

definition ConnectToPeers :: "string list option \<Rightarrow> string list option \<Rightarrow> NodesManager \<Rightarrow> string list \<times> NodesManager" where
  "ConnectToPeers file env nm =
     (let peers = loadPeers file env nm
      in (filter (\<lambda>p. \<not> peerWebSocketDialURLsEqual p (nmAddress nm)) peers, foldl (\<lambda>m a. recordKnownPeer a m) nm peers))"

datatype dial_error = EmptyPeerAddress | DialSelf | BadURL | DialFailed

text \<open>\<open>tryConnect\<close>: \<open>parses\<close> is \<open>url.Parse\<close> and \<open>dials\<close> the handshake. The result says whether a new connection was made, on
  which the announcement is then written.\<close>

definition tryConnect :: "(string \<Rightarrow> bool) \<Rightarrow> (string \<Rightarrow> bool) \<Rightarrow> string \<Rightarrow> NodesManager \<Rightarrow> (dial_error + bool) \<times> NodesManager" where
  "tryConnect parses dials address nm =
     (case normalizePeerWebSocketDialURL address of
        None \<Rightarrow> (Inl EmptyPeerAddress, nm)
      | Some u \<Rightarrow>
          (case normalizePeerWebSocketDialURL (nmAddress nm) of
             None \<Rightarrow> (Inl EmptyPeerAddress, nm)
           | Some self \<Rightarrow>
               (if u = self then (Inl DialSelf, nm)
                else if \<not> parses u then (Inl BadURL, nm)
                else if getPeerByAddress nm address \<noteq> None then (Inr False, nm)
                else if \<not> dials u then (Inl DialFailed, nm)
                else (Inr True, recordKnownPeer address nm))))"

text \<open>\<open>ConnectToNodeWithRetry\<close>: one environment per attempt; \<open>None\<close> while it is still trying.\<close>

fun ConnectToNodeWithRetry :: "((string \<Rightarrow> bool) \<times> (string \<Rightarrow> bool)) list \<Rightarrow> string \<Rightarrow> NodesManager \<Rightarrow> NodesManager option" where
  "ConnectToNodeWithRetry [] address nm = None"
| "ConnectToNodeWithRetry (a # as) address nm =
     (case tryConnect (fst a) (snd a) address nm of
        (Inr _, nm1) \<Rightarrow> Some nm1
      | (Inl _, nm1) \<Rightarrow> ConnectToNodeWithRetry as address nm1)"

text \<open>The timer of \<open>scheduleReconnect\<close> with \<open>ConnectToNode\<close>, which schedules the next attempt when it fails.\<close>

definition reconnect_fires :: "(string \<Rightarrow> bool) \<Rightarrow> (string \<Rightarrow> bool) \<Rightarrow> string \<Rightarrow> NodesManager \<Rightarrow> NodesManager" where
  "reconnect_fires parses dials address nm =
     (case tryConnect parses dials address (nm\<lparr>nmTimers := removeAll address (nmTimers nm)\<rparr>) of
        (Inr _, nm1) \<Rightarrow> nm1
      | (Inl _, nm1) \<Rightarrow> scheduleReconnect address nm1)"

definition maxPeerConnections :: "string \<Rightarrow> int" where
  "maxPeerConnections env = (case ParseInt env of (n, None) \<Rightarrow> if env \<noteq> [] \<and> n > 0 then n else 100 | (_, Some _) \<Rightarrow> 100)"

definition collectGossipPeers :: "string list \<Rightarrow> NodesManager \<Rightarrow> string list" where
  "collectGossipPeers static nm =
     remdups (nonnil (map (dial_url nm) (nmAddress nm # map (\<lambda>(_, p). pcAddress p) (nmPeers nm) @ nmKnown nm @ static)))"

definition isPeerConnected :: "NodesManager \<Rightarrow> string \<Rightarrow> bool" where
  "isPeerConnected nm address \<longleftrightarrow>
     (case normalizePeerWebSocketDialURL address of
        None \<Rightarrow> False
      | Some u \<Rightarrow> list_ex (\<lambda>(_, p). peerWebSocketDialURLsEqual (pcAddress p) u) (nmPeers nm))"

definition connectedPeerCount :: "NodesManager \<Rightarrow> int" where
  "connectedPeerCount nm = int (length (nmPeers nm))"

definition gossip_new :: "string list \<Rightarrow> NodesManager \<Rightarrow> string list" where
  "gossip_new addrs nm =
     nonnil (map (\<lambda>a. case dial_url nm a of None \<Rightarrow> None | Some u \<Rightarrow> if isPeerConnected nm u then None else Some u) addrs)"

text \<open>\<open>handlePeerGossip\<close>: the addresses for which a dialling goroutine is started. \<open>connected i\<close> is the number of connected peers
  when the loop reads it before dial \<open>i\<close>.\<close>

fun gossip_dials :: "int \<Rightarrow> (nat \<Rightarrow> int) \<Rightarrow> nat \<Rightarrow> string list \<Rightarrow> string list" where
  "gossip_dials maxPeers connected i [] = []"
| "gossip_dials maxPeers connected i (a # as) = (if connected i \<ge> maxPeers then [] else a # gossip_dials maxPeers connected (Suc i) as)"

definition handlePeerGossip :: "string \<Rightarrow> (nat \<Rightarrow> int) \<Rightarrow> jobject \<Rightarrow> NodesManager \<Rightarrow> string list \<times> NodesManager" where
  "handlePeerGossip env connected data nm =
     (let addrs = filter (\<lambda>a. a \<noteq> []) (strings_of (getArr data ''peers''));
          nm1 = foldl (\<lambda>m a. recordKnownPeer a m) nm addrs;
          new = gossip_new addrs nm1
      in if new = [] \<or> connectedPeerCount nm1 \<ge> maxPeerConnections env then ([], nm1)
         else (gossip_dials (maxPeerConnections env) connected 0 new, nm1))"

subsection \<open>Block requests\<close>

text \<open>\<open>respond\<close> is the callback that answers with the blocks from a number on, if it is set.\<close>

definition handleSyncRequest :: "(int \<Rightarrow> jobject) option \<Rightarrow> int \<Rightarrow> jobject \<Rightarrow> NodesManager \<Rightarrow> jobject" where
  "handleSyncRequest respond now request nm =
     (let fromBlock = getNum request ''fromBlockNumber''
      in case respond of
           Some f \<Rightarrow> f fromBlock
         | None \<Rightarrow> [(''nodeId'', JStr (nmNodeID nm)), (''timestamp'', wire_num (seconds now)),
                     (''headBlockNumber'', wire_num (- 1)), (''blocks'', JArr [])])"

subsection \<open>The message loop\<close>

text \<open>One round of the read loop of \<open>handlePeerConnection\<close>. The requests for sockets and blocks and the ping only answer on
  the connection.\<close>

record peer_env =
  peHead :: "int option"
  peNowText :: string
  peMaxPeers :: string
  peConnected :: "nat \<Rightarrow> int"

definition handle_peer_message ::
  "peer_env \<Rightarrow> nat \<Rightarrow> int \<Rightarrow> jobject \<Rightarrow> NodesManager \<Rightarrow> (peer_call list \<times> NodesManager) option" where
  "handle_peer_message w conn now msg nm =
     (let t = getString msg ''type''; data = getObj msg ''data''
      in if t = ''node:announce'' then map_option (\<lambda>(_, nm1). ([], nm1)) (handleNodeAnnounce (peHead w) data conn now nm)
         else if t = ''client:connected'' then map_option (Pair []) (handleClientConnected (peNowText w) data nm)
         else if t = ''client:disconnected'' then map_option (Pair []) (handleClientDisconnected data nm)
         else if t = ''blockchain:event'' then Some (handleBlockchainEvent now msg nm)
         else if t = ''sockets:response'' then Some ([], HandleSocketsResponse data nm)
         else if t = ''sync:response'' then Some ([SyncApply data], nm)
         else if t = ''peer:gossip'' then Some ([], snd (handlePeerGossip (peMaxPeers w) (peConnected w) data nm))
         else Some ([], nm))"

subsection \<open>Addresses: facts\<close>

lemma trimmed_prefix:
  assumes "trimmed a" "p \<noteq> []" "\<not> is_space (hd p)" "\<not> is_space (last p)"
  shows "trimmed (p @ a)"
  using assms by (cases "a = []") (auto simp: trimmed_def)

lemma trimmed_drop: "trimmed a \<Longrightarrow> drop n a = [] \<or> \<not> is_space (last (drop n a))"
  by (auto simp: trimmed_def)

lemma scheme_chars: "\<not> is_space (CHR ''w'')" "\<not> is_space (CHR ''/'')" "\<not> is_space (CHR ''h'')"
  by (simp_all add: is_space_def code_def)

lemma trimmed_scheme:
  assumes "trimmed a" "p \<in> {''ws://'', ''wss://''}"
  shows "trimmed (p @ drop n a)"
proof -
  have p: "p \<noteq> []" "\<not> is_space (hd p)" "\<not> is_space (last p)" using assms(2) by (auto simp: scheme_chars)
  then show ?thesis using trimmed_drop [OF assms(1), of n] by (cases "drop n a = []") (auto simp: trimmed_def)
qed

lemma normalize_ws:
  assumes "trimmed a" "HasPrefix (ToLower a) ''ws://'' \<or> HasPrefix (ToLower a) ''wss://''"
  shows "normalizePeerWebSocketDialURL a = Some a"
proof -
  have "a \<noteq> []" using assms(2) by (auto simp: HasPrefix_def)
  then show ?thesis using assms by (simp add: normalizePeerWebSocketDialURL_def TrimSpace_trimmed)
qed

lemma ToLower_scheme: "p \<in> {''ws://'', ''wss://''} \<Longrightarrow> ToLower p = p"
  by (elim insertE emptyE; hypsubst; code_simp)

lemma scheme_HasPrefix:
  assumes "p \<in> {''ws://'', ''wss://''}"
  shows "HasPrefix (ToLower (p @ a)) ''ws://'' \<or> HasPrefix (ToLower (p @ a)) ''wss://''"
  using assms ToLower_scheme [OF assms] by (auto simp: ToLower_append HasPrefix_def)

lemma normalize_dial_idem:
  assumes "normalizePeerWebSocketDialURL a = Some u"
  shows "normalizePeerWebSocketDialURL u = Some u"
proof -
  define t where "t = TrimSpace a"
  have tr: "trimmed t" by (simp add: t_def trimmed_TrimSpace)
  have "(u = t \<and> (HasPrefix (ToLower t) ''ws://'' \<or> HasPrefix (ToLower t) ''wss://'')) \<or>
      u = ''ws://'' @ drop 7 t \<or> u = ''wss://'' @ drop 8 t \<or> u = ''ws://'' @ drop 0 t"
    using assms by (simp add: normalizePeerWebSocketDialURL_def Let_def t_def [symmetric] split: if_splits)
  then consider "u = t" "HasPrefix (ToLower t) ''ws://'' \<or> HasPrefix (ToLower t) ''wss://''"
    | n where "u = ''ws://'' @ drop n t" | n where "u = ''wss://'' @ drop n t"
    by blast
  then show ?thesis
  proof cases
    case 1
    then show ?thesis using tr normalize_ws by blast
  next
    case 2
    then show ?thesis using normalize_ws [OF trimmed_scheme [OF tr, of "''ws://''"] scheme_HasPrefix] by simp
  next
    case 3
    then show ?thesis using normalize_ws [OF trimmed_scheme [OF tr, of "''wss://''"] scheme_HasPrefix] by simp
  qed
qed

subsection \<open>The table of peers\<close>

definition net_ok :: "NodesManager \<Rightarrow> bool" where
  "net_ok nm \<longleftrightarrow>
     wf_map (nmPeers nm) \<and> (\<forall>(k, p) \<in> set (nmPeers nm). pcNodeID p = k \<and> k \<noteq> nmNodeID nm \<and> sliceable k) \<and>
     wf_map (nmSockets nm) \<and> nmNodeID nm \<notin> fst ` set (nmSockets nm) \<and> distinct (nmTimers nm) \<and>
     wf_map (nmSeen nm) \<and> distinct (nmKnown nm) \<and> (\<forall>u \<in> set (nmKnown nm). dial_url nm u = Some u)"

lemma dial_url_idem: "dial_url nm a = Some u \<Longrightarrow> dial_url nm u = Some u"
  by (auto simp: dial_url_def normalize_dial_idem split: option.splits if_splits)

lemma dial_url_cong: "nmAddress nm = nmAddress nm' \<Longrightarrow> dial_url nm = dial_url nm'"
  by (rule ext) (simp only: dial_url_def)

text \<open>Changes that leave the identity and the address of the node.\<close>

lemma net_ok_same:
  assumes "net_ok nm" "nmNodeID nm' = nmNodeID nm" "nmAddress nm' = nmAddress nm" "nmPeers nm' = nmPeers nm"
    "nmSockets nm' = nmSockets nm" "nmTimers nm' = nmTimers nm" "nmKnown nm' = nmKnown nm" "wf_map (nmSeen nm')"
  shows "net_ok nm'"
  using assms dial_url_cong [of nm' nm] by (simp add: net_ok_def)

lemma net_ok_seen: "net_ok nm \<Longrightarrow> wf_map seen \<Longrightarrow> net_ok (nm\<lparr>nmSeen := seen\<rparr>)"
  by (rule net_ok_same [of nm]) simp_all

lemma map_fst_update_peer: "map fst (map (\<lambda>(k, p). (k, if k = n then f p else p)) xs) = map fst xs"
  by (induction xs) auto

lemma update_peer_ok:
  assumes "net_ok nm" "\<And>p. pcNodeID (f p) = pcNodeID p"
  shows "net_ok (update_peer n f nm)"
  using assms dial_url_cong [of "update_peer n f nm" nm]
  by (auto simp: net_ok_def update_peer_def map_fst_update_peer simp del: map_map)

lemma drop_peer_simps [simp]:
  "nmNodeID (drop_peer k nm) = nmNodeID nm" "nmAddress (drop_peer k nm) = nmAddress nm" "nmTimers (drop_peer k nm) = nmTimers nm"
  "nmKnown (drop_peer k nm) = nmKnown nm" "nmSeen (drop_peer k nm) = nmSeen nm"
  "nmPeers (drop_peer k nm) = AList.delete k (nmPeers nm)" "nmSockets (drop_peer k nm) = AList.delete k (nmSockets nm)"
  by (simp_all add: drop_peer_def)

lemma in_delete: "x \<in> set (AList.delete k m) \<Longrightarrow> x \<in> set m"
  by (induction m) (auto split: if_splits)

lemma drop_peer_ok: "net_ok nm \<Longrightarrow> net_ok (drop_peer k nm)"
  using dial_url_cong [of "drop_peer k nm" nm] by (auto simp: net_ok_def dest!: in_delete)

lemma schedule_simps [simp]:
  "nmNodeID (scheduleReconnect a nm) = nmNodeID nm" "nmAddress (scheduleReconnect a nm) = nmAddress nm"
  "nmPeers (scheduleReconnect a nm) = nmPeers nm" "nmSockets (scheduleReconnect a nm) = nmSockets nm"
  "nmKnown (scheduleReconnect a nm) = nmKnown nm" "nmSeen (scheduleReconnect a nm) = nmSeen nm"
  "set (nmTimers (scheduleReconnect a nm)) = insert a (set (nmTimers nm))"
  by (auto simp: scheduleReconnect_def)

lemma schedule_ok: "net_ok nm \<Longrightarrow> net_ok (scheduleReconnect a nm)"
  using dial_url_cong [of "scheduleReconnect a nm" nm] by (auto simp: net_ok_def scheduleReconnect_def)

lemma record_simps [simp]:
  "nmNodeID (recordKnownPeer a nm) = nmNodeID nm" "nmAddress (recordKnownPeer a nm) = nmAddress nm"
  "nmPeers (recordKnownPeer a nm) = nmPeers nm" "nmSockets (recordKnownPeer a nm) = nmSockets nm"
  "nmTimers (recordKnownPeer a nm) = nmTimers nm" "nmSeen (recordKnownPeer a nm) = nmSeen nm"
  by (simp_all add: recordKnownPeer_def split: option.splits)

lemma record_ok: "net_ok nm \<Longrightarrow> net_ok (recordKnownPeer a nm)"
  using dial_url_cong [of "recordKnownPeer a nm" nm]
  by (auto simp: net_ok_def) (auto simp: recordKnownPeer_def dest: dial_url_idem split: option.splits)

lemma record_all_ok: "net_ok nm \<Longrightarrow> net_ok (foldl (\<lambda>m a. recordKnownPeer a m) nm as)"
  by (induction as arbitrary: nm) (auto intro: record_ok)

lemma record_all_seen [simp]: "nmSeen (foldl (\<lambda>m a. recordKnownPeer a m) nm as) = nmSeen nm"
  by (induction as arbitrary: nm) simp_all

lemma remove_dead_ok: "net_ok nm \<Longrightarrow> net_ok (removeDeadPeers ids nm)"
proof -
  have d: "net_ok m \<Longrightarrow> net_ok (foldl (\<lambda>m k. drop_peer k m) m ids)" for m
    by (induction ids arbitrary: m) (auto intro: drop_peer_ok)
  have s: "net_ok m \<Longrightarrow> net_ok (foldl (\<lambda>m a. scheduleReconnect a m) m as)" for m as
    by (induction as arbitrary: m) (auto intro: schedule_ok)
  show "net_ok nm \<Longrightarrow> net_ok (removeDeadPeers ids nm)" unfolding removeDeadPeers_def by (intro s d)
qed

lemma schedule_all_simps [simp]:
  "nmSeen (foldl (\<lambda>m a. scheduleReconnect a m) nm as) = nmSeen nm"
  "nmPeers (foldl (\<lambda>m a. scheduleReconnect a m) nm as) = nmPeers nm"
  "set (nmTimers (foldl (\<lambda>m a. scheduleReconnect a m) nm as)) = set as \<union> set (nmTimers nm)"
  by (induction as arbitrary: nm) auto

lemma drop_all_simps [simp]:
  "nmSeen (foldl (\<lambda>m k. drop_peer k m) nm ids) = nmSeen nm"
  "nmTimers (foldl (\<lambda>m k. drop_peer k m) nm ids) = nmTimers nm"
  "nmPeers (foldl (\<lambda>m k. drop_peer k m) nm ids) = filter (\<lambda>(k, _). k \<notin> set ids) (nmPeers nm)"
  by (induction ids arbitrary: nm) (auto simp: AList.delete_eq intro!: filter_cong)

lemma remove_dead_simps [simp]:
  "nmSeen (removeDeadPeers ids nm) = nmSeen nm"
  "nmPeers (removeDeadPeers ids nm) = filter (\<lambda>(k, _). k \<notin> set ids) (nmPeers nm)"
  "set (nmTimers (removeDeadPeers ids nm)) = set (dead_addresses nm ids) \<union> set (nmTimers nm)"
  by (simp_all add: removeDeadPeers_def)

subsection \<open>Every operation keeps it\<close>

lemma announce_ok:
  assumes "net_ok nm" "handleNodeAnnounce head data conn now nm = Some (out, nm')"
  shows "net_ok nm' \<and> nmSeen nm' = nmSeen nm"
proof -
  let ?k = "getString data ''nodeId''"
  consider "nm' = nm" | "nm' = update_peer ?k (known_announce data conn now) nm"
    | "nm' = nm\<lparr>nmPeers := AList.update ?k (new_peer data conn now) (nmPeers nm)\<rparr>" "?k \<noteq> nmNodeID nm" "sliceable ?k"
    using assms(2) by (auto simp: handleNodeAnnounce_def Let_def split: if_splits)
  then show ?thesis
  proof cases
    case 2
    have "pcNodeID (known_announce data conn now p) = pcNodeID p" for p by (simp add: known_announce_def Let_def)
    then show ?thesis using 2 assms(1) update_peer_ok by (simp add: update_peer_def)
  next
    case 3
    then show ?thesis using assms(1) dial_url_cong [of nm' nm]
      by (auto simp: net_ok_def new_peer_def set_update_wf)
  qed (use assms(1) in simp)
qed

lemma sockets_ok:
  assumes "net_ok nm" "k \<noteq> nmNodeID nm"
  shows "net_ok (nm\<lparr>nmSockets := AList.update k m (nmSockets nm)\<rparr>)" "net_ok (nm\<lparr>nmSockets := AList.delete k (nmSockets nm)\<rparr>)"
  using assms dial_url_cong [of "nm\<lparr>nmSockets := AList.update k m (nmSockets nm)\<rparr>" nm]
    dial_url_cong [of "nm\<lparr>nmSockets := AList.delete k (nmSockets nm)\<rparr>" nm]
  by (auto simp: net_ok_def dom_update simp flip: dom_map_of_conv_image_fst)

lemma client_ok:
  assumes "net_ok nm"
  shows "handleClientConnected t data nm = Some nm' \<Longrightarrow> net_ok nm' \<and> nmSeen nm' = nmSeen nm"
    "handleClientDisconnected data nm = Some nm' \<Longrightarrow> net_ok nm' \<and> nmSeen nm' = nmSeen nm"
    "net_ok (HandleSocketsResponse data nm) \<and> nmSeen (HandleSocketsResponse data nm) = nmSeen nm"
  using assms sockets_ok
  by (auto simp: handleClientConnected_def handleClientDisconnected_def HandleSocketsResponse_def Let_def split: if_splits option.splits)

lemma note_event_wf: "wf_map seen \<Longrightarrow> note_event i now seen = Some seen' \<Longrightarrow> wf_map seen'"
  by (auto simp: note_event_def intro!: distinct_map_filter split: option.splits if_splits)

lemma event_ok: "net_ok nm \<Longrightarrow> net_ok (snd (handleBlockchainEvent now msg nm))"
  using note_event_wf [of "nmSeen nm" "getString msg ''eventId''" now]
  by (simp add: handleBlockchainEvent_def Let_def split: option.splits) (simp add: net_ok_seen net_ok_def [THEN iffD1])

lemma gossip_ok:
  "net_ok nm \<Longrightarrow> net_ok (snd (handlePeerGossip env connected data nm))"
  "nmSeen (snd (handlePeerGossip env connected data nm)) = nmSeen nm"
  by (simp_all add: handlePeerGossip_def Let_def record_all_ok)

lemma tryConnect_ok:
  "net_ok nm \<Longrightarrow> net_ok (snd (tryConnect parses dials a nm))" "nmSeen (snd (tryConnect parses dials a nm)) = nmSeen nm"
  by (simp_all add: tryConnect_def record_ok split: option.splits)

text \<open>What can happen to the manager: messages, pongs, ticks, ends of connections, broadcasts, dialling. \<open>None\<close>: the process
  has panicked.\<close>

datatype net_event =
    NetMessage peer_env nat int jobject
  | NetPong string int
  | NetTick "nat \<Rightarrow> string option" string int
  | NetGone string
  | NetBroadcast "nat \<Rightarrow> string option" string jobject string int
  | NetDial "string \<Rightarrow> bool" "string \<Rightarrow> bool" string
  | NetReconnect "string \<Rightarrow> bool" "string \<Rightarrow> bool" string
  | NetPeers "string list option" "string list option"

fun net_do :: "net_event \<Rightarrow> NodesManager \<Rightarrow> NodesManager option" where
  "net_do (NetMessage w conn now msg) nm = map_option snd (handle_peer_message w conn now msg nm)"
| "net_do (NetPong a now) nm = Some (handle_pong a now nm)"
| "net_do (NetTick wr a now) nm = Some (snd (heartbeat_tick wr a now nm))"
| "net_do (NetGone a) nm = peer_disconnected a nm"
| "net_do (NetBroadcast wr ty data origin now) nm = map_option snd (BroadcastBlockchainEvent wr ty data origin now nm)"
| "net_do (NetDial parses dials a) nm = Some (snd (tryConnect parses dials a nm))"
| "net_do (NetReconnect parses dials a) nm = Some (reconnect_fires parses dials a nm)"
| "net_do (NetPeers file env) nm = Some (snd (ConnectToPeers file env nm))"

definition net_step :: "NodesManager option \<Rightarrow> net_event \<Rightarrow> NodesManager option" where
  "net_step s e = Option.bind s (net_do e)"

lemma message_ok:
  assumes "net_ok nm" "handle_peer_message w conn now msg nm = Some (calls, nm')"
  shows "net_ok nm'"
proof -
  have ev: "handleBlockchainEvent now msg nm = (calls, nm') \<Longrightarrow> net_ok nm'" using event_ok [OF assms(1), of now msg] by simp
  show ?thesis
    using assms(2) client_ok [OF assms(1)] announce_ok [OF assms(1)] gossip_ok(1) [OF assms(1)] ev assms(1)
    by (auto simp: handle_peer_message_def Let_def split: if_splits)
qed

lemma pong_ok: "net_ok nm \<Longrightarrow> net_ok (handle_pong a now nm)" "nmSeen (handle_pong a now nm) = nmSeen nm"
  by (auto simp: handle_pong_def intro!: update_peer_ok split: option.splits) (simp add: update_peer_def)

lemma tick_ok: "net_ok nm \<Longrightarrow> net_ok (snd (heartbeat_tick wr a now nm))" "nmSeen (snd (heartbeat_tick wr a now nm)) = nmSeen nm"
  by (auto simp: heartbeat_tick_def Let_def intro!: update_peer_ok split: option.splits) (simp_all add: update_peer_def)

lemma gone_ok: "net_ok nm \<Longrightarrow> peer_disconnected a nm = Some nm' \<Longrightarrow> net_ok nm' \<and> nmSeen nm' = nmSeen nm"
  by (auto simp: peer_disconnected_def intro: schedule_ok drop_peer_ok split: option.splits if_splits)

lemma broadcast_ok: "net_ok nm \<Longrightarrow> BroadcastBlockchainEvent wr ty data origin now nm = Some (out, nm') \<Longrightarrow> net_ok nm'"
  by (auto simp: BroadcastBlockchainEvent_def Let_def intro!: remove_dead_ok net_ok_seen split: if_splits) (simp add: net_ok_def)

lemma reconnect_ok:
  assumes "net_ok nm"
  shows "net_ok (reconnect_fires parses dials a nm) \<and> nmSeen (reconnect_fires parses dials a nm) = nmSeen nm"
proof -
  let ?nm = "nm\<lparr>nmTimers := removeAll a (nmTimers nm)\<rparr>"
  have "net_ok ?nm" using assms dial_url_cong [of ?nm nm] by (simp add: net_ok_def distinct_removeAll)
  then have "net_ok (snd (tryConnect parses dials a ?nm))" "nmSeen (snd (tryConnect parses dials a ?nm)) = nmSeen nm"
    by (simp_all add: tryConnect_ok)
  then show ?thesis
    by (cases "tryConnect parses dials a ?nm") (auto simp: reconnect_fires_def intro: schedule_ok split: sum.splits)
qed

lemma net_do_ok: "net_ok nm \<Longrightarrow> net_do e nm = Some nm' \<Longrightarrow> net_ok nm'"
  by (cases e)
    (auto simp: pong_ok tick_ok tryConnect_ok reconnect_ok ConnectToPeers_def Let_def intro: message_ok broadcast_ok record_all_ok dest: gone_ok)

interpretation network: event_machine net_step "\<lambda>s. case s of None \<Rightarrow> True | Some nm \<Rightarrow> net_ok nm"
  by unfold_locales (auto simp: net_step_def intro: net_do_ok split: option.splits bind_splits)

lemma NewNodesManager_ok: "net_ok (SetNodeAddress a (NewNodesManager ident port host))"
  by (simp add: net_ok_def SetNodeAddress_def NewNodesManager_def)

lemma targets_known: "(k, c) \<in> set (targets origin nm) \<Longrightarrow> \<exists>p. (k, p) \<in> set (nmPeers nm) \<and> pcConn p = Some c"
  by (auto simp: targets_def set_nonnil eq_commute [of "Some (k, c)"] split: if_splits)

lemma broadcast_no_panic: "net_ok nm \<Longrightarrow> BroadcastBlockchainEvent wr ty data origin now nm \<noteq> None"
  by (auto simp: BroadcastBlockchainEvent_def Let_def list_ex_iff net_ok_def dest!: targets_known split: option.splits)

lemma key_at_known: "key_at nm a = Some k \<Longrightarrow> \<exists>p. (k, p) \<in> set (nmPeers nm)"
  by (auto simp: key_at_def find_Some_iff) (metis nth_mem)

lemma gone_no_panic: "net_ok nm \<Longrightarrow> peer_disconnected a nm \<noteq> None"
  by (auto simp: peer_disconnected_def net_ok_def dest!: key_at_known split: option.splits)

text \<open>C25: whatever peers send, in whatever order connections come and go, the table of peers has one entry per node, never the
  node itself; the addresses it remembers for dialling are normal and never its own; and the log lines that cut
  a node id after eight characters are safe in broadcasts and at the end of a connection.\<close>

theorem peer_table_invariant:
  assumes "foldl net_step (Some (SetNodeAddress a (NewNodesManager ident port host))) es = Some nm"
  shows "distinct (map niNodeID (GetConnectedNodes nm)) \<and> nmNodeID nm \<notin> niNodeID ` set (GetConnectedNodes nm) \<and>
    (\<forall>u \<in> set (nmKnown nm). normalizePeerWebSocketDialURL u = Some u \<and> \<not> peerWebSocketDialURLsEqual u (nmAddress nm)) \<and>
    BroadcastBlockchainEvent wr ty data origin now nm \<noteq> None \<and> peer_disconnected addr nm \<noteq> None"
proof -
  have ok: "net_ok nm"
    using network.run_inv [of "Some (SetNodeAddress a (NewNodesManager ident port host))" es] assms NewNodesManager_ok by simp
  have ids: "map niNodeID (GetConnectedNodes nm) = map fst (nmPeers nm)"
    using ok by (auto simp: GetConnectedNodes_def info_of_def net_ok_def)
  then have mem: "niNodeID ` set (GetConnectedNodes nm) = fst ` set (nmPeers nm)" by (metis image_set)
  have "normalizePeerWebSocketDialURL u = Some u \<and> \<not> peerWebSocketDialURLsEqual u (nmAddress nm)" if "u \<in> set (nmKnown nm)" for u
  proof -
    have "dial_url nm u = Some u" using ok that by (simp add: net_ok_def)
    then show ?thesis by (auto simp: dial_url_def peerWebSocketDialURLsEqual_def split: option.splits if_splits)
  qed
  moreover have "distinct (map fst (nmPeers nm))" "nmNodeID nm \<notin> fst ` set (nmPeers nm)" using ok by (auto simp: net_ok_def)
  ultimately show ?thesis
    using broadcast_no_panic [OF ok] gone_no_panic [OF ok] by (simp only: ids mem) blast
qed

subsection \<open>Events are processed once\<close>

fun net_time :: "net_event \<Rightarrow> int option" where
  "net_time (NetMessage w conn now msg) = Some now"
| "net_time (NetPong a now) = Some now"
| "net_time (NetTick wr a now) = Some now"
| "net_time (NetBroadcast wr ty data origin now) = Some now"
| "net_time _ = None"

definition seen_since :: "string \<Rightarrow> int \<Rightarrow> NodesManager \<Rightarrow> bool" where
  "seen_since i t nm \<longleftrightarrow> wf_map (nmSeen nm) \<and> (\<exists>u \<ge> t. map_of (nmSeen nm) i = Some u)"

lemma seen_since_cong: "nmSeen nm' = nmSeen nm \<Longrightarrow> seen_since i t nm \<Longrightarrow> seen_since i t nm'"
  by (simp only: seen_since_def)

lemma map_of_filter_wf: "wf_map m \<Longrightarrow> map_of m k = Some v \<Longrightarrow> P (k, v) \<Longrightarrow> map_of (filter P m) k = Some v"
  by (simp add: distinct_map_filter' map_of_eq_Some_iff)

lemma wf_map_filter: "wf_map m \<Longrightarrow> wf_map (filter P m)"
  by (rule distinct_map_filter)

lemma note_event_seen:
  assumes "wf_map seen" "map_of seen i = Some u" "t \<le> u" "t \<le> now" "now < t + five_minutes" "note_event j now seen = Some seen'"
  shows "wf_map seen' \<and> (\<exists>u \<ge> t. map_of seen' i = Some u)"
proof -
  let ?P = "\<lambda>(_, u). \<not> now - u > ten_minutes" and ?m = "AList.update j now seen"
  have e: "seen' = filter ?P ?m" using assms(6) by (auto simp: note_event_def split: option.splits if_splits)
  have wf: "wf_map ?m" using assms(1) by simp
  obtain v where v: "v \<ge> t" "map_of ?m i = Some v" using assms(2-4) by (cases "j = i") (auto simp: map_of_update)
  moreover have "?P (i, v)" using v(1) assms(5) by (simp add: five_minutes_def ten_minutes_def)
  ultimately show ?thesis using map_of_filter_wf [OF wf v(2), of ?P] wf_map_filter [OF wf] e by blast
qed

lemma event_seen:
  assumes "seen_since i t nm" "t \<le> now" "now < t + five_minutes"
  shows "seen_since i t (snd (handleBlockchainEvent now msg nm))"
proof (cases "note_event (getString msg ''eventId'') now (nmSeen nm)")
  case None
  then show ?thesis using assms(1) by (simp add: handleBlockchainEvent_def Let_def)
next
  case (Some seen)
  obtain u where "wf_map (nmSeen nm)" "map_of (nmSeen nm) i = Some u" "t \<le> u" using assms(1) unfolding seen_since_def by blast
  from note_event_seen [OF this assms(2,3) Some] have "seen_since i t (nm\<lparr>nmSeen := seen\<rparr>)"
    by (simp add: seen_since_def del: map_of_eq_Some_iff)
  then show ?thesis using Some assms(1) by (simp add: handleBlockchainEvent_def Let_def)
qed

lemma message_seen:
  assumes "net_ok nm" "seen_since i t nm" "t \<le> now" "now < t + five_minutes" "handle_peer_message w conn now msg nm = Some (calls, nm')"
  shows "seen_since i t nm'"
proof -
  have ev: "handleBlockchainEvent now msg nm = (calls, nm') \<Longrightarrow> seen_since i t nm'" using event_seen [OF assms(2-4), of msg] by simp
  have same: "nmSeen nm' = nmSeen nm \<Longrightarrow> seen_since i t nm'" using assms(2) seen_since_cong by blast
  show ?thesis
    using assms(5) client_ok [OF assms(1)] announce_ok [OF assms(1)] gossip_ok(2) ev same
    by (auto simp: handle_peer_message_def Let_def split: if_splits)
qed

lemma broadcast_seen:
  assumes "seen_since i t nm" "t \<le> now" "BroadcastBlockchainEvent wr ty data origin now nm = Some (out, nm')"
  shows "seen_since i t nm'"
proof -
  have "nmSeen nm' = AList.update (event_id ty now nm) now (nmSeen nm)"
    using assms(3) by (auto simp: BroadcastBlockchainEvent_def Let_def split: if_splits)
  then show ?thesis using assms(1,2) by (auto simp: seen_since_def map_of_update)
qed

lemma net_do_seen:
  assumes "net_ok nm" "seen_since i t nm" "\<forall>now. net_time e = Some now \<longrightarrow> t \<le> now \<and> now < t + five_minutes" "net_do e nm = Some nm'"
  shows "seen_since i t nm'"
proof -
  have same: "nmSeen nm' = nmSeen nm \<Longrightarrow> seen_since i t nm'" using assms(2) seen_since_cong by blast
  show ?thesis
    using assms same
    by (cases e) (auto simp: pong_ok tick_ok tryConnect_ok reconnect_ok ConnectToPeers_def Let_def intro: message_seen broadcast_seen dest: gone_ok)
qed

lemma net_run_seen:
  assumes "foldl net_step (Some nm) es = Some nm'" "net_ok nm" "seen_since i t nm"
    "\<forall>e \<in> set es. \<forall>now. net_time e = Some now \<longrightarrow> t \<le> now \<and> now < t + five_minutes"
  shows "seen_since i t nm'"
  using assms
proof (induction es arbitrary: nm)
  case (Cons e es)
  have "foldl net_step None es = None" for es by (induction es) (simp_all add: net_step_def)
  then obtain nm1 where "net_do e nm = Some nm1" "foldl net_step (Some nm1) es = Some nm'"
    using Cons.prems(1) by (cases "net_do e nm") (auto simp: net_step_def [of "Some nm"])
  moreover from this(1) have "net_ok nm1" "seen_since i t nm1"
    using Cons.prems net_do_ok [of nm e nm1] net_do_seen [of nm i t e nm1] by simp_all
  ultimately show ?case using Cons.IH [of nm1] Cons.prems(4) by simp
qed simp

text \<open>C26: a blockchain event is handed to the callbacks once: after an event with an identifier was processed, a message with
  that identifier changes nothing and invokes nothing for five minutes, whatever else arrives in between.\<close>

theorem event_processed_once:
  assumes "foldl net_step (Some (NewNodesManager ident port host)) es = Some nm"
    and "handleBlockchainEvent t msg nm = (calls, nm1)" "calls \<noteq> []" "getString msg ''eventId'' \<noteq> []"
    and "foldl net_step (Some nm1) es' = Some nm2"
    and "\<forall>e \<in> set es'. \<forall>now. net_time e = Some now \<longrightarrow> t \<le> now \<and> now < t + five_minutes"
    and "getString msg' ''eventId'' = getString msg ''eventId''" "t' < t + five_minutes"
  shows "handleBlockchainEvent t' msg' nm2 = ([], nm2)"
proof -
  let ?i = "getString msg ''eventId''"
  have "net_ok (NewNodesManager ident port host)" by (simp add: net_ok_def NewNodesManager_def)
  then have ok: "net_ok nm" using network.run_inv [of "Some (NewNodesManager ident port host)" es] assms(1) by simp
  then have ok1: "net_ok nm1" using event_ok [OF ok, of t msg] assms(2) by simp
  obtain seen where s: "note_event ?i t (nmSeen nm) = Some seen" "nm1 = nm\<lparr>nmSeen := seen\<rparr>"
    using assms(2-4) by (auto simp: handleBlockchainEvent_def Let_def split: if_splits option.splits)
  then have e: "seen = filter (\<lambda>(_, u). \<not> t - u > ten_minutes) (AList.update ?i t (nmSeen nm))"
    by (auto simp: note_event_def split: option.splits if_splits)
  have wf: "wf_map (AList.update ?i t (nmSeen nm))" using ok by (simp add: net_ok_def)
  have "map_of seen ?i = Some t"
    unfolding e by (rule map_of_filter_wf [OF wf]) (simp_all add: map_of_update ten_minutes_def)
  then have "seen_since ?i t nm1" using wf_map_filter [OF wf] s(2) e by (auto simp: seen_since_def)
  from net_run_seen [OF assms(5) ok1 this assms(6)]
  obtain u where "u \<ge> t" "map_of (nmSeen nm2) ?i = Some u" by (auto simp: seen_since_def)
  then have "note_event ?i t' (nmSeen nm2) = None" using assms(8) by (simp add: note_event_def)
  then show ?thesis using assms(4,7) by (simp add: handleBlockchainEvent_def Let_def)
qed

subsection \<open>Broadcasts and votes\<close>

lemma in_targets:
  assumes "(k, p) \<in> set (nmPeers nm)" "pcConn p = Some c" "origin = [] \<or> k \<noteq> origin"
  shows "(k, c) \<in> set (targets origin nm)"
  using assms by (force simp: targets_def set_nonnil image_iff)

lemma dead_addressesI:
  assumes "k \<in> set ids" "map_of (nmPeers nm) k = Some p" "pcAddress p \<noteq> []"
  shows "pcAddress p \<in> set (dead_addresses nm ids)"
proof -
  have "p \<in> set (nonnil (map (map_of (nmPeers nm)) ids))" using assms(1,2) by (force simp: set_nonnil image_iff)
  then show ?thesis using assms(3) by (simp add: dead_addresses_def)
qed

text \<open>Remark: a broadcast goes once to every connected peer but the one the event came from: a peer is sent the event exactly when
  a write on its connection succeeds, a peer whose connection is gone leaves the table and is dialled again,
  every other peer stays, and the node remembers the event as its own.\<close>

theorem broadcast_reaches_peers:
  assumes "net_ok nm" "BroadcastBlockchainEvent wr ty data origin now nm = Some (out, nm')"
    and "(k, p) \<in> set (nmPeers nm)" "pcConn p = Some c" "origin = [] \<or> k \<noteq> origin"
  shows "((c, event_envelope ty data origin now nm) \<in> set out \<longleftrightarrow> wr c = None) \<and>
    length out \<le> length (nmPeers nm) \<and>
    ((k, p) \<in> set (nmPeers nm') \<longleftrightarrow> \<not> (\<exists>e. wr c = Some e \<and> isConnDeadErr e)) \<and>
    ((\<exists>e. wr c = Some e \<and> isConnDeadErr e) \<longrightarrow> pcAddress p \<noteq> [] \<longrightarrow> pcAddress p \<in> set (nmTimers nm')) \<and>
    map_of (nmSeen nm') (event_id ty now nm) = Some now"
proof -
  let ?ts = "targets origin nm"
  let ?dead = "map fst (filter (\<lambda>(_, c). case wr c of None \<Rightarrow> False | Some e \<Rightarrow> isConnDeadErr e) ?ts)"
  let ?nm = "nm\<lparr>nmSeen := AList.update (event_id ty now nm) now (nmSeen nm)\<rparr>"
  have out: "out = map (\<lambda>(_, c). (c, event_envelope ty data origin now nm)) (filter (\<lambda>(_, c). wr c = None) ?ts)"
    and nm': "nm' = removeDeadPeers ?dead ?nm"
    using assms(2) unfolding BroadcastBlockchainEvent_def Let_def by (simp_all only: option.inject prod.inject option.distinct split: if_splits)
  have kc: "(k, c) \<in> set ?ts" using in_targets assms(3-5) by blast
  have wf: "wf_map (nmPeers nm)" using assms(1) by (simp add: net_ok_def)
  have uniq: "c' = c" if "(k, c') \<in> set ?ts" for c'
    using targets_known [OF that] assms(3,4) wf by (metis map_of_eq_Some_iff option.inject)
  have dead: "k \<in> set ?dead \<longleftrightarrow> (\<exists>e. wr c = Some e \<and> isConnDeadErr e)"
  proof -
    have "k \<in> set ?dead \<longleftrightarrow> (\<exists>c'. (k, c') \<in> set ?ts \<and> (case wr c' of None \<Rightarrow> False | Some e \<Rightarrow> isConnDeadErr e))"
      by (auto simp: image_iff Bex_def)
    then have "k \<in> set ?dead \<longleftrightarrow> (case wr c of None \<Rightarrow> False | Some e \<Rightarrow> isConnDeadErr e)" using kc uniq by metis
    then show ?thesis by (cases "wr c") simp_all
  qed
  have len: "length (nonnil xs) \<le> length xs" for xs :: "'b option list" by (induction xs rule: nonnil.induct) auto
  have "length out \<le> length ?ts" by (simp add: out)
  also have "\<dots> \<le> length (nmPeers nm)" unfolding targets_def by (rule order_trans [OF len]) simp
  finally have l: "length out \<le> length (nmPeers nm)" .
  have sent: "(c, event_envelope ty data origin now nm) \<in> set out \<longleftrightarrow> wr c = None" using kc by (auto simp: out image_iff)
  have peers: "(k, p) \<in> set (nmPeers nm') \<longleftrightarrow> k \<notin> set ?dead" using assms(3) by (simp add: nm')
  have "map_of (nmPeers ?nm) k = Some p" using wf assms(3) by simp
  then have "k \<in> set ?dead \<longrightarrow> pcAddress p \<noteq> [] \<longrightarrow> pcAddress p \<in> set (dead_addresses ?nm ?dead)"
    using dead_addressesI by blast
  then have timers: "k \<in> set ?dead \<longrightarrow> pcAddress p \<noteq> [] \<longrightarrow> pcAddress p \<in> set (nmTimers nm')" by (simp add: nm')
  have "map_of (nmSeen nm') (event_id ty now nm) = Some now" by (simp add: nm' map_of_update del: map_of_eq_Some_iff)
  with l sent peers timers show ?thesis unfolding dead by blast
qed

lemma verified_nonempty:
  assumes "VerifyVoteSignature ed n b y pub sig = None"
  shows "pub \<noteq> []" "sig \<noteq> []"
  using assms by (auto simp: VerifyVoteSignature_def decode_sized_def PublicKeySize_def SignatureSize_def split: option.splits if_splits)

definition same_node :: "NodesManager \<Rightarrow> NodesManager \<Rightarrow> bool" where
  "same_node nm nm' \<longleftrightarrow> nmNodeID nm' = nmNodeID nm \<and> nmIdentity nm' = nmIdentity nm"

lemma same_node_parts [simp]:
  "same_node nm nm" "same_node nm (update_peer k f nm)" "same_node nm (nm\<lparr>nmPeers := ps\<rparr>)" "same_node nm (nm\<lparr>nmSockets := ss\<rparr>)"
  "same_node nm (nm\<lparr>nmSeen := se\<rparr>)" "same_node nm (recordKnownPeer a nm)" "same_node nm (scheduleReconnect a nm)" "same_node nm (drop_peer k nm)"
  "same_node nm (scheduleReconnect a (drop_peer k nm))"
  by (simp_all add: same_node_def update_peer_def recordKnownPeer_def scheduleReconnect_def drop_peer_def split: option.splits)

lemma same_node_trans: "same_node a b \<Longrightarrow> same_node b c \<Longrightarrow> same_node a c"
  by (simp add: same_node_def)

lemma same_node_foldl: "(\<And>m x. same_node m (f m x)) \<Longrightarrow> same_node nm (foldl f nm xs)"
  by (induction xs arbitrary: nm) (auto intro: same_node_trans)

lemma same_node_dead: "same_node nm (removeDeadPeers ids nm)"
  unfolding removeDeadPeers_def by (intro same_node_trans [OF same_node_foldl same_node_foldl]) simp_all

lemma same_node_dial: "same_node nm (snd (tryConnect parses dials a nm))"
  by (simp add: tryConnect_def split: option.splits)

lemma same_node_message: "handle_peer_message w conn now msg nm = Some (calls, nm') \<Longrightarrow> same_node nm nm'"
  by (auto simp: handle_peer_message_def handleNodeAnnounce_def handleClientConnected_def handleClientDisconnected_def
      handleBlockchainEvent_def HandleSocketsResponse_def handlePeerGossip_def Let_def intro: same_node_foldl split: if_splits option.splits)

lemma same_node_broadcast: "BroadcastBlockchainEvent wr ty data origin now nm = Some (out, nm') \<Longrightarrow> same_node nm nm'"
  by (auto simp: BroadcastBlockchainEvent_def Let_def intro!: same_node_trans [OF _ same_node_dead] split: if_splits)

lemma same_node_reconnect: "same_node nm (reconnect_fires parses dials a nm)"
proof -
  let ?nm = "nm\<lparr>nmTimers := removeAll a (nmTimers nm)\<rparr>"
  have "same_node nm ?nm" by (simp add: same_node_def)
  then have "same_node nm (snd (tryConnect parses dials a ?nm))" using same_node_dial same_node_trans by blast
  then show ?thesis
    by (cases "tryConnect parses dials a ?nm") (auto simp: reconnect_fires_def intro: same_node_trans split: sum.splits)
qed

lemma same_node_do: "net_do e nm = Some nm' \<Longrightarrow> same_node nm nm'"
  by (cases e) (auto simp: handle_pong_def heartbeat_tick_def peer_disconnected_def ConnectToPeers_def Let_def same_node_dial same_node_reconnect
      intro: same_node_message same_node_broadcast same_node_foldl same_node_trans split: option.splits if_splits)

lemma same_node_run: "foldl net_step (Some nm) es = Some nm' \<Longrightarrow> same_node nm nm'"
proof (induction es arbitrary: nm)
  case (Cons e es)
  have "foldl net_step None es = None" for es by (induction es) (simp_all add: net_step_def)
  then obtain nm1 where "net_do e nm = Some nm1" "foldl net_step (Some nm1) es = Some nm'"
    using Cons.prems(1) by (cases "net_do e nm") (auto simp: net_step_def [of "Some nm"])
  then show ?case using Cons.IH same_node_do same_node_trans by blast
qed simp

text \<open>C27: a vote arrives as it was cast. When a node that loaded or created its identity signs an L1 or an L2 vote and broadcasts
  it, every peer that gets the message, has another node id and has not seen the event hands exactly this vote, with the node's key
  and the signature made, to the callback of that layer, and the vote passes the signature check of
  \<open>acceptPeerVote\<close>, provided Ed25519 verifies what it signed.\<close>

theorem vote_reaches_peer:
  assumes "fst (LoadOrCreateIdentity ed save_ok stored) = Inr ident"
    and "\<And>pub priv m. DecodeString (idPubKey ident) = Some pub \<Longrightarrow> DecodeString (idPrivKey ident) = Some priv \<Longrightarrow>
       edVerify ed pub m (edSign ed priv m) \<and> length (edSign ed priv m) = 64"
    and "length (fst (edKeys ed)) = 32" "length (snd (edKeys ed)) = 64"
    and "foldl net_step (Some (NewNodesManager ident port host)) es = Some nm"
    and "(kind, callback) \<in> {(''l1_vote'', L1Vote), (''l2_vote'', L2Vote)}"
    and "BroadcastBlockchainEvent wr kind (SignedVotePayload ed nm blockID yes) (nmNodeID nm) now nm = Some (out, nm')" "(c, ev) \<in> set out"
    and "nmNodeID rm \<noteq> nmNodeID nm" "map_of (nmSeen rm) (getString ev ''eventId'') = None"
  shows "\<exists>sig. SignVote ed ident blockID yes = Some sig \<and>
    fst (handleBlockchainEvent t ev rm) = [callback blockID (idNodeID ident) yes (idPubKey ident) sig] \<and>
    acceptPeerVote ed raw blockID (idNodeID ident) yes (idPubKey ident) sig"
proof -
  have kind: "kind \<noteq> []" "kind \<noteq> ''message:route''" using assms(6) by auto
  obtain s where s: "SignVote ed ident blockID yes = Some s"
    "VerifyVoteSignature ed (idNodeID ident) blockID yes (idPubKey ident) s = None"
    using SignVote_verifies [OF assms(1-4)] by blast
  have "same_node (NewNodesManager ident port host) nm" using same_node_run [OF assms(5)] .
  then have id: "nmNodeID nm = idNodeID ident" "nmIdentity nm = Some ident" by (simp_all add: same_node_def NewNodesManager_def)
  have ev: "ev = event_envelope kind (SignedVotePayload ed nm blockID yes) (nmNodeID nm) now nm"
    using assms(7,8) by (auto simp: BroadcastBlockchainEvent_def Let_def split: if_splits)
  have "getString ev ''eventId'' \<noteq> []" "getString ev ''eventType'' = kind" "getString ev ''originNodeId'' = nmNodeID nm"
    "getObj ev ''data'' = SignedVotePayload ed nm blockID yes"
    by (simp_all add: ev event_envelope_def event_id_def json_defs)
  then have "fst (handleBlockchainEvent t ev rm) = event_calls kind (SignedVotePayload ed nm blockID yes)"
    using assms(9,10) kind by (simp add: handleBlockchainEvent_def event_type_def note_event_def Let_def)
  also have "\<dots> = [callback blockID (idNodeID ident) yes (idPubKey ident) s]"
    using assms(6) by (elim insertE emptyE) (simp_all add: event_calls_def SignedVotePayload_def id s(1) json_defs)
  finally show ?thesis using s verified_nonempty [OF s(2)] by (auto simp: acceptPeerVote_def)
qed

subsection \<open>Examples\<close>

definition demo_peer :: jobject where
  "demo_peer = [(''nodeId'', JStr ''peer-0001''), (''address'', JStr ''ws://b:1''), (''host'', JStr ''b''), (''port'', JNum 1)]"

definition announce_msg :: "jobject \<Rightarrow> jobject" where
  "announce_msg d = [(''type'', JStr ''node:announce''), (''data'', JObj d)]"

definition demo_env :: peer_env where
  "demo_env = \<lparr>peHead = None, peNowText = [], peMaxPeers = [], peConnected = (\<lambda>_. 0)\<rparr>"

definition demo_ident :: NodeIdentity where
  "demo_ident = \<lparr>idNodeID = ''node-0001'', idPubKey = [], idPrivKey = []\<rparr>"

definition with_peer :: "NodeIdentity \<Rightarrow> NodesManager" where
  "with_peer ident = (NewNodesManager ident 1 ''a'')\<lparr>nmPeers := [(''peer-0001'', new_peer demo_peer 7 5)]\<rparr>"

definition demo_network :: NodesManager where
  "demo_network = with_peer demo_ident"

lemma peer_announced:
  assumes "idNodeID ident \<noteq> ''peer-0001''"
  shows "foldl net_step (Some (NewNodesManager ident 1 ''a'')) [NetMessage demo_env 7 5 (announce_msg demo_peer)] = Some (with_peer ident)"
proof -
  have d: "getString demo_peer ''nodeId'' = ''peer-0001''" by (simp add: demo_peer_def json_defs)
  have m: "getString (announce_msg demo_peer) ''type'' = ''node:announce''" "getObj (announce_msg demo_peer) ''data'' = demo_peer"
    by (simp_all add: announce_msg_def json_defs)
  show ?thesis
    using assms
    by (simp add: net_step_def handle_peer_message_def m handleNodeAnnounce_def d NewNodesManager_def sliceable_def with_peer_def Let_def)
qed

lemma demo_announced: "foldl net_step (Some (NewNodesManager demo_ident 1 ''a'')) [NetMessage demo_env 7 5 (announce_msg demo_peer)] = Some demo_network"
  unfolding demo_network_def by (rule peer_announced) (simp add: demo_ident_def)

lemma demo_set_address: "SetNodeAddress (nmAddress nm) nm = nm"
  by (simp add: SetNodeAddress_def)

lemma demo_network_ok: "net_ok demo_network"
  using network.run_inv [of "Some (NewNodesManager demo_ident 1 ''a'')" "[NetMessage demo_env 7 5 (announce_msg demo_peer)]"]
    demo_announced NewNodesManager_ok [of "nmAddress (NewNodesManager demo_ident 1 ''a'')" demo_ident 1 "''a''"] by (simp add: demo_set_address)

theorem peer_table_invariant_witness: "distinct (map niNodeID (GetConnectedNodes demo_network)) \<and> peer_disconnected [] demo_network \<noteq> None"
  using peer_table_invariant [of "nmAddress (NewNodesManager demo_ident 1 ''a'')" demo_ident 1 "''a''"
      "[NetMessage demo_env 7 5 (announce_msg demo_peer)]" demo_network "\<lambda>_. None" "[]" "[]" "[]" 0 "[]"] demo_announced
  by (simp add: demo_set_address)

definition demo_event :: jobject where
  "demo_event = [(''type'', JStr ''blockchain:event''), (''eventType'', JStr ''dag:commit''), (''eventId'', JStr ''e1'')]"

theorem event_processed_once_witness:
  "fst (handleBlockchainEvent 10 demo_event demo_network) = [DagCommit []] \<and>
   fst (handleBlockchainEvent 20 demo_event (snd (handleBlockchainEvent 10 demo_event demo_network))) = []"
proof -
  have first: "handleBlockchainEvent 10 demo_event demo_network = ([DagCommit []], demo_network\<lparr>nmSeen := [(''e1'', 10)]\<rparr>)"
    by (simp add: handleBlockchainEvent_def demo_event_def demo_network_def with_peer_def NewNodesManager_def demo_ident_def event_type_def
        event_calls_def note_event_def ten_minutes_def json_defs)
  have i: "getString demo_event ''eventId'' = ''e1''" by (simp add: demo_event_def json_defs)
  have "handleBlockchainEvent 20 demo_event (demo_network\<lparr>nmSeen := [(''e1'', 10)]\<rparr>) = ([], demo_network\<lparr>nmSeen := [(''e1'', 10)]\<rparr>)"
    by (rule event_processed_once [OF demo_announced first, of "[]"]) (simp_all add: i five_minutes_def)
  then show ?thesis using first by simp
qed

theorem broadcast_reaches_peers_witness:
  "\<exists>out nm'. BroadcastBlockchainEvent (\<lambda>_. Some ''broken pipe'') ''x'' [] [] 9 demo_network = Some (out, nm') \<and>
     ''ws://b:1'' \<in> set (nmTimers nm')"
proof -
  obtain out nm' where b: "BroadcastBlockchainEvent (\<lambda>_. Some ''broken pipe'') ''x'' [] [] 9 demo_network = Some (out, nm')"
    using broadcast_no_panic [OF demo_network_ok] by (metis option.exhaust surj_pair)
  have d: "isConnDeadErr ''broken pipe''" by code_simp
  have p: "(''peer-0001'', new_peer demo_peer 7 5) \<in> set (nmPeers demo_network)" "pcConn (new_peer demo_peer 7 5) = Some 7"
    "pcAddress (new_peer demo_peer 7 5) = ''ws://b:1''"
    by (simp_all add: demo_network_def with_peer_def new_peer_def demo_peer_def json_defs)
  from broadcast_reaches_peers [OF demo_network_ok b p(1,2)] show ?thesis using b d p(3) by simp
qed

theorem vote_reaches_peer_witness:
  "\<exists>ident ev pub sig. fst (LoadOrCreateIdentity toy_ed True IdMissing) = Inr ident \<and>
     fst (handleBlockchainEvent 9 ev demo_network) = [L2Vote ''b'' (idNodeID ident) True pub sig] \<and>
     acceptPeerVote toy_ed [] ''b'' (idNodeID ident) True pub sig"
proof -
  obtain ident where i: "fst (LoadOrCreateIdentity toy_ed True IdMissing) = Inr ident" and l: "length (idNodeID ident) = 64"
    by (simp add: LoadOrCreateIdentity_def Let_def toy_ed_def)
  have ne: "idNodeID ident \<noteq> ''peer-0001''" "idNodeID ident \<noteq> ''node-0001''" using l by auto
  let ?nm = "with_peer ident"
  have id: "nmNodeID ?nm = idNodeID ident" "nmPeers ?nm = [(''peer-0001'', new_peer demo_peer 7 5)]" by (simp_all add: with_peer_def NewNodesManager_def)
  let ?out = "[(7, event_envelope ''l2_vote'' (SignedVotePayload toy_ed ?nm ''b'' True) (nmNodeID ?nm) 9 ?nm)]"
  obtain nm' where b: "BroadcastBlockchainEvent (\<lambda>_. None) ''l2_vote'' (SignedVotePayload toy_ed ?nm ''b'' True) (nmNodeID ?nm) 9 ?nm = Some (?out, nm')"
    using ne(1) by (simp add: BroadcastBlockchainEvent_def targets_def id new_peer_def Let_def)
  have "\<exists>sig. SignVote toy_ed ident ''b'' True = Some sig \<and>
      fst (handleBlockchainEvent 9 (snd (hd ?out)) demo_network) = [L2Vote ''b'' (idNodeID ident) True (idPubKey ident) sig] \<and>
      acceptPeerVote toy_ed [] ''b'' (idNodeID ident) True (idPubKey ident) sig"
    by (rule vote_reaches_peer [OF i _ _ _ peer_announced [OF ne(1)] _ b])
      (use ne in \<open>simp_all add: toy_ed_def id demo_network_def with_peer_def NewNodesManager_def demo_ident_def\<close>)
  then show ?thesis using i by blast
qed

text \<open>Remark: a peer that announces a node id of fewer than eight characters crashes the gateway: the id is sliced for a log
  line.\<close>

lemma short_node_id_panics:
  assumes "getString data ''nodeId'' = ''x''" "nmNodeID nm \<noteq> ''x''" "map_of (nmPeers nm) ''x'' = None"
  shows "handleNodeAnnounce head data conn now nm = None"
  using assms by (simp add: handleNodeAnnounce_def sliceable_def Let_def)

text \<open>Remark: the heartbeat and the end of a connection look the peer up by the address the connection was opened with, which
  for an incoming connection is the remote socket and not the announced address: a peer that only ever connected
  to this node is not refreshed by its pongs, so it stops counting as responsive after 30 seconds, and it stays
  in the table when its connection ends.\<close>

lemma inbound_peer_not_tracked:
  assumes "\<forall>(k, p) \<in> set (nmPeers nm). pcAddress p \<noteq> remote"
  shows "handle_pong remote now nm = nm" "nmPeers (the (peer_disconnected remote nm)) = nmPeers nm"
    "(k, p) \<in> set (nmPeers nm) \<Longrightarrow> pcLastPong p = Some t \<Longrightarrow> now > t + peerLivePongWindow \<Longrightarrow>
       \<not> peerResponsive (pcLastPong p) now"
proof -
  have "key_at nm remote = None" using assms by (auto simp: key_at_def find_None_iff)
  then show "handle_pong remote now nm = nm" "nmPeers (the (peer_disconnected remote nm)) = nmPeers nm"
    by (simp_all add: handle_pong_def peer_disconnected_def)
qed (simp add: peerResponsive_def)

text \<open>Remark: the limit on peers does not limit the dialling that gossip starts: the count is of established connections, so
  while it is below the limit a single gossip message starts a goroutine for each of its addresses.\<close>

lemma gossip_dials_all:
  assumes "\<forall>i. connected i < maxPeerConnections env"
  shows "gossip_dials (maxPeerConnections env) connected i addrs = addrs"
proof -
  have "\<not> connected i \<ge> maxPeerConnections env" for i using assms by (simp add: not_le)
  then show ?thesis by (induction addrs arbitrary: i) simp_all
qed

text \<open>Remark: an empty entry in the list of peers is retried forever.\<close>

lemma blank_peer_retried_forever: "ConnectToNodeWithRetry attempts [] nm = None"
  by (induction attempts arbitrary: nm) (simp_all add: tryConnect_def normalizePeerWebSocketDialURL_def TrimSpace_def)

end
