(* ===== verification/Chain_Sync.thy ===== *)
theory Chain_Sync
  imports Peer_Network Block_Production "HOL-Library.Sublist"
begin

text \<open>
  Chain synchronisation: the wire form of transactions and blocks (the \<open>json\<close> tags of \<open>blockchain.go\<close>,
  \<open>ExportBlocksForSync\<close> and \<open>transactionToMap\<close> of \<open>chain_sync.go\<close>, \<open>mapToTx\<close>), the blocks a peer sends
  (\<open>onBlockConfirmed\<close> of \<open>handlers.go\<close>), and the two callbacks of \<open>handlers_sync.go\<close>, \<open>onSyncRespond\<close> and \<open>onSyncApply\<close>.
\<close>

subsection \<open>Transactions on the wire\<close>

definition omitempty :: "bool \<Rightarrow> string \<times> json \<Rightarrow> jobject" where
  "omitempty zero kv = (if zero then [] else [kv])"

definition text_field :: "string \<Rightarrow> string \<Rightarrow> jobject" where
  "text_field k s = omitempty (s = []) (k, JStr s)"

definition num_field :: "string \<Rightarrow> int \<Rightarrow> jobject" where
  "num_field k n = omitempty (n = 0) (k, wire_num n)"

definition list_field :: "string \<Rightarrow> string list \<Rightarrow> jobject" where
  "list_field k xs = omitempty (xs = []) (k, JArr (map JStr xs))"

definition transactionToMap :: "Transaction \<Rightarrow> jobject" where
  "transactionToMap tx =
     [(''hash'', JStr (txHash tx)), (''from'', JStr (txFrom tx)), (''to'', JStr (txTo tx)), (''value'', JStr (txValue tx)),
      (''fee'', JStr (txFee tx)), (''nonce'', wire_num (txNonce tx)), (''timestamp'', wire_num (txTimestamp tx)),
      (''type'', JStr (txType tx)), (''assetType'', JStr (txAssetType tx))] @
     text_field ''contractAddress'' (txContractAddress tx) @ text_field ''sig_main'' (txSigMain tx) @
     text_field ''sig_derived'' (txSigDerived tx) @ text_field ''pub_main'' (txPubMain tx) @
     text_field ''pub_derived'' (txPubDerived tx) @ text_field ''asset'' (txAsset tx) @
     num_field ''amount'' (uint (txAmountUplp tx)) @ num_field ''fee_uplp'' (uint (txFeeUplp tx)) @
     list_field ''reads'' (txReads tx) @ list_field ''writes'' (txWrites tx) @ num_field ''blockNumber'' (txBlockNumber tx) @
     text_field ''request_id_hash'' (txRequestIDHash tx) @ text_field ''escrow_id'' (txEscrowID tx) @
     text_field ''purpose'' (txPurpose tx) @ num_field ''expires_at'' (txExpiresAt tx) @
     omitempty (txSettleOutcome tx = None) (''settle_outcome'', wire_num (uint (the (txSettleOutcome tx)))) @
     text_field ''settle_outcome_key'' (txSettleOutcomeKey tx) @ text_field ''settle_payee'' (txSettlePayee tx) @
     text_field ''settle_node'' (txSettleNode tx)"

text \<open>Decoding a field fails on a value of another type or out of range; a missing field and null leave the zero value.\<close>

definition str_ok :: "jobject \<Rightarrow> string \<Rightarrow> bool" where
  "str_ok m k \<longleftrightarrow> (case map_of m k of None \<Rightarrow> True | Some v \<Rightarrow> (case v of JStr _ \<Rightarrow> True | JNull \<Rightarrow> True | _ \<Rightarrow> False))"

definition num_ok :: "int \<Rightarrow> int \<Rightarrow> jobject \<Rightarrow> string \<Rightarrow> bool" where
  "num_ok lo hi m k \<longleftrightarrow>
     (case map_of m k of None \<Rightarrow> True | Some v \<Rightarrow> (case v of JNum n \<Rightarrow> lo \<le> n \<and> n < hi | JNull \<Rightarrow> True | _ \<Rightarrow> False))"

definition strs_ok :: "jobject \<Rightarrow> string \<Rightarrow> bool" where
  "strs_ok m k \<longleftrightarrow>
     (case map_of m k of
        None \<Rightarrow> True
      | Some v \<Rightarrow> (case v of JArr xs \<Rightarrow> list_all (\<lambda>x. x = JNull \<or> str_of x \<noteq> None) xs | JNull \<Rightarrow> True | _ \<Rightarrow> False))"

definition tx_fields_ok :: "jobject \<Rightarrow> bool" where
  "tx_fields_ok m \<longleftrightarrow>
     list_all (str_ok m)
       [''hash'', ''from'', ''to'', ''value'', ''fee'', ''type'', ''assetType'', ''contractAddress'', ''sig_main'', ''sig_derived'',
        ''pub_main'', ''pub_derived'', ''asset'', ''request_id_hash'', ''escrow_id'', ''purpose'', ''settle_outcome_key'',
        ''settle_payee'', ''settle_node''] \<and>
     list_all (num_ok (- (2 ^ 63)) (2 ^ 63) m) [''nonce'', ''timestamp'', ''blockNumber'', ''expires_at''] \<and>
     list_all (num_ok 0 (2 ^ 64) m) [''amount'', ''fee_uplp''] \<and> num_ok 0 256 m ''settle_outcome'' \<and>
     strs_ok m ''reads'' \<and> strs_ok m ''writes''"

definition list_of :: "jobject \<Rightarrow> string \<Rightarrow> string list" where
  "list_of m k = map (\<lambda>v. case str_of v of None \<Rightarrow> [] | Some s \<Rightarrow> s) (getArr m k)"

definition decoded_tx :: "jobject \<Rightarrow> Transaction" where
  "decoded_tx m =
     \<lparr>txHash = getString m ''hash'', txFrom = getString m ''from'', txTo = getString m ''to'', txValue = getString m ''value'',
      txFee = getString m ''fee'', txNonce = getNum m ''nonce'', txTimestamp = getNum m ''timestamp'', txType = getString m ''type'',
      txAssetType = getString m ''assetType'', txContractAddress = getString m ''contractAddress'', txSigMain = getString m ''sig_main'',
      txSigDerived = getString m ''sig_derived'', txPubMain = getString m ''pub_main'', txPubDerived = getString m ''pub_derived'',
      txAsset = getString m ''asset'', txAmountUplp = of_int (getNum m ''amount''), txFeeUplp = of_int (getNum m ''fee_uplp''),
      txReads = list_of m ''reads'', txWrites = list_of m ''writes'', txBlockNumber = getNum m ''blockNumber'',
      txRequestIDHash = getString m ''request_id_hash'', txEscrowID = getString m ''escrow_id'', txPurpose = getString m ''purpose'',
      txExpiresAt = getNum m ''expires_at'',
      txSettleOutcome = (case map_of m ''settle_outcome'' of Some (JNum n) \<Rightarrow> Some (of_int n) | _ \<Rightarrow> None),
      txSettleOutcomeKey = getString m ''settle_outcome_key'', txSettlePayee = getString m ''settle_payee'',
      txSettleNode = getString m ''settle_node''\<rparr>"

definition mapToTx_json :: "jobject \<Rightarrow> Transaction option" where
  "mapToTx_json m = (if tx_fields_ok m \<and> getString m ''hash'' \<noteq> [] then Some (decoded_tx m) else None)"

subsection \<open>Blocks on the wire\<close>

definition votes_field :: "string \<Rightarrow> (string \<times> bool) list \<Rightarrow> jobject" where
  "votes_field k votes = omitempty (votes = []) (k, JObj (map (\<lambda>(n, b). (n, JBool b)) votes))"

definition sync_entry :: "'c Blockchain \<Rightarrow> BlockRecord \<Rightarrow> jobject" where
  "sync_entry bc b =
     [(''blockNumber'', wire_num (bBlockNumber b)), (''timestamp'', wire_num (bTimestamp b)),
      (''txHashes'', JArr (map JStr (bTxHashes b))), (''txCount'', wire_num (bTxCount b)), (''totalFees'', wire_num (bTotalFees b)),
      (''transactions'', JArr (map (\<lambda>tx. JObj (transactionToMap tx)) (nonnil (map (map_of (transactions bc)) (bTxHashes b))))),
      (''blockHash'', JStr (bBlockHash b)), (''merkleRoot'', JStr (bMerkleRoot b)), (''stateRoot'', JStr (bStateRoot b)),
      (''previousHash'', JStr (bPreviousHash b)), (''producerNodeId'', JStr (bProducerNodeID b)),
      (''l1Yes'', wire_num (bL1Yes b)), (''l1No'', wire_num (bL1No b)), (''l2Yes'', wire_num (bL2Yes b)), (''l2No'', wire_num (bL2No b)),
      (''durationMs'', wire_num (bDurationMs b)), (''l1BeneficiaryNodeId'', JStr (bL1BeneficiaryNodeId b)),
      (''l2ConfirmerNodeId'', JStr (bL2ConfirmerNodeId b))] @
     votes_field ''l1Votes'' (bL1Votes b) @ votes_field ''l2Votes'' (bL2Votes b)"

definition ExportBlocksForSync :: "int \<Rightarrow> 'c Blockchain \<Rightarrow> jobject list" where
  "ExportBlocksForSync fromBlock bc = map (sync_entry bc) (filter (\<lambda>b. \<not> bBlockNumber b < fromBlock) (blockHistory bc))"

definition peer_block :: "jobject \<Rightarrow> BlockRecord" where
  "peer_block data =
     (let hashes = strings_of (getArr data ''txHashes'')
      in \<lparr>bBlockNumber = getNum data ''blockNumber'', bTimestamp = getNum data ''timestamp'', bTxHashes = hashes,
          bTxCount = int (length hashes), bTotalFees = getNum data ''totalFees'', bBlockHash = getString data ''blockHash'',
          bMerkleRoot = getString data ''merkleRoot'', bStateRoot = getString data ''stateRoot'',
          bPreviousHash = getString data ''previousHash'', bProducerNodeID = getString data ''producerNodeId'',
          bL1Yes = getNum data ''l1Yes'', bL1No = getNum data ''l1No'', bL2Yes = getNum data ''l2Yes'', bL2No = getNum data ''l2No'',
          bDurationMs = getNum data ''durationMs'', bL1BeneficiaryNodeId = getString data ''l1BeneficiaryNodeId'',
          bL2ConfirmerNodeId = getString data ''l2ConfirmerNodeId'', bL1Votes = bools_of (getObj data ''l1Votes''),
          bL2Votes = bools_of (getObj data ''l2Votes'')\<rparr>)"

definition peer_txs :: "jobject \<Rightarrow> Transaction list" where
  "peer_txs data = nonnil (map mapToTx_json (objects_of (getArr data ''transactions'')))"

text \<open>What a run of the handler meets: Core, the file system, RocksDB, and what other goroutines do meanwhile.\<close>

record ('c, 'r) sync_world =
  swFx :: "('c, 'r) final_api"
  swEnv :: env
  swCore :: "'c core_api"
  swIo :: "'c io"
  swMid :: "'c Blockchain \<Rightarrow> 'c Blockchain"
  swRm :: "string \<Rightarrow> bool"
  swPoint :: ConfirmFailPoint

definition onBlockConfirmed ::
  "('c, 'r) sync_world \<Rightarrow> jobject \<Rightarrow> ('c, 'r) node \<Rightarrow> ((confirm_error + final_error) + bool) \<times> ('c, 'r) node" where
  "onBlockConfirmed w data nd =
     ApplyPeerConfirmedBlock (swFx w) (swEnv w) (swCore w) (swIo w) (swMid w) (swRm w) (swPoint w) (peer_block data)
       (map Some (peer_txs data)) nd"

subsection \<open>The two callbacks\<close>

definition onSyncRespond :: "string \<Rightarrow> rocks \<Rightarrow> 'c Blockchain \<Rightarrow> int \<Rightarrow> jobject" where
  "onSyncRespond nodeID rx bc fromBlock =
     [(''nodeId'', JStr nodeID), (''fromBlockNumber'', wire_num fromBlock),
      (''blocks'', JArr (map JObj (ExportBlocksForSync fromBlock bc)))] @
     (case HeadBlock rx bc of
        Some h \<Rightarrow> [(''headBlockNumber'', wire_num (bBlockNumber h)), (''headBlockHash'', JStr (bBlockHash h)),
                   (''stateRoot'', JStr (bStateRoot h))]
      | None \<Rightarrow> [(''headBlockNumber'', wire_num (- 1))])"

text \<open>The entries in turn: those above the head are applied, and the loop goes on after a failure. The results are those of the
  applied entries. \<open>w i\<close> is what entry \<open>i\<close> meets.\<close>

fun sync_loop ::
  "(nat \<Rightarrow> ('c, 'r) sync_world) \<Rightarrow> nat \<Rightarrow> jobject list \<Rightarrow> ('c, 'r) node
   \<Rightarrow> ((confirm_error + final_error) + bool) list \<times> ('c, 'r) node" where
  "sync_loop w i [] nd = ([], nd)"
| "sync_loop w i (e # es) nd =
     (if getNum e ''blockNumber'' \<le> HeadBlockNumber (fxReads (swFx (w i)) (ndRocks nd)) (ndChain nd) then sync_loop w (Suc i) es nd
      else
        let (r, nd1) = onBlockConfirmed (w i) e nd; (rs, nd2) = sync_loop w (Suc i) es nd1
        in (r # rs, nd2))"

text \<open>\<open>sort.Slice\<close> leaves the order of entries with one number open; the model keeps it.\<close>

definition onSyncApply ::
  "(nat \<Rightarrow> ('c, 'r) sync_world) \<Rightarrow> jobject \<Rightarrow> ('c, 'r) node \<Rightarrow> ((confirm_error + final_error) + bool) list \<times> ('c, 'r) node" where
  "onSyncApply w data nd =
     sync_loop w 0 (sort_key (\<lambda>e. getNum e ''blockNumber'') (objects_of (getArr data ''blocks''))) nd"

subsection \<open>The wire forms are read back\<close>

lemma map_of_omitempty [simp]:
  "(f ++ map_of (omitempty z kv)) k = (if \<not> z \<and> fst kv = k then Some (snd kv) else f k)"
  "map_of (omitempty z kv) k = (if \<not> z \<and> fst kv = k then Some (snd kv) else None)"
  by (cases kv; simp add: omitempty_def map_add_def)+

lemmas field_defs = text_field_def num_field_def list_field_def votes_field_def

definition wire_safe :: "int \<Rightarrow> bool" where
  "wire_safe n \<longleftrightarrow> \<bar>n\<bar> < 2 ^ 53"

lemma wire_num_safe: "wire_safe n \<Longrightarrow> wire_num n = JNum n"
  by (simp add: wire_safe_def wire_num_def f64_exact)

definition tx_wire_ok :: "Transaction \<Rightarrow> bool" where
  "tx_wire_ok tx \<longleftrightarrow>
     txHash tx \<noteq> [] \<and> wire_safe (txNonce tx) \<and> wire_safe (txTimestamp tx) \<and> wire_safe (uint (txAmountUplp tx)) \<and>
     wire_safe (uint (txFeeUplp tx)) \<and> wire_safe (txBlockNumber tx) \<and> wire_safe (txExpiresAt tx)"

definition block_wire_ok :: "BlockRecord \<Rightarrow> bool" where
  "block_wire_ok b \<longleftrightarrow>
     list_all wire_safe [bBlockNumber b, bTimestamp b, bTotalFees b, bL1Yes b, bL1No b, bL2Yes b, bL2No b, bDurationMs b] \<and>
     bTxCount b = int (length (bTxHashes b))"

lemma settle_byte: "wire_num (uint (v :: 8 word)) = JNum (uint v)"
proof -
  have "uint v < 2 ^ 8" using uint_lt2p [of v] by simp
  then show ?thesis by (intro wire_num_safe) (simp add: wire_safe_def)
qed

lemma peer_block_entry:
  assumes "block_wire_ok b"
  shows "peer_block (sync_entry bc b) = b"
  using assms
  by (intro BlockRecord.equality)
    (simp_all add: peer_block_def sync_entry_def json_defs field_defs block_wire_ok_def wire_num_safe Let_def)

lemma list_of_JStr [simp]: "map (\<lambda>v. case str_of v of None \<Rightarrow> [] | Some s \<Rightarrow> s) (map JStr xs) = xs"
  by (simp add: str_of_def comp_def)

lemma tx_map_texts:
  "map_of (transactionToMap tx) ''hash'' = Some (JStr (txHash tx))"
  "map_of (transactionToMap tx) ''from'' = Some (JStr (txFrom tx))"
  "map_of (transactionToMap tx) ''to'' = Some (JStr (txTo tx))"
  "map_of (transactionToMap tx) ''value'' = Some (JStr (txValue tx))"
  "map_of (transactionToMap tx) ''fee'' = Some (JStr (txFee tx))"
  "map_of (transactionToMap tx) ''type'' = Some (JStr (txType tx))"
  "map_of (transactionToMap tx) ''assetType'' = Some (JStr (txAssetType tx))"
  "map_of (transactionToMap tx) ''contractAddress'' = (if txContractAddress tx = [] then None else Some (JStr (txContractAddress tx)))"
  "map_of (transactionToMap tx) ''sig_main'' = (if txSigMain tx = [] then None else Some (JStr (txSigMain tx)))"
  "map_of (transactionToMap tx) ''sig_derived'' = (if txSigDerived tx = [] then None else Some (JStr (txSigDerived tx)))"
  "map_of (transactionToMap tx) ''pub_main'' = (if txPubMain tx = [] then None else Some (JStr (txPubMain tx)))"
  "map_of (transactionToMap tx) ''pub_derived'' = (if txPubDerived tx = [] then None else Some (JStr (txPubDerived tx)))"
  "map_of (transactionToMap tx) ''asset'' = (if txAsset tx = [] then None else Some (JStr (txAsset tx)))"
  "map_of (transactionToMap tx) ''request_id_hash'' = (if txRequestIDHash tx = [] then None else Some (JStr (txRequestIDHash tx)))"
  "map_of (transactionToMap tx) ''escrow_id'' = (if txEscrowID tx = [] then None else Some (JStr (txEscrowID tx)))"
  "map_of (transactionToMap tx) ''purpose'' = (if txPurpose tx = [] then None else Some (JStr (txPurpose tx)))"
  "map_of (transactionToMap tx) ''settle_outcome_key'' = (if txSettleOutcomeKey tx = [] then None else Some (JStr (txSettleOutcomeKey tx)))"
  "map_of (transactionToMap tx) ''settle_payee'' = (if txSettlePayee tx = [] then None else Some (JStr (txSettlePayee tx)))"
  "map_of (transactionToMap tx) ''settle_node'' = (if txSettleNode tx = [] then None else Some (JStr (txSettleNode tx)))"
  by (simp_all add: transactionToMap_def field_defs)

lemma tx_map_nums:
  "map_of (transactionToMap tx) ''nonce'' = Some (wire_num (txNonce tx))"
  "map_of (transactionToMap tx) ''timestamp'' = Some (wire_num (txTimestamp tx))"
  "map_of (transactionToMap tx) ''blockNumber'' = (if txBlockNumber tx = 0 then None else Some (wire_num (txBlockNumber tx)))"
  "map_of (transactionToMap tx) ''expires_at'' = (if txExpiresAt tx = 0 then None else Some (wire_num (txExpiresAt tx)))"
  "map_of (transactionToMap tx) ''amount'' = (if uint (txAmountUplp tx) = 0 then None else Some (wire_num (uint (txAmountUplp tx))))"
  "map_of (transactionToMap tx) ''fee_uplp'' = (if uint (txFeeUplp tx) = 0 then None else Some (wire_num (uint (txFeeUplp tx))))"
  "map_of (transactionToMap tx) ''settle_outcome'' = map_option (\<lambda>v. JNum (uint v)) (txSettleOutcome tx)"
  "map_of (transactionToMap tx) ''reads'' = (if txReads tx = [] then None else Some (JArr (map JStr (txReads tx))))"
  "map_of (transactionToMap tx) ''writes'' = (if txWrites tx = [] then None else Some (JArr (map JStr (txWrites tx))))"
  by (auto simp: transactionToMap_def field_defs settle_byte)

lemmas tx_map_fields = tx_map_texts tx_map_nums

lemma decoded_tx_map:
  assumes "tx_wire_ok tx"
  shows "decoded_tx (transactionToMap tx) = tx"
  using assms
  by (intro Transaction.equality)
    (simp_all add: decoded_tx_def json_defs tx_map_fields tx_wire_ok_def wire_num_safe list_of_def uint_0_iff del: map_map split: option.splits)

lemma list_all_JStr: "list_all (\<lambda>x. x = JNull \<or> str_of x \<noteq> None) (map JStr xs)"
  by (simp add: list_all_iff str_of_def)

lemma str_okI: "map_of m k \<in> {None, Some (JStr t)} \<Longrightarrow> str_ok m k"
  by (auto simp: str_ok_def)

lemma num_okI: "map_of m k \<in> {None, Some (JNum n)} \<Longrightarrow> lo \<le> n \<Longrightarrow> n < hi \<Longrightarrow> num_ok lo hi m k"
  by (auto simp: num_ok_def)

lemma strs_okI: "map_of m k \<in> {None, Some (JArr (map JStr xs))} \<Longrightarrow> strs_ok m k"
  using list_all_JStr [of xs] by (auto simp: strs_ok_def)

lemma tx_fields_ok_map:
  assumes "tx_wire_ok tx"
  shows "tx_fields_ok (transactionToMap tx)"
proof -
  let ?m = "transactionToMap tx"
  have i: "num_ok (- (2 ^ 63)) (2 ^ 63) ?m k" if "map_of ?m k \<in> {None, Some (wire_num n)}" "wire_safe n" for k n
    by (rule num_okI [of _ _ n]) (use that in \<open>auto simp: wire_num_safe wire_safe_def\<close>)
  have u: "num_ok 0 (2 ^ 64) ?m k" if "map_of ?m k \<in> {None, Some (wire_num (uint w))}" "wire_safe (uint w)" for k and w :: u64
    by (rule num_okI [of _ _ "uint w"]) (use that uint_lt2p [of w] in \<open>auto simp: wire_num_safe\<close>)
  have o: "num_ok 0 256 ?m ''settle_outcome''"
    using uint_lt2p [of "the (txSettleOutcome tx)"] by (intro num_okI [of _ _ "uint (the (txSettleOutcome tx))"]) (auto simp: tx_map_fields)
  have ints: "num_ok (- (2 ^ 63)) (2 ^ 63) ?m ''nonce''" "num_ok (- (2 ^ 63)) (2 ^ 63) ?m ''timestamp''"
    "num_ok (- (2 ^ 63)) (2 ^ 63) ?m ''blockNumber''" "num_ok (- (2 ^ 63)) (2 ^ 63) ?m ''expires_at''"
    using assms i [of "''nonce''" "txNonce tx"] i [of "''timestamp''" "txTimestamp tx"] i [of "''blockNumber''" "txBlockNumber tx"]
      i [of "''expires_at''" "txExpiresAt tx"] by (simp_all add: tx_map_fields tx_wire_ok_def)
  have words: "num_ok 0 (2 ^ 64) ?m ''amount''" "num_ok 0 (2 ^ 64) ?m ''fee_uplp''"
    using assms u [of "''amount''" "txAmountUplp tx"] u [of "''fee_uplp''" "txFeeUplp tx"] by (simp_all add: tx_map_fields tx_wire_ok_def)
  have "strs_ok ?m ''reads''" "strs_ok ?m ''writes''"
    by (rule strs_okI [of _ _ "txReads tx"], simp add: tx_map_fields) (rule strs_okI [of _ _ "txWrites tx"], simp add: tx_map_fields)
  then show ?thesis unfolding tx_fields_ok_def using o ints words by (simp add: str_ok_def tx_map_fields)
qed

lemma mapToTx_json_map: "tx_wire_ok tx \<Longrightarrow> mapToTx_json (transactionToMap tx) = Some tx"
  by (simp add: mapToTx_json_def tx_fields_ok_map decoded_tx_map) (simp add: tx_wire_ok_def json_defs tx_map_fields)

lemma nonnil_decoded: "\<forall>tx \<in> set txs. tx_wire_ok tx \<Longrightarrow> nonnil (map mapToTx_json (map transactionToMap txs)) = txs"
  by (induction txs) (simp_all add: mapToTx_json_map)

text \<open>Remark: a block that is exported for synchronisation is read back as it was, with its indexed transactions in order, by the
  node that receives it, as long as its numbers are below 2^53, where a JSON number is exact.\<close>

theorem block_wire_roundtrip:
  assumes "block_wire_ok b" "\<forall>h \<in> set (bTxHashes b). \<forall>tx. map_of (transactions bc) h = Some tx \<longrightarrow> tx_wire_ok tx"
  shows "peer_block (sync_entry bc b) = b \<and> peer_txs (sync_entry bc b) = nonnil (map (map_of (transactions bc)) (bTxHashes b))"
proof -
  let ?txs = "nonnil (map (map_of (transactions bc)) (bTxHashes b))"
  have "getArr (sync_entry bc b) ''transactions'' = map JObj (map transactionToMap ?txs)"
    by (simp add: sync_entry_def json_defs field_defs)
  moreover have "\<forall>tx \<in> set ?txs. tx_wire_ok tx" using assms(2) by (auto simp: set_nonnil)
  ultimately have "peer_txs (sync_entry bc b) = ?txs" by (simp only: peer_txs_def objects_of_map nonnil_decoded)
  then show ?thesis using peer_block_entry [OF assms(1)] by simp
qed

subsection \<open>What a peer block does to the history\<close>

lemma undo_history:
  assumes "blockHistory bc = bs @ [b]" "bBlockNumber b = bBlockNumber block"
  shows "blockHistory (snd (rollbackConfirmLocked io block moved backup q bc)) = bs"
    "blockHistory (snd (UndoLastConfirmedBlock io block moved backup bc)) = bs"
proof -
  have u: "blockHistory (undoExplorerConfirmLocked block moved r c) = bs" if "blockHistory c = bs @ [b]" for c :: "'a Blockchain" and r
    using that assms(2) by (simp add: undoExplorerConfirmLocked_def undo_tip_def)
  have rs: "blockHistory (snd (restore_state io bc)) = bs @ [b]" using assms(1) by simp
  have roll: "blockHistory (snd (rollbackConfirmLocked io block moved backup r bc)) = bs" for r
    using u [OF rs] u [OF assms(1)] by (simp add: rollbackConfirmLocked_def case_prod_beta Let_def remove_backup_def)
  then show "blockHistory (snd (rollbackConfirmLocked io block moved backup q bc)) = bs" .
  show "blockHistory (snd (UndoLastConfirmedBlock io block moved backup bc)) = bs"
    using roll [of ToPending]
    by (cases "rollbackConfirmLocked io block moved backup ToPending bc") (auto simp: UndoLastConfirmedBlock_def Let_def case_prod_beta split: option.splits)
qed

lemma AddConfirmedBlock_history:
  assumes "AddConfirmedBlock env core io mid bc block txs = (r, bc')" "\<And>c. blockHistory (mid c) = blockHistory c"
  shows "blockHistory bc' = blockHistory bc @ (case r of Inr (Some _) \<Rightarrow> [block] | _ \<Rightarrow> [])"
proof (cases "peer_block_check bc block")
  case (Inr fresh)
  show ?thesis
  proof (cases "fresh \<and> (\<exists>backup bc0. applyConfirmedTransactions env core io bc txs = (Inr backup, bc0))")
    case True
    then obtain backup bc0 where a: "applyConfirmedTransactions env core io bc txs = (Inr backup, bc0)" by blast
    let ?bc2 = "peer_state block (nonnil txs) (mid bc0)"
    have h: "blockHistory ?bc2 = blockHistory bc @ [block]"
      using explorer_view_fields(1) [OF apply_explorer_view [OF a]] assms(2) by (simp add: peer_state_simps)
    then have p: "blockHistory (snd (persistChain (ioPersist io) ?bc2)) = blockHistory bc @ [block]" by simp
    show ?thesis
      using assms(1) Inr True a undo_history(1) [OF h refl] undo_history(1) [OF p refl] p
      by (cases "persistChain (ioPersist io) ?bc2")
        (auto simp: AddConfirmedBlock_def Let_def split: if_splits option.splits)
  next
    case False
    then show ?thesis
      using assms(1) Inr explorer_view_fields(1) [OF apply_explorer_view, of env core io bc txs]
      by (cases fresh; cases "applyConfirmedTransactions env core io bc txs") (auto simp: AddConfirmedBlock_def split: sum.splits)
  qed
qed (use assms(1) in \<open>auto simp: AddConfirmedBlock_def\<close>)

lemma durable_history:
  assumes "DurableCommitAfterExplorer fx io rm FailPointNone block moved backup nd = ((err, out), nd')" "blockHistory (ndChain nd) = bs @ [block]"
  shows "blockHistory (ndChain nd') = (if err = None then bs @ [block] else bs)"
proof -
  obtain e nd1 where c: "commitBlockToRocks fx block (map Some moved) (bStateRoot block) nd = (e, nd1)" by fastforce
  have h: "blockHistory (ndChain nd1) = bs @ [block]" using commitBlockToRocks_chain [OF c] assms(2) by simp
  show ?thesis
    using assms(1) c h undo_history(2) [OF h refl]
    by (cases e) (auto simp: DurableCommitAfterExplorer_def Let_def undo_block_def)
qed

lemma ApplyPeer_history:
  assumes "ApplyPeerConfirmedBlock fx env core io mid rm FailPointNone block txs nd = (r, nd')" "\<And>c. blockHistory (mid c) = blockHistory c"
  shows "blockHistory (ndChain nd') = blockHistory (ndChain nd) @ (if r = Inr True then [block] else [])"
proof -
  obtain q bc1 where a: "AddConfirmedBlock env core io mid (ndChain nd) block txs = (q, bc1)" by fastforce
  note h = AddConfirmedBlock_history [OF a assms(2)]
  show ?thesis
  proof (cases "\<exists>backup. q = Inr (Some backup)")
    case True
    then obtain backup where q: "q = Inr (Some backup)" by blast
    let ?nd = "nd\<lparr>ndChain := bc1\<rparr>" and ?moved = "map (stamp (bBlockNumber block)) (nonnil txs)"
    obtain err out nd2 where d: "DurableCommitAfterExplorer fx io rm FailPointNone block ?moved backup ?nd = ((err, out), nd2)"
      by (metis prod.exhaust)
    have "blockHistory (ndChain ?nd) = blockHistory (ndChain nd) @ [block]" using h q by simp
    from durable_history [OF d this] show ?thesis
      using assms(1) a q d by (auto simp: ApplyPeerConfirmedBlock_def split: option.splits)
  next
    case False
    then show ?thesis using assms(1) a h by (auto simp: ApplyPeerConfirmedBlock_def split: sum.splits option.splits)
  qed
qed

subsection \<open>A run of the synchronisation\<close>

text \<open>What the worlds of a run share: no failure injected for tests, no RocksDB, and nobody else touches the history.\<close>

definition plain_world :: "('c, 'r) sync_world \<Rightarrow> bool" where
  "plain_world w \<longleftrightarrow>
     swPoint w = FailPointNone \<and> (\<forall>c. blockHistory (swMid w c) = blockHistory c) \<and>
     (\<forall>r. headBlockNumberFromRocks (fxReads (swFx w) r) = None)"

lemma sync_loop_history:
  assumes "\<forall>i. plain_world (w i)" "map (\<lambda>e. getNum e ''blockNumber'') es = map bBlockNumber bs" "map peer_block es = bs"
    and "sorted_wrt (<) (map bBlockNumber bs)"
    and "\<forall>b \<in> set bs. bBlockNumber b > (if blockHistory (ndChain nd) = [] then -1 else bBlockNumber (last (blockHistory (ndChain nd))))"
  shows "\<exists>ys. subseq ys bs \<and> blockHistory (ndChain (snd (sync_loop w i es nd))) = blockHistory (ndChain nd) @ ys \<and>
     length (fst (sync_loop w i es nd)) = length bs \<and> (list_all (\<lambda>r. r = Inr True) (fst (sync_loop w i es nd)) \<longrightarrow> ys = bs)"
  using assms(2-)
proof (induction es arbitrary: bs nd i)
  case (Cons e es)
  obtain b bs' where bs: "bs = b # bs'" using Cons.prems(1) by (cases bs) auto
  have w: "plain_world (w i)" using assms(1) by simp
  let ?head = "if blockHistory (ndChain nd) = [] then -1 else bBlockNumber (last (blockHistory (ndChain nd)))"
  have "HeadBlockNumber (fxReads (swFx (w i)) (ndRocks nd)) (ndChain nd) = ?head"
    using w by (simp add: HeadBlockNumber_def plain_world_def Let_def)
  moreover have "getNum e ''blockNumber'' > ?head" using Cons.prems(1,4) bs by simp
  ultimately have ap: "\<not> getNum e ''blockNumber'' \<le> HeadBlockNumber (fxReads (swFx (w i)) (ndRocks nd)) (ndChain nd)" by simp
  obtain r nd1 where o: "onBlockConfirmed (w i) e nd = (r, nd1)" by fastforce
  have h: "blockHistory (ndChain nd1) = blockHistory (ndChain nd) @ (if r = Inr True then [b] else [])"
    using ApplyPeer_history o w Cons.prems(2) bs unfolding onBlockConfirmed_def plain_world_def by fastforce
  have lt: "\<forall>x \<in> set bs'. bBlockNumber b < bBlockNumber x" using Cons.prems(3) bs by auto
  have "\<forall>x \<in> set bs'. bBlockNumber x > (if blockHistory (ndChain nd1) = [] then -1 else bBlockNumber (last (blockHistory (ndChain nd1))))"
    using lt Cons.prems(4) bs by (auto simp: h)
  with Cons.IH [of bs' nd1 "Suc i"] Cons.prems(1-3) bs obtain ys where y: "subseq ys bs'"
    "blockHistory (ndChain (snd (sync_loop w (Suc i) es nd1))) = blockHistory (ndChain nd1) @ ys"
    "length (fst (sync_loop w (Suc i) es nd1)) = length bs'"
    "list_all (\<lambda>r. r = Inr True) (fst (sync_loop w (Suc i) es nd1)) \<longrightarrow> ys = bs'" by auto
  have s: "sync_loop w i (e # es) nd = (r # fst (sync_loop w (Suc i) es nd1), snd (sync_loop w (Suc i) es nd1))"
    using ap o by (simp add: case_prod_beta Let_def)
  show ?case
  proof (intro exI [of _ "(if r = Inr True then [b] else []) @ ys"] conjI)
    show "subseq ((if r = Inr True then [b] else []) @ ys) bs" using y(1) bs by auto
  qed (use y h bs in \<open>auto simp: s simp del: sync_loop.simps\<close>)
qed simp

lemma entry_number: "wire_safe (bBlockNumber b) \<Longrightarrow> getNum (sync_entry bc b) ''blockNumber'' = bBlockNumber b"
  by (simp add: sync_entry_def json_defs wire_num_safe)

lemma sorted_numbers: "map bBlockNumber bs = map int [m..<n] \<Longrightarrow> sorted_wrt (<) (map bBlockNumber bs)"
  by (simp add: sorted_wrt_map)

lemma numbers_range:
  assumes "map bBlockNumber bs = map int [m..<n]" "b \<in> set bs"
  shows "int m \<le> bBlockNumber b" "bBlockNumber b < int n"
proof -
  have "bBlockNumber b \<in> set (map int [m..<n])" using assms by (metis image_eqI image_set)
  then show "int m \<le> bBlockNumber b" "bBlockNumber b < int n" by auto
qed

text \<open>C23: synchronisation copies the chain. Take a peer whose blocks are numbered from 0 without a gap, below
  \<open>2 ^ 53\<close> (block numbers travel as \<open>float64\<close>), with fields that survive the JSON encoding (\<open>block_wire_ok\<close>), and a node
  without RocksDB whose history is a prefix of the peer's and to which no other goroutine adds a block
  while the answer is applied, no crash being injected (\<open>plain_world\<close>). The node asks for the blocks after its head, the peer exports them, and
  applying the answer puts only genuine blocks of the peer behind the history, in the peer's order, and changes
  nothing before them; if every block is accepted, the two histories are equal. This holds whatever Core, the
  disk and the mempool do. (Blocks that are refused are skipped, so the copy can have gaps.)\<close>

theorem sync_copies_chain:
  assumes "blockHistory bc = blockHistory (ndChain nd) @ missing" "\<forall>b \<in> set (blockHistory bc). block_wire_ok b"
    and "map bBlockNumber (blockHistory bc) = map int [0..<length (blockHistory bc)]" "int (length (blockHistory bc)) < 2 ^ 53"
    and "\<forall>i. plain_world (w i)"
    and "request = [(''fromBlockNumber'', wire_num (sync_from (Some (HeadBlockNumber (fxReads (swFx (w 0)) (ndRocks nd)) (ndChain nd)))))]"
    and "onSyncApply w (handleSyncRequest (Some (onSyncRespond peer rx bc)) now request pm) nd = (results, nd')"
  shows "\<exists>ys. subseq ys missing \<and> blockHistory (ndChain nd') = blockHistory (ndChain nd) @ ys \<and> length results = length missing \<and>
    (list_all (\<lambda>r. r = Inr True) results \<longrightarrow> blockHistory (ndChain nd') = blockHistory bc)"
proof -
  let ?H = "blockHistory (ndChain nd)" let ?k = "length ?H" let ?n = "length (blockHistory bc)"
  have nums: "map bBlockNumber ?H = map int [0..<?k]" "map bBlockNumber missing = map int [?k..<?n]"
  proof -
    have "map bBlockNumber ?H @ map bBlockNumber missing = map int [0..<?k] @ map int [?k..<?n]"
      using assms(1,3) by (metis length_append le_add1 map_append upt_add_eq_append zero_le add_0)
    then show "map bBlockNumber ?H = map int [0..<?k]" "map bBlockNumber missing = map int [?k..<?n]" by (auto simp: append_eq_append_conv)
  qed
  have last: "(if ?H = [] then -1 else bBlockNumber (last ?H)) = int ?k - 1"
  proof (cases "?H = []")
    case False
    then have "bBlockNumber (last ?H) = last (map int [0..<?k])" using nums(1) by (metis last_map)
    moreover have "1 \<le> ?k" using False by (simp add: Suc_le_eq)
    ultimately show ?thesis using False by (simp add: last_map of_nat_diff)
  qed simp
  have "HeadBlockNumber (fxReads (swFx (w 0)) (ndRocks nd)) (ndChain nd) = int ?k - 1"
    using assms(5) last by (simp add: HeadBlockNumber_def plain_world_def Let_def)
  moreover have kn: "int ?k \<le> int ?n" using assms(1) by simp
  ultimately have req: "getNum request ''fromBlockNumber'' = int ?k"
    using assms(4,6) by (simp add: json_defs sync_from_def wire_num_safe wire_safe_def i64_id in_i64_def)
  have new: "\<forall>b \<in> set missing. int ?k \<le> bBlockNumber b" "\<forall>b \<in> set ?H. bBlockNumber b < int ?k"
    using numbers_range [OF nums(1)] numbers_range [OF nums(2)] by blast+
  have "filter (\<lambda>b. \<not> bBlockNumber b < int ?k) (blockHistory bc) = missing" using new assms(1) by (simp add: filter_id_conv filter_empty_conv not_less not_le)
  then have entries: "objects_of (getArr (handleSyncRequest (Some (onSyncRespond peer rx bc)) now request pm) ''blocks'') = map (sync_entry bc) missing"
  proof -
    assume f: "filter (\<lambda>b. \<not> bBlockNumber b < int ?k) (blockHistory bc) = missing"
    have "getArr (onSyncRespond peer rx bc (int ?k)) ''blocks'' = map JObj (ExportBlocksForSync (int ?k) bc)"
      by (simp add: onSyncRespond_def getArr_def del: map_map)
    then show ?thesis by (simp add: handleSyncRequest_def req Let_def ExportBlocksForSync_def f del: map_map)
  qed
  have safe: "\<forall>b \<in> set missing. block_wire_ok b" using assms(1,2) by simp
  then have en: "map (\<lambda>e. getNum e ''blockNumber'') (map (sync_entry bc) missing) = map bBlockNumber missing"
    by (auto simp: entry_number block_wire_ok_def)
  have so: "sorted_wrt (<) (map bBlockNumber missing)" using nums(2) by (rule sorted_numbers)
  then have "sort_key (\<lambda>e. getNum e ''blockNumber'') (map (sync_entry bc) missing) = map (sync_entry bc) missing"
    using en by (intro sort_key_id_if_sorted) (metis strict_sorted_imp_sorted)
  then have run: "sync_loop w 0 (map (sync_entry bc) missing) nd = (results, nd')" using assms(7) entries by (simp add: onSyncApply_def)
  have "map peer_block (map (sync_entry bc) missing) = missing" using safe by (simp add: peer_block_entry map_idI)
  moreover have "\<forall>b \<in> set missing. bBlockNumber b > (if ?H = [] then -1 else bBlockNumber (last ?H))" using new(1) unfolding last by fastforce
  ultimately obtain ys where "subseq ys missing" "blockHistory (ndChain nd') = ?H @ ys" "length results = length missing"
    "list_all (\<lambda>r. r = Inr True) results \<longrightarrow> ys = missing"
    using sync_loop_history [OF assms(5) en _ so, of nd 0] run by auto
  then show ?thesis using assms(1) by auto
qed

subsection \<open>Example\<close>

definition demo_world :: "(nat, unit) sync_world" where
  "demo_world = \<lparr>swFx = no_header_api\<lparr>fxRocks := False, fxReads := (\<lambda>r. demo_rocks\<lparr>rxEnabled := False, rxProbe := None\<rparr>)\<rparr>,
     swEnv = plain_env, swCore = counting_core, swIo = good_io, swMid = id, swRm = (\<lambda>_. True), swPoint = FailPointNone\<rparr>"

definition behind :: "(nat, unit) node" where
  "behind = \<lparr>ndChain = (NewBlockchain 0)\<lparr>explorerOnlyConfirm := True\<rparr>, ndRocks = (), ndCommitErrors = 0\<rparr>"

definition ahead :: "nat Blockchain" where
  "ahead = (NewBlockchain 0)\<lparr>blockHistory := [new_block 0, new_block 1]\<rparr>"

lemma demo_plain: "plain_world demo_world"
  by (simp add: plain_world_def demo_world_def headBlockNumberFromRocks_def)

lemma demo_block_safe: "wire_safe n \<Longrightarrow> block_wire_ok (new_block n)"
  by (simp add: block_wire_ok_def new_block_def block0_def wire_safe_def)

definition one_block :: BlockRecord where
  "one_block = (new_block 0)\<lparr>bTxHashes := [''h1''], bTxCount := 1\<rparr>"

theorem block_wire_roundtrip_witness:
  "peer_block (sync_entry (ahead\<lparr>transactions := [(''h1'', signed_tx ''h1'' 0)]\<rparr>) one_block) = one_block \<and>
   peer_txs (sync_entry (ahead\<lparr>transactions := [(''h1'', signed_tx ''h1'' 0)]\<rparr>) one_block) = [signed_tx ''h1'' 0]"
proof -
  let ?bc = "ahead\<lparr>transactions := [(''h1'', signed_tx ''h1'' 0)]\<rparr>"
  have "block_wire_ok one_block" by (simp add: block_wire_ok_def one_block_def new_block_def block0_def wire_safe_def)
  moreover have "\<forall>h \<in> set (bTxHashes one_block). \<forall>tx. map_of (transactions ?bc) h = Some tx \<longrightarrow> tx_wire_ok tx"
    by (simp add: one_block_def tx_wire_ok_def signed_tx_def tx0_def wire_safe_def)
  ultimately show ?thesis using block_wire_roundtrip [of one_block ?bc] by (simp add: one_block_def)
qed

lemma demo_history: "map bBlockNumber (blockHistory ahead) = map int [0..<length (blockHistory ahead)]"
  by (simp add: ahead_def new_block_def block0_def upt_rec)

theorem sync_copies_chain_witness:
  "\<exists>ys. subseq ys [new_block 0, new_block 1] \<and>
     blockHistory (ndChain (snd (onSyncApply (\<lambda>_. demo_world) (onSyncRespond ''p'' demo_rocks ahead 0) behind))) = ys \<and>
     length (fst (onSyncApply (\<lambda>_. demo_world) (onSyncRespond ''p'' demo_rocks ahead 0) behind)) = 2"
proof -
  let ?head = "HeadBlockNumber (fxReads (swFx demo_world) (ndRocks behind)) (ndChain behind)"
  let ?request = "[(''fromBlockNumber'', wire_num (sync_from (Some ?head)))]"
  have "?head = -1" by (simp add: HeadBlockNumber_def headBlockNumberFromRocks_def demo_world_def behind_def NewBlockchain_def)
  then have r: "handleSyncRequest (Some (onSyncRespond ''p'' demo_rocks ahead)) 0 ?request demo_network = onSyncRespond ''p'' demo_rocks ahead 0"
    by (simp add: handleSyncRequest_def json_defs sync_from_def wire_num_safe wire_safe_def i64_def)
  have h: "blockHistory (ndChain behind) = []" "blockHistory ahead = [new_block 0, new_block 1]"
    by (simp_all add: behind_def ahead_def NewBlockchain_def)
  obtain results nd' where run: "onSyncApply (\<lambda>_. demo_world) (onSyncRespond ''p'' demo_rocks ahead 0) behind = (results, nd')" by fastforce
  have "\<exists>ys. subseq ys [new_block 0, new_block 1] \<and> blockHistory (ndChain nd') = blockHistory (ndChain behind) @ ys \<and>
      length results = length [new_block 0, new_block 1] \<and> (list_all (\<lambda>r. r = Inr True) results \<longrightarrow> blockHistory (ndChain nd') = blockHistory ahead)"
    by (rule sync_copies_chain [of ahead behind _ "\<lambda>_. demo_world" ?request "''p''" demo_rocks 0 demo_network results nd'])
      (simp_all only: h demo_history demo_plain r run list.set append.simps, auto simp: demo_block_safe wire_safe_def h)
  then show ?thesis using run h by auto
qed

text \<open>Remark: when a block of the answer is refused, the loop goes on with the next one, which is above the head as well, and
  \<open>AddConfirmedBlock\<close> does not ask for consecutive numbers: the history then has a gap that no later
  synchronisation fills, since requests start after the head.\<close>

lemma sync_leaves_gap:
  assumes "plain_world w" "blockHistory (ndChain nd) = []" "getNum e1 ''blockNumber'' = 0" "getNum e2 ''blockNumber'' = 1"
    and "onBlockConfirmed w e1 nd = (Inl err, nd1)" "onBlockConfirmed w e2 nd1 = (Inr True, nd2)"
  shows "blockHistory (ndChain (snd (sync_loop (\<lambda>_. w) i [e1, e2] nd))) = [peer_block e2]"
proof -
  have h1: "blockHistory (ndChain nd1) = []" using ApplyPeer_history assms(1,2,5) unfolding onBlockConfirmed_def plain_world_def by fastforce
  have h2: "blockHistory (ndChain nd2) = [peer_block e2]"
    using ApplyPeer_history [of "swFx w" "swEnv w" "swCore w" "swIo w" "swMid w"] assms(1,6) h1 unfolding onBlockConfirmed_def plain_world_def by fastforce
  have "HeadBlockNumber (fxReads (swFx w) r) (ndChain nd) = -1" "HeadBlockNumber (fxReads (swFx w) r) (ndChain nd1) = -1" for r
    using assms(1,2) h1 by (simp_all add: HeadBlockNumber_def plain_world_def)
  then show ?thesis using assms(3-6) h2 by simp
qed

text \<open>Remark: an amount above 2^53 changes on the way to a peer: a transaction is re-encoded through \<open>map[string]interface{}\<close>, whose
  numbers are \<open>float64\<close>, so the peer checks the signature against another amount.\<close>

lemma large_amount_rounded:
  assumes "txAmountUplp tx = 2 ^ 53 + 1"
  shows "txAmountUplp (decoded_tx (transactionToMap tx)) = 2 ^ 53"
proof -
  have "uint (txAmountUplp tx) = 2 ^ 53 + 1" by (simp add: assms)
  then show ?thesis using f64_rounds by (simp add: decoded_tx_def json_defs tx_map_fields wire_num_def)
qed

end
