(* ===== verification/Startup.thy ===== *)
theory Startup
  imports Chain_Store Explorer Rewards
begin

text \<open>
  The start of a node, \<open>internal/handlers/handlers_sync.go\<close>: loading the snapshot, catching up with RocksDB, opening the
  pool, restoring and pruning the mempool, and the hydration of the explorer index that runs afterwards.
\<close>

subsection \<open>Startup\<close>

text \<open>What the start finds: the snapshot file, RocksDB (before and after the migration of a legacy file), the pool (\<open>None\<close> when it
  cannot be opened), and the outcomes of calls.\<close>

record boot =
  btChainFile :: string
  btContent :: chain_read
  btRocks :: rocks
  btMigrated :: "rocks option"
  btPool :: "Transaction pool option"
  btOrder :: "(string \<times> Transaction) list \<Rightarrow> (string \<times> Transaction) list"
  btRm :: "string \<Rightarrow> bool"
  btPut :: "string \<Rightarrow> bool"
  btPersist :: bool
  btQuery :: "string \<Rightarrow> u64 option"
  btNow :: "string \<Rightarrow> int"

definition rocks_after :: "boot \<Rightarrow> rocks" where
  "rocks_after w =
     (if rxHead (btRocks w) = Some 0 \<and> btChainFile w \<noteq> [] \<and> btContent w \<noteq> FileMissing
      then (case btMigrated w of None \<Rightarrow> btRocks w | Some rx \<Rightarrow> rx) else btRocks w)"

definition initRocksFromChainFile :: "boot \<Rightarrow> 'c Blockchain \<Rightarrow> 'c Blockchain" where
  "initRocksFromChainFile w bc = (if rxHead (btRocks w) = None then bc else snd (SyncFromRocksHead (rocks_after w) bc))"

definition openTxPool :: "boot \<Rightarrow> 'c Blockchain \<Rightarrow> 'c Blockchain" where
  "openTxPool w bc = (case btPool w of None \<Rightarrow> bc | Some p \<Rightarrow> bc\<lparr>txPool := Some p\<rparr>)"

definition loadChain :: "boot \<Rightarrow> Distributor \<Rightarrow> 'c Blockchain \<Rightarrow> Distributor \<times> 'c Blockchain" where
  "loadChain w d bc =
     (if btChainFile w = [] then (d, bc)
      else case LoadChainFile (btContent w) (btChainFile w) (SetChainFile bc (btChainFile w)) of
          (Some e, bc1) \<Rightarrow> (d, bc1)
        | (None, bc1) \<Rightarrow> (rebuildDistributorTotalsFromChain d (GetBlockHistory (btRocks w) bc1), bc1))"

definition rocks_history :: "rocks \<Rightarrow> BlockRecord list option" where
  "rocks_history rx = (if rxEnabled rx then listBlockHistoryFromRocks rx else None)"

definition initChainPersistence :: "boot \<Rightarrow> Distributor \<Rightarrow> 'c Blockchain \<Rightarrow> Distributor \<times> 'c Blockchain" where
  "initChainPersistence w d bc =
     (let (d1, bc1) = loadChain w d bc;
          rx = (if rxEnabled (btRocks w) then rocks_after w else btRocks w);
          bc2 = (if rxEnabled (btRocks w) then initRocksFromChainFile w bc1 else bc1);
          bc3 = openTxPool w bc2;
          bc4 = snd (RestoreDurableTxs (headBlockNumberFromRocks rx) (btOrder w) (btRm w) (btPut w) (btPersist w) bc3);
          bc5 = snd (PruneMempool (rocks_history rx) (btQuery w) (btNow w) (btRm w) bc4)
      in (d1, bc5))"

text \<open>\<open>hydrateExplorerIndexFromRocksIfNeeded\<close>, started in a goroutine at the end.\<close>

definition needs_hydrate :: "u64 \<Rightarrow> rocks \<Rightarrow> 'c Blockchain \<Rightarrow> bool" where
  "needs_hydrate head rx bc \<longleftrightarrow>
     head > 0 \<and> (length (transactions bc) < ExpectedConfirmedTxCount bc \<or> length (transactions bc) = 0 \<or> GetBlockHistory rx bc = [])"

definition hydrateExplorerIndexFromRocksIfNeeded :: "rocks \<Rightarrow> bool \<Rightarrow> Distributor \<Rightarrow> 'c Blockchain \<Rightarrow> Distributor \<times> 'c Blockchain" where
  "hydrateExplorerIndexFromRocksIfNeeded rx persist_ok d bc =
     (if \<not> rxEnabled rx then (d, bc)
      else case rxHead rx of
          None \<Rightarrow> (d, bc)
        | Some head \<Rightarrow>
            (let expected = ExpectedConfirmedTxCount bc; indexed = length (transactions bc)
             in if head = 0 \<and> expected = 0 then (d, bc)
                else if snd (snd (ChainCacheLeadsRocks (headBlockNumberFromRocks rx) bc)) then (d, snd (persistChain persist_ok bc))
                else if \<not> needs_hydrate head rx bc
                then (if head > 0 \<and> indexed = expected \<and> expected > 0 then (d, snd (persistChain persist_ok bc)) else (d, bc))
                else
                  let bc1 = snd (SyncFromRocksHead rx bc)
                  in case HydrateExplorerIndexFromRocks rx bc1 of
                       (None, bc2) \<Rightarrow> (d, bc2)
                     | (Some _, bc2) \<Rightarrow>
                         (let bc3 = snd (persistChain persist_ok bc2)
                          in (rebuildDistributorTotalsFromChain d (GetBlockHistory rx bc3), bc3))))"

subsection \<open>Facts\<close>

lemma restore_one_frame [simp]:
  "blockHistory (raChain (restore_one canonical ts acc p)) = blockHistory (raChain acc)"
  "blockCounter (raChain (restore_one canonical ts acc p)) = blockCounter (raChain acc)"
  "totalFeesCollected (raChain (restore_one canonical ts acc p)) = totalFeesCollected (raChain acc)"
  "durableHead (raChain (restore_one canonical ts acc p)) = durableHead (raChain acc)"
  "chainFile (raChain (restore_one canonical ts acc p)) = chainFile (raChain acc)"
  by (simp_all add: restore_one_def Let_def case_prod_beta)

lemma restore_fold_frame:
  "blockHistory (raChain (foldl (restore_one canonical ts) acc ps)) = blockHistory (raChain acc) \<and>
   blockCounter (raChain (foldl (restore_one canonical ts) acc ps)) = blockCounter (raChain acc) \<and>
   totalFeesCollected (raChain (foldl (restore_one canonical ts) acc ps)) = totalFeesCollected (raChain acc) \<and>
   durableHead (raChain (foldl (restore_one canonical ts) acc ps)) = durableHead (raChain acc)"
  by (induction ps arbitrary: acc) simp_all

lemma RestoreDurableTxs_frame:
  "blockHistory (snd (RestoreDurableTxs None order rm put_ok persist_ok bc)) = blockHistory bc"
  "blockCounter (snd (RestoreDurableTxs None order rm put_ok persist_ok bc)) = blockCounter bc"
  "totalFeesCollected (snd (RestoreDurableTxs None order rm put_ok persist_ok bc)) = totalFeesCollected bc"
  "durableHead (snd (RestoreDurableTxs None order rm put_ok persist_ok bc)) = durableHead bc"
  by (simp_all add: RestoreDurableTxs_def Let_def drop_lead_def restore_fold_frame)

lemma prune_frame:
  "blockCounter (snd (PruneMempool rocks query now rm bc)) = blockCounter bc"
  "totalFeesCollected (snd (PruneMempool rocks query now rm bc)) = totalFeesCollected bc"
  "durableHead (snd (PruneMempool rocks query now rm bc)) = durableHead bc"
  "blockHistory (snd (PruneMempool rocks query now rm bc)) = blockHistory bc"
  by (simp_all add: PruneMempool_def prune_locked_def Let_def)

text \<open>The path set before loading does not matter to the loading.\<close>

lemma load_fold_file: "foldl load_step (bc\<lparr>chainFile := q\<rparr>) txs = (foldl load_step bc txs)\<lparr>chainFile := q\<rparr>"
proof (induction txs arbitrary: bc)
  case (Cons tx txs)
  have "load_step (bc\<lparr>chainFile := q\<rparr>) tx = (load_step bc tx)\<lparr>chainFile := q\<rparr>" by (simp add: load_step_def)
  then show ?case using Cons by simp
qed simp

lemma note_file: "noteDurableHeadLocked (bc\<lparr>chainFile := q\<rparr>) = (noteDurableHeadLocked bc)\<lparr>chainFile := q\<rparr>"
  by (simp add: noteDurableHeadLocked_def Let_def)

lemma attach_file: "attachConfirmedTxsToHistoryLocked (bc\<lparr>chainFile := q\<rparr>) = (attachConfirmedTxsToHistoryLocked bc)\<lparr>chainFile := q\<rparr>"
  by (simp add: attachConfirmedTxsToHistoryLocked_def Let_def case_prod_beta noteDurableHeadLocked_def)

lemma LoadChainFile_file: "LoadChainFile (FileParsed chainFileVersion file) p (bc\<lparr>chainFile := q\<rparr>) = LoadChainFile (FileParsed chainFileVersion file) p bc"
proof -
  let ?f = "\<lambda>bc :: 'a Blockchain. bc\<lparr>blockCounter := cfBlockCounter file, totalFeesCollected := cfTotalFeesCollected file,
      blockHistory := cfBlocks file, transactions := [], addressTxs := (\<lambda>_. []), confirmedHashes := {}\<rparr>"
  have "?f (bc\<lparr>chainFile := q\<rparr>) = (?f bc)\<lparr>chainFile := q\<rparr>" by simp
  then show ?thesis by (simp only: LoadChainFile_def chain_read.case load_fold_file note_file attach_file Let_def) simp
qed

text \<open>C24: a restart recovers the node. Take a node that keeps a chain file, whose index is keyed by hash, and in
  which every indexed transaction that carries a positive block number is listed in the block of that number (\<open>listed\<close>:
  not an invariant, as a gossiped transaction keeps the block number its sender put in, and loading then adds its
  hash to that block). When it writes its snapshot and a fresh process starts on that file, without
  RocksDB, then whatever the pool holds and in whatever order it is read, the new node has the block history, the
  counter and the fee total of the old one and the head of that history as its durable head, its distributor's totals are
  those rebuilt from the recovered blocks, and its mempool holds no transaction that is in a block and, faucet credits aside, no two of one
  sender and nonce.\<close>

theorem restart_recovers:
  assumes "chainFile bc \<noteq> []" "index_keyed (transactions bc)" "\<forall>(h, tx) \<in> set (transactions bc). listed (blockHistory bc) tx"
    and "persistChain True bc = (None, bc1)" "chainDisk bc1 = Some file"
    and "btContent w = FileParsed chainFileVersion file" "btChainFile w = chainFile bc" "\<not> rxEnabled (btRocks w)" "rxProbe (btRocks w) = None"
    and "initChainPersistence w d (NewBlockchain c) = (d', bc')"
  shows "blockHistory bc' = blockHistory bc \<and> blockCounter bc' = blockCounter bc \<and> totalFeesCollected bc' = totalFeesCollected bc \<and>
    durableHead bc' = historyHead (blockHistory bc) \<and> d' = rebuildDistributorTotalsFromChain d (blockHistory bc) \<and>
    distinct (map sender_nonce (filter ledger_sender (mempool bc'))) \<and>
    (\<forall>tx \<in> set (mempool bc'). txHash tx \<notin> block_hashes (blockHistory bc'))"
proof -
  obtain bc2 where l: "LoadChainFile (btContent w) (btChainFile w) (SetChainFile (NewBlockchain c) (btChainFile w)) = (None, bc2)"
    and b2: "blockHistory bc2 = blockHistory bc" "blockCounter bc2 = blockCounter bc" "totalFeesCollected bc2 = totalFeesCollected bc"
      "durableHead bc2 = historyHead (blockHistory bc)"
    using persist_load_roundtrip [OF assms(1-3), of "chainFile bc" c] assms(4-7) by (auto simp: SetChainFile_def LoadChainFile_file)
  have g: "headBlockNumberFromRocks (btRocks w) = None" using assms(8,9) by (simp add: headBlockNumberFromRocks_def)
  then have hist: "GetBlockHistory (btRocks w) bc2 = blockHistory bc" using assms(8) b2(1) by (simp add: GetBlockHistory_def Let_def)
  have load: "loadChain w d (NewBlockchain c) = (rebuildDistributorTotalsFromChain d (blockHistory bc), bc2)"
    using l hist assms(1,7) by (simp add: loadChain_def)
  let ?bc3 = "openTxPool w bc2"
  let ?bc4 = "snd (RestoreDurableTxs None (btOrder w) (btRm w) (btPut w) (btPersist w) ?bc3)"
  have o: "blockHistory ?bc3 = blockHistory bc2" "blockCounter ?bc3 = blockCounter bc2" "totalFeesCollected ?bc3 = totalFeesCollected bc2"
    "durableHead ?bc3 = durableHead bc2" by (simp_all add: openTxPool_def split: option.splits)
  have r: "d' = rebuildDistributorTotalsFromChain d (blockHistory bc)"
    "bc' = snd (PruneMempool (rocks_history (btRocks w)) (btQuery w) (btNow w) (btRm w) ?bc4)"
    using assms(8,10) load g by (auto simp: initChainPersistence_def Let_def)
  have clean: "distinct (map sender_nonce (filter ledger_sender (mempool bc')))" "\<forall>tx \<in> set (mempool bc'). txHash tx \<notin> block_hashes (blockHistory ?bc4)"
    using PruneMempool_clean [of "rocks_history (btRocks w)" "btQuery w" "btNow w" "btRm w" ?bc4] unfolding r(2) Let_def by blast+
  show ?thesis
    using clean b2 o r(1) by (simp add: r(2) prune_frame RestoreDurableTxs_frame)
qed

definition saved :: "nat Blockchain" where
  "saved = pending_chain\<lparr>chainFile := ''c'', blockHistory := [(new_block 0)\<lparr>bTxHashes := [''h1'']\<rparr>],
     transactions := [(''h1'', signed_tx ''h1'' 0)]\<rparr>"

definition demo_boot :: boot where
  "demo_boot = \<lparr>btChainFile = ''c'',
     btContent = FileParsed chainFileVersion \<lparr>cfBlockCounter = blockCounter saved, cfTotalFeesCollected = totalFeesCollected saved,
        cfBlocks = blockHistory saved, cfTransactions = map snd (transactions saved)\<rparr>,
     btRocks = demo_rocks\<lparr>rxEnabled := False, rxProbe := None\<rparr>, btMigrated = None, btPool = Some [], btOrder = id, btRm = (\<lambda>_. True),
     btPut = (\<lambda>_. True), btPersist = True, btQuery = (\<lambda>_. None), btNow = (\<lambda>_. 0)\<rparr>"

theorem restart_recovers_witness: "blockHistory (snd (initChainPersistence demo_boot (NewDistributor (\<lambda>_. [])) (NewBlockchain (0 :: nat)))) = blockHistory saved"
proof -
  have f: "chainFile saved \<noteq> []" "index_keyed (transactions saved)" "\<forall>(h, tx) \<in> set (transactions saved). listed (blockHistory saved) tx"
    by (simp_all add: saved_def index_keyed_def demo_listed_chain pending_chain_simps)
  have ok: "fst (persistChain True saved) = None"
    by (simp add: persistChain_fst saved_def pending_chain_def NewBlockchain_def)
  obtain bc1 where p: "persistChain True saved = (None, bc1)" using ok by (metis prod.collapse)
  have disk: "chainDisk bc1 = Some \<lparr>cfBlockCounter = blockCounter saved, cfTotalFeesCollected = totalFeesCollected saved,
      cfBlocks = blockHistory saved, cfTransactions = map snd (transactions saved)\<rparr>"
    using persistChain_chainDisk [of True saved] p ok f(1) by simp
  obtain d' bc' where i: "initChainPersistence demo_boot (NewDistributor (\<lambda>_. [])) (NewBlockchain (0 :: nat)) = (d', bc')" by fastforce
  have w: "btContent demo_boot = FileParsed chainFileVersion \<lparr>cfBlockCounter = blockCounter saved, cfTotalFeesCollected = totalFeesCollected saved,
      cfBlocks = blockHistory saved, cfTransactions = map snd (transactions saved)\<rparr>" "btChainFile demo_boot = chainFile saved"
    "\<not> rxEnabled (btRocks demo_boot)" "rxProbe (btRocks demo_boot) = None"
    by (simp_all add: demo_boot_def saved_def)
  show ?thesis using restart_recovers [OF f p disk w i] i by simp
qed

text \<open>Remark: the blocks read back from RocksDB carry no fees, so the distributor's totals cannot be rebuilt from them.\<close>

lemma rocks_blocks_rebuild_nothing:
  assumes "listBlockHistoryFromRocks rx = Some bs"
  shows "rebuildDistributorTotalsFromChain d bs = d"
proof -
  have "\<forall>b \<in> set bs. bTotalFees b = 0"
    using assms by (auto simp: listBlockHistoryFromRocks_def blockRecordFromRocks_def block0_def split: if_splits option.splits)
  then have "foldl (rebuild_step (dist_config d)) (0, 0) bs = (0, 0)" by (induction bs) (simp_all add: rebuild_step_def)
  then show ?thesis by (simp add: rebuildDistributorTotalsFromChain_def)
qed

end
