(* ===== verification/Accounts_Index.thy ===== *)
theory Accounts_Index
  imports Blockchain_State Go_Json "HOL-Library.Multiset"
begin

text \<open>
  The list of the largest accounts (\<^verbatim>\<open>internal/blockchain/accounts_index.go\<close>): the balances and nonces of Core's state
  file, sorted by balance and cut into pages.

  The state file is what \<open>json.Unmarshal\<close> makes of it. The rows come out of a Go map, whose order is the argument \<open>order\<close>;
  \<open>sort.Slice\<close> leaves the order of equal balances open as well.
\<close>

subsection \<open>Numbers\<close>

text \<open>\<open>new(big.Int).SetString(s, 10)\<close> and \<open>String()\<close>.\<close>

definition big_SetString :: "string \<Rightarrow> int option" where
  "big_SetString s =
     (let neg = (s \<noteq> [] \<and> code (hd s) = 45);
          body = (if s \<noteq> [] \<and> (code (hd s) = 43 \<or> neg) then tl s else s);
          n = foldl (\<lambda>n c. n * 10 + int (digit_val c)) 0 body
      in if body = [] \<or> \<not> list_all is_digit body then None else Some (if neg then - n else n))"

definition big_String :: "int \<Rightarrow> string" where
  "big_String n = (if n < 0 then ''-'' else '''') @ digits_of (nat \<bar>n\<bar>)"

text \<open>
  \<open>SetString\<close> on \<open>fmt.Sprint\<close> of a decoded value. A \<open>float64\<close> is printed with an exponent from \<open>10^6\<close> on, which \<open>SetString\<close>
  does not read; neither does it read \<open>true\<close>, \<open><nil>\<close>, \<open>[...]\<close> or \<open>map[...]\<close>.
\<close>

definition balance_value :: "json \<Rightarrow> int option" where
  "balance_value v =
     (case v of JStr s \<Rightarrow> big_SetString s | JNum n \<Rightarrow> (if \<bar>n\<bar> < 10 ^ 6 then Some n else None) | _ \<Rightarrow> None)"

text \<open>The type assertion \<open>v.(string)\<close>, with the zero value when it fails.\<close>

definition string_arg :: "json \<Rightarrow> string" where
  "string_arg v = (case v of JStr s \<Rightarrow> s | _ \<Rightarrow> [])"

subsection \<open>The state file\<close>

datatype state_file = SfUnreadable | SfInvalid | SfAccounts "json list list" "json list list"

datatype accounts_error = ReadStateFile | ParseStateFile

definition add_balance :: "(string \<times> int) list \<Rightarrow> json list \<Rightarrow> (string \<times> int) list" where
  "add_balance m entry =
     (case entry of
        a # asset # v # _ \<Rightarrow>
          (if string_arg a = [] \<or> string_arg asset \<noteq> ''PLP'' then m
           else case balance_value v of
               None \<Rightarrow> m
             | Some bal \<Rightarrow>
                 AList.update (string_arg a)
                   (case map_of m (string_arg a) of Some existing \<Rightarrow> existing + bal | None \<Rightarrow> bal) m)
      | _ \<Rightarrow> m)"

definition add_nonce :: "(string \<times> u64) list \<Rightarrow> json list \<Rightarrow> (string \<times> u64) list" where
  "add_nonce m entry =
     (case entry of
        a # v # _ \<Rightarrow>
          (if string_arg a = [] then m
           else case v of
               JNum n \<Rightarrow> AList.update (string_arg a) (word_of_int n) m
             | JStr s \<Rightarrow>
                 (case ParseUint s of
                    (n, None) \<Rightarrow> AList.update (string_arg a) n m | (_, Some _) \<Rightarrow> m)
             | _ \<Rightarrow> m)
      | _ \<Rightarrow> m)"

definition loadStateBalances :: "state_file \<Rightarrow> accounts_error + (string \<times> int) list \<times> (string \<times> u64) list" where
  "loadStateBalances f =
     (case f of
        SfUnreadable \<Rightarrow> Inl ReadStateFile
      | SfInvalid \<Rightarrow> Inl ParseStateFile
      | SfAccounts bals nonces \<Rightarrow> Inr (foldl add_balance [] bals, foldl add_nonce [] nonces))"

subsection \<open>The list\<close>

record AccountListRow =
  alAddress :: string
  alBalance :: string
  alNonce :: u64
  alTxCount :: nat

record AccountListResult =
  arAccounts :: "AccountListRow list"
  arTotalCount :: nat
  arTotalSupply :: string
  arLargestAccountBalance :: string
  arPage :: int
  arLimit :: int
  arTotalPages :: int

text \<open>The local type \<open>row\<close>, whose balance is still a number.\<close>

record account_row =
  rwAddress :: string
  rwBalance :: int
  rwNonce :: u64
  rwTxCount :: nat

definition account_rows :: "'c Blockchain \<Rightarrow> (string \<times> int) list \<Rightarrow> (string \<times> u64) list \<Rightarrow> account_row list" where
  "account_rows bc balances nonces =
     map (\<lambda>(addr, bal). \<lparr>rwAddress = addr, rwBalance = bal,
            rwNonce = (case map_of nonces addr of Some n \<Rightarrow> n | None \<Rightarrow> 0), rwTxCount = length (addressTxs bc addr)\<rparr>)
       (filter (\<lambda>(addr, bal). bal > 0) balances)"

definition list_row :: "account_row \<Rightarrow> AccountListRow" where
  "list_row r = \<lparr>alAddress = rwAddress r, alBalance = big_String (rwBalance r), alNonce = rwNonce r, alTxCount = rwTxCount r\<rparr>"

definition account_limit :: "int \<Rightarrow> int" where
  "account_limit limit = (let l = (if limit < 1 then 25 else limit) in if l > 100 then 100 else l)"

definition page_count :: "int \<Rightarrow> nat \<Rightarrow> int" where
  "page_count limit tot = (let n = (int tot + limit - 1) div limit in if n = 0 then 1 else n)"

definition account_page :: "account_row list \<Rightarrow> int \<Rightarrow> int \<Rightarrow> AccountListResult" where
  "account_page rows page limit =
     (let tot = length rows;
          pages = page_count limit tot;
          page' = (if page > pages then pages else page);
          start = min (nat ((page' - 1) * limit)) tot;
          stop = min (start + nat limit) tot
      in \<lparr>arAccounts = map list_row (take (stop - start) (drop start rows)), arTotalCount = tot,
          arTotalSupply = big_String (sum_list (map rwBalance rows)),
          arLargestAccountBalance = (case rows of [] \<Rightarrow> [] | r # _ \<Rightarrow> big_String (rwBalance r)),
          arPage = page', arLimit = limit, arTotalPages = pages\<rparr>)"

definition ListTopAccounts ::
  "(account_row list \<Rightarrow> account_row list) \<Rightarrow> 'c Blockchain \<Rightarrow> state_file \<Rightarrow> int \<Rightarrow> int \<Rightarrow> accounts_error + AccountListResult" where
  "ListTopAccounts order bc f page limit =
     (case loadStateBalances f of
        Inl e \<Rightarrow> Inl e
      | Inr (balances, nonces) \<Rightarrow>
          (let rows = sort_key (\<lambda>r. - rwBalance r) (order (account_rows bc balances nonces))
           in Inr (account_page rows (if page < 1 then 1 else page) (account_limit limit))))"

subsection \<open>Printing and reading a balance\<close>

lemma foldl_digits: "foldl (\<lambda>n c. n * 10 + int (digit_val c)) 0 (digits_of n) = int n"
proof (induction n rule: digits_of.induct)
  case (1 n)
  then show ?case by (subst digits_of.simps) (auto simp: zdiv_int zmod_int)
qed

lemma digit_no_sign: "is_digit c \<Longrightarrow> code c \<noteq> 45 \<and> code c \<noteq> 43"
  by (auto simp: is_digit_def)

lemma big_SetString_String: "big_SetString (big_String n) = Some n"
proof (cases "n < 0")
  case True
  have "code CHR ''-'' = 45" by code_simp
  with True digits_of_digits show ?thesis by (simp add: big_SetString_def big_String_def foldl_digits Let_def)
next
  case False
  with digits_of_digits digit_no_sign [OF hd_digits_of [of "nat n"]] show ?thesis
    by (simp add: big_SetString_def big_String_def foldl_digits Let_def)
qed

lemma big_String_inj: "big_String a = big_String b \<Longrightarrow> a = b"
  by (metis big_SetString_String option.inject)

subsection \<open>The pages cover the list\<close>

definition page_slice :: "int \<Rightarrow> 'a list \<Rightarrow> nat \<Rightarrow> 'a list" where
  "page_slice limit xs i = take (nat limit) (drop (i * nat limit) xs)"

lemma concat_slices: "concat (map (page_slice limit xs) [0..<k]) = take (k * nat limit) xs"
proof (induction k)
  case (Suc k)
  have "Suc k * nat limit = k * nat limit + nat limit" by simp
  with Suc show ?case by (simp only: take_add) (simp add: page_slice_def)
qed simp

lemma page_count_bounds:
  assumes "0 < limit"
  shows "1 \<le> page_count limit n" "int n \<le> page_count limit n * limit"
proof -
  let ?q = "(int n + limit - 1) div limit"
  have "0 \<le> ?q" using assms by (simp add: pos_imp_zdiv_nonneg_iff)
  then show "1 \<le> page_count limit n" by (simp add: page_count_def Let_def)
  have "int n + limit - 1 = ?q * limit + (int n + limit - 1) mod limit" by simp
  moreover have "(int n + limit - 1) mod limit < limit" using assms by simp
  ultimately have "int n \<le> ?q * limit" by linarith
  then show "int n \<le> page_count limit n * limit" using assms by (auto simp: page_count_def Let_def)
qed

lemma page_count_covers:
  assumes "0 < limit"
  shows "n \<le> nat (page_count limit n) * nat limit"
proof -
  have "int n \<le> int (nat (page_count limit n) * nat limit)"
    using page_count_bounds [OF assms, of n] assms by simp
  then show ?thesis by (simp only: of_nat_le_iff)
qed

lemma account_page_slice:
  assumes "0 < limit" "int i < page_count limit (length rows)"
  shows "arAccounts (account_page rows (int i + 1) limit) = map list_row (page_slice limit rows i)"
proof -
  have "nat (int i * limit) = i * nat limit" using assms(1) by (simp add: nat_mult_distrib)
  with assms(2) show ?thesis
    by (simp add: account_page_def Let_def page_slice_def min_def)
qed

lemma account_pages_concat:
  assumes "0 < limit"
  shows "concat (map (\<lambda>i. arAccounts (account_page rows (int i + 1) limit)) [0..<nat (page_count limit (length rows))])
         = map list_row rows"
proof -
  let ?k = "nat (page_count limit (length rows))"
  have "map (\<lambda>i. arAccounts (account_page rows (int i + 1) limit)) [0..<?k]
        = map (\<lambda>i. map list_row (page_slice limit rows i)) [0..<?k]"
    using assms by (intro map_cong refl account_page_slice) auto
  then have "concat (map (\<lambda>i. arAccounts (account_page rows (int i + 1) limit)) [0..<?k])
        = map list_row (concat (map (page_slice limit rows) [0..<?k]))"
    by (simp only: map_concat map_map comp_def)
  also have "\<dots> = map list_row (take (?k * nat limit) rows)" by (simp only: concat_slices)
  also have "\<dots> = map list_row rows" using page_count_covers [OF assms, of "length rows"] by simp
  finally show ?thesis .
qed

subsection \<open>What is listed\<close>

definition balance_entry :: "json list \<Rightarrow> (string \<times> int) option" where
  "balance_entry entry =
     (case entry of
        a # asset # v # _ \<Rightarrow>
          (if string_arg a = [] \<or> string_arg asset \<noteq> ''PLP'' then None else map_option (Pair (string_arg a)) (balance_value v))
      | _ \<Rightarrow> None)"

text \<open>The balance of an address in the state file: the sum of its readable PLP entries.\<close>

definition plp_balance :: "json list list \<Rightarrow> string \<Rightarrow> int" where
  "plp_balance bals a = sum_list (map snd (filter (\<lambda>e. fst e = a) (List.map_filter balance_entry bals)))"

lemma add_balance_entry:
  "add_balance m entry =
     (case balance_entry entry of
        None \<Rightarrow> m
      | Some (a, bal) \<Rightarrow> AList.update a (case map_of m a of Some e \<Rightarrow> e + bal | None \<Rightarrow> bal) m)"
  by (auto simp: add_balance_def balance_entry_def split: list.splits option.splits)

definition balance_in :: "(string \<times> int) list \<Rightarrow> string \<Rightarrow> int" where
  "balance_in m a = (case map_of m a of Some b \<Rightarrow> b | None \<Rightarrow> 0)"

lemma balance_in_add:
  "balance_in (add_balance m e) a =
     balance_in m a + (case balance_entry e of Some (a', b) \<Rightarrow> (if a' = a then b else 0) | None \<Rightarrow> 0)"
  by (auto simp: add_balance_entry balance_in_def update_conv' split: option.splits)

lemma balance_in_load: "balance_in (foldl add_balance m bals) a = balance_in m a + plp_balance bals a"
proof (induction bals arbitrary: m)
  case Nil
  show ?case by (simp add: plp_balance_def map_filter_simps)
next
  case (Cons e bals)
  then show ?case
    by (simp add: balance_in_add plp_balance_def map_filter_simps split: option.splits prod.splits)
qed

lemma distinct_load: "distinct (map fst m) \<Longrightarrow> distinct (map fst (foldl add_balance m bals))"
  by (induction bals arbitrary: m) (auto simp: add_balance_entry distinct_update split: option.splits)

lemma rows_distinct:
  assumes "distinct (map fst balances)"
  shows "distinct (map rwAddress (account_rows bc balances nonces))"
proof -
  have "map rwAddress (account_rows bc balances nonces) = map fst (filter (\<lambda>(addr, bal). bal > 0) balances)"
    by (simp add: account_rows_def case_prod_beta)
  with assms show ?thesis by (simp add: distinct_map_filter)
qed

lemma rows_exact:
  assumes "distinct (map fst balances)"
  shows "(\<exists>r \<in> set (account_rows bc balances nonces). rwAddress r = a \<and> rwBalance r = b) \<longleftrightarrow>
         balance_in balances a = b \<and> b > 0"
proof -
  have "(\<exists>r \<in> set (account_rows bc balances nonces). rwAddress r = a \<and> rwBalance r = b) \<longleftrightarrow>
        (a, b) \<in> set balances \<and> b > 0"
    by (force simp: account_rows_def)
  also have "\<dots> \<longleftrightarrow> map_of balances a = Some b \<and> b > 0"
    using assms by simp
  also have "\<dots> \<longleftrightarrow> balance_in balances a = b \<and> b > 0"
    by (auto simp: balance_in_def split: option.splits)
  finally show ?thesis .
qed

lemma rows_sorted_unique:
  assumes "mset ys = mset xs" "distinct (map rwAddress xs)"
    and "\<And>x y. x \<in> set xs \<Longrightarrow> y \<in> set xs \<Longrightarrow> rwBalance x = rwBalance y \<Longrightarrow> rwAddress x = rwAddress y"
  shows "sort_key (\<lambda>r. - rwBalance r) ys = sort_key (\<lambda>r. - rwBalance r) xs"
proof -
  let ?f = "\<lambda>r. - rwBalance r"
  have addr: "inj_on rwAddress (set xs)" using assms(2) by (simp add: distinct_map)
  have inj: "inj_on ?f (set xs)"
    by (rule inj_onI) (rule inj_onD [OF addr assms(3)], simp_all)
  have d: "distinct xs" using assms(2) by (simp add: distinct_map)
  have d': "distinct ys" using d assms(1) by (metis mset_eq_imp_distinct_iff)
  have set_eq: "set ys = set xs" using assms(1) by (rule mset_eq_setD)
  show ?thesis
    by (rule map_sorted_distinct_set_unique [of ?f]) (use inj d d' set_eq in \<open>simp_all add: distinct_map\<close>)
qed

definition top_page ::
  "(account_row list \<Rightarrow> account_row list) \<Rightarrow> 'c Blockchain \<Rightarrow> state_file \<Rightarrow> int \<Rightarrow> int \<Rightarrow> AccountListRow list" where
  "top_page order bc f page limit =
     (case ListTopAccounts order bc f page limit of Inl _ \<Rightarrow> [] | Inr res \<Rightarrow> arAccounts res)"

lemma account_limit_pos: "0 < account_limit limit"
  by (simp add: account_limit_def Let_def)

text \<open>Remark: The pages of the account list together show every account with a positive PLP balance exactly once, with the sum of its
  entries in the state file, largest first, when no two of them are equal; each request may see the
  accounts in an order of its own.\<close>

theorem account_pages_complete:
  assumes "\<And>i xs. mset (order i xs) = mset xs"
    and "\<And>a b. plp_balance bals a = plp_balance bals b \<Longrightarrow> plp_balance bals a > 0 \<Longrightarrow> a = b"
  shows "\<exists>rows pages. distinct (map rwAddress rows) \<and> sorted (map (\<lambda>r. - rwBalance r) rows) \<and>
           (\<forall>a b. (\<exists>r \<in> set rows. rwAddress r = a \<and> rwBalance r = b) \<longleftrightarrow> plp_balance bals a = b \<and> b > 0) \<and>
           (\<forall>i. \<exists>res. ListTopAccounts (order i) bc (SfAccounts bals nonces) (int i + 1) limit = Inr res \<and>
              arTotalPages res = int pages \<and> arTotalCount res = length rows \<and>
              arTotalSupply res = big_String (sum_list (map rwBalance rows))) \<and>
           concat (map (\<lambda>i. top_page (order i) bc (SfAccounts bals nonces) (int i + 1) limit) [0..<pages]) = map list_row rows"
proof -
  let ?B = "foldl add_balance [] bals"
  let ?R = "account_rows bc ?B (foldl add_nonce [] nonces)"
  let ?rows = "sort_key (\<lambda>r. - rwBalance r) ?R"
  let ?l = "account_limit limit"
  let ?pages = "nat (page_count ?l (length ?rows))"
  have d: "distinct (map fst ?B)" by (rule distinct_load) simp
  have bal: "balance_in ?B a = plp_balance bals a" for a
    by (simp add: balance_in_load) (simp add: balance_in_def)
  have uniq: "rwAddress x = rwAddress y" if "x \<in> set ?R" "y \<in> set ?R" "rwBalance x = rwBalance y" for x y
    using assms(2) [of "rwAddress x" "rwAddress y"] rows_exact [OF d] bal that by metis
  have rows: "sort_key (\<lambda>r. - rwBalance r) (order i ?R) = ?rows" for i
    by (rule rows_sorted_unique [OF assms(1) rows_distinct [OF d] uniq])
  have page: "ListTopAccounts (order i) bc (SfAccounts bals nonces) (int i + 1) limit
        = Inr (account_page ?rows (int i + 1) ?l)" for i
    by (simp add: ListTopAccounts_def loadStateBalances_def rows)
  have dist: "distinct (map rwAddress ?rows)"
    using rows_distinct [OF d] by (simp add: distinct_map)
  have exact: "(\<exists>r \<in> set ?rows. rwAddress r = a \<and> rwBalance r = b) \<longleftrightarrow> plp_balance bals a = b \<and> b > 0" for a b
    using rows_exact [OF d] by (simp add: bal)
  have cat: "concat (map (\<lambda>i. top_page (order i) bc (SfAccounts bals nonces) (int i + 1) limit) [0..<?pages])
        = map list_row ?rows"
    unfolding top_page_def page sum.case by (rule account_pages_concat [OF account_limit_pos])
  have "int ?pages = page_count ?l (length ?rows)"
    using page_count_bounds(1) [OF account_limit_pos, of limit "length ?rows"] by simp
  then have each: "\<exists>res. ListTopAccounts (order i) bc (SfAccounts bals nonces) (int i + 1) limit = Inr res \<and>
      arTotalPages res = int ?pages \<and> arTotalCount res = length ?rows \<and>
      arTotalSupply res = big_String (sum_list (map rwBalance ?rows))" for i
    unfolding page by (simp add: account_page_def Let_def)
  show ?thesis
    by (intro exI [of _ ?rows] exI [of _ ?pages] conjI allI dist exact each cat) simp
qed

theorem account_pages_complete_witness:
  "let bals = [[JStr ''PxLow'', JStr ''PLP'', JStr ''100''], [JStr ''PxHigh'', JStr ''PLP'', JStr ''9000''],
               [JStr ''PxLow'', JStr ''PLP'', JStr ''5'']]
   in \<exists>rows pages. distinct (map rwAddress rows) \<and> sorted (map (\<lambda>r. - rwBalance r) rows) \<and>
        (\<exists>r \<in> set rows. rwAddress r = ''PxLow'' \<and> rwBalance r = 105) \<and>
        concat (map (\<lambda>i. top_page rev (NewBlockchain (0 :: nat)) (SfAccounts bals []) (int i + 1) 2) [0..<pages]) = map list_row rows"
proof -
  let ?bals = "[[JStr ''PxLow'', JStr ''PLP'', JStr ''100''], [JStr ''PxHigh'', JStr ''PLP'', JStr ''9000''],
     [JStr ''PxLow'', JStr ''PLP'', JStr ''5'']]"
  have entries: "List.map_filter balance_entry ?bals = [(''PxLow'', 100), (''PxHigh'', 9000), (''PxLow'', 5)]"
    by code_simp
  have bal: "plp_balance ?bals a = (if a = ''PxLow'' then 105 else if a = ''PxHigh'' then 9000 else 0)" for a
    unfolding plp_balance_def entries by simp
  have "\<And>a b. plp_balance ?bals a = plp_balance ?bals b \<Longrightarrow> plp_balance ?bals a > 0 \<Longrightarrow> a = b"
    unfolding bal by (simp split: if_splits)
  from account_pages_complete [of "\<lambda>_. rev" ?bals, OF mset_rev this, of "NewBlockchain 0" "[]" 2]
  obtain rows pages where *: "distinct (map rwAddress rows)" "sorted (map (\<lambda>r. - rwBalance r) rows)"
      "\<forall>a b. (\<exists>r \<in> set rows. rwAddress r = a \<and> rwBalance r = b) \<longleftrightarrow> plp_balance ?bals a = b \<and> b > 0"
      "concat (map (\<lambda>i. top_page rev (NewBlockchain (0 :: nat)) (SfAccounts ?bals []) (int i + 1) 2) [0..<pages])
         = map list_row rows"
    by blast
  have "\<exists>r \<in> set rows. rwAddress r = ''PxLow'' \<and> rwBalance r = 105"
    using *(3) bal [of "''PxLow''"] by simp
  with *(1,2,4) show ?thesis unfolding Let_def by blast
qed

text \<open>Remark: Two accounts of equal balance have no fixed order between requests, so a walk over the pages can show one of them
  twice and miss the other.\<close>

theorem tied_accounts_repeat:
  "let f = SfAccounts [[JStr ''PxA'', JStr ''PLP'', JStr ''7''], [JStr ''PxB'', JStr ''PLP'', JStr ''7'']] []
   in map alAddress (top_page id (NewBlockchain (0 :: nat)) f 1 1) = [''PxA''] \<and>
      map alAddress (top_page rev (NewBlockchain (0 :: nat)) f 2 1) = [''PxA'']"
  by code_simp

text \<open>Remark: A balance that the state file holds as a JSON number of a million or more is not read, and its account not listed.\<close>

theorem numeric_balance_dropped:
  assumes "10 ^ 6 \<le> n"
  shows "ListTopAccounts order bc (SfAccounts [[JStr a, JStr ''PLP'', JNum n]] []) page limit =
         ListTopAccounts order bc (SfAccounts [] []) page limit"
  using assms by (simp add: ListTopAccounts_def loadStateBalances_def add_balance_def balance_value_def)

end
