(* ===== verification/Chain_Rpc.thy ===== *)
theory Chain_Rpc
  imports Explorer Admission Accounts_Index Hashing
begin

text \<open>
  The JSON-RPC 2.0 interface of the chain (\<^verbatim>\<open>internal/handlers/chain_rpc.go\<close>): the requests of wallets and
  explorers for the head, a balance, a block or a transaction, with integers written and read as
  hexadecimal quantities.

  A request is what \<open>json.Unmarshal\<close> makes of the body, \<open>None\<close> when it fails. Core's ledger and its RocksDB are the
  arguments of \<open>GetAccountQuery\<close> and \<open>GetBlockByNumber\<close>, as in the theories of these operations. Looking up a
  transaction caches it in the explorer index, so a dispatch returns the chain.
\<close>

subsection \<open>Hexadecimal quantities\<close>

fun hex_of :: "nat \<Rightarrow> string" where
  "hex_of n = (if n < 16 then [hex_char n] else hex_of (n div 16) @ [hex_char (n mod 16)])"

declare hex_of.simps [simp del]

text \<open>\<open>fmt.Sprintf("0x%x", n)\<close>: the sign of a negative number stands after the prefix.\<close>

definition quantity :: "int \<Rightarrow> string" where
  "quantity n = ''0x'' @ (if n < 0 then ''-'' else '''') @ hex_of (nat \<bar>n\<bar>)"

text \<open>\<open>strconv.ParseInt(s, 16, 64)\<close>.\<close>

fun ParseHex_loop :: "nat \<Rightarrow> string \<Rightarrow> nat \<times> num_error option" where
  "ParseHex_loop n [] = (n, None)"
| "ParseHex_loop n (c # cs) =
     (case hex_val c of
        None \<Rightarrow> (0, Some ErrSyntax)
      | Some d \<Rightarrow>
          (if n * 16 + d \<ge> 2 ^ 64 then (2 ^ 64 - 1, Some ErrRange) else ParseHex_loop (n * 16 + d) cs))"

definition ParseHexUint :: "string \<Rightarrow> u64 \<times> num_error option" where
  "ParseHexUint s =
     (if s = [] then (0, Some ErrSyntax) else case ParseHex_loop 0 s of (n, e) \<Rightarrow> (of_nat n, e))"

definition ParseHexInt :: "string \<Rightarrow> int \<times> num_error option" where
  "ParseHexInt s =
     (if s = [] then (0, Some ErrSyntax)
      else
        let neg = (code (hd s) = 45);
            body = (if code (hd s) = 43 \<or> neg then tl s else s)
        in case ParseHexUint body of
             (un, e) \<Rightarrow> (if e = Some ErrSyntax then (0, Some ErrSyntax) else apply_sign neg un))"

subsection \<open>Accounts\<close>

text \<open>Asking RocksDB for an account gives \<open>None\<close> on an error and \<open>Some None\<close> when there is no such account.\<close>

definition getAccountFromRocks :: "bool \<Rightarrow> (string \<Rightarrow> RocksAccount option option) \<Rightarrow> string \<Rightarrow> AccountQuery option" where
  "getAccountFromRocks enabled get address =
     (if \<not> enabled then None
      else case get address of
          None \<Rightarrow> None
        | Some None \<Rightarrow>
            Some \<lparr>aqAddress = address, aqBalance = ''0'', aqUplpBalance = [], aqNonce = 0, aqTokens = [], aqXp = []\<rparr>
        | Some (Some a) \<Rightarrow>
            Some \<lparr>aqAddress = raAddress a, aqBalance = raBalance a, aqUplpBalance = raUplpBalance a, aqNonce = raNonce a,
                  aqTokens = raTokens a, aqXp = (if raXp a = [] then TokenXPFromMap (raTokens a) else raXp a)\<rparr>)"

definition GetBalance :: "bool \<Rightarrow> (string \<Rightarrow> AccountQuery option) \<Rightarrow> string \<Rightarrow> string option" where
  "GetBalance led query address = (if \<not> led then None else map_option aqBalance (query address))"

subsection \<open>Requests and answers\<close>

definition platariumChainID :: string where
  "platariumChainID = ''0x7070''"

record jsonRPCRequest =
  rqJSONRPC :: string
  rqID :: json
  rqMethod :: string
  rqParams :: "json option"

text \<open>The message of an error is a text of the gateway or the text of the ledger's error.\<close>

datatype rpc_message = Msg string | LedgerError

record jsonRPCError =
  reCode :: int
  reMessage :: rpc_message

record jsonRPCResponse =
  rsID :: json
  rsResult :: "json option"
  rsError :: "jsonRPCError option"

definition rpc_error :: "int \<Rightarrow> string \<Rightarrow> jsonRPCError" where
  "rpc_error c m = \<lparr>reCode = c, reMessage = Msg m\<rparr>"

text \<open>The field \<open>result\<close> has \<open>omitempty\<close>: a nil result is left out of the answer.\<close>

definition writeJSONRPC :: "json \<Rightarrow> json \<Rightarrow> jsonRPCError option \<Rightarrow> jsonRPCResponse" where
  "writeJSONRPC rid result err =
     \<lparr>rsID = rid, rsResult = (if result = JNull then None else Some result), rsError = err\<rparr>"

definition writeJSONRPCError :: "json \<Rightarrow> int \<Rightarrow> string \<Rightarrow> jsonRPCResponse" where
  "writeJSONRPCError rid c m = writeJSONRPC rid JNull (Some (rpc_error c m))"

text \<open>Parameters that are no array leave the arguments empty: the error of the decoder is dropped.\<close>

definition rpc_args :: "json option \<Rightarrow> json list" where
  "rpc_args params = (case params of Some (JArr xs) \<Rightarrow> xs | _ \<Rightarrow> [])"

definition blockToRPC :: "BlockRecord \<Rightarrow> json" where
  "blockToRPC b = JObj
     [(''number'', JStr (quantity (bBlockNumber b))), (''hash'', JStr (bBlockHash b)),
      (''parentHash'', JStr (bPreviousHash b)), (''timestamp'', JStr (quantity (bTimestamp b))),
      (''transactions'', JArr (map JStr (bTxHashes b))), (''transactionCount'', JNum (int (length (bTxHashes b)))),
      (''merkleRoot'', JStr (bMerkleRoot b)), (''stateRoot'', JStr (bStateRoot b)),
      (''totalFees'', JNum (bTotalFees b)), (''producerNodeId'', JStr (bProducerNodeID b))]"

definition txToRPC :: "Transaction \<Rightarrow> json" where
  "txToRPC tx = JObj
     [(''hash'', JStr (txHash tx)), (''from'', JStr (txFrom tx)), (''to'', JStr (txTo tx)),
      (''value'', JStr (txValue tx)), (''fee'', JStr (txFee tx)), (''nonce'', JStr (quantity (txNonce tx))),
      (''asset'', JStr (txAsset tx))]"

definition parseBlockNumberArg :: "rocks \<Rightarrow> 'c Blockchain \<Rightarrow> json \<Rightarrow> string + int" where
  "parseBlockNumberArg rx bc v =
     (case v of
        JStr t \<Rightarrow>
          (let s = TrimSpace t
           in if HasPrefix s ''0x'' \<or> HasPrefix s ''0X'' then
                (case ParseHexInt (drop 2 s) of
                   (n, None) \<Rightarrow> Inr n | (_, Some _) \<Rightarrow> Inl ''invalid hex block number'')
              else if s = ''latest'' then Inr (HeadBlockNumber rx bc)
              else (case ParseInt s of
                      (n, None) \<Rightarrow> Inr n | (_, Some _) \<Rightarrow> Inl ''invalid block number''))
      | JNum n \<Rightarrow> Inr n
      | _ \<Rightarrow> Inl ''invalid block number type'')"

definition rpcGetBlockByNumber :: "rocks \<Rightarrow> 'c Blockchain \<Rightarrow> json option \<Rightarrow> jsonRPCError + json" where
  "rpcGetBlockByNumber rx bc params =
     (case rpc_args params of
        [] \<Rightarrow> Inl (rpc_error (-32602) ''block number required'')
      | v # _ \<Rightarrow>
          (case parseBlockNumberArg rx bc v of
             Inl e \<Rightarrow> Inl (rpc_error (-32602) e)
           | Inr n \<Rightarrow> (case GetBlockByNumber rx bc n of None \<Rightarrow> Inr JNull | Some b \<Rightarrow> Inr (blockToRPC b))))"

definition bare_hash :: "string \<Rightarrow> string" where
  "bare_hash h = TrimPrefix (ToLower h) ''0x''"

definition rpcGetBlockByHash :: "rocks \<Rightarrow> 'c Blockchain \<Rightarrow> json option \<Rightarrow> jsonRPCError + json" where
  "rpcGetBlockByHash rx bc params =
     (case rpc_args params of
        [] \<Rightarrow> Inl (rpc_error (-32602) ''block hash required'')
      | v # _ \<Rightarrow>
          (case find (\<lambda>b. bare_hash (bBlockHash b) = bare_hash (string_arg v)) (GetBlockHistory rx bc) of
             Some b \<Rightarrow> Inr (blockToRPC b)
           | None \<Rightarrow> Inr JNull))"

definition rpcGetTransactionByHash ::
  "rocks \<Rightarrow> 'c Blockchain \<Rightarrow> json option \<Rightarrow> (jsonRPCError + json) \<times> 'c Blockchain" where
  "rpcGetTransactionByHash rx bc params =
     (case rpc_args params of
        [] \<Rightarrow> (Inl (rpc_error (-32602) ''tx hash required''), bc)
      | v # _ \<Rightarrow>
          (case GetTransaction rx bc (string_arg v) of
             (None, bc1) \<Rightarrow> (Inr JNull, bc1)
           | (Some tx, bc1) \<Rightarrow> (Inr (txToRPC tx), bc1)))"

definition rpcGetBlockTxCount :: "rocks \<Rightarrow> 'c Blockchain \<Rightarrow> json option \<Rightarrow> jsonRPCError + json" where
  "rpcGetBlockTxCount rx bc params =
     (case rpc_args params of
        [] \<Rightarrow> Inl (rpc_error (-32602) ''block number required'')
      | v # _ \<Rightarrow>
          (case parseBlockNumberArg rx bc v of
             Inl e \<Rightarrow> Inl (rpc_error (-32602) e)
           | Inr n \<Rightarrow>
               (case GetBlockByNumber rx bc n of
                  None \<Rightarrow> Inr (JStr ''0x0'')
                | Some b \<Rightarrow> Inr (JStr (quantity (int (length (bTxHashes b))))))))"

text \<open>The answer to \<open>getBalance\<close>, an inlined case of the dispatcher. \<open>query\<close> is \<open>GetAccountQuery\<close> on the node's ledger.\<close>

definition rpc_balance :: "(string \<Rightarrow> AccountQuery option) \<Rightarrow> json option \<Rightarrow> jsonRPCError + json" where
  "rpc_balance query params =
     (case rpc_args params of
        [] \<Rightarrow> Inl (rpc_error (-32602) ''address required'')
      | v # _ \<Rightarrow>
          (case query (string_arg v) of
             None \<Rightarrow> Inl \<lparr>reCode = -32000, reMessage = LedgerError\<rparr>
           | Some account \<Rightarrow>
               (case ParseUint (aqBalance account) of
                  (bal, None) \<Rightarrow> Inr (JStr (quantity (uint bal)))
                | (_, Some _) \<Rightarrow> Inl (rpc_error (-32000) ''invalid balance''))))"

definition dispatchChainRPC ::
  "(string \<Rightarrow> AccountQuery option) \<Rightarrow> rocks \<Rightarrow> 'c Blockchain \<Rightarrow> string \<Rightarrow> json option
   \<Rightarrow> (jsonRPCError + json) \<times> 'c Blockchain" where
  "dispatchChainRPC query rx bc meth params =
     (if meth \<in> {''platarium_chainId'', ''eth_chainId''} then (Inr (JStr platariumChainID), bc)
      else if meth \<in> {''platarium_net_version'', ''net_version''} then (Inr (JStr ''7070''), bc)
      else if meth \<in> {''platarium_blockNumber'', ''eth_blockNumber''} then
        (let head = HeadBlockNumber rx bc
         in (Inr (JStr (if head < 0 then ''0x0'' else quantity head)), bc))
      else if meth \<in> {''platarium_getBalance'', ''eth_getBalance''} then (rpc_balance query params, bc)
      else if meth \<in> {''platarium_getBlockByNumber'', ''eth_getBlockByNumber''} then
        (rpcGetBlockByNumber rx bc params, bc)
      else if meth \<in> {''platarium_getBlockByHash'', ''eth_getBlockByHash''} then (rpcGetBlockByHash rx bc params, bc)
      else if meth \<in> {''platarium_getTransactionByHash'', ''eth_getTransactionByHash''} then
        rpcGetTransactionByHash rx bc params
      else if meth = ''platarium_getBlockTransactionCountByNumber'' then (rpcGetBlockTxCount rx bc params, bc)
      else (Inl (rpc_error (-32601) (''method not found: '' @ meth)), bc))"

text \<open>What the client of \<open>POST /rpc/v1\<close> gets: status 405, or 200 with a response.\<close>

datatype rpc_answer = MethodNotAllowed | Answer jsonRPCResponse

datatype rpc_body = BodyUnreadable | BodyInvalid | Body jsonRPCRequest

definition ChainRPC ::
  "(string \<Rightarrow> AccountQuery option) \<Rightarrow> rocks \<Rightarrow> 'c Blockchain \<Rightarrow> string \<Rightarrow> rpc_body \<Rightarrow> rpc_answer \<times> 'c Blockchain" where
  "ChainRPC query rx bc http_method body =
     (if http_method \<noteq> ''POST'' then (MethodNotAllowed, bc)
      else case body of
          BodyUnreadable \<Rightarrow> (Answer (writeJSONRPCError JNull (-32700) ''failed to read body''), bc)
        | BodyInvalid \<Rightarrow> (Answer (writeJSONRPCError JNull (-32700) ''parse error''), bc)
        | Body req \<Rightarrow>
            (if rqJSONRPC req \<noteq> [] \<and> rqJSONRPC req \<noteq> ''2.0''
             then (Answer (writeJSONRPCError (rqID req) (-32600) ''invalid jsonrpc version''), bc)
             else case dispatchChainRPC query rx bc (rqMethod req) (rqParams req) of
                 (Inl e, bc1) \<Rightarrow> (Answer (writeJSONRPC (rqID req) JNull (Some e)), bc1)
               | (Inr r, bc1) \<Rightarrow> (Answer (writeJSONRPC (rqID req) r None), bc1)))"

subsection \<open>Writing and reading a quantity\<close>

lemma ParseHex_loop_append:
  assumes "ParseHex_loop n s = (m, None)"
  shows "ParseHex_loop n (s @ t) = ParseHex_loop m t"
  using assms by (induction n s rule: ParseHex_loop.induct) (auto split: if_splits option.splits)

lemma ParseHex_loop_hex_of: "n < 2 ^ 64 \<Longrightarrow> ParseHex_loop 0 (hex_of n) = (n, None)"
proof (induction n rule: hex_of.induct)
  case (1 n)
  show ?case
  proof (cases "n < 16")
    case True
    then show ?thesis by (simp add: hex_of.simps [of n])
  next
    case False
    with 1 have "ParseHex_loop 0 (hex_of (n div 16)) = (n div 16, None)" by simp
    from ParseHex_loop_append [OF this, of "[hex_char (n mod 16)]"] False 1
    show ?thesis by (simp add: hex_of.simps [of n])
  qed
qed

lemma hex_of_nonempty [simp]: "hex_of n \<noteq> []"
  by (subst hex_of.simps) simp

lemma hex_of_digits: "c \<in> set (hex_of n) \<Longrightarrow> is_lower_hex c"
proof (induction n rule: hex_of.induct)
  case (1 n)
  then show ?case by (subst (asm) (2) hex_of.simps) (auto simp: is_lower_hex_char split: if_splits)
qed

lemma hex_of_hd: "is_lower_hex (hd (hex_of n))"
  by (rule hex_of_digits) (rule hd_in_set, simp)

lemma hex_of_no_sign: "code (hd (hex_of n)) \<noteq> 45" "code (hd (hex_of n)) \<noteq> 43"
  using hex_of_hd [of n] by (auto simp: is_lower_hex_def is_digit_def)

lemma ParseHexUint_hex_of: "n < 2 ^ 64 \<Longrightarrow> ParseHexUint (hex_of n) = (of_nat n, None)"
  by (simp add: ParseHexUint_def ParseHex_loop_hex_of)

lemma uint_of_nat_small: "k < 2 ^ 64 \<Longrightarrow> uint (of_nat k :: u64) = int k"
  by (simp add: unsigned_of_nat take_bit_nat_eq_self)

lemma sign_codes: "code CHR ''0'' = 48" "code CHR ''-'' = 45"
  by code_simp+

lemma ParseHexInt_quantity:
  assumes "- (2 ^ 63) \<le> n" "n < 2 ^ 63"
  shows "ParseHexInt (drop 2 (quantity n)) = (n, None)"
proof (cases "n < 0")
  case True
  have u: "uint (of_nat (nat (- n)) :: u64) = - n"
    using assms True by (subst uint_of_nat_small) simp_all
  have "ParseHexUint (hex_of (nat (- n))) = (of_nat (nat (- n)), None)"
    by (rule ParseHexUint_hex_of) (use assms in simp)
  with True u assms show ?thesis
    by (simp add: quantity_def ParseHexInt_def apply_sign_def sign_codes Let_def)
next
  case False
  have u: "uint (of_nat (nat n) :: u64) = n"
    using assms False by (subst uint_of_nat_small) simp_all
  have "ParseHexUint (hex_of (nat n)) = (of_nat (nat n), None)"
    by (rule ParseHexUint_hex_of) (use assms in simp)
  with False u assms hex_of_no_sign [of "nat n"] show ?thesis
    by (simp add: quantity_def ParseHexInt_def apply_sign_def Let_def)
qed

lemma TrimSpace_quantity [simp]: "TrimSpace (quantity n) = quantity n"
proof (rule TrimSpace_trimmed)
  have "is_lower_hex (last (hex_of (nat \<bar>n\<bar>)))" by (rule hex_of_digits [OF last_in_set]) simp
  then have "\<not> is_space (last (quantity n))" by (simp add: quantity_def is_space_not_hex)
  then show "trimmed (quantity n)" by (simp add: trimmed_def quantity_def is_space_def sign_codes)
qed

lemma parseBlockNumberArg_quantity:
  assumes "- (2 ^ 63) \<le> n" "n < 2 ^ 63"
  shows "parseBlockNumberArg rx bc (JStr (quantity n)) = Inr n"
proof -
  have "HasPrefix (quantity n) ''0x''" by (simp add: HasPrefix_def quantity_def)
  with ParseHexInt_quantity [OF assms] show ?thesis by (simp add: parseBlockNumberArg_def)
qed

subsection \<open>What the interface serves\<close>

lemma GetBlockHistory_served:
  assumes "blockHistory bc \<noteq> []" "b \<in> set (GetBlockHistory rx bc)"
  shows "b \<in> set (blockHistory bc)" "headBlockNumberFromRocks rx = Some h \<Longrightarrow> bBlockNumber b \<le> h"
  using assms by (auto simp: GetBlockHistory_def FreezeBlockHistory_def Let_def split: option.splits if_splits)

lemma GetBlockByNumber_history:
  assumes "distinct (map bBlockNumber (blockHistory bc))" "blockHistory bc \<noteq> []" "b \<in> set (GetBlockHistory rx bc)"
  shows "GetBlockByNumber rx bc (bBlockNumber b) = Some b"
proof -
  have "find (\<lambda>y. bBlockNumber y = bBlockNumber b) (blockHistory bc) = Some b"
    using assms(1) GetBlockHistory_served(1) [OF assms(2,3)] by (rule find_distinct)
  with GetBlockHistory_served(2) [OF assms(2,3)] show ?thesis
    by (auto simp: GetBlockByNumber_def split: option.splits)
qed

lemma find_Some_bex: "x \<in> set xs \<Longrightarrow> P x \<Longrightarrow> \<exists>y \<in> set xs. P y \<and> find P xs = Some y"
  by (induction xs) auto

text \<open>Blocks listed from RocksDB are read back by height. The two facts about RocksDB: the row at a height carries that height, and the
  head is below \<open>2 ^ 63\<close>.\<close>

definition rocks_by_height :: "rocks \<Rightarrow> bool" where
  "rocks_by_height rx \<longleftrightarrow>
     (\<forall>h st. rxBlock rx h = Some st \<longrightarrow> rbHeight st = h) \<and> (\<forall>head. rxHead rx = Some head \<longrightarrow> uint head < 2 ^ 63)"

lemma rocks_heights_small:
  assumes "h \<in> set (rocks_heights head)" "uint head < 2 ^ 63"
  shows "uint h < 2 ^ 63"
proof -
  obtain k where k: "h = of_nat k" "k \<le> unat head" using assms(1) by (auto simp: rocks_heights_def)
  have "unat h \<le> k" unfolding k(1) unat_of_nat by (rule mod_less_eq_dividend)
  then have "h \<le> head" using k(2) unfolding word_le_nat_alt by (rule order_trans)
  then show ?thesis using assms(2) unfolding word_le_def by (rule le_less_trans)
qed

lemma GetBlockByNumber_rocks:
  assumes rx: "rocks_by_height rx" and "blockHistory bc = []" "b \<in> set (GetBlockHistory rx bc)"
  shows "GetBlockByNumber rx bc (bBlockNumber b) = Some b"
proof -
  have sub: "\<not> (case headBlockNumberFromRocks rx of Some rocksHead \<Rightarrow> bBlockNumber b > rocksHead | None \<Rightarrow> False)"
    "rxEnabled rx" "\<exists>bs. listBlockHistoryFromRocks rx = Some bs \<and> b \<in> set bs"
    using assms(2,3) by (cases "listBlockHistoryFromRocks rx"; cases "headBlockNumberFromRocks rx";
        auto simp: GetBlockHistory_def FreezeBlockHistory_def Let_def split: if_splits)+
  then obtain head h st where h: "rxHead rx = Some head" "h \<in> set (rocks_heights head)" "rxBlock rx h = Some st" "b = blockRecordFromRocks st"
    by (fastforce simp: listBlockHistoryFromRocks_def List.map_filter_def split: option.splits)
  then have "rbHeight st = h" "uint h < 2 ^ 63" using rx rocks_heights_small by (auto simp: rocks_by_height_def)
  then have "GatewayBlockToRocksHeight (bBlockNumber b) = h"
    using rocks_height_roundtrip [of 0 h] by (simp add: h(4) blockRecordFromRocks_def)
  then have "getBlockFromRocks rx (bBlockNumber b) = Some b" using sub(2) h(3,4) by (simp add: getBlockFromRocks_def)
  then show ?thesis using sub(1,2) assms(2) unfolding GetBlockByNumber_def by (simp only: if_False find.simps if_True option.case)
qed

text \<open>C36: the JSON-RPC interface serves the history the node lists, from memory and from RocksDB. Let the blocks in memory have
  different numbers or, when there are none, let RocksDB hold at each height a block of that height, with a head below \<open>2 ^ 63\<close>. Then a listed block whose number is an
  \<open>int64\<close> is returned when a client asks for the quantity the interface itself prints as its number, the count of its transactions
  is right, and a request for its hash in any case and with or without the prefix returns a listed block with that hash.\<close>

theorem rpc_serves_history:
  assumes "if blockHistory bc = [] then rocks_by_height rx else distinct (map bBlockNumber (blockHistory bc))"
    and "b \<in> set (GetBlockHistory rx bc)" "- (2 ^ 63) \<le> bBlockNumber b" "bBlockNumber b < 2 ^ 63"
    and "bare_hash h = bare_hash (bBlockHash b)"
  shows "dispatchChainRPC query rx bc ''platarium_getBlockByNumber'' (Some (JArr [JStr (quantity (bBlockNumber b))]))
           = (Inr (blockToRPC b), bc) \<and>
         dispatchChainRPC query rx bc ''platarium_getBlockTransactionCountByNumber''
           (Some (JArr [JStr (quantity (bBlockNumber b))])) = (Inr (JStr (quantity (int (length (bTxHashes b))))), bc) \<and>
         (\<exists>b' \<in> set (GetBlockHistory rx bc). bare_hash (bBlockHash b') = bare_hash h \<and>
            dispatchChainRPC query rx bc ''platarium_getBlockByHash'' (Some (JArr [JStr h])) = (Inr (blockToRPC b'), bc))"
proof (intro conjI)
  have "GetBlockByNumber rx bc (bBlockNumber b) = Some b"
    using GetBlockByNumber_history [of bc b rx] GetBlockByNumber_rocks [of rx bc b] assms(1,2) by (cases "blockHistory bc = []") simp_all
  note served = this parseBlockNumberArg_quantity [OF assms(3,4), of rx bc]
  show "dispatchChainRPC query rx bc ''platarium_getBlockByNumber'' (Some (JArr [JStr (quantity (bBlockNumber b))]))
          = (Inr (blockToRPC b), bc)"
    by (simp add: dispatchChainRPC_def rpcGetBlockByNumber_def rpc_args_def served)
  show "dispatchChainRPC query rx bc ''platarium_getBlockTransactionCountByNumber''
          (Some (JArr [JStr (quantity (bBlockNumber b))])) = (Inr (JStr (quantity (int (length (bTxHashes b))))), bc)"
    by (simp add: dispatchChainRPC_def rpcGetBlockTxCount_def rpc_args_def served)
  obtain b' where b': "b' \<in> set (GetBlockHistory rx bc)" "bare_hash (bBlockHash b') = bare_hash h"
      "find (\<lambda>y. bare_hash (bBlockHash y) = bare_hash h) (GetBlockHistory rx bc) = Some b'"
    using find_Some_bex [OF assms(2), of "\<lambda>y. bare_hash (bBlockHash y) = bare_hash h"] assms(5) by auto
  then have "dispatchChainRPC query rx bc ''platarium_getBlockByHash'' (Some (JArr [JStr h])) = (Inr (blockToRPC b'), bc)"
    by (simp add: dispatchChainRPC_def rpcGetBlockByHash_def rpc_args_def string_arg_def)
  with b'(1,2) show "\<exists>b' \<in> set (GetBlockHistory rx bc). bare_hash (bBlockHash b') = bare_hash h \<and>
      dispatchChainRPC query rx bc ''platarium_getBlockByHash'' (Some (JArr [JStr h])) = (Inr (blockToRPC b'), bc)"
    by blast
qed

definition no_rocks :: rocks where
  "no_rocks = \<lparr>rxEnabled = False, rxHead = None, rxBlock = (\<lambda>_. None), rxTx = (\<lambda>_. None), rxAddressTxs = (\<lambda>_. None),
     rxProbe = None\<rparr>"

definition rpc_chain :: "nat Blockchain" where
  "rpc_chain = (NewBlockchain 0)\<lparr>blockHistory := [block0, block0\<lparr>bBlockNumber := 16, bBlockHash := ''ab'', bTxHashes := [''h1'']\<rparr>]\<rparr>"

text \<open>A store with one block, at height 17.\<close>

definition one_block_rocks :: rocks where
  "one_block_rocks = no_rocks\<lparr>rxEnabled := True, rxHead := Some 17,
     rxBlock := (\<lambda>h. if h = 17 then Some \<lparr>rbHeight = 17, rbPreviousHash = [], rbTimestamp = 3, rbTxHashes = [''h1''], rbMerkleRoot = [],
       rbStateRoot = [], rbBlockHash = ''ab'', rbProducerID = []\<rparr> else None)\<rparr>"

theorem rpc_serves_history_witness:
  "(\<exists>b. dispatchChainRPC (\<lambda>_. None) one_block_rocks (NewBlockchain (0 :: nat)) ''platarium_getBlockByNumber'' (Some (JArr [JStr ''0x10'']))
        = (Inr (blockToRPC b), NewBlockchain 0) \<and> bBlockHash b = ''ab'') \<and>
   (\<exists>b' \<in> set (GetBlockHistory no_rocks rpc_chain). bare_hash (bBlockHash b') = ''ab'' \<and>
        dispatchChainRPC (\<lambda>_. None) no_rocks rpc_chain ''platarium_getBlockByHash'' (Some (JArr [JStr ''0xAB'']))
          = (Inr (blockToRPC b'), rpc_chain))"
proof
  have q: "quantity 16 = ''0x10''" and h: "bare_hash ''0xAB'' = ''ab''" "bare_hash ''ab'' = ''ab''" by code_simp+
  let ?n = "NewBlockchain (0 :: nat)"
  let ?b = "blockRecordFromRocks (the (rxBlock one_block_rocks 17))"
  have empty: "blockHistory ?n = []" by (simp add: NewBlockchain_def)
  have s17: "sint (17 :: u64) = 17" by code_simp
  have b: "bBlockNumber ?b = 16" "bBlockHash ?b = ''ab''"
    by (simp_all add: one_block_rocks_def blockRecordFromRocks_def RocksHeightToGatewayBlock_def s17 in_i64_def)
  have keyed: "rocks_by_height one_block_rocks" by (simp add: rocks_by_height_def one_block_rocks_def)
  have "17 \<in> set (rocks_heights 17)" by code_simp
  then have "\<exists>bs. listBlockHistoryFromRocks one_block_rocks = Some bs \<and> ?b \<in> set bs"
    by (force simp: listBlockHistoryFromRocks_def one_block_rocks_def List.map_filter_def)
  moreover have "headBlockNumberFromRocks one_block_rocks = Some 16" "rxEnabled one_block_rocks"
    by (simp_all add: headBlockNumberFromRocks_def one_block_rocks_def no_rocks_def RocksHeightToGatewayBlock_def s17 in_i64_def)
  ultimately have "?b \<in> set (GetBlockHistory one_block_rocks ?n)"
    using b(1) by (auto simp: GetBlockHistory_def FreezeBlockHistory_def empty)
  then have "dispatchChainRPC (\<lambda>_. None) one_block_rocks ?n ''platarium_getBlockByNumber'' (Some (JArr [JStr (quantity (bBlockNumber ?b))]))
      = (Inr (blockToRPC ?b), ?n)"
    using rpc_serves_history [of ?n one_block_rocks ?b "bBlockHash ?b" "\<lambda>_. None"] keyed empty b(1) by simp
  then show "\<exists>b. dispatchChainRPC (\<lambda>_. None) one_block_rocks ?n ''platarium_getBlockByNumber'' (Some (JArr [JStr ''0x10'']))
      = (Inr (blockToRPC b), ?n) \<and> bBlockHash b = ''ab''"
    using b(2) unfolding b(1) q by blast
  let ?c = "block0\<lparr>bBlockNumber := 16, bBlockHash := ''ab'', bTxHashes := [''h1'']\<rparr>"
  have history: "GetBlockHistory no_rocks rpc_chain = blockHistory rpc_chain"
    by (simp add: GetBlockHistory_def no_rocks_def headBlockNumberFromRocks_def)
  have chain: "if blockHistory rpc_chain = [] then rocks_by_height no_rocks else distinct (map bBlockNumber (blockHistory rpc_chain))"
      "?c \<in> set (GetBlockHistory no_rocks rpc_chain)"
    unfolding history by (simp_all add: rpc_chain_def block0_def)
  have "bare_hash ''0xAB'' = bare_hash (bBlockHash ?c)" by (simp add: h)
  from rpc_serves_history [OF chain _ _ this, of "\<lambda>_. None"]
  show "\<exists>b' \<in> set (GetBlockHistory no_rocks rpc_chain). bare_hash (bBlockHash b') = ''ab'' \<and>
      dispatchChainRPC (\<lambda>_. None) no_rocks rpc_chain ''platarium_getBlockByHash'' (Some (JArr [JStr ''0xAB'']))
        = (Inr (blockToRPC b'), rpc_chain)" by (simp add: h)
qed

text \<open>Remark: A request to the interface never touches the blocks, the mempool or the pending block.\<close>

lemma GetTransaction_keeps:
  assumes "GetTransaction rx bc h = (r, bc1)"
  shows "blockHistory bc1 = blockHistory bc \<and> mempool bc1 = mempool bc \<and> pendingBlock bc1 = pendingBlock bc"
  using assms by (auto simp: GetTransaction_def Let_def split: option.splits)

lemma dispatchChainRPC_keeps:
  assumes "dispatchChainRPC query rx bc meth params = (r, bc1)"
  shows "blockHistory bc1 = blockHistory bc \<and> mempool bc1 = mempool bc \<and> pendingBlock bc1 = pendingBlock bc"
  using assms GetTransaction_keeps [of rx bc]
  by (auto simp: dispatchChainRPC_def rpcGetTransactionByHash_def Let_def split: if_splits list.splits option.splits prod.splits)

theorem rpc_reads_only:
  "blockHistory (snd (ChainRPC query rx bc m body)) = blockHistory bc \<and>
   mempool (snd (ChainRPC query rx bc m body)) = mempool bc \<and>
   pendingBlock (snd (ChainRPC query rx bc m body)) = pendingBlock bc"
  using dispatchChainRPC_keeps [of query rx bc] by (auto simp: ChainRPC_def split: rpc_body.splits prod.splits sum.splits)

text \<open>Remark: The interface prints the balance of the ledger when the ledger answers, and the one of RocksDB otherwise; an address that RocksDB does
  not know has the balance 0.\<close>

theorem rpc_balance_source:
  assumes "led" "query a = None" "get a = Some acct"
    and "ParseUint (case acct of None \<Rightarrow> ''0'' | Some r \<Rightarrow> raBalance r) = (bal, None)"
  shows "rpc_balance (GetAccountQuery led query (Some (getAccountFromRocks True get))) (Some (JArr [JStr a]))
         = Inr (JStr (quantity (uint bal)))"
  using assms by (cases acct) (simp_all add: rpc_balance_def rpc_args_def string_arg_def GetAccountQuery_def getAccountFromRocks_def)

text \<open>Remark: The answer for a block the node does not have carries neither a result nor an error.\<close>

theorem rpc_absent_block_empty:
  assumes "GetBlockByNumber rx bc n = None" "- (2 ^ 63) \<le> n" "n < 2 ^ 63"
  shows "fst (ChainRPC query rx bc ''POST'' (Body \<lparr>rqJSONRPC = ''2.0'', rqID = i,
           rqMethod = ''platarium_getBlockByNumber'', rqParams = Some (JArr [JStr (quantity n)])\<rparr>))
         = Answer \<lparr>rsID = i, rsResult = None, rsError = None\<rparr>"
  using assms parseBlockNumberArg_quantity [OF assms(2,3), of rx bc]
  by (simp add: ChainRPC_def dispatchChainRPC_def rpcGetBlockByNumber_def rpc_args_def writeJSONRPC_def)

end
