(* ===== verification/Channel_Identity.thy ===== *)
theory Channel_Identity
  imports Go_Strings "HOL-Library.AList" "HOL-Library.Multiset"
begin

text \<open>
  The registry of channel identities: the store with its file, \<^verbatim>\<open>internal/channelidentity/store.go\<close>, and the two
  HTTP handlers in front of it, \<^verbatim>\<open>internal/handlers/handlers_channel_identity.go\<close>.

  The file is the list of records that was encoded into it. It is written in the order in which Go ranges over the map
  of the store, which is an argument. A write that fails may leave anything in the file.
\<close>

record Record =
  ciAddress :: string
  ciOwnerAddress :: string
  ciName :: string
  ciKind :: string
  ciCreatedAt :: int

datatype channel_file = CfMissing | CfReadError | CfBadJSON | CfChannels "Record list"

record Store =
  stFile :: channel_file
  stByID :: "(string \<times> Record) list"

datatype channel_error = ChannelRead | ChannelParse

subsection \<open>Canonical addresses\<close>

definition CanonPx :: "string \<Rightarrow> string" where
  "CanonPx addr =
     (let v = TrimSpace addr
      in if length v < 4 then []
         else if HasPrefix v ''Px'' \<or> HasPrefix v ''px'' \<or> HasPrefix v ''PX'' then
           (let hex = ToLower (drop 2 v)
            in if \<not> list_all is_lower_hex hex then []
               else if length hex < 8 then []
               else ''Px'' @ hex)
         else [])"

subsection \<open>The store\<close>

definition load_record :: "(string \<times> Record) list \<Rightarrow> Record \<Rightarrow> (string \<times> Record) list" where
  "load_record m rec =
     (let i = CanonPx (ciAddress rec)
      in if i = [] then m
         else AList.update i (rec\<lparr>ciAddress := i, ciOwnerAddress := CanonPx (ciOwnerAddress rec),
                ciKind := (if ciKind rec = [] then ''channel'' else ciKind rec)\<rparr>) m)"

definition NewStore_channel :: "channel_file \<Rightarrow> channel_error + Store" where
  "NewStore_channel f =
     (case f of
        CfMissing \<Rightarrow> Inr \<lparr>stFile = f, stByID = []\<rparr>
      | CfReadError \<Rightarrow> Inl ChannelRead
      | CfBadJSON \<Rightarrow> Inl ChannelParse
      | CfChannels recs \<Rightarrow> Inr \<lparr>stFile = f, stByID = foldl load_record [] recs\<rparr>)"

definition Get :: "Store \<Rightarrow> string \<Rightarrow> Record option" where
  "Get s address = map_of (stByID s) (CanonPx address)"

text \<open>The outcome of a write: the directory cannot be made, the file cannot be written (with what is left of it), or
  success.\<close>

datatype write_result = DirFails | WriteFails channel_file | WriteOk

definition saveLocked :: "(Record list \<Rightarrow> Record list) \<Rightarrow> write_result \<Rightarrow> Store \<Rightarrow> Store" where
  "saveLocked order io s =
     (case io of
        DirFails \<Rightarrow> s
      | WriteFails f \<Rightarrow> s\<lparr>stFile := f\<rparr>
      | WriteOk \<Rightarrow> s\<lparr>stFile := CfChannels (order (map snd (stByID s)))\<rparr>)"

definition Put :: "(Record list \<Rightarrow> Record list) \<Rightarrow> write_result \<Rightarrow> int \<Rightarrow> Record \<Rightarrow> Store \<Rightarrow> Record \<times> Store" where
  "Put order io now rec0 s =
     (let addr = CanonPx (ciAddress rec0);
          rec1 = rec0\<lparr>ciAddress := addr, ciOwnerAddress := CanonPx (ciOwnerAddress rec0),
                      ciKind := (if ciKind rec0 = [] then ''channel'' else ciKind rec0),
                      ciCreatedAt := (if ciCreatedAt rec0 = 0 then now else ciCreatedAt rec0)\<rparr>;
          rec2 = (case map_of (stByID s) addr of
                    Some existing \<Rightarrow>
                      (if ciCreatedAt existing > 0 then rec1\<lparr>ciCreatedAt := ciCreatedAt existing\<rparr> else rec1)
                  | None \<Rightarrow> rec1)
      in (rec2, saveLocked order io (s\<lparr>stByID := AList.update addr rec2 (stByID s)\<rparr>)))"

subsection \<open>The handlers\<close>

text \<open>A node whose store could not be opened has none and answers 503.\<close>

definition ensureChannelIdentity :: "channel_file \<Rightarrow> Store option" where
  "ensureChannelIdentity f = (case NewStore_channel f of Inl _ \<Rightarrow> None | Inr s \<Rightarrow> Some s)"

datatype channel_answer = ChUnavailable | ChInvalidJSON | ChForbidden | ChNotFound | ChOK Record | ChCreated Record

definition GetChannelIdentity :: "Store option \<Rightarrow> string \<Rightarrow> channel_answer" where
  "GetChannelIdentity st address =
     (case st of
        None \<Rightarrow> ChUnavailable
      | Some s \<Rightarrow> (case Get s (TrimSpace address) of None \<Rightarrow> ChNotFound | Some rec \<Rightarrow> ChOK rec))"

record channel_put_request =
  prWallet :: string
  prBody :: "Record option"
  prNow :: int
  prWrite :: write_result

definition PutChannelIdentity ::
  "(Record list \<Rightarrow> Record list) \<Rightarrow> Store option \<Rightarrow> channel_put_request \<Rightarrow> channel_answer \<times> Store option" where
  "PutChannelIdentity order st req =
     (case st of
        None \<Rightarrow> (ChUnavailable, st)
      | Some s \<Rightarrow>
          (case prBody req of
             None \<Rightarrow> (ChInvalidJSON, st)
           | Some body \<Rightarrow>
               (let wallet = CanonPx (prWallet req);
                    owner = CanonPx (ciOwnerAddress body);
                    addr = CanonPx (ciAddress body)
                in if wallet = [] \<or> owner = [] \<or> addr = [] \<or> wallet \<noteq> owner then (ChForbidden, st)
                   else case Put order (prWrite req) (prNow req) (body\<lparr>ciAddress := addr, ciOwnerAddress := owner\<rparr>) s of
                       (saved, s1) \<Rightarrow> (ChCreated saved, Some s1))))"

subsection \<open>Canonical addresses are canonical\<close>

lemma CanonPx_shape:
  obtains "CanonPx a = []"
  | hex where "CanonPx a = ''Px'' @ hex" "list_all is_lower_hex hex" "8 \<le> length hex"
proof -
  have "CanonPx a = [] \<or> (\<exists>hex. CanonPx a = ''Px'' @ hex \<and> list_all is_lower_hex hex \<and> 8 \<le> length hex)"
    unfolding CanonPx_def Let_def by auto
  then show thesis using that by blast
qed

lemma CanonPx_canonical:
  assumes "list_all is_lower_hex hex" "8 \<le> length hex"
  shows "CanonPx (''Px'' @ hex) = ''Px'' @ hex"
proof -
  have "hex \<noteq> []" using assms(2) by auto
  then have "is_lower_hex (last hex)" using assms(1) last_in_set by (auto simp: list_all_iff)
  then have "trimmed (''Px'' @ hex)"
    using \<open>hex \<noteq> []\<close> by (simp add: trimmed_def is_space_not_hex) (code_simp)
  then have "TrimSpace (''Px'' @ hex) = ''Px'' @ hex" by (rule TrimSpace_trimmed)
  with assms show ?thesis by (simp add: CanonPx_def HasPrefix_def)
qed

lemma CanonPx_Nil [simp]: "CanonPx [] = []"
  by code_simp

lemma CanonPx_idem [simp]: "CanonPx (CanonPx a) = CanonPx a"
  by (cases rule: CanonPx_shape [of a]) (simp_all only: CanonPx_canonical CanonPx_Nil)

lemma CanonPx_TrimSpace [simp]: "CanonPx (TrimSpace a) = CanonPx a"
  by (simp add: CanonPx_def)

subsection \<open>The invariant of the registry\<close>

definition rec_ok :: "string \<Rightarrow> Record \<Rightarrow> bool" where
  "rec_ok k r \<longleftrightarrow> k \<noteq> [] \<and> ciAddress r = k \<and> CanonPx k = k \<and> CanonPx (ciOwnerAddress r) = ciOwnerAddress r \<and> ciKind r \<noteq> []"

definition registry_inv :: "Store \<Rightarrow> bool" where
  "registry_inv s \<longleftrightarrow> distinct (map fst (stByID s)) \<and> list_all (\<lambda>(k, r). rec_ok k r) (stByID s)"

definition ids_ok :: "(string \<times> Record) list \<Rightarrow> bool" where
  "ids_ok m \<longleftrightarrow> distinct (map fst m) \<and> (\<forall>k r. map_of m k = Some r \<longrightarrow> rec_ok k r)"

lemma registry_inv_ids: "registry_inv s = ids_ok (stByID s)"
  unfolding registry_inv_def ids_ok_def list_all_iff
  by (metis (mono_tags, lifting) case_prodI2 case_prodD map_of_SomeD map_of_is_SomeI)

lemma ids_ok_Nil [simp]: "ids_ok []"
  by (simp add: ids_ok_def)

lemma ids_ok_update: "ids_ok m \<Longrightarrow> rec_ok k r \<Longrightarrow> ids_ok (AList.update k r m)"
  by (auto simp: ids_ok_def update_conv' distinct_update)

lemma load_record_ok: "ids_ok m \<Longrightarrow> ids_ok (load_record m r)"
  by (simp add: load_record_def Let_def ids_ok_update rec_ok_def)

lemma load_records_ok: "ids_ok m \<Longrightarrow> ids_ok (foldl load_record m rs)"
  by (induction rs arbitrary: m) (simp_all add: load_record_ok)

lemma NewStore_channel_inv: "NewStore_channel f = Inr s \<Longrightarrow> registry_inv s"
  by (auto simp: NewStore_channel_def registry_inv_ids load_records_ok split: channel_file.splits)

lemma saveLocked_ids [simp]: "stByID (saveLocked order io s) = stByID s"
  by (simp add: saveLocked_def split: write_result.splits)

lemma Put_inv:
  assumes "registry_inv s" "CanonPx (ciAddress r) \<noteq> []"
  shows "registry_inv (snd (Put order io now r s))"
  using assms by (simp add: registry_inv_ids Put_def Let_def ids_ok_update rec_ok_def split: option.splits)

definition put_step :: "(Record list \<Rightarrow> Record list) \<Rightarrow> Store option \<Rightarrow> channel_put_request \<Rightarrow> Store option" where
  "put_step order st req = snd (PutChannelIdentity order st req)"

lemma PutChannelIdentity_inv:
  assumes "registry_inv s"
  shows "\<exists>s'. snd (PutChannelIdentity order (Some s) req) = Some s' \<and> registry_inv s'"
proof (cases "prBody req")
  case None
  with assms show ?thesis by (simp add: PutChannelIdentity_def)
next
  case (Some body)
  let ?b = "body\<lparr>ciAddress := CanonPx (ciAddress body), ciOwnerAddress := CanonPx (ciOwnerAddress body)\<rparr>"
  have "CanonPx (ciAddress body) \<noteq> [] \<Longrightarrow> registry_inv (snd (Put order (prWrite req) (prNow req) ?b s))"
    by (rule Put_inv [OF assms]) simp
  with Some assms show ?thesis
    by (cases "Put order (prWrite req) (prNow req) ?b s") (simp add: PutChannelIdentity_def Let_def)
qed

lemma put_step_inv:
  assumes "registry_inv s"
  shows "\<exists>s'. put_step order (Some s) req = Some s' \<and> registry_inv s'"
  unfolding put_step_def using assms by (rule PutChannelIdentity_inv)

lemma put_run_inv:
  assumes "registry_inv s"
  shows "\<exists>s'. foldl (put_step order) (Some s) reqs = Some s' \<and> registry_inv s'"
  using assms
proof (induction reqs arbitrary: s)
  case (Cons r reqs)
  from put_step_inv [OF Cons.prems] obtain s1 where "put_step order (Some s) r = Some s1" "registry_inv s1" by blast
  with Cons.IH [of s1] show ?case by simp
qed simp

subsection \<open>Reading the file back\<close>

lemma load_record_stored:
  assumes "rec_ok k r"
  shows "load_record m r = AList.update k r m"
proof -
  have eq: "r\<lparr>ciAddress := CanonPx (ciAddress r), ciOwnerAddress := CanonPx (ciOwnerAddress r),
          ciKind := (if ciKind r = [] then ''channel'' else ciKind r)\<rparr> = r"
    using assms by (intro Record.equality) (simp_all add: rec_ok_def)
  have k: "CanonPx (ciAddress r) = k" "k \<noteq> []" using assms by (simp_all add: rec_ok_def)
  show ?thesis unfolding load_record_def Let_def eq by (simp only: k if_False)
qed

lemma load_records_stored:
  assumes "\<forall>r \<in> set rs. rec_ok (ciAddress r) r" "distinct (map ciAddress rs)"
  shows "map_of (foldl load_record m rs) k =
         (case find (\<lambda>r. ciAddress r = k) rs of Some r \<Rightarrow> Some r | None \<Rightarrow> map_of m k)"
  using assms
proof (induction rs arbitrary: m)
  case (Cons r rs)
  have *: "find (\<lambda>r'. ciAddress r' = ciAddress r) rs = None"
    using Cons.prems by (simp add: find_None_iff) (metis image_eqI)
  have "rec_ok (ciAddress r) r" using Cons.prems by simp
  then have "foldl load_record m (r # rs) = foldl load_record (AList.update (ciAddress r) r m) rs"
    by (simp add: load_record_stored)
  with Cons * show ?case by (auto simp: update_conv' split: option.splits)
qed simp

lemma find_address:
  assumes "ids_ok m" "mset rs = mset (map snd m)"
  shows "find (\<lambda>r. ciAddress r = k) rs = map_of m k" "distinct (map ciAddress rs)" "\<forall>r \<in> set rs. rec_ok (ciAddress r) r"
proof -
  have s: "set rs = snd ` set m" using assms(2) by (metis mset_eq_setD set_map)
  have in_m: "(ciAddress r, r) \<in> set m \<and> rec_ok (ciAddress r) r" if "r \<in> set rs" for r
  proof -
    from that s obtain k' where k': "(k', r) \<in> set m" by auto
    with assms(1) have "rec_ok k' r" by (simp add: ids_ok_def)
    with k' show ?thesis by (simp add: rec_ok_def)
  qed
  then show ok: "\<forall>r \<in> set rs. rec_ok (ciAddress r) r" by blast
  have keys: "map ciAddress (map snd m) = map fst m"
    using assms(1) by (auto simp: ids_ok_def rec_ok_def)
  have "mset (map ciAddress rs) = mset (map ciAddress (map snd m))"
    using assms(2) by (metis mset_map)
  then have "mset (map ciAddress rs) = mset (map fst m)" by (simp only: keys)
  with assms(1) show d: "distinct (map ciAddress rs)"
    by (metis ids_ok_def mset_eq_imp_distinct_iff)
  show "find (\<lambda>r. ciAddress r = k) rs = map_of m k"
  proof (cases "map_of m k")
    case None
    have "r \<in> set rs \<Longrightarrow> ciAddress r \<noteq> k" for r
      using in_m [of r] None by (metis map_of_eq_None_iff fst_conv image_eqI)
    with None show ?thesis by (simp add: find_None_iff)
  next
    case (Some r)
    then have r: "r \<in> set rs" using s map_of_SomeD by force
    from Some assms(1) have "ciAddress r = k" by (simp add: ids_ok_def rec_ok_def)
    with find_distinct [OF d r] Some show ?thesis by simp
  qed
qed

lemma reload_saved:
  assumes "registry_inv s" "mset (order (map snd (stByID s))) = mset (map snd (stByID s))"
  shows "\<exists>s2. NewStore_channel (stFile (saveLocked order WriteOk s)) = Inr s2 \<and> (\<forall>a. Get s2 a = Get s a)"
proof -
  let ?rs = "order (map snd (stByID s))"
  from assms(1) have ok: "ids_ok (stByID s)" by (simp add: registry_inv_ids)
  note f = find_address [OF ok assms(2)]
  have "map_of (foldl load_record [] ?rs) k = map_of (stByID s) k" for k
    using load_records_stored [OF f(3,2), of "[]" k] f(1) [of k] by (simp split: option.splits)
  then show ?thesis by (simp add: NewStore_channel_def saveLocked_def Get_def)
qed

text \<open>C37: an accepted channel record is durable. Whatever requests a node has answered since it opened its registry, after a request
  that it accepts and writes to disk completely (in whatever order the records are written): a client reads the record back under
  every spelling of the address with the same canonical form, every other channel reads as before, the owner is the wallet of
  the request, a channel that was known with a positive creation time keeps it (a stored time that is not positive
  is overwritten), and a node restarted on the file answers every address the same.\<close>

theorem channel_registry_durable:
  assumes "NewStore_channel f = Inr s0" "foldl (put_step order) (Some s0) reqs = Some s"
    and "PutChannelIdentity order (Some s) req = (ChCreated r, Some s1)" "prWrite req = WriteOk" "prBody req = Some body"
    and "mset (order (map snd (stByID s1))) = mset (map snd (stByID s1))"
  shows "(\<forall>a. GetChannelIdentity (Some s1) a =
            (if CanonPx a = CanonPx (ciAddress body) then ChOK r else GetChannelIdentity (Some s) a)) \<and>
         ciOwnerAddress r = CanonPx (prWallet req) \<and>
         (\<forall>e. GetChannelIdentity (Some s) (ciAddress body) = ChOK e \<longrightarrow> ciCreatedAt e > 0 \<longrightarrow> ciCreatedAt r = ciCreatedAt e) \<and>
         (\<exists>s2. NewStore_channel (stFile s1) = Inr s2 \<and> (\<forall>a. GetChannelIdentity (Some s2) a = GetChannelIdentity (Some s1) a))"
proof -
  let ?b = "body\<lparr>ciAddress := CanonPx (ciAddress body), ciOwnerAddress := CanonPx (ciOwnerAddress body)\<rparr>"
  have inv: "registry_inv s" using put_run_inv [OF NewStore_channel_inv [OF assms(1)], of order reqs] assms(2) by auto
  have put: "Put order WriteOk (prNow req) ?b s = (r, s1)" and addr: "CanonPx (ciAddress body) \<noteq> []"
    and own: "CanonPx (ciOwnerAddress body) = CanonPx (prWallet req)"
    using assms(3-5) by (auto simp: PutChannelIdentity_def Let_def split: if_splits prod.splits)
  have inv1: "registry_inv s1" using Put_inv [OF inv, of ?b] addr put by (metis CanonPx_idem Record.select_convs(1) Record.surjective Record.update_convs(1,2) snd_conv)
  have r: "r = fst (Put order WriteOk (prNow req) ?b s)" and s1: "s1 = snd (Put order WriteOk (prNow req) ?b s)"
    using put by simp_all
  have "Get s1 a = (if CanonPx a = CanonPx (ciAddress body) then Some r else Get s a)" for a
    unfolding r s1 by (simp add: Put_def Let_def Get_def update_conv')
  then have get: "GetChannelIdentity (Some s1) a =
      (if CanonPx a = CanonPx (ciAddress body) then ChOK r else GetChannelIdentity (Some s) a)" for a
    by (simp add: GetChannelIdentity_def)
  have owner: "ciOwnerAddress r = CanonPx (prWallet req)"
    unfolding r by (simp add: Put_def Let_def own split: option.splits)
  have created: "ciCreatedAt r = ciCreatedAt e" if "GetChannelIdentity (Some s) (ciAddress body) = ChOK e" "ciCreatedAt e > 0" for e
    using that unfolding r by (auto simp: GetChannelIdentity_def Put_def Let_def Get_def split: option.splits)
  obtain s' where "s1 = saveLocked order WriteOk s'" "stByID s' = stByID s1"
    unfolding s1 by (simp add: Put_def Let_def)
  moreover from this have "registry_inv s'" using inv1 by (simp add: registry_inv_ids)
  ultimately have "\<exists>s2. NewStore_channel (stFile s1) = Inr s2 \<and> (\<forall>a. Get s2 a = Get s1 a)"
    using reload_saved [of s' order] assms(6) by (simp add: Get_def)
  then have "\<exists>s2. NewStore_channel (stFile s1) = Inr s2 \<and> (\<forall>a. GetChannelIdentity (Some s2) a = GetChannelIdentity (Some s1) a)"
    by (auto simp: GetChannelIdentity_def)
  with get owner created show ?thesis by blast
qed

theorem channel_registry_durable_witness:
  "let body = \<lparr>ciAddress = ''px0123ABCD'', ciOwnerAddress = ''Px89abcdef'', ciName = ''news'', ciKind = [], ciCreatedAt = 0\<rparr>;
       req = \<lparr>prWallet = '' PX89ABCDEF '', prBody = Some body, prNow = 1700000000, prWrite = WriteOk\<rparr>
   in \<exists>r s1. PutChannelIdentity rev (Some \<lparr>stFile = CfMissing, stByID = []\<rparr>) req = (ChCreated r, Some s1) \<and>
        GetChannelIdentity (Some s1) '' PX0123abcd'' = ChOK r \<and> ciOwnerAddress r = ''Px89abcdef'' \<and>
        (\<exists>s2. NewStore_channel (stFile s1) = Inr s2 \<and> GetChannelIdentity (Some s2) ''Px0123ABCD'' = ChOK r)"
proof -
  let ?body = "\<lparr>ciAddress = ''px0123ABCD'', ciOwnerAddress = ''Px89abcdef'', ciName = ''news'', ciKind = [], ciCreatedAt = 0\<rparr>"
  let ?req = "\<lparr>prWallet = '' PX89ABCDEF '', prBody = Some ?body, prNow = 1700000000, prWrite = WriteOk\<rparr>"
  let ?s0 = "\<lparr>stFile = CfMissing, stByID = []\<rparr>"
  have canon: "CanonPx '' PX89ABCDEF '' = ''Px89abcdef''" "CanonPx ''Px89abcdef'' = ''Px89abcdef''"
      "CanonPx ''px0123ABCD'' = ''Px0123abcd''" "CanonPx '' PX0123abcd'' = ''Px0123abcd''" "CanonPx ''Px0123ABCD'' = ''Px0123abcd''" by code_simp+
  obtain r s1 where put: "PutChannelIdentity rev (Some ?s0) ?req = (ChCreated r, Some s1)"
    by (simp add: PutChannelIdentity_def canon Let_def case_prod_beta)
  have "NewStore_channel CfMissing = Inr ?s0" "foldl (put_step rev) (Some ?s0) [] = Some ?s0" by (simp_all add: NewStore_channel_def)
  from channel_registry_durable [OF this put, of ?body] put show ?thesis
    unfolding Let_def by (auto simp: canon)
qed

text \<open>Remark: The owner of a known channel is not consulted: a request that names another wallet in its header and its body
  takes the channel over.\<close>

theorem channel_takeover:
  assumes "Get s (ciAddress body) = Some e" "CanonPx (ciAddress body) \<noteq> []"
    and "CanonPx (ciOwnerAddress body) \<noteq> []" "prWallet req = ciOwnerAddress body" "prBody req = Some body"
  shows "\<exists>r s1. PutChannelIdentity order (Some s) req = (ChCreated r, Some s1) \<and>
           Get s1 (ciAddress body) = Some r \<and> ciOwnerAddress r = CanonPx (ciOwnerAddress body)"
  using assms by (simp add: PutChannelIdentity_def Let_def Put_def Get_def update_conv' split: prod.splits)

end
