(* ===== verification/Diagnostics.thy ===== *)
theory Diagnostics
  imports Explorer
begin

text \<open>
  The consistency diagnostic (\<^verbatim>\<open>internal/blockchain/consistency.go\<close>, \<^verbatim>\<open>internal/handlers/consistency.go\<close>) that compares
  the tips of Core's state file, RocksDB and the explorer, and the durability counters
  (\<^verbatim>\<open>internal/metrics/counters.go\<close>). The comparison itself, \<open>EvaluateLayerConsistency\<close>, is in Chain_Views.

  Core's answers and the file system are the fields of \<open>diag_env\<close>; \<open>Inl\<close> carries the text of an error. The fixed explanatory
  texts of the report are left out.
\<close>

subsection \<open>Counters\<close>

record DurabilityCounters =
  coreRPCErrors :: int
  rocksCommitErrors :: int
  stateRocksDivergence :: int

definition IncCoreRPCErrors :: "DurabilityCounters \<Rightarrow> DurabilityCounters" where
  "IncCoreRPCErrors c = c\<lparr>coreRPCErrors := i64 (coreRPCErrors c + 1)\<rparr>"

definition IncRocksCommitErrors :: "DurabilityCounters \<Rightarrow> DurabilityCounters" where
  "IncRocksCommitErrors c = c\<lparr>rocksCommitErrors := i64 (rocksCommitErrors c + 1)\<rparr>"

definition IncStateRocksDivergence :: "DurabilityCounters \<Rightarrow> DurabilityCounters" where
  "IncStateRocksDivergence c = c\<lparr>stateRocksDivergence := i64 (stateRocksDivergence c + 1)\<rparr>"

subsection \<open>The report\<close>

record CoreConsistencyReport =
  crOK :: bool
  crHead :: u64
  crErrors :: "string list"

record diag_env =
  deLedger :: "(string \<times> (string + string)) option"
  deDBPath :: string
  deCheck :: "string + CoreConsistencyReport"
  deHeadError :: string
  deFileExists :: bool
  deFileBlocks :: "BlockRecord list option"

datatype diag_reason =
    StateFileRoot string
  | CoreCheck string
  | RocksInternal string
  | LayerReason reason
  | ChainUnavailable

record ConsistencyDiagnostic =
  cdStatus :: consistency_status
  cdStateFile :: LayerTip
  cdRocks :: LayerTip
  cdChainJSON :: LayerTip
  cdCoreOK :: "bool option"
  cdCoreHead :: "u64 option"
  cdReasons :: "diag_reason list"

definition tip0 :: LayerTip where
  "tip0 = \<lparr>ltPath = [], ltHeight = 0, ltBlockHash = [], ltStateRoot = [], ltPresent = False, ltError = []\<rparr>"

definition state_file_tip :: "diag_env \<Rightarrow> LayerTip \<times> diag_reason list" where
  "state_file_tip env =
     (case deLedger env of
        None \<Rightarrow> (tip0\<lparr>ltError := ''ledger unavailable''\<rparr>, [])
      | Some (path, Inl e) \<Rightarrow> (tip0\<lparr>ltPath := path, ltPresent := True, ltError := e\<rparr>, [StateFileRoot e])
      | Some (path, Inr root) \<Rightarrow> (tip0\<lparr>ltPath := path, ltPresent := True, ltStateRoot := root\<rparr>, []))"

text \<open>Core's own check, then the head, which wins over the height of the check.\<close>

definition core_check_tip ::
  "diag_env \<Rightarrow> LayerTip \<Rightarrow> LayerTip \<times> diag_reason list \<times> bool option \<times> u64 option" where
  "core_check_tip env tip =
     (case deCheck env of
        Inl e \<Rightarrow> (tip\<lparr>ltError := e\<rparr>, [CoreCheck e], None, None)
      | Inr rep \<Rightarrow>
          (tip\<lparr>ltHeight := crHead rep\<rparr>, (if crOK rep then [] else map RocksInternal (crErrors rep)),
           Some (crOK rep), Some (crHead rep)))"

definition head_tip :: "rocks \<Rightarrow> diag_env \<Rightarrow> LayerTip \<Rightarrow> LayerTip" where
  "head_tip rx env tip =
     (case rxHead rx of
        Some head \<Rightarrow>
          (let tip1 = tip\<lparr>ltHeight := head\<rparr>
           in if head > 0 then
                (case rxBlock rx head of
                   Some blk \<Rightarrow> tip1\<lparr>ltBlockHash := rbBlockHash blk, ltStateRoot := rbStateRoot blk\<rparr>
                 | None \<Rightarrow> tip1)
              else tip1)
      | None \<Rightarrow> (if ltError tip = [] then tip\<lparr>ltError := deHeadError env\<rparr> else tip))"

definition rocks_tip :: "rocks \<Rightarrow> diag_env \<Rightarrow> LayerTip \<times> diag_reason list \<times> bool option \<times> u64 option" where
  "rocks_tip rx env =
     (if rxEnabled rx then
        (case core_check_tip env (tip0\<lparr>ltPath := deDBPath env, ltPresent := True\<rparr>) of
           (tip, reasons, ok, head) \<Rightarrow> (head_tip rx env tip, reasons, ok, head))
      else (tip0\<lparr>ltError := ''rocks unavailable''\<rparr>, [], None, None))"

definition block_tip :: "BlockRecord \<Rightarrow> LayerTip \<Rightarrow> LayerTip" where
  "block_tip b tip =
     tip\<lparr>ltPresent := True, ltHeight := GatewayBlockToRocksHeight (bBlockNumber b), ltBlockHash := bBlockHash b,
         ltStateRoot := bStateRoot b\<rparr>"

definition chain_json_tip :: "'c Blockchain \<Rightarrow> diag_env \<Rightarrow> LayerTip" where
  "chain_json_tip bc env =
     (let tip = tip0\<lparr>ltPath := chainFile bc, ltPresent := chainFile bc \<noteq> [] \<and> deFileExists env\<rparr>
      in if blockHistory bc \<noteq> [] then block_tip (last (blockHistory bc)) tip
         else if chainFile bc \<noteq> [] then
           (case deFileBlocks env of
              Some bs \<Rightarrow> (if bs \<noteq> [] then block_tip (last bs) tip else tip)
            | None \<Rightarrow> tip)
         else tip)"

definition BuildConsistencyDiagnostic :: "rocks \<Rightarrow> diag_env \<Rightarrow> 'c Blockchain \<Rightarrow> ConsistencyDiagnostic" where
  "BuildConsistencyDiagnostic rx env bc =
     (let (sf, r1) = state_file_tip env;
          (rk, r2, coreOK, coreHead) = rocks_tip rx env;
          cj = chain_json_tip bc env;
          reasons = r1 @ r2 @ map LayerReason (EvaluateLayerConsistency rk cj sf coreOK)
      in \<lparr>cdStatus = (if reasons \<noteq> [] then DIVERGED else CONSISTENT), cdStateFile = sf, cdRocks = rk, cdChainJSON = cj,
          cdCoreOK = coreOK, cdCoreHead = coreHead, cdReasons = reasons\<rparr>)"

datatype check_answer = CheckNotAllowed | CheckUnavailable | CheckReport ConsistencyDiagnostic

definition ConsistencyCheck ::
  "rocks \<Rightarrow> diag_env \<Rightarrow> 'c Blockchain option \<Rightarrow> string \<Rightarrow> DurabilityCounters \<Rightarrow> check_answer \<times> DurabilityCounters" where
  "ConsistencyCheck rx env chain http_method ctr =
     (if http_method \<noteq> ''GET'' then (CheckNotAllowed, ctr)
      else case chain of
          None \<Rightarrow> (CheckUnavailable, ctr)
        | Some bc \<Rightarrow>
            (let report = BuildConsistencyDiagnostic rx env bc
             in (CheckReport report, if cdStatus report = DIVERGED then IncStateRocksDivergence ctr else ctr)))"

definition RunDoctorConsistency :: "rocks \<Rightarrow> diag_env \<Rightarrow> 'c Blockchain option \<Rightarrow> ConsistencyDiagnostic" where
  "RunDoctorConsistency rx env chain =
     (case chain of
        None \<Rightarrow> \<lparr>cdStatus = DIVERGED, cdStateFile = tip0, cdRocks = tip0, cdChainJSON = tip0, cdCoreOK = None,
                  cdCoreHead = None, cdReasons = [ChainUnavailable]\<rparr>
      | Some bc \<Rightarrow> BuildConsistencyDiagnostic rx env bc)"

subsection \<open>What the verdict means\<close>

lemma rocks_tip_head:
  assumes "rxEnabled rx" "rxHead rx = Some h" "0 < h" "rxBlock rx h = Some blk"
  shows "ltPresent (fst (rocks_tip rx env))" "ltHeight (fst (rocks_tip rx env)) = h"
    "ltBlockHash (fst (rocks_tip rx env)) = rbBlockHash blk" "ltStateRoot (fst (rocks_tip rx env)) = rbStateRoot blk"
  using assms by (simp_all add: rocks_tip_def core_check_tip_def head_tip_def Let_def split: sum.splits prod.splits)

lemma chain_json_tip_history:
  assumes "blockHistory bc \<noteq> []"
  shows "ltPresent (chain_json_tip bc env)"
    "ltHeight (chain_json_tip bc env) = GatewayBlockToRocksHeight (bBlockNumber (last (blockHistory bc)))"
    "ltBlockHash (chain_json_tip bc env) = bBlockHash (last (blockHistory bc))"
    "ltStateRoot (chain_json_tip bc env) = bStateRoot (last (blockHistory bc))"
  using assms by (simp_all add: chain_json_tip_def block_tip_def Let_def)

lemma consistent_no_reasons:
  assumes "cdStatus (BuildConsistencyDiagnostic rx env bc) = CONSISTENT"
  shows "snd (state_file_tip env) = []" "fst (snd (rocks_tip rx env)) = []"
    "EvaluateLayerConsistency (fst (rocks_tip rx env)) (chain_json_tip bc env) (fst (state_file_tip env))
       (fst (snd (snd (rocks_tip rx env)))) = []"
  using assms by (simp_all add: BuildConsistencyDiagnostic_def Let_def split: prod.splits if_splits)

text \<open>Remark: A verdict of CONSISTENT on a node whose explorer has a tip and whose RocksDB serves its head block means that the
  heights agree, that hashes and state roots agree where both are known, that Core's own check found no error
  and that the root of the state file is the one RocksDB stores.\<close>

theorem consistent_layers_agree:
  assumes "cdStatus (BuildConsistencyDiagnostic rx env bc) = CONSISTENT"
    and "rxEnabled rx" "rxHead rx = Some h" "0 < h" "rxBlock rx h = Some blk" "blockHistory bc \<noteq> []"
    and "0 < GatewayBlockToRocksHeight (bBlockNumber (last (blockHistory bc)))"
  shows "h = GatewayBlockToRocksHeight (bBlockNumber (last (blockHistory bc))) \<and>
         (rbBlockHash blk = [] \<or> bBlockHash (last (blockHistory bc)) = [] \<or>
          rbBlockHash blk = bBlockHash (last (blockHistory bc))) \<and>
         (rbStateRoot blk = [] \<or> bStateRoot (last (blockHistory bc)) = [] \<or>
          rbStateRoot blk = bStateRoot (last (blockHistory bc))) \<and>
         (\<exists>rep. deCheck env = Inr rep \<and> (crOK rep \<or> crErrors rep = [])) \<and>
         (\<forall>path root. deLedger env = Some (path, root) \<longrightarrow>
            (\<exists>r. root = Inr r \<and> (r = [] \<or> rbStateRoot blk = [] \<or> r = rbStateRoot blk)))"
proof -
  note tip = rocks_tip_head [OF assms(2-5), of env] chain_json_tip_history [OF assms(6), of env]
  note none = consistent_no_reasons [OF assms(1)]
  have check: "\<exists>rep. deCheck env = Inr rep \<and> (crOK rep \<or> crErrors rep = [])"
    using none(2) assms(2) by (auto simp: rocks_tip_def core_check_tip_def split: sum.splits if_splits)
  have ledger: "\<exists>r. root = Inr r \<and> ltStateRoot (fst (state_file_tip env)) = r \<and> ltPresent (fst (state_file_tip env))"
    if "deLedger env = Some (path, root)" for path root
    using none(1) that by (auto simp: state_file_tip_def split: sum.splits)
  from none(3) assms(7) have layers: "h = GatewayBlockToRocksHeight (bBlockNumber (last (blockHistory bc)))"
      "rbBlockHash blk = [] \<or> bBlockHash (last (blockHistory bc)) = [] \<or> rbBlockHash blk = bBlockHash (last (blockHistory bc))"
      "rbStateRoot blk = [] \<or> bStateRoot (last (blockHistory bc)) = [] \<or> rbStateRoot blk = bStateRoot (last (blockHistory bc))"
      "\<not> (ltPresent (fst (state_file_tip env)) \<and> rbStateRoot blk \<noteq> [] \<and>
          ltStateRoot (fst (state_file_tip env)) \<noteq> [] \<and> rbStateRoot blk \<noteq> ltStateRoot (fst (state_file_tip env)))"
    unfolding EvaluateLayerConsistency_def by (simp_all add: tip split: if_splits)
  with check show ?thesis using ledger by (metis (no_types))
qed

text \<open>Remark: An explorer that lost its history is not reported: with no tip to compare, a node whose RocksDB has any number of
  blocks is CONSISTENT.\<close>

theorem empty_explorer_is_consistent:
  assumes "blockHistory bc = []" "chainFile bc = []" "deLedger env = None" "deCheck env = Inr rep" "crOK rep"
  shows "cdStatus (BuildConsistencyDiagnostic rx env bc) = CONSISTENT"
proof -
  have "ltPresent (chain_json_tip bc env) = False" using assms by (simp add: chain_json_tip_def tip0_def)
  moreover have "ltPresent (fst (state_file_tip env)) = False" "snd (state_file_tip env) = []"
    using assms by (simp_all add: state_file_tip_def tip0_def)
  moreover have "fst (snd (rocks_tip rx env)) = []"
    using assms by (simp add: rocks_tip_def core_check_tip_def)
  ultimately show ?thesis
    by (simp add: BuildConsistencyDiagnostic_def EvaluateLayerConsistency_def Let_def case_prod_beta)
qed

end
