(* ===== verification/Consensus_Routes.thy ===== *)
theory Consensus_Routes
  imports Block_Production
begin

text \<open>
  The HTTP routes of block production (\<^verbatim>\<open>main.go\<close> and \<^verbatim>\<open>internal/handlers/handlers.go\<close>): the token that guards them, the
  choice of the node that runs a request, the forward to that node, and the legacy route that confirms the mempool in one
  step. What runs behind them is in Block_Production.

  A request is its method and the headers that are read, an absent header being empty. The environment variables are the
  fields of \<open>auth_env\<close>. Whether the peer answers a forward is an argument.
\<close>

record http_request =
  hrMethod :: string
  hrConsensusToken :: string
  hrAuthorization :: string
  hrInternalForward :: string
  hrSelectedNode :: string

record auth_env =
  aeConsensusToken :: string
  aeCoreRpcToken :: string
  aeInsecure :: string

subsection \<open>The token\<close>

definition consensusAuthToken :: "auth_env \<Rightarrow> string" where
  "consensusAuthToken env =
     (let expected = TrimSpace (aeConsensusToken env)
      in if expected = [] then TrimSpace (aeCoreRpcToken env) else expected)"

definition consensusTokenFromRequest :: "http_request \<Rightarrow> string" where
  "consensusTokenFromRequest r =
     (let got = TrimSpace (hrConsensusToken r)
      in if got = [] \<and> HasPrefix (ToLower (hrAuthorization r)) ''bearer '' then TrimSpace (drop 7 (hrAuthorization r)) else got)"

definition consensus_insecure :: "auth_env \<Rightarrow> bool" where
  "consensus_insecure env \<longleftrightarrow> EqualFold (TrimSpace (aeInsecure env)) ''1'' \<or> EqualFold (TrimSpace (aeInsecure env)) ''true''"

definition isTrustedForward :: "auth_env \<Rightarrow> http_request \<Rightarrow> bool" where
  "isTrustedForward env r \<longleftrightarrow>
     hrInternalForward r = ''1'' \<and>
     (let expected = consensusAuthToken env
      in if expected = [] then consensus_insecure env else consensusTokenFromRequest r = expected)"

datatype auth_error = AuthNotConfigured | AuthRefused

text \<open>\<open>requireConsensusAuth\<close> in front of a handler.\<close>

definition requireConsensusAuth ::
  "auth_env \<Rightarrow> (http_request \<Rightarrow> 's \<Rightarrow> 'a \<times> 's) \<Rightarrow> http_request \<Rightarrow> 's \<Rightarrow> (auth_error + 'a) \<times> 's" where
  "requireConsensusAuth env next_handler r s =
     (let expected = consensusAuthToken env
      in if expected = [] then
           (if consensus_insecure env then (case next_handler r s of (a, s') \<Rightarrow> (Inr a, s')) else (Inl AuthNotConfigured, s))
         else if consensusTokenFromRequest r \<noteq> expected then (Inl AuthRefused, s)
         else (case next_handler r s of (a, s') \<Rightarrow> (Inr a, s')))"

subsection \<open>Forwarding\<close>

definition forward_request :: "auth_env \<Rightarrow> string \<Rightarrow> http_request" where
  "forward_request env selected =
     \<lparr>hrMethod = ''POST'', hrConsensusToken = consensusAuthToken env, hrAuthorization = [], hrInternalForward = ''1'',
      hrSelectedNode = selected\<rparr>"

text \<open>The request that \<open>forwardPostToNode\<close> delivers; \<open>None\<close> when it returns false.\<close>

definition forwardPostToNode ::
  "auth_env \<Rightarrow> (string \<Rightarrow> http_request \<Rightarrow> bool) \<Rightarrow> string \<Rightarrow> string \<Rightarrow> string \<Rightarrow> (string \<times> http_request) option" where
  "forwardPostToNode env delivered restBaseURL path selected =
     (if restBaseURL = [] then None
      else
        let url = restBaseURL @ path; req = forward_request env selected
        in if delivered url req then Some (url, req) else None)"

datatype 'a route_answer =
    RouteMethodNotAllowed
  | RouteNothingToDo
  | RouteForwarded string http_request
  | RouteForwardFailed
  | RouteRan 'a

record ('c, 'r) route_input =
  riWorld :: "('c, 'r) world"
  riAuth :: auth_env
  riRestURL :: "string \<Rightarrow> string"
  riDelivered :: "string \<Rightarrow> http_request \<Rightarrow> bool"
  riEvents :: "round_event list"
  riMid :: "'c Blockchain \<Rightarrow> 'c Blockchain"
  riMid2 :: "'c Blockchain \<Rightarrow> 'c Blockchain"

text \<open>The part that both routes share: run when a trusted forward names this node or when the choice falls on it or on a node
  without a REST address, otherwise forward; a failed forward is not replaced by a local run.\<close>

definition select_and_run ::
  "('c, 'r) route_input \<Rightarrow> string \<Rightarrow> bool \<Rightarrow> (('c, 'r) handler \<Rightarrow> 'a \<times> ('c, 'r) handler)
   \<Rightarrow> http_request \<Rightarrow> ('c, 'r) handler \<Rightarrow> 'a route_answer \<times> ('c, 'r) handler" where
  "select_and_run ri path nothing run r h =
     (let w = riWorld ri; ran = (case run h of (a, h') \<Rightarrow> (RouteRan a, h'))
      in if hrMethod r \<noteq> ''POST'' then (RouteMethodNotAllowed, h)
         else if hrSelectedNode r = wMyId w \<and> isTrustedForward (riAuth ri) r then ran
         else if nothing then (RouteNothingToDo, h)
         else
           let selected = SelectByWeight (wRnd w 0) (vtRegistry (hVoting h)) (candidates w)
           in if selected \<noteq> wMyId w \<and> riRestURL ri selected \<noteq> []
              then (case forwardPostToNode (riAuth ri) (riDelivered ri) (riRestURL ri selected) path selected of
                      Some (url, req) \<Rightarrow> (RouteForwarded url req, h)
                    | None \<Rightarrow> (RouteForwardFailed, h))
              else ran)"

definition L1CollectBlock_route ::
  "('c, 'r) route_input \<Rightarrow> http_request \<Rightarrow> ('c, 'r) handler \<Rightarrow> l1_response route_answer \<times> ('c, 'r) handler" where
  "L1CollectBlock_route ri r h =
     select_and_run ri ''/api/l1-collect'' (mempool (ndChain (hNode h)) = [])
       (l1CollectBlockRun (riWorld ri) (riEvents ri) (riMid ri)) r h"

definition L2ConfirmBlock_route ::
  "('c, 'r) route_input \<Rightarrow> http_request \<Rightarrow> ('c, 'r) handler \<Rightarrow> l2_response route_answer \<times> ('c, 'r) handler" where
  "L2ConfirmBlock_route ri r h =
     select_and_run ri ''/api/l2-confirm'' (pendingBlock (ndChain (hNode h)) = [])
       (l2ConfirmBlockRun (riWorld ri) (riEvents ri) (riMid ri) (riMid2 ri)) r h"

subsection \<open>The legacy route\<close>

datatype legacy_answer = LegacyMethodNotAllowed | LegacyConfirmFailed confirm_error | LegacyFinalizeFailed final_error
  | LegacyConfirmed BlockRecord nat

definition ConfirmBlock :: "('c, 'r) route_input \<Rightarrow> http_request \<Rightarrow> ('c, 'r) handler \<Rightarrow> legacy_answer \<times> ('c, 'r) handler" where
  "ConfirmBlock ri r h =
     (let w = riWorld ri; nd = hNode h
      in if hrMethod r \<noteq> ''POST'' then (LegacyMethodNotAllowed, h)
         else case ConfirmMempoolToChain (wEnv w) (wCore w) (wIO w) (riMid ri) (ndChain nd) of
             (Inl e, bc1) \<Rightarrow> (LegacyConfirmFailed e, h\<lparr>hNode := nd\<lparr>ndChain := bc1\<rparr>\<rparr>)
           | (Inr (moved, block, backup), bc1) \<Rightarrow>
               (case FinalizeConfirmedBlock (wFinal w) (wFinalIO w) (wRm w) (wFailPoint w) block moved backup (wMyId w)
                       (nd\<lparr>ndChain := bc1\<rparr>) of
                  ((Some e, _), nd1) \<Rightarrow> (LegacyFinalizeFailed e, h\<lparr>hNode := nd1\<rparr>)
                | ((None, fin), nd1) \<Rightarrow>
                    (let b = frBlock fin; rw = hRewards h
                     in (LegacyConfirmed b (length moved),
                         h\<lparr>hNode := nd1,
                           hRewards := (if bTotalFees b > 0
                                        then rw\<lparr>rw_distributor := snd (ApplyBlock (rw_distributor rw) (bTotalFees b))\<rparr>
                                        else rw)\<rparr>))))"

subsection \<open>The guard\<close>

lemma consensusAuthToken_trimmed: "TrimSpace (consensusAuthToken env) = consensusAuthToken env"
  by (simp add: consensusAuthToken_def Let_def)

lemma forward_carries_token:
  "consensusTokenFromRequest (forward_request env selected) = consensusAuthToken env"
proof -
  have "\<not> HasPrefix (ToLower []) ''bearer ''" by code_simp
  then show ?thesis by (simp add: consensusTokenFromRequest_def forward_request_def consensusAuthToken_trimmed)
qed

lemma requireConsensusAuth_pass:
  assumes "requireConsensusAuth env f r s = (Inr a, s')"
  shows "(if consensusAuthToken env = [] then consensus_insecure env
          else consensusTokenFromRequest r = consensusAuthToken env) \<and> f r s = (a, s')"
  using assms by (auto simp: requireConsensusAuth_def Let_def split: if_splits prod.splits)

lemma requireConsensusAuth_block:
  assumes "requireConsensusAuth env f r s = (Inl e, s')"
  shows "s' = s"
  using assms by (auto simp: requireConsensusAuth_def Let_def split: if_splits prod.splits)

lemma trusted_forward_passes:
  assumes "consensusAuthToken env' = consensusAuthToken env" "consensusAuthToken env = [] \<Longrightarrow> consensus_insecure env'"
  shows "isTrustedForward env' (forward_request env selected)"
    and "requireConsensusAuth env' f (forward_request env selected) s
         = (Inr (fst (f (forward_request env selected) s)), snd (f (forward_request env selected) s))"
proof -
  have one: "hrInternalForward (forward_request env selected) = ''1''" by (simp add: forward_request_def)
  show "isTrustedForward env' (forward_request env selected)"
    using assms by (simp add: isTrustedForward_def one forward_carries_token)
  show "requireConsensusAuth env' f (forward_request env selected) s
        = (Inr (fst (f (forward_request env selected) s)), snd (f (forward_request env selected) s))"
    using assms by (simp add: requireConsensusAuth_def forward_carries_token case_prod_beta Let_def)
qed

lemma select_and_run_forwarded:
  assumes "select_and_run ri path nothing run r h = (RouteForwarded url req, h')"
  shows "\<exists>selected. selected \<noteq> wMyId (riWorld ri) \<and> url = riRestURL ri selected @ path \<and>
           req = forward_request (riAuth ri) selected \<and> h' = h"
  using assms by (auto simp: select_and_run_def forwardPostToNode_def Let_def split: if_splits prod.splits option.splits)

lemma select_and_run_trusted:
  assumes "isTrustedForward (riAuth ri) (forward_request env (wMyId (riWorld ri)))"
  shows "select_and_run ri path nothing run (forward_request env (wMyId (riWorld ri))) h
         = (RouteRan (fst (run h)), snd (run h))"
proof -
  have "hrMethod (forward_request env (wMyId (riWorld ri))) = ''POST''"
    "hrSelectedNode (forward_request env (wMyId (riWorld ri))) = wMyId (riWorld ri)"
    by (simp_all add: forward_request_def)
  with assms show ?thesis by (simp add: select_and_run_def case_prod_beta Let_def)
qed

text \<open>C34: A request of block production is forwarded at most once and runs where it was sent. When a node forwards a guarded
  collect or confirm request, it has passed the guard with the node's token (or the guard is switched off), the node's own
  state is unchanged, and the node whose identifier the forward names, configured with the same token, lets the
  forward pass, runs it itself and never forwards it again, whatever its state.\<close>

theorem consensus_forward_runs_once:
  assumes "requireConsensusAuth (riAuth ri) (L1CollectBlock_route ri) r h = (Inr (RouteForwarded url req), h1) \<or>
           requireConsensusAuth (riAuth ri) (L2ConfirmBlock_route ri) r h = (Inr (RouteForwarded url req), h1)"
    and "wMyId (riWorld ri') = hrSelectedNode req" "consensusAuthToken (riAuth ri') = consensusAuthToken (riAuth ri)"
    and "consensusAuthToken (riAuth ri) = [] \<longrightarrow> consensus_insecure (riAuth ri')"
  shows "h1 = h \<and> hrSelectedNode req \<noteq> wMyId (riWorld ri) \<and>
         (if consensusAuthToken (riAuth ri) = [] then consensus_insecure (riAuth ri)
          else consensusTokenFromRequest r = consensusAuthToken (riAuth ri)) \<and>
         requireConsensusAuth (riAuth ri') (L1CollectBlock_route ri') req h'
           = (let (a, h2) = l1CollectBlockRun (riWorld ri') (riEvents ri') (riMid ri') h' in (Inr (RouteRan a), h2)) \<and>
         requireConsensusAuth (riAuth ri') (L2ConfirmBlock_route ri') req h'
           = (let (a, h2) = l2ConfirmBlockRun (riWorld ri') (riEvents ri') (riMid ri') (riMid2 ri') h' in (Inr (RouteRan a), h2))"
proof -
  from assms(1) have "\<exists>selected. selected \<noteq> wMyId (riWorld ri) \<and> req = forward_request (riAuth ri) selected \<and> h1 = h"
    and guard: "if consensusAuthToken (riAuth ri) = [] then consensus_insecure (riAuth ri)
          else consensusTokenFromRequest r = consensusAuthToken (riAuth ri)"
    unfolding L1CollectBlock_route_def L2ConfirmBlock_route_def
    by (auto dest!: requireConsensusAuth_pass select_and_run_forwarded)
  then obtain selected where sel: "selected \<noteq> wMyId (riWorld ri)" "req = forward_request (riAuth ri) selected" "h1 = h"
    by blast
  have me: "wMyId (riWorld ri') = selected" using assms(2) by (simp add: sel(2) forward_request_def)
  have ins: "consensusAuthToken (riAuth ri) = [] \<Longrightarrow> consensus_insecure (riAuth ri')" using assms(4) by blast
  note pass = trusted_forward_passes [OF assms(3) ins]
  have trusted: "isTrustedForward (riAuth ri') (forward_request (riAuth ri) (wMyId (riWorld ri')))"
    by (rule pass(1))
  have "requireConsensusAuth (riAuth ri') (L1CollectBlock_route ri') req h'
      = (let (a, h2) = l1CollectBlockRun (riWorld ri') (riEvents ri') (riMid ri') h' in (Inr (RouteRan a), h2))"
    by (simp add: sel(2) pass(2) L1CollectBlock_route_def select_and_run_trusted [OF trusted, unfolded me] case_prod_beta Let_def)
  moreover have "requireConsensusAuth (riAuth ri') (L2ConfirmBlock_route ri') req h'
      = (let (a, h2) = l2ConfirmBlockRun (riWorld ri') (riEvents ri') (riMid ri') (riMid2 ri') h' in (Inr (RouteRan a), h2))"
    by (simp add: sel(2) pass(2) L2ConfirmBlock_route_def select_and_run_trusted [OF trusted, unfolded me] case_prod_beta Let_def)
  ultimately show ?thesis using sel guard by (simp add: forward_request_def)
qed

definition first_route :: "(nat, unit) route_input" where
  "first_route = \<lparr>riWorld = solo_world\<lparr>wPeers := [''n1''], wRnd := (\<lambda>k n. n - 1)\<rparr>,
     riAuth = \<lparr>aeConsensusToken = ''tok'', aeCoreRpcToken = [], aeInsecure = []\<rparr>, riRestURL = (\<lambda>i. ''http://'' @ i),
     riDelivered = (\<lambda>u r. True), riEvents = [], riMid = id, riMid2 = id\<rparr>"

definition second_route :: "(nat, unit) route_input" where
  "second_route = first_route\<lparr>riWorld := solo_world\<lparr>wMyId := ''n1''\<rparr>\<rparr>"

theorem consensus_forward_runs_once_witness:
  "let h = solo_handler ((NewBlockchain 0)\<lparr>mempool := [signed_tx ''h1'' 0]\<rparr>);
       r = \<lparr>hrMethod = ''POST'', hrConsensusToken = [], hrAuthorization = ''Bearer tok'', hrInternalForward = [], hrSelectedNode = []\<rparr>
   in \<exists>url req. requireConsensusAuth (riAuth first_route) (L1CollectBlock_route first_route) r h = (Inr (RouteForwarded url req), h) \<and>
        hrSelectedNode req = ''n1'' \<and>
        requireConsensusAuth (riAuth second_route) (L1CollectBlock_route second_route) req h
          = (let (a, h2) = l1CollectBlockRun (riWorld second_route) [] id h in (Inr (RouteRan a), h2))"
proof -
  let ?h = "solo_handler ((NewBlockchain 0)\<lparr>mempool := [signed_tx ''h1'' 0]\<rparr>)"
  let ?r = "\<lparr>hrMethod = ''POST'', hrConsensusToken = [], hrAuthorization = ''Bearer tok'', hrInternalForward = [], hrSelectedNode = []\<rparr>"
  let ?req = "forward_request (riAuth first_route) ''n1''"
  have weight: "pick_weight [] i = 1000000" for i by (simp add: pick_weight_def SelectionWeightFor_def ScoreScale_def)
  have selected: "SelectByWeight (\<lambda>n. n - 1) [] [''n0'', ''n1''] = ''n1''"
    by (simp add: SelectByWeight_def weight filterEligibleCandidates_def eligible_id_def i64_def)
  have "consensusTokenFromRequest ?r = ''tok''" and tok: "consensusAuthToken (riAuth first_route) = ''tok''" by code_simp+
  then have sent: "requireConsensusAuth (riAuth first_route) (L1CollectBlock_route first_route) ?r ?h
      = (Inr (RouteForwarded (''http://n1'' @ ''/api/l1-collect'') ?req), ?h)"
    by (simp add: requireConsensusAuth_def L1CollectBlock_route_def select_and_run_def forwardPostToNode_def isTrustedForward_def
          first_route_def solo_world_def solo_handler_def idle_voting_def candidates_def selected)
  have "wMyId (riWorld second_route) = hrSelectedNode ?req" by (simp add: second_route_def forward_request_def)
  from consensus_forward_runs_once [OF disjI1 [OF sent] this, of ?h]
  have "requireConsensusAuth (riAuth second_route) (L1CollectBlock_route second_route) ?req ?h
      = (let (a, h2) = l1CollectBlockRun (riWorld second_route) (riEvents second_route) (riMid second_route) ?h in (Inr (RouteRan a), h2))"
    using tok by (simp add: second_route_def)
  with sent show ?thesis unfolding Let_def by (auto simp: second_route_def first_route_def forward_request_def)
qed

text \<open>Remark: A request without the token changes nothing on any of the three routes.\<close>

theorem unauthorised_request_refused:
  assumes "consensusAuthToken env \<noteq> []" "consensusTokenFromRequest r \<noteq> consensusAuthToken env"
  shows "requireConsensusAuth env (L1CollectBlock_route ri) r h = (Inl AuthRefused, h) \<and>
         requireConsensusAuth env (L2ConfirmBlock_route ri) r h = (Inl AuthRefused, h) \<and>
         requireConsensusAuth env (ConfirmBlock ri) r h = (Inl AuthRefused, h)"
  using assms by (simp add: requireConsensusAuth_def)

text \<open>Remark: The legacy route pays nobody: it adds the burn and treasury shares of the fees to the totals and drops the shares of
  both vote layers.\<close>

theorem legacy_confirm_pays_nobody:
  assumes "ConfirmBlock ri r h = (LegacyConfirmed b n, h')"
  shows "allNodeEarnings (hRewards h') = allNodeEarnings (hRewards h) \<and> ledger_calls (hRewards h') = ledger_calls (hRewards h) \<and>
         nodeEarnedL1 (hRewards h') = nodeEarnedL1 (hRewards h) \<and> hVoting h' = hVoting h"
  using assms by (auto simp: ConfirmBlock_def Let_def split: if_splits sum.splits prod.splits option.splits)

end
