(* ===== verification/Send_Api.thy ===== *)
theory Send_Api
  imports Escrow_Api Go_Json
begin

text \<open>
  The entry points for transactions that are not Core-signed: \<open>SendTransaction\<close> and \<open>DemoSendTx\<close> of
  \<^verbatim>\<open>internal/handlers/handlers.go\<close>, and \<open>handleNewTransaction\<close> of \<^verbatim>\<open>internal/websocket/server.go\<close>. The Core-signed path,
  \<open>submitCoreSignedTx\<close>, is in Escrow_Api; what it makes of the request's amount and of the decoding is an argument here.

  Core's signature check, key derivation and signer are arguments, \<open>None\<close> for a failing call. The generated hash is the clock in
  seconds with a suffix; the identifier of a websocket transaction is an argument. The events an operation announces are part
  of its answer.
\<close>

type_synonym announcement = "string \<times> jobject"

record CoreVerifyMessage =
  cvFrom :: string
  cvTo :: string
  cvValue :: string
  cvNonce :: int
  cvTimestamp :: json
  cvType :: string

definition or_default :: "string \<Rightarrow> string \<Rightarrow> string" where
  "or_default s d = (if s = [] then d else s)"

definition coreMessageForVerification :: "jobject \<Rightarrow> CoreVerifyMessage" where
  "coreMessageForVerification m =
     \<lparr>cvFrom = getString m ''from'', cvTo = getString m ''to'',
      cvValue = (if getString m ''amount'' \<noteq> [] then getString m ''amount'' else getString m ''value''),
      cvNonce = getNum m ''nonce'', cvTimestamp = (case map_of m ''timestamp'' of Some v \<Rightarrow> v | None \<Rightarrow> JNull),
      cvType = or_default (getString m ''type'') ''transfer''\<rparr>"

text \<open>\<open>getUint64\<close>: a number, or a string that \<open>ParseUint\<close> reads.\<close>

definition parsed_or_zero :: "string \<Rightarrow> u64" where
  "parsed_or_zero s = (case ParseUint s of (n, None) \<Rightarrow> n | (_, Some _) \<Rightarrow> 0)"

definition getUint64 :: "jobject \<Rightarrow> string \<Rightarrow> u64" where
  "getUint64 m k = (case map_of m k of Some (JNum n) \<Rightarrow> word_of_int n | Some (JStr s) \<Rightarrow> parsed_or_zero s | _ \<Rightarrow> 0)"

definition generateHash :: "string \<Rightarrow> string" where
  "generateHash clock = clock @ ''-hash''"

subsection \<open>Sending over HTTP\<close>

datatype send_error =
    BodyInvalid | AmountRefused | SignedRefused api_error | TestnetNoCore | SignatureRequired | PubkeyRequired | VerifyFailed
  | VerifyInvalid | RecordRefused tx_error

record send_world =
  swVerify :: "(CoreVerifyMessage \<Rightarrow> string \<Rightarrow> string \<Rightarrow> bool option) option"
  swClock :: string
  swNow :: int

definition signer_key :: "jobject \<Rightarrow> string" where
  "signer_key m = or_default (getString m ''pubkey'') (getString m ''from'')"

text \<open>The check of the legacy path. Off the testnet a missing signature and a failing call of Core are let through.\<close>

definition legacy_check :: "send_world \<Rightarrow> bool \<Rightarrow> jobject \<Rightarrow> send_error option" where
  "legacy_check sw testnet m =
     (let sig = getString m ''signature''; key = signer_key m; msg = coreMessageForVerification m
      in if testnet then
           (case swVerify sw of
              None \<Rightarrow> Some TestnetNoCore
            | Some verify \<Rightarrow>
                (if sig = [] then Some SignatureRequired
                 else if key = [] then Some PubkeyRequired
                 else case verify msg sig key of
                     None \<Rightarrow> Some VerifyFailed
                   | Some ok \<Rightarrow> (if ok then None else Some VerifyInvalid)))
         else
           (case swVerify sw of
              None \<Rightarrow> None
            | Some verify \<Rightarrow>
                (if sig \<noteq> [] \<and> key \<noteq> [] \<and> verify msg sig key = Some False then Some VerifyInvalid else None)))"

definition legacy_tx :: "send_world \<Rightarrow> jobject \<Rightarrow> Transaction" where
  "legacy_tx sw m =
     tx0\<lparr>txHash := generateHash (swClock sw), txFrom := getString m ''from'', txTo := getString m ''to'',
         txValue := getString m ''amount'', txFee := ''1'', txNonce := getNum m ''nonce'', txTimestamp := swNow sw,
         txType := or_default (getString m ''type'') ''transfer'',
         txAssetType := or_default (getString m ''assetType'') ''native'',
         txContractAddress := getString m ''contractAddress''\<rparr>"

definition tx_event :: "Transaction \<Rightarrow> jobject" where
  "tx_event tx = [(''hash'', JStr (txHash tx)), (''from'', JStr (txFrom tx)), (''to'', JStr (txTo tx)), (''value'', JStr (txValue tx))]"

text \<open>The body is \<open>None\<close> when it does not decode; \<open>decoded\<close> is \<open>None\<close> when the amount of a Core-signed body is refused, and otherwise
  what the body decodes to.\<close>

definition SendTransaction ::
  "'c api_world \<Rightarrow> send_world \<Rightarrow> jobject option \<Rightarrow> Transaction option option \<Rightarrow> 'c gateway
   \<Rightarrow> (send_error + Transaction \<times> announcement list) \<times> 'c gateway" where
  "SendTransaction w sw body decoded g =
     (case body of
        None \<Rightarrow> (Inl BodyInvalid, g)
      | Some m \<Rightarrow>
          (if getString m ''sig_main'' \<noteq> [] then
             (if gwTestnet g \<and> \<not> ledger (adChain (gwAdm g)) then (Inl (SignedRefused LedgerMissing), g)
              else case decoded of
                  None \<Rightarrow> (Inl AmountRefused, g)
                | Some d \<Rightarrow>
                    (case submitCoreSignedTx w d g of
                       (Inl e, g1) \<Rightarrow> (Inl (SignedRefused e), g1)
                     | (Inr tx, g1) \<Rightarrow> (Inr (tx, [(''mempoolUpdate'', tx_event tx)]), g1)))
           else case legacy_check sw (gwTestnet g) m of
               Some e \<Rightarrow> (Inl e, g)
             | None \<Rightarrow>
                 (let tx = legacy_tx sw m
                  in case AddTransaction (adChain (gwAdm g)) tx of
                       Inl e \<Rightarrow> (Inl (RecordRefused e), g)
                     | Inr bc \<Rightarrow>
                         (Inr (tx, [(''transactionProcessed'', tx_event tx)]), g\<lparr>gwAdm := (gwAdm g)\<lparr>adChain := bc\<rparr>\<rparr>))))"

subsection \<open>The demo form\<close>

datatype demo_error = DemoMethod | DemoBody | DemoKeys | DemoNoKey | DemoSign | DemoParse | DemoRefused admit_error

text \<open>\<open>GenerateKeys\<close> gives the public key; \<open>SignTransaction\<close> gives text that decodes or not.\<close>

record demo_signer =
  dcKeys :: "string \<Rightarrow> string \<Rightarrow> string option"
  dcSign :: "string \<Rightarrow> string \<Rightarrow> string \<Rightarrow> u64 \<Rightarrow> u64 \<Rightarrow> u64 \<Rightarrow> string \<Rightarrow> string \<Rightarrow> core_signed option option"

definition amount_or :: "jobject \<Rightarrow> string \<Rightarrow> string \<Rightarrow> u64" where
  "amount_or m k alt =
     (let a = getUint64 m k; b = (if a = 0 \<and> getString m alt \<noteq> [] then parsed_or_zero (getString m alt) else a)
      in if b = 0 then 1 else b)"

definition demo_signed_tx :: "int \<Rightarrow> core_signed \<Rightarrow> Transaction" where
  "demo_signed_tx now c =
     tx0\<lparr>txHash := sgHash c, txFrom := sgFrom c, txTo := sgTo c, txValue := FormatUint (sgAmount c), txFee := FormatUint (sgFeeUplp c),
         txNonce := sgNonce c, txTimestamp := now, txType := ''transfer'', txAssetType := ''native'', txSigMain := sgSigMain c,
         txSigDerived := sgSigDerived c, txPubMain := sgPubMain c, txPubDerived := sgPubDerived c, txAsset := sgAsset c,
         txAmountUplp := sgAmount c, txFeeUplp := sgFeeUplp c, txReads := sgReads c, txWrites := sgWrites c\<rparr>"

definition demo_plain_tx :: "send_world \<Rightarrow> jobject \<Rightarrow> string \<Rightarrow> Transaction" where
  "demo_plain_tx sw m dest =
     tx0\<lparr>txHash := generateHash (swClock sw), txFrom := getString m ''from'', txTo := dest,
         txValue := FormatUint (amount_or m ''amount'' ''value''), txFee := FormatUint (amount_or m ''fee_uplp'' ''fee''),
         txNonce := max 0 (getNum m ''nonce''), txTimestamp := swNow sw, txType := or_default (getString m ''type'') ''transfer'',
         txAssetType := or_default (getString m ''assetType'') ''native''\<rparr>"

definition demo_from :: "demo_signer \<Rightarrow> jobject \<Rightarrow> demo_error + string" where
  "demo_from core m =
     (if getString m ''from'' \<noteq> [] then Inr (getString m ''from'')
      else case dcKeys core (getString m ''mnemonic'') (getString m ''alphanumeric'') of
          None \<Rightarrow> Inl DemoKeys
        | Some key \<Rightarrow> (if key = [] then Inl DemoNoKey else Inr key))"

definition demo_form_tx :: "demo_signer option \<Rightarrow> send_world \<Rightarrow> jobject \<Rightarrow> demo_error + Transaction" where
  "demo_form_tx core sw m =
     (let dest = or_default (getString m ''to'') (getString m ''toAddress'');
          mnemonic = getString m ''mnemonic''; alphanumeric = getString m ''alphanumeric''
      in case core of
           None \<Rightarrow> Inr (demo_plain_tx sw m dest)
         | Some c \<Rightarrow>
             (if mnemonic = [] \<or> alphanumeric = [] \<or> dest = [] then Inr (demo_plain_tx sw m dest)
              else case demo_from c m of
                  Inl e \<Rightarrow> Inl e
                | Inr frm \<Rightarrow>
                    (case dcSign c frm dest (or_default (getString m ''asset'') ''PLP'') (amount_or m ''amount'' ''value'')
                            (amount_or m ''fee_uplp'' ''fee'') (word_of_int (max 0 (getNum m ''nonce''))) mnemonic alphanumeric of
                       None \<Rightarrow> Inl DemoSign
                     | Some None \<Rightarrow> Inl DemoParse
                     | Some (Some s) \<Rightarrow> Inr (demo_signed_tx (swNow sw) s))))"

definition DemoSendTx ::
  "'c api_world \<Rightarrow> demo_signer option \<Rightarrow> send_world \<Rightarrow> string \<Rightarrow> jobject option \<Rightarrow> 'c gateway
   \<Rightarrow> (demo_error + Transaction \<times> announcement list) \<times> 'c gateway" where
  "DemoSendTx w core sw http_method body g =
     (if http_method \<noteq> ''POST'' then (Inl DemoMethod, g)
      else case body of
          None \<Rightarrow> (Inl DemoBody, g)
        | Some m \<Rightarrow>
            (case demo_form_tx core sw m of
               Inl e \<Rightarrow> (Inl e, g)
             | Inr tx \<Rightarrow>
                 (case admit w tx g of
                    (Some e, g1) \<Rightarrow> (Inl (DemoRefused e), g1)
                  | (None, g1) \<Rightarrow> (Inr (tx, [(''mempoolUpdate'', tx_event tx)]), g1))))"

subsection \<open>Sending over a websocket\<close>

definition ws_tx :: "string \<Rightarrow> int \<Rightarrow> jobject \<Rightarrow> Transaction" where
  "ws_tx ident now m =
     tx0\<lparr>txHash := ident, txFrom := getString m ''from'', txTo := getString m ''to'', txValue := getString m ''amount'', txFee := ''1'',
         txTimestamp := now, txType := ''transfer'', txAssetType := ''native''\<rparr>"

definition handleNewTransaction :: "string \<Rightarrow> int \<Rightarrow> jobject \<Rightarrow> 'c Blockchain \<Rightarrow> announcement list \<times> 'c Blockchain" where
  "handleNewTransaction ident now m bc =
     (let tx = ws_tx ident now m
      in case AddTransaction bc tx of
           Inl e \<Rightarrow> ([(''transactionError'', [])], bc)
         | Inr bc1 \<Rightarrow> ([(''transactionProcessed'', tx_event tx)], bc1))"

subsection \<open>What is recorded\<close>

lemma AddTransaction_record:
  assumes "AddTransaction bc tx = Inr bc1"
  shows "map_of (transactions bc1) (txHash tx) = Some tx"
    and "blockHistory bc1 = blockHistory bc" "mempool bc1 = mempool bc" "pendingBlock bc1 = pendingBlock bc"
      "stateFile bc1 = stateFile bc" "confirmedHashes bc1 = confirmedHashes bc"
  using assms by (auto simp: AddTransaction_def update_conv' split: if_splits)

lemma legacy_check_testnet:
  assumes "legacy_check sw True m = None"
  obtains verify where "swVerify sw = Some verify" "getString m ''signature'' \<noteq> []" "signer_key m \<noteq> []"
    "verify (coreMessageForVerification m) (getString m ''signature'') (signer_key m) = Some True"
  using assms by (auto simp: legacy_check_def Let_def split: option.splits if_splits)

text \<open>C33: On the testnet every transaction that \<open>SendTransaction\<close> answers with success was checked by Core. A Core-signed one was admitted
  by Core and is in flight or confirmed. Any other carries a signature that Core verified for a message with the sender, the
  receiver, the nonce and the type that are recorded and, when an amount is recorded, with that amount; it is only written
  to the index: blocks, mempool, pending block, confirmed hashes, reservations and Core's state stay.\<close>

theorem send_checked_by_core:
  assumes "SendTransaction w sw (Some m) decoded g = (Inr (tx, evs), g1)" "gwTestnet g"
  shows "if getString m ''sig_main'' \<noteq> [] then accepted_by_core w tx g g1
         else (\<exists>verify msg. swVerify sw = Some verify \<and>
                 verify msg (getString m ''signature'') (signer_key m) = Some True \<and>
                 cvFrom msg = txFrom tx \<and> cvTo msg = txTo tx \<and> cvNonce msg = txNonce tx \<and> cvType msg = txType tx \<and>
                 (txValue tx = [] \<or> cvValue msg = txValue tx)) \<and>
              map_of (transactions (adChain (gwAdm g1))) (txHash tx) = Some tx \<and>
              blockHistory (adChain (gwAdm g1)) = blockHistory (adChain (gwAdm g)) \<and>
              mempool (adChain (gwAdm g1)) = mempool (adChain (gwAdm g)) \<and>
              pendingBlock (adChain (gwAdm g1)) = pendingBlock (adChain (gwAdm g)) \<and>
              confirmedHashes (adChain (gwAdm g1)) = confirmedHashes (adChain (gwAdm g)) \<and>
              adReserved (gwAdm g1) = adReserved (gwAdm g) \<and> stateFile (adChain (gwAdm g1)) = stateFile (adChain (gwAdm g))"
proof (cases "getString m ''sig_main'' = []")
  case False
  with assms obtain d where "submitCoreSignedTx w d g = (Inr tx, g1)"
    by (auto simp: SendTransaction_def split: if_splits option.splits sum.splits prod.splits)
  then obtain raw where "signedDealAdmit w raw g = (Inr tx, g1)"
    by (auto simp: submitCoreSignedTx_def Let_def split: if_splits sum.splits option.splits)
  from signedDealAdmit_accepted [OF this] False show ?thesis by simp
next
  case True
  with assms have check: "legacy_check sw True m = None" and tx: "tx = legacy_tx sw m"
    and g1: "\<exists>bc. AddTransaction (adChain (gwAdm g)) tx = Inr bc \<and> g1 = g\<lparr>gwAdm := (gwAdm g)\<lparr>adChain := bc\<rparr>\<rparr>"
    by (auto simp: SendTransaction_def Let_def split: option.splits sum.splits)
  from g1 obtain bc where bc: "AddTransaction (adChain (gwAdm g)) tx = Inr bc" "g1 = g\<lparr>gwAdm := (gwAdm g)\<lparr>adChain := bc\<rparr>\<rparr>"
    by blast
  from check obtain verify where v: "swVerify sw = Some verify"
      "verify (coreMessageForVerification m) (getString m ''signature'') (signer_key m) = Some True"
    by (rule legacy_check_testnet)
  have "cvFrom (coreMessageForVerification m) = txFrom tx \<and> cvTo (coreMessageForVerification m) = txTo tx \<and>
        cvNonce (coreMessageForVerification m) = txNonce tx \<and> cvType (coreMessageForVerification m) = txType tx \<and>
        (txValue tx = [] \<or> cvValue (coreMessageForVerification m) = txValue tx)"
    by (simp add: tx coreMessageForVerification_def legacy_tx_def)
  with v AddTransaction_record [OF bc(1)] True show ?thesis by (auto simp: bc(2))
qed

theorem send_checked_by_core_witness:
  "let m = [(''from'', JStr ''PxA''), (''to'', JStr ''PxB''), (''amount'', JStr ''5''), (''nonce'', JNum 2), (''signature'', JStr ''s''), (''pubkey'', JStr ''k'')];
       sw = \<lparr>swVerify = Some (\<lambda>msg s k. Some (cvValue msg = ''5'' \<and> s = ''s'' \<and> k = ''k'')), swClock = ''20240102030405'', swNow = 7\<rparr>
   in \<exists>tx evs g1. SendTransaction demo_world sw (Some m) None demo_gateway = (Inr (tx, evs), g1) \<and>
        map_of (transactions (adChain (gwAdm g1))) (txHash tx) = Some tx \<and>
        blockHistory (adChain (gwAdm g1)) = blockHistory (adChain (gwAdm demo_gateway))"
proof -
  let ?m = "[(''from'', JStr ''PxA''), (''to'', JStr ''PxB''), (''amount'', JStr ''5''), (''nonce'', JNum 2), (''signature'', JStr ''s''), (''pubkey'', JStr ''k'')]"
  let ?sw = "\<lparr>swVerify = Some (\<lambda>msg s k. Some (cvValue msg = ''5'' \<and> s = ''s'' \<and> k = ''k'')), swClock = ''20240102030405'', swNow = 7\<rparr>"
  have no_sig: "getString ?m ''sig_main'' = []" by (simp add: json_defs)
  have "legacy_check ?sw (gwTestnet demo_gateway) ?m = None"
    by (simp add: legacy_check_def signer_key_def or_default_def coreMessageForVerification_def json_defs Let_def)
  moreover have "txHash (legacy_tx ?sw ?m) \<noteq> []" by (simp add: legacy_tx_def generateHash_def)
  ultimately obtain tx evs g1 where sent: "SendTransaction demo_world ?sw (Some ?m) None demo_gateway = (Inr (tx, evs), g1)"
    using no_sig by (simp add: SendTransaction_def AddTransaction_def Let_def)
  have "gwTestnet demo_gateway" by (simp add: demo_gateway_def)
  from send_checked_by_core [OF sent this] no_sig sent show ?thesis unfolding Let_def by (simp only: if_False simp_thms) blast
qed

text \<open>Remark: The key that signs need not be the sender's. Whoever has a key that Core accepts sends from any address.\<close>

theorem any_key_sends_for_anyone:
  assumes "swVerify sw = Some verify" "verify (coreMessageForVerification m) sig key = Some True"
    and "getString m ''sig_main'' = []" "getString m ''signature'' = sig" "getString m ''pubkey'' = key" "sig \<noteq> []" "key \<noteq> []"
  shows "\<exists>evs g1. SendTransaction w sw (Some m) decoded g = (Inr (legacy_tx sw m, evs), g1)"
proof -
  have "legacy_check sw (gwTestnet g) m = None"
    using assms by (simp add: legacy_check_def signer_key_def or_default_def Let_def)
  moreover have "txHash (legacy_tx sw m) \<noteq> []" by (simp add: legacy_tx_def generateHash_def)
  ultimately show ?thesis using assms(3) by (simp add: SendTransaction_def AddTransaction_def Let_def)
qed

text \<open>Remark: Two transactions of one second get the same hash; the second replaces the first in the index.\<close>

theorem same_second_replaces:
  assumes "SendTransaction w sw (Some m) decoded g = (Inr (tx, evs), g1)" "getString m ''sig_main'' = []"
    and "SendTransaction w' sw' (Some m') decoded' g1 = (Inr (tx', evs'), g2)" "getString m' ''sig_main'' = []"
    and "swClock sw' = swClock sw"
  shows "txHash tx' = txHash tx \<and> map_of (transactions (adChain (gwAdm g2))) (txHash tx) = Some tx'"
proof -
  from assms(1,2) have tx: "tx = legacy_tx sw m"
    by (auto simp: SendTransaction_def Let_def split: option.splits sum.splits)
  from assms(3,4) have tx': "tx' = legacy_tx sw' m'"
    and bc: "\<exists>bc. AddTransaction (adChain (gwAdm g1)) tx' = Inr bc \<and> adChain (gwAdm g2) = bc"
    by (auto simp: SendTransaction_def Let_def split: option.splits sum.splits)
  have "txHash tx' = txHash tx" by (simp add: tx tx' legacy_tx_def assms(5))
  with bc AddTransaction_record(1) show ?thesis by metis
qed

text \<open>Remark: A websocket client records a transaction from any sender: nothing is decoded or checked.\<close>

theorem ws_transaction_unchecked:
  assumes "ident \<noteq> []"
  shows "\<exists>bc1. handleNewTransaction ident now m bc = ([(''transactionProcessed'', tx_event (ws_tx ident now m))], bc1) \<and>
           map_of (transactions bc1) ident = Some (ws_tx ident now m) \<and> txFrom (ws_tx ident now m) = getString m ''from''"
  using assms by (simp add: handleNewTransaction_def AddTransaction_def ws_tx_def update_conv' Let_def)

text \<open>Remark: A demo transaction without wallet secrets is never admitted: it carries no signature and Core is not even asked.\<close>

theorem plain_demo_refused:
  assumes "getString m ''mnemonic'' = [] \<or> core = None"
  shows "\<exists>e g1. DemoSendTx w core sw ''POST'' (Some m) g = (Inl (DemoRefused e), g1)"
proof -
  obtain dest where tx: "demo_form_tx core sw m = Inr (demo_plain_tx sw m dest)"
    using assms by (cases core) (auto simp: demo_form_tx_def Let_def)
  have "validateTxForMempool (apAdmit w) (adChain (gwAdm g)) (Some (demo_plain_tx sw m dest)) \<noteq> None"
    by (auto simp: validateTxForMempool_def validateTxViaCore_def ToCoreJSON_def demo_plain_tx_def tx0_def split: option.splits)
  then show ?thesis using tx by (auto simp: DemoSendTx_def admit_def admitToMempool_def split: option.splits)
qed

end
