(* ===== verification/Explorer_Api.thy ===== *)
theory Explorer_Api
  imports Chain_Sync Accounts_Index
begin

text \<open>
  The explorer pages over HTTP (\<^verbatim>\<open>internal/handlers/handlers.go\<close>): the list of transactions with its two sources, the pages of
  confirmed transactions, and the detail page of a block.

  A query parameter is its text, empty when it is absent. \<open>sort.Slice\<close> leaves the order of equal timestamps open; the model keeps
  the order of the list.
\<close>

subsection \<open>Queries\<close>

definition query_int :: "int \<Rightarrow> string \<Rightarrow> int" where
  "query_int dflt v =
     (if v = [] then dflt else case ParseInt v of (n, None) \<Rightarrow> (if n > 0 then n else dflt) | (_, Some _) \<Rightarrow> dflt)"

definition transactionsUseConfirmedDefault :: "string \<Rightarrow> string \<Rightarrow> string \<Rightarrow> bool" where
  "transactionsUseConfirmedDefault qmempool qpending qstatus =
     (if qmempool = ''1'' \<or> qpending = ''1'' then False
      else ToLower (TrimSpace qstatus) \<notin> {''all'', ''pending'', ''mempool''})"

definition query_bound :: "string \<Rightarrow> int option" where
  "query_bound v = (if v = [] then None else case ParseInt v of (n, None) \<Rightarrow> Some n | (_, Some _) \<Rightarrow> None)"

definition blockPageFromQuery :: "string \<Rightarrow> string \<Rightarrow> string \<Rightarrow> string \<Rightarrow> string \<Rightarrow> BlockPageQuery" where
  "blockPageFromQuery full limit page frm til =
     \<lparr>qLimit = query_int DefaultBlockPageLimit limit, qPage = query_int 1 page, qFrom = query_bound frm, qTo = query_bound til,
      qFull = (full = ''1'' \<or> EqualFold full ''true'')\<rparr>"

subsection \<open>A page of a list\<close>

record 'a list_page =
  lpItems :: "'a list"
  lpCount :: nat
  lpPage :: int
  lpLimit :: int
  lpTotalPages :: int

definition list_page :: "'a list \<Rightarrow> int \<Rightarrow> int \<Rightarrow> 'a list_page" where
  "list_page items page limit =
     (let n = length items;
          pages = page_count limit n;
          page' = (if page > pages then pages else page);
          start = min (nat ((page' - 1) * limit)) n;
          stop = min (start + nat limit) n
      in \<lparr>lpItems = take (stop - start) (drop start items), lpCount = n, lpPage = page', lpLimit = limit, lpTotalPages = pages\<rparr>)"

subsection \<open>The transaction list\<close>

text \<open>\<open>txToMap\<close> is the same round trip through JSON as \<open>transactionToMap\<close>.\<close>

definition txToMap :: "Transaction \<Rightarrow> jobject" where
  "txToMap tx = transactionToMap tx"

definition txMapTimestamp :: "jobject \<Rightarrow> int" where
  "txMapTimestamp m = getNum m ''timestamp''"

definition entry_hash :: "jobject \<Rightarrow> string" where
  "entry_hash m = getString m ''hash''"

definition set_timestamp :: "int \<Rightarrow> jobject \<Rightarrow> jobject" where
  "set_timestamp ts m = (if txMapTimestamp m \<le> 0 \<and> ts > 0 then AList.update ''timestamp'' (JNum ts) m else m)"

definition mark_confirmed :: "int \<Rightarrow> int \<Rightarrow> jobject \<Rightarrow> jobject" where
  "mark_confirmed n ts m =
     set_timestamp ts (AList.update ''status'' (JStr ''confirmed'') (AList.update ''blockNumber'' (JNum n) m))"

record list_context =
  lcRocks :: bool
  lcBlockByHash :: "(string \<times> int) list"
  lcBlockTs :: "int \<Rightarrow> int"

text \<open>The map entry of a transaction, and whether it is listed.\<close>

definition explorer_entry :: "list_context \<Rightarrow> Transaction \<Rightarrow> jobject" where
  "explorer_entry ctx tx =
     (case map_of (lcBlockByHash ctx) (txHash tx) of
        Some bn \<Rightarrow> mark_confirmed bn (lcBlockTs ctx bn) (txToMap tx)
      | None \<Rightarrow>
          (if \<not> lcRocks ctx \<and> txBlockNumber tx > 0
           then mark_confirmed (txBlockNumber tx) (lcBlockTs ctx (txBlockNumber tx)) (txToMap tx)
           else AList.delete ''status'' (AList.delete ''blockNumber'' (txToMap tx))))"

definition appendTx :: "list_context \<Rightarrow> bool \<Rightarrow> jobject list \<Rightarrow> Transaction \<Rightarrow> jobject list" where
  "appendTx ctx allowUnconfirmed out tx =
     (if txHash tx = [] \<or> txHash tx \<in> set (map entry_hash out) then out
      else if lcRocks ctx \<and> map_of (lcBlockByHash ctx) (txHash tx) = None \<and> \<not> allowUnconfirmed then out
      else out @ [explorer_entry ctx tx])"

definition block_timestamps :: "BlockRecord list \<Rightarrow> int \<Rightarrow> int" where
  "block_timestamps bs = foldl (\<lambda>m b. if bTimestamp b > 0 then m(bBlockNumber b := bTimestamp b) else m) (\<lambda>_. 0) bs"

definition list_context_of :: "rocks \<Rightarrow> 'c Blockchain \<Rightarrow> list_context" where
  "list_context_of rx bc =
     \<lparr>lcRocks = rxEnabled rx, lcBlockByHash = TxHashToBlockNumber rx bc, lcBlockTs = block_timestamps (GetBlockHistory rx bc)\<rparr>"

definition buildExplorerTransactionList :: "rocks \<Rightarrow> 'c Blockchain \<Rightarrow> jobject list" where
  "buildExplorerTransactionList rx bc =
     (let ctx = list_context_of rx bc;
          out1 = foldl (appendTx ctx False) [] (GetAllTransactions bc);
          out2 = foldl (appendTx ctx True) out1 (pendingBlock bc);
          out3 = foldl (appendTx ctx True) out2 (mempool bc)
      in sort_key (\<lambda>m. - txMapTimestamp m) out3)"

text \<open>A confirmed row; the placeholder of a transaction that cannot be read keeps the pages aligned.\<close>

definition confirmed_row :: "rocks \<Rightarrow> jobject list \<times> 'c Blockchain \<Rightarrow> ConfirmedTxRef \<Rightarrow> jobject list \<times> 'c Blockchain" where
  "confirmed_row rx acc r =
     (case acc of (out, bc) \<Rightarrow>
        (case GetTransaction rx bc (refHash r) of
           (None, bc1) \<Rightarrow>
             (out @ [[(''hash'', JStr (refHash r)), (''blockNumber'', JNum (refBlockNumber r)), (''timestamp'', JNum (refTimestamp r)),
                      (''status'', JStr ''confirmed''), (''value'', JStr ''0''), (''fee'', JStr ''0'')]], bc1)
         | (Some tx, bc1) \<Rightarrow> (out @ [mark_confirmed (refBlockNumber r) (refTimestamp r) (txToMap tx)], bc1)))"

definition serveConfirmedTransactionsPage ::
  "rocks \<Rightarrow> 'c Blockchain \<Rightarrow> int \<Rightarrow> int \<Rightarrow> jobject list_page \<times> 'c Blockchain" where
  "serveConfirmedTransactionsPage rx bc page limit =
     (let (refs, bc1) = ConfirmedTxRefsNewestFirst rx bc;
          p = list_page refs page limit;
          (out, bc2) = foldl (confirmed_row rx) ([], bc1) (lpItems p)
      in (\<lparr>lpItems = out, lpCount = lpCount p, lpPage = lpPage p, lpLimit = lpLimit p, lpTotalPages = lpTotalPages p\<rparr>, bc2))"

record tx_query =
  tqPage :: string
  tqLimit :: string
  tqMempool :: string
  tqPending :: string
  tqStatus :: string

definition GetAllTransactions_handler :: "rocks \<Rightarrow> 'c Blockchain \<Rightarrow> tx_query \<Rightarrow> jobject list_page \<times> 'c Blockchain" where
  "GetAllTransactions_handler rx bc q =
     (let page = query_int 1 (tqPage q);
          limit0 = query_int 50 (tqLimit q);
          limit = (if limit0 > 100 then 100 else limit0)
      in if transactionsUseConfirmedDefault (tqMempool q) (tqPending q) (tqStatus q)
         then serveConfirmedTransactionsPage rx bc page limit
         else (list_page (buildExplorerTransactionList rx bc) page limit, bc))"

subsection \<open>The page of a block\<close>

definition nonEmpty :: "string \<Rightarrow> string \<Rightarrow> string" where
  "nonEmpty s dflt = (if s = [] then dflt else s)"

definition consensusLog :: "BlockRecord \<Rightarrow> string" where
  "consensusLog b =
     ''L1: '' @ big_String (bL1Yes b) @ '' yes, '' @ big_String (bL1No b) @ '' no (threshold >=67%). L2: '' @
     big_String (bL2Yes b) @ '' yes, '' @ big_String (bL2No b) @ '' no (threshold >=70%). Block confirmed. L2 round time: '' @
     big_String (bDurationMs b) @ '' ms. L1 miner (collector): '' @ nonEmpty (bL1BeneficiaryNodeId b) ''-'' @
     ''. L2 miner (confirmer): '' @ nonEmpty (bL2ConfirmerNodeId b) ''-'' @ ''.''"

datatype block_answer = BlockNumberRequired | BlockNumberInvalid | BlockNotFound | BlockDetail BlockRecord "jobject list" string

definition block_txs_step :: "rocks \<Rightarrow> jobject list \<times> 'c Blockchain \<Rightarrow> string \<Rightarrow> jobject list \<times> 'c Blockchain" where
  "block_txs_step rx acc h =
     (case acc of (out, bc) \<Rightarrow>
        (case GetTransaction rx bc h of (None, bc1) \<Rightarrow> (out, bc1) | (Some tx, bc1) \<Rightarrow> (out @ [txToMap tx], bc1)))"

definition GetBlock :: "rocks \<Rightarrow> 'c Blockchain \<Rightarrow> string \<Rightarrow> block_answer \<times> 'c Blockchain" where
  "GetBlock rx bc s =
     (if s = [] then (BlockNumberRequired, bc)
      else case ParseInt s of
          (_, Some _) \<Rightarrow> (BlockNumberInvalid, bc)
        | (n, None) \<Rightarrow>
            (if n < 0 then (BlockNumberInvalid, bc)
             else
               case (case GetBlockByNumber rx bc n of
                       Some b \<Rightarrow> Some b
                     | None \<Rightarrow> find (\<lambda>b. bBlockNumber b = n) (GetBlockHistory rx bc)) of
                 None \<Rightarrow> (BlockNotFound, bc)
               | Some b \<Rightarrow>
                   (case foldl (block_txs_step rx) ([], bc) (bTxHashes b) of
                      (txs, bc1) \<Rightarrow> (BlockDetail b txs (consensusLog b), bc1))))"

subsection \<open>Entries\<close>

lemma entry_hash_txToMap [simp]: "entry_hash (txToMap tx) = txHash tx"
  by (simp add: entry_hash_def txToMap_def transactionToMap_def json_defs)

lemma entry_hash_mark [simp]: "entry_hash (mark_confirmed n ts m) = entry_hash m"
  by (simp add: mark_confirmed_def set_timestamp_def entry_hash_def json_defs update_conv')

lemma entry_hash_entry [simp]: "entry_hash (explorer_entry ctx tx) = txHash tx"
proof -
  have "entry_hash (AList.delete ''status'' (AList.delete ''blockNumber'' m)) = entry_hash m" for m
    by (simp add: entry_hash_def json_defs delete_conv')
  then show ?thesis by (simp add: explorer_entry_def split: option.splits)
qed

text \<open>What the list says of one transaction.\<close>

definition entry_ok :: "list_context \<Rightarrow> jobject \<Rightarrow> bool" where
  "entry_ok ctx m \<longleftrightarrow>
     (case map_of (lcBlockByHash ctx) (entry_hash m) of
        Some n \<Rightarrow> map_of m ''status'' = Some (JStr ''confirmed'') \<and> map_of m ''blockNumber'' = Some (JNum n)
      | None \<Rightarrow> lcRocks ctx \<longrightarrow> map_of m ''status'' = None \<and> map_of m ''blockNumber'' = None)"

lemma mark_confirmed_fields:
  "map_of (mark_confirmed n ts m) ''status'' = Some (JStr ''confirmed'')"
  "map_of (mark_confirmed n ts m) ''blockNumber'' = Some (JNum n)"
  by (simp_all add: mark_confirmed_def set_timestamp_def update_conv')

lemma explorer_entry_ok: "entry_ok ctx (explorer_entry ctx tx)"
proof (cases "map_of (lcBlockByHash ctx) (txHash tx)")
  case None
  then show ?thesis by (simp add: entry_ok_def) (simp add: explorer_entry_def delete_conv')
next
  case (Some n)
  then show ?thesis by (simp add: entry_ok_def) (simp add: explorer_entry_def mark_confirmed_fields)
qed

text \<open>The invariant of the list under construction.\<close>

definition list_ok :: "list_context \<Rightarrow> Transaction list \<Rightarrow> jobject list \<Rightarrow> bool" where
  "list_ok ctx inflt out \<longleftrightarrow>
     distinct (map entry_hash out) \<and> (\<forall>m \<in> set out. entry_ok ctx m \<and> entry_hash m \<noteq> []) \<and>
     (\<forall>m \<in> set out. lcRocks ctx \<longrightarrow> map_of (lcBlockByHash ctx) (entry_hash m) = None \<longrightarrow> entry_hash m \<in> txHash ` set inflt)"

lemma appendTx_ok:
  assumes "list_ok ctx inflt out" "allow \<longrightarrow> tx \<in> set inflt"
  shows "list_ok ctx inflt (appendTx ctx allow out tx)"
  using assms by (auto simp: list_ok_def appendTx_def explorer_entry_ok)

lemma foldl_appendTx_ok:
  assumes "list_ok ctx inflt out" "allow \<longrightarrow> set txs \<subseteq> set inflt"
  shows "list_ok ctx inflt (foldl (appendTx ctx allow) out txs)"
  using assms by (induction txs arbitrary: out) (simp_all add: appendTx_ok)

lemma foldl_appendTx_mono: "entry_hash ` set out \<subseteq> entry_hash ` set (foldl (appendTx ctx allow) out txs)"
proof (induction txs arbitrary: out)
  case (Cons tx txs)
  have "entry_hash ` set out \<subseteq> entry_hash ` set (appendTx ctx allow out tx)" by (auto simp: appendTx_def)
  also have "\<dots> \<subseteq> entry_hash ` set (foldl (appendTx ctx allow) (appendTx ctx allow out tx) txs)" by (rule Cons.IH)
  finally show ?case by simp
qed simp

lemma foldl_appendTx_complete:
  assumes "tx \<in> set txs" "txHash tx \<noteq> []" "allow \<or> \<not> lcRocks ctx \<or> map_of (lcBlockByHash ctx) (txHash tx) \<noteq> None"
  shows "txHash tx \<in> entry_hash ` set (foldl (appendTx ctx allow) out txs)"
  using assms
proof (induction txs arbitrary: out)
  case (Cons a txs)
  show ?case
  proof (cases "tx = a")
    case True
    then have "txHash tx \<in> entry_hash ` set (appendTx ctx allow out a)" using Cons.prems by (auto simp: appendTx_def)
    then show ?thesis using foldl_appendTx_mono [of "appendTx ctx allow out a" ctx allow txs] by auto
  next
    case False
    then show ?thesis using Cons by simp
  qed
qed simp

lemma list_ok_sort: "list_ok ctx inflt out \<Longrightarrow> list_ok ctx inflt (sort_key f out)"
  by (simp add: list_ok_def distinct_map)

lemma buildExplorerTransactionList_ok:
  "list_ok (list_context_of rx bc) (inflight bc) (buildExplorerTransactionList rx bc)"
proof -
  let ?ctx = "list_context_of rx bc"
  let ?o1 = "foldl (appendTx ?ctx False) [] (GetAllTransactions bc)"
  let ?o2 = "foldl (appendTx ?ctx True) ?o1 (pendingBlock bc)"
  let ?o3 = "foldl (appendTx ?ctx True) ?o2 (mempool bc)"
  have "list_ok ?ctx (inflight bc) []" by (simp add: list_ok_def)
  then have "list_ok ?ctx (inflight bc) ?o1" by (rule foldl_appendTx_ok) simp
  then have "list_ok ?ctx (inflight bc) ?o2" by (rule foldl_appendTx_ok) simp
  then have "list_ok ?ctx (inflight bc) ?o3" by (rule foldl_appendTx_ok) simp
  then show ?thesis unfolding buildExplorerTransactionList_def Let_def by (rule list_ok_sort)
qed

lemma list_page_concat:
  assumes "0 < limit"
  shows "concat (map (\<lambda>i. lpItems (list_page items (int i + 1) limit)) [0..<nat (page_count limit (length items))]) = items"
proof -
  let ?k = "nat (page_count limit (length items))"
  have slice: "lpItems (list_page items (int i + 1) limit) = page_slice limit items i" if "i < ?k" for i
  proof -
    have "nat (int i * limit) = i * nat limit" using assms by (simp add: nat_mult_distrib)
    moreover have "int i < page_count limit (length items)" using that by simp
    ultimately show ?thesis by (simp add: list_page_def Let_def page_slice_def min_def)
  qed
  have "map (\<lambda>i. lpItems (list_page items (int i + 1) limit)) [0..<?k] = map (page_slice limit items) [0..<?k]"
    by (intro map_cong refl) (simp add: slice)
  then have "concat (map (\<lambda>i. lpItems (list_page items (int i + 1) limit)) [0..<?k]) = take (?k * nat limit) items"
    by (simp only: concat_slices)
  also have "\<dots> = items"
    using page_count_covers [OF assms, of "length items"] by simp
  finally show ?thesis .
qed

text \<open>The blocks that \<open>TxHashToBlockNumber\<close> looks at: the history in memory if it lists a hash at all, else the one read from
  RocksDB. The history in memory is not cut at RocksDB's head. The last block that lists a hash gives its number.\<close>

definition indexed_blocks :: "rocks \<Rightarrow> 'c Blockchain \<Rightarrow> BlockRecord list" where
  "indexed_blocks rx bc =
     (if block_hashes (blockHistory bc) \<noteq> {} then blockHistory bc
      else if rxEnabled rx then (case listBlockHistoryFromRocks rx of Some bs \<Rightarrow> bs | None \<Rightarrow> []) else [])"

definition listing_block :: "BlockRecord list \<Rightarrow> string \<Rightarrow> BlockRecord option" where
  "listing_block bs h = find (\<lambda>b. h \<in> set (bTxHashes b)) (rev bs)"

lemma listing_block_None: "listing_block bs h = None \<longleftrightarrow> (\<forall>b \<in> set bs. h \<notin> set (bTxHashes b))"
  by (auto simp: listing_block_def find_None_iff)

lemma hash_fold:
  "map_of (foldl (\<lambda>m h. if h \<noteq> [] then AList.update h n m else m) m hs) k =
     (if k \<in> set hs \<and> k \<noteq> [] then Some n else map_of m k)"
  by (induction hs arbitrary: m) (auto simp: update_conv')

lemma hash_fold_blank: "\<forall>h \<in> set hs. h = [] \<Longrightarrow> foldl (\<lambda>m h. if h \<noteq> [] then AList.update h n m else m) m hs = m"
  by (induction hs) simp_all

lemma hash_numbers_lookup: "h \<noteq> [] \<Longrightarrow> map_of (hash_numbers bs) h = map_option bBlockNumber (listing_block bs h)"
proof (induction bs rule: rev_induct)
  case (snoc b bs)
  then show ?case unfolding hash_numbers_def listing_block_def by (simp add: hash_fold)
qed (simp add: hash_numbers_def listing_block_def)

lemma hash_numbers_empty: "hash_numbers bs = [] \<longleftrightarrow> block_hashes bs = {}"
proof
  assume e: "hash_numbers bs = []"
  have "h \<notin> set (bTxHashes b)" if "b \<in> set bs" "h \<noteq> []" for b h
    using hash_numbers_lookup [OF that(2), of bs] that(1) by (simp add: e listing_block_None)
  then show "block_hashes bs = {}" by (fastforce simp: block_hashes_def)
next
  assume e: "block_hashes bs = {}"
  have "\<forall>b \<in> set bs. \<forall>h \<in> set (bTxHashes b). h = []" using e by (auto simp: block_hashes_def)
  then show "hash_numbers bs = []" unfolding hash_numbers_def by (induction bs) (simp_all add: hash_fold_blank)
qed

lemma TxHashToBlockNumber_lookup:
  assumes "h \<noteq> []"
  shows "map_of (TxHashToBlockNumber rx bc) h = map_option bBlockNumber (listing_block (indexed_blocks rx bc) h)"
  using hash_numbers_lookup [OF assms]
  by (simp add: TxHashToBlockNumber_def indexed_blocks_def hash_numbers_empty listing_block_def Let_def split: option.split)

text \<open>C35: the list of all transactions tells the truth about confirmation, on a node with RocksDB. Let \<open>chain\<close> be the blocks in memory
  or, when those list no hash, the ones read from RocksDB (a memory block above RocksDB's head counts as well). Each hash is listed
  once; an entry is marked as confirmed exactly when a block of \<open>chain\<close> lists its hash, with the number of the last such block; every
  other entry is in flight and carries neither a status nor a block number; every transaction of the mempool and of the pending block,
  and every indexed transaction that a block of \<open>chain\<close> lists, is in the list; and the pages of any positive size together are the list.\<close>

theorem explorer_list_sound:
  assumes "rxEnabled rx" "0 < limit"
    and chain: "chain = (if block_hashes (blockHistory bc) \<noteq> {} then blockHistory bc
                         else case listBlockHistoryFromRocks rx of Some bs \<Rightarrow> bs | None \<Rightarrow> [])"
  shows "let out = buildExplorerTransactionList rx bc
         in distinct (map entry_hash out) \<and>
            (\<forall>m \<in> set out.
               case find (\<lambda>b. entry_hash m \<in> set (bTxHashes b)) (rev chain) of
                 Some b \<Rightarrow> map_of m ''status'' = Some (JStr ''confirmed'') \<and> map_of m ''blockNumber'' = Some (JNum (bBlockNumber b))
               | None \<Rightarrow> map_of m ''status'' = None \<and> map_of m ''blockNumber'' = None \<and> entry_hash m \<in> txHash ` set (inflight bc)) \<and>
            (\<forall>tx \<in> set (inflight bc). txHash tx \<noteq> [] \<longrightarrow> txHash tx \<in> entry_hash ` set out) \<and>
            (\<forall>tx \<in> set (GetAllTransactions bc). txHash tx \<in> block_hashes chain \<longrightarrow> txHash tx \<in> entry_hash ` set out) \<and>
            concat (map (\<lambda>i. lpItems (list_page out (int i + 1) limit)) [0..<nat (page_count limit (length out))]) = out"
proof -
  let ?ctx = "list_context_of rx bc"
  let ?out = "buildExplorerTransactionList rx bc"
  have ok: "list_ok ?ctx (inflight bc) ?out" by (rule buildExplorerTransactionList_ok)
  have chain': "chain = indexed_blocks rx bc" using assms(1) by (simp add: chain indexed_blocks_def)
  have ctx: "lcRocks ?ctx" "h \<noteq> [] \<Longrightarrow> map_of (lcBlockByHash ?ctx) h = map_option bBlockNumber (listing_block chain h)" for h
    using assms(1) TxHashToBlockNumber_lookup [of h rx bc] by (simp_all add: list_context_of_def chain')
  have entries: "case listing_block chain (entry_hash m) of
       Some b \<Rightarrow> map_of m ''status'' = Some (JStr ''confirmed'') \<and> map_of m ''blockNumber'' = Some (JNum (bBlockNumber b))
     | None \<Rightarrow> map_of m ''status'' = None \<and> map_of m ''blockNumber'' = None \<and> entry_hash m \<in> txHash ` set (inflight bc)"
    if "m \<in> set ?out" for m
  proof -
    have e: "entry_ok ?ctx m" and ne: "entry_hash m \<noteq> []"
      and infl: "lcRocks ?ctx \<longrightarrow> map_of (lcBlockByHash ?ctx) (entry_hash m) = None \<longrightarrow> entry_hash m \<in> txHash ` set (inflight bc)"
      using ok that unfolding list_ok_def by blast+
    show ?thesis using e infl ctx(1) unfolding entry_ok_def ctx(2) [OF ne] by (cases "listing_block chain (entry_hash m)") simp_all
  qed
  let ?o1 = "foldl (appendTx ?ctx False) [] (GetAllTransactions bc)"
  let ?o2 = "foldl (appendTx ?ctx True) ?o1 (pendingBlock bc)"
  let ?o3 = "foldl (appendTx ?ctx True) ?o2 (mempool bc)"
  have hs: "entry_hash ` set ?o1 \<subseteq> entry_hash ` set ?o2" "entry_hash ` set ?o2 \<subseteq> entry_hash ` set ?o3"
    by (rule foldl_appendTx_mono)+
  have out: "entry_hash ` set ?out = entry_hash ` set ?o3" by (simp add: buildExplorerTransactionList_def Let_def)
  have listed: "txHash tx \<in> entry_hash ` set ?out" if tx: "tx \<in> set (inflight bc)" "txHash tx \<noteq> []" for tx
  proof -
    have "tx \<in> set (pendingBlock bc) \<Longrightarrow> txHash tx \<in> entry_hash ` set ?o2" "tx \<in> set (mempool bc) \<Longrightarrow> txHash tx \<in> entry_hash ` set ?o3"
      using tx(2) by (auto intro!: foldl_appendTx_complete simp del: foldl_append)
    then show ?thesis using tx(1) hs(2) unfolding out by auto
  qed
  have indexed: "txHash tx \<in> entry_hash ` set ?out" if tx: "tx \<in> set (GetAllTransactions bc)" "txHash tx \<in> block_hashes chain" for tx
  proof -
    have ne: "txHash tx \<noteq> []" and "listing_block chain (txHash tx) \<noteq> None" using tx(2) by (auto simp: block_hashes_def listing_block_None)
    then have "txHash tx \<in> entry_hash ` set ?o1" using tx(1) ctx(2) [OF ne] by (intro foldl_appendTx_complete) auto
    then show ?thesis using hs unfolding out by blast
  qed
  have "distinct (map entry_hash ?out)" using ok by (simp add: list_ok_def)
  then show ?thesis unfolding Let_def listing_block_def [symmetric]
    using entries listed indexed list_page_concat [OF assms(2), of ?out] by (intro conjI ballI impI)
qed

theorem explorer_list_sound_witness:
  "let rx = \<lparr>rxEnabled = True, rxHead = None, rxBlock = (\<lambda>_. None), rxTx = (\<lambda>_. None), rxAddressTxs = (\<lambda>_. None), rxProbe = None\<rparr>;
       bc = (NewBlockchain (0 :: nat))\<lparr>mempool := [tx0\<lparr>txHash := ''h1''\<rparr>], blockHistory := [block0\<lparr>bTxHashes := [''h0'']\<rparr>],
              transactions := [(''h0'', tx0\<lparr>txHash := ''h0''\<rparr>)]\<rparr>
   in ''h1'' \<in> entry_hash ` set (buildExplorerTransactionList rx bc) \<and>
      distinct (map entry_hash (buildExplorerTransactionList rx bc))"
proof -
  let ?rx = "\<lparr>rxEnabled = True, rxHead = None, rxBlock = (\<lambda>_. None), rxTx = (\<lambda>_. None), rxAddressTxs = (\<lambda>_. None), rxProbe = None\<rparr>"
  let ?bc = "(NewBlockchain (0 :: nat))\<lparr>mempool := [tx0\<lparr>txHash := ''h1''\<rparr>], blockHistory := [block0\<lparr>bTxHashes := [''h0'']\<rparr>],
     transactions := [(''h0'', tx0\<lparr>txHash := ''h0''\<rparr>)]\<rparr>"
  have in_flight: "tx0\<lparr>txHash := ''h1''\<rparr> \<in> set (inflight ?bc)" by simp
  have "rxEnabled ?rx" by simp
  from explorer_list_sound [OF this zero_less_one refl, where bc = ?bc]
  have "distinct (map entry_hash (buildExplorerTransactionList ?rx ?bc))"
    "\<forall>tx \<in> set (inflight ?bc). txHash tx \<noteq> [] \<longrightarrow> txHash tx \<in> entry_hash ` set (buildExplorerTransactionList ?rx ?bc)"
    unfolding Let_def by blast+
  from this(1) bspec [OF this(2) in_flight] show ?thesis unfolding Let_def by simp
qed

end
