(* ===== verification/Core_Client.thy ===== *)
theory Core_Client
  imports Go_Strings Go_Json "HOL-Library.AList"
begin

text \<open>
  The client of Core: \<^verbatim>\<open>internal/core/rpc_client.go\<close> (addresses, tokens, the round trip with its single retry) and
  \<^verbatim>\<open>internal/core/arg_spill.go\<close> (large arguments of a subprocess go to files).

  The network is a script: what the \<open>n\<close>-th dial, the \<open>n\<close>-th write and the \<open>n\<close>-th read give. The client's state logs the requests whose
  bytes were written, which is what Core may have executed. A response is what its line decodes to: an identifier that is
  missing or no number reads as 0, a result is the text that is returned to the caller.
\<close>

subsection \<open>Paths\<close>

fun split_on :: "char \<Rightarrow> string \<Rightarrow> string list" where
  "split_on c [] = [[]]"
| "split_on c (x # xs) = (if x = c then [] # split_on c xs else (case split_on c xs of [] \<Rightarrow> [[x]] | y # ys \<Rightarrow> (x # y) # ys))"

text \<open>The elements of \<open>filepath.Clean\<close>, last first; a path that starts at the root cannot climb above it.\<close>

definition clean_step :: "bool \<Rightarrow> string list \<Rightarrow> string \<Rightarrow> string list" where
  "clean_step rooted acc e =
     (if e = [] \<or> e = ''.'' then acc
      else if e = ''..'' then (case acc of [] \<Rightarrow> (if rooted then [] else [''..'']) | a # as \<Rightarrow> (if a = ''..'' then ''..'' # acc else as))
      else e # acc)"

definition clean_elems :: "bool \<Rightarrow> string \<Rightarrow> string list" where
  "clean_elems rooted p = rev (foldl (clean_step rooted) [] (split_on (CHR ''/'') p))"

definition join_elems :: "string list \<Rightarrow> string" where
  "join_elems es = concat (map (\<lambda>e. ''/'' @ e) es)"

text \<open>\<open>filepath.Abs\<close> in the directory \<open>cwd\<close>, an absolute path.\<close>

definition Abs :: "string \<Rightarrow> string \<Rightarrow> string" where
  "Abs cwd p =
     (let es = clean_elems True (if HasPrefix p ''/'' then p else cwd @ ''/'' @ p)
      in if es = [] then ''/'' else join_elems es)"

definition isUnderSpillDir :: "string \<Rightarrow> string \<Rightarrow> string \<Rightarrow> bool" where
  "isUnderSpillDir cwd spill path \<longleftrightarrow>
     (let a = Abs cwd path; root = Abs cwd spill in a = root \<or> HasPrefix a (root @ ''/''))"

subsection \<open>Large arguments\<close>

definition cliJSONSpillBytes :: nat where
  "cliJSONSpillBytes = 12 * 1024"

definition spillJSONFlags :: "string list" where
  "spillJSONFlags = [''--mempool-txs'', ''--txs'', ''--tx'', ''--votes'', ''--candidates'', ''--message'', ''--tx-hashes'',
     ''--reads'', ''--writes'']"

datatype spill_error = NotUnderSpillDir string | CreateFailed | WriteOrCloseFailed

text \<open>The file system: the files, the name \<open>CreateTemp\<close> gives next (\<open>None\<close>: it fails) and whether the write and the close succeed.\<close>

type_synonym files = "(string \<times> string) list"

record spill_io =
  siTemp :: "nat \<Rightarrow> string option"
  siWrite :: "nat \<Rightarrow> bool"

definition remove_files :: "string list \<Rightarrow> files \<Rightarrow> files" where
  "remove_files paths fs = foldl (\<lambda>m p. AList.delete p m) fs paths"

text \<open>The loop, with the arguments written so far, the temporary files and the file system.\<close>

fun spill_loop ::
  "string \<Rightarrow> string \<Rightarrow> spill_io \<Rightarrow> string list \<Rightarrow> string list \<Rightarrow> string list \<Rightarrow> files
   \<Rightarrow> (spill_error + string list \<times> string list) \<times> files" where
  "spill_loop cwd spill io [] out paths fs = (Inr (out, paths), fs)"
| "spill_loop cwd spill io [flag] out paths fs = (Inr (out @ [flag], paths), fs)"
| "spill_loop cwd spill io (flag # val # args) out paths fs =
     (if flag \<notin> set spillJSONFlags then spill_loop cwd spill io (val # args) (out @ [flag]) paths fs
      else if HasPrefix val ''@'' then
        (if isUnderSpillDir cwd spill (drop 1 val) then spill_loop cwd spill io args (out @ [flag, val]) paths fs
         else (Inl (NotUnderSpillDir (drop 1 val)), remove_files paths fs))
      else if length val \<le> cliJSONSpillBytes then spill_loop cwd spill io args (out @ [flag, val]) paths fs
      else
        case siTemp io (length paths) of
          None \<Rightarrow> (Inl CreateFailed, remove_files paths fs)
        | Some path \<Rightarrow>
            (if \<not> siWrite io (length paths) then (Inl WriteOrCloseFailed, remove_files paths (AList.delete path fs))
             else spill_loop cwd spill io args (out @ [flag, CHR ''@'' # path]) (paths @ [path]) (AList.update path val fs)))"

definition spillLargeCLIArgs ::
  "string \<Rightarrow> string \<Rightarrow> spill_io \<Rightarrow> string list \<Rightarrow> files \<Rightarrow> (spill_error + string list \<times> string list) \<times> files" where
  "spillLargeCLIArgs cwd spill io args fs = spill_loop cwd spill io args [] [] fs"

subsection \<open>Addresses\<close>

definition ParseRPCAddr :: "string \<Rightarrow> string \<times> string" where
  "ParseRPCAddr addr0 =
     (let addr = TrimSpace addr0
      in if addr = [] then (''tcp'', ''127.0.0.1:19500'')
         else if HasPrefix addr ''unix:'' then (''unix'', TrimPrefix addr ''unix:'')
         else if HasPrefix addr ''tcp://'' then (''tcp'', TrimPrefix addr ''tcp://'')
         else if HasPrefix addr ''/'' \<or> HasPrefix addr ''./'' then (''unix'', addr)
         else (''tcp'', addr))"

subsection \<open>Requests\<close>

definition underscore :: "string \<Rightarrow> string" where
  "underscore s = map (\<lambda>c. if c = CHR ''-'' then CHR ''_'' else c) s"

definition cliCommandToMethod :: "string \<Rightarrow> string" where
  "cliCommandToMethod command = underscore command"

fun cli_params :: "jobject \<Rightarrow> string list \<Rightarrow> jobject" where
  "cli_params m [] = m"
| "cli_params m [a] = (if HasPrefix a ''--'' then AList.update (underscore (drop 2 a)) (JBool True) m else m)"
| "cli_params m (a # b # args) =
     (if \<not> HasPrefix a ''--'' then cli_params m (b # args)
      else if \<not> HasPrefix b ''--'' then cli_params (AList.update (underscore (drop 2 a)) (JStr b) m) args
      else cli_params (AList.update (underscore (drop 2 a)) (JBool True) m) (b # args))"

definition cliArgsToParams :: "string list \<Rightarrow> jobject" where
  "cliArgsToParams args = cli_params [] (tl args)"

definition isRocksAdminMethod :: "string \<Rightarrow> bool" where
  "isRocksAdminMethod meth \<longleftrightarrow> meth \<in> {''rocks_commit_block'', ''rocks_bootstrap_snapshot'', ''migrate_json_to_rocks''}"

definition isMutatingRPCMethod :: "string \<Rightarrow> bool" where
  "isMutatingRPCMethod meth \<longleftrightarrow>
     meth \<in> {''state_apply_tx'', ''state_credit'', ''state_credit_token'', ''kernel_apply_batch'', ''kernel_commit_diff'',
       ''rocks_commit_block'', ''rocks_bootstrap_snapshot'', ''migrate_json_to_rocks'',
       ''dag_insert'', ''dag_try_commit'', ''dag_try_commit_batches'', ''dag_reset'', ''dag_ingest'', ''mempool_admit'', ''block_cycle''}"

record rpc_request =
  rrId :: int
  rrMethod :: string
  rrParams :: jobject
  rrAuthToken :: "string option"
  rrAdminToken :: "string option"

definition token_field :: "string \<Rightarrow> string option" where
  "token_field v = (if TrimSpace v = [] then None else Some (TrimSpace v))"

definition applyRPCAuth :: "string \<Rightarrow> string \<Rightarrow> rpc_request \<Rightarrow> rpc_request" where
  "applyRPCAuth authToken adminEnv req =
     req\<lparr>rrAuthToken := token_field authToken,
         rrAdminToken := (if isRocksAdminMethod (rrMethod req) then token_field adminEnv else None)\<rparr>"

subsection \<open>The connection\<close>

datatype rpc_line = ReadFails | BadLine | RpcError int int string | RpcResult int string

record rpc_net =
  nDial :: "nat \<Rightarrow> bool"
  nWrite :: "nat \<Rightarrow> bool"
  nRead :: "nat \<Rightarrow> rpc_line"

record RPCClient =
  rcConn :: bool
  rcId :: int
  rcToken :: string
  rcDials :: nat
  rcTrips :: nat
  rcSent :: "rpc_request list"
  rcErrors :: int

datatype rpc_failure = DialFailed | WriteFailed | ReadFailed | ParseFailed | IdMismatch int int | CoreError int string
  | RefusingRetry rpc_failure

definition connectLocked :: "rpc_net \<Rightarrow> RPCClient \<Rightarrow> bool \<times> RPCClient" where
  "connectLocked net c =
     (let ok = nDial net (rcDials c) in (ok, c\<lparr>rcConn := ok, rcDials := Suc (rcDials c)\<rparr>))"

definition ensureConnLocked :: "rpc_net \<Rightarrow> RPCClient \<Rightarrow> bool \<times> RPCClient" where
  "ensureConnLocked net c = (if rcConn c then (True, c) else connectLocked net c)"

text \<open>\<open>roundTripLocked\<close>: the result, and whether the request was written. \<open>rcSent\<close> lists the requests whose write was reported complete;
  what a failed write may have sent of a line is not part of the model.\<close>

definition read_response :: "rpc_line \<Rightarrow> int \<Rightarrow> rpc_failure + string" where
  "read_response line reqID =
     (case line of
        ReadFails \<Rightarrow> Inl ReadFailed
      | BadLine \<Rightarrow> Inl ParseFailed
      | RpcError i c m \<Rightarrow> (if i \<noteq> reqID then Inl (IdMismatch reqID i) else Inl (CoreError c m))
      | RpcResult i r \<Rightarrow> (if i \<noteq> reqID then Inl (IdMismatch reqID i) else Inr r))"

definition roundTripLocked :: "rpc_net \<Rightarrow> rpc_request \<Rightarrow> RPCClient \<Rightarrow> ((rpc_failure + string) \<times> bool) \<times> RPCClient" where
  "roundTripLocked net req c =
     (case ensureConnLocked net c of
        (False, c1) \<Rightarrow> ((Inl DialFailed, False), c1)
      | (True, c1) \<Rightarrow>
          (let n = rcTrips c1; c2 = c1\<lparr>rcTrips := Suc n\<rparr>
           in if \<not> nWrite net n then ((Inl WriteFailed, False), c2\<lparr>rcConn := False\<rparr>)
              else
                let c3 = c2\<lparr>rcSent := rcSent c2 @ [req]\<rparr>
                in ((read_response (nRead net n) (rrId req), True), (if nRead net n = ReadFails then c3\<lparr>rcConn := False\<rparr> else c3))))"

definition count_error :: "RPCClient \<Rightarrow> RPCClient" where
  "count_error c = c\<lparr>rcErrors := i64 (rcErrors c + 1)\<rparr>"

definition retry_call :: "rpc_net \<Rightarrow> rpc_request \<Rightarrow> rpc_failure \<Rightarrow> RPCClient \<Rightarrow> (rpc_failure + string) \<times> RPCClient" where
  "retry_call net req e c =
     (case connectLocked net c of
        (False, c1) \<Rightarrow> (Inl e, count_error c1)
      | (True, c1) \<Rightarrow>
          (case roundTripLocked net req c1 of
             ((Inl e2, _), c2) \<Rightarrow> (Inl e2, count_error c2)
           | ((Inr out, _), c2) \<Rightarrow> (Inr out, c2)))"

definition call_request :: "string \<Rightarrow> string \<Rightarrow> jobject \<Rightarrow> RPCClient \<Rightarrow> rpc_request" where
  "call_request adminEnv meth params c =
     applyRPCAuth (rcToken c) adminEnv
       \<lparr>rrId = i64 (rcId c + 1), rrMethod = meth, rrParams = params, rrAuthToken = None, rrAdminToken = None\<rparr>"

definition Call :: "rpc_net \<Rightarrow> string \<Rightarrow> string \<Rightarrow> jobject \<Rightarrow> RPCClient \<Rightarrow> (rpc_failure + string) \<times> RPCClient" where
  "Call net adminEnv meth params c0 =
     (let req = call_request adminEnv meth params c0; c = c0\<lparr>rcId := i64 (rcId c0 + 1)\<rparr>
      in case roundTripLocked net req c of
           ((Inr out, _), c1) \<Rightarrow> (Inr out, c1)
         | ((Inl e, wrote), c1) \<Rightarrow>
             (if wrote \<and> isMutatingRPCMethod meth then (Inl (RefusingRetry e), count_error c1)
              else retry_call net req e c1))"

text \<open>\<open>Handshake\<close>, with what Core's answer decodes to: \<open>ok\<close> and the protocol.\<close>

datatype handshake_error = HandshakeCall rpc_failure | HandshakeParse | HandshakeRejected

definition Handshake ::
  "(string \<Rightarrow> (bool \<times> int) option) \<Rightarrow> rpc_net \<Rightarrow> string \<Rightarrow> RPCClient \<Rightarrow> handshake_error option \<times> RPCClient" where
  "Handshake decode net adminEnv c =
     (case Call net adminEnv ''handshake'' [] c of
        (Inl e, c1) \<Rightarrow> (Some (HandshakeCall e), c1)
      | (Inr out, c1) \<Rightarrow>
          (case decode out of
             None \<Rightarrow> (Some HandshakeParse, c1)
           | Some (ok, protocol) \<Rightarrow> ((if \<not> ok \<or> protocol < 2 then Some HandshakeRejected else None), c1)))"

subsection \<open>What is sent\<close>

lemma connectLocked_keeps: "connectLocked net c = (ok, c1) \<Longrightarrow> rcSent c1 = rcSent c \<and> rcTrips c1 = rcTrips c \<and> rcConn c1 = ok"
  by (auto simp: connectLocked_def Let_def)

lemma ensureConnLocked_keeps: "ensureConnLocked net c = (ok, c1) \<Longrightarrow> rcSent c1 = rcSent c \<and> rcTrips c1 = rcTrips c"
  by (auto simp: ensureConnLocked_def dest: connectLocked_keeps split: if_splits)

lemma roundTrip_sent:
  assumes "roundTripLocked net req c = ((r, wrote), c1)"
  shows "rcSent c1 = rcSent c @ (if wrote then [req] else [])"
    and "r = Inr out \<Longrightarrow> wrote \<and> nRead net (rcTrips c) = RpcResult (rrId req) out"
proof -
  obtain ok c' where e: "ensureConnLocked net c = (ok, c')" by fastforce
  note k = ensureConnLocked_keeps [OF e]
  show "rcSent c1 = rcSent c @ (if wrote then [req] else [])"
    using assms e k by (auto simp: roundTripLocked_def Let_def split: bool.splits if_splits)
  assume "r = Inr out"
  then show "wrote \<and> nRead net (rcTrips c) = RpcResult (rrId req) out"
    using assms e k by (auto simp: roundTripLocked_def read_response_def Let_def split: bool.splits if_splits rpc_line.splits)
qed

lemma retry_sent:
  assumes "retry_call net req e c = (r, c1)"
  shows "\<exists>again. rcSent c1 = rcSent c @ (if again then [req] else []) \<and>
           (\<forall>out. r = Inr out \<longrightarrow> again \<and> nRead net (rcTrips c) = RpcResult (rrId req) out)"
proof -
  obtain ok c' where d: "connectLocked net c = (ok, c')" by fastforce
  note k = connectLocked_keeps [OF d]
  show ?thesis
  proof (cases ok)
    case False
    then have "c1 = count_error c'" "r = Inl e" using assms d by (auto simp: retry_call_def)
    then show ?thesis using k by (intro exI [of _ False]) (simp add: count_error_def)
  next
    case True
    obtain r2 w c2 where rt: "roundTripLocked net req c' = ((r2, w), c2)" by (metis prod.exhaust)
    have "r = r2" "rcSent c1 = rcSent c2"
      using assms d True rt by (auto simp: retry_call_def count_error_def split: sum.splits)
    then show ?thesis using roundTrip_sent [OF rt] k by (intro exI [of _ w]) auto
  qed
qed

text \<open>C32: a call of a method that \<open>isMutatingRPCMethod\<close> lists is not repeated. Whatever the network does, a call of a listed method
  completes the write of its request at most once, and a call of any other method, also of one that changes Core's state but is not
  listed, at most twice; if the call succeeds, the request was written and the text that is returned is the result of a response with
  the identifier of this very request; the storage token goes out with the three storage methods only. (A write counts as completed when
  \<open>Fprintf\<close> reports no error; one that fails part of the way counts as not written, as in the code, and is tried once more.)\<close>

theorem mutating_call_sent_once:
  assumes "Call net adminEnv meth params c = (r, c1)"
  shows "\<exists>k. rcSent c1 = rcSent c @ replicate k (call_request adminEnv meth params c) \<and>
           k \<le> (if isMutatingRPCMethod meth then 1 else 2) \<and>
           (\<forall>out. r = Inr out \<longrightarrow>
              0 < k \<and> (\<exists>n \<ge> rcTrips c. nRead net n = RpcResult (i64 (rcId c + 1)) out)) \<and>
           (rrAdminToken (call_request adminEnv meth params c) \<noteq> None \<longrightarrow> isRocksAdminMethod meth)"
proof -
  let ?req = "call_request adminEnv meth params c"
  let ?c = "c\<lparr>rcId := i64 (rcId c + 1)\<rparr>"
  have rid: "rrId ?req = i64 (rcId c + 1)" and admin: "rrAdminToken ?req \<noteq> None \<longrightarrow> isRocksAdminMethod meth"
    by (simp_all add: call_request_def applyRPCAuth_def)
  obtain r1 w c2 where rt: "roundTripLocked net ?req ?c = ((r1, w), c2)" by (metis prod.exhaust)
  note sent = roundTrip_sent [OF rt]
  have first: "rcSent c2 = rcSent c @ (if w then [?req] else [])" using sent(1) by simp
  show ?thesis
  proof (cases r1)
    case (Inr out)
    then have "r = Inr out" "c1 = c2" using assms rt by (simp_all add: Call_def Let_def)
    moreover have "w" "nRead net (rcTrips c) = RpcResult (i64 (rcId c + 1)) out" using sent(2) [OF Inr] rid by simp_all
    ultimately show ?thesis using first admin by (intro exI [of _ 1]) auto
  next
    case (Inl e)
    show ?thesis
    proof (cases "w \<and> isMutatingRPCMethod meth")
      case True
      then have "r = Inl (RefusingRetry e)" "c1 = count_error c2" using assms rt Inl by (auto simp: Call_def Let_def)
      then show ?thesis using first True admin by (intro exI [of _ 1]) (simp add: count_error_def)
    next
      case False
      then have "retry_call net ?req e c2 = (r, c1)" using assms rt Inl by (auto simp: Call_def Let_def)
      from retry_sent [OF this] obtain again where again: "rcSent c1 = rcSent c2 @ (if again then [?req] else [])"
          "\<forall>out. r = Inr out \<longrightarrow> again \<and> nRead net (rcTrips c2) = RpcResult (rrId ?req) out" by blast
      have trips: "rcTrips c \<le> rcTrips c2"
        using rt ensureConnLocked_keeps [of net ?c] by (auto simp: roundTripLocked_def Let_def split: prod.splits bool.splits if_splits)
      show ?thesis
        using first again False trips admin rid
        by (intro exI [of _ "(if w then 1 else 0) + (if again then 1 else 0)"]) (auto simp: numeral_2_eq_2)
    qed
  qed
qed

definition fresh_client :: RPCClient where
  "fresh_client = \<lparr>rcConn = True, rcId = 0, rcToken = ''t'', rcDials = 1, rcTrips = 0, rcSent = [], rcErrors = 0\<rparr>"

text \<open>A network that accepts everything and loses the first response.\<close>

definition lossy_net :: rpc_net where
  "lossy_net = \<lparr>nDial = (\<lambda>_. True), nWrite = (\<lambda>_. True), nRead = (\<lambda>n. if n = 0 then ReadFails else RpcResult 1 ''ok'')\<rparr>"

theorem mutating_call_sent_once_witness:
  "fst (Call lossy_net [] ''state_apply_tx'' [] fresh_client) = Inl (RefusingRetry ReadFailed) \<and>
   (\<exists>k \<le> 1. rcSent (snd (Call lossy_net [] ''state_apply_tx'' [] fresh_client))
     = replicate k (call_request [] ''state_apply_tx'' [] fresh_client))"
proof -
  obtain r c1 where c: "Call lossy_net [] ''state_apply_tx'' [] fresh_client = (r, c1)" by fastforce
  have "r = Inl (RefusingRetry ReadFailed)" using c by (simp add: Call_def Let_def roundTripLocked_def ensureConnLocked_def
      fresh_client_def lossy_net_def read_response_def isMutatingRPCMethod_def)
  moreover have "isMutatingRPCMethod ''state_apply_tx''" "rcSent fresh_client = []"
    by (simp_all add: isMutatingRPCMethod_def fresh_client_def)
  ultimately show ?thesis using mutating_call_sent_once [OF c] c by auto
qed

text \<open>Remark: A connection that went stale costs no call: when the write fails, the client dials again and the answer to the second write
  counts, for mutating methods as well.\<close>

theorem stale_connection_recovered:
  assumes "rcConn c" "\<not> nWrite net (rcTrips c)" "nDial net (rcDials c)" "nWrite net (Suc (rcTrips c))"
    and "nRead net (Suc (rcTrips c)) = RpcResult (i64 (rcId c + 1)) out"
  shows "fst (Call net adminEnv meth params c) = Inr out"
  using assms by (simp add: Call_def Let_def roundTripLocked_def ensureConnLocked_def retry_call_def connectLocked_def read_response_def
      call_request_def applyRPCAuth_def)

text \<open>Remark: Methods that change Core's state and are missing in the list of mutating methods are sent twice when a response is lost.\<close>

theorem unlisted_method_sent_twice:
  "length (rcSent (snd (Call lossy_net [] ''dag_propose'' [] fresh_client))) = 2 \<and>
   length (rcSent (snd (Call lossy_net [] ''state_init'' [] fresh_client))) = 2"
  by (simp add: Call_def Let_def roundTripLocked_def ensureConnLocked_def retry_call_def connectLocked_def read_response_def
      fresh_client_def lossy_net_def isMutatingRPCMethod_def call_request_def applyRPCAuth_def)

text \<open>Remark: The value of an option that starts with two dashes is taken for another option.\<close>

theorem dashed_value_lost:
  "cliArgsToParams [''sign-message'', ''--message'', ''--x''] = [(''message'', JBool True), (''x'', JBool True)]"
  by code_simp

subsection \<open>Spilled arguments\<close>

text \<open>What the subprocess reads: a flagged value with a leading \<open>@\<close> names a file.\<close>

fun expand_args :: "files \<Rightarrow> string list \<Rightarrow> string list" where
  "expand_args fs [] = []"
| "expand_args fs [flag] = [flag]"
| "expand_args fs (flag # val # args) =
     (if flag \<notin> set spillJSONFlags then flag # expand_args fs (val # args)
      else flag # (if HasPrefix val ''@'' then (case map_of fs (drop 1 val) of Some v \<Rightarrow> v | None \<Rightarrow> val) else val) # expand_args fs args)"

fun plain_args :: "string list \<Rightarrow> bool" where
  "plain_args [] = True"
| "plain_args [flag] = True"
| "plain_args (flag # val # args) =
     (if flag \<notin> set spillJSONFlags then plain_args (val # args) else \<not> HasPrefix val ''@'' \<and> plain_args args)"

fun args_fit :: "string list \<Rightarrow> bool" where
  "args_fit [] = True"
| "args_fit [flag] = True"
| "args_fit (flag # val # args) =
     (if flag \<notin> set spillJSONFlags then args_fit (val # args)
      else (HasPrefix val ''@'' \<or> length val \<le> cliJSONSpillBytes) \<and> args_fit args)"

lemma expand_args_Nil: "expand_args fs xs = [] \<longleftrightarrow> xs = []"
  by (induction fs xs rule: expand_args.induct) auto

lemma map_of_remove_files: "map_of (remove_files ps fs) k = (if k \<in> set ps then None else map_of fs k)"
  by (induction ps arbitrary: fs) (auto simp: remove_files_def delete_conv')

lemma spill_loop_ok:
  assumes "spill_loop cwd spill io args out paths fs = (Inr (out', paths'), fs')" "plain_args args"
    and "\<forall>i j p. siTemp io i = Some p \<longrightarrow> siTemp io j = Some p \<longrightarrow> i = j"
  shows "\<exists>rest new. out' = out @ rest \<and> paths' = paths @ new \<and> expand_args fs' rest = args \<and> args_fit rest \<and>
           (\<forall>p \<in> set new. \<exists>j \<ge> length paths. siTemp io j = Some p) \<and> (\<forall>k. k \<notin> set new \<longrightarrow> map_of fs' k = map_of fs k)"
  using assms
proof (induction cwd spill io args out paths fs rule: spill_loop.induct)
  case (1 cwd spill io out paths fs)
  then show ?case by simp
next
  case (2 cwd spill io flag out paths fs)
  then show ?case by (intro exI [of _ "[flag]"] exI [of _ "[]"]) auto
next
  case (3 cwd spill io flag val args out paths fs)
  show ?case
  proof (cases "flag \<in> set spillJSONFlags")
    case False
    then have "spill_loop cwd spill io (val # args) (out @ [flag]) paths fs = (Inr (out', paths'), fs')" "plain_args (val # args)"
      using 3 by simp_all
    from "3.IH"(1) [OF False this "3.prems"(3)] obtain rest new where
      *: "out' = (out @ [flag]) @ rest" "paths' = paths @ new" "expand_args fs' rest = val # args" "args_fit rest"
        "\<forall>p \<in> set new. \<exists>j \<ge> length paths. siTemp io j = Some p" "\<forall>k. k \<notin> set new \<longrightarrow> map_of fs' k = map_of fs k" by blast
    then obtain x xs where "rest = x # xs" by (cases rest) auto
    with * False show ?thesis by (intro exI [of _ "flag # rest"] exI [of _ new]) auto
  next
    case True
    then have at: "\<not> HasPrefix val ''@''" and pl: "plain_args args" using "3.prems"(2) by simp_all
    show ?thesis
    proof (cases "length val \<le> cliJSONSpillBytes")
      case short: True
      then have run: "spill_loop cwd spill io args (out @ [flag, val]) paths fs = (Inr (out', paths'), fs')"
        using True at "3.prems"(1) by simp
      have "\<exists>rest new. out' = (out @ [flag, val]) @ rest \<and> paths' = paths @ new \<and> expand_args fs' rest = args \<and> args_fit rest \<and>
           (\<forall>p \<in> set new. \<exists>j \<ge> length paths. siTemp io j = Some p) \<and> (\<forall>k. k \<notin> set new \<longrightarrow> map_of fs' k = map_of fs k)"
        using "3.IH"(3) True at short run pl "3.prems"(3) by simp
      then obtain rest new where *: "out' = (out @ [flag, val]) @ rest" "paths' = paths @ new" "expand_args fs' rest = args" "args_fit rest"
        "\<forall>p \<in> set new. \<exists>j \<ge> length paths. siTemp io j = Some p" "\<forall>k. k \<notin> set new \<longrightarrow> map_of fs' k = map_of fs k" by blast
      with True at short show ?thesis by (intro exI [of _ "flag # val # rest"] exI [of _ new]) simp
    next
      case long: False
      then obtain path where path: "siTemp io (length paths) = Some path" and w: "siWrite io (length paths)"
        and run: "spill_loop cwd spill io args (out @ [flag, CHR ''@'' # path]) (paths @ [path]) (AList.update path val fs)
                  = (Inr (out', paths'), fs')"
        using True at "3.prems"(1) by (auto split: option.splits if_splits)
      have "\<exists>rest new. out' = (out @ [flag, CHR ''@'' # path]) @ rest \<and> paths' = (paths @ [path]) @ new \<and> expand_args fs' rest = args \<and>
           args_fit rest \<and> (\<forall>p \<in> set new. \<exists>j \<ge> length (paths @ [path]). siTemp io j = Some p) \<and>
           (\<forall>k. k \<notin> set new \<longrightarrow> map_of fs' k = map_of (AList.update path val fs) k)"
        using "3.IH"(4) True at long path w run pl "3.prems"(3) by simp
      then obtain rest new where *: "out' = (out @ [flag, CHR ''@'' # path]) @ rest" "paths' = (paths @ [path]) @ new"
        "expand_args fs' rest = args" "args_fit rest" "\<forall>p \<in> set new. \<exists>j \<ge> length (paths @ [path]). siTemp io j = Some p"
        "\<forall>k. k \<notin> set new \<longrightarrow> map_of fs' k = map_of (AList.update path val fs) k" by blast
      have "path \<notin> set new" using *(5) path "3.prems"(3) by fastforce
      then have "map_of fs' path = Some val" using *(6) by (simp add: update_conv' del: map_of_eq_Some_iff)
      then have e: "expand_args fs' (flag # (CHR ''@'' # path) # rest) = flag # val # args"
        using True *(3) by (simp add: HasPrefix_def del: map_of_eq_Some_iff)
      have fit: "args_fit (flag # (CHR ''@'' # path) # rest)" using *(4) True by (simp add: HasPrefix_def)
      have names: "\<forall>p \<in> set (path # new). \<exists>j \<ge> length paths. siTemp io j = Some p"
        using *(5) path by (auto intro: Suc_leD)
      have files: "\<forall>k. k \<notin> set (path # new) \<longrightarrow> map_of fs' k = map_of fs k"
        using *(6) by (simp add: update_conv' del: map_of_eq_Some_iff)
      show ?thesis
        using *(1,2) e fit names files by (intro exI [of _ "flag # (CHR ''@'' # path) # rest"] exI [of _ "path # new"]) simp
    qed
  qed
qed

lemma spill_loop_error:
  assumes "spill_loop cwd spill io args out paths fs = (Inl e, fs')"
  shows "map_of fs' k = (if k \<in> set paths then None else map_of fs k) \<or> map_of fs' k = None \<and> (\<exists>j. siTemp io j = Some k)"
  using assms
proof (induction cwd spill io args out paths fs rule: spill_loop.induct)
  case (3 cwd spill io flag val args out paths fs)
  show ?case
  proof (cases "flag \<in> set spillJSONFlags \<and> \<not> HasPrefix val ''@'' \<and> \<not> length val \<le> cliJSONSpillBytes")
    case False
    then show ?thesis using 3 by (auto simp: map_of_remove_files simp del: map_of_eq_Some_iff split: if_splits)
  next
    case True
    show ?thesis
    proof (cases "siTemp io (length paths)")
      case None
      then have "fs' = remove_files paths fs" using True "3.prems" by simp
      then show ?thesis by (simp add: map_of_remove_files)
    next
      case (Some path)
      show ?thesis
      proof (cases "siWrite io (length paths)")
        case False
        then have "fs' = remove_files paths (AList.delete path fs)" using True Some "3.prems" by simp
        then show ?thesis using Some by (auto simp: map_of_remove_files delete_conv' simp del: map_of_eq_Some_iff)
      next
        case w: True
        then have "spill_loop cwd spill io args (out @ [flag, CHR ''@'' # path]) (paths @ [path]) (AList.update path val fs) = (Inl e, fs')"
          using True Some "3.prems" by simp
        then have "map_of fs' k = (if k \<in> set (paths @ [path]) then None else map_of (AList.update path val fs) k) \<or>
            map_of fs' k = None \<and> (\<exists>j. siTemp io j = Some k)"
          using "3.IH"(4) True Some w by simp
        then show ?thesis using Some by (auto simp: update_conv' simp del: map_of_eq_Some_iff split: if_splits)
      qed
    qed
  qed
qed simp_all

text \<open>Remark: Spilling is transparent and leaves nothing behind. When it succeeds, a subprocess that reads the named files sees the original
  arguments, no JSON argument that stays inline is over the limit, and the cleanup gives the file system of before; when it fails,
  the file system is the one of before at once. Temporary names are new and differ from each other.\<close>

theorem spill_transparent:
  assumes "spillLargeCLIArgs cwd spill io args fs = (r, fs')" "plain_args args"
    and "\<forall>i j p. siTemp io i = Some p \<longrightarrow> siTemp io j = Some p \<longrightarrow> i = j"
    and "\<forall>i p. siTemp io i = Some p \<longrightarrow> map_of fs p = None"
  shows "case r of
           Inl e \<Rightarrow> (\<forall>k. map_of fs' k = map_of fs k)
         | Inr (out, paths) \<Rightarrow> expand_args fs' out = args \<and> args_fit out \<and> (\<forall>k. map_of (remove_files paths fs') k = map_of fs k)"
proof (cases r)
  case (Inl e)
  then have "map_of fs' k = map_of fs k" for k
    using spill_loop_error [of cwd spill io args "[]" "[]" fs e fs' k] assms(1,4) by (auto simp: spillLargeCLIArgs_def)
  with Inl show ?thesis by simp
next
  case (Inr x)
  obtain out paths where x: "x = (out, paths)" by (cases x)
  have "spill_loop cwd spill io args [] [] fs = (Inr (out, paths), fs')" using assms(1) Inr x by (simp add: spillLargeCLIArgs_def)
  from spill_loop_ok [OF this assms(2,3)] obtain rest new where
    *: "out = rest" "paths = new" "expand_args fs' rest = args" "args_fit rest"
      "\<forall>p \<in> set new. \<exists>j. siTemp io j = Some p" "\<forall>k. k \<notin> set new \<longrightarrow> map_of fs' k = map_of fs k" by auto
  have "map_of (remove_files paths fs') k = map_of fs k" for k
    using *(2,5,6) assms(4) by (cases "k \<in> set new") (auto simp: map_of_remove_files simp del: map_of_eq_Some_iff)
  with Inr x * show ?thesis by simp
qed

end
