(* ===== verification/Dag_Calls.thy ===== *)
theory Dag_Calls
  imports Block_Production Core_Client
begin

text \<open>
  The calls of Core's DAG store (\<^verbatim>\<open>internal/core/dag.go\<close>), the wire form of a vertex, and the handling of a vertex that a peer sends
  (\<open>onDagVertex\<close> of \<^verbatim>\<open>internal/handlers/handlers.go\<close>). A call is a request over the client of Core\_Client; decoding its answer is an
  argument, \<open>None\<close> for text that does not decode. A client of \<open>None\<close> is a Core in subprocess mode.
\<close>

record DagVertexWire =
  dvID :: string
  dvRound :: u64
  dvAuthor :: string
  dvParents :: "string list"
  dvTxDigests :: "string list"

datatype dag_error = DagNeedsRpc | DagCallFailed rpc_failure | DagParse

record dag_link =
  dlNet :: rpc_net
  dlAdmin :: string

definition dag_call ::
  "dag_link \<Rightarrow> (string \<Rightarrow> 'a option) \<Rightarrow> string \<Rightarrow> jobject \<Rightarrow> RPCClient option \<Rightarrow> (dag_error + 'a) \<times> RPCClient option" where
  "dag_call lk decode meth params client =
     (case client of
        None \<Rightarrow> (Inl DagNeedsRpc, None)
      | Some c \<Rightarrow>
          (case Call (dlNet lk) (dlAdmin lk) meth params c of
             (Inl e, c1) \<Rightarrow> (Inl (DagCallFailed e), Some c1)
           | (Inr out, c1) \<Rightarrow> ((case decode out of None \<Rightarrow> Inl DagParse | Some r \<Rightarrow> Inr r), Some c1)))"

definition jstrs :: "string list \<Rightarrow> json" where
  "jstrs xs = JArr (map JStr xs)"

definition DagReset :: "dag_link \<Rightarrow> RPCClient option \<Rightarrow> (dag_error + unit) \<times> RPCClient option" where
  "DagReset lk client = dag_call lk (\<lambda>_. Some ()) ''dag_reset'' [] client"

record DagInsertResult =
  diOK :: bool
  diID :: string

definition DagInsert ::
  "dag_link \<Rightarrow> (string \<Rightarrow> DagInsertResult option) \<Rightarrow> u64 \<Rightarrow> string \<Rightarrow> string list \<Rightarrow> string list \<Rightarrow> RPCClient option
   \<Rightarrow> (dag_error + DagInsertResult) \<times> RPCClient option" where
  "DagInsert lk decode round author parents digests client =
     dag_call lk decode ''dag_insert''
       [(''vertex'', JObj [(''round'', JNum (uint round)), (''author'', JStr author), (''parents'', jstrs parents), (''tx_digests'', jstrs digests)])]
       client"

record DagLinearizeResult =
  dlrOK :: bool
  dlrDigests :: "string list"
  dlrVertexOrder :: "string list"

definition DagLinearize ::
  "dag_link \<Rightarrow> (string \<Rightarrow> DagLinearizeResult option) \<Rightarrow> string \<Rightarrow> RPCClient option \<Rightarrow> (dag_error + DagLinearizeResult) \<times> RPCClient option" where
  "DagLinearize lk decode anchor client = dag_call lk decode ''dag_linearize'' [(''anchor'', JStr anchor)] client"

record DagTryCommitResult =
  dtOK :: bool
  dtCommitted :: bool
  dtAnchor :: string
  dtDigests :: "string list"
  dtVertexOrder :: "string list"
  dtRound :: u64

definition DagTryCommit ::
  "dag_link \<Rightarrow> (string \<Rightarrow> DagTryCommitResult option) \<Rightarrow> u64 \<Rightarrow> string list \<Rightarrow> int \<Rightarrow> RPCClient option
   \<Rightarrow> (dag_error + DagTryCommitResult) \<times> RPCClient option" where
  "DagTryCommit lk decode round committee f client =
     dag_call lk decode ''dag_try_commit'' [(''round'', JNum (uint round)), (''committee'', jstrs committee), (''f'', JNum f)] client"

record DagOrderDigestsResult =
  doOK :: bool
  doDigests :: "string list"
  doVertexOrder :: "string list"
  doTip :: string

definition DagOrderDigests ::
  "dag_link \<Rightarrow> (string \<Rightarrow> DagOrderDigestsResult option) \<Rightarrow> string \<Rightarrow> string list \<Rightarrow> RPCClient option
   \<Rightarrow> (dag_error + DagOrderDigestsResult) \<times> RPCClient option" where
  "DagOrderDigests lk decode producer digests client =
     dag_call lk decode ''dag_order_digests''
       [(''producer'', JStr (if producer = [] then ''n0'' else producer)), (''digests'', jstrs digests)] client"

record DagEnsureGenesisResult =
  dgOK :: bool
  dgStatus :: string
  dgVertex :: DagVertexWire
  dgError :: string

definition DagEnsureGenesis ::
  "dag_link \<Rightarrow> (string \<Rightarrow> DagEnsureGenesisResult option) \<Rightarrow> RPCClient option \<Rightarrow> (dag_error + DagEnsureGenesisResult) \<times> RPCClient option" where
  "DagEnsureGenesis lk decode client = dag_call lk decode ''dag_ensure_genesis'' [] client"

definition DagTryCommitBatches ::
  "dag_link \<Rightarrow> (string \<Rightarrow> DagTryCommitResult option) \<Rightarrow> u64 \<Rightarrow> string list \<Rightarrow> int option \<Rightarrow> RPCClient option
   \<Rightarrow> (dag_error + DagTryCommitResult) \<times> RPCClient option" where
  "DagTryCommitBatches lk decode batchRound committee f client =
     dag_call lk decode ''dag_try_commit_batches''
       ([(''batch_round'', JNum (uint batchRound)), (''committee'', jstrs committee)] @
        (case f of None \<Rightarrow> [] | Some x \<Rightarrow> [(''f'', JNum x)])) client"

definition DagLastCommit ::
  "dag_link \<Rightarrow> (string \<Rightarrow> DagTryCommitResult option) \<Rightarrow> RPCClient option \<Rightarrow> (dag_error + DagTryCommitResult) \<times> RPCClient option" where
  "DagLastCommit lk decode client = dag_call lk decode ''dag_last_commit'' [] client"

record DagProposeResult =
  dpOK :: bool
  dpStatus :: string
  dpVertex :: DagVertexWire
  dpMissingParents :: "string list"
  dpFlushed :: "string list"
  dpError :: string

definition DagPropose ::
  "dag_link \<Rightarrow> (string \<Rightarrow> DagProposeResult option) \<Rightarrow> u64 \<Rightarrow> string \<Rightarrow> string list \<Rightarrow> string list \<Rightarrow> RPCClient option
   \<Rightarrow> (dag_error + DagProposeResult) \<times> RPCClient option" where
  "DagPropose lk decode round author parents digests client =
     dag_call lk decode ''dag_propose''
       [(''round'', JNum (uint round)), (''author'', JStr (if author = [] then ''n0'' else author)), (''parents'', jstrs parents),
        (''tx_digests'', jstrs digests)] client"

record DagIngestResult =
  dnOK :: bool
  dnStatus :: string
  dnID :: string
  dnMissingParents :: "string list"
  dnFlushed :: "string list"
  dnError :: string

definition ingest_params :: "DagVertexWire \<Rightarrow> jobject" where
  "ingest_params v =
     [(''vertex'', JObj [(''id'', JStr (dvID v)), (''round'', JNum (uint (dvRound v))), (''author'', JStr (dvAuthor v)),
        (''parents'', jstrs (dvParents v)), (''tx_digests'', jstrs (dvTxDigests v))])]"

definition DagIngest ::
  "dag_link \<Rightarrow> (string \<Rightarrow> DagIngestResult option) \<Rightarrow> DagVertexWire \<Rightarrow> RPCClient option
   \<Rightarrow> (dag_error + DagIngestResult) \<times> RPCClient option" where
  "DagIngest lk decode v client = dag_call lk decode ''dag_ingest'' (ingest_params v) client"

subsection \<open>Vertices on the wire\<close>

definition VertexToMap :: "DagVertexWire \<Rightarrow> jobject" where
  "VertexToMap v =
     [(''id'', JStr (dvID v)), (''round'', wire_num (uint (dvRound v))), (''author'', JStr (dvAuthor v)), (''parents'', jstrs (dvParents v)),
      (''tx_digests'', jstrs (dvTxDigests v))]"

definition stringSliceFromAny :: "json option \<Rightarrow> string list" where
  "stringSliceFromAny raw = (case raw of Some (JArr xs) \<Rightarrow> strings_of xs | _ \<Rightarrow> [])"

definition VertexFromMap :: "jobject \<Rightarrow> DagVertexWire option" where
  "VertexFromMap m =
     (let i = getString m ''id''; author = getString m ''author''
      in if i = [] \<or> author = [] then None
         else Some \<lparr>dvID = i, dvRound = word_of_int (getNum m ''round''), dvAuthor = author,
                    dvParents = stringSliceFromAny (map_of m ''parents''), dvTxDigests = stringSliceFromAny (map_of m ''tx_digests'')\<rparr>)"

text \<open>A vertex from a peer: ingested by Core, then a commit is tried.\<close>

definition onDagVertex ::
  "('c, 'r) world \<Rightarrow> dag_link \<Rightarrow> (string \<Rightarrow> DagIngestResult option) \<Rightarrow> jobject \<Rightarrow> RPCClient option \<times> 'c Blockchain
   \<Rightarrow> RPCClient option \<times> 'c Blockchain" where
  "onDagVertex w lk decode payload st =
     (case st of (client, bc) \<Rightarrow>
        if \<not> DagP2PEnabled (wDagP2P w) then st
        else case VertexFromMap payload of
            None \<Rightarrow> st
          | Some v \<Rightarrow>
              (case DagIngest lk decode v client of
                 (Inl e, client1) \<Rightarrow> (client1, bc)
               | (Inr res, client1) \<Rightarrow> (client1, maybeTryDagBatchCommit w bc)))"

subsection \<open>A vertex arrives as it was sent\<close>

lemma VertexFromMap_VertexToMap:
  assumes "dvID v \<noteq> []" "dvAuthor v \<noteq> []" "uint (dvRound v) < 2 ^ 53"
  shows "VertexFromMap (VertexToMap v) = Some v"
proof -
  have "f64 (uint (dvRound v)) = uint (dvRound v)" using assms(3) by (intro f64_exact) simp
  then have "getNum (VertexToMap v) ''round'' = uint (dvRound v)" by (simp add: VertexToMap_def json_defs wire_num_def)
  then show ?thesis using assms
    by (simp add: VertexFromMap_def VertexToMap_def json_defs stringSliceFromAny_def jstrs_def Let_def)
qed

lemma Call_sent:
  assumes "Call net adminEnv meth params c = (r, c1)"
  shows "set (rcSent c1) \<subseteq> insert (call_request adminEnv meth params c) (set (rcSent c))"
proof -
  let ?req = "call_request adminEnv meth params c"
  obtain r1 w c2 where rt: "roundTripLocked net ?req (c\<lparr>rcId := i64 (rcId c + 1)\<rparr>) = ((r1, w), c2)" by (metis prod.exhaust)
  have first: "set (rcSent c2) \<subseteq> insert ?req (set (rcSent c))" using roundTrip_sent(1) [OF rt] by auto
  have retry: "retry_call net ?req e c2 = (r, c1) \<Longrightarrow> set (rcSent c1) \<subseteq> insert ?req (set (rcSent c))" for e
    using retry_sent [of net ?req e c2 r c1] first by auto
  show ?thesis using assms rt first retry by (auto simp: Call_def Let_def count_error_def split: sum.splits if_splits)
qed

text \<open>Remark: The vertex that a peer broadcasts is the vertex that Core is asked to ingest: a payload that was written from a vertex with a round
  below 2^53 leads to no other request than the one with that vertex, and history, mempool and pending block stay.\<close>

theorem dag_vertex_reaches_core:
  assumes "dvID v \<noteq> []" "dvAuthor v \<noteq> []" "uint (dvRound v) < 2 ^ 53"
    and "onDagVertex w lk decode (VertexToMap v) (Some c, bc) = (Some c1, bc1)"
  shows "set (rcSent c1) \<subseteq> insert (call_request (dlAdmin lk) ''dag_ingest'' (ingest_params v) c) (set (rcSent c)) \<and>
         blockHistory bc1 = blockHistory bc \<and> mempool bc1 = mempool bc \<and> pendingBlock bc1 = pendingBlock bc"
proof -
  have keeps: "blockHistory (maybeTryDagBatchCommit w bc) = blockHistory bc \<and> mempool (maybeTryDagBatchCommit w bc) = mempool bc \<and>
      pendingBlock (maybeTryDagBatchCommit w bc) = pendingBlock bc"
    by (auto simp: maybeTryDagBatchCommit_def applyDagCommit_def SetDagCommitDigests_def Let_def split: option.splits prod.splits bool.splits)
  show ?thesis
    using assms(4) keeps Call_sent [of "dlNet lk" "dlAdmin lk" "''dag_ingest''" "ingest_params v" c]
    by (auto simp: onDagVertex_def VertexFromMap_VertexToMap [OF assms(1-3)] DagIngest_def dag_call_def
        split: if_splits prod.splits sum.splits option.splits)
qed

end
