(* ===== verification/Spec2Isabelle.thy ===== *)
theory Spec2Isabelle
  imports Messaging Chain_Sync Startup Chain_Rpc Channel_Identity Diagnostics Consensus_Routes Send_Api Explorer_Api Dag_Calls
begin

text \<open>
  Verification of PlatariumGatewayGO, the Go gateway of the Platarium network.

  \<^bold>\<open>The program.\<close> A gateway node keeps the explorer's view of the chain (\<open>internal/blockchain\<close>): the
  mempool, one pending block, the block history, indexes, a JSON snapshot and a durable pool of
  admitted transactions. The ledger itself is PlatariumCore, a Rust process that the gateway only calls. The
  handlers (\<open>internal/handlers\<close>) produce blocks in two voted phases: L1 selects transactions from the mempool
  into the pending block, L2 confirms the pending block, and both ask a committee of peers for votes,
  chosen by the rating registry (\<open>internal/rating\<close>). A confirmed block gets a header, is committed to
  RocksDB, and its fees are split and distributed (\<open>internal/rewards\<close>). Peer blocks and votes arrive over
  websockets. Beside consensus the gateway runs the dispute panel of deals (\<open>internal/deals\<close>), contact
  requests, a faucet and a request limiter.

  \<^bold>\<open>Theories and sources.\<close>
  \<^item> \<open>Gateway_Prelude\<close>, \<open>Go_Strings\<close>, \<open>Hashing\<close>: 64-bit integers, nil-able slices, Go maps as
    association lists in iteration order, \<open>strings\<close> and \<open>strconv\<close>, SHA-256 and hex; the locales
    \<open>event_machine\<close>, \<open>growing_machine\<close> and \<open>guarded_machine\<close> that the components interpret.
  \<^item> \<open>Chain_Data\<close> (\<open>blockchain.go\<close> types, \<open>tx_core.go\<close>, \<open>token_xp.go\<close>), \<open>Chain_Views\<close> (\<open>fork_choice.go\<close>,
    \<open>tip_freeze.go\<close>, \<open>blocks_page.go\<close>), \<open>Tx_Pool\<close> (\<open>txpool/store.go\<close>), \<open>Blockchain_State\<close> (the
    \<open>Blockchain\<close> record and \<open>persistChain\<close>).
  \<^item> \<open>Mempool\<close> (admission into the mempool, pending block, snapshots, \<open>mempool_prune.go\<close>),
    \<open>Dag_Order\<close> (\<open>core/dag.go\<close> ordering), \<open>Confirm\<close> (\<open>L2ConfirmBlock\<close>, \<open>AddConfirmedBlock\<close>,
    \<open>ConfirmMempoolToChain\<close>, undo), \<open>Chain_Store\<close> (loading the snapshot, restoring the pool), \<open>Explorer\<close>
    (reads, RocksDB hydration, \<open>InstantFaucetCredit\<close>), \<open>Finalize\<close> (header, \<open>commitBlockToRocks\<close>,
    \<open>FinalizeConfirmedBlock\<close>, peer blocks).
  \<^item> \<open>Identity\<close> (\<open>nodes/identity.go\<close>, vote messages and round identifiers), \<open>Rating\<close> (\<open>rating/\<close>),
    \<open>Voting\<close> (vote rounds of \<open>handlers.go\<close> and \<open>handlers_consensus.go\<close>), \<open>L1_Validation\<close>
    (\<open>validateTxsForL1\<close>, peer proposals), \<open>Rewards\<close> (\<open>rewards/\<close>, \<open>distributePool\<close>, restart totals).
  \<^item> \<open>Block_Production\<close>: \<open>selectTxsForBlockCollect\<close>, \<open>l1CollectBlockRun\<close>, \<open>l2ConfirmBlockRun\<close> and the
    background worker of \<open>auto_block.go\<close>, composing all of the above on one handler state.
  \<^item> \<open>Deals\<close>: \<open>deals/book.go\<close> and \<open>deals/escrow_read.go\<close>.
  \<^item> \<open>Limits\<close> (\<open>faucet/cooldown.go\<close>, \<open>ratelimit/limiter.go\<close>, the faucet handler), \<open>Admission\<close> (Core validation,
    \<open>admitToMempool\<close>, nonce reservations), \<open>Contact_Economy\<close> (\<open>contacteconomy/\<close>, \<open>protocol/ownership.go\<close>),
    \<open>Escrow_Api\<close> (\<open>escrow/\<close>, \<open>protocol/contact.go\<close> and the escrow, deal and contact handlers), \<open>Messaging\<close>
    (\<open>internal/websocket\<close>: sessions, direct messages, the offline buffer, the contact protocol).
  \<^item> \<open>Go_Json\<close> (decoded JSON and \<open>float64\<close> numbers), \<open>Peer_Network\<close> (\<open>nodes/nodes.go\<close>, \<open>nodes/discovery.go\<close>: the table of
    peers, events, broadcasts, dialling and gossip), \<open>Chain_Sync\<close> (\<open>chain_sync.go\<close>, \<open>onBlockConfirmed\<close>, \<open>onSyncApply\<close>),
    \<open>Startup\<close> (\<open>initChainPersistence\<close> and the hydration in \<open>handlers_sync.go\<close>).
  \<^item> \<open>Chain_Rpc\<close> (\<open>chain_rpc.go\<close>), \<open>Accounts_Index\<close> (\<open>accounts_index.go\<close>), \<open>Channel_Identity\<close> (\<open>channelidentity/store.go\<close> and its
    handlers), \<open>Diagnostics\<close> (\<open>consistency.go\<close>, \<open>counters.go\<close>): what clients and operators read.
  \<^item> \<open>Consensus_Routes\<close> (the guard in \<open>main.go\<close>, the fronts of L1 collect and L2 confirm, \<open>ConfirmBlock\<close>), \<open>Send_Api\<close> (\<open>SendTransaction\<close>,
    \<open>DemoSendTx\<close>, \<open>handleNewTransaction\<close>), \<open>Explorer_Api\<close> (\<open>GetAllTransactions\<close>, \<open>GetBlock\<close> and their helpers in \<open>handlers.go\<close>).
  \<^item> \<open>Core_Client\<close> (\<open>core/rpc_client.go\<close>, \<open>core/arg_spill.go\<close>): the connection to Core, and
    \<open>Dag_Calls\<close> (\<open>core/dag.go\<close>, \<open>onDagVertex\<close>): the calls that proposals and commits of the DAG make over it.
  \<^bold>\<open>How the code is modelled.\<close> A Go struct is a record, an operation is a function on that record that
  returns its result beside the new state, an error return is a value of a sum or option type. Core,
  RocksDB, ed25519, the file system and the clock are arguments: records of functions (\<open>core_api\<close>, \<open>l1_core\<close>,
  \<open>final_api\<close>, \<open>ed25519\<close>) or flags that say whether a write succeeded; theorems hold for every value
  of them unless a hypothesis says otherwise. A mutex section is one step. Where the code releases a lock in
  the middle of an operation (during a Core call or a vote), the model takes a function \<open>mid\<close> that changes the
  shared state in between, so theorems cover interleavings with other handlers. Other handlers run as one
  step (the faucet, for one). \<open>ToLower\<close> and \<open>EqualFold\<close> fold ASCII letters only, a write to Core's socket that fails counts as
  nothing sent, and passing a message for an offline address on to the peers is a flag of the answer.

  \<^bold>\<open>What is shown.\<close>
  \<^item> Chain: over the local operations of a node no hash is confirmed twice, the history only grows and its numbers
    have no gap; a confirmation records exactly what Core applied or, undisturbed, restores Core's state, a changed pending block is fenced, peer blocks never
    replace local ones, finalisation is all or nothing together with RocksDB, a whole L2 run confirms and
    pays or leaves everything, and a tick of the worker keeps the chain sound unless it re-queues escrows with
    clashing nonces.
  \<^item> Mempool: pruning leaves a clean mempool and never drops the next usable nonce, abandoning a block puts
    the transactions back, orderings agree between nodes.
  \<^item> Votes: accepted votes bind to the signer, a round succeeds exactly when the threshold of distinct committee
    members said yes, two accepted rounds on one committee share a voter, unanimous rounds end, verdicts with
    Core fail closed but for the documented overrides; committees contain only eligible nodes and scores
    stay in range.
  \<^item> Money: fee splits conserve the fees, every unit of a block's fees is distributed, totals rebuilt from a
    history that carries its fees equal the running totals.
  \<^item> Disputes: panels are five different admissible volunteers, an outcome exists exactly with three reveals that
    open their commits, it is final, and the book survives a restart.
  \<^item> Clients: an admitted transaction passed Core, a nonce is not handed out twice, a refused submission keeps no
    reservation, an address the faucet credited is not paid again within its cooldown; a dispute is settled only with a quorum,
    a deal lock names its guarantor, only the receiver's wallet answers a contact request, over HTTP and over a
    websocket, free messages need an accepted request, a session is filed under its own address only, and a
    message for an offline address is delivered when the address registers.
  \<^item> Network: one table entry per peer and never the node itself, an event is processed once in five minutes, a
    broadcast reaches every live peer, a signed vote arrives unchanged and passes the check of the receiver, blocks
    survive the wire, synchronisation copies the peer's chain behind the own one, and a restart on the written
    snapshot recovers a node whose index agrees with its blocks.
  \<^item> Reads: the JSON-RPC interface serves every canonical block under the number it prints and changes no block, the pages
    of the account list cover every account once, a registered channel survives a restart, and a verdict of
    CONSISTENT means that the layers agree.
  \<^item> HTTP: a request of block production is forwarded at most once and runs where it was sent, a sent transaction was checked by
    Core, and the transaction list marks as confirmed exactly what the chain lists.
  \<^item> Core: a call of a listed mutating method is written at most once, an answer belongs to its request, and spilled arguments reach the subprocess
    unchanged.
  \<^bold>\<open>Bounds and fuel.\<close> Hypotheses on width: fees and pools below \<open>2 ^ 43\<close>, committees below \<open>2 ^ 40\<close> members,
  32-bit stakes, vote counts below \<open>2 ^ 42\<close>, fewer than \<open>2 ^ 63\<close> blocks, slices shorter than \<open>2 ^ 64\<close>; they
  are far above what the program meets and exclude only wrap-around, which the definitions keep. Recursion
  is structural or has a measure; the drain loop runs at most \<open>PLATARIUM_AUTO_BLOCK_DRAIN_MAX\<close> rounds (12 by
  default) and the peer vote at most 8 attempts, both from the code.

  \<^bold>\<open>Not modelled.\<close> The sockets, TLS, goroutine scheduling and the encoding of HTTP responses; the start of the Core process and the
  wrappers around its methods, whose answers are arguments; logging, metrics, the AI proxy and the reward report over HTTP: I/O without
  a state the theorems could speak about.
\<close>

end
